(* ===== verification/Prelude.thy ===== *)
theory Prelude
  imports Main "HOL-Library.Word"
begin

text \<open>
  Shared ground of the development.

  \<^item> \<open>fault\<close>: the ways a C execution can leave the defined part of the language
    (a failed \<^verbatim>\<open>assert\<close>, a read or write through \<^verbatim>\<open>NULL\<close>, through a freed pointer or
    outside an array, a signed overflow, the use of a value that a function did not return, the read of a member of a union that does not hold it). Functions of the model that touch memory return \<open>fault + 'a\<close>,
    so "no undefined behaviour" is a statement about \<open>Inr\<close>.
  \<^item> \<open>try_bind\<close>: sequencing of such functions, with its inversion rules.
  \<^item> \<open>find_index\<close>: the ubiquitous C loop that scans an array for the first entry with
    some property and breaks.
  \<^item> the result codes \<open>XrResult\<close> (OpenXR) and \<open>xrt_result\<close> (Monado's internal interface).
\<close>

section \<open>Automation collections\<close>

named_theorems try_simps \<open>inversion of successful and failed runs\<close>

section \<open>Faults and sequencing\<close>

datatype fault =
    AssertFailed
  | NullDeref
  | UseAfterFree
  | OutOfBounds
  | MutexNotHeld
  | UninitRead
  | SignedOverflow
  | NoReturnValue
  | WrongMember
  | OutOfFuel

definition try_bind :: "'e + 'a \<Rightarrow> ('a \<Rightarrow> 'e + 'b) \<Rightarrow> 'e + 'b" where
  "try_bind m f = (case m of Inl e \<Rightarrow> Inl e | Inr x \<Rightarrow> f x)"

lemma try_bind_Inl [simp]: "try_bind (Inl e) f = Inl e"
  by (simp add: try_bind_def)

lemma try_bind_Inr [simp]: "try_bind (Inr x) f = f x"
  by (simp add: try_bind_def)

lemma try_bind_eq_Inr [try_simps]:
  "try_bind m f = Inr y \<longleftrightarrow> (\<exists>x. m = Inr x \<and> f x = Inr y)"
  by (cases m) auto

lemma try_bind_eq_Inl [try_simps]:
  "try_bind m f = Inl e \<longleftrightarrow> m = Inl e \<or> (\<exists>x. m = Inr x \<and> f x = Inl e)"
  by (cases m) auto

lemma try_bindE:
  assumes "try_bind m f = Inr y"
  obtains x where "m = Inr x" "f x = Inr y"
  using assms by (auto simp: try_bind_eq_Inr)

lemma try_bind_cong [fundef_cong]:
  "m = m' \<Longrightarrow> (\<And>x. m' = Inr x \<Longrightarrow> f x = g x) \<Longrightarrow> try_bind m f = try_bind m' g"
  by (cases m') auto

text \<open>\<^verbatim>\<open>assert(b)\<close>.\<close>

definition c_assert :: "bool \<Rightarrow> fault + unit" where
  "c_assert b = (if b then Inr () else Inl AssertFailed)"

lemma c_assert_eq_Inr [try_simps]: "c_assert b = Inr u \<longleftrightarrow> b"
  by (simp add: c_assert_def)

lemma c_assert_True [simp]: "c_assert True = Inr ()"
  by (simp add: c_assert_def)

lemma c_assert_False [simp]: "c_assert False = Inl AssertFailed"
  by (simp add: c_assert_def)

text \<open>Array reads and writes that fault outside the array.\<close>

definition arr_get :: "'a list \<Rightarrow> nat \<Rightarrow> fault + 'a" where
  "arr_get xs i = (if i < length xs then Inr (xs ! i) else Inl OutOfBounds)"

definition arr_set :: "'a list \<Rightarrow> nat \<Rightarrow> 'a \<Rightarrow> fault + 'a list" where
  "arr_set xs i x = (if i < length xs then Inr (xs[i := x]) else Inl OutOfBounds)"

lemma arr_get_eq_Inr [try_simps]: "arr_get xs i = Inr x \<longleftrightarrow> i < length xs \<and> x = xs ! i"
  by (auto simp: arr_get_def)

lemma arr_set_eq_Inr [try_simps]: "arr_set xs i x = Inr ys \<longleftrightarrow> i < length xs \<and> ys = xs[i := x]"
  by (auto simp: arr_set_def)

lemma arr_get_in [simp]: "i < length xs \<Longrightarrow> arr_get xs i = Inr (xs ! i)"
  by (simp add: arr_get_def)

lemma arr_set_in [simp]: "i < length xs \<Longrightarrow> arr_set xs i x = Inr (xs[i := x])"
  by (simp add: arr_set_def)

text \<open>A heap of objects: reading an address that is not allocated is a use after free.\<close>

type_synonym addr = nat

definition deref :: "(addr \<Rightarrow> 'a option) \<Rightarrow> addr \<Rightarrow> fault + 'a" where
  "deref h a = (case h a of None \<Rightarrow> Inl UseAfterFree | Some c \<Rightarrow> Inr c)"

lemma deref_eq_Inr [try_simps]: "deref h a = Inr c \<longleftrightarrow> h a = Some c"
  by (simp add: deref_def split: option.splits)

lemma deref_Some [simp]: "h a = Some c \<Longrightarrow> deref h a = Inr c"
  by (simp add: deref_def)

section \<open>Scanning an array for the first matching entry\<close>

primrec find_index :: "('a \<Rightarrow> bool) \<Rightarrow> 'a list \<Rightarrow> nat option" where
  "find_index p [] = None"
| "find_index p (x # xs) = (if p x then Some 0 else map_option Suc (find_index p xs))"

lemma find_index_None_iff: "find_index p xs = None \<longleftrightarrow> (\<forall>x \<in> set xs. \<not> p x)"
  by (induction xs) auto

lemma find_index_Some_iff:
  "find_index p xs = Some i \<longleftrightarrow> i < length xs \<and> p (xs ! i) \<and> (\<forall>j < i. \<not> p (xs ! j))"
proof (induction xs arbitrary: i)
  case Nil
  then show ?case by simp
next
  case (Cons x xs)
  then show ?case
    by (cases i) (auto simp: nth_Cons split: nat.splits)
qed

lemma find_index_SomeD:
  assumes "find_index p xs = Some i"
  shows "i < length xs" and "p (xs ! i)"
  using assms by (auto simp: find_index_Some_iff)

lemma find_index_exists: "x \<in> set xs \<Longrightarrow> p x \<Longrightarrow> \<exists>i. find_index p xs = Some i"
  using find_index_None_iff [of p xs] by auto

lemma find_index_replicate [simp]:
  "find_index p (replicate n x) = (if n > 0 \<and> p x then Some 0 else None)"
  by (induction n) auto

section \<open>Counting array entries\<close>

text \<open>Several components keep a counter beside an array: how many entries satisfy \<open>p\<close>.\<close>

definition count_if :: "('a \<Rightarrow> bool) \<Rightarrow> 'a list \<Rightarrow> nat" where
  "count_if p xs = length (filter p xs)"

lemma count_if_Nil [simp]: "count_if p [] = 0"
  by (simp add: count_if_def)

lemma count_if_Cons [simp]: "count_if p (x # xs) = (if p x then Suc (count_if p xs) else count_if p xs)"
  by (simp add: count_if_def)

lemma count_if_le_length: "count_if p xs \<le> length xs"
  by (simp add: count_if_def)

lemma count_if_pos: "i < length xs \<Longrightarrow> p (xs ! i) \<Longrightarrow> 0 < count_if p xs"
proof -
  assume "i < length xs" and "p (xs ! i)"
  then have "filter p xs \<noteq> []"
    by (metis filter_empty_conv nth_mem)
  then show ?thesis
    by (simp add: count_if_def)
qed

lemma count_if_update:
  assumes "i < length xs"
  shows "count_if p (xs[i := y]) =
    count_if p xs - (if p (xs ! i) then 1 else 0) + (if p y then 1 else 0)"
  using assms
proof (induction xs arbitrary: i)
  case Nil
  then show ?case by simp
next
  case (Cons x xs)
  show ?case
  proof (cases i)
    case 0
    then show ?thesis by simp
  next
    case (Suc j)
    with Cons.prems have j: "j < length xs" by simp
    have pos: "p (xs ! j) \<Longrightarrow> 0 < count_if p xs"
      using j by (rule count_if_pos)
    from Suc Cons.IH [OF j] show ?thesis
      by (auto dest: pos)
  qed
qed

lemma count_if_replicate [simp]: "count_if p (replicate n x) = (if p x then n else 0)"
  by (induction n) auto

section \<open>Result codes\<close>

text \<open>
  The OpenXR results the modelled functions return; success codes first, as in
  \<^verbatim>\<open>openxr.h\<close>.
\<close>

datatype XrResult =
    XR_SUCCESS
  | XR_TIMEOUT_EXPIRED
  | XR_SESSION_LOSS_PENDING
  | XR_EVENT_UNAVAILABLE
  | XR_ERROR_VALIDATION_FAILURE
  | XR_ERROR_RUNTIME_FAILURE
  | XR_ERROR_FEATURE_UNSUPPORTED
  | XR_ERROR_LIMIT_REACHED
  | XR_ERROR_SESSION_RUNNING
  | XR_ERROR_SESSION_NOT_RUNNING
  | XR_ERROR_SESSION_NOT_READY
  | XR_ERROR_SESSION_NOT_STOPPING
  | XR_ERROR_SESSION_LOST
  | XR_ERROR_INSTANCE_LOST
  | XR_ERROR_CALL_ORDER_INVALID
  | XR_ERROR_SWAPCHAIN_FORMAT_UNSUPPORTED
  | XR_ERROR_GRAPHICS_DEVICE_INVALID
  | XR_ERROR_VIEW_CONFIGURATION_TYPE_UNSUPPORTED
  | XR_ERROR_PATH_INVALID
  | XR_ERROR_PATH_FORMAT_INVALID
  | XR_ERROR_PATH_UNSUPPORTED
  | XR_ERROR_NAME_INVALID
  | XR_ERROR_LOCALIZED_NAME_INVALID
  | XR_FRAME_DISCARDED
  | XR_SESSION_NOT_FOCUSED
  | XR_ERROR_SIZE_INSUFFICIENT
  | XR_ERROR_GRAPHICS_REQUIREMENTS_CALL_MISSING
  | XR_ERROR_TIME_INVALID
  | XR_ERROR_LAYER_INVALID
  | XR_ERROR_LAYER_LIMIT_EXCEEDED
  | XR_ERROR_ENVIRONMENT_BLEND_MODE_UNSUPPORTED
  | XR_ERROR_POSE_INVALID
  | XR_ERROR_SWAPCHAIN_RECT_INVALID
  | XR_ERROR_HANDLE_INVALID
  | XR_ERROR_ACTIONSET_NOT_ATTACHED
  | XR_ERROR_ACTIONSETS_ALREADY_ATTACHED
  | XR_ERROR_NAME_DUPLICATED
  | XR_ERROR_LOCALIZED_NAME_DUPLICATED
  | XR_ERROR_ACTION_TYPE_MISMATCH

text \<open>The internal results of \<^verbatim>\<open>xrt/xrt_results.h\<close> that the modelled functions inspect.\<close>

datatype xrt_result =
    XRT_SUCCESS
  | XRT_TIMEOUT
  | XRT_ERROR_IPC_FAILURE
  | XRT_ERROR_IPC_SESSION_NOT_CREATED
  | XRT_ERROR_IPC_SESSION_ALREADY_CREATED
  | XRT_ERROR_COMPOSITOR_NOT_SUPPORTED
  | XRT_ERROR_SWAPCHAIN_FLAG_VALID_BUT_UNSUPPORTED
  | XRT_ERROR_SWAPCHAIN_FORMAT_UNSUPPORTED
  | XRT_ERROR_THREADING_INIT_FAILURE
  | XRT_ERROR_MULTI_SESSION_NOT_IMPLEMENTED
  | XRT_ERROR_OTHER

section \<open>Signed words\<close>

lemma sint_add_exact:
  fixes a b :: "32 word"
  assumes "- (2 ^ 31) \<le> sint a + sint b" "sint a + sint b < 2 ^ 31"
  shows "sint (a + b) = sint a + sint b"
proof -
  have "sint (a + b) = signed_take_bit 31 (sint a + sint b)" by (simp add: sint_word_ariths(1))
  also have "\<dots> = sint a + sint b" using assms by (rule signed_take_bit_int_eq_self)
  finally show ?thesis .
qed

lemma sint_small:
  fixes a :: "32 word"
  assumes "uint a < 2 ^ 31"
  shows "sint a = uint a"
proof -
  have "sint a = signed_take_bit 31 (uint a)" by (simp add: sint_uint)
  also have "\<dots> = uint a" using assms by (intro signed_take_bit_int_eq_self) (simp_all add: order_trans [OF _ uint_ge_0])
  finally show ?thesis .
qed

section \<open>Shared constants of the compositor interface\<close>

definition XRT_MAX_VIEWS :: nat where
  "XRT_MAX_VIEWS = 2"

datatype xrt_layer_type =
    XRT_LAYER_PROJECTION
  | XRT_LAYER_PROJECTION_DEPTH
  | XRT_LAYER_QUAD
  | XRT_LAYER_CUBE
  | XRT_LAYER_CYLINDER
  | XRT_LAYER_EQUIRECT1
  | XRT_LAYER_EQUIRECT2
  | XRT_LAYER_PASSTHROUGH

end
