(* ===== verification/Fifo.thy ===== *)
theory Fifo
  imports Prelude
begin

text \<open>
  The contract of a first-in first-out queue built from C memory, shared by the event queue
  of an OpenXR instance (\<open>Event_Queue\<close>), the event list of a session (\<open>Base_System\<close>) and
  the frame queue of a sink (\<open>Sink_Queue\<close>).

  \<open>hold q ds\<close> says that the concrete queue \<open>q\<close> is intact and holds the entries \<open>ds\<close>,
  oldest first. \<open>enq\<close> gets the address of the newly allocated cell, which has to be
  \<open>fresh\<close>. The client's theorem is a simulation: the answers of any run of the concrete
  operations are those of a plain list.
\<close>

datatype 'e fifo_op = Enq 'e | Deq

fun spec_run :: "'e fifo_op list \<Rightarrow> 'e list \<Rightarrow> 'e list \<times> 'e option list" where
  "spec_run [] ds = (ds, [])"
| "spec_run (Enq d # ops) ds = spec_run ops (ds @ [d])"
| "spec_run (Deq # ops) [] = (case spec_run ops [] of (ds', outs) \<Rightarrow> (ds', None # outs))"
| "spec_run (Deq # ops) (d # ds) = (case spec_run ops ds of (ds', outs) \<Rightarrow> (ds', Some d # outs))"

inductive fifo_trace ::
  "('q \<Rightarrow> 'a \<Rightarrow> 'e \<Rightarrow> fault + 'q) \<Rightarrow> ('q \<Rightarrow> fault + ('q \<times> 'e option)) \<Rightarrow> ('q \<Rightarrow> 'a \<Rightarrow> bool)
    \<Rightarrow> 'q \<Rightarrow> 'e fifo_op list \<Rightarrow> 'e option list \<Rightarrow> 'q \<Rightarrow> bool"
  for enq deq fresh where
  trace_nil: "fifo_trace enq deq fresh q [] [] q"
| trace_enq: "fresh q a \<Longrightarrow> enq q a d = Inr q1 \<Longrightarrow> fifo_trace enq deq fresh q1 ops outs q2
    \<Longrightarrow> fifo_trace enq deq fresh q (Enq d # ops) outs q2"
| trace_deq: "deq q = Inr (q1, r) \<Longrightarrow> fifo_trace enq deq fresh q1 ops outs q2
    \<Longrightarrow> fifo_trace enq deq fresh q (Deq # ops) (r # outs) q2"

locale fifo =
  fixes hold :: "'q \<Rightarrow> 'e list \<Rightarrow> bool"
    and enq :: "'q \<Rightarrow> 'a \<Rightarrow> 'e \<Rightarrow> fault + 'q"
    and deq :: "'q \<Rightarrow> fault + ('q \<times> 'e option)"
    and fresh :: "'q \<Rightarrow> 'a \<Rightarrow> bool"
  assumes enq_hold: "hold q ds \<Longrightarrow> fresh q a \<Longrightarrow> \<exists>q'. enq q a d = Inr q' \<and> hold q' (ds @ [d])"
    and deq_nil: "hold q [] \<Longrightarrow> \<exists>q'. deq q = Inr (q', None) \<and> hold q' []"
    and deq_cons: "hold q (d # ds) \<Longrightarrow> \<exists>q'. deq q = Inr (q', Some d) \<and> hold q' ds"
begin

lemma deq_total: "hold q ds \<Longrightarrow> \<exists>q'. deq q = Inr (q', case ds of [] \<Rightarrow> None | d # _ \<Rightarrow> Some d) \<and> hold q' (tl ds)"
  by (cases ds) (auto dest: deq_nil deq_cons)

lemma trace_refines:
  assumes "fifo_trace enq deq fresh q ops outs q'" and "hold q ds"
  shows "\<exists>ds'. spec_run ops ds = (ds', outs) \<and> hold q' ds'"
  using assms
proof (induction arbitrary: ds rule: fifo_trace.induct)
  case (trace_nil q)
  then show ?case by auto
next
  case (trace_enq q a d q1 ops outs q2)
  from enq_hold [OF trace_enq.prems trace_enq.hyps(1)] trace_enq.hyps(2)
  have "hold q1 (ds @ [d])" by (metis sum.inject(2))
  with trace_enq.IH show ?case by simp
next
  case (trace_deq q q1 r ops outs q2)
  from deq_total [OF trace_deq.prems] trace_deq.hyps(1)
  have r: "r = (case ds of [] \<Rightarrow> None | d # _ \<Rightarrow> Some d)" and "hold q1 (tl ds)" by auto
  with trace_deq.IH obtain ds' where "spec_run ops (tl ds) = (ds', outs)" and "hold q2 ds'" by blast
  with r show ?case by (cases ds) auto
qed

end

section \<open>Chains of cells\<close>

text \<open>\<open>as\<close> are the addresses of the cells reached from \<open>x\<close> by the link \<open>nxt\<close>, up to \<^verbatim>\<open>NULL\<close>.\<close>

primrec chain :: "('c \<Rightarrow> addr option) \<Rightarrow> (addr \<Rightarrow> 'c option) \<Rightarrow> addr option \<Rightarrow> addr list \<Rightarrow> bool" where
  "chain nxt h x [] \<longleftrightarrow> x = None"
| "chain nxt h x (a # as) \<longleftrightarrow> x = Some a \<and> (\<exists>c. h a = Some c \<and> chain nxt h (nxt c) as)"

lemma chain_None [simp]: "chain nxt h None as \<longleftrightarrow> as = []"
  by (cases as) auto

lemma chain_Some: "chain nxt h (Some a) as \<longleftrightarrow> (\<exists>c bs. as = a # bs \<and> h a = Some c \<and> chain nxt h (nxt c) bs)"
  by (cases as) auto

lemma chain_dom: "chain nxt h x as \<Longrightarrow> set as \<subseteq> dom h"
  by (induction as arbitrary: x) auto

lemma chain_frame: "a \<notin> set as \<Longrightarrow> chain nxt (h(a := v)) x as \<longleftrightarrow> chain nxt h x as"
  by (induction as arbitrary: x) auto

text \<open>Linking a new last cell \<open>n\<close> behind the old last one \<open>l\<close>.\<close>

lemma chain_snoc:
  assumes "chain nxt h x (as @ [l])" and "distinct (as @ [l])" and "n \<notin> set (as @ [l])"
    and "nxt cl = Some n" and "nxt cn = None"
  shows "chain nxt (h(n \<mapsto> cn, l \<mapsto> cl)) x (as @ [l, n])"
  using assms
proof (induction as arbitrary: x)
  case (Cons a as)
  then show ?case by auto
qed auto

end
