(* ===== verification/Event_Queue.thy ===== *)
theory Event_Queue
  imports Fifo
begin

text \<open>
  The instance's event queue: \<^verbatim>\<open>src/src/xrt/state_trackers/oxr/oxr_event.c\<close>.

  The queue is a singly linked list of heap cells with a head (\<^verbatim>\<open>inst->event.next\<close>) and a
  tail pointer (\<^verbatim>\<open>inst->event.last\<close>). The model keeps the pointers: \<open>eq_heap\<close> maps the
  addresses of allocated cells to their contents, a freed cell is gone from it, and reading
  or writing through a pointer to it is the fault \<open>UseAfterFree\<close>. The mutex is held for
  the whole of each modelled section, so each function is one atomic step. The contract of
  a FIFO is the locale \<open>fifo\<close> of theory \<open>Fifo\<close>, interpreted below on these
  functions.
\<close>

section \<open>Events\<close>

datatype XrSessionState =
    XR_SESSION_STATE_UNKNOWN
  | XR_SESSION_STATE_IDLE
  | XR_SESSION_STATE_READY
  | XR_SESSION_STATE_SYNCHRONIZED
  | XR_SESSION_STATE_VISIBLE
  | XR_SESSION_STATE_FOCUSED
  | XR_SESSION_STATE_STOPPING
  | XR_SESSION_STATE_LOSS_PENDING
  | XR_SESSION_STATE_EXITING

datatype XrReferenceSpaceType =
    XR_REFERENCE_SPACE_TYPE_VIEW
  | XR_REFERENCE_SPACE_TYPE_LOCAL
  | XR_REFERENCE_SPACE_TYPE_STAGE
  | XR_REFERENCE_SPACE_TYPE_LOCAL_FLOOR_EXT
  | XR_REFERENCE_SPACE_TYPE_UNBOUNDED_MSFT

type_synonym XrSession = "64 word"
type_synonym XrTime = int
type_synonym float32 = "32 word" \<comment> \<open>the bit pattern of a \<^verbatim>\<open>float\<close> that is only copied\<close>
type_synonym XrPosef = "float32 list"
type_synonym XrFlags64 = "64 word"

text \<open>The event structures the functions of the file fill in, after their \<^verbatim>\<open>type\<close> tag.\<close>

datatype XrEventData =
    SessionStateChanged XrSession XrSessionState XrTime
  | InteractionProfileChanged XrSession
  | ReferenceSpaceChangePending XrSession XrReferenceSpaceType XrTime bool XrPosef
  | DisplayRefreshRateChangedFB float32 float32
  | MainSessionVisibilityChangedEXTX XrFlags64 bool
  | PerfSettingsEXT int int int int
  | PassthroughStateChangedFB XrFlags64
  | VisibilityMaskChangedKHR XrSession int "32 word"
  | UserPresenceChangedEXT XrSession bool

record oxr_event =
  ev_next :: "addr option"
  ev_result :: XrResult
  ev_data :: XrEventData

record event_queue =
  eq_heap :: "addr \<rightharpoonup> oxr_event"
  eq_next :: "addr option"
  eq_last :: "addr option"

section \<open>Internal helpers\<close>

definition pop :: "event_queue \<Rightarrow> fault + (event_queue \<times> addr option)" where
  "pop q = (case eq_next q of
      None \<Rightarrow> Inr (q, None)
    | Some ret \<Rightarrow>
        try_bind (deref (eq_heap q) ret) (\<lambda>e.
          let q1 = q\<lparr>eq_next := ev_next e, eq_heap := (eq_heap q)(ret \<mapsto> e\<lparr>ev_next := None\<rparr>)\<rparr>;
              q2 = (if eq_last q1 = Some ret then q1\<lparr>eq_last := None\<rparr> else q1)
          in Inr (q2, Some ret)))"

definition push :: "event_queue \<Rightarrow> addr \<Rightarrow> fault + event_queue" where
  "push q event =
     try_bind
       (case eq_last q of
          None \<Rightarrow> Inr q
        | Some tail \<Rightarrow>
            try_bind (deref (eq_heap q) tail) (\<lambda>e.
              Inr (q\<lparr>eq_heap := (eq_heap q)(tail \<mapsto> e\<lparr>ev_next := Some event\<rparr>)\<rparr>)))
       (\<lambda>q1. let q2 = q1\<lparr>eq_last := Some event\<rparr> in
             Inr (if eq_next q2 = None then q2\<lparr>eq_next := Some event\<rparr> else q2))"

text \<open>
  \<^verbatim>\<open>oxr_event_alloc\<close>, with the structure already filled in: \<open>mem\<close> is the pointer that
  \<^verbatim>\<open>calloc\<close> returned. The cell only becomes reachable through \<^verbatim>\<open>push\<close>.
\<close>

definition oxr_event_alloc ::
  "event_queue \<Rightarrow> addr option \<Rightarrow> XrEventData \<Rightarrow> event_queue \<times> XrResult \<times> addr option" where
  "oxr_event_alloc q mem d = (case mem of
      None \<Rightarrow> (q, XR_ERROR_RUNTIME_FAILURE, None)
    | Some a \<Rightarrow>
        (q\<lparr>eq_heap := (eq_heap q)(a \<mapsto> \<lparr>ev_next = None, ev_result = XR_SUCCESS, ev_data = d\<rparr>)\<rparr>,
         XR_SUCCESS, Some a))"

text \<open>The body all the push functions share: \<^verbatim>\<open>ALLOC\<close>, fill, lock, push, unlock.\<close>

definition alloc_and_push ::
  "event_queue \<Rightarrow> addr option \<Rightarrow> XrEventData \<Rightarrow> fault + (event_queue \<times> XrResult)" where
  "alloc_and_push q mem d = (case oxr_event_alloc q mem d of
      (q1, ret, None) \<Rightarrow> Inr (q1, ret)
    | (q1, ret, Some event) \<Rightarrow> try_bind (push q1 event) (\<lambda>q2. Inr (q2, XR_SUCCESS)))"

definition is_session_link_to_event :: "XrEventData \<Rightarrow> XrSession \<Rightarrow> bool" where
  "is_session_link_to_event d session = (case d of
      SessionStateChanged s _ _ \<Rightarrow> s = session
    | InteractionProfileChanged s \<Rightarrow> s = session
    | ReferenceSpaceChangePending s _ _ _ _ \<Rightarrow> s = session
    | _ \<Rightarrow> False)"

section \<open>The exported push functions\<close>

definition oxr_event_push_XrEventDataSessionStateChanged ::
  "event_queue \<Rightarrow> addr option \<Rightarrow> XrSession \<Rightarrow> XrSessionState \<Rightarrow> XrTime \<Rightarrow> fault + (event_queue \<times> XrResult)" where
  "oxr_event_push_XrEventDataSessionStateChanged q mem sess state time =
     alloc_and_push q mem (SessionStateChanged sess state time)"

definition oxr_event_push_XrEventDataInteractionProfileChanged ::
  "event_queue \<Rightarrow> addr option \<Rightarrow> XrSession \<Rightarrow> fault + (event_queue \<times> XrResult)" where
  "oxr_event_push_XrEventDataInteractionProfileChanged q mem sess =
     alloc_and_push q mem (InteractionProfileChanged sess)"

definition oxr_event_push_XrEventDataReferenceSpaceChangePending ::
  "event_queue \<Rightarrow> addr option \<Rightarrow> XrSession \<Rightarrow> XrReferenceSpaceType \<Rightarrow> XrTime \<Rightarrow> bool \<Rightarrow> XrPosef
    \<Rightarrow> fault + (event_queue \<times> XrResult)" where
  "oxr_event_push_XrEventDataReferenceSpaceChangePending q mem sess refType changeTime poseValid pose =
     alloc_and_push q mem (ReferenceSpaceChangePending sess refType changeTime poseValid pose)"

definition oxr_event_push_XrEventDataDisplayRefreshRateChangedFB ::
  "event_queue \<Rightarrow> addr option \<Rightarrow> float32 \<Rightarrow> float32 \<Rightarrow> fault + (event_queue \<times> XrResult)" where
  "oxr_event_push_XrEventDataDisplayRefreshRateChangedFB q mem fromRate toRate =
     alloc_and_push q mem (DisplayRefreshRateChangedFB fromRate toRate)"

definition oxr_event_push_XrEventDataMainSessionVisibilityChangedEXTX ::
  "event_queue \<Rightarrow> addr option \<Rightarrow> bool \<Rightarrow> fault + (event_queue \<times> XrResult)" where
  "oxr_event_push_XrEventDataMainSessionVisibilityChangedEXTX q mem visible =
     alloc_and_push q mem (MainSessionVisibilityChangedEXTX 0 visible)"

text \<open>The four enum conversions of \<^verbatim>\<open>oxr_conversions.h\<close> are already applied to the arguments.\<close>

definition oxr_event_push_XrEventDataPerfSettingsEXTX ::
  "event_queue \<Rightarrow> addr option \<Rightarrow> int \<Rightarrow> int \<Rightarrow> int \<Rightarrow> int \<Rightarrow> fault + (event_queue \<times> XrResult)" where
  "oxr_event_push_XrEventDataPerfSettingsEXTX q mem dom' subDomain fromLevel toLevel =
     alloc_and_push q mem (PerfSettingsEXT dom' subDomain fromLevel toLevel)"

definition oxr_event_push_XrEventDataPassthroughStateChangedFB ::
  "event_queue \<Rightarrow> addr option \<Rightarrow> XrFlags64 \<Rightarrow> fault + (event_queue \<times> XrResult)" where
  "oxr_event_push_XrEventDataPassthroughStateChangedFB q mem flags =
     alloc_and_push q mem (PassthroughStateChangedFB flags)"

definition oxr_event_push_XrEventDataVisibilityMaskChangedKHR ::
  "event_queue \<Rightarrow> addr option \<Rightarrow> XrSession \<Rightarrow> int \<Rightarrow> 32 word \<Rightarrow> fault + (event_queue \<times> XrResult)" where
  "oxr_event_push_XrEventDataVisibilityMaskChangedKHR q mem sess viewConfigurationType viewIndex =
     alloc_and_push q mem (VisibilityMaskChangedKHR sess viewConfigurationType viewIndex)"

definition oxr_event_push_XrEventDataUserPresenceChangedEXT ::
  "event_queue \<Rightarrow> addr option \<Rightarrow> XrSession \<Rightarrow> bool \<Rightarrow> fault + (event_queue \<times> XrResult)" where
  "oxr_event_push_XrEventDataUserPresenceChangedEXT q mem sess isUserPresent =
     alloc_and_push q mem (UserPresenceChangedEXT sess isUserPresent)"

section \<open>Removing the events of a session, taking the next event\<close>

text \<open>
  The loop of \<^verbatim>\<open>oxr_event_remove_session_events\<close> over \<^verbatim>\<open>e\<close>. As in the code only the head
  and the tail pointer are adjusted when a cell is freed. Fuel bounds the number of rounds.
\<close>

primrec remove_loop :: "nat \<Rightarrow> XrSession \<Rightarrow> event_queue \<Rightarrow> addr option \<Rightarrow> fault + event_queue" where
  "remove_loop 0 session q e = Inl OutOfFuel"
| "remove_loop (Suc fuel) session q e = (case e of
      None \<Rightarrow> Inr q
    | Some cur \<Rightarrow>
        try_bind (deref (eq_heap q) cur) (\<lambda>c.
          if \<not> is_session_link_to_event (ev_data c) session
          then remove_loop fuel session q (ev_next c)
          else
            let q1 = (if eq_next q = Some cur then q\<lparr>eq_next := ev_next c\<rparr> else q);
                q2 = (if eq_last q1 = Some cur then q1\<lparr>eq_last := None\<rparr> else q1);
                q3 = q2\<lparr>eq_heap := (eq_heap q2)(cur := None)\<rparr>
            in remove_loop fuel session q3 (ev_next c)))"

definition oxr_event_remove_session_events ::
  "nat \<Rightarrow> event_queue \<Rightarrow> XrSession \<Rightarrow> fault + (event_queue \<times> XrResult)" where
  "oxr_event_remove_session_events fuel q session =
     try_bind (remove_loop fuel session q (eq_next q)) (\<lambda>q1. Inr (q1, XR_SUCCESS))"

text \<open>The second half of \<^verbatim>\<open>oxr_poll_event\<close>, after the sessions have been polled.\<close>

definition take_event :: "event_queue \<Rightarrow> fault + (event_queue \<times> XrResult \<times> XrEventData option)" where
  "take_event q =
     try_bind (pop q) (\<lambda>(q1, event). case event of
        None \<Rightarrow> Inr (q1, XR_EVENT_UNAVAILABLE, None)
      | Some a \<Rightarrow>
          try_bind (deref (eq_heap q1) a) (\<lambda>e.
            Inr (q1\<lparr>eq_heap := (eq_heap q1)(a := None)\<rparr>, ev_result e, Some (ev_data e))))"

section \<open>The list a queue represents\<close>

primrec list_at :: "(addr \<rightharpoonup> oxr_event) \<Rightarrow> addr option \<Rightarrow> addr list \<Rightarrow> bool" where
  "list_at h x [] \<longleftrightarrow> x = None"
| "list_at h x (a # as) \<longleftrightarrow> x = Some a \<and> (\<exists>e. h a = Some e \<and> list_at h (ev_next e) as)"

definition queue_cells :: "event_queue \<Rightarrow> addr list \<Rightarrow> bool" where
  "queue_cells q as \<longleftrightarrow> distinct as \<and> list_at (eq_heap q) (eq_next q) as
     \<and> eq_last q = (if as = [] then None else Some (last as))
     \<and> (\<forall>a \<in> set as. \<forall>e. eq_heap q a = Some e \<longrightarrow> ev_result e = XR_SUCCESS)"

definition data_of :: "event_queue \<Rightarrow> addr \<Rightarrow> XrEventData" where
  "data_of q a = (case eq_heap q a of Some e \<Rightarrow> ev_data e | None \<Rightarrow> undefined)"

definition holds :: "event_queue \<Rightarrow> XrEventData list \<Rightarrow> bool" where
  "holds q ds \<longleftrightarrow> (\<exists>as. queue_cells q as \<and> map (data_of q) as = ds)"

definition empty_queue :: event_queue where
  "empty_queue = \<lparr>eq_heap = Map.empty, eq_next = None, eq_last = None\<rparr>"

lemma list_at_frame: "a \<notin> set as \<Longrightarrow> list_at (h(a := v)) x as \<longleftrightarrow> list_at h x as"
  by (induction as arbitrary: x) auto

lemma list_at_dom: "list_at h x as \<Longrightarrow> set as \<subseteq> dom h"
  by (induction as arbitrary: x) auto

lemma list_at_append:
  "list_at h x (as @ b # bs) \<Longrightarrow> \<exists>e. h b = Some e \<and> list_at h (ev_next e) bs"
  by (induction as arbitrary: x) auto

lemma list_at_snoc:
  "list_at h x (as @ [l]) \<Longrightarrow> a \<notin> set (as @ [l]) \<Longrightarrow> distinct (as @ [l]) \<Longrightarrow> h l = Some e
    \<Longrightarrow> ev_next c = None
    \<Longrightarrow> list_at (h(a \<mapsto> c, l \<mapsto> e\<lparr>ev_next := Some a\<rparr>)) x (as @ [l, a])"
  by (induction as arbitrary: x) auto

lemma list_at_mem: "list_at h x as \<Longrightarrow> a \<in> set as \<Longrightarrow> \<exists>e. h a = Some e"
  using list_at_dom by fastforce

lemma data_of_other: "eq_heap q' a = eq_heap q a \<Longrightarrow> data_of q' a = data_of q a"
  by (simp add: data_of_def)

lemma holds_empty: "holds empty_queue []"
  by (simp add: holds_def queue_cells_def empty_queue_def)

text \<open>Pushing a freshly allocated cell appends its event.\<close>

lemma alloc_and_push_holds:
  assumes "holds q ds" and fresh: "a \<notin> dom (eq_heap q)"
  shows "\<exists>q'. alloc_and_push q (Some a) d = Inr (q', XR_SUCCESS) \<and> holds q' (ds @ [d])"
proof -
  from assms(1) obtain as where as: "queue_cells q as" and ds: "map (data_of q) as = ds"
    by (auto simp: holds_def)
  let ?c = "\<lparr>ev_next = None, ev_result = XR_SUCCESS, ev_data = d\<rparr>"
  from as have dist: "distinct as" and at: "list_at (eq_heap q) (eq_next q) as"
    and last: "eq_last q = (if as = [] then None else Some (last as))"
    and ok: "\<forall>b \<in> set as. \<forall>e. eq_heap q b = Some e \<longrightarrow> ev_result e = XR_SUCCESS"
    by (auto simp: queue_cells_def)
  have na: "a \<notin> set as" using list_at_dom [OF at] fresh by blast
  show ?thesis
  proof (cases as rule: rev_cases)
    case Nil
    with at last ds have "eq_next q = None" "eq_last q = None" "ds = []" by auto
    then show ?thesis
      by (intro exI [of _ "q\<lparr>eq_heap := (eq_heap q)(a \<mapsto> ?c), eq_last := Some a, eq_next := Some a\<rparr>"])
        (simp add: alloc_and_push_def oxr_event_alloc_def push_def holds_def queue_cells_def data_of_def
          exI [of _ "[a]"])
  next
    case (snoc bs l)
    obtain e where e: "eq_heap q l = Some e" using list_at_mem [OF at] snoc by auto
    have la: "l \<noteq> a" using na snoc by auto
    have nxt: "eq_next q \<noteq> None" using at snoc by (cases bs) auto
    let ?h = "(eq_heap q)(a \<mapsto> ?c, l \<mapsto> e\<lparr>ev_next := Some a\<rparr>)"
    let ?q = "q\<lparr>eq_heap := ?h, eq_last := Some a\<rparr>"
    have run: "alloc_and_push q (Some a) d = Inr (?q, XR_SUCCESS)"
      using last snoc e la nxt
      by (simp add: alloc_and_push_def oxr_event_alloc_def push_def deref_def Let_def)
    have "list_at ?h (eq_next q) (bs @ [l, a])"
      by (rule list_at_snoc) (use at snoc na dist e in auto)
    moreover have "\<forall>b \<in> set (bs @ [l, a]). \<forall>e'. ?h b = Some e' \<longrightarrow> ev_result e' = XR_SUCCESS"
      using ok snoc e by (auto split: if_splits)
    ultimately have "queue_cells ?q (bs @ [l, a])"
      using dist na snoc by (auto simp: queue_cells_def)
    moreover have "map (data_of ?q) (bs @ [l, a]) = ds @ [d]"
      using ds [symmetric] snoc e na dist by (auto simp: data_of_def)
    ultimately show ?thesis using run holds_def by blast
  qed
qed

text \<open>Polling an empty queue, and a non-empty one.\<close>

lemma take_event_empty: "holds q [] \<Longrightarrow> take_event q = Inr (q, XR_EVENT_UNAVAILABLE, None)"
  by (auto simp: holds_def queue_cells_def take_event_def pop_def)

lemma take_event_cells:
  assumes as: "queue_cells q (a # as)"
  shows "\<exists>q'. take_event q = Inr (q', XR_SUCCESS, Some (data_of q a)) \<and> queue_cells q' as
    \<and> (\<forall>b. b \<noteq> a \<longrightarrow> eq_heap q' b = eq_heap q b)"
proof -
  from as obtain e where e: "eq_next q = Some a" "eq_heap q a = Some e" "ev_result e = XR_SUCCESS"
    and at: "list_at (eq_heap q) (ev_next e) as" and dist: "a \<notin> set as" "distinct as"
    and last: "eq_last q = Some (if as = [] then a else last as)"
    and ok: "\<forall>b \<in> set as. \<forall>e. eq_heap q b = Some e \<longrightarrow> ev_result e = XR_SUCCESS"
    by (auto simp: queue_cells_def split: if_splits)
  let ?q = "\<lparr>eq_heap = (eq_heap q)(a := None), eq_next = ev_next e,
    eq_last = (if as = [] then None else Some (last as))\<rparr>"
  have "take_event q = Inr (?q, XR_SUCCESS, Some (data_of q a))"
  proof (cases "as = []")
    case True
    with e last show ?thesis by (simp add: take_event_def pop_def deref_def data_of_def)
  next
    case False
    with dist have "last as \<noteq> a" by (metis last_in_set)
    with e last False show ?thesis by (simp add: take_event_def pop_def deref_def data_of_def)
  qed
  moreover have "queue_cells ?q as"
    using at dist ok by (auto simp: queue_cells_def list_at_frame)
  ultimately show ?thesis by auto
qed

lemma take_event_holds:
  assumes "holds q (d # ds)"
  shows "\<exists>q'. take_event q = Inr (q', XR_SUCCESS, Some d) \<and> holds q' ds"
proof -
  from assms obtain a as where as: "queue_cells q (a # as)" and d: "data_of q a = d" "map (data_of q) as = ds"
    by (auto simp: holds_def)
  from take_event_cells [OF as] obtain q' where run: "take_event q = Inr (q', XR_SUCCESS, Some (data_of q a))"
    and as': "queue_cells q' as" and frame: "\<forall>b. b \<noteq> a \<longrightarrow> eq_heap q' b = eq_heap q b"
    by blast
  have "a \<notin> set as" using as by (simp add: queue_cells_def)
  with frame have "map (data_of q') as = map (data_of q) as"
    by (auto intro: data_of_other)
  with run as' d show ?thesis by (auto simp: holds_def)
qed

section \<open>The queue is a FIFO\<close>

definition push_data :: "event_queue \<Rightarrow> addr \<Rightarrow> XrEventData \<Rightarrow> fault + event_queue" where
  "push_data q a d = try_bind (alloc_and_push q (Some a) d) (\<lambda>(q', r). Inr q')"

definition poll_data :: "event_queue \<Rightarrow> fault + (event_queue \<times> XrEventData option)" where
  "poll_data q = try_bind (take_event q) (\<lambda>(q', r, d). Inr (q', d))"

definition unallocated :: "event_queue \<Rightarrow> addr \<Rightarrow> bool" where
  "unallocated q a \<longleftrightarrow> eq_heap q a = None"

interpretation eq: fifo holds push_data poll_data unallocated
proof unfold_locales
  fix q ds a d
  assume "holds q ds" and "unallocated q a"
  with alloc_and_push_holds [of q ds a d]
  show "\<exists>q'. push_data q a d = Inr q' \<and> holds q' (ds @ [d])"
    by (auto simp: push_data_def unallocated_def domIff)
next
  fix q
  assume "holds q []"
  then show "\<exists>q'. poll_data q = Inr (q', None) \<and> holds q' []"
    by (simp add: poll_data_def take_event_empty)
next
  fix q d ds
  assume "holds q (d # ds)"
  with take_event_holds show "\<exists>q'. poll_data q = Inr (q', Some d) \<and> holds q' ds"
    by (fastforce simp: poll_data_def)
qed

section \<open>What removing the events of a session does\<close>

abbreviation linked :: "XrSession \<Rightarrow> event_queue \<Rightarrow> addr \<Rightarrow> bool" where
  "linked session q a \<equiv> is_session_link_to_event (data_of q a) session"

definition after_removal :: "XrSession \<Rightarrow> event_queue \<Rightarrow> addr list \<Rightarrow> event_queue \<Rightarrow> bool" where
  "after_removal session q as q' \<longleftrightarrow>
     eq_heap q' = (\<lambda>b. if b \<in> set as \<and> linked session q b then None else eq_heap q b)
     \<and> eq_last q' = (if \<exists>b \<in> set as. linked session q b \<and> eq_last q = Some b then None else eq_last q)"

lemma data_of_Some: "eq_heap q a = Some c \<Longrightarrow> data_of q a = ev_data c"
  by (simp add: data_of_def)

lemma after_removal_step:
  assumes "a \<notin> set as" and "linked session q a"
    and q3: "eq_heap q3 = (eq_heap q)(a := None)" "eq_last q3 = (if eq_last q = Some a then None else eq_last q)"
    and "after_removal session q3 as q'"
  shows "after_removal session q (a # as) q'"
proof -
  have same: "b \<in> set as \<Longrightarrow> data_of q3 b = data_of q b" for b
    using assms(1) q3(1) by (auto intro: data_of_other)
  show ?thesis
    using assms same unfolding after_removal_def by (auto simp: fun_eq_iff)
qed

lemma remove_loop_tail:
  assumes "list_at (eq_heap q) e as" and "distinct as" and "length as < fuel"
    and "\<forall>a \<in> set as. eq_next q \<noteq> Some a"
  shows "\<exists>q'. remove_loop fuel session q e = Inr q' \<and> eq_next q' = eq_next q \<and> after_removal session q as q'"
  using assms
proof (induction as arbitrary: q e fuel)
  case Nil
  then show ?case by (cases fuel) (auto simp: after_removal_def fun_eq_iff)
next
  case (Cons a as)
  from Cons.prems obtain c n where c: "e = Some a" "eq_heap q a = Some c" "list_at (eq_heap q) (ev_next c) as"
    and n: "fuel = Suc n" "length as < n" and na: "a \<notin> set as" "distinct as"
    by (cases fuel) auto
  show ?case
  proof (cases "is_session_link_to_event (ev_data c) session")
    case False
    from Cons.IH [OF c(3) na(2) n(2)] Cons.prems(4) obtain q' where
      "remove_loop n session q (ev_next c) = Inr q'" "eq_next q' = eq_next q" "after_removal session q as q'"
      by auto
    with False c n na show ?thesis
      by (auto simp: after_removal_def data_of_Some fun_eq_iff)
  next
    case True
    let ?q2 = "if eq_last q = Some a then q\<lparr>eq_last := None\<rparr> else q"
    let ?q3 = "?q2\<lparr>eq_heap := (eq_heap q)(a := None)\<rparr>"
    have "list_at (eq_heap ?q3) (ev_next c) as" using c(3) na(1) by (simp add: list_at_frame)
    moreover have "\<forall>b \<in> set as. eq_next ?q3 \<noteq> Some b" using Cons.prems(4) by simp
    ultimately obtain q' where q': "remove_loop n session ?q3 (ev_next c) = Inr q'"
      "eq_next q' = eq_next ?q3" "after_removal session ?q3 as q'"
      using Cons.IH na(2) n(2) by blast
    have "after_removal session q (a # as) q'"
      by (rule after_removal_step [OF na(1) _ _ _ q'(3)]) (use True c in \<open>auto simp: data_of_Some\<close>)
    moreover have "remove_loop fuel session q e = Inr q'"
      using True c n Cons.prems(4) q'(1) by (simp add: Let_def split: if_splits)
    ultimately show ?thesis using q'(2) by (auto split: if_splits)
  qed
qed

lemma remove_loop_head:
  assumes "list_at (eq_heap q) (eq_next q) as" and "distinct as" and "length as < fuel"
  shows "\<exists>q'. remove_loop fuel session q (eq_next q) = Inr q'
    \<and> eq_next q' = (case dropWhile (linked session q) as of [] \<Rightarrow> None | b # _ \<Rightarrow> Some b)
    \<and> after_removal session q as q'"
  using assms
proof (induction as arbitrary: q fuel)
  case Nil
  then show ?case by (cases fuel) (auto simp: after_removal_def fun_eq_iff)
next
  case (Cons a as)
  from Cons.prems obtain c n where c: "eq_next q = Some a" "eq_heap q a = Some c" "list_at (eq_heap q) (ev_next c) as"
    and n: "fuel = Suc n" "length as < n" and na: "a \<notin> set as" "distinct as"
    by (cases fuel) auto
  show ?case
  proof (cases "is_session_link_to_event (ev_data c) session")
    case False
    have "\<forall>b \<in> set as. eq_next q \<noteq> Some b" using c(1) na(1) by auto
    from remove_loop_tail [OF c(3) na(2) n(2) this] obtain q' where
      "remove_loop n session q (ev_next c) = Inr q'" "eq_next q' = eq_next q" "after_removal session q as q'"
      by blast
    with False c n na show ?thesis
      by (auto simp: after_removal_def data_of_Some fun_eq_iff)
  next
    case True
    let ?q1 = "q\<lparr>eq_next := ev_next c\<rparr>"
    let ?q2 = "if eq_last q = Some a then ?q1\<lparr>eq_last := None\<rparr> else ?q1"
    let ?q3 = "?q2\<lparr>eq_heap := (eq_heap q)(a := None)\<rparr>"
    have n3: "eq_next ?q3 = ev_next c" by simp
    have "list_at (eq_heap ?q3) (eq_next ?q3) as" using c(3) na(1) by (simp add: list_at_frame)
    from Cons.IH [OF this na(2) n(2)] obtain q' where q': "remove_loop n session ?q3 (ev_next c) = Inr q'"
      "eq_next q' = (case dropWhile (linked session ?q3) as of [] \<Rightarrow> None | b # _ \<Rightarrow> Some b)"
      "after_removal session ?q3 as q'"
      unfolding n3 by blast
    have "dropWhile (linked session ?q3) as = dropWhile (linked session q) as"
      by (rule dropWhile_cong) (use na(1) in \<open>auto simp: data_of_def\<close>)
    moreover have "after_removal session q (a # as) q'"
      by (rule after_removal_step [OF na(1) _ _ _ q'(3)]) (use True c in \<open>auto simp: data_of_Some\<close>)
    moreover have "remove_loop fuel session q (eq_next q) = Inr q'"
      using True c n q'(1) by (simp add: Let_def split: if_splits)
    ultimately show ?thesis using q'(2) True c by (auto simp: data_of_Some)
  qed
qed

lemma list_at_cong:
  "(\<And>b. b \<in> set as \<Longrightarrow> h b = h' b) \<Longrightarrow> list_at h x as \<longleftrightarrow> list_at h' x as"
  by (induction as arbitrary: x) auto

lemma list_at_drop:
  "list_at h x (as @ bs) \<Longrightarrow> list_at h (case bs of [] \<Rightarrow> None | b # _ \<Rightarrow> Some b) bs"
  by (induction as arbitrary: x) (auto split: list.splits)

text \<open>A path of cells that ends in the pointer \<open>y\<close>, which may dangle.\<close>

primrec seg :: "(addr \<rightharpoonup> oxr_event) \<Rightarrow> addr option \<Rightarrow> addr list \<Rightarrow> addr option \<Rightarrow> bool" where
  "seg h x [] y \<longleftrightarrow> x = y"
| "seg h x (a # as) y \<longleftrightarrow> x = Some a \<and> (\<exists>e. h a = Some e \<and> seg h (ev_next e) as y)"

lemma list_at_seg: "list_at h x (as @ b # bs) \<Longrightarrow> seg h x as (Some b)"
  by (induction as arbitrary: x) auto

lemma seg_cong: "(\<And>b. b \<in> set as \<Longrightarrow> h b = h' b) \<Longrightarrow> seg h x as y \<longleftrightarrow> seg h' x as y"
  by (induction as arbitrary: x) auto

lemma seg_frame: "a \<notin> set as \<Longrightarrow> seg (h(a := v)) x as y \<longleftrightarrow> seg h x as y"
  by (rule seg_cong) auto

fun poll_n :: "nat \<Rightarrow> event_queue \<Rightarrow> fault + (event_queue \<times> XrEventData option list)" where
  "poll_n 0 q = Inr (q, [])"
| "poll_n (Suc n) q = try_bind (poll_data q) (\<lambda>(q1, d).
     try_bind (poll_n n q1) (\<lambda>(q2, ds). Inr (q2, d # ds)))"

lemma poll_seg:
  assumes "seg (eq_heap q) (eq_next q) as (Some b)" and "distinct as" and "b \<notin> set as"
    and "eq_heap q b = None" and "\<forall>a \<in> set as. eq_last q \<noteq> Some a"
  shows "\<exists>q'. poll_n (length as) q = Inr (q', map (Some \<circ> data_of q) as) \<and> take_event q' = Inl UseAfterFree"
  using assms
proof (induction as arbitrary: q)
  case Nil
  then show ?case by (auto simp: take_event_def pop_def deref_def)
next
  case (Cons a as)
  then obtain e where e: "eq_next q = Some a" "eq_heap q a = Some e"
    and sg: "seg (eq_heap q) (ev_next e) as (Some b)" by auto
  let ?q = "q\<lparr>eq_next := ev_next e, eq_heap := (eq_heap q)(a := None)\<rparr>"
  have run: "poll_data q = Inr (?q, Some (data_of q a))"
    using e Cons.prems(5) by (simp add: poll_data_def take_event_def pop_def deref_def data_of_def Let_def)
  have "seg (eq_heap ?q) (eq_next ?q) as (Some b)"
    using sg Cons.prems(2) by (simp add: seg_frame)
  moreover have "distinct as" and "b \<notin> set as" and "eq_heap ?q b = None"
    and "\<forall>a \<in> set as. eq_last ?q \<noteq> Some a"
    using Cons.prems by auto
  ultimately obtain q' where
    "poll_n (length as) ?q = Inr (q', map (Some \<circ> data_of ?q) as)" "take_event q' = Inl UseAfterFree"
    using Cons.IH by blast
  moreover have "map (Some \<circ> data_of ?q) as = map (Some \<circ> data_of q) as"
    using Cons.prems(2) by (auto simp: data_of_def)
  ultimately show ?case using run by (auto simp: comp_def)
qed

section \<open>Properties\<close>



text \<open>Destroying a session drops its pending events correctly as long as they all sit at
  the front of the queue: then \<^verbatim>\<open>oxr_event_remove_session_events\<close> returns
  \<^verbatim>\<open>XR_SUCCESS\<close>, touches no freed memory, and leaves an intact queue that holds exactly the
  other events in their order.\<close>

lemma remove_session_events_front:
  assumes "holds q (front @ rest)" and "length (front @ rest) < fuel"
    and "\<forall>d \<in> set front. is_session_link_to_event d session"
    and "\<forall>d \<in> set rest. \<not> is_session_link_to_event d session"
  shows "\<exists>q'. oxr_event_remove_session_events fuel q session = Inr (q', XR_SUCCESS) \<and> holds q' rest"
proof -
  from assms(1) obtain as where as: "queue_cells q as" and map: "map (data_of q) as = front @ rest"
    by (auto simp: holds_def)
  define pre where "pre = take (length front) as"
  define suf where "suf = drop (length front) as"
  have split: "as = pre @ suf" by (simp add: pre_def suf_def)
  have pre: "map (data_of q) pre = front" and suf: "map (data_of q) suf = rest"
    using map by (simp_all add: pre_def suf_def take_map [symmetric] drop_map [symmetric])
  have lp: "\<forall>a \<in> set pre. linked session q a" using assms(3) pre by auto
  have ls: "\<forall>a \<in> set suf. \<not> linked session q a" using assms(4) suf by auto
  have len: "length as < fuel" using map assms(2) by (metis length_map)
  have at: "list_at (eq_heap q) (eq_next q) (pre @ suf)" and dist: "distinct (pre @ suf)"
    and last: "eq_last q = (if as = [] then None else Some (last as))"
    and ok: "\<forall>b \<in> set as. \<forall>e. eq_heap q b = Some e \<longrightarrow> ev_result e = XR_SUCCESS"
    using as split by (auto simp: queue_cells_def)
  from remove_loop_head [OF at dist, of fuel session] len split obtain q' where
    q': "remove_loop fuel session q (eq_next q) = Inr q'"
    "eq_next q' = (case dropWhile (linked session q) (pre @ suf) of [] \<Rightarrow> None | b # _ \<Rightarrow> Some b)"
    "after_removal session q (pre @ suf) q'"
    by auto
  have drop: "dropWhile (linked session q) (pre @ suf) = suf"
    using lp ls by (cases suf) (auto simp: dropWhile_append2)
  have same: "b \<in> set suf \<Longrightarrow> eq_heap q' b = eq_heap q b" for b
    using q'(3) ls by (auto simp: after_removal_def)
  have "list_at (eq_heap q') (eq_next q') suf"
    using list_at_drop [OF at] list_at_cong [of suf "eq_heap q'" "eq_heap q"] same q'(2) drop by simp
  moreover have "eq_last q' = (if suf = [] then None else Some (last suf))"
    using q'(3) last split lp ls by (cases "suf = []") (auto simp: after_removal_def split: if_splits)
  ultimately have "queue_cells q' suf"
    using dist ok same split by (auto simp: queue_cells_def)
  moreover have "map (data_of q') suf = rest"
    using suf same by (auto intro!: data_of_other)
  ultimately show ?thesis
    using q'(1) by (auto simp: oxr_event_remove_session_events_def holds_def)
qed

text \<open>Removing a session's events corrupts the queue when another event is in front of one
  of them. If the queue holds some other events followed by an event of the session, the cell
  of that event is freed but the cell before it still points to it: the call returns
  \<^verbatim>\<open>XR_SUCCESS\<close>, polling then delivers the events in front, and the poll after them reads
  freed memory.\<close>

lemma remove_session_events_dangling:
  assumes "holds q (front @ mid @ d # post)" and "length (front @ mid @ d # post) < fuel"
    and "\<forall>d \<in> set front. is_session_link_to_event d session"
    and "mid \<noteq> []" and "\<forall>d \<in> set mid. \<not> is_session_link_to_event d session"
    and "is_session_link_to_event d session"
  shows "\<exists>q1 q2. oxr_event_remove_session_events fuel q session = Inr (q1, XR_SUCCESS)
    \<and> poll_n (length mid) q1 = Inr (q2, map Some mid) \<and> take_event q2 = Inl UseAfterFree"
proof -
  from assms(1) obtain as where as: "queue_cells q as" and map: "map (data_of q) as = front @ mid @ d # post"
    by (auto simp: holds_def)
  from map obtain pre ms b ps where split: "as = pre @ ms @ b # ps"
    and dp: "map (data_of q) pre = front" and dm: "map (data_of q) ms = mid" and db: "data_of q b = d"
    by (auto simp: map_eq_append_conv append_eq_map_conv map_eq_Cons_conv Cons_eq_map_conv)
  have lp: "\<forall>a \<in> set pre. linked session q a" using assms(3) dp by auto
  have lm: "\<forall>a \<in> set ms. \<not> linked session q a" using assms(5) dm by auto
  have lb: "linked session q b" using assms(6) db by simp
  have ne: "ms \<noteq> []" using assms(4) dm by auto
  have at: "list_at (eq_heap q) (eq_next q) as" and dist: "distinct as" and last: "eq_last q = Some (last as)"
    using as split by (auto simp: queue_cells_def)
  have len: "length as < fuel" using map assms(2) by (metis length_map)
  from remove_loop_head [OF at dist len, of session] obtain q' where
    q': "remove_loop fuel session q (eq_next q) = Inr q'"
    "eq_next q' = (case dropWhile (linked session q) as of [] \<Rightarrow> None | b # _ \<Rightarrow> Some b)"
    "after_removal session q as q'"
    by blast
  have drop: "dropWhile (linked session q) as = ms @ b # ps"
    using lp lm ne split by (cases ms) (auto simp: dropWhile_append2)
  have same: "a \<in> set ms \<Longrightarrow> eq_heap q' a = eq_heap q a" for a
    using q'(3) lm by (auto simp: after_removal_def)
  have seg: "seg (eq_heap q') (eq_next q') ms (Some b)"
    using list_at_seg [of "eq_heap q" _ ms b ps] list_at_drop [of "eq_heap q" "eq_next q" pre "ms @ b # ps"]
      at split q'(2) drop seg_cong [of ms "eq_heap q'" "eq_heap q"] same by simp
  have freed: "eq_heap q' b = None"
    using q'(3) lb split by (simp add: after_removal_def)
  have tail: "\<forall>a \<in> set ms. eq_last q' \<noteq> Some a"
    using q'(3) last dist split by (auto simp: after_removal_def split: if_splits)
  from poll_seg [OF seg _ _ freed tail] dist split obtain q2 where
    "poll_n (length ms) q' = Inr (q2, map (Some \<circ> data_of q') ms)" "take_event q2 = Inl UseAfterFree"
    by auto
  moreover have "map (Some \<circ> data_of q') ms = map Some mid"
    using same dm [symmetric] by (auto intro!: data_of_other)
  moreover have "length ms = length mid" using dm by auto
  ultimately show ?thesis
    using q'(1) by (auto simp: oxr_event_remove_session_events_def)
qed

end
