(* ===== verification/Frame_Sync.thy ===== *)
theory Frame_Sync
  imports Prelude
begin

text \<open>
  The frame synchronisation object, \<^verbatim>\<open>state_trackers/oxr/oxr_frame_sync.c\<close>.

  The object holds one permit (\<^verbatim>\<open>canWaitFrameReturn\<close>) that \<^verbatim>\<open>xrWaitFrame\<close> consumes and
  \<^verbatim>\<open>xrBeginFrame\<close> gives back, and the \<^verbatim>\<open>running\<close> flag of the session. Every function is a
  critical section under one mutex, so it is an atomic step of the model; only
  \<^verbatim>\<open>oxr_frame_sync_wait_frame\<close> releases the mutex in the middle, inside
  \<^verbatim>\<open>pthread_cond_wait\<close>. One pass of its loop is \<open>wait_frame_pass\<close>; the threads that are
  blocked in it, and those of them that a \<^verbatim>\<open>pthread_cond_signal\<close> has woken, are the fields
  \<open>blocked\<close> and \<open>signalled\<close> of \<open>sync_state\<close>. The step relation lets any blocked thread
  retry, because POSIX allows spurious wake-ups.
\<close>

record oxr_frame_sync =
  canWaitFrameReturn :: int
  initialized :: bool
  running :: bool

definition zeroed_frame_sync :: oxr_frame_sync where
  "zeroed_frame_sync = \<lparr>canWaitFrameReturn = 0, initialized = False, running = False\<rparr>"

text \<open>The two arguments are the results of \<^verbatim>\<open>pthread_mutex_init\<close> and \<^verbatim>\<open>pthread_cond_init\<close>.\<close>

definition oxr_frame_sync_init :: "int \<Rightarrow> int \<Rightarrow> oxr_frame_sync \<times> int" where
  "oxr_frame_sync_init mutex_ret cond_ret = (
     let ofs = zeroed_frame_sync in
     if mutex_ret \<noteq> 0 then (ofs, mutex_ret)
     else if cond_ret \<noteq> 0 then (ofs, cond_ret)
     else (ofs\<lparr>canWaitFrameReturn := 0, initialized := True, running := False\<rparr>, 0))"

text \<open>
  One pass of the loop of \<^verbatim>\<open>oxr_frame_sync_wait_frame\<close>, from taking the mutex (or waking up
  with it) to giving it up: \<open>None\<close> if the thread goes to sleep, otherwise the result.
\<close>

definition wait_frame_pass :: "oxr_frame_sync \<Rightarrow> oxr_frame_sync \<times> XrResult option" where
  "wait_frame_pass ofs = (
     if running ofs then
       if canWaitFrameReturn ofs = 1 then (ofs\<lparr>canWaitFrameReturn := 0\<rparr>, Some XR_SUCCESS)
       else if canWaitFrameReturn ofs = 0 then (ofs, None)
       else (ofs, Some XR_ERROR_SESSION_NOT_RUNNING)
     else (ofs, Some XR_ERROR_SESSION_NOT_RUNNING))"

text \<open>The other operations also say whether they signal the condition variable.\<close>

definition oxr_frame_sync_release :: "oxr_frame_sync \<Rightarrow> oxr_frame_sync \<times> bool \<times> XrResult" where
  "oxr_frame_sync_release ofs = (
     if running ofs \<and> canWaitFrameReturn ofs = 0 then
       (ofs\<lparr>canWaitFrameReturn := 1\<rparr>, True, XR_SUCCESS)
     else (ofs, False, XR_ERROR_SESSION_NOT_RUNNING))"

definition oxr_frame_sync_begin_session :: "oxr_frame_sync \<Rightarrow> oxr_frame_sync \<times> bool \<times> XrResult" where
  "oxr_frame_sync_begin_session ofs = (
     if \<not> running ofs then
       (ofs\<lparr>canWaitFrameReturn := 1, running := True\<rparr>, True, XR_SUCCESS)
     else (ofs, False, XR_ERROR_SESSION_NOT_RUNNING))"

definition oxr_frame_sync_end_session :: "oxr_frame_sync \<Rightarrow> oxr_frame_sync \<times> bool \<times> XrResult" where
  "oxr_frame_sync_end_session ofs = (
     if running ofs then (ofs\<lparr>running := False\<rparr>, True, XR_SUCCESS)
     else (ofs, False, XR_ERROR_SESSION_NOT_RUNNING))"

definition oxr_frame_sync_is_session_running :: "oxr_frame_sync \<Rightarrow> bool" where
  "oxr_frame_sync_is_session_running ofs = running ofs"

definition oxr_frame_sync_fini :: "oxr_frame_sync \<Rightarrow> fault + (oxr_frame_sync \<times> bool)" where
  "oxr_frame_sync_fini ofs = try_bind (c_assert (initialized ofs)) (\<lambda>_.
     let (ofs, signal) = (if running ofs then (ofs\<lparr>running := False\<rparr>, True) else (ofs, False));
         ofs = ofs\<lparr>canWaitFrameReturn := 0, running := False\<rparr>
     in Inr (ofs\<lparr>initialized := False\<rparr>, signal))"

section \<open>Threads\<close>

type_synonym thread = nat

record sync_state =
  sync :: oxr_frame_sync
  blocked :: "thread set"
  signalled :: "thread set"

definition initial_sync :: sync_state where
  "initial_sync = \<lparr>sync = fst (oxr_frame_sync_init 0 0), blocked = {}, signalled = {}\<rparr>"

text \<open>\<^verbatim>\<open>pthread_cond_signal\<close> wakes one of the threads that sleep, if there is one.\<close>

definition cond_signal :: "bool \<Rightarrow> thread set \<Rightarrow> thread set \<Rightarrow> thread set \<Rightarrow> bool" where
  "cond_signal signal sleepers woken woken' \<longleftrightarrow>
     (if signal \<and> \<not> sleepers \<subseteq> woken then \<exists>t \<in> sleepers - woken. woken' = insert t woken
      else woken' = woken)"

datatype sync_event =
    Waited thread XrResult
  | Slept thread
  | Released XrResult
  | Began XrResult
  | Ended XrResult

inductive sync_step :: "sync_state \<Rightarrow> sync_event \<Rightarrow> sync_state \<Rightarrow> bool" where
  wait_now: "t \<notin> blocked s \<Longrightarrow> wait_frame_pass (sync s) = (ofs, Some r) \<Longrightarrow>
    sync_step s (Waited t r) (s\<lparr>sync := ofs\<rparr>)"
| wait_sleep: "t \<notin> blocked s \<Longrightarrow> wait_frame_pass (sync s) = (ofs, None) \<Longrightarrow>
    sync_step s (Slept t) (s\<lparr>sync := ofs, blocked := insert t (blocked s)\<rparr>)"
| wake_done: "t \<in> blocked s \<Longrightarrow> wait_frame_pass (sync s) = (ofs, Some r) \<Longrightarrow>
    sync_step s (Waited t r) (s\<lparr>sync := ofs, blocked := blocked s - {t}, signalled := signalled s - {t}\<rparr>)"
| wake_sleep: "t \<in> blocked s \<Longrightarrow> wait_frame_pass (sync s) = (ofs, None) \<Longrightarrow>
    sync_step s (Slept t) (s\<lparr>sync := ofs, signalled := signalled s - {t}\<rparr>)"
| give_back: "oxr_frame_sync_release (sync s) = (ofs, sg, r) \<Longrightarrow> cond_signal sg (blocked s) (signalled s) w \<Longrightarrow>
    sync_step s (Released r) (s\<lparr>sync := ofs, signalled := w\<rparr>)"
| start: "oxr_frame_sync_begin_session (sync s) = (ofs, sg, r) \<Longrightarrow> cond_signal sg (blocked s) (signalled s) w \<Longrightarrow>
    sync_step s (Began r) (s\<lparr>sync := ofs, signalled := w\<rparr>)"
| stop: "oxr_frame_sync_end_session (sync s) = (ofs, sg, r) \<Longrightarrow> cond_signal sg (blocked s) (signalled s) w \<Longrightarrow>
    sync_step s (Ended r) (s\<lparr>sync := ofs, signalled := w\<rparr>)"

inductive_cases sync_stepE: "sync_step s e s'"

text \<open>Runs, with the newest event first in the log.\<close>

inductive sync_run :: "sync_event list \<Rightarrow> sync_state \<Rightarrow> bool" where
  empty: "sync_run [] initial_sync"
| move: "sync_run log s \<Longrightarrow> sync_step s e s' \<Longrightarrow> sync_run (e # log) s'"

section \<open>The permit\<close>

text \<open>The part of the log since the session began.\<close>

definition this_session :: "sync_event list \<Rightarrow> sync_event list" where
  "this_session log = takeWhile (\<lambda>e. e \<noteq> Began XR_SUCCESS) log"

lemma this_session_Cons [simp]:
  "this_session (e # log) = (if e = Began XR_SUCCESS then [] else e # this_session log)"
  by (simp add: this_session_def)

lemma this_session_Nil [simp]: "this_session [] = []"
  by (simp add: this_session_def)

definition waits :: "sync_event list \<Rightarrow> nat" where
  "waits = count_if (\<lambda>e. \<exists>t. e = Waited t XR_SUCCESS)"

definition releases :: "sync_event list \<Rightarrow> nat" where
  "releases = count_if (\<lambda>e. e = Released XR_SUCCESS)"

lemma waits_simps [simp]:
  "waits [] = 0" "waits (Waited t r # log) = (if r = XR_SUCCESS then Suc (waits log) else waits log)"
  "waits (Slept t # log) = waits log" "waits (Released r # log) = waits log"
  "waits (Began r # log) = waits log" "waits (Ended r # log) = waits log"
  by (simp_all add: waits_def)

lemma releases_simps [simp]:
  "releases [] = 0" "releases (Waited t r # log) = releases log"
  "releases (Slept t # log) = releases log"
  "releases (Released r # log) = (if r = XR_SUCCESS then Suc (releases log) else releases log)"
  "releases (Began r # log) = releases log" "releases (Ended r # log) = releases log"
  by (simp_all add: releases_def)

lemmas sync_ops = wait_frame_pass_def oxr_frame_sync_release_def
  oxr_frame_sync_begin_session_def oxr_frame_sync_end_session_def

definition permit_inv :: "sync_event list \<Rightarrow> sync_state \<Rightarrow> bool" where
  "permit_inv log s \<longleftrightarrow> canWaitFrameReturn (sync s) \<in> {0, 1}
     \<and> (running (sync s) \<longrightarrow>
          int (waits (this_session log)) + canWaitFrameReturn (sync s) = int (releases (this_session log)) + 1)"

lemma permit_inv_initial: "permit_inv [] initial_sync"
  by (simp add: permit_inv_def initial_sync_def oxr_frame_sync_init_def)

lemma permit_inv_step: "permit_inv log s \<Longrightarrow> sync_step s e s' \<Longrightarrow> permit_inv (e # log) s'"
  by (erule sync_stepE) (auto simp: permit_inv_def sync_ops split: if_splits)

section \<open>Wake-ups\<close>

text \<open>
  No wake-up is owed: every thread that sleeps without having been signalled really has to
  wait, because the session runs and the permit is taken.
\<close>

definition no_lost_wakeup :: "sync_state \<Rightarrow> bool" where
  "no_lost_wakeup s \<longleftrightarrow>
     (\<forall>t \<in> blocked s - signalled s. running (sync s) \<and> canWaitFrameReturn (sync s) = 0)"

definition only_sleeper :: "thread \<Rightarrow> sync_event list \<Rightarrow> bool" where
  "only_sleeper t log \<longleftrightarrow> (\<forall>u. Slept u \<in> set log \<longrightarrow> u = t)"

definition sleeper_inv :: "thread \<Rightarrow> sync_state \<Rightarrow> bool" where
  "sleeper_inv t s \<longleftrightarrow> (\<forall>u \<in> blocked s. u = t) \<and> canWaitFrameReturn (sync s) \<in> {0, 1} \<and> no_lost_wakeup s"

lemma sleeper_inv_step:
  assumes "sleeper_inv t s" and "sync_step s e s'" and "\<And>u. e = Slept u \<Longrightarrow> u = t"
  shows "sleeper_inv t s'"
  using assms(2,1,3)
  by (cases rule: sync_stepE)
    (auto simp: sleeper_inv_def no_lost_wakeup_def sync_ops cond_signal_def split: if_splits, metis+)

lemma sleeper_inv_run: "sync_run log s \<Longrightarrow> only_sleeper t log \<Longrightarrow> sleeper_inv t s"
proof (induction rule: sync_run.induct)
  case empty
  then show ?case by (simp add: sleeper_inv_def no_lost_wakeup_def initial_sync_def oxr_frame_sync_init_def)
next
  case (move log s e s')
  then have "only_sleeper t log" and "\<And>u. e = Slept u \<Longrightarrow> u = t"
    by (auto simp: only_sleeper_def)
  with move sleeper_inv_step show ?case by blast
qed

section \<open>Properties\<close>


lemma example_run:
  "sync_run [Slept 2, Waited 1 XR_SUCCESS, Began XR_SUCCESS]
     \<lparr>sync = \<lparr>canWaitFrameReturn = 0, initialized = True, running = True\<rparr>, blocked = {2}, signalled = {}\<rparr>"
proof -
  let ?s = "\<lambda>c B. \<lparr>sync = \<lparr>canWaitFrameReturn = c, initialized = True, running = True\<rparr>,
      blocked = B, signalled = {}\<rparr>"
  have "sync_step initial_sync (Began XR_SUCCESS) (?s 1 {})"
    using sync_step.start [of initial_sync _ True XR_SUCCESS "{}"]
    by (simp add: initial_sync_def oxr_frame_sync_init_def sync_ops cond_signal_def zeroed_frame_sync_def)
  moreover have "sync_step (?s 1 {}) (Waited 1 XR_SUCCESS) (?s 0 {})"
    using sync_step.wait_now [of 1 "?s 1 {}"] by (simp add: sync_ops)
  moreover have "sync_step (?s 0 {}) (Slept 2) (?s 0 {2})"
    using sync_step.wait_sleep [of 2 "?s 0 {}"] by (simp add: sync_ops)
  ultimately show ?thesis by (meson sync_run.intros)
qed


text \<open>With one thread calling \<^verbatim>\<open>xrWaitFrame\<close> no wake-up is lost: if it sleeps, then either
  it has been signalled, or the session is running and the permit is taken, so there is
  nothing to return yet.\<close>

lemma frame_sync_single_waiter:
  assumes "sync_run log s" and "only_sleeper t log"
  shows "no_lost_wakeup s"
  using sleeper_inv_run [OF assms] by (simp add: sleeper_inv_def)

text \<open>With two threads in \<^verbatim>\<open>xrWaitFrame\<close> a wake-up is lost: ending the session signals the
  condition variable once and does not broadcast, so a state is reachable in which the session
  has ended and a thread sleeps that no signal will reach. Destroying the object afterwards
  does not wake it either, because \<^verbatim>\<open>oxr_frame_sync_fini\<close> signals only if the session runs.\<close>

lemma frame_sync_lost_wakeup:
  "\<exists>log s t. sync_run log s \<and> \<not> running (sync s) \<and> t \<in> blocked s \<and> signalled s = {}
     \<and> (\<exists>ofs. oxr_frame_sync_fini (sync s) = Inr (ofs, False))"
proof -
  let ?s = "\<lambda>r B S. \<lparr>sync = \<lparr>canWaitFrameReturn = 0, initialized = True, running = r\<rparr>,
      blocked = B, signalled = S\<rparr>"
  have "sync_step (?s True {2} {}) (Slept 3) (?s True {2, 3} {})"
    using sync_step.wait_sleep [of 3 "?s True {2} {}"] by (simp add: sync_ops insert_commute)
  moreover have "sync_step (?s True {2, 3} {}) (Ended XR_SUCCESS) (?s False {2, 3} {2})"
    using sync_step.stop [of "?s True {2, 3} {}" _ True XR_SUCCESS "{2}"]
    by (simp add: sync_ops cond_signal_def)
  moreover have "sync_step (?s False {2, 3} {2}) (Waited 2 XR_ERROR_SESSION_NOT_RUNNING) (?s False {3} {})"
    using sync_step.wake_done [of 2 "?s False {2, 3} {2}"] by (simp add: sync_ops)
  ultimately have "sync_run (Waited 2 XR_ERROR_SESSION_NOT_RUNNING # Ended XR_SUCCESS # Slept 3 #
      [Slept 2, Waited 1 XR_SUCCESS, Began XR_SUCCESS]) (?s False {3} {})"
    using example_run by (meson sync_run.intros)
  moreover have "\<exists>ofs. oxr_frame_sync_fini (sync (?s False {3} {})) = Inr (ofs, False)"
    by (simp add: oxr_frame_sync_fini_def)
  ultimately show ?thesis
    by (intro exI [of _ "Waited 2 XR_ERROR_SESSION_NOT_RUNNING # Ended XR_SUCCESS # Slept 3 #
      [Slept 2, Waited 1 XR_SUCCESS, Began XR_SUCCESS]"] exI [of _ "?s False {3} {}"] exI [of _ "3::nat"]) simp
qed

end
