(* ===== verification/Session.thy ===== *)
theory Session
  imports Event_Queue Frame_Sync
begin

text \<open>
  The session: \<^verbatim>\<open>state_trackers/oxr/oxr_session.c\<close>, \<^verbatim>\<open>oxr_session_frame_end\<close> of
  \<^verbatim>\<open>oxr_session_frame_end.c\<close> and the guards that the entry points of \<^verbatim>\<open>oxr_api_session.c\<close>
  put before them.

  A call is a function of the session and of a \<open>session_env\<close>: what the build has enabled,
  the quirks and extensions of the instance, and the answers that the clock, the compositor,
  the device and the layer verification give during the call. The calls that the
  session makes on its compositor are recorded in order in \<open>comp_calls\<close>. The pushed
  events are recorded in \<open>events\<close>: the queue of theory \<open>Event_Queue\<close> as the list it
  represents, with the allocation of a cell succeeding.
\<close>

section \<open>State\<close>

datatype comp_call =
    CompBeginSession int
  | CompEndSession
  | CompWaitFrame
  | CompBeginFrame int
  | CompDiscardFrame int
  | CompLayerBegin int
  | CompLayer nat
  | CompLayerCommit

record session =
  handle :: XrSession
  gfx_vulkan :: bool
  compositor :: bool                 \<comment> \<open>\<^verbatim>\<open>sess->compositor != NULL\<close>\<close>
  sess_state :: XrSessionState
  current_view_config_type :: "int option" \<comment> \<open>\<open>None\<close> is \<^verbatim>\<open>..._MAX_ENUM\<close>\<close>
  has_ended_once :: bool
  compositor_visible :: bool
  compositor_focused :: bool
  active_wait_frames :: int
  frame_started :: bool
  exiting :: bool
  frame_waited :: int                \<comment> \<open>\<^verbatim>\<open>frame_id.waited\<close>\<close>
  frame_begun :: int                 \<comment> \<open>\<^verbatim>\<open>frame_id.begun\<close>\<close>
  frame_sync :: oxr_frame_sync
  has_lost :: bool
  events :: "XrEventData list"
  comp_calls :: "comp_call list"

datatype android_lifecycle = ON_PAUSE | ON_RESUME | OTHER_LIFECYCLE

record session_env =
  \<comment> \<open>the build\<close>
  have_local_floor :: bool
  have_unbounded :: bool
  have_overlay :: bool
  have_refresh_rate :: bool
  have_perf_settings :: bool
  have_passthrough :: bool
  have_visibility_mask :: bool
  have_user_presence :: bool
  os_android :: bool
  \<comment> \<open>the instance and the system\<close>
  quirk_disable_vk_depth :: bool
  quirk_disable_vk_depth_stencil :: bool
  quirk_skip_end_session :: bool
  quirk_map_stage_to_local_floor :: bool
  ext_local_floor :: bool
  ext_unbounded :: bool
  ext_user_presence :: bool
  activity_state :: android_lifecycle
  view_configs :: "int list"
  max_layers :: nat
  \<comment> \<open>the clock\<close>
  now_ns :: int
  monotonic_to_ts :: "int \<Rightarrow> int"
  \<comment> \<open>the compositor, the device and the application's arguments\<close>
  res_begin_session :: xrt_result
  res_end_session :: xrt_result
  res_wait_frame :: "xrt_result \<times> int \<times> int \<times> int"
  res_begin_frame :: xrt_result
  res_discard_frame :: xrt_result
  res_layer_begin :: xrt_result
  res_layer_commit :: xrt_result
  supported_presence :: bool
  res_get_presence :: "xrt_result \<times> bool"
  verify_layer :: "nat \<Rightarrow> XrResult"
  submit_layer :: "nat \<Rightarrow> xrt_result"

definition now_xr :: "session_env \<Rightarrow> XrTime" where
  "now_xr env = monotonic_to_ts env (now_ns env)"

definition push_event :: "XrEventData \<Rightarrow> session \<Rightarrow> session" where
  "push_event d s = s\<lparr>events := events s @ [d]\<rparr>"

definition call_comp :: "comp_call \<Rightarrow> session \<Rightarrow> session" where
  "call_comp c s = s\<lparr>comp_calls := comp_calls s @ [c]\<rparr>"

text \<open>\<^verbatim>\<open>OXR_CHECK_XRET\<close>: return early on a failed call, and remember a lost connection.\<close>

definition check_xret :: "xrt_result \<Rightarrow> session \<Rightarrow> (session \<Rightarrow> session \<times> XrResult) \<Rightarrow> session \<times> XrResult" where
  "check_xret xret s k = (
     if xret = XRT_ERROR_IPC_FAILURE then (s\<lparr>has_lost := True\<rparr>, XR_ERROR_INSTANCE_LOST)
     else if xret \<noteq> XRT_SUCCESS then (s, XR_ERROR_RUNTIME_FAILURE)
     else k s)"

definition oxr_session_success_result :: "session \<Rightarrow> XrResult" where
  "oxr_session_success_result s =
     (case sess_state s of XR_SESSION_STATE_LOSS_PENDING \<Rightarrow> XR_SESSION_LOSS_PENDING | _ \<Rightarrow> XR_SUCCESS)"

section \<open>Helpers\<close>

definition should_skip_format_vk_1_and_2 :: "session_env \<Rightarrow> int \<Rightarrow> bool" where
  "should_skip_format_vk_1_and_2 env format = (
     if format = 124 \<or> format = 125 \<or> format = 126 then quirk_disable_vk_depth env
     else if format = 127 then True
     else if format = 129 \<or> format = 130 then quirk_disable_vk_depth_stencil env
     else False)"

definition should_skip_format :: "session_env \<Rightarrow> session \<Rightarrow> int \<Rightarrow> bool" where
  "should_skip_format env s format = (if gfx_vulkan s then should_skip_format_vk_1_and_2 env format else False)"

definition should_render :: "XrSessionState \<Rightarrow> bool" where
  "should_render state = (case state of
      XR_SESSION_STATE_VISIBLE \<Rightarrow> True
    | XR_SESSION_STATE_FOCUSED \<Rightarrow> True
    | XR_SESSION_STATE_STOPPING \<Rightarrow> True
    | _ \<Rightarrow> False)"

definition oxr_session_change_state :: "session \<Rightarrow> XrSessionState \<Rightarrow> XrTime \<Rightarrow> session" where
  "oxr_session_change_state s state time = (
     if sess_state s = state then s
     else (push_event (SessionStateChanged (handle s) state time) s)\<lparr>sess_state := state\<rparr>)"

datatype xrt_reference_space_type =
    XRT_SPACE_REFERENCE_TYPE_VIEW
  | XRT_SPACE_REFERENCE_TYPE_LOCAL
  | XRT_SPACE_REFERENCE_TYPE_LOCAL_FLOOR
  | XRT_SPACE_REFERENCE_TYPE_STAGE
  | XRT_SPACE_REFERENCE_TYPE_UNBOUNDED
  | XRT_SPACE_REFERENCE_TYPE_INVALID

record ref_change =
  ref_type :: xrt_reference_space_type
  rc_timestamp_ns :: int
  pose_in_previous_space :: XrPosef
  pose_valid :: bool

definition emit_reference_space_change_pending ::
  "session_env \<Rightarrow> session \<Rightarrow> ref_change \<Rightarrow> XrReferenceSpaceType \<Rightarrow> session \<times> XrResult" where
  "emit_reference_space_change_pending env s rc type = (
     push_event (ReferenceSpaceChangePending (handle s) type
         (monotonic_to_ts env (rc_timestamp_ns rc)) (pose_valid rc) (pose_in_previous_space rc)) s,
     XR_SUCCESS)"

definition handle_reference_space_change_pending ::
  "session_env \<Rightarrow> session \<Rightarrow> ref_change \<Rightarrow> session \<times> XrResult" where
  "handle_reference_space_change_pending env s rc = (
     if quirk_map_stage_to_local_floor env \<and> ref_type rc = XRT_SPACE_REFERENCE_TYPE_STAGE then (s, XR_SUCCESS)
     else
       let s1 = (if quirk_map_stage_to_local_floor env \<and> ref_type rc = XRT_SPACE_REFERENCE_TYPE_LOCAL_FLOOR
                 then fst (emit_reference_space_change_pending env s rc XR_REFERENCE_SPACE_TYPE_STAGE) else s);
           emit = (\<lambda>type. (fst (emit_reference_space_change_pending env s1 rc type), XR_SUCCESS))
       in case ref_type rc of
            XRT_SPACE_REFERENCE_TYPE_VIEW \<Rightarrow> emit XR_REFERENCE_SPACE_TYPE_VIEW
          | XRT_SPACE_REFERENCE_TYPE_LOCAL \<Rightarrow> emit XR_REFERENCE_SPACE_TYPE_LOCAL
          | XRT_SPACE_REFERENCE_TYPE_STAGE \<Rightarrow> emit XR_REFERENCE_SPACE_TYPE_STAGE
          | XRT_SPACE_REFERENCE_TYPE_LOCAL_FLOOR \<Rightarrow>
              if have_local_floor env \<and> ext_local_floor env then emit XR_REFERENCE_SPACE_TYPE_LOCAL_FLOOR_EXT
              else (s1, XR_SUCCESS)
          | XRT_SPACE_REFERENCE_TYPE_UNBOUNDED \<Rightarrow>
              if have_unbounded env \<and> ext_unbounded env then emit XR_REFERENCE_SPACE_TYPE_UNBOUNDED_MSFT
              else (s1, XR_SUCCESS)
          | XRT_SPACE_REFERENCE_TYPE_INVALID \<Rightarrow> (s1, XR_ERROR_RUNTIME_FAILURE))"

text \<open>
  \<^verbatim>\<open>oxr_session_enumerate_formats\<close>: the local array has \<^verbatim>\<open>XRT_MAX_SWAPCHAIN_FORMATS\<close>
  entries. The result is the count written to \<^verbatim>\<open>formatCountOutput\<close> (absent when the pointer
  is \<^verbatim>\<open>NULL\<close>) and the formats copied to the caller's array.
\<close>

definition XRT_MAX_SWAPCHAIN_FORMATS :: nat where
  "XRT_MAX_SWAPCHAIN_FORMATS = 16"

primrec filter_formats :: "session_env \<Rightarrow> session \<Rightarrow> int list \<Rightarrow> int list \<Rightarrow> fault + int list" where
  "filter_formats env s [] filtered = Inr filtered"
| "filter_formats env s (format # formats) filtered = (
     if should_skip_format env s format then filter_formats env s formats filtered
     else if length filtered < XRT_MAX_SWAPCHAIN_FORMATS
     then filter_formats env s formats (filtered @ [format])
     else Inl OutOfBounds)"

definition oxr_session_enumerate_formats ::
  "session_env \<Rightarrow> session \<Rightarrow> int list \<Rightarrow> nat \<Rightarrow> bool \<Rightarrow> fault + (nat option \<times> int list \<times> XrResult)" where
  "oxr_session_enumerate_formats env s formats capacity count_given = (
     if \<not> count_given then Inr (None, [], XR_ERROR_VALIDATION_FAILURE)
     else if \<not> compositor s then Inr (Some 0, [], oxr_session_success_result s)
     else try_bind (filter_formats env s formats []) (\<lambda>filtered.
       let count = length filtered in
       if capacity = 0 then Inr (Some count, [], oxr_session_success_result s)
       else if capacity < count then Inr (Some count, [], XR_ERROR_SIZE_INSUFFICIENT)
       else Inr (Some count, filtered, oxr_session_success_result s)))"

section \<open>Begin, end, request exit\<close>

text \<open>The end of \<^verbatim>\<open>oxr_session_begin\<close>, after the compositor or headless part.\<close>

definition begin_running :: "int \<Rightarrow> session \<Rightarrow> session \<times> XrResult" where
  "begin_running view_type s = (case oxr_frame_sync_begin_session (frame_sync s) of (ofs, _, ret) \<Rightarrow>
     let s = s\<lparr>frame_sync := ofs\<rparr> in
     if ret \<noteq> XR_SUCCESS then (s, ret)
     else let s = s\<lparr>current_view_config_type := Some view_type\<rparr> in (s, oxr_session_success_result s))"

definition oxr_session_begin :: "session_env \<Rightarrow> session \<Rightarrow> int \<Rightarrow> session \<times> XrResult" where
  "oxr_session_begin env s view_type = (
     if sess_state s \<noteq> XR_SESSION_STATE_READY then (s, XR_ERROR_SESSION_NOT_READY)
     else if compositor s then
       check_xret (res_begin_session env) (call_comp (CompBeginSession view_type) s) (\<lambda>s.
         if have_user_presence env \<and> ext_user_presence env \<and> supported_presence env then
           check_xret (fst (res_get_presence env)) s (\<lambda>s.
             begin_running view_type (push_event (UserPresenceChangedEXT (handle s) (snd (res_get_presence env))) s))
         else begin_running view_type s)
     else
       let s = s\<lparr>compositor_visible := True, compositor_focused := True\<rparr>;
           s = oxr_session_change_state s XR_SESSION_STATE_SYNCHRONIZED (now_xr env);
           s = oxr_session_change_state s XR_SESSION_STATE_VISIBLE (now_xr env);
           s = oxr_session_change_state s XR_SESSION_STATE_FOCUSED (now_xr env)
       in begin_running view_type s)"

definition discard_if_valid :: "(session \<Rightarrow> int) \<Rightarrow> (session \<Rightarrow> session) \<Rightarrow> session \<Rightarrow> session" where
  "discard_if_valid get clear s = (if get s > 0 then clear (call_comp (CompDiscardFrame (get s)) s) else s)"

text \<open>The end of \<^verbatim>\<open>oxr_session_end\<close>, after the compositor or headless part.\<close>

definition end_running :: "session_env \<Rightarrow> session \<Rightarrow> session \<times> XrResult" where
  "end_running env s = (
     let s = oxr_session_change_state s XR_SESSION_STATE_IDLE (now_xr env);
         s = (if exiting s then oxr_session_change_state s XR_SESSION_STATE_EXITING (now_xr env)
              else if \<not> os_android env then oxr_session_change_state s XR_SESSION_STATE_READY 0
              else s)
     in case oxr_frame_sync_end_session (frame_sync s) of (ofs, _, ret) \<Rightarrow>
       let s = s\<lparr>frame_sync := ofs\<rparr> in
       if ret \<noteq> XR_SUCCESS then (s, ret)
       else let s = s\<lparr>has_ended_once := False, current_view_config_type := None\<rparr>
            in (s, oxr_session_success_result s))"

definition oxr_session_end :: "session_env \<Rightarrow> session \<Rightarrow> session \<times> XrResult" where
  "oxr_session_end env s = (
     if quirk_skip_end_session env then (s, XR_SUCCESS)
     else if \<not> oxr_frame_sync_is_session_running (frame_sync s) then (s, XR_ERROR_SESSION_NOT_RUNNING)
     else if sess_state s \<noteq> XR_SESSION_STATE_STOPPING then (s, XR_ERROR_SESSION_NOT_STOPPING)
     else if compositor s then
       let s = discard_if_valid frame_waited (\<lambda>s. s\<lparr>frame_waited := -1\<rparr>) s;
           s = discard_if_valid frame_begun (\<lambda>s. s\<lparr>frame_begun := -1\<rparr>) s;
           s = s\<lparr>frame_started := False\<rparr>
       in check_xret (res_end_session env) (call_comp CompEndSession s) (end_running env)
     else end_running env (s\<lparr>compositor_visible := False, compositor_focused := False\<rparr>))"

definition oxr_session_request_exit :: "session_env \<Rightarrow> session \<Rightarrow> session \<times> XrResult" where
  "oxr_session_request_exit env s = (
     let s = (if sess_state s = XR_SESSION_STATE_FOCUSED
              then oxr_session_change_state s XR_SESSION_STATE_VISIBLE (now_xr env) else s);
         s = (if sess_state s = XR_SESSION_STATE_VISIBLE
              then oxr_session_change_state s XR_SESSION_STATE_SYNCHRONIZED (now_xr env) else s);
         s = (if \<not> has_ended_once s \<and> sess_state s \<noteq> XR_SESSION_STATE_SYNCHRONIZED
              then (oxr_session_change_state s XR_SESSION_STATE_SYNCHRONIZED (now_xr env))\<lparr>has_ended_once := True\<rparr>
              else s);
         s = oxr_session_change_state s XR_SESSION_STATE_STOPPING (now_xr env);
         s = s\<lparr>exiting := True\<rparr>
     in (s, oxr_session_success_result s))"

section \<open>Polling the compositor's events\<close>

unbundle bit_operations_syntax

definition xrt_to_passthrough_state_flags :: "32 word \<Rightarrow> XrFlags64" where
  "xrt_to_passthrough_state_flags state =
     (if bit state 0 then 1 else 0) OR (if bit state 1 then 2 else 0)
     OR (if bit state 2 then 4 else 0) OR (if bit state 3 then 8 else 0)"

datatype xrt_session_event =
    EventNone
  | EventStateChange bool bool
  | EventOverlayChange bool
  | EventLossPending int
  | EventLost
  | EventDisplayRefreshRateChange float32 float32
  | EventReferenceSpaceChangePending ref_change
  | EventPerformanceChange int int int int
  | EventPassthruStateChange "32 word"
  | EventVisibilityMaskChange "32 word"
  | EventUserPresenceChange bool
  | EventRequestExit
  | EventUnknown int

definition push_user_presence :: "session_env \<Rightarrow> bool \<Rightarrow> session \<Rightarrow> session" where
  "push_user_presence env present s =
     (if have_user_presence env then push_event (UserPresenceChangedEXT (handle s) present) s else s)"

text \<open>
  The \<^verbatim>\<open>switch\<close> of \<^verbatim>\<open>oxr_session_poll\<close>. The \<^verbatim>\<open>break\<close> of the visibility mask case is inside its
  \<^verbatim>\<open>#ifdef\<close>: without the extension the case falls into the next one, which reads
  \<^verbatim>\<open>is_user_present\<close> from the storage of \<^verbatim>\<open>view_index\<close> (its first byte, on the little-endian
  targets).
\<close>

definition dispatch_event :: "session_env \<Rightarrow> session \<Rightarrow> xrt_session_event \<Rightarrow> session" where
  "dispatch_event env s xse = (case xse of
      EventNone \<Rightarrow> s
    | EventStateChange visible focused \<Rightarrow> s\<lparr>compositor_visible := visible, compositor_focused := focused\<rparr>
    | EventOverlayChange visible \<Rightarrow>
        if have_overlay env then push_event (MainSessionVisibilityChangedEXTX 0 visible) s else s
    | EventLossPending loss_time_ns \<Rightarrow>
        oxr_session_change_state s XR_SESSION_STATE_LOSS_PENDING (monotonic_to_ts env loss_time_ns)
    | EventLost \<Rightarrow> s\<lparr>has_lost := True\<rparr>
    | EventRequestExit \<Rightarrow> fst (oxr_session_request_exit env s)
    | EventDisplayRefreshRateChange from_hz to_hz \<Rightarrow>
        if have_refresh_rate env then push_event (DisplayRefreshRateChangedFB from_hz to_hz) s else s
    | EventReferenceSpaceChangePending rc \<Rightarrow> fst (handle_reference_space_change_pending env s rc)
    | EventPerformanceChange dom' sub from_level to_level \<Rightarrow>
        if have_perf_settings env then push_event (PerfSettingsEXT dom' sub from_level to_level) s else s
    | EventPassthruStateChange state \<Rightarrow>
        if have_passthrough env then push_event (PassthroughStateChangedFB (xrt_to_passthrough_state_flags state)) s
        else s
    | EventVisibilityMaskChange view_index \<Rightarrow>
        if have_visibility_mask env
        then fold (\<lambda>cfg. push_event (VisibilityMaskChangedKHR (handle s) cfg view_index)) (view_configs env) s
        else push_user_presence env (take_bit 8 view_index \<noteq> 0) s
    | EventUserPresenceChange present \<Rightarrow> push_user_presence env present s
    | EventUnknown _ \<Rightarrow> s)"

text \<open>
  The event loop: \<open>polled\<close> lists what the calls of \<^verbatim>\<open>xrt_session_poll_events\<close> give; after
  its end they give \<^verbatim>\<open>XRT_SESSION_EVENT_NONE\<close>.
\<close>

primrec poll_loop ::
  "session_env \<Rightarrow> (xrt_result \<times> xrt_session_event) list \<Rightarrow> session \<Rightarrow> (session \<Rightarrow> session \<times> XrResult)
    \<Rightarrow> session \<times> XrResult" where
  "poll_loop env [] s k = k s"
| "poll_loop env (p # polled) s k = check_xret (fst p) s (\<lambda>s.
     if snd p = EventNone then k s else poll_loop env polled (dispatch_event env s (snd p)) k)"

definition android_lifecycle_changes :: "session_env \<Rightarrow> session \<Rightarrow> session" where
  "android_lifecycle_changes env s = (
     let s = (if activity_state env = ON_PAUSE then
                let s = (if sess_state s = XR_SESSION_STATE_FOCUSED
                         then oxr_session_change_state s XR_SESSION_STATE_VISIBLE (now_xr env) else s);
                    s = (if sess_state s = XR_SESSION_STATE_VISIBLE
                         then oxr_session_change_state s XR_SESSION_STATE_SYNCHRONIZED (now_xr env) else s)
                in (if sess_state s = XR_SESSION_STATE_SYNCHRONIZED
                    then oxr_session_change_state s XR_SESSION_STATE_STOPPING (now_xr env) else s)
              else s)
     in if activity_state env = ON_RESUME \<and> sess_state s = XR_SESSION_STATE_IDLE
        then oxr_session_change_state s XR_SESSION_STATE_READY (now_xr env) else s)"

definition follow_compositor :: "session_env \<Rightarrow> session \<Rightarrow> session" where
  "follow_compositor env s = (
     let s = (if sess_state s = XR_SESSION_STATE_SYNCHRONIZED \<and> compositor_visible s
              then oxr_session_change_state s XR_SESSION_STATE_VISIBLE (now_xr env) else s);
         s = (if sess_state s = XR_SESSION_STATE_VISIBLE \<and> compositor_focused s
              then oxr_session_change_state s XR_SESSION_STATE_FOCUSED (now_xr env) else s);
         s = (if sess_state s = XR_SESSION_STATE_FOCUSED \<and> \<not> compositor_focused s
              then oxr_session_change_state s XR_SESSION_STATE_VISIBLE (now_xr env) else s)
     in (if sess_state s = XR_SESSION_STATE_VISIBLE \<and> \<not> compositor_visible s
         then oxr_session_change_state s XR_SESSION_STATE_SYNCHRONIZED (now_xr env) else s))"

definition oxr_session_poll ::
  "session_env \<Rightarrow> bool \<Rightarrow> (xrt_result \<times> xrt_session_event) list \<Rightarrow> session \<Rightarrow> session \<times> XrResult" where
  "oxr_session_poll env xs_null polled s = (
     if xs_null then (s, XR_ERROR_RUNTIME_FAILURE)
     else
       let s = (if os_android env then android_lifecycle_changes env s else s)
       in poll_loop env polled s (\<lambda>s. (follow_compositor env s, XR_SUCCESS)))"

section \<open>The frame loop\<close>

record frame_state =
  shouldRender :: bool
  predictedDisplayTime :: int
  predictedDisplayPeriod :: int

text \<open>What a call of \<^verbatim>\<open>xrWaitFrame\<close> does: it sleeps on the frame sync object, or it returns.\<close>

datatype wait_outcome =
    WaitBlocks
  | WaitReturns XrResult "frame_state option"

definition do_wait_frame_and_checks ::
  "session_env \<Rightarrow> session \<Rightarrow> session \<times> (XrResult + int \<times> int \<times> int \<times> int)" where
  "do_wait_frame_and_checks env s = (case res_wait_frame env of
     (xret, frame_id, predicted_display_time, predicted_display_period) \<Rightarrow>
       let s = call_comp CompWaitFrame s;
           converted_time = monotonic_to_ts env predicted_display_time
       in if xret = XRT_ERROR_IPC_FAILURE then (s\<lparr>has_lost := True\<rparr>, Inl XR_ERROR_INSTANCE_LOST)
          else if xret \<noteq> XRT_SUCCESS then (s, Inl XR_ERROR_RUNTIME_FAILURE)
          else if frame_id < 0 then (s, Inl XR_ERROR_RUNTIME_FAILURE)
          else if predicted_display_time \<le> 0 then (s, Inl XR_ERROR_RUNTIME_FAILURE)
          else if converted_time \<le> 0 then (s, Inl XR_ERROR_RUNTIME_FAILURE)
          else (s, Inr (frame_id, predicted_display_time, predicted_display_period, converted_time)))"

definition oxr_session_frame_wait :: "session_env \<Rightarrow> session \<Rightarrow> fault + (session \<times> wait_outcome)" where
  "oxr_session_frame_wait env s = (
     if \<not> compositor s then
       Inr (s, WaitReturns (oxr_session_success_result s)
         (Some \<lparr>shouldRender = False, predictedDisplayTime = 0, predictedDisplayPeriod = 0\<rparr>))
     else case wait_frame_pass (frame_sync s) of
       (ofs, None) \<Rightarrow> Inr (s, WaitBlocks)
     | (ofs, Some ret) \<Rightarrow>
         let s = s\<lparr>frame_sync := ofs\<rparr> in
         if ret \<noteq> XR_SUCCESS then Inr (s, WaitReturns ret None)
         else case do_wait_frame_and_checks env s of
             (s, Inl err) \<Rightarrow>
               (case oxr_frame_sync_release (frame_sync s) of (ofs, _, release_ret) \<Rightarrow>
                  try_bind (c_assert (release_ret = XR_SUCCESS)) (\<lambda>_.
                    Inr (s\<lparr>frame_sync := ofs\<rparr>, WaitReturns err None)))
           | (s, Inr (frame_id, predicted_display_time, predicted_display_period, converted_time)) \<Rightarrow>
               try_bind (c_assert (predicted_display_time \<noteq> 0)) (\<lambda>_.
               try_bind (c_assert (predicted_display_period \<noteq> 0)) (\<lambda>_.
               try_bind (c_assert (converted_time \<noteq> 0)) (\<lambda>_.
                 let s = s\<lparr>active_wait_frames := active_wait_frames s + 1, frame_waited := frame_id\<rparr>
                 in Inr (s, WaitReturns (oxr_session_success_result s)
                      (Some \<lparr>shouldRender = should_render (sess_state s),
                             predictedDisplayTime = converted_time,
                             predictedDisplayPeriod = predicted_display_period\<rparr>))))))"

definition oxr_session_frame_begin :: "session_env \<Rightarrow> session \<Rightarrow> session \<times> XrResult" where
  "oxr_session_frame_begin env s = (
     let active = active_wait_frames s;
         begin_and_release = (\<lambda>ret s.
           let release = (\<lambda>s. case oxr_frame_sync_release (frame_sync s) of (ofs, _, osh_ret) \<Rightarrow>
                 let s = s\<lparr>frame_sync := ofs\<rparr> in
                 if osh_ret \<noteq> XR_SUCCESS then (s, osh_ret) else (s, ret))
           in if compositor s then
                check_xret (res_begin_frame env) (call_comp (CompBeginFrame (frame_waited s)) s) (\<lambda>s.
                  release (s\<lparr>frame_begun := frame_waited s, frame_waited := -1\<rparr>))
              else release s)
     in if active = 0 then (s, XR_ERROR_CALL_ORDER_INVALID)
        else if frame_started s then
          if active \<noteq> 2 then (s, XR_ERROR_CALL_ORDER_INVALID)
          else if compositor s then
            check_xret (res_discard_frame env) (call_comp (CompDiscardFrame (frame_begun s)) s) (\<lambda>s.
              begin_and_release XR_FRAME_DISCARDED
                (s\<lparr>frame_begun := -1, active_wait_frames := active_wait_frames s - 1\<rparr>))
          else begin_and_release XR_FRAME_DISCARDED s
        else begin_and_release (oxr_session_success_result s) (s\<lparr>frame_started := True\<rparr>))"

text \<open>The states that are smaller than \<^verbatim>\<open>XR_SESSION_STATE_VISIBLE\<close> in \<^verbatim>\<open>openxr.h\<close>.\<close>

definition below_visible :: "XrSessionState \<Rightarrow> bool" where
  "below_visible state \<longleftrightarrow> state \<in> {XR_SESSION_STATE_UNKNOWN, XR_SESSION_STATE_IDLE,
     XR_SESSION_STATE_READY, XR_SESSION_STATE_SYNCHRONIZED}"

definition do_synchronize_state_change :: "session \<Rightarrow> XrTime \<Rightarrow> session" where
  "do_synchronize_state_change s time = (
     if \<not> has_ended_once s \<and> below_visible (sess_state s)
     then (oxr_session_change_state s XR_SESSION_STATE_SYNCHRONIZED time)\<lparr>has_ended_once := True\<rparr>
     else s)"

record frame_end_info =
  displayTime :: int
  blend_valid :: bool
  blend_supported :: bool
  layers :: "nat option list option" \<comment> \<open>\<^verbatim>\<open>NULL\<close>, or the array; a \<^verbatim>\<open>NULL\<close> entry is \<open>None\<close>\<close>
  layerCount :: nat

text \<open>The checks over the layers: the first one that is \<^verbatim>\<open>NULL\<close> or that its verification refuses.\<close>

primrec verify_layers :: "session_env \<Rightarrow> nat option list \<Rightarrow> XrResult" where
  "verify_layers env [] = XR_SUCCESS"
| "verify_layers env (l # ls) = (case l of
      None \<Rightarrow> XR_ERROR_LAYER_INVALID
    | Some n \<Rightarrow> if verify_layer env n \<noteq> XR_SUCCESS then verify_layer env n else verify_layers env ls)"

text \<open>The submission loop: a failed submission marks a lost session, its result is ignored.\<close>

primrec submit_layers :: "session_env \<Rightarrow> nat option list \<Rightarrow> session \<Rightarrow> fault + session" where
  "submit_layers env [] s = Inr s"
| "submit_layers env (l # ls) s = (case l of
      None \<Rightarrow> Inl AssertFailed
    | Some n \<Rightarrow>
        submit_layers env ls (fst (check_xret (submit_layer env n) (call_comp (CompLayer n) s) (\<lambda>s. (s, XR_SUCCESS)))))"

definition oxr_session_frame_end :: "session_env \<Rightarrow> session \<Rightarrow> frame_end_info \<Rightarrow> fault + (session \<times> XrResult)" where
  "oxr_session_frame_end env s info = (
     if \<not> frame_started s then Inr (s, XR_ERROR_CALL_ORDER_INVALID)
     else if displayTime info \<le> 0 then Inr (s, XR_ERROR_TIME_INVALID)
     else if \<not> compositor s then
       let s = s\<lparr>frame_started := False, active_wait_frames := active_wait_frames s - 1\<rparr>;
           s = do_synchronize_state_change s (now_xr env)
       in Inr (s, oxr_session_success_result s)
     else if \<not> blend_valid info then Inr (s, XR_ERROR_VALIDATION_FAILURE)
     else if \<not> blend_supported info then Inr (s, XR_ERROR_ENVIRONMENT_BLEND_MODE_UNSUPPORTED)
     else if layerCount info = 0 then
       let s = s\<lparr>active_wait_frames := active_wait_frames s - 1\<rparr>
       in Inr (check_xret (res_discard_frame env) (call_comp (CompDiscardFrame (frame_begun s)) s) (\<lambda>s.
            let s = do_synchronize_state_change (s\<lparr>frame_begun := -1, frame_started := False\<rparr>) (now_xr env)
            in (s, oxr_session_success_result s)))
     else case layers info of
         None \<Rightarrow> Inr (s, XR_ERROR_LAYER_INVALID)
       | Some ls \<Rightarrow>
           let ls = take (layerCount info) ls; res = verify_layers env ls in
           if length ls < layerCount info then Inl OutOfBounds
           else if res \<noteq> XR_SUCCESS then Inr (s, res)
           else
             let s = do_synchronize_state_change s (now_xr env);
                 s = call_comp (CompLayerBegin (frame_begun s)) s
             in if res_layer_begin env \<noteq> XRT_SUCCESS
                then Inr (check_xret (res_layer_begin env) s (\<lambda>s. (s, XR_SUCCESS)))
                else try_bind (submit_layers env ls s) (\<lambda>s.
                  Inr (check_xret (res_layer_commit env) (call_comp CompLayerCommit s) (\<lambda>s.
                    let s = s\<lparr>frame_begun := -1, frame_started := False,
                              active_wait_frames := active_wait_frames s - 1\<rparr>
                    in (s, oxr_session_success_result s)))))"

section \<open>The entry points\<close>

text \<open>The guards shared by the entry points: the session must not be lost, and must be running.\<close>

definition verify_not_lost_running :: "session \<Rightarrow> XrResult" where
  "verify_not_lost_running s = (
     if has_lost s then XR_ERROR_SESSION_LOST
     else if \<not> oxr_frame_sync_is_session_running (frame_sync s) then XR_ERROR_SESSION_NOT_RUNNING
     else XR_SUCCESS)"

text \<open>\<open>view_check\<close> is the verdict of the two view configuration checks on the argument.\<close>

definition oxr_xrBeginSession :: "session_env \<Rightarrow> session \<Rightarrow> XrResult \<Rightarrow> int \<Rightarrow> session \<times> XrResult" where
  "oxr_xrBeginSession env s view_check view_type = (
     if has_lost s then (s, XR_ERROR_SESSION_LOST)
     else if compositor s \<and> view_check \<noteq> XR_SUCCESS then (s, view_check)
     else if oxr_frame_sync_is_session_running (frame_sync s) then (s, XR_ERROR_SESSION_RUNNING)
     else oxr_session_begin env s view_type)"

definition oxr_xrEndSession :: "session_env \<Rightarrow> session \<Rightarrow> session \<times> XrResult" where
  "oxr_xrEndSession env s = (
     if verify_not_lost_running s \<noteq> XR_SUCCESS then (s, verify_not_lost_running s) else oxr_session_end env s)"

definition oxr_xrRequestExitSession :: "session_env \<Rightarrow> session \<Rightarrow> session \<times> XrResult" where
  "oxr_xrRequestExitSession env s = (
     if verify_not_lost_running s \<noteq> XR_SUCCESS then (s, verify_not_lost_running s)
     else oxr_session_request_exit env s)"

definition oxr_xrWaitFrame :: "session_env \<Rightarrow> session \<Rightarrow> fault + (session \<times> wait_outcome)" where
  "oxr_xrWaitFrame env s = (
     if verify_not_lost_running s \<noteq> XR_SUCCESS then Inr (s, WaitReturns (verify_not_lost_running s) None)
     else oxr_session_frame_wait env s)"

definition oxr_xrBeginFrame :: "session_env \<Rightarrow> session \<Rightarrow> session \<times> XrResult" where
  "oxr_xrBeginFrame env s = (
     if verify_not_lost_running s \<noteq> XR_SUCCESS then (s, verify_not_lost_running s)
     else oxr_session_frame_begin env s)"

definition oxr_xrEndFrame :: "session_env \<Rightarrow> session \<Rightarrow> frame_end_info \<Rightarrow> fault + (session \<times> XrResult)" where
  "oxr_xrEndFrame env s info = (
     if verify_not_lost_running s \<noteq> XR_SUCCESS then Inr (s, verify_not_lost_running s)
     else if layerCount info > max_layers env then Inr (s, XR_ERROR_LAYER_LIMIT_EXCEEDED)
     else oxr_session_frame_end env s info)"

text \<open>The session that \<^verbatim>\<open>oxr_session_allocate_and_init\<close> makes (zeroed memory, then the fields).\<close>

definition oxr_session_allocate_and_init :: "XrSession \<Rightarrow> bool \<Rightarrow> session" where
  "oxr_session_allocate_and_init h vulkan = \<lparr>handle = h, gfx_vulkan = vulkan, compositor = False,
     sess_state = XR_SESSION_STATE_UNKNOWN, current_view_config_type = None, has_ended_once = False,
     compositor_visible = False, compositor_focused = False, active_wait_frames = 0,
     frame_started = False, exiting = False, frame_waited = 0, frame_begun = 0,
     frame_sync = fst (oxr_frame_sync_init 0 0), has_lost = False, events = [], comp_calls = []\<rparr>"

text \<open>\<^verbatim>\<open>oxr_session_create\<close> after its graphics binding has succeeded; \<open>with_comp\<close>: it has a compositor.\<close>

definition oxr_session_create :: "session_env \<Rightarrow> XrSession \<Rightarrow> bool \<Rightarrow> bool \<Rightarrow> session" where
  "oxr_session_create env h vulkan with_comp = (
     let s = (oxr_session_allocate_and_init h vulkan)\<lparr>compositor := with_comp\<rparr>;
         s = oxr_session_change_state s XR_SESSION_STATE_IDLE (now_xr env)
     in oxr_session_change_state s XR_SESSION_STATE_READY (now_xr env))"

section \<open>State changes\<close>

lemma change_state_simps [simp]:
  "sess_state (oxr_session_change_state s st t) = st"
  "handle (oxr_session_change_state s st t) = handle s"
  "compositor (oxr_session_change_state s st t) = compositor s"
  "has_ended_once (oxr_session_change_state s st t) = has_ended_once s"
  "compositor_visible (oxr_session_change_state s st t) = compositor_visible s"
  "compositor_focused (oxr_session_change_state s st t) = compositor_focused s"
  "active_wait_frames (oxr_session_change_state s st t) = active_wait_frames s"
  "frame_started (oxr_session_change_state s st t) = frame_started s"
  "exiting (oxr_session_change_state s st t) = exiting s"
  "frame_waited (oxr_session_change_state s st t) = frame_waited s"
  "frame_begun (oxr_session_change_state s st t) = frame_begun s"
  "frame_sync (oxr_session_change_state s st t) = frame_sync s"
  "has_lost (oxr_session_change_state s st t) = has_lost s"
  "comp_calls (oxr_session_change_state s st t) = comp_calls s"
  by (auto simp: oxr_session_change_state_def push_event_def)

lemma change_state_same [simp]: "sess_state s = st \<Longrightarrow> oxr_session_change_state s st t = s"
  by (simp add: oxr_session_change_state_def)

lemma push_event_simps [simp]:
  "sess_state (push_event d s) = sess_state s" "has_ended_once (push_event d s) = has_ended_once s"
  "compositor (push_event d s) = compositor s" "frame_sync (push_event d s) = frame_sync s"
  "handle (push_event d s) = handle s" "events (push_event d s) = events s @ [d]"
  by (simp_all add: push_event_def)

lemma call_comp_simps [simp]:
  "sess_state (call_comp c s) = sess_state s" "has_ended_once (call_comp c s) = has_ended_once s"
  "compositor (call_comp c s) = compositor s" "frame_sync (call_comp c s) = frame_sync s"
  "handle (call_comp c s) = handle s" "events (call_comp c s) = events s"
  "active_wait_frames (call_comp c s) = active_wait_frames s" "frame_started (call_comp c s) = frame_started s"
  "frame_waited (call_comp c s) = frame_waited s" "frame_begun (call_comp c s) = frame_begun s"
  "has_lost (call_comp c s) = has_lost s" "exiting (call_comp c s) = exiting s"
  "comp_calls (call_comp c s) = comp_calls s @ [c]"
  by (simp_all add: call_comp_def)

lemma check_xret_success [simp]: "check_xret XRT_SUCCESS s k = k s"
  by (simp add: check_xret_def)

text \<open>A property that survives marking the session lost survives an early return.\<close>

lemma check_xret_inv:
  assumes "P s" and "\<And>s. P s \<Longrightarrow> P (s\<lparr>has_lost := True\<rparr>)" and "\<And>s. P s \<Longrightarrow> P (fst (k s))"
  shows "P (fst (check_xret xret s k))"
  using assms by (simp add: check_xret_def)

text \<open>The transitions that the OpenXR specification allows.\<close>

definition legal_edge :: "XrSessionState \<Rightarrow> XrSessionState \<Rightarrow> bool" where
  "legal_edge a b \<longleftrightarrow> b = XR_SESSION_STATE_LOSS_PENDING \<or> (a, b) \<in> {
     (XR_SESSION_STATE_UNKNOWN, XR_SESSION_STATE_IDLE),
     (XR_SESSION_STATE_IDLE, XR_SESSION_STATE_READY),
     (XR_SESSION_STATE_READY, XR_SESSION_STATE_SYNCHRONIZED),
     (XR_SESSION_STATE_SYNCHRONIZED, XR_SESSION_STATE_VISIBLE),
     (XR_SESSION_STATE_VISIBLE, XR_SESSION_STATE_FOCUSED),
     (XR_SESSION_STATE_FOCUSED, XR_SESSION_STATE_VISIBLE),
     (XR_SESSION_STATE_VISIBLE, XR_SESSION_STATE_SYNCHRONIZED),
     (XR_SESSION_STATE_SYNCHRONIZED, XR_SESSION_STATE_STOPPING),
     (XR_SESSION_STATE_STOPPING, XR_SESSION_STATE_IDLE),
     (XR_SESSION_STATE_IDLE, XR_SESSION_STATE_EXITING)}"

fun changed_states :: "XrEventData list \<Rightarrow> XrSessionState list" where
  "changed_states [] = []"
| "changed_states (SessionStateChanged _ st _ # ds) = st # changed_states ds"
| "changed_states (_ # ds) = changed_states ds"

lemma changed_states_append [simp]: "changed_states (ds @ es) = changed_states ds @ changed_states es"
  by (induction ds rule: changed_states.induct) auto

text \<open>The states the application has been told, starting from the unknown state.\<close>

definition told :: "session \<Rightarrow> XrSessionState list" where
  "told s = XR_SESSION_STATE_UNKNOWN # changed_states (events s)"

definition legal :: "session \<Rightarrow> bool" where
  "legal s \<longleftrightarrow> successively legal_edge (told s) \<and> last (told s) = sess_state s"

lemma legal_change:
  assumes "legal s" and "sess_state s \<noteq> st \<Longrightarrow> legal_edge (sess_state s) st"
  shows "legal (oxr_session_change_state s st t)"
proof (cases "sess_state s = st")
  case False
  then have "told (oxr_session_change_state s st t) = told s @ [st]"
    by (simp add: told_def oxr_session_change_state_def)
  moreover have "told s \<noteq> []" by (simp add: told_def)
  ultimately show ?thesis
    using assms False by (simp add: legal_def successively_append_iff)
qed (use assms in simp)

lemma legal_push:
  "legal s \<Longrightarrow> changed_states [d] = [] \<Longrightarrow> legal (push_event d s)"
  by (simp add: legal_def told_def)

text \<open>Fields that do not matter to \<open>legal\<close>.\<close>

lemma legal_cong: "events s' = events s \<Longrightarrow> sess_state s' = sess_state s \<Longrightarrow> legal s' = legal s"
  by (simp add: legal_def told_def)

section \<open>The invariant of a session with a compositor\<close>

definition session_inv :: "session \<Rightarrow> bool" where
  "session_inv s \<longleftrightarrow> compositor s \<and> legal s
     \<and> (sess_state s \<in> {XR_SESSION_STATE_SYNCHRONIZED, XR_SESSION_STATE_VISIBLE,
            XR_SESSION_STATE_FOCUSED, XR_SESSION_STATE_STOPPING} \<longrightarrow> has_ended_once s \<and> running (frame_sync s))
     \<and> (sess_state s \<in> {XR_SESSION_STATE_UNKNOWN, XR_SESSION_STATE_IDLE, XR_SESSION_STATE_EXITING}
          \<longrightarrow> \<not> running (frame_sync s) \<and> \<not> has_ended_once s)
     \<and> (sess_state s = XR_SESSION_STATE_READY \<longrightarrow> \<not> has_ended_once s)"

lemma session_inv_cong:
  assumes "events s' = events s" and "sess_state s' = sess_state s" and "compositor s' = compositor s"
    and "has_ended_once s' = has_ended_once s" and "running (frame_sync s') = running (frame_sync s)"
  shows "session_inv s' = session_inv s"
  using assms legal_cong [of s' s] by (simp add: session_inv_def)

lemma session_inv_push:
  "session_inv s \<Longrightarrow> changed_states [d] = [] \<Longrightarrow> session_inv (push_event d s)"
  by (simp add: session_inv_def legal_push)

lemma session_inv_lost: "session_inv s \<Longrightarrow> session_inv (s\<lparr>has_lost := True\<rparr>)"
  by (simp add: session_inv_cong [of "s\<lparr>has_lost := True\<rparr>" s])

lemma session_inv_call: "session_inv (call_comp c s) = session_inv s"
  by (rule session_inv_cong) simp_all

lemma legal_updates [simp]:
  "legal (s\<lparr>has_ended_once := b\<rparr>) = legal s" "legal (s\<lparr>exiting := b\<rparr>) = legal s"
  "legal (s\<lparr>frame_sync := ofs\<rparr>) = legal s" "legal (s\<lparr>current_view_config_type := v\<rparr>) = legal s"
  "legal (s\<lparr>has_lost := b\<rparr>) = legal s" "legal (s\<lparr>frame_started := b\<rparr>) = legal s"
  "legal (s\<lparr>frame_waited := i\<rparr>) = legal s" "legal (s\<lparr>frame_begun := i\<rparr>) = legal s"
  "legal (s\<lparr>active_wait_frames := i\<rparr>) = legal s" "legal (call_comp c s) = legal s"
  "legal (s\<lparr>compositor_visible := b\<rparr>) = legal s" "legal (s\<lparr>compositor_focused := b\<rparr>) = legal s"
  by (auto intro!: legal_cong)

end
