(* ===== verification/Session_Invariant.thy ===== *)
theory Session_Invariant
  imports Session
begin

text \<open>
  What the calls of theory \<open>Session\<close> guarantee: the order of the session states the
  application is told, the abstract frame loop they implement, and the functional behaviour of
  ending a session and of enumerating swapchain formats.
\<close>

section \<open>Every call keeps the invariant\<close>

lemma session_inv_end:
  assumes "session_inv s"
  shows "session_inv (fst (oxr_session_end env s))"
proof (cases "quirk_skip_end_session env \<or> \<not> running (frame_sync s) \<or> sess_state s \<noteq> XR_SESSION_STATE_STOPPING")
  case True
  then show ?thesis
    using assms by (auto simp: oxr_session_end_def oxr_frame_sync_is_session_running_def)
next
  case False
  define s1 where "s1 = discard_if_valid frame_waited (\<lambda>s. s\<lparr>frame_waited := -1\<rparr>) s"
  define s2 where "s2 = call_comp CompEndSession
    ((discard_if_valid frame_begun (\<lambda>s. s\<lparr>frame_begun := -1\<rparr>) s1)\<lparr>frame_started := False\<rparr>)"
  have s2: "session_inv s2" "sess_state s2 = XR_SESSION_STATE_STOPPING" "running (frame_sync s2)" "compositor s"
    using assms False by (auto simp: s2_def s1_def discard_if_valid_def session_inv_def)
  from s2 have edges: "legal (oxr_session_change_state s2 XR_SESSION_STATE_IDLE t)" for t
    by (intro legal_change) (auto simp: session_inv_def legal_edge_def)
  have idle: "legal (oxr_session_change_state (oxr_session_change_state s2 XR_SESSION_STATE_IDLE t) st u)"
    if "st = XR_SESSION_STATE_EXITING \<or> st = XR_SESSION_STATE_READY" for t st u
    by (rule legal_change [OF edges]) (use that in \<open>auto simp: legal_edge_def\<close>)
  have "session_inv (fst (end_running env s2))"
    using s2 edges idle
    by (auto simp: end_running_def Let_def oxr_frame_sync_end_session_def session_inv_def)
  moreover have "fst (oxr_session_end env s) = fst (check_xret (res_end_session env) s2 (end_running env))"
    using False s2(4)
    by (simp add: oxr_session_end_def oxr_frame_sync_is_session_running_def s2_def s1_def Let_def)
  ultimately show ?thesis
    using s2(1) session_inv_lost [of s2] by (simp add: check_xret_def)
qed

lemma session_inv_begin:
  assumes "session_inv s" and "\<not> running (frame_sync s)"
  shows "session_inv (fst (oxr_session_begin env s view_type))"
proof (cases "sess_state s = XR_SESSION_STATE_READY")
  case True
  let ?P = "\<lambda>s. session_inv s \<and> sess_state s = XR_SESSION_STATE_READY"
  let ?fin = "begin_running view_type"
  have fin: "?P (fst (?fin s))" if "?P s" for s
    using that by (auto simp: begin_running_def oxr_frame_sync_begin_session_def session_inv_def Let_def)
  have lost: "?P (s\<lparr>has_lost := True\<rparr>)" if "?P s" for s
    using that by (simp add: session_inv_lost)
  have presence: "?P (fst (?fin (push_event (UserPresenceChangedEXT h p) s)))" if "?P s" for s h p
    by (rule fin) (use that in \<open>simp add: session_inv_push\<close>)
  have inner: "?P (fst (if b then check_xret r s (\<lambda>s. ?fin (push_event (UserPresenceChangedEXT (handle s) p) s)) else ?fin s))"
    if "?P s" for b r s p
    using that fin check_xret_inv [of ?P, OF _ lost presence] by simp
  have "?P (fst (check_xret (res_begin_session env) (call_comp (CompBeginSession view_type) s) (\<lambda>s.
      if b then check_xret r s (\<lambda>s. ?fin (push_event (UserPresenceChangedEXT (handle s) p) s)) else ?fin s)))" for b r p
    using check_xret_inv [of ?P, OF _ lost inner] assms True by (simp add: session_inv_call)
  from this [of "have_user_presence env \<and> ext_user_presence env \<and> supported_presence env"
      "fst (res_get_presence env)" "snd (res_get_presence env)"] assms(1) True
  show ?thesis
    by (simp add: oxr_session_begin_def session_inv_def [of s])
next
  case False
  then show ?thesis using assms by (simp add: oxr_session_begin_def)
qed

lemma session_inv_exit:
  assumes "session_inv s" and "running (frame_sync s)" and "sess_state s \<noteq> XR_SESSION_STATE_LOSS_PENDING"
  shows "session_inv (fst (oxr_session_request_exit env s))"
  using assms
  by (cases "sess_state s")
    (auto simp: oxr_session_request_exit_def Let_def session_inv_def legal_edge_def intro!: legal_change)

lemma session_inv_follow: "session_inv s \<Longrightarrow> session_inv (follow_compositor env s)"
  by (cases "sess_state s")
    (auto simp: follow_compositor_def Let_def session_inv_def legal_edge_def intro!: legal_change)

lemma session_inv_android: "session_inv s \<Longrightarrow> session_inv (android_lifecycle_changes env s)"
  by (cases "sess_state s")
    (auto simp: android_lifecycle_changes_def Let_def session_inv_def legal_edge_def intro!: legal_change)

lemma session_inv_masks:
  "session_inv s \<Longrightarrow> session_inv (fold (\<lambda>cfg. push_event (VisibilityMaskChangedKHR h cfg i)) cfgs s)"
  by (induction cfgs arbitrary: s) (simp_all add: session_inv_push)

lemma session_inv_dispatch:
  assumes "session_inv s"
    and "xse = EventRequestExit \<Longrightarrow> running (frame_sync s) \<and> sess_state s \<noteq> XR_SESSION_STATE_LOSS_PENDING"
  shows "session_inv (dispatch_event env s xse)"
proof (cases xse)
  case (EventStateChange v f)
  then show ?thesis
    using assms(1) by (simp add: dispatch_event_def session_inv_def)
next
  case (EventLossPending t)
  then show ?thesis
    using assms(1) by (auto simp: dispatch_event_def session_inv_def legal_edge_def intro!: legal_change)
next
  case EventRequestExit
  then show ?thesis using assms session_inv_exit by (simp add: dispatch_event_def)
next
  case (EventReferenceSpaceChangePending rc)
  then show ?thesis
    using assms(1)
    by (auto simp: dispatch_event_def handle_reference_space_change_pending_def Let_def
        emit_reference_space_change_pending_def intro!: session_inv_push split: xrt_reference_space_type.splits)
qed (use assms(1) in \<open>auto simp: dispatch_event_def push_user_presence_def
  intro!: session_inv_push session_inv_lost session_inv_masks\<close>)

text \<open>The compositor asks to exit only while the session runs and is not being lost.\<close>

fun exits_ok :: "session_env \<Rightarrow> (xrt_result \<times> xrt_session_event) list \<Rightarrow> session \<Rightarrow> bool" where
  "exits_ok env [] s = True"
| "exits_ok env (p # polled) s = (fst p = XRT_SUCCESS \<and> snd p \<noteq> EventNone \<longrightarrow>
     (snd p = EventRequestExit \<longrightarrow> running (frame_sync s) \<and> sess_state s \<noteq> XR_SESSION_STATE_LOSS_PENDING)
     \<and> exits_ok env polled (dispatch_event env s (snd p)))"

lemma session_inv_poll_loop:
  assumes "session_inv s" and "exits_ok env polled s" and "\<And>s. session_inv s \<Longrightarrow> session_inv (fst (k s))"
  shows "session_inv (fst (poll_loop env polled s k))"
  using assms
proof (induction polled arbitrary: s)
  case Nil
  then show ?case by simp
next
  case (Cons p polled)
  show ?case
    using Cons.prems Cons.IH session_inv_dispatch [of s "snd p" env] session_inv_lost [of s]
    by (auto simp: check_xret_def)
qed

lemma session_inv_poll:
  assumes "session_inv s"
    and "exits_ok env polled (if os_android env then android_lifecycle_changes env s else s)"
  shows "session_inv (fst (oxr_session_poll env xs_null polled s))"
  using assms
  by (auto simp: oxr_session_poll_def Let_def intro!: session_inv_poll_loop session_inv_follow session_inv_android)

lemma running_release [simp]: "running (fst (oxr_frame_sync_release ofs)) = running ofs"
  by (simp add: oxr_frame_sync_release_def)

lemma running_wait_pass: "wait_frame_pass ofs = (ofs', r) \<Longrightarrow> running ofs' = running ofs"
  by (auto simp: wait_frame_pass_def split: if_splits)

lemma do_wait_fields:
  assumes "do_wait_frame_and_checks env s = (s', r)"
  shows "events s' = events s \<and> sess_state s' = sess_state s \<and> compositor s' = compositor s
    \<and> has_ended_once s' = has_ended_once s \<and> frame_sync s' = frame_sync s"
  using assms by (auto simp: do_wait_frame_and_checks_def Let_def split: prod.splits if_splits)

lemma session_inv_wait:
  assumes "session_inv s" and "oxr_session_frame_wait env s = Inr (s', r)"
  shows "session_inv s'"
proof -
  have "events s' = events s \<and> sess_state s' = sess_state s \<and> compositor s' = compositor s
    \<and> has_ended_once s' = has_ended_once s \<and> running (frame_sync s') = running (frame_sync s)"
    using assms(2)
    by (auto simp: oxr_session_frame_wait_def Let_def try_simps oxr_frame_sync_release_def
        dest!: running_wait_pass do_wait_fields split: if_splits prod.splits option.splits sum.splits)
  with assms(1) session_inv_cong [of s' s] show ?thesis by simp
qed

lemma session_inv_frame_begin:
  assumes "session_inv s"
  shows "session_inv (fst (oxr_session_frame_begin env s))"
proof -
  let ?s = "fst (oxr_session_frame_begin env s)"
  have "events ?s = events s \<and> sess_state ?s = sess_state s \<and> compositor ?s = compositor s
    \<and> has_ended_once ?s = has_ended_once s \<and> running (frame_sync ?s) = running (frame_sync s)"
    by (simp add: oxr_session_frame_begin_def Let_def check_xret_def oxr_frame_sync_release_def)
  with assms session_inv_cong [of ?s s] show ?thesis by simp
qed

lemma session_inv_do_sync:
  assumes "session_inv s" and "running (frame_sync s)"
  shows "session_inv (do_synchronize_state_change s t)"
  using assms
  by (cases "sess_state s")
    (auto simp: do_synchronize_state_change_def below_visible_def session_inv_def legal_edge_def intro!: legal_change)

lemma submit_layers_fields:
  assumes "submit_layers env ls s = Inr s'"
  shows "events s' = events s \<and> sess_state s' = sess_state s \<and> compositor s' = compositor s
    \<and> has_ended_once s' = has_ended_once s \<and> frame_sync s' = frame_sync s
    \<and> active_wait_frames s' = active_wait_frames s \<and> frame_started s' = frame_started s"
  using assms
  by (induction ls arbitrary: s) (auto simp: check_xret_def split: option.splits if_splits)

lemma session_inv_frame_end:
  assumes "session_inv s" and "running (frame_sync s)"
    and "oxr_session_frame_end env s info = Inr (s', r)"
  shows "session_inv s'"
proof -
  let ?d = "\<lambda>s. do_synchronize_state_change s (now_xr env)"
  have upd: "session_inv (s\<lparr>frame_begun := a, frame_started := b\<rparr>) = session_inv s"
    "session_inv (s\<lparr>active_wait_frames := i\<rparr>) = session_inv s" for s a b i
    by (rule session_inv_cong; simp)+
  have comp: "compositor s" using assms(1) by (simp add: session_inv_def)
  have d: "session_inv (?d s)" using assms(1,2) by (rule session_inv_do_sync)
  have sub: "session_inv s2" if "submit_layers env ls s1 = Inr s2" "session_inv s1" for ls s1 s2
    using that submit_layers_fields [OF that(1)] session_inv_cong [of s2 s1] by simp
  show ?thesis
    using assms comp d
    by (auto simp: oxr_session_frame_end_def Let_def check_xret_def try_simps upd session_inv_call
        session_inv_lost session_inv_do_sync dest!: sub split: if_splits option.splits)
qed

section \<open>Runs of a session\<close>

inductive session_call :: "session \<Rightarrow> session \<Rightarrow> bool" where
  call_begin_session: "session_call s (fst (oxr_xrBeginSession env s view_check view_type))"
| call_end_session: "session_call s (fst (oxr_xrEndSession env s))"
| call_request_exit: "sess_state s \<noteq> XR_SESSION_STATE_LOSS_PENDING \<Longrightarrow>
    session_call s (fst (oxr_xrRequestExitSession env s))"
| call_wait_frame: "oxr_xrWaitFrame env s = Inr (s', r) \<Longrightarrow> session_call s s'"
| call_begin_frame: "session_call s (fst (oxr_xrBeginFrame env s))"
| call_end_frame: "oxr_xrEndFrame env s info = Inr (s', r2) \<Longrightarrow> session_call s s'"
| call_poll: "exits_ok env polled (if os_android env then android_lifecycle_changes env s else s) \<Longrightarrow>
    session_call s (fst (oxr_session_poll env xs_null polled s))"

inductive session_reach :: "session \<Rightarrow> bool" where
  created: "session_reach (oxr_session_create env h vulkan True)"
| called: "session_reach s \<Longrightarrow> session_call s s' \<Longrightarrow> session_reach s'"

lemma not_lost_running: "verify_not_lost_running s = XR_SUCCESS \<Longrightarrow> running (frame_sync s)"
  by (simp add: verify_not_lost_running_def oxr_frame_sync_is_session_running_def split: if_splits)

lemma session_inv_created: "session_inv (oxr_session_create env h vulkan True)"
proof -
  let ?s0 = "(oxr_session_allocate_and_init h vulkan)\<lparr>compositor := True\<rparr>"
  have s0: "legal ?s0" "sess_state ?s0 = XR_SESSION_STATE_UNKNOWN" "\<not> running (frame_sync ?s0)" "\<not> has_ended_once ?s0"
    by (simp_all add: oxr_session_allocate_and_init_def legal_def told_def oxr_frame_sync_init_def)
  have "legal (oxr_session_change_state (oxr_session_change_state ?s0 XR_SESSION_STATE_IDLE t) XR_SESSION_STATE_READY t)" for t
    by (intro legal_change) (use s0 in \<open>auto simp: legal_edge_def\<close>)
  then show ?thesis
    using s0 by (simp add: oxr_session_create_def Let_def session_inv_def)
qed

lemma session_inv_called:
  assumes "session_call s s'" and "session_inv s"
  shows "session_inv s'"
  using assms
proof cases
  case (call_begin_session env view_check view_type)
  then show ?thesis
    using assms(2)
    by (auto simp: oxr_xrBeginSession_def oxr_frame_sync_is_session_running_def intro!: session_inv_begin)
next
  case (call_end_session env)
  then show ?thesis
    using assms(2) by (auto simp: oxr_xrEndSession_def intro!: session_inv_end)
next
  case (call_request_exit env)
  then show ?thesis
    using assms(2) by (auto simp: oxr_xrRequestExitSession_def intro!: session_inv_exit dest: not_lost_running)
next
  case (call_wait_frame env r)
  then show ?thesis
    using assms(2) by (auto simp: oxr_xrWaitFrame_def split: if_splits intro: session_inv_wait)
next
  case (call_begin_frame env)
  then show ?thesis
    using assms(2) by (auto simp: oxr_xrBeginFrame_def intro!: session_inv_frame_begin)
next
  case (call_end_frame env info r2)
  then show ?thesis
    using assms(2)
    by (auto simp: oxr_xrEndFrame_def split: if_splits dest: not_lost_running intro: session_inv_frame_end)
next
  case (call_poll env polled xs_null)
  then show ?thesis
    using assms(2) by (auto intro!: session_inv_poll)
qed

lemma session_reach_inv: "session_reach s \<Longrightarrow> session_inv s"
  by (induction rule: session_reach.induct) (auto intro: session_inv_created session_inv_called)

text \<open>An environment in which every call succeeds; used by the examples.\<close>

definition sample_env :: session_env where
  "sample_env = \<lparr>have_local_floor = True, have_unbounded = True, have_overlay = True,
     have_refresh_rate = True, have_perf_settings = True, have_passthrough = True,
     have_visibility_mask = True, have_user_presence = False, os_android = False,
     quirk_disable_vk_depth = False, quirk_disable_vk_depth_stencil = False,
     quirk_skip_end_session = False, quirk_map_stage_to_local_floor = False,
     ext_local_floor = True, ext_unbounded = True, ext_user_presence = False,
     activity_state = OTHER_LIFECYCLE, view_configs = [2], max_layers = 16,
     now_ns = 5, monotonic_to_ts = (\<lambda>t. t),
     res_begin_session = XRT_SUCCESS, res_end_session = XRT_SUCCESS,
     res_wait_frame = (XRT_SUCCESS, 1, 20, 10), res_begin_frame = XRT_SUCCESS,
     res_discard_frame = XRT_SUCCESS, res_layer_begin = XRT_SUCCESS, res_layer_commit = XRT_SUCCESS,
     supported_presence = False, res_get_presence = (XRT_SUCCESS, False),
     verify_layer = (\<lambda>_. XR_SUCCESS), submit_layer = (\<lambda>_. XRT_SUCCESS)\<rparr>"

lemma sample_env_simps [simp]:
  "\<not> os_android sample_env" "\<not> quirk_skip_end_session sample_env" "\<not> have_user_presence sample_env"
  "\<not> quirk_disable_vk_depth sample_env" "res_end_session sample_env = XRT_SUCCESS" "res_begin_session sample_env = XRT_SUCCESS"
  by (simp_all add: sample_env_def)

section \<open>The abstract frame loop\<close>

datatype frame_call = CallWait | CallBegin | CallEnd

datatype frame_outcome = Blocks | Returns XrResult

text \<open>
  The frame loop as OpenXR describes it. The state says whether a frame has been waited for and
  not begun, and whether a frame has been begun and not ended; \<open>ok\<close> is the success code.
\<close>

fun frame_spec :: "XrResult \<Rightarrow> frame_call \<Rightarrow> bool \<times> bool \<Rightarrow> (bool \<times> bool) \<times> frame_outcome" where
  "frame_spec ok CallWait (True, begun) = ((True, begun), Blocks)"
| "frame_spec ok CallWait (False, begun) = ((True, begun), Returns ok)"
| "frame_spec ok CallBegin (False, begun) = ((False, begun), Returns XR_ERROR_CALL_ORDER_INVALID)"
| "frame_spec ok CallBegin (True, False) = ((False, True), Returns ok)"
| "frame_spec ok CallBegin (True, True) = ((False, True), Returns XR_FRAME_DISCARDED)"
| "frame_spec ok CallEnd (waited, False) = ((waited, False), Returns XR_ERROR_CALL_ORDER_INVALID)"
| "frame_spec ok CallEnd (waited, True) = ((waited, False), Returns ok)"

definition run_frame_call ::
  "session_env \<Rightarrow> frame_end_info \<Rightarrow> frame_call \<Rightarrow> session \<Rightarrow> fault + (session \<times> frame_outcome)" where
  "run_frame_call env info c s = (case c of
      CallWait \<Rightarrow> try_bind (oxr_xrWaitFrame env s) (\<lambda>(s, r).
        Inr (s, case r of WaitBlocks \<Rightarrow> Blocks | WaitReturns x _ \<Rightarrow> Returns x))
    | CallBegin \<Rightarrow> (case oxr_xrBeginFrame env s of (s, x) \<Rightarrow> Inr (s, Returns x))
    | CallEnd \<Rightarrow> try_bind (oxr_xrEndFrame env s info) (\<lambda>(s, x). Inr (s, Returns x)))"

definition frame_abs :: "session \<Rightarrow> bool \<times> bool" where
  "frame_abs s = (canWaitFrameReturn (frame_sync s) = 0, frame_started s)"

definition frame_loop_inv :: "session \<Rightarrow> bool" where
  "frame_loop_inv s \<longleftrightarrow> compositor s \<and> \<not> has_lost s \<and> running (frame_sync s)
     \<and> canWaitFrameReturn (frame_sync s) \<in> {0, 1}
     \<and> active_wait_frames s = (if canWaitFrameReturn (frame_sync s) = 0 then 1 else 0) + (if frame_started s then 1 else 0)"

text \<open>The compositor answers without errors and the frame the application submits is valid.\<close>

definition frame_env_ok :: "session_env \<Rightarrow> frame_end_info \<Rightarrow> bool" where
  "frame_env_ok env info \<longleftrightarrow>
     (case res_wait_frame env of (r, i, t, p) \<Rightarrow> r = XRT_SUCCESS \<and> 0 \<le> i \<and> 0 < t \<and> p \<noteq> 0 \<and> 0 < monotonic_to_ts env t)
     \<and> res_begin_frame env = XRT_SUCCESS \<and> res_discard_frame env = XRT_SUCCESS
     \<and> res_layer_begin env = XRT_SUCCESS \<and> res_layer_commit env = XRT_SUCCESS
     \<and> 0 < displayTime info \<and> blend_valid info \<and> blend_supported info \<and> layerCount info \<le> max_layers env
     \<and> (case layers info of None \<Rightarrow> layerCount info = 0
        | Some ls \<Rightarrow> length ls = layerCount info
            \<and> (\<forall>l \<in> set ls. case l of None \<Rightarrow> False | Some n \<Rightarrow> verify_layer env n = XR_SUCCESS \<and> submit_layer env n = XRT_SUCCESS))"

lemma verify_layers_ok:
  "\<forall>l \<in> set ls. case l of None \<Rightarrow> False | Some n \<Rightarrow> verify_layer env n = XR_SUCCESS \<and> submit_layer env n = XRT_SUCCESS
    \<Longrightarrow> verify_layers env ls = XR_SUCCESS"
  by (induction ls) (auto split: option.splits)

lemma submit_layers_ok:
  assumes "\<forall>l \<in> set ls. case l of None \<Rightarrow> False | Some n \<Rightarrow> verify_layer env n = XR_SUCCESS \<and> submit_layer env n = XRT_SUCCESS"
  shows "\<exists>s'. submit_layers env ls s = Inr s' \<and> has_lost s' = has_lost s"
  using assms
proof (induction ls arbitrary: s)
  case Nil
  then show ?case by simp
next
  case (Cons l ls)
  then obtain n where n: "l = Some n" "submit_layer env n = XRT_SUCCESS" by (cases l) auto
  from Cons obtain s' where "submit_layers env ls (call_comp (CompLayer n) s) = Inr s'"
    "has_lost s' = has_lost (call_comp (CompLayer n) s)"
    by fastforce
  with n show ?case by simp
qed

lemma do_sync_fields [simp]:
  "frame_sync (do_synchronize_state_change s t) = frame_sync s"
  "compositor (do_synchronize_state_change s t) = compositor s"
  "has_lost (do_synchronize_state_change s t) = has_lost s"
  "frame_started (do_synchronize_state_change s t) = frame_started s"
  "active_wait_frames (do_synchronize_state_change s t) = active_wait_frames s"
  by (simp_all add: do_synchronize_state_change_def)

lemma do_sync_result [simp]:
  "oxr_session_success_result (do_synchronize_state_change s t) = oxr_session_success_result s"
  by (auto simp: do_synchronize_state_change_def below_visible_def oxr_session_success_result_def)

lemma success_result_cong: "sess_state s' = sess_state s \<Longrightarrow> oxr_session_success_result s' = oxr_session_success_result s"
  by (simp add: oxr_session_success_result_def)

lemma frame_loop_invE:
  assumes "frame_loop_inv s"
  obtains (taken) "canWaitFrameReturn (frame_sync s) = 0" "compositor s" "verify_not_lost_running s = XR_SUCCESS"
      "running (frame_sync s)" "\<not> has_lost s" "active_wait_frames s = (if frame_started s then 2 else 1)"
  | (free) "canWaitFrameReturn (frame_sync s) = 1" "compositor s" "verify_not_lost_running s = XR_SUCCESS"
      "running (frame_sync s)" "\<not> has_lost s" "active_wait_frames s = (if frame_started s then 1 else 0)"
  using assms
  by (auto simp: frame_loop_inv_def verify_not_lost_running_def oxr_frame_sync_is_session_running_def)

lemma success_result_updates [simp]:
  "oxr_session_success_result (s\<lparr>frame_begun := i, frame_started := b\<rparr>) = oxr_session_success_result s"
  "oxr_session_success_result (s\<lparr>active_wait_frames := n\<rparr>) = oxr_session_success_result s"
  "oxr_session_success_result (s\<lparr>active_wait_frames := n, frame_begun := i, frame_started := b\<rparr>) = oxr_session_success_result s"
  "oxr_session_success_result (call_comp c s) = oxr_session_success_result s"
  by (simp_all add: oxr_session_success_result_def)

lemma wait_refines:
  assumes "frame_loop_inv s" and "frame_env_ok env info"
  shows "\<exists>s' out. run_frame_call env info CallWait s = Inr (s', out) \<and> frame_loop_inv s'
    \<and> (frame_abs s', out) = frame_spec (oxr_session_success_result s) CallWait (frame_abs s)"
proof -
  obtain i t p where w: "res_wait_frame env = (XRT_SUCCESS, i, t, p)" "0 \<le> i" "0 < t" "p \<noteq> 0"
    "0 < monotonic_to_ts env t"
    using assms(2) by (cases "res_wait_frame env") (simp add: frame_env_ok_def)
  from assms(1) show ?thesis
  proof (cases rule: frame_loop_invE)
    case taken
    with assms(1) show ?thesis
      by (simp add: run_frame_call_def oxr_xrWaitFrame_def oxr_session_frame_wait_def wait_frame_pass_def frame_abs_def)
  next
    case free
    with w show ?thesis
      by (simp add: run_frame_call_def oxr_xrWaitFrame_def oxr_session_frame_wait_def wait_frame_pass_def
          frame_abs_def do_wait_frame_and_checks_def frame_loop_inv_def oxr_session_success_result_def)
  qed
qed

lemma begin_refines:
  assumes "frame_loop_inv s" and "frame_env_ok env info"
  shows "\<exists>s' out. run_frame_call env info CallBegin s = Inr (s', out) \<and> frame_loop_inv s'
    \<and> (frame_abs s', out) = frame_spec (oxr_session_success_result s) CallBegin (frame_abs s)"
proof -
  have ok: "res_begin_frame env = XRT_SUCCESS" "res_discard_frame env = XRT_SUCCESS"
    using assms(2) by (simp_all add: frame_env_ok_def)
  from assms(1) show ?thesis
  proof (cases rule: frame_loop_invE)
    case taken
    with ok show ?thesis
      by (cases "frame_started s") (simp_all add: run_frame_call_def oxr_xrBeginFrame_def
          oxr_session_frame_begin_def frame_abs_def frame_loop_inv_def oxr_frame_sync_release_def Let_def
          oxr_session_success_result_def)
  next
    case free
    with ok assms(1) show ?thesis
      by (cases "frame_started s") (simp_all add: run_frame_call_def oxr_xrBeginFrame_def
          oxr_session_frame_begin_def frame_abs_def Let_def)
  qed
qed

lemma end_refines:
  assumes "frame_loop_inv s" and "frame_env_ok env info"
  shows "\<exists>s' out. run_frame_call env info CallEnd s = Inr (s', out) \<and> frame_loop_inv s'
    \<and> (frame_abs s', out) = frame_spec (oxr_session_success_result s) CallEnd (frame_abs s)"
proof (cases "frame_started s")
  case False
  have "verify_not_lost_running s = XR_SUCCESS" using assms(1) by (rule frame_loop_invE)
  moreover have "layerCount info \<le> max_layers env" using assms(2) by (simp add: frame_env_ok_def)
  ultimately show ?thesis
    using False assms(1)
    by (simp add: run_frame_call_def oxr_xrEndFrame_def oxr_session_frame_end_def frame_abs_def)
next
  case True
  have s: "compositor s" "verify_not_lost_running s = XR_SUCCESS" "running (frame_sync s)" "\<not> has_lost s"
    "canWaitFrameReturn (frame_sync s) \<in> {0, 1}"
    "active_wait_frames s = (if canWaitFrameReturn (frame_sync s) = 0 then 2 else 1)"
    using assms(1) True
    by (auto simp: frame_loop_inv_def verify_not_lost_running_def oxr_frame_sync_is_session_running_def)
  have e: "0 < displayTime info" "blend_valid info" "blend_supported info" "layerCount info \<le> max_layers env"
    "res_discard_frame env = XRT_SUCCESS" "res_layer_begin env = XRT_SUCCESS" "res_layer_commit env = XRT_SUCCESS"
    using assms(2) by (simp_all add: frame_env_ok_def)
  show ?thesis
  proof (cases "layerCount info = 0")
    case True
    with \<open>frame_started s\<close> s e show ?thesis
      by (auto simp: run_frame_call_def oxr_xrEndFrame_def oxr_session_frame_end_def frame_abs_def Let_def
          frame_loop_inv_def)
  next
    case False
    with assms(2) obtain ls where ls: "layers info = Some ls" "length ls = layerCount info"
      and ok: "\<forall>l \<in> set ls. case l of None \<Rightarrow> False | Some n \<Rightarrow> verify_layer env n = XR_SUCCESS \<and> submit_layer env n = XRT_SUCCESS"
      by (auto simp: frame_env_ok_def split: option.splits)
    let ?s1 = "call_comp (CompLayerBegin (frame_begun (do_synchronize_state_change s (now_xr env))))
        (do_synchronize_state_change s (now_xr env))"
    from submit_layers_ok [OF ok] obtain s2 where
      s2: "submit_layers env ls ?s1 = Inr s2" "has_lost s2 = has_lost ?s1" by blast
    note same = submit_layers_fields [OF s2(1)]
    have "oxr_session_success_result s2 = oxr_session_success_result s"
      using same success_result_cong [of s2 "do_synchronize_state_change s (now_xr env)"] by simp
    with False \<open>frame_started s\<close> s e ls verify_layers_ok [OF ok] s2 same show ?thesis
      by (auto simp: run_frame_call_def oxr_xrEndFrame_def oxr_session_frame_end_def frame_abs_def Let_def
          frame_loop_inv_def)
  qed
qed

lemma end_running_keeps:
  "active_wait_frames (fst (end_running env s)) = active_wait_frames s"
  "compositor (fst (end_running env s)) = compositor s"
  "has_lost (fst (end_running env s)) = has_lost s"
  by (simp_all add: end_running_def Let_def oxr_frame_sync_end_session_def)

lemma end_session_keeps:
  assumes "res_end_session env = XRT_SUCCESS"
  shows "active_wait_frames (fst (oxr_session_end env s)) = active_wait_frames s
    \<and> compositor (fst (oxr_session_end env s)) = compositor s
    \<and> has_lost (fst (oxr_session_end env s)) = has_lost s"
  using assms by (simp add: oxr_session_end_def Let_def discard_if_valid_def end_running_keeps)

section \<open>Properties\<close>



text \<open>C2. The frame loop implements its specification. While the session runs with a compositor
  that answers without errors, \<^verbatim>\<open>xrWaitFrame\<close>, \<^verbatim>\<open>xrBeginFrame\<close> and \<^verbatim>\<open>xrEndFrame\<close> move the pair
  (frame waited for and not begun, frame begun and not ended) exactly as OpenXR prescribes:
  a second wait blocks until the begin, a begin without a wait and an end without a begin are
  \<^verbatim>\<open>XR_ERROR_CALL_ORDER_INVALID\<close>, a second begin discards the first frame; no assertion fails.\<close>

theorem frame_loop_refines_spec:
  assumes "frame_loop_inv s" and "frame_env_ok env info"
  shows "\<exists>s' out. run_frame_call env info c s = Inr (s', out) \<and> frame_loop_inv s'
    \<and> (frame_abs s', out) = frame_spec (oxr_session_success_result s) c (frame_abs s)"
  using wait_refines [OF assms] begin_refines [OF assms] end_refines [OF assms] by (cases c) simp_all

definition sample_running :: session where
  "sample_running = fst (oxr_xrBeginSession sample_env (oxr_session_create sample_env 9 True True) XR_SUCCESS 2)"

definition sample_frame :: frame_end_info where
  "sample_frame = \<lparr>displayTime = 20, blend_valid = True, blend_supported = True,
     layers = Some [Some 0], layerCount = 1\<rparr>"

lemma sample_created:
  "oxr_session_create sample_env h v True = (oxr_session_allocate_and_init h v)
     \<lparr>compositor := True, sess_state := XR_SESSION_STATE_READY,
      events := [SessionStateChanged h XR_SESSION_STATE_IDLE 5, SessionStateChanged h XR_SESSION_STATE_READY 5]\<rparr>"
  by (simp add: oxr_session_create_def oxr_session_allocate_and_init_def oxr_session_change_state_def
      push_event_def now_xr_def sample_env_def Let_def)

lemma sample_running_eq:
  "sample_running = (oxr_session_create sample_env 9 True True)
     \<lparr>frame_sync := \<lparr>canWaitFrameReturn = 1, initialized = True, running = True\<rparr>,
      current_view_config_type := Some 2, comp_calls := [CompBeginSession 2]\<rparr>"
  unfolding sample_running_def sample_created
  by (simp add: oxr_xrBeginSession_def oxr_session_begin_def begin_running_def oxr_session_allocate_and_init_def
      oxr_frame_sync_is_session_running_def oxr_frame_sync_init_def zeroed_frame_sync_def sample_env_def
      oxr_frame_sync_begin_session_def call_comp_def Let_def)

lemma sample_running_inv: "frame_loop_inv sample_running"
  by (simp add: sample_running_eq sample_created frame_loop_inv_def oxr_session_allocate_and_init_def)

theorem frame_loop_refines_spec_witness:
  "\<exists>s' out. run_frame_call sample_env sample_frame CallWait sample_running = Inr (s', out)
    \<and> (frame_abs s', out) = ((True, False), Returns XR_SUCCESS)"
proof -
  have "frame_env_ok sample_env sample_frame"
    by (simp add: frame_env_ok_def sample_env_def sample_frame_def)
  moreover have "frame_abs sample_running = (False, False)" "oxr_session_success_result sample_running = XR_SUCCESS"
    by (simp_all add: sample_running_eq sample_created frame_abs_def oxr_session_allocate_and_init_def
        oxr_session_success_result_def)
  ultimately show ?thesis
    using frame_loop_refines_spec [OF sample_running_inv, of sample_env sample_frame CallWait] by auto
qed

text \<open>Ending a session. If the session runs, is stopping and its compositor ends the session,
  \<^verbatim>\<open>oxr_session_end\<close> first discards the frame waited for and the frame begun (each only if its id
  is positive), then ends the compositor's session; afterwards neither frame is open, the session
  does not run, and its state is \<^verbatim>\<open>EXITING\<close> if an exit was requested, otherwise \<^verbatim>\<open>READY\<close>
  (\<^verbatim>\<open>IDLE\<close> on Android).\<close>

lemma end_session_discards_frames:
  assumes "oxr_session_end env s = (s', r)" and "compositor s" and "running (frame_sync s)"
    and "sess_state s = XR_SESSION_STATE_STOPPING" and "\<not> quirk_skip_end_session env"
    and "res_end_session env = XRT_SUCCESS"
  shows "r = XR_SUCCESS \<and> comp_calls s' = comp_calls s
      @ (if frame_waited s > 0 then [CompDiscardFrame (frame_waited s)] else [])
      @ (if frame_begun s > 0 then [CompDiscardFrame (frame_begun s)] else []) @ [CompEndSession]
    \<and> frame_waited s' \<le> 0 \<and> frame_begun s' \<le> 0 \<and> \<not> frame_started s' \<and> \<not> running (frame_sync s')
    \<and> sess_state s' = (if exiting s then XR_SESSION_STATE_EXITING
        else if os_android env then XR_SESSION_STATE_IDLE else XR_SESSION_STATE_READY)"
  using assms
  by (auto simp: oxr_session_end_def oxr_frame_sync_is_session_running_def end_running_def Let_def
      discard_if_valid_def oxr_frame_sync_end_session_def oxr_session_success_result_def)

text \<open>Ending a session leaves a stale wait count. \<^verbatim>\<open>oxr_session_end\<close> discards a frame that was
  waited for and never begun, but does not take it out of \<^verbatim>\<open>active_wait_frames\<close>. After the
  session has begun again, a wait, a begin and a second begin are therefore accepted: the second
  begin, which has no wait of its own, discards the frame just begun instead of returning
  \<^verbatim>\<open>XR_ERROR_CALL_ORDER_INVALID\<close>.\<close>

lemma end_session_stale_wait_count:
  assumes "compositor s" and "\<not> has_lost s" and "running (frame_sync s)" and "\<not> exiting s"
    and "sess_state s = XR_SESSION_STATE_STOPPING" and "canWaitFrameReturn (frame_sync s) = 0"
    and "active_wait_frames s = 1" and "frame_env_ok env info"
    and "\<not> quirk_skip_end_session env" and "\<not> os_android env" and "\<not> have_user_presence env"
    and "res_end_session env = XRT_SUCCESS" and "res_begin_session env = XRT_SUCCESS"
  shows "\<exists>s1 s2 s3 s4 s5. oxr_xrEndSession env s = (s1, XR_SUCCESS)
    \<and> oxr_xrBeginSession env s1 XR_SUCCESS view_type = (s2, XR_SUCCESS)
    \<and> run_frame_call env info CallWait s2 = Inr (s3, Returns XR_SUCCESS)
    \<and> run_frame_call env info CallBegin s3 = Inr (s4, Returns XR_SUCCESS)
    \<and> active_wait_frames s4 = 2
    \<and> snd (oxr_session_frame_begin env s4) \<noteq> XR_ERROR_CALL_ORDER_INVALID"
proof -
  obtain s1 r1 where e1: "oxr_session_end env s = (s1, r1)" by fastforce
  note end1 = end_session_discards_frames [OF e1 assms(1,3,5,9,12)]
  have a1: "active_wait_frames s1 = 1" "compositor s1" "\<not> has_lost s1" "sess_state s1 = XR_SESSION_STATE_READY"
    using end_session_keeps [OF assms(12), of s] e1 assms end1 by auto
  have end': "oxr_xrEndSession env s = (s1, XR_SUCCESS)"
    using e1 end1 assms
    by (simp add: oxr_xrEndSession_def verify_not_lost_running_def oxr_frame_sync_is_session_running_def)
  obtain s2 where b: "oxr_xrBeginSession env s1 XR_SUCCESS view_type = (s2, XR_SUCCESS)"
    and s2: "active_wait_frames s2 = 1" "compositor s2" "\<not> has_lost s2" "sess_state s2 = XR_SESSION_STATE_READY"
      "running (frame_sync s2)" "canWaitFrameReturn (frame_sync s2) = 1" "\<not> frame_started s2"
    using a1 end1 assms
    by (simp add: oxr_xrBeginSession_def oxr_session_begin_def begin_running_def oxr_frame_sync_is_session_running_def
        oxr_frame_sync_begin_session_def Let_def oxr_session_success_result_def)
  obtain i t p where w: "res_wait_frame env = (XRT_SUCCESS, i, t, p)" "0 \<le> i" "0 < t" "p \<noteq> 0"
    "0 < monotonic_to_ts env t"
    using assms(8) by (cases "res_wait_frame env") (simp add: frame_env_ok_def)
  have ok: "res_begin_frame env = XRT_SUCCESS" "res_discard_frame env = XRT_SUCCESS"
    using assms(8) by (simp_all add: frame_env_ok_def)
  obtain s3 where c: "run_frame_call env info CallWait s2 = Inr (s3, Returns XR_SUCCESS)"
    and s3: "active_wait_frames s3 = 2" "compositor s3" "\<not> has_lost s3" "sess_state s3 = XR_SESSION_STATE_READY"
      "running (frame_sync s3)" "canWaitFrameReturn (frame_sync s3) = 0" "\<not> frame_started s3"
    using s2 w
    by (simp add: run_frame_call_def oxr_xrWaitFrame_def verify_not_lost_running_def
        oxr_frame_sync_is_session_running_def oxr_session_frame_wait_def wait_frame_pass_def
        do_wait_frame_and_checks_def oxr_session_success_result_def)
  obtain s4 where d: "run_frame_call env info CallBegin s3 = Inr (s4, Returns XR_SUCCESS)"
    and s4: "active_wait_frames s4 = 2" "compositor s4" "frame_started s4"
    using s3 ok
    by (simp add: run_frame_call_def oxr_xrBeginFrame_def verify_not_lost_running_def Let_def
        oxr_frame_sync_is_session_running_def oxr_session_frame_begin_def oxr_frame_sync_release_def
        oxr_session_success_result_def)
  have "snd (oxr_session_frame_begin env s4) \<noteq> XR_ERROR_CALL_ORDER_INVALID"
    using s4 ok by (simp add: oxr_session_frame_begin_def Let_def oxr_frame_sync_release_def)
  with end' b c d s4(1) show ?thesis by blast
qed

text \<open>An exit request that the compositor sends before the application has begun the session
  strands it. Polling that event in \<^verbatim>\<open>READY\<close> moves the session to \<^verbatim>\<open>STOPPING\<close> although it does not
  run; from then on \<^verbatim>\<open>xrBeginSession\<close> answers that it is not ready, and \<^verbatim>\<open>xrEndSession\<close> and
  \<^verbatim>\<open>xrRequestExitSession\<close> that it is not running, without changing the session.\<close>

lemma exit_request_before_begin_strands:
  assumes "sess_state s = XR_SESSION_STATE_READY" and "\<not> running (frame_sync s)" and "\<not> has_lost s"
    and "\<not> os_android env" and "has_ended_once s = False"
    and "oxr_session_poll env False [(XRT_SUCCESS, EventRequestExit)] s = (s', r)"
  shows "r = XR_SUCCESS \<and> sess_state s' = XR_SESSION_STATE_STOPPING
    \<and> oxr_xrBeginSession env2 s' XR_SUCCESS view_type = (s', XR_ERROR_SESSION_NOT_READY)
    \<and> oxr_xrEndSession env2 s' = (s', XR_ERROR_SESSION_NOT_RUNNING)
    \<and> oxr_xrRequestExitSession env2 s' = (s', XR_ERROR_SESSION_NOT_RUNNING)"
  using assms
  by (auto simp: oxr_session_poll_def dispatch_event_def oxr_session_request_exit_def Let_def follow_compositor_def
      oxr_xrBeginSession_def oxr_session_begin_def oxr_xrEndSession_def oxr_xrRequestExitSession_def
      verify_not_lost_running_def oxr_frame_sync_is_session_running_def)

lemma filter_formats_eq:
  "length filtered + length formats \<le> XRT_MAX_SWAPCHAIN_FORMATS \<Longrightarrow>
    filter_formats env s formats filtered = Inr (filtered @ filter (\<lambda>f. \<not> should_skip_format env s f) formats)"
  by (induction formats arbitrary: filtered) auto

text \<open>Enumerating swapchain formats is a correct two-call function. If the compositor lists at
  most \<^verbatim>\<open>XRT_MAX_SWAPCHAIN_FORMATS\<close> formats, the local array does not overflow; asking with
  capacity 0 gives the number of formats that are not skipped, a smaller capacity fails with that
  number, and a sufficient one returns exactly those formats, in order.\<close>

lemma enumerate_formats_two_call:
  assumes "length formats \<le> XRT_MAX_SWAPCHAIN_FORMATS" and "compositor s"
  shows "let fs = filter (\<lambda>f. \<not> should_skip_format env s f) formats in
    oxr_session_enumerate_formats env s formats capacity True = Inr (Some (length fs),
      if capacity = 0 \<or> capacity < length fs then [] else fs,
      if capacity \<noteq> 0 \<and> capacity < length fs then XR_ERROR_SIZE_INSUFFICIENT else oxr_session_success_result s)"
  using filter_formats_eq [of "[]" formats env s] assms
  by (simp add: oxr_session_enumerate_formats_def Let_def)

end
