(* ===== verification/Oxr_Handle.thy ===== *)
theory Oxr_Handle
  imports Prelude
begin

text \<open>
  The OpenXR object tree: \<^verbatim>\<open>src/src/xrt/state_trackers/oxr/oxr_handle_base.c\<close>.

  Every object an application holds (instance, session, swapchain, ...) starts with a
  \<^verbatim>\<open>struct oxr_handle_base\<close>; the objects live in a heap from addresses to such structs, a
  freed object is a missing address. Logging is left out; \<^verbatim>\<open>hb->destroy\<close> is a function
  pointer, so the model calls a parameter \<open>dtor\<close> with it. The contract of a destructor
  (it frees its own object and succeeds, when called on a detached object without children)
  is the locale \<open>handle_destroyer\<close>, interpreted on \<^verbatim>\<open>destroy_handle\<close> of
  \<^verbatim>\<open>oxr_swapchain.c\<close>.
\<close>

section \<open>Data\<close>

datatype oxr_handle_state =
    OXR_HANDLE_STATE_UNINITIALIZED
  | OXR_HANDLE_STATE_LIVE
  | OXR_HANDLE_STATE_DESTROYED

record 'd oxr_handle_base =
  hb_state :: oxr_handle_state
  hb_debug :: "64 word"
  hb_parent :: "addr option"
  hb_children :: "addr option list"
  hb_destroy :: "'d option"

type_synonym 'd handle_heap = "addr \<rightharpoonup> 'd oxr_handle_base"

definition XRT_MAX_HANDLE_CHILDREN :: nat where
  "XRT_MAX_HANDLE_CHILDREN = 256"

definition oxr_handle_state_to_string :: "oxr_handle_state \<Rightarrow> string" where
  "oxr_handle_state_to_string st = (case st of
     OXR_HANDLE_STATE_UNINITIALIZED \<Rightarrow> ''UNINITIALIZED''
   | OXR_HANDLE_STATE_LIVE \<Rightarrow> ''LIVE''
   | OXR_HANDLE_STATE_DESTROYED \<Rightarrow> ''DESTROYED'')"

text \<open>\<^verbatim>\<open>U_ZERO(hb)\<close>, and what \<^verbatim>\<open>calloc\<close> returns.\<close>

definition zero_handle :: "'d oxr_handle_base" where
  "zero_handle = \<lparr>hb_state = OXR_HANDLE_STATE_UNINITIALIZED, hb_debug = 0, hb_parent = None,
     hb_children = replicate XRT_MAX_HANDLE_CHILDREN None, hb_destroy = None\<rparr>"

text \<open>Reading through a pointer to a handle.\<close>

section \<open>Creating handles\<close>

definition init_fields ::
  "'d handle_heap \<Rightarrow> addr \<Rightarrow> 64 word \<Rightarrow> 'd \<Rightarrow> addr option \<Rightarrow> 'd handle_heap" where
  "init_fields h hb dbg d parent =
     h(hb \<mapsto> zero_handle\<lparr>hb_debug := dbg, hb_parent := parent,
                           hb_state := OXR_HANDLE_STATE_LIVE, hb_destroy := Some d\<rparr>)"

definition oxr_handle_init ::
  "'d handle_heap \<Rightarrow> addr \<Rightarrow> 64 word \<Rightarrow> 'd \<Rightarrow> addr option \<Rightarrow> fault + ('d handle_heap \<times> XrResult)" where
  "oxr_handle_init h hb dbg d parent =
     try_bind (c_assert (dbg \<noteq> 0)) (\<lambda>_.
     try_bind (deref h hb) (\<lambda>cell.
       let h1 = h(hb \<mapsto> cell\<lparr>hb_state := OXR_HANDLE_STATE_UNINITIALIZED\<rparr>) in
       case parent of
         None \<Rightarrow> Inr (init_fields h1 hb dbg d None, XR_SUCCESS)
       | Some p \<Rightarrow>
           try_bind (deref h1 p) (\<lambda>pc.
             if hb_state pc \<noteq> OXR_HANDLE_STATE_LIVE then Inr (h1, XR_ERROR_RUNTIME_FAILURE)
             else (case find_index (\<lambda>c. c = None) (hb_children pc) of
                     None \<Rightarrow> Inr (h1, XR_ERROR_LIMIT_REACHED)
                   | Some i \<Rightarrow>
                       Inr (init_fields (h1(p \<mapsto> pc\<lparr>hb_children := (hb_children pc)[i := Some hb]\<rparr>))
                              hb dbg d (Some p), XR_SUCCESS)))))"

text \<open>
  \<^verbatim>\<open>oxr_handle_allocate_and_init\<close>: \<open>mem\<close> is the pointer \<^verbatim>\<open>calloc\<close> returned, \<open>None\<close> for
  \<^verbatim>\<open>NULL\<close> (which the assertion of \<^verbatim>\<open>oxr_handle_init\<close> catches). The third component is
  the new value of \<^verbatim>\<open>*out\<close>, if it was written.
\<close>

definition oxr_handle_allocate_and_init ::
  "'d handle_heap \<Rightarrow> addr option \<Rightarrow> 64 word \<Rightarrow> 'd \<Rightarrow> addr option
    \<Rightarrow> fault + ('d handle_heap \<times> XrResult \<times> addr option)" where
  "oxr_handle_allocate_and_init h mem dbg d parent =
     (case mem of
        None \<Rightarrow> Inl AssertFailed
      | Some hb \<Rightarrow>
          try_bind (oxr_handle_init (h(hb \<mapsto> zero_handle)) hb dbg d parent) (\<lambda>(h1, result).
            if result \<noteq> XR_SUCCESS then Inr (h1(hb := None), result, None)
            else Inr (h1, result, Some hb)))"

section \<open>Destroying handles\<close>

type_synonym 'd destructor = "'d \<Rightarrow> 'd handle_heap \<Rightarrow> addr \<Rightarrow> 'd handle_heap \<times> XrResult"

text \<open>The loop over the child slots; \<^verbatim>\<open>hb->children[i]\<close> is read again in every round.\<close>

primrec destroy_children ::
  "('d handle_heap \<Rightarrow> addr \<Rightarrow> fault + ('d handle_heap \<times> XrResult)) \<Rightarrow> addr \<Rightarrow> nat list
    \<Rightarrow> 'd handle_heap \<Rightarrow> fault + ('d handle_heap \<times> XrResult)" where
  "destroy_children rec hb [] h = Inr (h, XR_SUCCESS)"
| "destroy_children rec hb (i # is) h =
     try_bind (deref h hb) (\<lambda>c.
     try_bind (arr_get (hb_children c) i) (\<lambda>slot.
       case slot of
         None \<Rightarrow> destroy_children rec hb is h
       | Some child \<Rightarrow>
           try_bind (rec h child) (\<lambda>(h1, result).
             if result \<noteq> XR_SUCCESS then Inr (h1, result)
             else destroy_children rec hb is h1)))"

text \<open>\<^verbatim>\<open>oxr_handle_do_destroy\<close>; the fuel bounds the recursion depth.\<close>

primrec oxr_handle_do_destroy ::
  "nat \<Rightarrow> 'd destructor \<Rightarrow> 'd handle_heap \<Rightarrow> addr \<Rightarrow> fault + ('d handle_heap \<times> XrResult)" where
  "oxr_handle_do_destroy 0 dtor h hb = Inl OutOfFuel"
| "oxr_handle_do_destroy (Suc fuel) dtor h hb =
     try_bind (deref h hb) (\<lambda>c.
     try_bind
       (case hb_parent c of
          None \<Rightarrow> Inr (h, XR_SUCCESS)
        | Some p \<Rightarrow>
            try_bind (deref h p) (\<lambda>pc.
              case find_index (\<lambda>x. x = Some hb) (hb_children pc) of
                None \<Rightarrow> Inr (h, XR_ERROR_RUNTIME_FAILURE)
              | Some i \<Rightarrow>
                  (let h1 = h(p \<mapsto> pc\<lparr>hb_children := (hb_children pc)[i := None]\<rparr>) in
                   try_bind (deref h1 hb) (\<lambda>c1. Inr (h1(hb \<mapsto> c1\<lparr>hb_parent := None\<rparr>), XR_SUCCESS)))))
       (\<lambda>(h2, result).
          if result \<noteq> XR_SUCCESS then Inr (h2, result)
          else
            try_bind
              (destroy_children (oxr_handle_do_destroy fuel dtor) hb [0..<XRT_MAX_HANDLE_CHILDREN] h2)
              (\<lambda>(h3, result).
                 if result \<noteq> XR_SUCCESS then Inr (h3, result)
                 else
                   try_bind (deref h3 hb) (\<lambda>c3.
                     case hb_destroy c3 of
                       None \<Rightarrow> Inl NullDeref
                     | Some d \<Rightarrow>
                         Inr (dtor d (h3(hb \<mapsto> c3\<lparr>hb_state := OXR_HANDLE_STATE_DESTROYED\<rparr>)) hb)))))"

definition oxr_handle_destroy ::
  "nat \<Rightarrow> 'd destructor \<Rightarrow> 'd handle_heap \<Rightarrow> addr \<Rightarrow> fault + ('d handle_heap \<times> XrResult)" where
  "oxr_handle_destroy fuel dtor h hb = oxr_handle_do_destroy fuel dtor h hb"

section \<open>Well-formed object trees\<close>

text \<open>
  Parent pointers and child slots mirror each other, no child sits in two slots, every
  object is live and has a destructor, and parents are ranked below their children (there
  is no cycle). Addresses range over an infinite type, so the heap is finite.
\<close>

definition parent_of :: "'d handle_heap \<Rightarrow> addr \<Rightarrow> addr \<Rightarrow> bool" where
  "parent_of h p c \<longleftrightarrow> (\<exists>cc. h c = Some cc \<and> hb_parent cc = Some p)"

definition cell_ok :: "'d oxr_handle_base \<Rightarrow> bool" where
  "cell_ok c \<longleftrightarrow> length (hb_children c) = XRT_MAX_HANDLE_CHILDREN
     \<and> hb_state c = OXR_HANDLE_STATE_LIVE \<and> hb_destroy c \<noteq> None
     \<and> (\<forall>i < length (hb_children c). \<forall>j < length (hb_children c). \<forall>k.
           hb_children c ! i = Some k \<longrightarrow> hb_children c ! j = Some k \<longrightarrow> i = j)"

definition wf_handles :: "'d handle_heap \<Rightarrow> bool" where
  "wf_handles h \<longleftrightarrow> finite (dom h)
     \<and> (\<forall>a c. h a = Some c \<longrightarrow> cell_ok c)
     \<and> (\<forall>p c k. h p = Some c \<and> Some k \<in> set (hb_children c) \<longrightarrow> parent_of h p k)
     \<and> (\<forall>p k. parent_of h p k \<longrightarrow> (\<exists>c. h p = Some c \<and> Some k \<in> set (hb_children c)))
     \<and> (\<exists>rank :: addr \<Rightarrow> nat. \<forall>p k. parent_of h p k \<longrightarrow> rank p < rank k)"

lemma wf_handlesI:
  assumes "finite (dom h)" and "\<And>a c. h a = Some c \<Longrightarrow> cell_ok c"
    and "\<And>p c k. h p = Some c \<Longrightarrow> Some k \<in> set (hb_children c) \<Longrightarrow> parent_of h p k"
    and "\<And>p k. parent_of h p k \<Longrightarrow> \<exists>c. h p = Some c \<and> Some k \<in> set (hb_children c)"
    and "\<And>p k. parent_of h p k \<Longrightarrow> (rank :: addr \<Rightarrow> nat) p < rank k"
  shows "wf_handles h"
  unfolding wf_handles_def using assms by blast

lemma wf_handlesD:
  assumes "wf_handles h"
  shows wf_finite: "finite (dom h)"
    and wf_cell: "h a = Some c \<Longrightarrow> cell_ok c"
    and wf_child: "h p = Some c \<Longrightarrow> Some k \<in> set (hb_children c) \<Longrightarrow> parent_of h p k"
    and wf_parent: "parent_of h p k \<Longrightarrow> \<exists>c. h p = Some c \<and> Some k \<in> set (hb_children c)"
    and wf_rank: "\<exists>rank :: addr \<Rightarrow> nat. \<forall>p k. parent_of h p k \<longrightarrow> rank p < rank k"
  using assms unfolding wf_handles_def by blast+

lemma cell_okD:
  assumes "cell_ok c"
  shows cell_length: "length (hb_children c) = XRT_MAX_HANDLE_CHILDREN"
    and cell_live: "hb_state c = OXR_HANDLE_STATE_LIVE"
    and cell_destroy: "hb_destroy c \<noteq> None"
    and cell_slots: "i < length (hb_children c) \<Longrightarrow> j < length (hb_children c)
      \<Longrightarrow> hb_children c ! i = Some k \<Longrightarrow> hb_children c ! j = Some k \<Longrightarrow> i = j"
  using assms unfolding cell_ok_def by blast+

lemma parent_of_Some: "h k = Some c \<Longrightarrow> parent_of h p k \<longleftrightarrow> hb_parent c = Some p"
  by (simp add: parent_of_def)

text \<open>The objects at or below \<open>a\<close>.\<close>

inductive below :: "'d handle_heap \<Rightarrow> addr \<Rightarrow> addr \<Rightarrow> bool" for h a where
  below_refl: "below h a a"
| below_child: "below h a p \<Longrightarrow> parent_of h p k \<Longrightarrow> below h a k"

lemma below_dom: "below h a b \<Longrightarrow> b = a \<or> b \<in> dom h"
  by (induction rule: below.induct) (auto simp: parent_of_def)

lemma below_trans:
  assumes "below h b c" and "below h a b"
  shows "below h a c"
  using assms by (induction rule: below.induct) (auto intro: below.intros)

lemma below_rank:
  assumes "below h a b" and "\<forall>p k. parent_of h p k \<longrightarrow> (rank :: addr \<Rightarrow> nat) p < rank k"
  shows "rank a \<le> rank b"
  using assms by (induction rule: below.induct) (auto intro: le_less_trans less_imp_le)

lemma below_finite: "finite (dom h) \<Longrightarrow> finite {b. below h a b}"
  by (rule finite_subset [of _ "insert a (dom h)"]) (auto dest: below_dom)

lemma not_below_parent:
  assumes "wf_handles h" and "parent_of h a k"
  shows "\<not> below h k a"
proof
  assume *: "below h k a"
  obtain rank :: "addr \<Rightarrow> nat" where r: "\<forall>p k. parent_of h p k \<longrightarrow> rank p < rank k"
    using wf_rank [OF assms(1)] by blast
  from below_rank [OF * r] r assms(2) show False
    by (meson leD)
qed

text \<open>
  What destroying \<open>a\<close> leaves: everything at or below \<open>a\<close> is gone, and the slot that
  pointed to \<open>a\<close> is empty.
\<close>

definition clear_child :: "addr \<Rightarrow> 'd oxr_handle_base \<Rightarrow> 'd oxr_handle_base" where
  "clear_child a c = c\<lparr>hb_children := map (\<lambda>x. if x = Some a then None else x) (hb_children c)\<rparr>"

definition without :: "'d handle_heap \<Rightarrow> addr \<Rightarrow> 'd handle_heap" where
  "without h a = (\<lambda>b. if below h a b then None else map_option (clear_child a) (h b))"

lemma without_app: "without h a b = (if below h a b then None else map_option (clear_child a) (h b))"
  by (simp add: without_def)

lemma clear_child_sel [simp]:
  "hb_parent (clear_child a c) = hb_parent c"
  "hb_state (clear_child a c) = hb_state c"
  "hb_destroy (clear_child a c) = hb_destroy c"
  "length (hb_children (clear_child a c)) = length (hb_children c)"
  "Some k \<in> set (hb_children (clear_child a c)) \<longleftrightarrow> k \<noteq> a \<and> Some k \<in> set (hb_children c)"
  by (auto simp: clear_child_def)

lemma clear_child_nth:
  "i < length (hb_children c) \<Longrightarrow> hb_children (clear_child a c) ! i = (if hb_children c ! i = Some a then None else hb_children c ! i)"
  by (simp add: clear_child_def)

lemma clear_child_id: "Some a \<notin> set (hb_children c) \<Longrightarrow> clear_child a c = c"
  unfolding clear_child_def by (rule oxr_handle_base.equality) (auto intro: map_idI)

lemma cell_ok_clear: "cell_ok c \<Longrightarrow> cell_ok (clear_child a c)"
  unfolding cell_ok_def by (simp add: clear_child_nth)

lemma parent_of_without: "parent_of (without h a) p k \<longleftrightarrow> parent_of h p k \<and> \<not> below h a k"
  by (auto simp: parent_of_def without_def)

lemma without_wf:
  assumes wf: "wf_handles h"
  shows "wf_handles (without h a)"
proof -
  obtain rank :: "addr \<Rightarrow> nat" where r: "\<forall>p k. parent_of h p k \<longrightarrow> rank p < rank k"
    using wf_rank [OF wf] by blast
  show ?thesis
  proof (rule wf_handlesI [where rank = rank])
    show "finite (dom (without h a))"
      by (rule finite_subset [OF _ wf_finite [OF wf]]) (auto simp: without_def split: if_splits)
    show "cell_ok c" if "without h a b = Some c" for b c
      using that wf_cell [OF wf] by (auto simp: without_def cell_ok_clear split: if_splits)
    show "parent_of (without h a) p k"
      if "without h a p = Some c" and "Some k \<in> set (hb_children c)" for p c k
    proof -
      from that obtain c0 where c0: "h p = Some c0" "\<not> below h a p" "k \<noteq> a" "Some k \<in> set (hb_children c0)"
        by (auto simp: without_def split: if_splits)
      have pk: "parent_of h p k" by (rule wf_child [OF wf c0(1,4)])
      have "\<not> below h a k"
        using c0(2,3) pk by (auto simp: parent_of_def elim: below.cases)
      with pk show ?thesis by (simp add: parent_of_without)
    qed
    show "\<exists>c. without h a p = Some c \<and> Some k \<in> set (hb_children c)"
      if "parent_of (without h a) p k" for p k
    proof -
      from that have pk: "parent_of h p k" and nk: "\<not> below h a k"
        by (simp_all add: parent_of_without)
      then have np: "\<not> below h a p" by (blast intro: below_child)
      from nk have "k \<noteq> a" by (auto intro: below_refl)
      with wf_parent [OF wf pk] np show ?thesis
        by (auto simp: without_def)
    qed
    show "rank p < rank k" if "parent_of (without h a) p k" for p k
      using that r by (simp add: parent_of_without)
  qed
qed

section \<open>Unlinking an object from its parent\<close>

definition detached :: "'d handle_heap \<Rightarrow> addr \<Rightarrow> 'd handle_heap" where
  "detached h a = (\<lambda>b. map_option (\<lambda>c. if b = a then c\<lparr>hb_parent := None\<rparr> else clear_child a c) (h b))"

lemma detached_app:
  "detached h a b = map_option (\<lambda>c. if b = a then c\<lparr>hb_parent := None\<rparr> else clear_child a c) (h b)"
  by (simp add: detached_def)

lemma not_own_child:
  assumes "wf_handles h" and "h b = Some c" and "\<not> parent_of h b a"
  shows "Some a \<notin> set (hb_children c)"
  using assms wf_child by blast

lemma not_own_parent: "wf_handles h \<Longrightarrow> \<not> parent_of h a a"
  using not_below_parent below_refl by blast

lemma parent_of_detached: "parent_of (detached h a) p k \<longleftrightarrow> parent_of h p k \<and> k \<noteq> a"
  by (auto simp: parent_of_def detached_def)

lemma below_detached: "below (detached h a) a b \<longleftrightarrow> below h a b"
proof
  assume "below (detached h a) a b"
  then show "below h a b"
    by (induction rule: below.induct) (auto simp: parent_of_detached intro: below.intros)
next
  assume "below h a b"
  then show "below (detached h a) a b"
  proof (induction rule: below.induct)
    case below_refl
    show ?case by (rule below.below_refl)
  next
    case (below_child p k)
    then show ?case
      by (cases "k = a") (auto simp: parent_of_detached intro: below.intros)
  qed
qed

lemma detached_wf:
  assumes wf: "wf_handles h"
  shows "wf_handles (detached h a)"
proof -
  obtain rank :: "addr \<Rightarrow> nat" where r: "\<forall>p k. parent_of h p k \<longrightarrow> rank p < rank k"
    using wf_rank [OF wf] by blast
  show ?thesis
  proof (rule wf_handlesI [where rank = rank])
    show "finite (dom (detached h a))"
      by (rule finite_subset [OF _ wf_finite [OF wf]]) (auto simp: detached_def)
    show "cell_ok c" if "detached h a b = Some c" for b c
    proof (cases "b = a")
      case True
      with that wf_cell [OF wf] show ?thesis
        by (auto simp: detached_def cell_ok_def)
    next
      case False
      with that wf_cell [OF wf] show ?thesis
        by (auto simp: detached_def cell_ok_clear)
    qed
    show "parent_of (detached h a) p k"
      if "detached h a p = Some c" and "Some k \<in> set (hb_children c)" for p c k
    proof -
      from that obtain c0 where c0: "h p = Some c0" "Some k \<in> set (hb_children c0)" "p \<noteq> a \<longrightarrow> k \<noteq> a"
        by (auto simp: detached_def split: if_splits)
      have "parent_of h p k" by (rule wf_child [OF wf c0(1,2)])
      with c0(3) not_own_parent [OF wf, of a] show ?thesis
        by (auto simp: parent_of_detached)
    qed
    show "\<exists>c. detached h a p = Some c \<and> Some k \<in> set (hb_children c)"
      if "parent_of (detached h a) p k" for p k
    proof -
      from that have pk: "parent_of h p k" and "k \<noteq> a" by (simp_all add: parent_of_detached)
      from wf_parent [OF wf pk] obtain c where "h p = Some c" "Some k \<in> set (hb_children c)" by blast
      with \<open>k \<noteq> a\<close> show ?thesis by (auto simp: detached_def)
    qed
    show "rank p < rank k" if "parent_of (detached h a) p k" for p k
      using that r by (simp add: parent_of_detached)
  qed
qed

lemma clear_child_update:
  assumes "cell_ok c" and "find_index (\<lambda>x. x = Some a) (hb_children c) = Some i"
  shows "c\<lparr>hb_children := (hb_children c)[i := None]\<rparr> = clear_child a c"
proof -
  from assms(2) have i: "i < length (hb_children c)" "hb_children c ! i = Some a"
    by (auto simp: find_index_Some_iff)
  have "(hb_children c)[i := None] = map (\<lambda>x. if x = Some a then None else x) (hb_children c)"
    by (rule nth_equalityI)
      (use i cell_slots [OF assms(1)] in \<open>auto simp: nth_list_update\<close>)
  then show ?thesis by (simp add: clear_child_def)
qed

lemma detached_root:
  assumes wf: "wf_handles h" and "h a = Some c" and "hb_parent c = None"
  shows "detached h a = h"
proof
  fix b
  show "detached h a b = h b"
  proof (cases "h b")
    case (Some cb)
    have "\<not> parent_of h b a" using assms(2,3) by (simp add: parent_of_Some)
    with wf Some have "clear_child a cb = cb"
      by (blast intro: clear_child_id dest: not_own_child)
    with Some assms(2,3) show ?thesis by (auto simp: detached_def)
  qed (simp add: detached_def)
qed

lemma detached_child:
  assumes wf: "wf_handles h" and a: "h a = Some c" and p: "hb_parent c = Some p" "h p = Some pc"
    and i: "find_index (\<lambda>x. x = Some a) (hb_children pc) = Some i"
  shows "h(p \<mapsto> pc\<lparr>hb_children := (hb_children pc)[i := None]\<rparr>, a \<mapsto> c\<lparr>hb_parent := None\<rparr>) = detached h a"
proof
  fix b
  have "p \<noteq> a" using not_own_parent [OF wf, of a] a p by (auto simp: parent_of_Some)
  have pc: "pc\<lparr>hb_children := (hb_children pc)[i := None]\<rparr> = clear_child a pc"
    using wf_cell [OF wf p(2)] i by (rule clear_child_update)
  have other: "clear_child a cb = cb" if "h b = Some cb" "b \<noteq> p" for cb
  proof -
    have "\<not> parent_of h b a" using a p(1) that(2) by (simp add: parent_of_Some)
    with wf that(1) show ?thesis by (blast intro: clear_child_id dest: not_own_child)
  qed
  show "(h(p \<mapsto> pc\<lparr>hb_children := (hb_children pc)[i := None]\<rparr>, a \<mapsto> c\<lparr>hb_parent := None\<rparr>)) b = detached h a b"
    using \<open>p \<noteq> a\<close> a p(2) pc other
    by (cases "b = a"; cases "b = p"; cases "h b") (auto simp: detached_def)
qed

section \<open>The loop over the children\<close>

definition bare :: "'d handle_heap \<Rightarrow> addr \<Rightarrow> 'd handle_heap" where
  "bare h a = (\<lambda>b. if b = a
     then map_option (\<lambda>c. c\<lparr>hb_children := replicate XRT_MAX_HANDLE_CHILDREN None\<rparr>) (h a)
     else if below h a b then None else h b)"

lemma below_without:
  assumes wf: "wf_handles h" and k: "parent_of h a k"
  shows "below (without h k) a b \<longleftrightarrow> below h a b \<and> \<not> below h k b"
proof
  assume "below (without h k) a b"
  then show "below h a b \<and> \<not> below h k b"
    by (induction rule: below.induct)
      (auto simp: parent_of_without not_below_parent [OF wf k] intro: below.intros)
next
  assume "below h a b \<and> \<not> below h k b"
  then have "below h a b" and "\<not> below h k b" by auto
  then show "below (without h k) a b"
  proof (induction rule: below.induct)
    case below_refl
    show ?case by (rule below.below_refl)
  next
    case (below_child p q)
    then have "\<not> below h k p" by (blast intro: below.below_child)
    with below_child show ?case
      by (auto simp: parent_of_without intro: below.below_child)
  qed
qed

lemma below_card:
  assumes wf: "wf_handles h" and k: "parent_of h a k"
  shows "card {b. below h k b} < card {b. below h a b}"
    and "card {b. below (without h k) a b} \<le> card {b. below h a b}"
proof -
  have fin: "finite {b. below h a b}" by (rule below_finite [OF wf_finite [OF wf]])
  have "{b. below h k b} \<subset> {b. below h a b}"
    using not_below_parent [OF wf k] below_trans [OF _ below_child [OF below_refl k]] below_refl [of h a]
    by blast
  with fin show "card {b. below h k b} < card {b. below h a b}" by (rule psubset_card_mono)
  show "card {b. below (without h k) a b} \<le> card {b. below h a b}"
    by (rule card_mono [OF fin]) (auto simp: below_without [OF assms])
qed

lemma bare_without:
  assumes wf: "wf_handles h" and k: "parent_of h a k" and a: "h a = Some c"
  shows "bare (without h k) a = bare h a"
proof
  fix b
  have na: "\<not> below h k a" by (rule not_below_parent [OF assms(1,2)])
  have len: "length (hb_children c) = XRT_MAX_HANDLE_CHILDREN" by (rule cell_length [OF wf_cell [OF wf a]])
  have other: "clear_child k cb = cb" if "h b = Some cb" "b \<noteq> a" for cb
  proof -
    have "\<not> parent_of h b k" using k that(2) by (auto simp: parent_of_def)
    with wf that(1) show ?thesis by (blast intro: clear_child_id dest: not_own_child)
  qed
  have sub: "below h k b \<Longrightarrow> below h a b"
    using below_trans [OF _ below_child [OF below_refl k]] .
  show "bare (without h k) a b = bare h a b"
  proof (cases "b = a")
    case True
    with na a show ?thesis by (simp add: bare_def without_def clear_child_def)
  next
    case False
    with na other sub show ?thesis
      by (cases "h b") (auto simp: bare_def below_without [OF wf k] without_app)
  qed
qed

lemma bare_leaf:
  assumes wf: "wf_handles h" and a: "h a = Some c" and "\<forall>i < XRT_MAX_HANDLE_CHILDREN. hb_children c ! i = None"
  shows "bare h a = h"
proof
  fix b
  have len: "length (hb_children c) = XRT_MAX_HANDLE_CHILDREN" by (rule cell_length [OF wf_cell [OF wf a]])
  with assms(3) have "hb_children c = replicate XRT_MAX_HANDLE_CHILDREN None"
    by (simp add: list_eq_iff_nth_eq)
  then have c: "c\<lparr>hb_children := replicate XRT_MAX_HANDLE_CHILDREN None\<rparr> = c" by simp
  have "below h a d \<Longrightarrow> d = a" for d
  proof (induction rule: below.induct)
    case (below_child p k)
    with wf_parent [OF wf, of p k] a \<open>hb_children c = _\<close> show ?case by auto
  qed simp
  with a c show "bare h a b = h b" by (auto simp: bare_def)
qed

lemma destroy_children_bare:
  assumes rec: "\<And>h k. wf_handles h \<Longrightarrow> k \<in> dom h \<Longrightarrow> card {b. below h k b} \<le> n
      \<Longrightarrow> f h k = Inr (without h k, XR_SUCCESS)"
  shows "wf_handles h \<Longrightarrow> h a = Some c \<Longrightarrow> card {b. below h a b} \<le> Suc n
      \<Longrightarrow> \<forall>i < j. hb_children c ! i = None \<Longrightarrow> j \<le> XRT_MAX_HANDLE_CHILDREN
      \<Longrightarrow> destroy_children f a [j..<XRT_MAX_HANDLE_CHILDREN] h = Inr (bare h a, XR_SUCCESS)"
proof (induction "XRT_MAX_HANDLE_CHILDREN - j" arbitrary: j h c)
  case 0
  then show ?case by (simp add: bare_leaf)
next
  case (Suc m)
  note wf = Suc.prems(1) and a = Suc.prems(2)
  from Suc.hyps(2) have j: "j < XRT_MAX_HANDLE_CHILDREN" by simp
  have len: "length (hb_children c) = XRT_MAX_HANDLE_CHILDREN" by (rule cell_length [OF wf_cell [OF wf a]])
  have upt: "[j..<XRT_MAX_HANDLE_CHILDREN] = j # [Suc j..<XRT_MAX_HANDLE_CHILDREN]"
    using j by (rule upt_conv_Cons)
  have m: "m = XRT_MAX_HANDLE_CHILDREN - Suc j" using Suc.hyps(2) by simp
  show ?case
  proof (cases "hb_children c ! j")
    case None
    with Suc.prems(4) have "\<forall>i < Suc j. hb_children c ! i = None" by (simp add: less_Suc_eq)
    from Suc.hyps(1) [OF m wf a Suc.prems(3) this] j a len None show ?thesis
      by (simp add: upt)
  next
    case (Some k)
    with j len have "Some k \<in> set (hb_children c)" by (metis nth_mem)
    then have k: "parent_of h a k" by (rule wf_child [OF wf a])
    then have "k \<in> dom h" by (auto simp: parent_of_def)
    moreover have "card {b. below h k b} \<le> n"
      using below_card(1) [OF wf k] Suc.prems(3) by simp
    ultimately have f: "f h k = Inr (without h k, XR_SUCCESS)" using rec wf by blast
    have a': "without h k a = Some (clear_child k c)"
      using a not_below_parent [OF wf k] by (simp add: without_def)
    have slots: "\<forall>i < Suc j. hb_children (clear_child k c) ! i = None"
      using Suc.prems(4) Some len j by (auto simp: clear_child_nth less_Suc_eq)
    have "card {b. below (without h k) a b} \<le> Suc n"
      using below_card(2) [OF wf k] Suc.prems(3) by simp
    from Suc.hyps(1) [OF m without_wf [OF wf] a' this slots] j a len Some f show ?thesis
      by (simp add: upt bare_without [OF wf k a])
  qed
qed

section \<open>Destruction\<close>

text \<open>
  The contract of a destructor: called on a live-again detached object without children,
  whose state is already DESTROYED, it frees exactly that object.
\<close>

locale handle_destroyer =
  fixes dtor :: "'d destructor"
  assumes dtor_frees: "h a = Some c \<Longrightarrow> hb_state c = OXR_HANDLE_STATE_DESTROYED \<Longrightarrow> hb_parent c = None
    \<Longrightarrow> \<forall>k. Some k \<notin> set (hb_children c) \<Longrightarrow> hb_destroy c = Some d
    \<Longrightarrow> dtor d h a = (h(a := None), XR_SUCCESS)"
begin

lemma do_destroy_step:
  assumes wf: "wf_handles h" and a: "h a = Some c"
    and loop: "destroy_children (oxr_handle_do_destroy n dtor) a [0..<XRT_MAX_HANDLE_CHILDREN] (detached h a)
      = Inr (bare (detached h a) a, XR_SUCCESS)"
  shows "oxr_handle_do_destroy (Suc n) dtor h a = Inr (without h a, XR_SUCCESS)"
proof -
  let ?c3 = "c\<lparr>hb_parent := None, hb_children := replicate XRT_MAX_HANDLE_CHILDREN None\<rparr>"
  have unlink: "(case hb_parent c of
      None \<Rightarrow> Inr (h, XR_SUCCESS)
    | Some p \<Rightarrow> try_bind (deref h p) (\<lambda>pc.
        case find_index (\<lambda>x. x = Some a) (hb_children pc) of
          None \<Rightarrow> Inr (h, XR_ERROR_RUNTIME_FAILURE)
        | Some i \<Rightarrow> (let h1 = h(p \<mapsto> pc\<lparr>hb_children := (hb_children pc)[i := None]\<rparr>) in
            try_bind (deref h1 a) (\<lambda>c1. Inr (h1(a \<mapsto> c1\<lparr>hb_parent := None\<rparr>), XR_SUCCESS)))))
    = Inr (detached h a, XR_SUCCESS)"
  proof (cases "hb_parent c")
    case None
    with wf a show ?thesis by (simp add: detached_root)
  next
    case (Some p)
    with a have pa: "parent_of h p a" by (simp add: parent_of_Some)
    with wf obtain pc where pc: "h p = Some pc" "Some a \<in> set (hb_children pc)"
      by (blast dest: wf_parent)
    from pc(2) obtain i where i: "find_index (\<lambda>x. x = Some a) (hb_children pc) = Some i"
      using find_index_exists [of "Some a" "hb_children pc" "\<lambda>x. x = Some a"] by blast
    have "a \<noteq> p" using pa not_own_parent [OF wf] by blast
    with Some pc i a detached_child [OF wf a Some pc(1) i] show ?thesis
      by (simp add: fun_upd_def deref_def)
  qed
  have c3: "bare (detached h a) a a = Some ?c3"
    using a by (simp add: bare_def detached_def)
  obtain d where d: "hb_destroy c = Some d" using cell_destroy [OF wf_cell [OF wf a]] by blast
  let ?h4 = "(bare (detached h a) a)(a \<mapsto> ?c3\<lparr>hb_state := OXR_HANDLE_STATE_DESTROYED\<rparr>)"
  have gone: "?h4(a := None) = without h a"
    by (rule ext) (auto simp: bare_def without_app below_detached detached_app below_refl)
  have "dtor d ?h4 a = (without h a, XR_SUCCESS)"
    unfolding gone [symmetric] by (rule dtor_frees [OF fun_upd_same]) (use d in auto)
  then show ?thesis
    using a d c3 unlink loop by (simp del: fun_upd_apply)
qed

lemma do_destroy_without:
  "wf_handles h \<Longrightarrow> a \<in> dom h \<Longrightarrow> card {b. below h a b} \<le> n
    \<Longrightarrow> oxr_handle_do_destroy n dtor h a = Inr (without h a, XR_SUCCESS)"
proof (induction n arbitrary: h a)
  case 0
  have "{b. below h a b} \<noteq> {}" using below_refl [of h a] by blast
  with below_finite [OF wf_finite [OF "0.prems"(1)]] "0.prems"(3) show ?case by simp
next
  case (Suc n)
  from Suc.prems(2) obtain c where c: "h a = Some c" by blast
  have "card {b. below (detached h a) a b} \<le> Suc n"
    using Suc.prems(3) by (simp add: below_detached)
  with Suc.IH detached_wf [OF Suc.prems(1)] c
  have "destroy_children (oxr_handle_do_destroy n dtor) a [0..<XRT_MAX_HANDLE_CHILDREN] (detached h a)
      = Inr (bare (detached h a) a, XR_SUCCESS)"
    by (intro destroy_children_bare [where n = n and j = 0]) (auto simp: detached_def)
  with Suc.prems(1) c show ?case by (rule do_destroy_step)
qed

end

text \<open>The number of objects in the heap is always enough fuel.\<close>

lemma below_card_dom:
  assumes "finite (dom h)" and "a \<in> dom h"
  shows "card {b. below h a b} \<le> card (dom h)"
  by (rule card_mono [OF assms(1)]) (use assms(2) below_dom in fastforce)

section \<open>Creation keeps the tree well-formed\<close>

lemma zero_handle_sel [simp]:
  "hb_children zero_handle = replicate XRT_MAX_HANDLE_CHILDREN None"
  by (simp add: zero_handle_def)

lemma allocate_fresh:
  assumes wf: "wf_handles h" and fresh: "a \<notin> dom h" and dbg: "dbg \<noteq> 0"
    and run: "oxr_handle_allocate_and_init h (Some a) dbg d parent = Inr (h', r, out)"
  shows "r \<noteq> XR_SUCCESS \<Longrightarrow> h' = h \<and> out = None"
    and "r = XR_SUCCESS \<Longrightarrow> out = Some a
      \<and> (parent = None \<longrightarrow> h' = init_fields h a dbg d None)
      \<and> (\<forall>p. parent = Some p \<longrightarrow> (\<exists>pc i. h p = Some pc \<and> find_index (\<lambda>c. c = None) (hb_children pc) = Some i
            \<and> h' = init_fields (h(p \<mapsto> pc\<lparr>hb_children := (hb_children pc)[i := Some a]\<rparr>)) a dbg d (Some p)))"
proof -
  have pd: "h p = Some pc \<Longrightarrow> p \<noteq> a" for p pc using fresh by auto
  have self: "parent = Some a \<Longrightarrow> r = XR_ERROR_RUNTIME_FAILURE \<and> h' = h(a := None) \<and> out = None"
    using run dbg by (auto simp: oxr_handle_allocate_and_init_def oxr_handle_init_def Let_def)
  have ha: "h(a := None) = h" using fresh by (auto simp: fun_upd_idem_iff)
  show "r \<noteq> XR_SUCCESS \<Longrightarrow> h' = h \<and> out = None"
    using run dbg ha self
    by (auto simp: oxr_handle_allocate_and_init_def oxr_handle_init_def Let_def try_simps
        split: option.splits if_splits)
  show "r = XR_SUCCESS \<Longrightarrow> out = Some a
      \<and> (parent = None \<longrightarrow> h' = init_fields h a dbg d None)
      \<and> (\<forall>p. parent = Some p \<longrightarrow> (\<exists>pc i. h p = Some pc \<and> find_index (\<lambda>c. c = None) (hb_children pc) = Some i
            \<and> h' = init_fields (h(p \<mapsto> pc\<lparr>hb_children := (hb_children pc)[i := Some a]\<rparr>)) a dbg d (Some p)))"
    using run dbg self
    by (cases "parent = Some a")
      (auto simp: oxr_handle_allocate_and_init_def oxr_handle_init_def Let_def try_simps init_fields_def fun_upd_twist
        split: option.splits if_splits)
qed

lemma wf_handles_empty: "wf_handles Map.empty"
  by (rule wf_handlesI [where rank = "\<lambda>_. 0"]) (auto simp: parent_of_def)

lemma init_fields_app:
  "init_fields h a dbg d parent b = (if b = a then Some (zero_handle\<lparr>hb_debug := dbg, hb_parent := parent,
     hb_state := OXR_HANDLE_STATE_LIVE, hb_destroy := Some d\<rparr>) else h b)"
  by (simp add: init_fields_def)

lemma fresh_no_children:
  assumes wf: "wf_handles h" and fresh: "a \<notin> dom h"
  shows "\<not> parent_of h a k" and "\<not> parent_of h p a"
  using wf_parent [OF wf, of a k] fresh by (auto simp: parent_of_def)

lemma fresh_no_slot:
  assumes wf: "wf_handles h" and fresh: "a \<notin> dom h" and "h p = Some pc"
  shows "Some a \<notin> set (hb_children pc)"
  using wf_child [OF wf assms(3), of a] fresh_no_children(2) [OF wf fresh] by blast

lemma init_root_wf:
  assumes wf: "wf_handles h" and fresh: "a \<notin> dom h"
  shows "wf_handles (init_fields h a dbg d None)"
proof -
  obtain rank :: "addr \<Rightarrow> nat" where r: "\<forall>p k. parent_of h p k \<longrightarrow> rank p < rank k"
    using wf_rank [OF wf] by blast
  have po: "parent_of (init_fields h a dbg d None) p k \<longleftrightarrow> parent_of h p k" for p k
    using fresh by (auto simp: parent_of_def init_fields_app)
  show ?thesis
  proof (rule wf_handlesI [where rank = rank])
    show "finite (dom (init_fields h a dbg d None))"
      using wf_finite [OF wf] by (simp add: init_fields_def)
    show "cell_ok c" if "init_fields h a dbg d None b = Some c" for b c
      using that wf_cell [OF wf] by (auto simp: init_fields_app cell_ok_def split: if_splits)
    show "parent_of (init_fields h a dbg d None) p k"
      if "init_fields h a dbg d None p = Some c" "Some k \<in> set (hb_children c)" for p c k
      using that wf_child [OF wf] by (auto simp: po init_fields_app split: if_splits)
    show "\<exists>c. init_fields h a dbg d None p = Some c \<and> Some k \<in> set (hb_children c)"
      if "parent_of (init_fields h a dbg d None) p k" for p k
      using that wf_parent [OF wf, of p k] fresh by (auto simp: po init_fields_app)
    show "rank p < rank k" if "parent_of (init_fields h a dbg d None) p k" for p k
      using that r by (simp add: po)
  qed
qed

lemma init_child_wf:
  assumes wf: "wf_handles h" and fresh: "a \<notin> dom h" and p: "h p = Some pc"
    and i: "find_index (\<lambda>c. c = None) (hb_children pc) = Some i"
  shows "wf_handles (init_fields (h(p \<mapsto> pc\<lparr>hb_children := (hb_children pc)[i := Some a]\<rparr>)) a dbg d (Some p))"
    (is "wf_handles ?h")
proof -
  obtain rank :: "addr \<Rightarrow> nat" where r: "\<forall>p k. parent_of h p k \<longrightarrow> rank p < rank k"
    using wf_rank [OF wf] by blast
  from i have il: "i < length (hb_children pc)" "hb_children pc ! i = None"
    by (auto simp: find_index_Some_iff)
  have pa: "p \<noteq> a" using p fresh by auto
  have po: "parent_of ?h q k \<longleftrightarrow> parent_of h q k \<or> q = p \<and> k = a" for q k
    using p pa fresh by (auto simp: parent_of_def init_fields_app)
  have slots: "Some k \<in> set ((hb_children pc)[i := Some a]) \<longleftrightarrow> k = a \<or> Some k \<in> set (hb_children pc)" for k
    using il by (auto simp: in_set_conv_nth nth_list_update split: if_splits) (metis option.distinct(1))+
  show ?thesis
  proof (rule wf_handlesI [where rank = "rank(a := Suc (rank p))"])
    show "finite (dom ?h)"
      using wf_finite [OF wf] by (simp add: init_fields_def)
    show "cell_ok c" if "?h b = Some c" for b c
    proof (cases "b = p")
      case True
      have "hb_children pc ! j \<noteq> Some a" if "j < length (hb_children pc)" for j
        using fresh_no_slot [OF wf fresh p] that by (metis nth_mem)
      with True that pa wf_cell [OF wf p] il show ?thesis
        by (auto simp: init_fields_app cell_ok_def nth_list_update split: if_splits)
    next
      case False
      with that wf_cell [OF wf] show ?thesis
        by (auto simp: init_fields_app cell_ok_def split: if_splits)
    qed
    show "parent_of ?h q k" if "?h q = Some c" "Some k \<in> set (hb_children c)" for q c k
      using that wf_child [OF wf] p pa slots by (auto simp: po init_fields_app split: if_splits)
    show "\<exists>c. ?h q = Some c \<and> Some k \<in> set (hb_children c)" if "parent_of ?h q k" for q k
    proof (cases "q = p")
      case True
      with that wf_parent [OF wf, of p k] p pa slots show ?thesis
        by (auto simp: po init_fields_app)
    next
      case False
      with that have "parent_of h q k" by (simp add: po)
      with False wf_parent [OF wf, of q k] fresh show ?thesis
        by (auto simp: init_fields_app)
    qed
    show "(rank(a := Suc (rank p))) q < (rank(a := Suc (rank p))) k" if "parent_of ?h q k" for q k
      using that r pa fresh_no_children [OF wf fresh] by (auto simp: po)
  qed
qed

section \<open>Properties\<close>

text \<open>Creating an object keeps the object tree well-formed. Whatever the outcome, a
  fresh allocation with any parent leads from a well-formed heap to a well-formed heap. On
  failure the heap is exactly the old one (the new memory is freed again) and the output
  pointer is not written; on success the new object is live, has no children, hangs below the
  parent, and the parent gained it in its first free slot.\<close>

lemma handle_allocate_wf:
  assumes "wf_handles h" and "a \<notin> dom h" and "dbg \<noteq> 0"
    and "oxr_handle_allocate_and_init h (Some a) dbg d parent = Inr (h', r, out)"
  shows "wf_handles h' \<and> (r \<noteq> XR_SUCCESS \<longrightarrow> h' = h \<and> out = None)
    \<and> (r = XR_SUCCESS \<longrightarrow> out = Some a \<and> (\<forall>b. below h' a b \<longleftrightarrow> b = a)
         \<and> (\<exists>c. h' a = Some c \<and> hb_state c = OXR_HANDLE_STATE_LIVE \<and> hb_parent c = parent)
         \<and> (\<forall>p pc. parent = Some p \<and> h p = Some pc
              \<longrightarrow> (\<exists>i. find_index (\<lambda>c. c = None) (hb_children pc) = Some i
                    \<and> h' p = Some (pc\<lparr>hb_children := (hb_children pc)[i := Some a]\<rparr>))))"
proof (cases "r = XR_SUCCESS")
  case False
  with allocate_fresh(1) [OF assms] assms(1) show ?thesis by simp
next
  case True
  note res = allocate_fresh(2) [OF assms True]
  have leaf: "below h' a b \<longleftrightarrow> b = a" if "\<And>k. \<not> parent_of h' a k" for b
  proof
    assume "below h' a b"
    then show "b = a" by (induction rule: below.induct) (auto simp: that)
  qed (simp add: below_refl)
  show ?thesis
  proof (cases parent)
    case None
    with res have h': "h' = init_fields h a dbg d None" by simp
    have "\<not> parent_of h' a k" for k
      using fresh_no_children [OF assms(1,2)] by (auto simp: h' parent_of_def init_fields_app)
    with leaf None True res init_root_wf [OF assms(1,2), of dbg d] show ?thesis
      by (auto simp: init_fields_app)
  next
    case (Some p)
    with res obtain pc i where p: "h p = Some pc" "find_index (\<lambda>c. c = None) (hb_children pc) = Some i"
      and h': "h' = init_fields (h(p \<mapsto> pc\<lparr>hb_children := (hb_children pc)[i := Some a]\<rparr>)) a dbg d (Some p)"
      by auto
    have pa: "p \<noteq> a" using p(1) assms(2) by auto
    have "\<not> parent_of h' a k" for k
      using fresh_no_children(1) [OF assms(1,2), of k] pa p(1)
      by (auto simp: h' parent_of_def init_fields_app split: if_splits)
    with leaf Some True res pa p init_child_wf [OF assms(1,2) p, of dbg d] show ?thesis
      by (auto simp: h' init_fields_app)
  qed
qed



end
