(* ===== verification/Swapchain.thy ===== *)
theory Swapchain
  imports Fifo Oxr_Handle
begin

text \<open>
  The swapchain: \<^verbatim>\<open>state_trackers/oxr/oxr_swapchain.c\<close>, the ring buffer
  \<^verbatim>\<open>auxiliary/util/u_index_fifo.h\<close> it keeps acquired images in, and
  \<^verbatim>\<open>oxr_swapchain_verify_wait_state\<close> of \<^verbatim>\<open>oxr_swapchain_common.h\<close>.

  The calls on the compositor's swapchain are logged in \<open>xsc_calls\<close>; their results are the
  fields of \<open>swapchain_env\<close>. Indexing an array outside its bounds is a fault.
\<close>

section \<open>The index FIFO\<close>

definition U_MAX_FIFO_INDICES :: nat where
  "U_MAX_FIFO_INDICES = 16"

record u_index_fifo =
  indices :: "nat list"
  fifo_start :: nat
  fifo_end :: nat

definition u_index_fifo_is_empty :: "u_index_fifo \<Rightarrow> bool" where
  "u_index_fifo_is_empty uif \<longleftrightarrow> fifo_start uif = fifo_end uif"

definition u_index_fifo_is_full :: "u_index_fifo \<Rightarrow> bool" where
  "u_index_fifo_is_full uif \<longleftrightarrow> (fifo_end uif + 1) mod U_MAX_FIFO_INDICES = fifo_start uif"

text \<open>\<open>None\<close> is the result -1.\<close>

definition u_index_fifo_peek :: "u_index_fifo \<Rightarrow> fault + nat option" where
  "u_index_fifo_peek uif = (if u_index_fifo_is_empty uif then Inr None
     else try_bind (arr_get (indices uif) (fifo_start uif)) (\<lambda>i. Inr (Some i)))"

definition u_index_fifo_pop :: "u_index_fifo \<Rightarrow> fault + (u_index_fifo \<times> nat option)" where
  "u_index_fifo_pop uif = (if u_index_fifo_is_empty uif then Inr (uif, None)
     else try_bind (arr_get (indices uif) (fifo_start uif)) (\<lambda>i.
       Inr (uif\<lparr>fifo_start := (fifo_start uif + 1) mod U_MAX_FIFO_INDICES\<rparr>, Some i)))"

definition u_index_fifo_push :: "u_index_fifo \<Rightarrow> nat \<Rightarrow> fault + (u_index_fifo \<times> int)" where
  "u_index_fifo_push uif index = (if u_index_fifo_is_full uif then Inr (uif, -1)
     else try_bind (arr_set (indices uif) (fifo_end uif) index) (\<lambda>is.
       Inr (uif\<lparr>indices := is, fifo_end := (fifo_end uif + 1) mod U_MAX_FIFO_INDICES\<rparr>, 0)))"

definition empty_fifo :: u_index_fifo where
  "empty_fifo = \<lparr>indices = replicate U_MAX_FIFO_INDICES 0, fifo_start = 0, fifo_end = 0\<rparr>"

text \<open>The entries between \<^verbatim>\<open>start\<close> and \<^verbatim>\<open>end\<close>, going around the ring.\<close>

definition fifo_holds :: "u_index_fifo \<Rightarrow> nat list \<Rightarrow> bool" where
  "fifo_holds uif is \<longleftrightarrow> length (indices uif) = U_MAX_FIFO_INDICES \<and> fifo_start uif < U_MAX_FIFO_INDICES
     \<and> length is < U_MAX_FIFO_INDICES
     \<and> fifo_end uif = (fifo_start uif + length is) mod U_MAX_FIFO_INDICES
     \<and> (\<forall>k < length is. indices uif ! ((fifo_start uif + k) mod U_MAX_FIFO_INDICES) = is ! k)"

lemma fifo_holds_empty: "fifo_holds empty_fifo []"
  by (simp add: fifo_holds_def empty_fifo_def U_MAX_FIFO_INDICES_def)

lemma ring_shift_ne:
  fixes s l m :: nat
  assumes "s < m" and "0 < l" and "l < m"
  shows "(s + l) mod m \<noteq> s"
proof (cases "s + l < m")
  case False
  then have "(s + l) mod m = s + l - m" using assms by (simp add: le_mod_geq)
  with False assms show ?thesis by simp
qed (use assms in simp)

lemma ring_inj:
  fixes s k l m :: nat
  assumes "k < l" and "l < m"
  shows "(s + k) mod m \<noteq> (s + l) mod m"
proof
  assume "(s + k) mod m = (s + l) mod m"
  then have "m dvd (s + l) - (s + k)" using assms(1) by (metis mod_eq_dvd_iff_nat add_le_mono1 less_imp_le_nat add.commute)
  with assms show False by (auto dest: dvd_imp_le)
qed

lemma fifo_is_empty:
  assumes "fifo_holds uif is"
  shows "u_index_fifo_is_empty uif \<longleftrightarrow> is = []"
proof (cases "is = []")
  case True
  with assms show ?thesis by (simp add: fifo_holds_def u_index_fifo_is_empty_def)
next
  case False
  with assms ring_shift_ne [of "fifo_start uif" U_MAX_FIFO_INDICES "length is"] show ?thesis
    by (simp add: fifo_holds_def u_index_fifo_is_empty_def)
qed

lemma fifo_is_full:
  assumes "fifo_holds uif is"
  shows "u_index_fifo_is_full uif \<longleftrightarrow> length is + 1 = U_MAX_FIFO_INDICES"
proof -
  have e: "(fifo_end uif + 1) mod U_MAX_FIFO_INDICES = (fifo_start uif + (length is + 1)) mod U_MAX_FIFO_INDICES"
    using assms by (simp add: fifo_holds_def mod_Suc_eq)
  show ?thesis
  proof (cases "length is + 1 = U_MAX_FIFO_INDICES")
    case True
    have "(fifo_end uif + 1) mod U_MAX_FIFO_INDICES = (fifo_start uif + U_MAX_FIFO_INDICES) mod U_MAX_FIFO_INDICES"
      unfolding e True ..
    with True assms show ?thesis by (simp add: u_index_fifo_is_full_def fifo_holds_def)
  next
    case False
    with assms have "length is + 1 < U_MAX_FIFO_INDICES" by (simp add: fifo_holds_def)
    with ring_shift_ne [of "fifo_start uif" U_MAX_FIFO_INDICES "length is + 1"] e assms False
    show ?thesis by (auto simp: u_index_fifo_is_full_def fifo_holds_def)
  qed
qed

lemma fifo_peek: "fifo_holds uif (i # is) \<Longrightarrow> u_index_fifo_peek uif = Inr (Some i)"
  using fifo_is_empty [of uif "i # is"]
  by (auto simp: fifo_holds_def u_index_fifo_peek_def)

lemma fifo_pop:
  assumes "fifo_holds uif (i # is)"
  shows "\<exists>uif'. u_index_fifo_pop uif = Inr (uif', Some i) \<and> fifo_holds uif' is"
proof -
  let ?u = "uif\<lparr>fifo_start := (fifo_start uif + 1) mod U_MAX_FIFO_INDICES\<rparr>"
  have "u_index_fifo_pop uif = Inr (?u, Some i)"
    using assms fifo_is_empty [OF assms] by (auto simp: fifo_holds_def u_index_fifo_pop_def)
  moreover have "fifo_holds ?u is"
  proof -
    have "indices uif ! ((fifo_start uif + Suc k) mod U_MAX_FIFO_INDICES) = is ! k" if "k < length is" for k
      using assms that by (auto simp: fifo_holds_def dest!: spec [of _ "Suc k"])
    then show ?thesis
      using assms by (auto simp: fifo_holds_def mod_simps U_MAX_FIFO_INDICES_def)
  qed
  ultimately show ?thesis by blast
qed

lemma fifo_push:
  assumes "fifo_holds uif is" and "length is + 1 < U_MAX_FIFO_INDICES"
  shows "\<exists>uif'. u_index_fifo_push uif i = Inr (uif', 0) \<and> fifo_holds uif' (is @ [i])"
proof -
  let ?e = "fifo_end uif"
  let ?u = "uif\<lparr>indices := (indices uif)[?e := i], fifo_end := (?e + 1) mod U_MAX_FIFO_INDICES\<rparr>"
  have e: "?e = (fifo_start uif + length is) mod U_MAX_FIFO_INDICES" "?e < U_MAX_FIFO_INDICES"
    using assms(1) by (auto simp: fifo_holds_def U_MAX_FIFO_INDICES_def)
  have len: "length (indices uif) = U_MAX_FIFO_INDICES" using assms(1) by (simp add: fifo_holds_def)
  have "u_index_fifo_push uif i = Inr (?u, 0)"
    using fifo_is_full [OF assms(1)] assms(2) e(2) len by (simp add: u_index_fifo_push_def)
  moreover have "(indices uif)[?e := i] ! ((fifo_start uif + k) mod U_MAX_FIFO_INDICES) = (is @ [i]) ! k"
    if "k < length is + 1" for k
  proof (cases "k = length is")
    case True
    with e len show ?thesis by simp
  next
    case False
    with that have k: "k < length is" by simp
    with ring_inj [of k "length is" U_MAX_FIFO_INDICES "fifo_start uif"] assms(2) e(1)
    have "(fifo_start uif + k) mod U_MAX_FIFO_INDICES \<noteq> ?e" by simp
    with k assms(1) show ?thesis by (auto simp: fifo_holds_def nth_append)
  qed
  moreover have "(?e + 1) mod U_MAX_FIFO_INDICES = (fifo_start uif + (length is + 1)) mod U_MAX_FIFO_INDICES"
    using e(1) by (simp add: mod_Suc_eq)
  ultimately show ?thesis
    using assms by (auto simp: fifo_holds_def)
qed

section \<open>State\<close>

definition XRT_MAX_SWAPCHAIN_IMAGES :: nat where
  "XRT_MAX_SWAPCHAIN_IMAGES = 8"

datatype oxr_image_state = OXR_IMAGE_STATE_READY | OXR_IMAGE_STATE_ACQUIRED | OXR_IMAGE_STATE_WAITED

datatype xsc_call =
    XscAcquire
  | XscWait nat
  | XscBarrierToApp nat
  | XscBarrierToComp nat
  | XscRelease nat

record swapchain =
  image_count :: nat                \<comment> \<open>\<^verbatim>\<open>sc->swapchain->image_count\<close>\<close>
  images :: "oxr_image_state list"
  acquired_num :: "64 word"
  acquired_fifo :: u_index_fifo
  inflight_yes :: bool
  inflight_index :: int
  released_yes :: bool
  released_index :: int
  is_static :: bool
  sess_has_lost :: bool             \<comment> \<open>\<^verbatim>\<open>sc->sess->has_lost\<close>\<close>
  xsc_calls :: "xsc_call list"

record swapchain_env =
  success_result :: XrResult        \<comment> \<open>\<^verbatim>\<open>oxr_session_success_result(sc->sess)\<close>\<close>
  res_acquire :: "xrt_result \<times> nat"
  res_wait :: xrt_result
  res_barrier :: xrt_result
  res_release :: xrt_result

definition call_xsc :: "xsc_call \<Rightarrow> swapchain \<Rightarrow> swapchain" where
  "call_xsc c sc = sc\<lparr>xsc_calls := xsc_calls sc @ [c]\<rparr>"

definition sc_check_xret ::
  "xrt_result \<Rightarrow> swapchain \<Rightarrow> (swapchain \<Rightarrow> fault + (swapchain \<times> XrResult)) \<Rightarrow> fault + (swapchain \<times> XrResult)" where
  "sc_check_xret xret sc k = (
     if xret = XRT_ERROR_IPC_FAILURE then Inr (sc\<lparr>sess_has_lost := True\<rparr>, XR_ERROR_INSTANCE_LOST)
     else if xret \<noteq> XRT_SUCCESS then Inr (sc, XR_ERROR_RUNTIME_FAILURE)
     else k sc)"

section \<open>Conversion functions\<close>

unbundle bit_operations_syntax

definition flag_if :: "64 word \<Rightarrow> 64 word \<Rightarrow> 32 word \<Rightarrow> 32 word" where
  "flag_if xr_flags xr_bit xrt_bit = (if xr_flags AND xr_bit \<noteq> 0 then xrt_bit else 0)"

definition convert_create_flags :: "64 word \<Rightarrow> 32 word" where
  "convert_create_flags xr_flags = flag_if xr_flags 0x1 0x1 OR flag_if xr_flags 0x2 0x2"

definition convert_usage_bits :: "64 word \<Rightarrow> 32 word" where
  "convert_usage_bits xr_usage =
     flag_if xr_usage 0x1 0x1 OR flag_if xr_usage 0x2 0x2
     OR flag_if xr_usage 0x4 0x4 OR flag_if xr_usage 0x8 0x8
     OR flag_if xr_usage 0x10 0x10 OR flag_if xr_usage 0x20 0x20
     OR flag_if xr_usage 0x40 0x40 OR flag_if xr_usage 0x80 0x80"

section \<open>The common functions\<close>

definition oxr_swapchain_verify_wait_state :: "swapchain \<Rightarrow> XrResult" where
  "oxr_swapchain_verify_wait_state sc = (
     if inflight_yes sc then XR_ERROR_CALL_ORDER_INVALID
     else if u_index_fifo_is_empty (acquired_fifo sc) then XR_ERROR_CALL_ORDER_INVALID
     else XR_SUCCESS)"

text \<open>The acquired index is the third component of the result, when it is written.\<close>

definition oxr_swapchain_common_acquire ::
  "swapchain_env \<Rightarrow> swapchain \<Rightarrow> fault + (swapchain \<times> XrResult \<times> nat option)" where
  "oxr_swapchain_common_acquire env sc = (
     if unat (acquired_num sc) \<ge> image_count sc then Inr (sc, XR_ERROR_CALL_ORDER_INVALID, None)
     else try_bind (if is_static sc then arr_get (images sc) 0 else Inr OXR_IMAGE_STATE_READY) (\<lambda>image0.
       if is_static sc \<and> (released_yes sc \<or> image0 \<noteq> OXR_IMAGE_STATE_READY)
       then Inr (sc, XR_ERROR_CALL_ORDER_INVALID, None)
       else case res_acquire env of (xret, index) \<Rightarrow>
         let sc = call_xsc XscAcquire sc in
         if xret = XRT_ERROR_IPC_FAILURE then Inr (sc\<lparr>sess_has_lost := True\<rparr>, XR_ERROR_INSTANCE_LOST, None)
         else if xret \<noteq> XRT_SUCCESS then Inr (sc, XR_ERROR_RUNTIME_FAILURE, None)
         else try_bind (arr_get (images sc) index) (\<lambda>image.
           if image \<noteq> OXR_IMAGE_STATE_READY then Inr (sc, XR_ERROR_RUNTIME_FAILURE, None)
           else
             let sc = sc\<lparr>acquired_num := acquired_num sc + 1\<rparr> in
             try_bind (u_index_fifo_push (acquired_fifo sc) index) (\<lambda>(fifo, _).
             try_bind (arr_set (images sc) index OXR_IMAGE_STATE_ACQUIRED) (\<lambda>imgs.
               let sc = sc\<lparr>acquired_fifo := fifo, images := imgs\<rparr>;
                   sc = (if released_index sc = int index
                         then sc\<lparr>released_yes := False, released_index := -1\<rparr> else sc)
               in Inr (sc, XR_SUCCESS, Some index))))))"

definition oxr_swapchain_common_wait :: "swapchain_env \<Rightarrow> swapchain \<Rightarrow> fault + (swapchain \<times> XrResult)" where
  "oxr_swapchain_common_wait env sc =
     try_bind (u_index_fifo_peek (acquired_fifo sc)) (\<lambda>peeked. case peeked of
         None \<Rightarrow> Inr (sc, XR_ERROR_RUNTIME_FAILURE)
       | Some index \<Rightarrow>
           try_bind (c_assert (index < 2147483647)) (\<lambda>_.
             let sc = call_xsc (XscWait index) sc in
             if res_wait env = XRT_TIMEOUT then Inr (sc, XR_TIMEOUT_EXPIRED)
             else try_bind (u_index_fifo_pop (acquired_fifo sc)) (\<lambda>(fifo, popped). case popped of
                 None \<Rightarrow> Inr (sc, XR_ERROR_RUNTIME_FAILURE)
               | Some index \<Rightarrow>
                   sc_check_xret (res_wait env) (sc\<lparr>acquired_fifo := fifo\<rparr>) (\<lambda>sc.
                     try_bind (arr_set (images sc) index OXR_IMAGE_STATE_WAITED) (\<lambda>imgs.
                       Inr (sc\<lparr>inflight_yes := True, inflight_index := int index, images := imgs\<rparr>, XR_SUCCESS))))))"

definition oxr_swapchain_common_release :: "swapchain_env \<Rightarrow> swapchain \<Rightarrow> fault + (swapchain \<times> XrResult)" where
  "oxr_swapchain_common_release env sc = (
     if inflight_index sc < 0 then Inr (sc, XR_ERROR_RUNTIME_FAILURE)
     else
       let index = nat (inflight_index sc);
           sc = sc\<lparr>inflight_yes := False, inflight_index := -1\<rparr>
       in sc_check_xret (res_release env) (call_xsc (XscRelease index) sc) (\<lambda>sc.
            try_bind (arr_set (images sc) index OXR_IMAGE_STATE_READY) (\<lambda>imgs.
              Inr (sc\<lparr>acquired_num := acquired_num sc - 1, released_yes := True,
                      released_index := int index, images := imgs\<rparr>, XR_SUCCESS))))"

section \<open>The entry points' functions\<close>

definition acquire_image :: "swapchain_env \<Rightarrow> swapchain \<Rightarrow> fault + (swapchain \<times> XrResult \<times> nat option)" where
  "acquire_image env sc =
     try_bind (oxr_swapchain_common_acquire env sc) (\<lambda>(sc, ret, index).
       if ret \<noteq> XR_SUCCESS then Inr (sc, ret, index) else Inr (sc, success_result env, index))"

definition implicit_wait_image :: "swapchain_env \<Rightarrow> swapchain \<Rightarrow> fault + (swapchain \<times> XrResult)" where
  "implicit_wait_image env sc = (
     if oxr_swapchain_verify_wait_state sc \<noteq> XR_SUCCESS then Inr (sc, oxr_swapchain_verify_wait_state sc)
     else try_bind (oxr_swapchain_common_wait env sc) (\<lambda>(sc, ret).
       if ret \<noteq> XR_SUCCESS then Inr (sc, ret)
       else if inflight_index sc < 0 then Inr (sc, XR_ERROR_RUNTIME_FAILURE)
       else sc_check_xret (res_barrier env) (call_xsc (XscBarrierToComp (nat (inflight_index sc))) sc) (\<lambda>sc.
         Inr (sc, success_result env))))"

definition implicit_release_image :: "swapchain_env \<Rightarrow> swapchain \<Rightarrow> fault + (swapchain \<times> XrResult)" where
  "implicit_release_image env sc = (
     if \<not> inflight_yes sc then Inr (sc, XR_ERROR_CALL_ORDER_INVALID)
     else if inflight_index sc < 0 then Inr (sc, XR_ERROR_RUNTIME_FAILURE)
     else try_bind (arr_get (images sc) (nat (inflight_index sc))) (\<lambda>image.
       if image \<noteq> OXR_IMAGE_STATE_WAITED then Inr (sc, XR_ERROR_CALL_ORDER_INVALID)
       else sc_check_xret (res_barrier env) (call_xsc (XscBarrierToComp (nat (inflight_index sc))) sc) (\<lambda>sc.
         try_bind (oxr_swapchain_common_release env sc) (\<lambda>(sc, ret).
           if ret \<noteq> XR_SUCCESS then Inr (sc, ret) else Inr (sc, success_result env)))))"

section \<open>Creation and destruction\<close>

record swapchain_create_info =
  createFlags :: "64 word"
  usageFlags :: "64 word"

text \<open>
  \<^verbatim>\<open>oxr_swapchain_common_create\<close>: \<open>format_list\<close> is the chained list of view formats, when
  the build and the instance have the extension; \<open>xret\<close> and \<open>n\<close> are the result and the
  image count of the compositor's swapchain, \<open>alloc\<close> the result of allocating the handle. The
  last component says whether a compositor swapchain is left without an owner.
\<close>

definition new_swapchain :: "nat \<Rightarrow> bool \<Rightarrow> swapchain" where
  "new_swapchain n static = \<lparr>image_count = n,
     images = replicate XRT_MAX_SWAPCHAIN_IMAGES OXR_IMAGE_STATE_READY,
     acquired_num = 0, acquired_fifo = empty_fifo, inflight_yes = False, inflight_index = 0,
     released_yes = False, released_index = 0, is_static = static, sess_has_lost = False, xsc_calls = []\<rparr>"

definition oxr_swapchain_common_create ::
  "swapchain_create_info \<Rightarrow> 32 word list option \<Rightarrow> (32 word \<Rightarrow> 32 word \<Rightarrow> 32 word list \<Rightarrow> xrt_result \<times> nat option)
    \<Rightarrow> XrResult \<Rightarrow> fault + (XrResult \<times> swapchain option \<times> bool)" where
  "oxr_swapchain_common_create info format_list comp_create alloc =
     try_bind (case format_list of
         None \<Rightarrow> Inr (Some [])
       | Some fs \<Rightarrow> try_bind (c_assert (usageFlags info AND 0x40 \<noteq> 0)) (\<lambda>_.
           if length fs > 8 then Inr None else Inr (Some fs)))
     (\<lambda>formats. case formats of
         None \<Rightarrow> Inr (XR_ERROR_RUNTIME_FAILURE, None, False)
       | Some fs \<Rightarrow>
           (case comp_create (convert_create_flags (createFlags info)) (convert_usage_bits (usageFlags info)) fs of
             (xret, xsc) \<Rightarrow>
              if xret = XRT_ERROR_SWAPCHAIN_FLAG_VALID_BUT_UNSUPPORTED then Inr (XR_ERROR_FEATURE_UNSUPPORTED, None, False)
              else if xret = XRT_ERROR_SWAPCHAIN_FORMAT_UNSUPPORTED
              then Inr (XR_ERROR_SWAPCHAIN_FORMAT_UNSUPPORTED, None, False)
              else if xret \<noteq> XRT_SUCCESS then Inr (XR_ERROR_RUNTIME_FAILURE, None, False)
              else try_bind (c_assert (xsc \<noteq> None)) (\<lambda>_.
                if alloc \<noteq> XR_SUCCESS then Inr (alloc, None, True)
                else Inr (XR_SUCCESS, Some (new_swapchain (the xsc) (createFlags info AND 0x2 \<noteq> 0)), False))))"

text \<open>
  The destructor of the swapchain's handle: \<^verbatim>\<open>sc->destroy\<close> drops the reference to the
  compositor's swapchain (which outlives no one here) and returns \<^verbatim>\<open>XR_SUCCESS\<close>, then the
  object is freed.
\<close>

definition sc_destroy :: XrResult where
  "sc_destroy = XR_SUCCESS"

definition destroy_handle :: "unit destructor" where
  "destroy_handle d h hb = (let ret = sc_destroy in (h(hb := None), ret))"

interpretation swapchain_handles: handle_destroyer destroy_handle
  by unfold_locales (simp add: destroy_handle_def sc_destroy_def)

section \<open>Abstract swapchain\<close>

text \<open>
  What the states of the images add up to: the acquired images in the order they were acquired,
  the image the application waits on or draws to, the image released last (if the compositor has
  not handed it out again), and the images that a failed wait or release has leaked.
\<close>

record sc_spec =
  acq :: "nat list"
  infl :: "nat option"
  rel :: "nat option"
  leaked :: "nat set"

definition busy :: "sc_spec \<Rightarrow> nat \<Rightarrow> bool" where
  "busy a i \<longleftrightarrow> i \<in> set (acq a) \<or> infl a = Some i \<or> i \<in> leaked a"

definition in_use :: "sc_spec \<Rightarrow> nat" where
  "in_use a = length (acq a) + (if infl a = None then 0 else 1) + card (leaked a)"

datatype sc_call = Acquire | Wait | Release

definition spec_xret :: "xrt_result \<Rightarrow> XrResult" where
  "spec_xret xret = (if xret = XRT_ERROR_IPC_FAILURE then XR_ERROR_INSTANCE_LOST else XR_ERROR_RUNTIME_FAILURE)"

definition spec_call :: "nat \<Rightarrow> bool \<Rightarrow> swapchain_env \<Rightarrow> sc_call \<Rightarrow> sc_spec \<Rightarrow> sc_spec \<times> XrResult" where
  "spec_call n static env call a = (case call of
      Acquire \<Rightarrow>
        if in_use a \<ge> n \<or> static \<and> (rel a \<noteq> None \<or> busy a 0) then (a, XR_ERROR_CALL_ORDER_INVALID)
        else (case res_acquire env of (xret, i) \<Rightarrow>
          if xret \<noteq> XRT_SUCCESS then (a, spec_xret xret)
          else if busy a i then (a, XR_ERROR_RUNTIME_FAILURE)
          else (a\<lparr>acq := acq a @ [i], rel := if rel a = Some i then None else rel a\<rparr>, success_result env))
    | Wait \<Rightarrow> (case (infl a, acq a) of
        (None, i # is) \<Rightarrow>
          if res_wait env = XRT_TIMEOUT then (a, XR_TIMEOUT_EXPIRED)
          else if res_wait env \<noteq> XRT_SUCCESS then (a\<lparr>acq := is, leaked := insert i (leaked a)\<rparr>, spec_xret (res_wait env))
          else (a\<lparr>acq := is, infl := Some i\<rparr>,
                if res_barrier env \<noteq> XRT_SUCCESS then spec_xret (res_barrier env) else success_result env)
      | _ \<Rightarrow> (a, XR_ERROR_CALL_ORDER_INVALID))
    | Release \<Rightarrow> (case infl a of
        None \<Rightarrow> (a, XR_ERROR_CALL_ORDER_INVALID)
      | Some i \<Rightarrow>
          if res_barrier env \<noteq> XRT_SUCCESS then (a, spec_xret (res_barrier env))
          else if res_release env \<noteq> XRT_SUCCESS
          then (a\<lparr>infl := None, leaked := insert i (leaked a)\<rparr>, spec_xret (res_release env))
          else (a\<lparr>infl := None, rel := Some i\<rparr>, success_result env)))"

definition run_call :: "swapchain_env \<Rightarrow> sc_call \<Rightarrow> swapchain \<Rightarrow> fault + (swapchain \<times> XrResult)" where
  "run_call env call sc = (case call of
      Acquire \<Rightarrow> try_bind (acquire_image env sc) (\<lambda>(sc, r, _). Inr (sc, r))
    | Wait \<Rightarrow> implicit_wait_image env sc
    | Release \<Rightarrow> implicit_release_image env sc)"

definition image_of :: "sc_spec \<Rightarrow> nat \<Rightarrow> oxr_image_state \<Rightarrow> bool" where
  "image_of a i st \<longleftrightarrow> (i \<in> set (acq a) \<longrightarrow> st = OXR_IMAGE_STATE_ACQUIRED)
     \<and> (infl a = Some i \<longrightarrow> st = OXR_IMAGE_STATE_WAITED)
     \<and> (st = OXR_IMAGE_STATE_READY \<longleftrightarrow> \<not> busy a i)"

definition sc_rel :: "swapchain \<Rightarrow> sc_spec \<Rightarrow> bool" where
  "sc_rel sc a \<longleftrightarrow> image_count sc \<le> XRT_MAX_SWAPCHAIN_IMAGES
     \<and> length (images sc) = XRT_MAX_SWAPCHAIN_IMAGES
     \<and> (\<forall>i < XRT_MAX_SWAPCHAIN_IMAGES. image_of a i (images sc ! i))
     \<and> fifo_holds (acquired_fifo sc) (acq a)
     \<and> unat (acquired_num sc) = in_use a \<and> in_use a \<le> image_count sc
     \<and> distinct (acq a) \<and> finite (leaked a)
     \<and> (\<forall>i. busy a i \<longrightarrow> i < image_count sc)
     \<and> (\<forall>i. infl a = Some i \<longrightarrow> i \<notin> set (acq a) \<and> i \<notin> leaked a) \<and> set (acq a) \<inter> leaked a = {}
     \<and> inflight_yes sc = (infl a \<noteq> None) \<and> (\<forall>i. infl a = Some i \<longrightarrow> inflight_index sc = int i)
     \<and> released_yes sc = (rel a \<noteq> None) \<and> (\<forall>i. rel a = Some i \<longrightarrow> released_index sc = int i)"

section \<open>The functions implement the abstract swapchain\<close>

lemma call_xsc_simps [simp]:
  "images (call_xsc c sc) = images sc" "image_count (call_xsc c sc) = image_count sc"
  "acquired_num (call_xsc c sc) = acquired_num sc" "acquired_fifo (call_xsc c sc) = acquired_fifo sc"
  "inflight_yes (call_xsc c sc) = inflight_yes sc" "inflight_index (call_xsc c sc) = inflight_index sc"
  "released_yes (call_xsc c sc) = released_yes sc" "released_index (call_xsc c sc) = released_index sc"
  "is_static (call_xsc c sc) = is_static sc"
  by (simp_all add: call_xsc_def)

lemma sc_rel_cong:
  assumes "images sc' = images sc" "image_count sc' = image_count sc" "acquired_num sc' = acquired_num sc"
    "acquired_fifo sc' = acquired_fifo sc" "inflight_yes sc' = inflight_yes sc"
    "inflight_index sc' = inflight_index sc" "released_yes sc' = released_yes sc"
    "released_index sc' = released_index sc"
  shows "sc_rel sc' a = sc_rel sc a"
  using assms by (simp add: sc_rel_def)

lemma sc_rel_log [simp]:
  "sc_rel (call_xsc c sc) a = sc_rel sc a" "sc_rel (sc\<lparr>sess_has_lost := b\<rparr>) a = sc_rel sc a"
  by (rule sc_rel_cong; simp)+

lemma unat_inc: "unat (x :: 64 word) < 100 \<Longrightarrow> unat (x + 1) = unat x + 1"
  by (simp add: unat_word_ariths)

lemma unat_dec: "0 < unat (x :: 64 word) \<Longrightarrow> unat (x - 1) = unat x - 1"
  by (metis Suc_diff_1 unat_eq_zero neq0_conv unat_minus_one)

lemma sc_relD:
  assumes "sc_rel sc a"
  shows "fifo_holds (acquired_fifo sc) (acq a)" "length (images sc) = XRT_MAX_SWAPCHAIN_IMAGES"
    "image_count sc \<le> 8" "unat (acquired_num sc) = in_use a" "in_use a \<le> 8"
    "inflight_yes sc \<longleftrightarrow> infl a \<noteq> None" "released_yes sc \<longleftrightarrow> rel a \<noteq> None"
    "\<And>i. infl a = Some i \<Longrightarrow> inflight_index sc = int i"
    "\<And>i. busy a i \<Longrightarrow> i < image_count sc"
    "\<And>i. i < 8 \<Longrightarrow> image_of a i (images sc ! i)"
  using assms by (auto simp: sc_rel_def XRT_MAX_SWAPCHAIN_IMAGES_def)

lemma sc_acquire_refines:
  assumes R: "sc_rel sc a" and idx: "snd (res_acquire env) < image_count sc" and ok: "success_result env = ok"
  shows "\<exists>sc'. run_call env Acquire sc = Inr (sc', snd (spec_call (image_count sc) (is_static sc) env Acquire a))
    \<and> sc_rel sc' (fst (spec_call (image_count sc) (is_static sc) env Acquire a))
    \<and> image_count sc' = image_count sc \<and> is_static sc' = is_static sc"
proof -
  note D = sc_relD [OF R]
  obtain xret i where acq: "res_acquire env = (xret, i)" by fastforce
  with idx D(3) have i: "i < image_count sc" "i < 8" by auto
  have imgs: "length (images sc) = 8" using D(2) by (simp add: XRT_MAX_SWAPCHAIN_IMAGES_def)
  have ready: "images sc ! j = OXR_IMAGE_STATE_READY \<longleftrightarrow> \<not> busy a j" if "j < 8" for j
    using D(10) [OF that] by (simp add: image_of_def)
  show ?thesis
  proof (cases "in_use a \<ge> image_count sc \<or> is_static sc \<and> (rel a \<noteq> None \<or> busy a 0) \<or> xret \<noteq> XRT_SUCCESS \<or> busy a i")
    case True
    then show ?thesis
      using R D imgs i acq ready [of 0] ready [of i]
      by (auto simp: run_call_def acquire_image_def oxr_swapchain_common_acquire_def spec_call_def spec_xret_def Let_def)
  next
    case False
    then have F: "in_use a < image_count sc" "is_static sc \<Longrightarrow> rel a = None \<and> \<not> busy a 0" "xret = XRT_SUCCESS"
      "\<not> busy a i" by auto
    have "length (acq a) \<le> in_use a" by (simp add: in_use_def)
    with F D(3) have "length (acq a) + 1 < U_MAX_FIFO_INDICES" by (simp add: U_MAX_FIFO_INDICES_def)
    from fifo_push [OF D(1) this, of i] obtain uif where
      uif: "u_index_fifo_push (acquired_fifo sc) i = Inr (uif, 0)" "fifo_holds uif (acq a @ [i])"
      by blast
    let ?a = "a\<lparr>acq := acq a @ [i], rel := if rel a = Some i then None else rel a\<rparr>"
    let ?s = "(call_xsc XscAcquire sc)\<lparr>acquired_num := acquired_num sc + 1, acquired_fifo := uif,
        images := (images sc)[i := OXR_IMAGE_STATE_ACQUIRED]\<rparr>"
    let ?s' = "if released_index sc = int i then ?s\<lparr>released_yes := False, released_index := -1\<rparr> else ?s"
    have "run_call env Acquire sc = Inr (?s', ok)"
      using F D imgs i acq ready [of 0] ready [of i] uif(1) ok
      by (auto simp: run_call_def acquire_image_def oxr_swapchain_common_acquire_def Let_def)
    moreover have "spec_call (image_count sc) (is_static sc) env Acquire a = (?a, ok)"
      using F acq ok by (auto simp: spec_call_def)
    moreover have "sc_rel ?s' ?a"
    proof -
      have num: "unat (acquired_num sc + 1) = in_use a + 1"
        using unat_inc [of "acquired_num sc"] D by simp
      have busy: "busy ?a j \<longleftrightarrow> busy a j \<or> j = i" for j by (auto simp: busy_def)
      have use: "in_use ?a = in_use a + 1" by (simp add: in_use_def)
      have img: "image_of ?a j ((images sc)[i := OXR_IMAGE_STATE_ACQUIRED] ! j)" if "j < 8" for j
        using D(10) [OF that] F(4) imgs that i by (cases "j = i") (auto simp: image_of_def busy nth_list_update busy_def [of a i])
      show ?thesis
        using R uif(2) num use busy img F i
        by (auto simp: sc_rel_def XRT_MAX_SWAPCHAIN_IMAGES_def busy_def)
    qed
    ultimately show ?thesis by auto
  qed
qed

lemma sc_wait_refines:
  assumes R: "sc_rel sc a"
  shows "\<exists>sc'. run_call env Wait sc = Inr (sc', snd (spec_call (image_count sc) (is_static sc) env Wait a))
    \<and> sc_rel sc' (fst (spec_call (image_count sc) (is_static sc) env Wait a))
    \<and> image_count sc' = image_count sc \<and> is_static sc' = is_static sc"
proof (cases "infl a = None \<and> acq a \<noteq> []")
  case False
  then show ?thesis
    using R sc_relD [OF R] fifo_is_empty [OF sc_relD(1) [OF R]]
    by (auto simp: run_call_def implicit_wait_image_def oxr_swapchain_verify_wait_state_def spec_call_def
        split: list.splits option.splits)
next
  case True
  then obtain i "is" where ai: "infl a = None" "acq a = i # is" by (cases "acq a") auto
  note D = sc_relD [OF R]
  have H: "fifo_holds (acquired_fifo sc) (i # is)" using D(1) ai by simp
  from fifo_pop [OF H] obtain uif where
    uif: "u_index_fifo_pop (acquired_fifo sc) = Inr (uif, Some i)" "fifo_holds uif is" by blast
  note peek = fifo_peek [OF H]
  have i: "i < image_count sc" "i < 8" using D(9) [of i] D(3) ai by (auto simp: busy_def)
  have imgs: "length (images sc) = 8" using D(2) by (simp add: XRT_MAX_SWAPCHAIN_IMAGES_def)
  have verify: "oxr_swapchain_verify_wait_state sc = XR_SUCCESS"
    using D ai fifo_is_empty [OF H] by (simp add: oxr_swapchain_verify_wait_state_def)
  have dist: "i \<notin> set is" "distinct is" "i \<notin> leaked a" "finite (leaked a)"
    using R ai by (auto simp: sc_rel_def)
  let ?sw = "call_xsc (XscWait i) sc"
  consider (timeout) "res_wait env = XRT_TIMEOUT"
    | (fail) "res_wait env \<noteq> XRT_TIMEOUT" "res_wait env \<noteq> XRT_SUCCESS" | (ok) "res_wait env = XRT_SUCCESS"
    by blast
  then show ?thesis
  proof cases
    case timeout
    then have "run_call env Wait sc = Inr (?sw, XR_TIMEOUT_EXPIRED)"
      using verify peek i by (simp add: run_call_def implicit_wait_image_def oxr_swapchain_common_wait_def Let_def)
    with timeout ai R show ?thesis by (simp add: spec_call_def)
  next
    case fail
    let ?a = "a\<lparr>acq := is, leaked := insert i (leaked a)\<rparr>"
    let ?s = "?sw\<lparr>acquired_fifo := uif\<rparr>"
    have "\<exists>s'. run_call env Wait sc = Inr (s', spec_xret (res_wait env)) \<and> (s' = ?s \<or> s' = ?s\<lparr>sess_has_lost := True\<rparr>)"
      using fail verify peek uif(1) i
      by (auto simp: run_call_def implicit_wait_image_def oxr_swapchain_common_wait_def Let_def sc_check_xret_def
          spec_xret_def)
    moreover have "sc_rel ?s ?a"
    proof -
      have busy: "busy ?a j \<longleftrightarrow> busy a j" for j using ai by (auto simp: busy_def)
      have use: "in_use ?a = in_use a" using ai dist by (simp add: in_use_def)
      have img: "image_of ?a j (images sc ! j)" if "j < 8" for j
        using D(10) [OF that] ai by (auto simp: image_of_def busy)
      show ?thesis
        using R uif(2) use busy img ai dist
        by (auto simp: sc_rel_def XRT_MAX_SWAPCHAIN_IMAGES_def)
    qed
    ultimately show ?thesis
      using fail ai by (auto simp: spec_call_def)
  next
    case ok
    let ?a = "a\<lparr>acq := is, infl := Some i\<rparr>"
    let ?s = "?sw\<lparr>acquired_fifo := uif, inflight_yes := True, inflight_index := int i,
        images := (images sc)[i := OXR_IMAGE_STATE_WAITED]\<rparr>"
    have "oxr_swapchain_common_wait env sc = Inr (?s, XR_SUCCESS)"
      using ok peek uif(1) i imgs by (simp add: oxr_swapchain_common_wait_def Let_def sc_check_xret_def)
    then have "\<exists>s'. run_call env Wait sc = Inr (s',
          if res_barrier env \<noteq> XRT_SUCCESS then spec_xret (res_barrier env) else success_result env)
        \<and> (s' = call_xsc (XscBarrierToComp i) ?s \<or> s' = (call_xsc (XscBarrierToComp i) ?s)\<lparr>sess_has_lost := True\<rparr>)"
      using verify by (auto simp: run_call_def implicit_wait_image_def sc_check_xret_def spec_xret_def)
    moreover have "sc_rel ?s ?a"
    proof -
      have busy: "busy ?a j \<longleftrightarrow> busy a j" for j using ai by (auto simp: busy_def)
      have use: "in_use ?a = in_use a" using ai by (simp add: in_use_def)
      have img: "image_of ?a j ((images sc)[i := OXR_IMAGE_STATE_WAITED] ! j)" if "j < 8" for j
        using D(10) [OF that] ai dist imgs that i by (cases "j = i") (auto simp: image_of_def busy nth_list_update busy_def [of a i])
      show ?thesis
        using R uif(2) use busy img ai dist
        by (auto simp: sc_rel_def XRT_MAX_SWAPCHAIN_IMAGES_def)
    qed
    ultimately show ?thesis
      using ok ai by (auto simp: spec_call_def)
  qed
qed

lemma sc_release_refines:
  assumes R: "sc_rel sc a"
  shows "\<exists>sc'. run_call env Release sc = Inr (sc', snd (spec_call (image_count sc) (is_static sc) env Release a))
    \<and> sc_rel sc' (fst (spec_call (image_count sc) (is_static sc) env Release a))
    \<and> image_count sc' = image_count sc \<and> is_static sc' = is_static sc"
proof (cases "infl a")
  case None
  then show ?thesis
    using R sc_relD [OF R] by (auto simp: run_call_def implicit_release_image_def spec_call_def)
next
  case (Some i)
  note D = sc_relD [OF R]
  have i: "i < image_count sc" "i < 8" using D(9) [of i] D(3) Some by (auto simp: busy_def)
  have imgs: "length (images sc) = 8" using D(2) by (simp add: XRT_MAX_SWAPCHAIN_IMAGES_def)
  have st: "images sc ! i = OXR_IMAGE_STATE_WAITED" using D(10) [OF i(2)] Some by (simp add: image_of_def)
  have ix: "inflight_index sc = int i" "inflight_yes sc" using D Some by auto
  have dist: "i \<notin> set (acq a)" "i \<notin> leaked a" "finite (leaked a)" using R Some by (auto simp: sc_rel_def)
  let ?sb = "call_xsc (XscBarrierToComp i) sc"
  let ?sr = "call_xsc (XscRelease i) (?sb\<lparr>inflight_yes := False, inflight_index := -1\<rparr>)"
  consider (barrier) "res_barrier env \<noteq> XRT_SUCCESS"
    | (fail) "res_barrier env = XRT_SUCCESS" "res_release env \<noteq> XRT_SUCCESS"
    | (ok) "res_barrier env = XRT_SUCCESS" "res_release env = XRT_SUCCESS"
    by blast
  then show ?thesis
  proof cases
    case barrier
    then show ?thesis
      using R Some st ix imgs i
      by (auto simp: run_call_def implicit_release_image_def spec_call_def sc_check_xret_def spec_xret_def)
  next
    case fail
    let ?a = "a\<lparr>infl := None, leaked := insert i (leaked a)\<rparr>"
    have "\<exists>s'. run_call env Release sc = Inr (s', spec_xret (res_release env)) \<and> (s' = ?sr \<or> s' = ?sr\<lparr>sess_has_lost := True\<rparr>)"
      using fail st ix imgs i
      by (auto simp: run_call_def implicit_release_image_def oxr_swapchain_common_release_def sc_check_xret_def
          spec_xret_def Let_def)
    moreover have "sc_rel ?sr ?a"
    proof -
      have busy: "busy ?a j \<longleftrightarrow> busy a j" for j using Some by (auto simp: busy_def)
      have use: "in_use ?a = in_use a" using Some dist by (simp add: in_use_def)
      have img: "image_of ?a j (images sc ! j)" if "j < 8" for j
        using D(10) [OF that] by (auto simp: image_of_def busy)
      show ?thesis
        using R use busy img Some dist
        by (auto simp: sc_rel_def XRT_MAX_SWAPCHAIN_IMAGES_def)
    qed
    ultimately show ?thesis
      using fail Some by (auto simp: spec_call_def)
  next
    case ok
    let ?a = "a\<lparr>infl := None, rel := Some i\<rparr>"
    let ?s = "?sr\<lparr>acquired_num := acquired_num sc - 1, released_yes := True, released_index := int i,
        images := (images sc)[i := OXR_IMAGE_STATE_READY]\<rparr>"
    have "run_call env Release sc = Inr (?s, success_result env)"
      using ok st ix imgs i
      by (simp add: run_call_def implicit_release_image_def oxr_swapchain_common_release_def sc_check_xret_def Let_def)
    moreover have "sc_rel ?s ?a"
    proof -
      have busy: "busy ?a j \<longleftrightarrow> busy a j \<and> j \<noteq> i" for j using Some dist by (auto simp: busy_def)
      have use: "in_use ?a + 1 = in_use a" using Some by (simp add: in_use_def)
      have num: "unat (acquired_num sc - 1) = in_use ?a"
        using unat_dec [of "acquired_num sc"] D(4) use by simp
      have img: "image_of ?a j ((images sc)[i := OXR_IMAGE_STATE_READY] ! j)" if "j < 8" for j
        using D(10) [OF that] Some dist imgs that i by (cases "j = i") (auto simp: image_of_def busy nth_list_update)
      show ?thesis
        using R num use busy img Some dist
        by (auto simp: sc_rel_def XRT_MAX_SWAPCHAIN_IMAGES_def)
    qed
    ultimately show ?thesis
      using ok Some by (auto simp: spec_call_def)
  qed
qed

lemma call_refines:
  assumes "sc_rel sc a" and "snd (res_acquire env) < image_count sc"
  shows "\<exists>sc'. run_call env call sc = Inr (sc', snd (spec_call (image_count sc) (is_static sc) env call a))
    \<and> sc_rel sc' (fst (spec_call (image_count sc) (is_static sc) env call a))
    \<and> image_count sc' = image_count sc \<and> is_static sc' = is_static sc"
  using sc_acquire_refines [OF assms refl] sc_wait_refines [OF assms(1)] sc_release_refines [OF assms(1)]
  by (cases call) auto

section \<open>Runs\<close>

primrec run_calls :: "(swapchain_env \<times> sc_call) list \<Rightarrow> swapchain \<Rightarrow> fault + (swapchain \<times> XrResult list)" where
  "run_calls [] sc = Inr (sc, [])"
| "run_calls (c # cs) sc = try_bind (run_call (fst c) (snd c) sc) (\<lambda>(sc, r).
     try_bind (run_calls cs sc) (\<lambda>(sc, rs). Inr (sc, r # rs)))"

primrec spec_calls :: "nat \<Rightarrow> bool \<Rightarrow> (swapchain_env \<times> sc_call) list \<Rightarrow> sc_spec \<Rightarrow> sc_spec \<times> XrResult list" where
  "spec_calls n static [] a = (a, [])"
| "spec_calls n static (c # cs) a = (case spec_call n static (fst c) (snd c) a of (a, r) \<Rightarrow>
     case spec_calls n static cs a of (a, rs) \<Rightarrow> (a, r # rs))"

definition initial_spec :: sc_spec where
  "initial_spec = \<lparr>acq = [], infl = None, rel = None, leaked = {}\<rparr>"

lemma new_swapchain_rel: "n \<le> XRT_MAX_SWAPCHAIN_IMAGES \<Longrightarrow> sc_rel (new_swapchain n static) initial_spec"
  by (simp add: sc_rel_def new_swapchain_def initial_spec_def image_of_def busy_def in_use_def fifo_holds_empty)

lemma run_calls_refines:
  "sc_rel sc a \<Longrightarrow> \<forall>c \<in> set cs. snd (res_acquire (fst c)) < image_count sc \<Longrightarrow>
    \<exists>sc' a'. run_calls cs sc = Inr (sc', snd (spec_calls (image_count sc) (is_static sc) cs a)) \<and> sc_rel sc' a'
      \<and> a' = fst (spec_calls (image_count sc) (is_static sc) cs a)"
proof (induction cs arbitrary: sc a)
  case Nil
  then show ?case by auto
next
  case (Cons c cs)
  from Cons.prems call_refines [of sc a "fst c" "snd c"] obtain sc1 where
    sc1: "run_call (fst c) (snd c) sc = Inr (sc1, snd (spec_call (image_count sc) (is_static sc) (fst c) (snd c) a))"
    "sc_rel sc1 (fst (spec_call (image_count sc) (is_static sc) (fst c) (snd c) a))"
    "image_count sc1 = image_count sc" "is_static sc1 = is_static sc"
    by auto
  from Cons.IH [OF sc1(2)] Cons.prems(2) sc1(3,4) obtain sc2 a2 where
    "run_calls cs sc1 = Inr (sc2, snd (spec_calls (image_count sc) (is_static sc) cs
        (fst (spec_call (image_count sc) (is_static sc) (fst c) (snd c) a))))"
    "sc_rel sc2 a2"
    "a2 = fst (spec_calls (image_count sc) (is_static sc) cs
        (fst (spec_call (image_count sc) (is_static sc) (fst c) (snd c) a)))"
    by auto
  with sc1(1) show ?case by (auto split: prod.splits)
qed

section \<open>Properties\<close>

lemma run_new_swapchain:
  "n \<le> XRT_MAX_SWAPCHAIN_IMAGES \<Longrightarrow> \<forall>c \<in> set cs. snd (res_acquire (fst c)) < n \<Longrightarrow>
    \<exists>sc'. run_calls cs (new_swapchain n static) = Inr (sc', snd (spec_calls n static cs initial_spec))
      \<and> sc_rel sc' (fst (spec_calls n static cs initial_spec))"
  using run_calls_refines [OF new_swapchain_rel [of n static], of cs]
  by (auto simp: new_swapchain_def)

text \<open>C7. The swapchain functions implement the abstract swapchain. For a new swapchain with at most
  \<^verbatim>\<open>XRT_MAX_SWAPCHAIN_IMAGES\<close> images and any sequence of acquire, wait and release calls, under
  any results of the compositor (errors and timeouts included) whose acquired indices are in
  range, no call faults, the ring buffer never overflows, and the results are those of the abstract
  machine: images are waited for in the order of their acquisition, at most one at a time, only a
  waited image can be released, and no more images are acquired than the swapchain has.\<close>

theorem swapchain_refines_spec:
  assumes "n \<le> XRT_MAX_SWAPCHAIN_IMAGES" and "\<forall>c \<in> set cs. snd (res_acquire (fst c)) < n"
  shows "\<exists>sc'. run_calls cs (new_swapchain n static) = Inr (sc', snd (spec_calls n static cs initial_spec))
    \<and> sc_rel sc' (fst (spec_calls n static cs initial_spec))"
  using assms by (rule run_new_swapchain)

definition env_acquiring :: "nat \<Rightarrow> swapchain_env" where
  "env_acquiring i = \<lparr>success_result = XR_SUCCESS, res_acquire = (XRT_SUCCESS, i), res_wait = XRT_SUCCESS,
     res_barrier = XRT_SUCCESS, res_release = XRT_SUCCESS\<rparr>"

theorem swapchain_refines_spec_witness:
  "\<exists>sc'. run_calls [(env_acquiring 1, Acquire), (env_acquiring 0, Acquire), (env_acquiring 0, Wait),
       (env_acquiring 0, Wait), (env_acquiring 0, Release), (env_acquiring 0, Release)] (new_swapchain 3 False)
     = Inr (sc', [XR_SUCCESS, XR_SUCCESS, XR_SUCCESS, XR_ERROR_CALL_ORDER_INVALID, XR_SUCCESS, XR_ERROR_CALL_ORDER_INVALID])"
proof -
  let ?cs = "[(env_acquiring 1, Acquire), (env_acquiring 0, Acquire), (env_acquiring 0, Wait),
       (env_acquiring 0, Wait), (env_acquiring 0, Release), (env_acquiring 0, Release)]"
  have "snd (spec_calls 3 False ?cs initial_spec)
      = [XR_SUCCESS, XR_SUCCESS, XR_SUCCESS, XR_ERROR_CALL_ORDER_INVALID, XR_SUCCESS, XR_ERROR_CALL_ORDER_INVALID]"
    by (simp add: spec_call_def initial_spec_def env_acquiring_def in_use_def busy_def)
  with swapchain_refines_spec [of 3 ?cs False] show ?thesis
    by (auto simp: env_acquiring_def XRT_MAX_SWAPCHAIN_IMAGES_def)
qed

lemma in_use_card:
  assumes "sc_rel sc a"
  shows "card {i. busy a i} = in_use a"
proof -
  have fin: "finite (leaked a)" "distinct (acq a)" "set (acq a) \<inter> leaked a = {}"
    and inf: "\<And>i. infl a = Some i \<Longrightarrow> i \<notin> set (acq a) \<and> i \<notin> leaked a"
    using assms by (auto simp: sc_rel_def)
  have "{i. busy a i} = set (acq a) \<union> leaked a \<union> set_option (infl a)"
    by (auto simp: busy_def)
  moreover have "card (set (acq a) \<union> leaked a) = length (acq a) + card (leaked a)"
    using fin by (simp add: card_Un_disjoint distinct_card)
  ultimately show ?thesis
    using inf fin by (cases "infl a") (auto simp: in_use_def)
qed

text \<open>The counter \<^verbatim>\<open>acquired.num\<close> is exact. After any such run it is the number of images that
  are not ready (acquired, waited for, or leaked by an error of the compositor), so it never
  exceeds the image count and its decrement never wraps; and the image the application may use and
  the image released last are never the same one, nor is the released image in the ring buffer.\<close>

lemma swapchain_acquired_count:
  assumes "n \<le> XRT_MAX_SWAPCHAIN_IMAGES" and "\<forall>c \<in> set cs. snd (res_acquire (fst c)) < n"
    and "run_calls cs (new_swapchain n static) = Inr (sc, rs)"
  shows "unat (acquired_num sc) = card {i. i < n \<and> images sc ! i \<noteq> OXR_IMAGE_STATE_READY}
    \<and> unat (acquired_num sc) \<le> n"
proof -
  have "\<exists>sc' a'. run_calls cs (new_swapchain n static) = Inr (sc', snd (spec_calls n static cs initial_spec))
      \<and> sc_rel sc' a' \<and> a' = fst (spec_calls n static cs initial_spec) \<and> image_count sc' = n"
  proof -
    have cnt: "run_calls cs s = Inr (s', r) \<Longrightarrow> sc_rel s a \<Longrightarrow> \<forall>c \<in> set cs. snd (res_acquire (fst c)) < image_count s
        \<Longrightarrow> image_count s' = image_count s" for s s' r a
    proof (induction cs arbitrary: s a r)
      case (Cons c cs)
      from call_refines [OF Cons.prems(2), of "fst c" "snd c"] Cons.prems obtain s1 r1 where
        s1: "run_call (fst c) (snd c) s = Inr (s1, r1)" "image_count s1 = image_count s" and ex: "\<exists>a1. sc_rel s1 a1"
        by auto
      from s1 Cons.prems(1) obtain r2 where "run_calls cs s1 = Inr (s', r2)" by (auto simp: try_simps)
      with Cons.IH ex Cons.prems(3) s1(2) show ?case by fastforce
    qed simp
    have new: "image_count (new_swapchain n static) = n" "is_static (new_swapchain n static) = static"
      by (simp_all add: new_swapchain_def)
    show ?thesis
      using run_calls_refines [OF new_swapchain_rel [OF assms(1), of static], of cs] assms(2) new
        cnt [OF assms(3) new_swapchain_rel [OF assms(1)]] assms(3)
      by auto
  qed
  then obtain a where R: "sc_rel sc a" and n: "image_count sc = n" using assms(3) by auto
  note D = sc_relD [OF R]
  have "{i. i < n \<and> images sc ! i \<noteq> OXR_IMAGE_STATE_READY} = {i. busy a i}"
  proof -
    have "i < 8" if "busy a i" for i using D(9) [OF that] D(3) by simp
    moreover have "images sc ! i = OXR_IMAGE_STATE_READY \<longleftrightarrow> \<not> busy a i" if "i < 8" for i
      using D(10) [OF that] by (simp add: image_of_def)
    ultimately show ?thesis using D(3,9) n by auto
  qed
  with in_use_card [OF R] D(4) R n show ?thesis by (simp add: sc_rel_def)
qed

lemma static_acquired_once:
  assumes "static \<and> (rel a \<noteq> None \<or> busy a 0)" and "\<forall>c \<in> set cs. fst (res_acquire (fst c)) = XRT_SUCCESS \<longrightarrow> snd (res_acquire (fst c)) = 0"
  shows "\<forall>k < length cs. snd (cs ! k) = Acquire \<longrightarrow> snd (spec_calls n static cs a) ! k = XR_ERROR_CALL_ORDER_INVALID"
  using assms
proof (induction cs arbitrary: a)
  case Nil
  then show ?case by simp
next
  case (Cons c cs)
  obtain a1 r where step: "spec_call n static (fst c) (snd c) a = (a1, r)" by fastforce
  have keep: "static \<and> (rel a1 \<noteq> None \<or> busy a1 0)"
    using step Cons.prems(1)
    by (cases "snd c") (auto simp: spec_call_def busy_def split: if_splits prod.splits option.splits list.splits)
  have first: "snd c = Acquire \<Longrightarrow> r = XR_ERROR_CALL_ORDER_INVALID"
    using step Cons.prems(1) by (auto simp: spec_call_def)
  from Cons.IH [OF keep] Cons.prems(2) have
    "\<forall>k < length cs. snd (cs ! k) = Acquire \<longrightarrow> snd (spec_calls n static cs a1) ! k = XR_ERROR_CALL_ORDER_INVALID"
    by simp
  with step first show ?case by (auto simp: nth_Cons split: nat.splits prod.splits)
qed

text \<open>A static swapchain is acquired once. After the first successful acquire of a static
  swapchain (its compositor has one image, with index 0), every later acquire fails with
  \<^verbatim>\<open>XR_ERROR_CALL_ORDER_INVALID\<close>, whatever calls and results come in between.\<close>

lemma static_swapchain_once:
  assumes "0 < n" and "n \<le> XRT_MAX_SWAPCHAIN_IMAGES"
    and "\<forall>c \<in> set ((env, Acquire) # cs). res_acquire (fst c) = (XRT_SUCCESS, 0)"
    and "success_result env = XR_SUCCESS"
  shows "\<exists>sc' rs. run_calls ((env, Acquire) # cs) (new_swapchain n True) = Inr (sc', XR_SUCCESS # rs)
    \<and> (\<forall>k < length cs. snd (cs ! k) = Acquire \<longrightarrow> rs ! k = XR_ERROR_CALL_ORDER_INVALID)"
proof -
  let ?a = "initial_spec\<lparr>acq := [0]\<rparr>"
  have first: "spec_call n True env Acquire initial_spec = (?a, XR_SUCCESS)"
    using assms by (simp add: spec_call_def initial_spec_def in_use_def busy_def)
  from run_new_swapchain [of n "(env, Acquire) # cs" True] assms(1-3) obtain sc' where
    "run_calls ((env, Acquire) # cs) (new_swapchain n True) = Inr (sc', XR_SUCCESS # snd (spec_calls n True cs ?a))"
    by (auto simp: first split: prod.splits)
  moreover have "True \<and> (rel ?a \<noteq> None \<or> busy ?a 0)" by (simp add: busy_def)
  ultimately show ?thesis
    using static_acquired_once [of True ?a cs n] assms(3) by auto
qed


lemma flag_if_bit:
  assumes "k < 32"
  shows "bit (flag_if x (push_bit k 1) (push_bit k 1)) n \<longleftrightarrow> n = k \<and> bit x k"
proof -
  have "x AND push_bit k 1 \<noteq> 0 \<longleftrightarrow> bit x k"
    using assms by (simp add: and_exp_eq_0_iff_not_bit push_bit_eq_mult)
  then show ?thesis
    using assms by (auto simp: flag_if_def bit_push_bit_iff push_bit_eq_mult bit_exp_iff)
qed

lemma flag_if_bits:
  "bit (flag_if x 0x1 0x1) n \<longleftrightarrow> n = 0 \<and> bit x 0" "bit (flag_if x 0x2 0x2) n \<longleftrightarrow> n = 1 \<and> bit x 1"
  "bit (flag_if x 0x4 0x4) n \<longleftrightarrow> n = 2 \<and> bit x 2" "bit (flag_if x 0x8 0x8) n \<longleftrightarrow> n = 3 \<and> bit x 3"
  "bit (flag_if x 0x10 0x10) n \<longleftrightarrow> n = 4 \<and> bit x 4" "bit (flag_if x 0x20 0x20) n \<longleftrightarrow> n = 5 \<and> bit x 5"
  "bit (flag_if x 0x40 0x40) n \<longleftrightarrow> n = 6 \<and> bit x 6" "bit (flag_if x 0x80 0x80) n \<longleftrightarrow> n = 7 \<and> bit x 7"
  using flag_if_bit [of 0 x n] flag_if_bit [of 1 x n] flag_if_bit [of 2 x n] flag_if_bit [of 3 x n]
    flag_if_bit [of 4 x n] flag_if_bit [of 5 x n] flag_if_bit [of 6 x n] flag_if_bit [of 7 x n]
  by (simp_all add: push_bit_eq_mult)

text \<open>The usage flags of OpenXR and of the compositor interface agree bit for bit: the
  conversion keeps exactly the eight known bits of the application's 64 bit flags and drops all
  others, and the creation flags keep exactly their two bits.\<close>

lemma convert_flags_bits:
  "convert_usage_bits x = ucast (take_bit 8 x) \<and> convert_create_flags x = ucast (take_bit 2 x)"
proof
  show "convert_usage_bits x = ucast (take_bit 8 x)"
  proof (rule bit_word_eqI)
    fix n
    assume "n < LENGTH(32)"
    have "n < 8 \<longleftrightarrow> n = 0 \<or> n = 1 \<or> n = 2 \<or> n = 3 \<or> n = 4 \<or> n = 5 \<or> n = 6 \<or> n = 7" by arith
    then show "bit (convert_usage_bits x) n = bit (ucast (take_bit 8 x) :: 32 word) n"
      by (auto simp: convert_usage_bits_def bit_or_iff flag_if_bits bit_ucast_iff bit_take_bit_iff)
  qed
  show "convert_create_flags x = ucast (take_bit 2 x)"
  proof (rule bit_word_eqI)
    fix n
    assume "n < LENGTH(32)"
    have "n < 2 \<longleftrightarrow> n = 0 \<or> n = 1" by arith
    then show "bit (convert_create_flags x) n = bit (ucast (take_bit 2 x) :: 32 word) n"
      by (auto simp: convert_create_flags_def bit_or_iff flag_if_bits bit_ucast_iff bit_take_bit_iff)
  qed
qed

definition app_silent :: "swapchain \<Rightarrow> bool" where
  "app_silent sc \<longleftrightarrow> (\<forall>i. XscBarrierToApp i \<notin> set (xsc_calls sc))"

lemma app_silent_call [simp]: "app_silent (call_xsc c sc) \<longleftrightarrow> app_silent sc \<and> (\<forall>i. c \<noteq> XscBarrierToApp i)"
  by (auto simp: app_silent_def call_xsc_def)

lemma app_silent_updates [simp]:
  "app_silent (sc\<lparr>sess_has_lost := b\<rparr>) = app_silent sc" "app_silent (sc\<lparr>acquired_fifo := f\<rparr>) = app_silent sc"
  "app_silent (sc\<lparr>acquired_num := n\<rparr>) = app_silent sc" "app_silent (sc\<lparr>images := im\<rparr>) = app_silent sc"
  "app_silent (sc\<lparr>inflight_yes := b\<rparr>) = app_silent sc" "app_silent (sc\<lparr>inflight_index := k\<rparr>) = app_silent sc"
  "app_silent (sc\<lparr>released_yes := b\<rparr>) = app_silent sc" "app_silent (sc\<lparr>released_index := k\<rparr>) = app_silent sc"
  by (simp_all add: app_silent_def)

lemma sc_check_silent:
  assumes "sc_check_xret x s k = Inr (s', r)" and "app_silent s"
    and "\<And>s' r. k s = Inr (s', r) \<Longrightarrow> app_silent s'"
  shows "app_silent s'"
  using assms by (auto simp: sc_check_xret_def split: if_splits)

lemma acquire_silent: "acquire_image env sc = Inr (sc', r, i) \<Longrightarrow> app_silent sc \<Longrightarrow> app_silent sc'"
  unfolding acquire_image_def oxr_swapchain_common_acquire_def Let_def
  by (auto elim!: try_bindE split: if_split_asm prod.split_asm)

lemma common_wait_silent: "oxr_swapchain_common_wait env sc = Inr (sc', r) \<Longrightarrow> app_silent sc \<Longrightarrow> app_silent sc'"
  unfolding oxr_swapchain_common_wait_def Let_def
  by (auto elim!: try_bindE sc_check_silent split: if_split_asm prod.split_asm option.split_asm)

lemma wait_silent: "implicit_wait_image env sc = Inr (sc', r) \<Longrightarrow> app_silent sc \<Longrightarrow> app_silent sc'"
  unfolding implicit_wait_image_def
  by (auto elim!: try_bindE sc_check_silent split: if_split_asm dest!: common_wait_silent)

lemma common_release_silent: "oxr_swapchain_common_release env sc = Inr (sc', r) \<Longrightarrow> app_silent sc \<Longrightarrow> app_silent sc'"
  unfolding oxr_swapchain_common_release_def Let_def
  by (auto elim!: try_bindE sc_check_silent split: if_split_asm)

lemma release_silent: "implicit_release_image env sc = Inr (sc', r) \<Longrightarrow> app_silent sc \<Longrightarrow> app_silent sc'"
  unfolding implicit_release_image_def
  by (auto elim!: try_bindE sc_check_silent split: if_split_asm dest!: common_release_silent)

text \<open>The shared wait and release functions only ever transition an image to the compositor:
  whatever is called with whatever results, \<^verbatim>\<open>XRT_BARRIER_TO_APP\<close> is never issued for any image,
  although the wait is the point where the application takes the image over.\<close>

lemma no_transition_to_app:
  assumes "run_call env call sc = Inr (sc', r)" and "\<forall>i. XscBarrierToApp i \<notin> set (xsc_calls sc)"
  shows "\<forall>i. XscBarrierToApp i \<notin> set (xsc_calls sc')"
  using assms acquire_silent wait_silent release_silent unfolding app_silent_def [symmetric]
  by (cases call) (auto simp: run_call_def try_simps)

end
