(* ===== verification/Multi_Compositor.thy ===== *)
theory Multi_Compositor
  imports Prelude "HOL-Library.Multiset"
begin

text \<open>
  The compositor of one client of the multi-client compositor,
  \<^verbatim>\<open>compositor/multi/comp_multi_compositor.c\<close>.

  A frame moves through three slots: \<^verbatim>\<open>progress\<close> (being submitted, or waiting for the GPU),
  \<^verbatim>\<open>scheduled\<close> (done, waiting for its display time) and \<^verbatim>\<open>delivered\<close> (what the render thread
  shows). Three threads touch them: the client, the wait thread that waits for the client's
  fence, and the render thread. The critical sections are the functions of the first part; the
  step relation at the end interleaves them. The calls on the application pacer are recorded in
  \<open>pa_log\<close>, and \<open>xsc_refs\<close> is the multiset of swapchain references the slots hold.
\<close>

section \<open>Time comparisons\<close>

text \<open>Times in nanoseconds are integers: 64 bits last for 292 years.\<close>

definition time_is_within_range_of_each_other :: "int \<Rightarrow> int \<Rightarrow> int \<Rightarrow> bool" where
  "time_is_within_range_of_each_other a b rng = (let t = a - b in - rng < t \<and> t < rng)"

definition U_TIME_HALF_MS_IN_NS :: int where
  "U_TIME_HALF_MS_IN_NS = 500000"

definition time_is_within_half_ms :: "int \<Rightarrow> int \<Rightarrow> bool" where
  "time_is_within_half_ms a b = time_is_within_range_of_each_other a b U_TIME_HALF_MS_IN_NS"

definition time_is_greater_then_or_within_half_ms :: "int \<Rightarrow> int \<Rightarrow> bool" where
  "time_is_greater_then_or_within_half_ms a b \<longleftrightarrow>
     a > b \<or> time_is_within_range_of_each_other a b U_TIME_HALF_MS_IN_NS"

section \<open>State\<close>

definition MULTI_MAX_LAYERS :: nat where "MULTI_MAX_LAYERS = 128"

type_synonym xsc = nat
type_synonym xdev = nat

record chroma_key =
  hsv_min :: "32 word list"
  hsv_max :: "32 word list"
  curve :: "32 word"
  despill :: "32 word"

record layer_data =
  ld_type :: xrt_layer_type
  ld_view_count :: nat
  ld_chroma_key :: chroma_key
  ld_rest :: nat               \<comment> \<open>the fields that are only copied\<close>

record layer_entry =
  le_xdev :: "xdev option"
  le_xscs :: "xsc option list"
  le_data :: layer_data

datatype xrt_blend_mode = XRT_BLEND_MODE_OPAQUE | XRT_BLEND_MODE_ADDITIVE | XRT_BLEND_MODE_ALPHA_BLEND

record frame_data =
  fd_frame_id :: int
  fd_display_time_ns :: int
  fd_env_blend_mode :: xrt_blend_mode

record slot =
  slot_active :: bool
  slot_data :: frame_data
  slot_layers :: "layer_entry list"   \<comment> \<open>the first \<^verbatim>\<open>layer_count\<close> entries; the others are zero\<close>

datatype pacer_call =
    PaInfo int int int
  | PaPredict int
  | PaWoke int int
  | PaBegin int int
  | PaDiscarded int int
  | PaDelivered int int int
  | PaGpuDone int int
  | PaLatched int int int
  | PaRetired int int

record wait_thread =
  wt_xcf :: "nat option"
  wt_xcsem :: "nat option"
  wt_value :: nat
  wt_frame_id :: int
  wt_waiting :: bool
  wt_blocked :: bool

record multi_compositor =
  visible :: bool
  focused :: bool
  z_order :: int
  session_active :: bool
  is_base_session :: bool
  wait_thread :: wait_thread
  slot_next_frame_display :: int
  progress :: slot
  scheduled :: slot
  delivered :: slot
  pa_log :: "pacer_call list"
  xsc_refs :: "xsc multiset"

definition zero_frame_data :: frame_data where
  "zero_frame_data = \<lparr>fd_frame_id = 0, fd_display_time_ns = 0, fd_env_blend_mode = XRT_BLEND_MODE_OPAQUE\<rparr>"

definition zero_slot :: slot where
  "zero_slot = \<lparr>slot_active = False, slot_data = zero_frame_data, slot_layers = []\<rparr>"

definition cleared_slot :: slot where
  "cleared_slot = zero_slot\<lparr>slot_data := zero_frame_data\<lparr>fd_frame_id := -1\<rparr>\<rparr>"

definition pa_call :: "pacer_call \<Rightarrow> multi_compositor \<Rightarrow> multi_compositor" where
  "pa_call c mc = mc\<lparr>pa_log := pa_log mc @ [c]\<rparr>"

text \<open>\<^verbatim>\<open>xrt_swapchain_reference(&dst, src)\<close> on the references the slots hold.\<close>

definition xrt_swapchain_reference :: "xsc option \<Rightarrow> xsc option \<Rightarrow> xsc multiset \<Rightarrow> xsc multiset" where
  "xrt_swapchain_reference dst src refs = (
     if dst = src then refs
     else
       let refs = (case src of None \<Rightarrow> refs | Some x \<Rightarrow> add_mset x refs)
       in (case dst of None \<Rightarrow> refs | Some x \<Rightarrow> refs - {#x#}))"

section \<open>Slot management\<close>

definition drop_layer_refs :: "layer_entry \<Rightarrow> xsc multiset \<Rightarrow> xsc multiset" where
  "drop_layer_refs l refs = fold (\<lambda>x. xrt_swapchain_reference x None) (le_xscs l) refs"

text \<open>The retire call and the dropped references; the slot itself becomes \<open>cleared_slot\<close>.\<close>

definition slot_clear_locked :: "int \<Rightarrow> multi_compositor \<Rightarrow> slot \<Rightarrow> multi_compositor \<times> slot" where
  "slot_clear_locked now_ns mc slot = (
     let mc = (if slot_active slot then pa_call (PaRetired (fd_frame_id (slot_data slot)) now_ns) mc else mc);
         mc = mc\<lparr>xsc_refs := fold drop_layer_refs (slot_layers slot) (xsc_refs mc)\<rparr>
     in (mc, cleared_slot))"

definition slot_move_into_cleared :: "slot \<Rightarrow> slot \<Rightarrow> fault + (slot \<times> slot)" where
  "slot_move_into_cleared dst src =
     try_bind (c_assert (\<not> slot_active dst)) (\<lambda>_.
     try_bind (c_assert (fd_frame_id (slot_data dst) = -1)) (\<lambda>_.
       Inr (src, cleared_slot)))"

definition slot_move_and_clear_locked ::
  "int \<Rightarrow> multi_compositor \<Rightarrow> slot \<Rightarrow> slot \<Rightarrow> fault + (multi_compositor \<times> slot \<times> slot)" where
  "slot_move_and_clear_locked now_ns mc dst src = (case slot_clear_locked now_ns mc dst of (mc, dst) \<Rightarrow>
     try_bind (slot_move_into_cleared dst src) (\<lambda>(dst, src). Inr (mc, dst, src)))"

section \<open>The wait thread\<close>

definition is_pushed_or_waiting_locked :: "multi_compositor \<Rightarrow> bool" where
  "is_pushed_or_waiting_locked mc \<longleftrightarrow>
     wt_waiting (wait_thread mc) \<or> wt_xcf (wait_thread mc) \<noteq> None \<or> wt_xcsem (wait_thread mc) \<noteq> None"

text \<open>
  \<^verbatim>\<open>wait_for_scheduled_free\<close>: the loop leaves when the scheduled slot is free, or when its frame
  is late. Polling again after a sleep is a later try of the same step.
\<close>

definition scheduled_free :: "int \<Rightarrow> multi_compositor \<Rightarrow> bool" where
  "scheduled_free now_ns mc \<longleftrightarrow> \<not> slot_active (scheduled mc)
     \<or> time_is_within_half_ms (fd_display_time_ns (slot_data (progress mc))) (slot_next_frame_display mc)
     \<or> fd_display_time_ns (slot_data (scheduled mc)) < now_ns"

definition move_progress :: "int \<Rightarrow> multi_compositor \<Rightarrow> fault + multi_compositor" where
  "move_progress now_ns mc =
     try_bind (slot_move_and_clear_locked now_ns mc (scheduled mc) (progress mc)) (\<lambda>(mc, sched, prog).
       Inr (mc\<lparr>scheduled := sched, progress := prog\<rparr>))"

text \<open>One round of the loop of \<^verbatim>\<open>run_func\<close>: taking the fence or semaphore, and after the wait.\<close>

definition wait_thread_take :: "multi_compositor \<Rightarrow> multi_compositor \<times> int option" where
  "wait_thread_take mc = (
     let wt = wait_thread mc;
         frame_id = wt_frame_id wt; xcf = wt_xcf wt; xcsem = wt_xcsem wt;
         wt = wt\<lparr>wt_frame_id := 0, wt_xcf := None, wt_xcsem := None, wt_value := 0\<rparr>
     in if xcf = None \<and> xcsem = None then (mc\<lparr>wait_thread := wt\<rparr>, None)
        else (mc\<lparr>wait_thread := wt\<lparr>wt_waiting := True\<rparr>\<rparr>, Some frame_id))"

definition wait_thread_mark_done :: "int \<Rightarrow> int \<Rightarrow> multi_compositor \<Rightarrow> multi_compositor" where
  "wait_thread_mark_done frame_id now_ns mc = pa_call (PaGpuDone frame_id now_ns) mc"

definition wait_thread_release :: "multi_compositor \<Rightarrow> multi_compositor" where
  "wait_thread_release mc = (
     let wt = (wait_thread mc)\<lparr>wt_waiting := False\<rparr>
     in mc\<lparr>wait_thread := (if wt_blocked wt then wt\<lparr>wt_blocked := False\<rparr> else wt)\<rparr>)"

text \<open>\<^verbatim>\<open>wait_for_wait_thread_locked\<close> up to the wait: whether the caller has to sleep.\<close>

definition wait_for_wait_thread_locked :: "multi_compositor \<Rightarrow> fault + (multi_compositor \<times> bool)" where
  "wait_for_wait_thread_locked mc = (
     if is_pushed_or_waiting_locked mc then
       try_bind (c_assert (\<not> wt_blocked (wait_thread mc))) (\<lambda>_.
         Inr (mc\<lparr>wait_thread := (wait_thread mc)\<lparr>wt_blocked := True\<rparr>\<rparr>, True))
     else Inr (mc, False))"

text \<open>The flag of the push functions: the caller sleeps in \<^verbatim>\<open>wait_for_wait_thread_locked\<close> first.\<close>

definition push_fence_to_wait_thread :: "int \<Rightarrow> nat \<Rightarrow> multi_compositor \<Rightarrow> fault + (multi_compositor \<times> bool)" where
  "push_fence_to_wait_thread frame_id xcf mc =
     try_bind (c_assert (\<not> wt_waiting (wait_thread mc))) (\<lambda>_.
     try_bind (wait_for_wait_thread_locked mc) (\<lambda>(mc, sleeps).
       if sleeps then Inr (mc, True)
       else try_bind (c_assert (wt_xcf (wait_thread mc) = None)) (\<lambda>_.
         Inr (mc\<lparr>wait_thread := (wait_thread mc)\<lparr>wt_frame_id := frame_id, wt_xcf := Some xcf\<rparr>\<rparr>, False))))"

definition push_semaphore_to_wait_thread ::
  "int \<Rightarrow> nat \<Rightarrow> nat \<Rightarrow> multi_compositor \<Rightarrow> fault + (multi_compositor \<times> bool)" where
  "push_semaphore_to_wait_thread frame_id xcsem value mc =
     try_bind (c_assert (\<not> wt_waiting (wait_thread mc))) (\<lambda>_.
     try_bind (wait_for_wait_thread_locked mc) (\<lambda>(mc, sleeps).
       if sleeps then Inr (mc, True)
       else try_bind (c_assert (wt_xcsem (wait_thread mc) = None)) (\<lambda>_.
         Inr (mc\<lparr>wait_thread := (wait_thread mc)\<lparr>wt_frame_id := frame_id, wt_xcsem := Some xcsem,
           wt_value := value\<rparr>\<rparr>, False))))"

section \<open>Compositor functions\<close>

text \<open>\<^verbatim>\<open>multi_compositor_layer_begin\<close>: before and after its wait for the wait thread.\<close>

definition layer_begin_mark :: "frame_data \<Rightarrow> int \<Rightarrow> multi_compositor \<Rightarrow> multi_compositor" where
  "layer_begin_mark data now_ns mc = pa_call (PaDelivered (fd_frame_id data) now_ns (fd_display_time_ns data)) mc"

definition layer_begin_start :: "frame_data \<Rightarrow> multi_compositor \<Rightarrow> fault + multi_compositor" where
  "layer_begin_start data mc =
     try_bind (c_assert (length (slot_layers (progress mc)) = 0)) (\<lambda>_.
       Inr (mc\<lparr>progress := zero_slot\<lparr>slot_active := True, slot_data := data\<rparr>\<rparr>))"

text \<open>
  The reference loops of the layer functions: entry \<open>i + off\<close> of \<^verbatim>\<open>xscs\<close> becomes \<open>i\<close>-th
  swapchain of the argument, for \<open>i\<close> below the view count.
\<close>

primrec reference_views :: "nat \<Rightarrow> nat \<Rightarrow> xsc option list \<Rightarrow> xsc option list \<times> xsc multiset
    \<Rightarrow> fault + (xsc option list \<times> xsc multiset)" where
  "reference_views off 0 arg st = Inr st"
| "reference_views off (Suc n) arg st = try_bind (reference_views off n arg st) (\<lambda>(xscs, refs).
     try_bind (arr_get arg n) (\<lambda>src.
     try_bind (arr_get xscs (n + off)) (\<lambda>dst.
     try_bind (arr_set xscs (n + off) src) (\<lambda>xscs.
       Inr (xscs, xrt_swapchain_reference dst src refs)))))"

definition zero_xscs :: "xsc option list" where
  "zero_xscs = replicate (2 * XRT_MAX_VIEWS) None"

definition append_layer ::
  "xdev option \<Rightarrow> layer_data \<Rightarrow> (xsc option list \<times> xsc multiset \<Rightarrow> fault + (xsc option list \<times> xsc multiset))
    \<Rightarrow> multi_compositor \<Rightarrow> fault + multi_compositor" where
  "append_layer xdev data ref mc = (
     if length (slot_layers (progress mc)) < MULTI_MAX_LAYERS then
       try_bind (ref (zero_xscs, xsc_refs mc)) (\<lambda>(xscs, refs).
         Inr (mc\<lparr>progress := (progress mc)\<lparr>slot_layers := slot_layers (progress mc)
               @ [\<lparr>le_xdev = xdev, le_xscs = xscs, le_data = data\<rparr>]\<rparr>, xsc_refs := refs\<rparr>))
     else Inl OutOfBounds)"

definition multi_compositor_layer_projection ::
  "xdev option \<Rightarrow> xsc option list \<Rightarrow> layer_data \<Rightarrow> multi_compositor \<Rightarrow> fault + multi_compositor" where
  "multi_compositor_layer_projection xdev xscs data =
     append_layer xdev data (reference_views 0 (ld_view_count data) xscs)"

definition multi_compositor_layer_projection_depth ::
  "xdev option \<Rightarrow> xsc option list \<Rightarrow> xsc option list \<Rightarrow> layer_data \<Rightarrow> multi_compositor \<Rightarrow> fault + multi_compositor" where
  "multi_compositor_layer_projection_depth xdev xscs d_xscs data =
     append_layer xdev data (\<lambda>st. try_bind (reference_views 0 (ld_view_count data) xscs st)
       (reference_views (ld_view_count data) (ld_view_count data) d_xscs))"

definition single_layer :: "xdev option \<Rightarrow> xsc option \<Rightarrow> layer_data \<Rightarrow> multi_compositor \<Rightarrow> fault + multi_compositor" where
  "single_layer xdev xsc data = append_layer xdev data (reference_views 0 1 [xsc])"

definition multi_compositor_layer_quad ::
  "xdev option \<Rightarrow> xsc option \<Rightarrow> layer_data \<Rightarrow> multi_compositor \<Rightarrow> fault + multi_compositor" where
  "multi_compositor_layer_quad xdev xsc data = single_layer xdev xsc data"

definition multi_compositor_layer_cube ::
  "xdev option \<Rightarrow> xsc option \<Rightarrow> layer_data \<Rightarrow> multi_compositor \<Rightarrow> fault + multi_compositor" where
  "multi_compositor_layer_cube xdev xsc data = single_layer xdev xsc data"

definition multi_compositor_layer_cylinder ::
  "xdev option \<Rightarrow> xsc option \<Rightarrow> layer_data \<Rightarrow> multi_compositor \<Rightarrow> fault + multi_compositor" where
  "multi_compositor_layer_cylinder xdev xsc data = single_layer xdev xsc data"

definition multi_compositor_layer_equirect1 ::
  "xdev option \<Rightarrow> xsc option \<Rightarrow> layer_data \<Rightarrow> multi_compositor \<Rightarrow> fault + multi_compositor" where
  "multi_compositor_layer_equirect1 xdev xsc data = single_layer xdev xsc data"

definition multi_compositor_layer_equirect2 ::
  "xdev option \<Rightarrow> xsc option \<Rightarrow> layer_data \<Rightarrow> multi_compositor \<Rightarrow> fault + multi_compositor" where
  "multi_compositor_layer_equirect2 xdev xsc data = single_layer xdev xsc data"


text \<open>
  \<^verbatim>\<open>multi_compositor_layer_commit\<close>: \<open>fence\<close> is the imported fence, if the handle was valid and the
  import succeeded. Without one the frame is done, and the caller goes on to wait for the
  scheduled slot.
\<close>

datatype commit_outcome = Pushed | SleepsFirst | WaitsForSlot

definition multi_compositor_layer_commit ::
  "nat option \<Rightarrow> int \<Rightarrow> multi_compositor \<Rightarrow> fault + (multi_compositor \<times> commit_outcome)" where
  "multi_compositor_layer_commit fence now_ns mc = (
     let frame_id = fd_frame_id (slot_data (progress mc)) in
     case fence of
       Some xcf \<Rightarrow> try_bind (push_fence_to_wait_thread frame_id xcf mc) (\<lambda>(mc, sleeps).
         Inr (mc, if sleeps then SleepsFirst else Pushed))
     | None \<Rightarrow> Inr (pa_call (PaGpuDone frame_id now_ns) mc, WaitsForSlot))"

definition multi_compositor_layer_commit_with_semaphore ::
  "nat \<Rightarrow> nat \<Rightarrow> multi_compositor \<Rightarrow> fault + (multi_compositor \<times> commit_outcome)" where
  "multi_compositor_layer_commit_with_semaphore xcsem value mc =
     try_bind (push_semaphore_to_wait_thread (fd_frame_id (slot_data (progress mc))) xcsem value mc) (\<lambda>(mc, sleeps).
       Inr (mc, if sleeps then SleepsFirst else Pushed))"

definition multi_compositor_retire_delivered_locked :: "int \<Rightarrow> multi_compositor \<Rightarrow> multi_compositor" where
  "multi_compositor_retire_delivered_locked when_ns mc =
     (case slot_clear_locked when_ns mc (delivered mc) of (mc, slot) \<Rightarrow> mc\<lparr>delivered := slot\<rparr>)"

definition multi_compositor_discard_frame :: "int \<Rightarrow> int \<Rightarrow> multi_compositor \<Rightarrow> multi_compositor" where
  "multi_compositor_discard_frame frame_id now_ns mc =
     multi_compositor_retire_delivered_locked now_ns (pa_call (PaDiscarded frame_id now_ns) mc)"

definition multi_compositor_begin_frame :: "int \<Rightarrow> int \<Rightarrow> multi_compositor \<Rightarrow> multi_compositor" where
  "multi_compositor_begin_frame frame_id now_ns mc = pa_call (PaBegin frame_id now_ns) mc"

definition multi_compositor_deliver_any_frames :: "int \<Rightarrow> int \<Rightarrow> multi_compositor \<Rightarrow> fault + multi_compositor" where
  "multi_compositor_deliver_any_frames display_time_ns now_ns mc = (
     if \<not> slot_active (scheduled mc) then Inr mc
     else if time_is_greater_then_or_within_half_ms display_time_ns (fd_display_time_ns (slot_data (scheduled mc))) then
       try_bind (slot_move_and_clear_locked now_ns mc (delivered mc) (scheduled mc)) (\<lambda>(mc, deliv, sched).
         Inr (mc\<lparr>delivered := deliv, scheduled := sched\<rparr>))
     else Inr mc)"

definition multi_compositor_latch_frame_locked :: "int \<Rightarrow> int \<Rightarrow> multi_compositor \<Rightarrow> multi_compositor" where
  "multi_compositor_latch_frame_locked when_ns system_frame_id mc =
     pa_call (PaLatched (fd_frame_id (slot_data (delivered mc))) when_ns system_frame_id) mc"

text \<open>The slots part of \<^verbatim>\<open>multi_compositor_destroy\<close>, with the wait thread stopped.\<close>

definition destroy_slots :: "int \<Rightarrow> multi_compositor \<Rightarrow> multi_compositor" where
  "destroy_slots now_ns mc = (
     case slot_clear_locked now_ns mc (progress mc) of (mc, p) \<Rightarrow>
     case slot_clear_locked now_ns (mc\<lparr>progress := p\<rparr>) (scheduled mc) of (mc, s) \<Rightarrow>
     case slot_clear_locked now_ns (mc\<lparr>scheduled := s\<rparr>) (delivered mc) of (mc, d) \<Rightarrow> mc\<lparr>delivered := d\<rparr>)"

text \<open>The state part of \<^verbatim>\<open>multi_compositor_create\<close>.\<close>

definition new_multi_compositor :: "bool \<Rightarrow> multi_compositor" where
  "new_multi_compositor is_overlay = \<lparr>visible = False, focused = False, z_order = 0, session_active = False,
     is_base_session = \<not> is_overlay,
     wait_thread = \<lparr>wt_xcf = None, wt_xcsem = None, wt_value = 0, wt_frame_id = 0, wt_waiting = False, wt_blocked = False\<rparr>,
     slot_next_frame_display = 0, progress = zero_slot, scheduled = zero_slot, delivered = zero_slot,
     pa_log = [], xsc_refs = {#}\<rparr>"

section \<open>The threads\<close>

datatype layer_call =
    LayerProjection "xdev option" "xsc option list" layer_data
  | LayerProjectionDepth "xdev option" "xsc option list" "xsc option list" layer_data
  | LayerQuad "xdev option" "xsc option" layer_data
  | LayerCube "xdev option" "xsc option" layer_data
  | LayerCylinder "xdev option" "xsc option" layer_data
  | LayerEquirect1 "xdev option" "xsc option" layer_data
  | LayerEquirect2 "xdev option" "xsc option" layer_data

definition run_layer :: "layer_call \<Rightarrow> multi_compositor \<Rightarrow> fault + multi_compositor" where
  "run_layer call = (case call of
      LayerProjection xdev xscs d \<Rightarrow> multi_compositor_layer_projection xdev xscs d
    | LayerProjectionDepth xdev xscs dxscs d \<Rightarrow> multi_compositor_layer_projection_depth xdev xscs dxscs d
    | LayerQuad xdev xsc d \<Rightarrow> multi_compositor_layer_quad xdev xsc d
    | LayerCube xdev xsc d \<Rightarrow> multi_compositor_layer_cube xdev xsc d
    | LayerCylinder xdev xsc d \<Rightarrow> multi_compositor_layer_cylinder xdev xsc d
    | LayerEquirect1 xdev xsc d \<Rightarrow> multi_compositor_layer_equirect1 xdev xsc d
    | LayerEquirect2 xdev xsc d \<Rightarrow> multi_compositor_layer_equirect2 xdev xsc d)"

text \<open>The arrays of the caller have \<^verbatim>\<open>XRT_MAX_VIEWS\<close> entries and the view count fits.\<close>

definition layer_call_ok :: "layer_call \<Rightarrow> bool" where
  "layer_call_ok call = (case call of
      LayerProjection xdev xscs d \<Rightarrow> length xscs = XRT_MAX_VIEWS \<and> ld_view_count d \<le> XRT_MAX_VIEWS
    | LayerProjectionDepth xdev xscs dxscs d \<Rightarrow>
        length xscs = XRT_MAX_VIEWS \<and> length dxscs = XRT_MAX_VIEWS \<and> ld_view_count d \<le> XRT_MAX_VIEWS
    | _ \<Rightarrow> True)"

text \<open>
  Where the client's thread and the wait thread are. \<open>InMove\<close>, \<open>WtFree\<close>: the loop of
  \<^verbatim>\<open>wait_for_scheduled_free\<close> has ended and the locks for the move are taken anew. \<open>WtMoved\<close>: the frame has moved to the
  scheduled slot, and \<^verbatim>\<open>waiting\<close> is about to be reset. \<open>InPush\<close>: asleep in a push function.
\<close>

datatype client_pc = Idle | InLayerBegin frame_data | Building | InCommit | InMove | InPush

datatype wait_phase = WtLoop | WtWaiting int | WtDone | WtFree | WtMoved

record client =
  cl_mc :: multi_compositor
  cl_pc :: client_pc
  cl_wt :: wait_phase

definition after_commit :: "client \<Rightarrow> multi_compositor \<times> commit_outcome \<Rightarrow> client" where
  "after_commit c r = c\<lparr>cl_mc := fst r,
     cl_pc := (case snd r of Pushed \<Rightarrow> Idle | SleepsFirst \<Rightarrow> InPush | WaitsForSlot \<Rightarrow> InCommit)\<rparr>"

inductive client_step :: "client \<Rightarrow> fault + client \<Rightarrow> bool" where
  step_layer_begin: "cl_pc c = Idle \<Longrightarrow>
    client_step c (try_bind (wait_for_wait_thread_locked (layer_begin_mark d now (cl_mc c))) (\<lambda>(mc, sleeps).
      if sleeps then Inr (c\<lparr>cl_mc := mc, cl_pc := InLayerBegin d\<rparr>)
      else try_bind (layer_begin_start d mc) (\<lambda>mc. Inr (c\<lparr>cl_mc := mc, cl_pc := Building\<rparr>))))"
| step_layer_begin_wakes: "cl_pc c = InLayerBegin d \<Longrightarrow> \<not> wt_blocked (wait_thread (cl_mc c)) \<Longrightarrow>
    client_step c (try_bind (layer_begin_start d (cl_mc c)) (\<lambda>mc. Inr (c\<lparr>cl_mc := mc, cl_pc := Building\<rparr>)))"
| step_layer: "cl_pc c = Building \<Longrightarrow> layer_call_ok call \<Longrightarrow>
    length (slot_layers (progress (cl_mc c))) < MULTI_MAX_LAYERS \<Longrightarrow>
    client_step c (try_bind (run_layer call (cl_mc c)) (\<lambda>mc. Inr (c\<lparr>cl_mc := mc\<rparr>)))"
| step_commit: "cl_pc c = Building \<Longrightarrow>
    client_step c (try_bind (multi_compositor_layer_commit fence now (cl_mc c)) (\<lambda>r. Inr (after_commit c r)))"
| step_commit_semaphore: "cl_pc c = Building \<Longrightarrow>
    client_step c (try_bind (multi_compositor_layer_commit_with_semaphore xcsem val (cl_mc c)) (\<lambda>r. Inr (after_commit c r)))"
| step_commit_free: "cl_pc c = InCommit \<Longrightarrow> scheduled_free now (cl_mc c) \<Longrightarrow>
    client_step c (Inr (c\<lparr>cl_pc := InMove\<rparr>))"
| step_commit_done: "cl_pc c = InMove \<Longrightarrow>
    client_step c (try_bind (move_progress now (cl_mc c)) (\<lambda>mc. Inr (c\<lparr>cl_mc := mc, cl_pc := Idle\<rparr>)))"
| step_discard: "cl_pc c \<in> {Idle, Building} \<Longrightarrow>
    client_step c (Inr (c\<lparr>cl_mc := multi_compositor_discard_frame frame_id now (cl_mc c)\<rparr>))"
| step_take: "cl_wt c = WtLoop \<Longrightarrow> wait_thread_take (cl_mc c) = (mc, taken) \<Longrightarrow>
    client_step c (Inr (c\<lparr>cl_mc := mc, cl_wt := (case taken of None \<Rightarrow> WtLoop | Some frame_id \<Rightarrow> WtWaiting frame_id)\<rparr>))"
| step_gpu_done: "cl_wt c = WtWaiting frame_id \<Longrightarrow>
    client_step c (Inr (c\<lparr>cl_mc := wait_thread_mark_done frame_id now (cl_mc c), cl_wt := WtDone\<rparr>))"
| step_wait_thread_free: "cl_wt c = WtDone \<Longrightarrow> scheduled_free now (cl_mc c) \<Longrightarrow>
    client_step c (Inr (c\<lparr>cl_wt := WtFree\<rparr>))"
| step_wait_thread_move: "cl_wt c = WtFree \<Longrightarrow>
    client_step c (try_bind (move_progress now (cl_mc c)) (\<lambda>mc. Inr (c\<lparr>cl_mc := mc, cl_wt := WtMoved\<rparr>)))"
| step_wait_thread_release: "cl_wt c = WtMoved \<Longrightarrow>
    client_step c (Inr (c\<lparr>cl_mc := wait_thread_release (cl_mc c), cl_wt := WtLoop\<rparr>))"
| step_deliver:
    "client_step c (try_bind (multi_compositor_deliver_any_frames display now (cl_mc c)) (\<lambda>mc. Inr (c\<lparr>cl_mc := mc\<rparr>)))"
| step_retire:
    "client_step c (Inr (c\<lparr>cl_mc := multi_compositor_retire_delivered_locked now (cl_mc c)\<rparr>))"
| step_latch:
    "client_step c (Inr (c\<lparr>cl_mc := multi_compositor_latch_frame_locked now frame_id (cl_mc c)\<rparr>))"
| step_next_display:
    "client_step c (Inr (c\<lparr>cl_mc := (cl_mc c)\<lparr>slot_next_frame_display := t\<rparr>\<rparr>))"
| step_state:
    "client_step c (Inr (c\<lparr>cl_mc := (cl_mc c)\<lparr>visible := v, focused := f, z_order := z, session_active := a, is_base_session := b\<rparr>\<rparr>))"

inductive client_reach :: "client \<Rightarrow> bool" where
  reach_new: "client_reach \<lparr>cl_mc = new_multi_compositor is_overlay, cl_pc = Idle, cl_wt = WtLoop\<rparr>"
| reach_step: "client_reach c \<Longrightarrow> client_step c (Inr c') \<Longrightarrow> client_reach c'"

section \<open>References\<close>

primrec somes :: "'a option list \<Rightarrow> 'a multiset" where
  "somes [] = {#}"
| "somes (x # xs) = (case x of None \<Rightarrow> {#} | Some y \<Rightarrow> {#y#}) + somes xs"

definition slot_refs :: "slot \<Rightarrow> xsc multiset" where
  "slot_refs s = (\<Sum>l \<leftarrow> slot_layers s. somes (le_xscs l))"

lemma drop_layer_refs_eq: "drop_layer_refs l refs = refs - somes (le_xscs l)"
proof -
  have "fold (\<lambda>x. xrt_swapchain_reference x None) xs refs = refs - somes xs" for xs
    by (induction xs arbitrary: refs)
      (auto simp: xrt_swapchain_reference_def split: option.splits)
  then show ?thesis by (simp add: drop_layer_refs_def)
qed

lemma fold_drop_refs: "fold drop_layer_refs ls refs = refs - (\<Sum>l \<leftarrow> ls. somes (le_xscs l))"
  by (induction ls arbitrary: refs) (simp_all add: drop_layer_refs_eq diff_diff_add_mset)

lemma somes_update:
  "i < length xs \<Longrightarrow> xs ! i = None \<Longrightarrow> somes (xs[i := v]) = somes xs + (case v of None \<Rightarrow> {#} | Some y \<Rightarrow> {#y#})"
proof (induction xs arbitrary: i)
  case (Cons x xs)
  then show ?case by (cases i) auto
qed simp

lemma somes_replicate [simp]: "somes (replicate n None) = {#}"
  by (induction n) auto

lemma reference_none: "xrt_swapchain_reference None src refs = refs + (case src of None \<Rightarrow> {#} | Some y \<Rightarrow> {#y#})"
  by (auto simp: xrt_swapchain_reference_def split: option.splits)

lemma reference_views_ok:
  assumes "n \<le> length arg" and "n + off \<le> length xscs" and "\<And>i. off \<le> i \<Longrightarrow> i < length xscs \<Longrightarrow> xscs ! i = None"
  shows "\<exists>xscs' X. reference_views off n arg (xscs, refs) = Inr (xscs', refs + X) \<and> somes xscs' = somes xscs + X
    \<and> length xscs' = length xscs \<and> (\<forall>i. n + off \<le> i \<longrightarrow> i < length xscs \<longrightarrow> xscs' ! i = None)"
  using assms
proof (induction n)
  case 0
  then show ?case by auto
next
  case (Suc n)
  then obtain xscs' X where IH: "reference_views off n arg (xscs, refs) = Inr (xscs', refs + X)"
    "somes xscs' = somes xscs + X" "length xscs' = length xscs"
    "\<forall>i. n + off \<le> i \<longrightarrow> i < length xscs \<longrightarrow> xscs' ! i = None"
    by auto
  let ?Y = "case arg ! n of None \<Rightarrow> {#} | Some y \<Rightarrow> {#y#}"
  have "xscs' ! (n + off) = None" using IH(4) Suc.prems(2) by simp
  then have "reference_views off (Suc n) arg (xscs, refs) = Inr (xscs'[n + off := arg ! n], refs + X + ?Y)"
    using IH Suc.prems by (simp add: reference_none)
  moreover have "somes (xscs'[n + off := arg ! n]) = somes xscs + (X + ?Y)"
    using somes_update [of "n + off" xscs' "arg ! n"] IH Suc.prems by simp
  ultimately show ?case
    using IH by (intro exI [of _ "xscs'[n + off := arg ! n]"] exI [of _ "X + ?Y"]) auto
qed

lemma append_layer_ok:
  assumes "ref (zero_xscs, xsc_refs mc) = Inr (xs, xsc_refs mc + somes xs)"
    and "length (slot_layers (progress mc)) < MULTI_MAX_LAYERS"
  shows "\<exists>l. append_layer xdev d ref mc = Inr (mc\<lparr>progress := (progress mc)\<lparr>slot_layers := slot_layers (progress mc) @ [l]\<rparr>,
    xsc_refs := xsc_refs mc + somes (le_xscs l)\<rparr>)"
  using assms
  by (intro exI [of _ "\<lparr>le_xdev = xdev, le_xscs = xs, le_data = d\<rparr>"]) (simp add: append_layer_def)

lemma run_layer_ok:
  assumes "layer_call_ok call" and "length (slot_layers (progress mc)) < MULTI_MAX_LAYERS"
  shows "\<exists>l. run_layer call mc = Inr (mc\<lparr>progress := (progress mc)\<lparr>slot_layers := slot_layers (progress mc) @ [l]\<rparr>,
    xsc_refs := xsc_refs mc + somes (le_xscs l)\<rparr>)"
proof -
  have z: "length zero_xscs = 4" "somes zero_xscs = {#}" "\<And>i. i < 4 \<Longrightarrow> zero_xscs ! i = None"
    by (simp_all add: zero_xscs_def XRT_MAX_VIEWS_def)
  have one: "\<exists>xs. reference_views 0 n arg (zero_xscs, R) = Inr (xs, R + somes xs)
      \<and> length xs = 4 \<and> (\<forall>i. n \<le> i \<longrightarrow> i < 4 \<longrightarrow> xs ! i = None)"
    if "n \<le> length arg" "n \<le> 2" for n arg and R :: "xsc multiset"
    using reference_views_ok [of n arg 0 zero_xscs R] that z by auto
  have single: "\<exists>l. single_layer xdev xsc d mc = Inr (mc\<lparr>progress := (progress mc)\<lparr>slot_layers := slot_layers (progress mc) @ [l]\<rparr>,
      xsc_refs := xsc_refs mc + somes (le_xscs l)\<rparr>)" for xdev xsc d
    unfolding single_layer_def using one [of 1 "[xsc]" "xsc_refs mc"] append_layer_ok [OF _ assms(2)] by auto
  show ?thesis
  proof (cases call)
    case (LayerProjection xdev xscs d)
    then have "ld_view_count d \<le> length xscs" "ld_view_count d \<le> 2"
      using assms(1) by (auto simp: layer_call_ok_def XRT_MAX_VIEWS_def)
    from one [OF this, of "xsc_refs mc"] append_layer_ok [OF _ assms(2)] LayerProjection show ?thesis
      by (fastforce simp: run_layer_def multi_compositor_layer_projection_def)
  next
    case (LayerProjectionDepth xdev xscs dxscs d)
    let ?n = "ld_view_count d"
    have n: "?n \<le> length xscs" "?n \<le> length dxscs" "?n \<le> 2"
      using assms LayerProjectionDepth by (auto simp: layer_call_ok_def XRT_MAX_VIEWS_def)
    from one [OF n(1,3), of "xsc_refs mc"] obtain x1 where
      1: "reference_views 0 ?n xscs (zero_xscs, xsc_refs mc) = Inr (x1, xsc_refs mc + somes x1)" "length x1 = 4"
        "\<forall>i. ?n \<le> i \<longrightarrow> i < 4 \<longrightarrow> x1 ! i = None"
      by blast
    obtain x2 X2 where
      2: "reference_views ?n ?n dxscs (x1, xsc_refs mc + somes x1) = Inr (x2, xsc_refs mc + somes x1 + X2)"
        "somes x2 = somes x1 + X2"
      using reference_views_ok [of ?n dxscs ?n x1 "xsc_refs mc + somes x1"] n 1 by auto
    have "try_bind (reference_views 0 ?n xscs (zero_xscs, xsc_refs mc)) (reference_views ?n ?n dxscs)
        = Inr (x2, xsc_refs mc + somes x2)"
      using 1(1) 2 by (simp add: add.assoc)
    from append_layer_ok [of "\<lambda>st. try_bind (reference_views 0 ?n xscs st) (reference_views ?n ?n dxscs)", OF this assms(2)]
    show ?thesis
      using LayerProjectionDepth by (simp add: run_layer_def multi_compositor_layer_projection_depth_def)
  qed (use single in \<open>simp_all add: run_layer_def multi_compositor_layer_quad_def
        multi_compositor_layer_cube_def multi_compositor_layer_cylinder_def
        multi_compositor_layer_equirect1_def multi_compositor_layer_equirect2_def\<close>)
qed

section \<open>The ledger of frames and references\<close>

definition slot_ids :: "slot \<Rightarrow> int multiset" where
  "slot_ids s = (if slot_active s then {#fd_frame_id (slot_data s)#} else {#})"

definition slot_ok :: "slot \<Rightarrow> bool" where
  "slot_ok s \<longleftrightarrow> (\<not> slot_active s \<longrightarrow> slot_layers s = [])"

fun begun_ids :: "pacer_call list \<Rightarrow> int multiset" where
  "begun_ids [] = {#}"
| "begun_ids (PaDelivered i w d # l) = add_mset i (begun_ids l)"
| "begun_ids (_ # l) = begun_ids l"

fun retired_ids :: "pacer_call list \<Rightarrow> int multiset" where
  "retired_ids [] = {#}"
| "retired_ids (PaRetired i w # l) = add_mset i (retired_ids l)"
| "retired_ids (_ # l) = retired_ids l"

lemma begun_ids_append [simp]: "begun_ids (l @ m) = begun_ids l + begun_ids m"
  by (induction l rule: begun_ids.induct) auto

lemma retired_ids_append [simp]: "retired_ids (l @ m) = retired_ids l + retired_ids m"
  by (induction l rule: retired_ids.induct) auto

definition retire_log :: "int \<Rightarrow> slot \<Rightarrow> pacer_call list" where
  "retire_log now_ns s = (if slot_active s then [PaRetired (fd_frame_id (slot_data s)) now_ns] else [])"

lemma retire_log_ids [simp]:
  "begun_ids (retire_log now s) = {#}" "retired_ids (retire_log now s) = slot_ids s"
  by (simp_all add: retire_log_def slot_ids_def)

lemma slot_consts [simp]:
  "slot_ids cleared_slot = {#}" "slot_refs cleared_slot = {#}" "slot_ok cleared_slot" "slot_layers cleared_slot = []"
  "slot_ids zero_slot = {#}" "slot_refs zero_slot = {#}" "slot_ok zero_slot" "slot_layers zero_slot = []"
  "\<not> slot_active cleared_slot" "\<not> slot_active zero_slot" "fd_frame_id (slot_data cleared_slot) = -1"
  by (simp_all add: cleared_slot_def zero_slot_def slot_ids_def slot_refs_def slot_ok_def)

lemma slot_clear_eq:
  "slot_clear_locked now mc s =
     (mc\<lparr>pa_log := pa_log mc @ retire_log now s, xsc_refs := xsc_refs mc - slot_refs s\<rparr>, cleared_slot)"
  by (simp add: slot_clear_locked_def retire_log_def pa_call_def fold_drop_refs slot_refs_def Let_def)

lemma move_progress_eq:
  "move_progress now mc = Inr (mc\<lparr>pa_log := pa_log mc @ retire_log now (scheduled mc),
     xsc_refs := xsc_refs mc - slot_refs (scheduled mc), scheduled := progress mc, progress := cleared_slot\<rparr>)"
  by (simp add: move_progress_def slot_move_and_clear_locked_def slot_clear_eq slot_move_into_cleared_def)

lemma deliver_eq:
  "multi_compositor_deliver_any_frames display now mc =
     (if slot_active (scheduled mc) \<and>
         time_is_greater_then_or_within_half_ms display (fd_display_time_ns (slot_data (scheduled mc)))
      then Inr (mc\<lparr>pa_log := pa_log mc @ retire_log now (delivered mc),
         xsc_refs := xsc_refs mc - slot_refs (delivered mc), delivered := scheduled mc, scheduled := cleared_slot\<rparr>)
      else Inr mc)"
  by (simp add: multi_compositor_deliver_any_frames_def slot_move_and_clear_locked_def slot_clear_eq
      slot_move_into_cleared_def)

lemma deliver_ok: "\<exists>mc'. multi_compositor_deliver_any_frames display now mc = Inr mc'"
  by (simp add: deliver_eq)

lemma retire_eq:
  "multi_compositor_retire_delivered_locked now mc = mc\<lparr>pa_log := pa_log mc @ retire_log now (delivered mc),
     xsc_refs := xsc_refs mc - slot_refs (delivered mc), delivered := cleared_slot\<rparr>"
  by (simp add: multi_compositor_retire_delivered_locked_def slot_clear_eq)

text \<open>\<open>pend\<close>: the frame whose begin was marked while the client still waits for the wait thread.\<close>

definition ledger :: "int multiset \<Rightarrow> multi_compositor \<Rightarrow> bool" where
  "ledger pend mc \<longleftrightarrow>
     begun_ids (pa_log mc) = retired_ids (pa_log mc) + slot_ids (progress mc) + slot_ids (scheduled mc)
       + slot_ids (delivered mc) + pend
     \<and> xsc_refs mc = slot_refs (progress mc) + slot_refs (scheduled mc) + slot_refs (delivered mc)
     \<and> slot_ok (progress mc) \<and> slot_ok (scheduled mc) \<and> slot_ok (delivered mc)"

lemma ledger_cong:
  assumes "pa_log mc' = pa_log mc" "progress mc' = progress mc" "scheduled mc' = scheduled mc"
    "delivered mc' = delivered mc" "xsc_refs mc' = xsc_refs mc"
  shows "ledger p mc' = ledger p mc"
  using assms by (simp add: ledger_def)

lemma ledger_updates [simp]:
  "ledger p (mc\<lparr>wait_thread := w\<rparr>) = ledger p mc"
  "ledger p (mc\<lparr>slot_next_frame_display := t\<rparr>) = ledger p mc"
  "ledger p (mc\<lparr>visible := v, focused := f, z_order := z, session_active := a, is_base_session := b\<rparr>) = ledger p mc"
  by (rule ledger_cong; simp)+

lemma ledger_call:
  "begun_ids [c] = {#} \<Longrightarrow> retired_ids [c] = {#} \<Longrightarrow> ledger p (pa_call c mc) = ledger p mc"
  by (simp add: ledger_def pa_call_def)

lemma ledger_move: "ledger p mc \<Longrightarrow> move_progress now mc = Inr mc' \<Longrightarrow> ledger p mc'"
  by (auto simp: move_progress_eq ledger_def)

lemma ledger_deliver: "ledger p mc \<Longrightarrow> multi_compositor_deliver_any_frames d now mc = Inr mc' \<Longrightarrow> ledger p mc'"
  by (auto simp: deliver_eq ledger_def split: if_splits)

lemma ledger_retire: "ledger p mc \<Longrightarrow> ledger p (multi_compositor_retire_delivered_locked now mc)"
  by (auto simp: retire_eq ledger_def)

lemma ledger_start:
  assumes "ledger {#fd_frame_id d#} mc" and "\<not> slot_active (progress mc)"
  shows "\<exists>mc'. layer_begin_start d mc = Inr mc' \<and> ledger {#} mc' \<and> slot_active (progress mc')
    \<and> wait_thread mc' = wait_thread mc"
  using assms by (auto simp: layer_begin_start_def ledger_def slot_ok_def slot_ids_def slot_refs_def)

lemma ledger_layer:
  assumes "ledger p mc" and "slot_active (progress mc)"
  shows "ledger p (mc\<lparr>progress := (progress mc)\<lparr>slot_layers := slot_layers (progress mc) @ [l]\<rparr>,
    xsc_refs := xsc_refs mc + somes (le_xscs l)\<rparr>)"
  using assms by (auto simp: ledger_def slot_ok_def slot_ids_def slot_refs_def)

section \<open>The invariant of the threads\<close>

definition pending :: "client_pc \<Rightarrow> int multiset" where
  "pending pc = (case pc of InLayerBegin d \<Rightarrow> {#fd_frame_id d#} | _ \<Rightarrow> {#})"

definition pushed :: "multi_compositor \<Rightarrow> bool" where
  "pushed mc \<longleftrightarrow> wt_xcf (wait_thread mc) \<noteq> None \<or> wt_xcsem (wait_thread mc) \<noteq> None"

text \<open>
  The progress slot holds a frame exactly while the client builds or commits it, or while the
  wait thread has it.
\<close>

definition threads_ok :: "client \<Rightarrow> bool" where
  "threads_ok c \<longleftrightarrow> (let mc = cl_mc c; wt = wait_thread mc in
     (wt_waiting wt \<longleftrightarrow> cl_wt c \<noteq> WtLoop)
     \<and> (pushed mc \<longrightarrow> cl_wt c = WtLoop)
     \<and> (case cl_pc c of
          Idle \<Rightarrow> \<not> wt_blocked wt
        | InLayerBegin d \<Rightarrow> wt_blocked wt \<longrightarrow> is_pushed_or_waiting_locked mc
        | InPush \<Rightarrow> False
        | _ \<Rightarrow> \<not> wt_blocked wt \<and> \<not> is_pushed_or_waiting_locked mc)
     \<and> (\<forall>d. cl_pc c = InLayerBegin d \<and> \<not> wt_blocked wt \<longrightarrow> \<not> is_pushed_or_waiting_locked mc)
     \<and> (slot_active (progress mc) \<longleftrightarrow> cl_pc c \<in> {Building, InCommit, InMove} \<or> pushed mc
          \<or> cl_wt c = WtDone \<or> cl_wt c = WtFree \<or> (\<exists>i. cl_wt c = WtWaiting i)))"

definition client_inv :: "client \<Rightarrow> bool" where
  "client_inv c \<longleftrightarrow> threads_ok c \<and> ledger (pending (cl_pc c)) (cl_mc c)"

lemma pending_simps [simp]:
  "pending Idle = {#}" "pending (InLayerBegin d) = {#fd_frame_id d#}" "pending Building = {#}"
  "pending InCommit = {#}" "pending InMove = {#}" "pending InPush = {#}"
  by (simp_all add: pending_def)

lemma ledger_mark: "ledger {#} mc \<Longrightarrow> ledger {#fd_frame_id d#} (layer_begin_mark d now mc)"
  by (simp add: ledger_def layer_begin_mark_def pa_call_def)

lemma threads_frame:
  assumes "threads_ok c" and "wait_thread mc' = wait_thread (cl_mc c)"
    and "slot_active (progress mc') = slot_active (progress (cl_mc c))"
  shows "threads_ok (c\<lparr>cl_mc := mc'\<rparr>)"
  using assms by (cases "cl_pc c") (auto simp: threads_ok_def pushed_def is_pushed_or_waiting_locked_def Let_def)

lemmas threads_defs = threads_ok_def pushed_def is_pushed_or_waiting_locked_def Let_def

lemma client_inv_frame:
  assumes "client_inv c" and "wait_thread mc' = wait_thread (cl_mc c)"
    and "slot_active (progress mc') = slot_active (progress (cl_mc c))" and "ledger (pending (cl_pc c)) mc'"
  shows "client_inv (c\<lparr>cl_mc := mc'\<rparr>)"
  using assms threads_frame by (simp add: client_inv_def)

lemma pa_call_simps [simp]:
  "wait_thread (pa_call c mc) = wait_thread mc" "progress (pa_call c mc) = progress mc"
  "scheduled (pa_call c mc) = scheduled mc" "delivered (pa_call c mc) = delivered mc"
  by (simp_all add: pa_call_def)

lemma layer_begin_inv:
  assumes inv: "client_inv c" and pc: "cl_pc c = Idle"
  shows "\<exists>c'. try_bind (wait_for_wait_thread_locked (layer_begin_mark d now (cl_mc c))) (\<lambda>(mc, sleeps).
      if sleeps then Inr (c\<lparr>cl_mc := mc, cl_pc := InLayerBegin d\<rparr>)
      else try_bind (layer_begin_start d mc) (\<lambda>mc. Inr (c\<lparr>cl_mc := mc, cl_pc := Building\<rparr>))) = Inr c' \<and> client_inv c'"
proof -
  let ?mc = "layer_begin_mark d now (cl_mc c)"
  have led: "ledger {#fd_frame_id d#} ?mc"
    using inv pc ledger_mark by (simp add: client_inv_def)
  have wt: "wait_thread ?mc = wait_thread (cl_mc c)" "progress ?mc = progress (cl_mc c)"
    by (simp_all add: layer_begin_mark_def)
  have nb: "\<not> wt_blocked (wait_thread ?mc)"
    using inv pc wt by (simp add: client_inv_def threads_ok_def Let_def)
  show ?thesis
  proof (cases "is_pushed_or_waiting_locked ?mc")
    case True
    let ?mc2 = "?mc\<lparr>wait_thread := (wait_thread ?mc)\<lparr>wt_blocked := True\<rparr>\<rparr>"
    have "threads_ok (c\<lparr>cl_mc := ?mc2, cl_pc := InLayerBegin d\<rparr>)"
      using inv pc wt True by (auto simp: client_inv_def threads_defs)
    then show ?thesis
      using True nb led by (simp add: wait_for_wait_thread_locked_def client_inv_def)
  next
    case False
    then have "\<not> slot_active (progress ?mc)"
      using inv pc wt by (cases "cl_wt c") (auto simp: client_inv_def threads_defs)
    from ledger_start [OF led this] obtain mc2 where mc2: "layer_begin_start d ?mc = Inr mc2" "ledger {#} mc2"
      "slot_active (progress mc2)" "wait_thread mc2 = wait_thread ?mc" by blast
    then have "threads_ok (c\<lparr>cl_mc := mc2, cl_pc := Building\<rparr>)"
      using inv pc wt False nb by (auto simp: client_inv_def threads_defs)
    then show ?thesis
      using False mc2 by (simp add: wait_for_wait_thread_locked_def client_inv_def)
  qed
qed

lemma layer_begin_wakes_inv:
  assumes inv: "client_inv c" and pc: "cl_pc c = InLayerBegin d" and nb: "\<not> wt_blocked (wait_thread (cl_mc c))"
  shows "\<exists>c'. try_bind (layer_begin_start d (cl_mc c)) (\<lambda>mc. Inr (c\<lparr>cl_mc := mc, cl_pc := Building\<rparr>)) = Inr c' \<and> client_inv c'"
proof -
  have led: "ledger {#fd_frame_id d#} (cl_mc c)" using inv pc by (simp add: client_inv_def)
  have np: "\<not> is_pushed_or_waiting_locked (cl_mc c)" using inv pc nb by (simp add: client_inv_def threads_ok_def Let_def)
  then have "\<not> slot_active (progress (cl_mc c))"
    using inv pc by (cases "cl_wt c") (auto simp: client_inv_def threads_defs)
  from ledger_start [OF led this] obtain mc2 where mc2: "layer_begin_start d (cl_mc c) = Inr mc2" "ledger {#} mc2"
    "slot_active (progress mc2)" "wait_thread mc2 = wait_thread (cl_mc c)" by blast
  then have "threads_ok (c\<lparr>cl_mc := mc2, cl_pc := Building\<rparr>)"
    using inv pc np nb by (auto simp: client_inv_def threads_defs)
  then show ?thesis using mc2 by (simp add: client_inv_def)
qed

lemma commit_inv:
  assumes inv: "client_inv c" and pc: "cl_pc c = Building"
  shows "\<exists>r. multi_compositor_layer_commit fence now (cl_mc c) = Inr r \<and> client_inv (after_commit c r)"
    and "\<exists>r. multi_compositor_layer_commit_with_semaphore xcsem val (cl_mc c) = Inr r \<and> client_inv (after_commit c r)"
proof -
  have np: "\<not> is_pushed_or_waiting_locked (cl_mc c)"
    using inv pc by (simp add: client_inv_def threads_ok_def Let_def)
  then have wt: "\<not> wt_waiting (wait_thread (cl_mc c))" "wt_xcf (wait_thread (cl_mc c)) = None"
    "wt_xcsem (wait_thread (cl_mc c)) = None"
    by (simp_all add: is_pushed_or_waiting_locked_def)
  have led: "ledger {#} (cl_mc c)" using inv pc by (simp add: client_inv_def)
  show "\<exists>r. multi_compositor_layer_commit fence now (cl_mc c) = Inr r \<and> client_inv (after_commit c r)"
  proof (cases fence)
    case None
    then show ?thesis
      using inv pc led
      by (auto simp: multi_compositor_layer_commit_def after_commit_def client_inv_def threads_defs ledger_call)
  next
    case (Some f)
    then show ?thesis
      using inv pc np wt led
      by (auto simp: multi_compositor_layer_commit_def push_fence_to_wait_thread_def wait_for_wait_thread_locked_def
          after_commit_def client_inv_def threads_defs)
  qed
  show "\<exists>r. multi_compositor_layer_commit_with_semaphore xcsem val (cl_mc c) = Inr r \<and> client_inv (after_commit c r)"
    using inv pc np wt led
    by (auto simp: multi_compositor_layer_commit_with_semaphore_def push_semaphore_to_wait_thread_def
        wait_for_wait_thread_locked_def after_commit_def client_inv_def threads_defs)
qed

lemma moved_inv:
  assumes inv: "client_inv c" and mc: "move_progress now (cl_mc c) = Inr mc"
  shows "cl_pc c = InMove \<Longrightarrow> client_inv (c\<lparr>cl_mc := mc, cl_pc := Idle\<rparr>)"
    and "cl_wt c = WtFree \<Longrightarrow> client_inv (c\<lparr>cl_mc := mc, cl_wt := WtMoved\<rparr>)"
proof -
  have led: "ledger (pending (cl_pc c)) mc" using inv mc by (auto simp: client_inv_def intro: ledger_move)
  have p: "progress mc = cleared_slot" "wait_thread mc = wait_thread (cl_mc c)" using mc by (auto simp: move_progress_eq)
  show "cl_pc c = InMove \<Longrightarrow> client_inv (c\<lparr>cl_mc := mc, cl_pc := Idle\<rparr>)"
    using inv led p by (auto simp: client_inv_def threads_defs)
  show "cl_wt c = WtFree \<Longrightarrow> client_inv (c\<lparr>cl_mc := mc, cl_wt := WtMoved\<rparr>)"
    using inv led p by (auto simp: client_inv_def threads_defs split: client_pc.splits)
qed

lemma take_inv:
  assumes "client_inv c" and "cl_wt c = WtLoop" and "wait_thread_take (cl_mc c) = (mc, taken)"
  shows "client_inv (c\<lparr>cl_mc := mc, cl_wt := (case taken of None \<Rightarrow> WtLoop | Some i \<Rightarrow> WtWaiting i)\<rparr>)"
  using assms
  by (auto simp: wait_thread_take_def client_inv_def threads_defs split: client_pc.splits if_splits)

lemma release_inv:
  assumes "client_inv c" and "cl_wt c = WtMoved"
  shows "client_inv (c\<lparr>cl_mc := wait_thread_release (cl_mc c), cl_wt := WtLoop\<rparr>)"
  using assms
  by (auto simp: wait_thread_release_def client_inv_def threads_defs split: client_pc.splits)

lemma client_step_inv:
  assumes "client_step c r" and "client_inv c"
  shows "\<exists>c'. r = Inr c' \<and> client_inv c'"
  using assms
proof cases
  case (step_layer_begin d now)
  then show ?thesis using layer_begin_inv [OF assms(2)] by simp
next
  case (step_layer_begin_wakes d)
  then show ?thesis using layer_begin_wakes_inv [OF assms(2)] by simp
next
  case (step_layer call)
  from run_layer_ok [OF step_layer(3,4)] obtain l where
    l: "run_layer call (cl_mc c) = Inr ((cl_mc c)\<lparr>progress := (progress (cl_mc c))\<lparr>slot_layers :=
      slot_layers (progress (cl_mc c)) @ [l]\<rparr>, xsc_refs := xsc_refs (cl_mc c) + somes (le_xscs l)\<rparr>)" by blast
  have "slot_active (progress (cl_mc c))" using assms(2) step_layer(2) by (simp add: client_inv_def threads_ok_def Let_def)
  with assms(2) ledger_layer have "client_inv (c\<lparr>cl_mc := (cl_mc c)\<lparr>progress := (progress (cl_mc c))\<lparr>slot_layers :=
      slot_layers (progress (cl_mc c)) @ [l]\<rparr>, xsc_refs := xsc_refs (cl_mc c) + somes (le_xscs l)\<rparr>\<rparr>)"
    by (intro client_inv_frame) (auto simp: client_inv_def)
  with step_layer l show ?thesis by simp
next
  case (step_commit fence now)
  with commit_inv(1) [OF assms(2) step_commit(2), of fence now] show ?thesis by auto
next
  case (step_commit_semaphore xcsem val)
  with commit_inv(2) [OF assms(2) step_commit_semaphore(2), of xcsem val] show ?thesis by auto
next
  case (step_commit_free now)
  then show ?thesis using assms(2) by (auto simp: client_inv_def threads_defs)
next
  case (step_commit_done now)
  obtain mc where "move_progress now (cl_mc c) = Inr mc" by (simp add: move_progress_eq)
  with step_commit_done moved_inv(1) [OF assms(2)] show ?thesis by simp
next
  case (step_discard frame_id now)
  have "ledger (pending (cl_pc c)) (multi_compositor_discard_frame frame_id now (cl_mc c))"
    unfolding multi_compositor_discard_frame_def
    using assms(2) by (intro ledger_retire) (simp add: client_inv_def ledger_call)
  then have "client_inv (c\<lparr>cl_mc := multi_compositor_discard_frame frame_id now (cl_mc c)\<rparr>)"
    using assms(2) by (intro client_inv_frame) (simp_all add: multi_compositor_discard_frame_def retire_eq)
  with step_discard show ?thesis by simp
next
  case (step_take mc taken)
  then show ?thesis using take_inv [OF assms(2)] by simp
next
  case (step_gpu_done frame_id now)
  then show ?thesis
    using assms(2)
    by (auto simp: wait_thread_mark_done_def client_inv_def threads_defs ledger_call split: client_pc.splits)
next
  case (step_wait_thread_free now)
  then show ?thesis using assms(2) by (auto simp: client_inv_def threads_defs split: client_pc.splits)
next
  case (step_wait_thread_move now)
  obtain mc where "move_progress now (cl_mc c) = Inr mc" by (simp add: move_progress_eq)
  with step_wait_thread_move moved_inv(2) [OF assms(2)] show ?thesis by simp
next
  case step_wait_thread_release
  then show ?thesis using release_inv [OF assms(2)] by simp
next
  case (step_deliver display now)
  obtain mc where mc: "multi_compositor_deliver_any_frames display now (cl_mc c) = Inr mc"
    using deliver_ok by blast
  have "ledger (pending (cl_pc c)) mc"
    using assms(2) ledger_deliver [OF _ mc] by (simp add: client_inv_def)
  moreover have "wait_thread mc = wait_thread (cl_mc c) \<and> progress mc = progress (cl_mc c)"
    using mc by (auto simp: deliver_eq split: if_splits)
  ultimately have "client_inv (c\<lparr>cl_mc := mc\<rparr>)"
    using assms(2) by (intro client_inv_frame) auto
  with step_deliver mc show ?thesis by simp
next
  case (step_retire now)
  have "client_inv (c\<lparr>cl_mc := multi_compositor_retire_delivered_locked now (cl_mc c)\<rparr>)"
    using assms(2) ledger_retire by (intro client_inv_frame) (auto simp: client_inv_def retire_eq)
  with step_retire show ?thesis by simp
next
  case (step_latch now frame_id)
  have "client_inv (c\<lparr>cl_mc := multi_compositor_latch_frame_locked now frame_id (cl_mc c)\<rparr>)"
    using assms(2)
    by (intro client_inv_frame) (auto simp: client_inv_def multi_compositor_latch_frame_locked_def ledger_call)
  with step_latch show ?thesis by simp
next
  case (step_next_display t)
  have "client_inv (c\<lparr>cl_mc := (cl_mc c)\<lparr>slot_next_frame_display := t\<rparr>\<rparr>)"
    using assms(2) by (intro client_inv_frame) (simp_all add: client_inv_def)
  with step_next_display show ?thesis by simp
next
  case (step_state b a z f v)
  have "client_inv (c\<lparr>cl_mc := (cl_mc c)\<lparr>visible := v, focused := f, z_order := z, session_active := a, is_base_session := b\<rparr>\<rparr>)"
    using assms(2) by (intro client_inv_frame) (simp_all add: client_inv_def)
  with step_state show ?thesis by simp
qed

lemma client_reach_inv: "client_reach c \<Longrightarrow> client_inv c"
proof (induction rule: client_reach.induct)
  case (reach_new is_overlay)
  then show ?case
    by (simp add: client_inv_def threads_defs ledger_def new_multi_compositor_def)
next
  case (reach_step c c')
  from client_step_inv [OF reach_step.hyps(2) reach_step.IH] show ?case by auto
qed

lemma destroy_slots_ledger:
  assumes "ledger {#} mc"
  shows "retired_ids (pa_log (destroy_slots now mc)) = begun_ids (pa_log (destroy_slots now mc))
    \<and> xsc_refs (destroy_slots now mc) = {#}
    \<and> slot_ids (progress (destroy_slots now mc)) + slot_ids (scheduled (destroy_slots now mc))
        + slot_ids (delivered (destroy_slots now mc)) = {#}"
  using assms by (simp add: destroy_slots_def slot_clear_eq ledger_def ac_simps)

definition fresh_client :: client where
  "fresh_client = \<lparr>cl_mc = new_multi_compositor False, cl_pc = Idle, cl_wt = WtLoop\<rparr>"

text \<open>A run that puts a client to sleep: begin, commit with a fence, begin the next frame.\<close>

lemma client_falls_asleep:
  "\<exists>c. client_reach c \<and> cl_pc c = InLayerBegin zero_frame_data \<and> wt_blocked (wait_thread (cl_mc c))"
proof -
  have r0: "client_reach fresh_client" unfolding fresh_client_def by (rule reach_new)
  define c1 where "c1 = fresh_client\<lparr>cl_mc := (layer_begin_mark zero_frame_data 5 (new_multi_compositor False))
    \<lparr>progress := zero_slot\<lparr>slot_active := True, slot_data := zero_frame_data\<rparr>\<rparr>, cl_pc := Building\<rparr>"
  have "client_step fresh_client (Inr c1)"
    using step_layer_begin [of fresh_client zero_frame_data 5]
    by (simp add: fresh_client_def c1_def wait_for_wait_thread_locked_def is_pushed_or_waiting_locked_def
        layer_begin_mark_def pa_call_def new_multi_compositor_def layer_begin_start_def)
  with r0 have r1: "client_reach c1" by (rule reach_step)
  define c2 where "c2 = c1\<lparr>cl_mc := (cl_mc c1)\<lparr>wait_thread := (wait_thread (cl_mc c1))\<lparr>wt_frame_id := 0, wt_xcf := Some 7\<rparr>\<rparr>,
    cl_pc := Idle\<rparr>"
  have "client_step c1 (Inr c2)"
    using step_commit [of c1 "Some 7" 6]
    by (simp add: c1_def c2_def fresh_client_def multi_compositor_layer_commit_def push_fence_to_wait_thread_def
        wait_for_wait_thread_locked_def is_pushed_or_waiting_locked_def layer_begin_mark_def pa_call_def
        new_multi_compositor_def after_commit_def zero_frame_data_def)
  with r1 have r2: "client_reach c2" by (rule reach_step)
  define c3 where "c3 = c2\<lparr>cl_mc := (layer_begin_mark zero_frame_data 8 (cl_mc c2))
    \<lparr>wait_thread := (wait_thread (cl_mc c2))\<lparr>wt_blocked := True\<rparr>\<rparr>, cl_pc := InLayerBegin zero_frame_data\<rparr>"
  have "client_step c2 (Inr c3)"
    using step_layer_begin [of c2 zero_frame_data 8]
    by (simp add: c1_def c2_def c3_def fresh_client_def wait_for_wait_thread_locked_def is_pushed_or_waiting_locked_def
        layer_begin_mark_def pa_call_def new_multi_compositor_def)
  with r2 have "client_reach c3" by (rule reach_step)
  then show ?thesis by (intro exI [of _ c3]) (simp add: c3_def)
qed

section \<open>Properties\<close>



text \<open>C14. Every frame that a client has begun is retired with the application pacer exactly once: in
  every reachable state the begun frames are the retired ones, those in the three slots and the
  one whose begin is still waiting; the swapchain references held are those of the layers in the
  slots; and destroying the compositor retires every frame left and drops every reference.\<close>

theorem multi_client_frame_ledger:
  assumes "client_reach c"
  shows "begun_ids (pa_log (cl_mc c)) = retired_ids (pa_log (cl_mc c)) + slot_ids (progress (cl_mc c))
      + slot_ids (scheduled (cl_mc c)) + slot_ids (delivered (cl_mc c))
      + (case cl_pc c of InLayerBegin d \<Rightarrow> {#fd_frame_id d#} | _ \<Rightarrow> {#})
    \<and> xsc_refs (cl_mc c) = slot_refs (progress (cl_mc c)) + slot_refs (scheduled (cl_mc c)) + slot_refs (delivered (cl_mc c))
    \<and> (cl_pc c \<in> {Idle, Building, InCommit, InMove} \<longrightarrow>
        retired_ids (pa_log (destroy_slots now (cl_mc c))) = begun_ids (pa_log (destroy_slots now (cl_mc c)))
        \<and> xsc_refs (destroy_slots now (cl_mc c)) = {#})"
proof -
  have l: "ledger (pending (cl_pc c)) (cl_mc c)"
    using client_reach_inv [OF assms] by (simp add: client_inv_def)
  have "ledger {#} (cl_mc c)" if "cl_pc c \<in> {Idle, Building, InCommit, InMove}"
    using l that by auto
  with l destroy_slots_ledger show ?thesis
    by (auto simp: ledger_def pending_def)
qed

theorem multi_client_frame_ledger_witness:
  "\<exists>c. client_reach c \<and> cl_pc c = InLayerBegin zero_frame_data
     \<and> begun_ids (pa_log (cl_mc c)) = retired_ids (pa_log (cl_mc c)) + slot_ids (progress (cl_mc c))
       + slot_ids (scheduled (cl_mc c)) + slot_ids (delivered (cl_mc c)) + {#0#}"
proof -
  obtain c where c: "client_reach c" "cl_pc c = InLayerBegin zero_frame_data" using client_falls_asleep by blast
  with multi_client_frame_ledger [OF c(1), of 0] show ?thesis
    by (intro exI [of _ c]) (simp add: zero_frame_data_def)
qed

definition wakes_path :: "client \<Rightarrow> client \<Rightarrow> bool" where
  "wakes_path c c' \<longleftrightarrow> client_step c (Inr c') \<and> cl_pc c' = cl_pc c"

lemma path_release:
  assumes "cl_wt c = WtMoved"
  shows "\<exists>c'. wakes_path\<^sup>*\<^sup>* c c' \<and> \<not> wt_blocked (wait_thread (cl_mc c'))"
proof -
  let ?c = "c\<lparr>cl_mc := wait_thread_release (cl_mc c), cl_wt := WtLoop\<rparr>"
  have "wakes_path c ?c" using step_wait_thread_release [OF assms] by (simp add: wakes_path_def)
  moreover have "\<not> wt_blocked (wait_thread (cl_mc ?c))" by (simp add: wait_thread_release_def Let_def)
  ultimately show ?thesis by blast
qed

lemma path_move:
  assumes "cl_wt c = WtFree"
  shows "\<exists>c'. wakes_path\<^sup>*\<^sup>* c c' \<and> \<not> wt_blocked (wait_thread (cl_mc c'))"
proof -
  obtain mc where mc: "move_progress 0 (cl_mc c) = Inr mc" by (simp add: move_progress_eq)
  from step_wait_thread_move [OF assms, of 0] mc have "wakes_path c (c\<lparr>cl_mc := mc, cl_wt := WtMoved\<rparr>)"
    by (simp add: wakes_path_def)
  moreover obtain c' where "wakes_path\<^sup>*\<^sup>* (c\<lparr>cl_mc := mc, cl_wt := WtMoved\<rparr>) c'" "\<not> wt_blocked (wait_thread (cl_mc c'))"
    using path_release [of "c\<lparr>cl_mc := mc, cl_wt := WtMoved\<rparr>"] by auto
  ultimately show ?thesis by (meson converse_rtranclp_into_rtranclp)
qed

lemma path_free:
  assumes "cl_wt c = WtDone"
  shows "\<exists>c'. wakes_path\<^sup>*\<^sup>* c c' \<and> \<not> wt_blocked (wait_thread (cl_mc c'))"
proof -
  let ?now = "fd_display_time_ns (slot_data (scheduled (cl_mc c))) + 1"
  have "scheduled_free ?now (cl_mc c)" by (simp add: scheduled_free_def)
  from step_wait_thread_free [OF assms this] have "wakes_path c (c\<lparr>cl_wt := WtFree\<rparr>)"
    by (simp add: wakes_path_def)
  moreover obtain c' where "wakes_path\<^sup>*\<^sup>* (c\<lparr>cl_wt := WtFree\<rparr>) c'" "\<not> wt_blocked (wait_thread (cl_mc c'))"
    using path_move [of "c\<lparr>cl_wt := WtFree\<rparr>"] by auto
  ultimately show ?thesis by (meson converse_rtranclp_into_rtranclp)
qed

lemma path_wait:
  assumes "cl_wt c = WtWaiting i"
  shows "\<exists>c'. wakes_path\<^sup>*\<^sup>* c c' \<and> \<not> wt_blocked (wait_thread (cl_mc c'))"
proof -
  let ?c = "c\<lparr>cl_mc := wait_thread_mark_done i 0 (cl_mc c), cl_wt := WtDone\<rparr>"
  have "wakes_path c ?c" using step_gpu_done [OF assms] by (simp add: wakes_path_def)
  moreover obtain c' where "wakes_path\<^sup>*\<^sup>* ?c c'" "\<not> wt_blocked (wait_thread (cl_mc c'))"
    using path_free [of ?c] by auto
  ultimately show ?thesis by (meson converse_rtranclp_into_rtranclp)
qed

text \<open>No wake-up is lost between the client and its wait thread: a client that sleeps in
  \<^verbatim>\<open>multi_compositor_layer_begin\<close> with its blocked flag set can always be woken by steps that leave
  it asleep (its wait thread waits for the GPU, moves the frame and releases it).\<close>

lemma layer_begin_always_woken:
  assumes "client_reach c" and "cl_pc c = InLayerBegin d"
  shows "\<exists>c'. wakes_path\<^sup>*\<^sup>* c c' \<and> \<not> wt_blocked (wait_thread (cl_mc c'))"
proof (cases "wt_blocked (wait_thread (cl_mc c))")
  case False
  then show ?thesis by blast
next
  case True
  have t: "threads_ok c" using client_reach_inv [OF assms(1)] by (simp add: client_inv_def)
  show ?thesis
  proof (cases "cl_wt c")
    case WtLoop
    with t True assms(2) have "pushed (cl_mc c)" by (auto simp: threads_defs)
    then obtain mc i where tk: "wait_thread_take (cl_mc c) = (mc, Some i)"
      by (auto simp: wait_thread_take_def pushed_def Let_def)
    have "wakes_path c (c\<lparr>cl_mc := mc, cl_wt := WtWaiting i\<rparr>)"
      using step_take [OF WtLoop tk] by (simp add: wakes_path_def)
    moreover obtain c' where "wakes_path\<^sup>*\<^sup>* (c\<lparr>cl_mc := mc, cl_wt := WtWaiting i\<rparr>) c'"
      "\<not> wt_blocked (wait_thread (cl_mc c'))"
      using path_wait [of "c\<lparr>cl_mc := mc, cl_wt := WtWaiting i\<rparr>"] by auto
    ultimately show ?thesis by (meson converse_rtranclp_into_rtranclp)
  qed (use path_wait path_free path_move path_release in blast)+
qed

end
