(* ===== verification/Multi_System.thy ===== *)
theory Multi_System
  imports Multi_Compositor
begin

text \<open>
  The system side of the multi-client compositor, \<^verbatim>\<open>compositor/multi/comp_multi_system.c\<close>, and
  the session, creation and destruction functions of \<^verbatim>\<open>comp_multi_compositor.c\<close> that share its
  state: the list of clients, the count of active sessions and the session of the native
  compositor. Client objects live in a heap; calls on the native compositor and events pushed to
  clients are recorded in logs. \<^verbatim>\<open>qsort\<close> is a parameter: the C standard promises a sorted
  permutation, not a stable one.
\<close>

section \<open>State\<close>

datatype multi_system_state =
    MULTI_SYSTEM_STATE_INVALID
  | MULTI_SYSTEM_STATE_INIT_WARM_START
  | MULTI_SYSTEM_STATE_STOPPED
  | MULTI_SYSTEM_STATE_RUNNING
  | MULTI_SYSTEM_STATE_STOPPING

datatype native_call =
    NcBeginSession
  | NcEndSession
  | NcPredictFrame
  | NcWoke int int
  | NcBeginFrame int
  | NcLayerBegin frame_data
  | NcLayerProjection xdev "xsc option list" layer_data
  | NcLayerProjectionDepth xdev "xsc option list" "xsc option list" layer_data
  | NcLayerQuad xdev xsc layer_data
  | NcLayerCube xdev xsc layer_data
  | NcLayerCylinder xdev xsc layer_data
  | NcLayerEquirect1 xdev xsc layer_data
  | NcLayerEquirect2 xdev xsc layer_data
  | NcLayerCommit

datatype session_event =
    StateChange bool bool int
  | OverlayChange bool
  | LossPending int
  | Lost
  | DisplayRefreshRateChange "32 word" "32 word"

record last_timings =
  lt_predicted_display_time_ns :: int
  lt_predicted_display_period_ns :: int
  lt_diff_ns :: int

record msys =
  ms_heap :: "nat \<Rightarrow> multi_compositor option"
  ms_clients :: "nat option list"
  ms_active_count :: "32 word"
  ms_state :: multi_system_state
  ms_chroma_key :: chroma_key
  ms_last_timings :: last_timings
  ms_locked :: bool                     \<comment> \<open>\<^verbatim>\<open>list_and_timing_lock\<close>\<close>
  ms_native :: "native_call list"
  ms_events :: "(nat \<times> session_event) list"

definition MULTI_MAX_CLIENTS :: nat where "MULTI_MAX_CLIENTS = 64"

definition native :: "native_call \<Rightarrow> msys \<Rightarrow> msys" where
  "native c ms = ms\<lparr>ms_native := ms_native ms @ [c]\<rparr>"

definition os_mutex_lock :: "msys \<Rightarrow> msys" where
  "os_mutex_lock ms = ms\<lparr>ms_locked := True\<rparr>"

definition os_mutex_unlock :: "msys \<Rightarrow> fault + msys" where
  "os_mutex_unlock ms = (if ms_locked ms then Inr (ms\<lparr>ms_locked := False\<rparr>) else Inl MutexNotHeld)"

section \<open>Submitting one layer\<close>

text \<open>\<open>None\<close>: the layer is skipped.\<close>

primrec all_views :: "nat \<Rightarrow> nat \<Rightarrow> xsc option list \<Rightarrow> fault + bool" where
  "all_views off 0 xscs = Inr True"
| "all_views off (Suc n) xscs = try_bind (all_views off n xscs) (\<lambda>ok.
     if \<not> ok then Inr False else try_bind (arr_get xscs (n + off)) (\<lambda>x. Inr (x \<noteq> None)))"

definition do_projection_layer :: "layer_entry \<Rightarrow> fault + native_call option" where
  "do_projection_layer layer =
     try_bind (all_views 0 (ld_view_count (le_data layer)) (le_xscs layer)) (\<lambda>ok.
       if \<not> ok then Inr None
       else case le_xdev layer of
         None \<Rightarrow> Inr None
       | Some xdev \<Rightarrow> Inr (Some (NcLayerProjection xdev (le_xscs layer) (le_data layer))))"

text \<open>The loop copies into two local arrays of \<^verbatim>\<open>XRT_MAX_VIEWS\<close> entries.\<close>

primrec copy_views ::
  "nat \<Rightarrow> nat \<Rightarrow> xsc option list \<Rightarrow> fault + (xsc option list \<times> xsc option list) option" where
  "copy_views vc 0 xscs = Inr (Some ([], []))"
| "copy_views vc (Suc n) xscs = try_bind (copy_views vc n xscs) (\<lambda>r. case r of
     None \<Rightarrow> Inr None
   | Some (xsc, d_xsc) \<Rightarrow>
       if n < XRT_MAX_VIEWS then
         try_bind (arr_get xscs n) (\<lambda>x.
         try_bind (arr_get xscs (n + vc)) (\<lambda>d.
           if x = None \<or> d = None then Inr None else Inr (Some (xsc @ [x], d_xsc @ [d]))))
       else Inl OutOfBounds)"

definition do_projection_layer_depth :: "layer_entry \<Rightarrow> fault + native_call option" where
  "do_projection_layer_depth layer =
     try_bind (copy_views (ld_view_count (le_data layer)) (ld_view_count (le_data layer)) (le_xscs layer)) (\<lambda>r.
       case r of None \<Rightarrow> Inr None
       | Some (xsc, d_xsc) \<Rightarrow> (case le_xdev layer of
           None \<Rightarrow> Inr None
         | Some xdev \<Rightarrow> Inr (Some (NcLayerProjectionDepth xdev xsc d_xsc (le_data layer)))))"

definition do_single :: "layer_entry \<Rightarrow> fault + (xdev \<times> xsc \<times> layer_data) option" where
  "do_single layer = try_bind (arr_get (le_xscs layer) 0) (\<lambda>xcs.
     case (xcs, le_xdev layer) of
       (Some xcs, Some xdev) \<Rightarrow> Inr (Some (xdev, xcs, le_data layer))
     | _ \<Rightarrow> Inr None)"

definition do_quad_layer :: "layer_entry \<Rightarrow> fault + native_call option" where
  "do_quad_layer layer = try_bind (do_single layer) (\<lambda>r. Inr (map_option (\<lambda>(xdev, xcs, d). NcLayerQuad xdev xcs d) r))"

definition do_cube_layer :: "layer_entry \<Rightarrow> fault + native_call option" where
  "do_cube_layer layer = try_bind (do_single layer) (\<lambda>r. Inr (map_option (\<lambda>(xdev, xcs, d). NcLayerCube xdev xcs d) r))"

definition do_cylinder_layer :: "layer_entry \<Rightarrow> fault + native_call option" where
  "do_cylinder_layer layer =
     try_bind (do_single layer) (\<lambda>r. Inr (map_option (\<lambda>(xdev, xcs, d). NcLayerCylinder xdev xcs d) r))"

definition do_equirect1_layer :: "layer_entry \<Rightarrow> fault + native_call option" where
  "do_equirect1_layer layer =
     try_bind (do_single layer) (\<lambda>r. Inr (map_option (\<lambda>(xdev, xcs, d). NcLayerEquirect1 xdev xcs d) r))"

definition do_equirect2_layer :: "layer_entry \<Rightarrow> fault + native_call option" where
  "do_equirect2_layer layer =
     try_bind (do_single layer) (\<lambda>r. Inr (map_option (\<lambda>(xdev, xcs, d). NcLayerEquirect2 xdev xcs d) r))"

definition do_layer :: "layer_entry \<Rightarrow> fault + native_call option" where
  "do_layer layer = (case ld_type (le_data layer) of
      XRT_LAYER_PROJECTION \<Rightarrow> do_projection_layer layer
    | XRT_LAYER_PROJECTION_DEPTH \<Rightarrow> do_projection_layer_depth layer
    | XRT_LAYER_QUAD \<Rightarrow> do_quad_layer layer
    | XRT_LAYER_CUBE \<Rightarrow> do_cube_layer layer
    | XRT_LAYER_CYLINDER \<Rightarrow> do_cylinder_layer layer
    | XRT_LAYER_EQUIRECT1 \<Rightarrow> do_equirect1_layer layer
    | XRT_LAYER_EQUIRECT2 \<Rightarrow> do_equirect2_layer layer
    | _ \<Rightarrow> Inr None)"

section \<open>Collecting and sorting the clients\<close>

definition overlay_sort_func :: "(nat \<Rightarrow> multi_compositor option) \<Rightarrow> nat \<Rightarrow> nat \<Rightarrow> int" where
  "overlay_sort_func h a b = (
     let za = z_order (the (h a)); zb = z_order (the (h b))
     in if za < zb then -1 else if za > zb then 1 else 0)"

fun find_active_blend_mode_from ::
  "multi_compositor option \<Rightarrow> multi_compositor list \<Rightarrow> fault + xrt_blend_mode" where
  "find_active_blend_mode_from first_visible [] = Inr (case first_visible of
     Some mc \<Rightarrow> fd_env_blend_mode (slot_data (delivered mc)) | None \<Rightarrow> XRT_BLEND_MODE_OPAQUE)"
| "find_active_blend_mode_from first_visible (mc # mcs) = (
     if focused mc then
       try_bind (c_assert (visible mc)) (\<lambda>_. Inr (fd_env_blend_mode (slot_data (delivered mc))))
     else find_active_blend_mode_from
       (if first_visible = None \<and> visible mc then Some mc else first_visible) mcs)"

definition find_active_blend_mode :: "multi_compositor list \<Rightarrow> fault + xrt_blend_mode" where
  "find_active_blend_mode mcs = find_active_blend_mode_from None mcs"

text \<open>
  One round of the first loop: frames are delivered in any case; the delivered frame of a client
  that is hidden or has no session is retired, any other client is latched and collected.
\<close>

definition collect_client ::
  "int \<Rightarrow> int \<Rightarrow> int \<Rightarrow> nat option \<Rightarrow> (nat \<Rightarrow> multi_compositor option) \<times> nat list
    \<Rightarrow> fault + ((nat \<Rightarrow> multi_compositor option) \<times> nat list)" where
  "collect_client display_time_ns system_frame_id now_ns c st = (case st of (h, arr) \<Rightarrow> (case c of
     None \<Rightarrow> Inr (h, arr)
   | Some p \<Rightarrow>
     try_bind (deref h p) (\<lambda>mc.
     try_bind (multi_compositor_deliver_any_frames display_time_ns now_ns mc) (\<lambda>mc.
       if \<not> slot_active (delivered mc) then Inr (h(p \<mapsto> mc), arr)
       else if \<not> visible mc then
         Inr (h(p \<mapsto> multi_compositor_retire_delivered_locked now_ns mc), arr)
       else if \<not> session_active mc then
         Inr (h(p \<mapsto> multi_compositor_retire_delivered_locked now_ns mc), arr)
       else
         Inr (h(p \<mapsto> multi_compositor_latch_frame_locked now_ns system_frame_id mc), arr @ [p])))))"

primrec collect_clients ::
  "int \<Rightarrow> int \<Rightarrow> int \<Rightarrow> nat option list \<Rightarrow> (nat \<Rightarrow> multi_compositor option) \<times> nat list
    \<Rightarrow> fault + ((nat \<Rightarrow> multi_compositor option) \<times> nat list)" where
  "collect_clients dt sid now [] st = Inr st"
| "collect_clients dt sid now (c # cs) st =
     try_bind (collect_client dt sid now c st) (\<lambda>st. collect_clients dt sid now cs st)"

definition is_base :: "multi_compositor \<Rightarrow> bool" where
  "is_base mc \<longleftrightarrow> is_base_session mc \<and> visible mc \<and> session_active mc \<and> slot_active (delivered mc)"

text \<open>\<^verbatim>\<open>curve > 0.f\<close> on the bits of the float: positive, not zero and not a NaN.\<close>

definition float_positive :: "32 word \<Rightarrow> bool" where
  "float_positive w \<longleftrightarrow> 0 < w \<and> w \<le> 0x7F800000"

definition key_layer :: "chroma_key \<Rightarrow> layer_entry \<Rightarrow> layer_entry" where
  "key_layer key l = (
     if ld_type (le_data l) = XRT_LAYER_PROJECTION \<or> ld_type (le_data l) = XRT_LAYER_PROJECTION_DEPTH
     then l\<lparr>le_data := (le_data l)\<lparr>ld_chroma_key := key\<rparr>\<rparr> else l)"

definition key_client :: "chroma_key \<Rightarrow> multi_compositor \<Rightarrow> multi_compositor" where
  "key_client key mc = mc\<lparr>delivered := (delivered mc)\<lparr>
     slot_data := (slot_data (delivered mc))\<lparr>fd_env_blend_mode := XRT_BLEND_MODE_ALPHA_BLEND\<rparr>,
     slot_layers := map (key_layer key) (slot_layers (delivered mc))\<rparr>\<rparr>"

definition apply_chroma_key ::
  "chroma_key \<Rightarrow> nat list \<Rightarrow> (nat \<Rightarrow> multi_compositor option) \<Rightarrow> (nat \<Rightarrow> multi_compositor option)" where
  "apply_chroma_key key arr h = (
     case find (\<lambda>p. is_base (the (h p))) arr of
       Some p \<Rightarrow> if float_positive (curve key) then h(p \<mapsto> key_client key (the (h p))) else h
     | None \<Rightarrow> h)"

primrec submit_slot :: "layer_entry list \<Rightarrow> native_call list \<Rightarrow> fault + native_call list" where
  "submit_slot [] log = Inr log"
| "submit_slot (l # ls) log = try_bind (do_layer l) (\<lambda>r.
     submit_slot ls (case r of None \<Rightarrow> log | Some c \<Rightarrow> log @ [c]))"

primrec submit_clients ::
  "(nat \<Rightarrow> multi_compositor option) \<Rightarrow> nat list \<Rightarrow> native_call list \<Rightarrow> fault + native_call list" where
  "submit_clients h [] log = Inr log"
| "submit_clients h (p # ps) log = try_bind (deref h p) (\<lambda>mc.
     try_bind (submit_slot (slot_layers (delivered mc)) log) (\<lambda>log. submit_clients h ps log))"

definition transfer_layers_locked ::
  "((nat \<Rightarrow> nat \<Rightarrow> int) \<Rightarrow> nat list \<Rightarrow> nat list) \<Rightarrow> int \<Rightarrow> int \<Rightarrow> int \<Rightarrow> msys \<Rightarrow> fault + msys" where
  "transfer_layers_locked qs display_time_ns system_frame_id now_ns ms =
     try_bind (collect_clients display_time_ns system_frame_id now_ns (ms_clients ms) (ms_heap ms, [])) (\<lambda>(h, arr).
       let arr = qs (overlay_sort_func h) arr;
           h = apply_chroma_key (ms_chroma_key ms) arr h
       in try_bind (find_active_blend_mode (map (\<lambda>p. the (h p)) arr)) (\<lambda>blend_mode.
          let data = \<lparr>fd_frame_id = system_frame_id, fd_display_time_ns = display_time_ns,
                fd_env_blend_mode = blend_mode\<rparr>
          in try_bind (submit_clients h arr (ms_native ms @ [NcLayerBegin data])) (\<lambda>log.
             Inr (ms\<lparr>ms_heap := h, ms_native := log\<rparr>))))"

section \<open>Timings\<close>

definition next_display :: "int \<Rightarrow> multi_compositor \<Rightarrow> multi_compositor" where
  "next_display t mc = mc\<lparr>slot_next_frame_display := t\<rparr>"

primrec for_clients ::
  "(multi_compositor \<Rightarrow> multi_compositor) \<Rightarrow> nat option list \<Rightarrow> (nat \<Rightarrow> multi_compositor option)
    \<Rightarrow> fault + (nat \<Rightarrow> multi_compositor option)" where
  "for_clients f [] h = Inr h"
| "for_clients f (c # cs) h = (case c of
     None \<Rightarrow> for_clients f cs h
   | Some p \<Rightarrow> try_bind (deref h p) (\<lambda>mc. for_clients f cs (h(p \<mapsto> f mc))))"

definition broadcast_timings_to_clients :: "int \<Rightarrow> msys \<Rightarrow> fault + msys" where
  "broadcast_timings_to_clients predicted_display_time_ns ms =
     try_bind (for_clients (next_display predicted_display_time_ns) (ms_clients ms) (ms_heap (os_mutex_lock ms))) (\<lambda>h.
       os_mutex_unlock (os_mutex_lock ms\<lparr>ms_heap := h\<rparr>))"

definition broadcast_timings_to_pacers :: "int \<Rightarrow> int \<Rightarrow> int \<Rightarrow> msys \<Rightarrow> fault + msys" where
  "broadcast_timings_to_pacers predicted_display_time_ns predicted_display_period_ns diff_ns ms =
     try_bind (for_clients
       (\<lambda>mc. next_display predicted_display_time_ns
         (pa_call (PaInfo predicted_display_time_ns predicted_display_period_ns diff_ns) mc))
       (ms_clients ms) (ms_heap (os_mutex_lock ms))) (\<lambda>h.
       os_mutex_unlock (os_mutex_lock ms\<lparr>ms_heap := h,
         ms_last_timings := \<lparr>lt_predicted_display_time_ns = predicted_display_time_ns,
           lt_predicted_display_period_ns = predicted_display_period_ns, lt_diff_ns = diff_ns\<rparr>\<rparr>))"

section \<open>The render thread\<close>

definition update_session_state_locked :: "msys \<Rightarrow> fault + msys" where
  "update_session_state_locked ms = (case ms_state ms of
      MULTI_SYSTEM_STATE_INIT_WARM_START \<Rightarrow>
        Inr (native NcBeginSession (ms\<lparr>ms_state := MULTI_SYSTEM_STATE_STOPPING\<rparr>))
    | MULTI_SYSTEM_STATE_STOPPED \<Rightarrow>
        if ms_active_count ms = 0 then Inr ms
        else Inr (native NcBeginSession (ms\<lparr>ms_state := MULTI_SYSTEM_STATE_RUNNING\<rparr>))
    | MULTI_SYSTEM_STATE_RUNNING \<Rightarrow>
        if ms_active_count ms > 0 then Inr ms
        else Inr (ms\<lparr>ms_state := MULTI_SYSTEM_STATE_STOPPING\<rparr>)
    | MULTI_SYSTEM_STATE_STOPPING \<Rightarrow>
        if ms_active_count ms > 0 then Inr (ms\<lparr>ms_state := MULTI_SYSTEM_STATE_RUNNING\<rparr>)
        else Inr (native NcEndSession (ms\<lparr>ms_state := MULTI_SYSTEM_STATE_STOPPED\<rparr>))
    | MULTI_SYSTEM_STATE_INVALID \<Rightarrow> Inl AssertFailed)"

text \<open>The answers of the native compositor and the clock to one frame.\<close>

record frame_env =
  fe_frame_id :: int
  fe_display_time_ns :: int
  fe_period_ns :: int
  fe_woke_ns :: int
  fe_now_ns :: int
  fe_latch_ns :: int

text \<open>The three stretches of the loop body between which the render thread holds no lock.\<close>

definition loop_predict :: "frame_env \<Rightarrow> msys \<Rightarrow> fault + msys" where
  "loop_predict fe ms = broadcast_timings_to_clients (fe_display_time_ns fe) (native NcPredictFrame ms)"

definition loop_wait :: "frame_env \<Rightarrow> msys \<Rightarrow> fault + msys" where
  "loop_wait fe ms =
     broadcast_timings_to_pacers (fe_display_time_ns fe) (fe_period_ns fe) (fe_display_time_ns fe - fe_now_ns fe)
       (native (NcWoke (fe_frame_id fe) (fe_woke_ns fe)) ms)"

definition loop_transfer ::
  "((nat \<Rightarrow> nat \<Rightarrow> int) \<Rightarrow> nat list \<Rightarrow> nat list) \<Rightarrow> frame_env \<Rightarrow> msys \<Rightarrow> fault + msys" where
  "loop_transfer qs fe ms =
     try_bind (transfer_layers_locked qs (fe_display_time_ns fe) (fe_frame_id fe) (fe_latch_ns fe)
       (os_mutex_lock (native (NcBeginFrame (fe_frame_id fe)) ms))) (\<lambda>ms.
     try_bind (os_mutex_unlock ms) (\<lambda>ms. Inr (native NcLayerCommit ms)))"

definition main_loop_cleanup :: "msys \<Rightarrow> msys" where
  "main_loop_cleanup ms = (case ms_state ms of
      MULTI_SYSTEM_STATE_RUNNING \<Rightarrow> native NcEndSession ms
    | MULTI_SYSTEM_STATE_STOPPING \<Rightarrow> native NcEndSession ms
    | MULTI_SYSTEM_STATE_STOPPED \<Rightarrow> ms
    | MULTI_SYSTEM_STATE_INIT_WARM_START \<Rightarrow> native NcEndSession ms
    | MULTI_SYSTEM_STATE_INVALID \<Rightarrow> native NcEndSession ms)"

section \<open>The interface to the state tracker and to the service\<close>

definition with_client :: "nat \<Rightarrow> (multi_compositor \<Rightarrow> fault + multi_compositor) \<Rightarrow> msys \<Rightarrow> fault + msys" where
  "with_client p f ms = try_bind (deref (ms_heap ms) p) (\<lambda>mc.
     try_bind (f mc) (\<lambda>mc. Inr (ms\<lparr>ms_heap := (ms_heap ms)(p \<mapsto> mc)\<rparr>)))"

definition multi_compositor_push_event :: "nat \<Rightarrow> session_event \<Rightarrow> msys \<Rightarrow> msys" where
  "multi_compositor_push_event p e ms = ms\<lparr>ms_events := ms_events ms @ [(p, e)]\<rparr>"

definition system_compositor_set_state :: "nat \<Rightarrow> bool \<Rightarrow> bool \<Rightarrow> int \<Rightarrow> msys \<Rightarrow> fault + msys" where
  "system_compositor_set_state p vis foc timestamp_ns ms =
     try_bind (deref (ms_heap ms) p) (\<lambda>mc.
       if visible mc \<noteq> vis \<or> focused mc \<noteq> foc then
         Inr (multi_compositor_push_event p (StateChange vis foc timestamp_ns)
           (ms\<lparr>ms_heap := (ms_heap ms)(p \<mapsto> mc\<lparr>visible := vis, focused := foc\<rparr>)\<rparr>))
       else Inr ms)"

definition system_compositor_set_z_order :: "nat \<Rightarrow> int \<Rightarrow> msys \<Rightarrow> fault + msys" where
  "system_compositor_set_z_order p z ms =
     try_bind (with_client p (\<lambda>mc. Inr (mc\<lparr>z_order := z\<rparr>)) ms) (\<lambda>ms. os_mutex_unlock ms)"

definition system_compositor_set_base_chroma_key_params ::
  "32 word list \<Rightarrow> 32 word list \<Rightarrow> 32 word \<Rightarrow> 32 word \<Rightarrow> msys \<Rightarrow> fault + msys" where
  "system_compositor_set_base_chroma_key_params mn mx cv ds ms =
     os_mutex_unlock (os_mutex_lock ms\<lparr>ms_chroma_key :=
       \<lparr>hsv_min = mn, hsv_max = mx, curve = cv, despill = ds\<rparr>\<rparr>)"

definition system_compositor_set_main_app_visibility :: "nat \<Rightarrow> bool \<Rightarrow> msys \<Rightarrow> fault + msys" where
  "system_compositor_set_main_app_visibility p vis ms =
     try_bind (with_client p (\<lambda>mc. Inr (mc\<lparr>is_base_session := vis\<rparr>)) ms) (\<lambda>ms.
       Inr (multi_compositor_push_event p (OverlayChange vis) ms))"

definition system_compositor_notify_loss_pending :: "nat \<Rightarrow> int \<Rightarrow> msys \<Rightarrow> msys" where
  "system_compositor_notify_loss_pending p t ms = multi_compositor_push_event p (LossPending t) ms"

definition system_compositor_notify_lost :: "nat \<Rightarrow> msys \<Rightarrow> msys" where
  "system_compositor_notify_lost p ms = multi_compositor_push_event p Lost ms"

definition system_compositor_notify_display_refresh_changed :: "nat \<Rightarrow> 32 word \<Rightarrow> 32 word \<Rightarrow> msys \<Rightarrow> msys" where
  "system_compositor_notify_display_refresh_changed p from_hz to_hz ms =
     multi_compositor_push_event p (DisplayRefreshRateChange from_hz to_hz) ms"

definition multi_system_compositor_update_session_status :: "bool \<Rightarrow> msys \<Rightarrow> fault + msys" where
  "multi_system_compositor_update_session_status active ms = (
     if active then
       try_bind (c_assert (ms_active_count ms < 0xFFFFFFFF)) (\<lambda>_.
         Inr (ms\<lparr>ms_active_count := ms_active_count ms + 1\<rparr>))
     else
       try_bind (c_assert (ms_active_count ms > 0)) (\<lambda>_.
         Inr (ms\<lparr>ms_active_count := ms_active_count ms - 1\<rparr>)))"

definition multi_compositor_begin_session :: "nat \<Rightarrow> msys \<Rightarrow> fault + msys" where
  "multi_compositor_begin_session p ms =
     try_bind (deref (ms_heap ms) p) (\<lambda>mc.
     try_bind (c_assert (\<not> session_active mc)) (\<lambda>_.
     try_bind (multi_system_compositor_update_session_status True ms) (\<lambda>ms.
       with_client p (\<lambda>mc. Inr (mc\<lparr>session_active := True\<rparr>)) ms)))"

definition multi_compositor_end_session :: "nat \<Rightarrow> msys \<Rightarrow> fault + msys" where
  "multi_compositor_end_session p ms =
     try_bind (deref (ms_heap ms) p) (\<lambda>mc.
     try_bind (c_assert (session_active mc)) (\<lambda>_.
     try_bind (multi_system_compositor_update_session_status False ms) (\<lambda>ms.
       with_client p (\<lambda>mc. Inr (mc\<lparr>session_active := False\<rparr>)) ms)))"

text \<open>Creation at the address \<open>p\<close> the allocator returns; \<open>destroy\<close> frees the object.\<close>

definition multi_compositor_create :: "nat \<Rightarrow> bool \<Rightarrow> msys \<Rightarrow> msys" where
  "multi_compositor_create p is_overlay ms = (
     let lt = ms_last_timings ms;
         mc = pa_call (PaInfo (lt_predicted_display_time_ns lt) (lt_predicted_display_period_ns lt) (lt_diff_ns lt))
           (new_multi_compositor is_overlay);
         cs = (case find_index (\<lambda>c. c = None) (ms_clients ms) of
           None \<Rightarrow> ms_clients ms | Some i \<Rightarrow> (ms_clients ms)[i := Some p])
     in ms\<lparr>ms_heap := (ms_heap ms)(p \<mapsto> mc), ms_clients := cs\<rparr>)"

definition multi_compositor_destroy :: "nat \<Rightarrow> int \<Rightarrow> msys \<Rightarrow> fault + msys" where
  "multi_compositor_destroy p now_ns ms =
     try_bind (deref (ms_heap ms) p) (\<lambda>mc.
     try_bind (if session_active mc
       then try_bind (multi_system_compositor_update_session_status False ms) (\<lambda>ms.
         with_client p (\<lambda>mc. Inr (mc\<lparr>session_active := False\<rparr>)) ms)
       else Inr ms) (\<lambda>ms.
     let ms = ms\<lparr>ms_clients := map (\<lambda>c. if c = Some p then None else c) (ms_clients ms)\<rparr>
     in try_bind (with_client p (\<lambda>mc. Inr (destroy_slots now_ns mc)) ms) (\<lambda>ms.
       Inr (ms\<lparr>ms_heap := (ms_heap ms)(p := None)\<rparr>))))"

definition comp_multi_create_system_compositor :: "bool \<Rightarrow> int \<Rightarrow> msys" where
  "comp_multi_create_system_compositor do_warm_start now_ns = \<lparr>
     ms_heap = Map.empty, ms_clients = replicate MULTI_MAX_CLIENTS None, ms_active_count = 0,
     ms_state = (if do_warm_start then MULTI_SYSTEM_STATE_INIT_WARM_START else MULTI_SYSTEM_STATE_STOPPED),
     ms_chroma_key = \<lparr>hsv_min = [0, 0, 0], hsv_max = [0, 0, 0], curve = 0, despill = 0\<rparr>,
     ms_last_timings = \<lparr>lt_predicted_display_time_ns = now_ns,
       lt_predicted_display_period_ns = 1000000 * 16, lt_diff_ns = 1000000 * 5\<rparr>,
     ms_locked = False, ms_native = [], ms_events = []\<rparr>"

section \<open>The threads\<close>

datatype loop_pc = LpCheck | LpSleep | LpPredict | LpWait | LpTransfer

record sysrun =
  sr_ms :: msys
  sr_pc :: loop_pc

text \<open>
  What other threads may do to a client object at any time: everything but the flags of its state.
  The z order is free too: its setter writes it without the lock.
\<close>

definition layer_fits :: "layer_entry \<Rightarrow> bool" where
  "layer_fits l \<longleftrightarrow> length (le_xscs l) = 2 * XRT_MAX_VIEWS \<and> ld_view_count (le_data l) \<le> XRT_MAX_VIEWS"

definition slots_fit :: "multi_compositor \<Rightarrow> bool" where
  "slots_fit mc \<longleftrightarrow>
     (\<forall>l \<in> set (slot_layers (progress mc)) \<union> set (slot_layers (scheduled mc)) \<union> set (slot_layers (delivered mc)).
        layer_fits l)"

definition client_work :: "multi_compositor \<Rightarrow> multi_compositor \<Rightarrow> bool" where
  "client_work mc mc' \<longleftrightarrow> slots_fit mc' \<and> visible mc' = visible mc \<and> focused mc' = focused mc
     \<and> session_active mc' = session_active mc \<and> is_base_session mc' = is_base_session mc"

definition with_ms :: "sysrun \<Rightarrow> fault + msys \<Rightarrow> fault + sysrun" where
  "with_ms r m = try_bind m (\<lambda>ms. Inr (r\<lparr>sr_ms := ms\<rparr>))"

definition at_pc :: "loop_pc \<Rightarrow> fault + msys \<Rightarrow> fault + sysrun" where
  "at_pc pc m = try_bind m (\<lambda>ms. Inr \<lparr>sr_ms = ms, sr_pc = pc\<rparr>)"

inductive sys_step ::
  "((nat \<Rightarrow> nat \<Rightarrow> int) \<Rightarrow> nat list \<Rightarrow> nat list) \<Rightarrow> sysrun \<Rightarrow> fault + sysrun \<Rightarrow> bool" for qs where
  sys_check: "sr_pc r = LpCheck \<Longrightarrow>
    sys_step qs r (try_bind (update_session_state_locked (sr_ms r)) (\<lambda>ms.
      Inr \<lparr>sr_ms = ms, sr_pc = (if ms_state ms = MULTI_SYSTEM_STATE_STOPPED then LpSleep else LpPredict)\<rparr>))"
| sys_wake: "sr_pc r = LpSleep \<Longrightarrow> sys_step qs r (Inr (r\<lparr>sr_pc := LpCheck\<rparr>))"
| sys_predict: "sr_pc r = LpPredict \<Longrightarrow> sys_step qs r (at_pc LpWait (loop_predict fe (sr_ms r)))"
| sys_wait: "sr_pc r = LpWait \<Longrightarrow> sys_step qs r (at_pc LpTransfer (loop_wait fe (sr_ms r)))"
| sys_transfer: "sr_pc r = LpTransfer \<Longrightarrow> sys_step qs r (at_pc LpCheck (loop_transfer qs fe (sr_ms r)))"
| sys_create: "ms_heap (sr_ms r) p = None \<Longrightarrow>
    sys_step qs r (Inr (r\<lparr>sr_ms := multi_compositor_create p is_overlay (sr_ms r)\<rparr>))"
| sys_destroy: "ms_heap (sr_ms r) p = Some mc \<Longrightarrow>
    sys_step qs r (with_ms r (multi_compositor_destroy p now (sr_ms r)))"
| sys_begin: "ms_heap (sr_ms r) p = Some mc \<Longrightarrow> \<not> session_active mc \<Longrightarrow>
    ms_active_count (sr_ms r) < 0xFFFFFFFF \<Longrightarrow>
    sys_step qs r (with_ms r (multi_compositor_begin_session p (sr_ms r)))"
| sys_end: "ms_heap (sr_ms r) p = Some mc \<Longrightarrow> session_active mc \<Longrightarrow>
    sys_step qs r (with_ms r (multi_compositor_end_session p (sr_ms r)))"
| sys_client: "ms_heap (sr_ms r) p = Some mc \<Longrightarrow> client_work mc mc' \<Longrightarrow>
    sys_step qs r (Inr (r\<lparr>sr_ms := (sr_ms r)\<lparr>ms_heap := (ms_heap (sr_ms r))(p \<mapsto> mc')\<rparr>\<rparr>))"
| sys_set_state: "ms_heap (sr_ms r) p = Some mc \<Longrightarrow>
    sys_step qs r (with_ms r (system_compositor_set_state p v f t (sr_ms r)))"
| sys_main_app: "ms_heap (sr_ms r) p = Some mc \<Longrightarrow>
    sys_step qs r (with_ms r (system_compositor_set_main_app_visibility p v (sr_ms r)))"
| sys_chroma: "sys_step qs r (with_ms r (system_compositor_set_base_chroma_key_params mn mx cv ds (sr_ms r)))"
| sys_notify: "sys_step qs r (Inr (r\<lparr>sr_ms := multi_compositor_push_event p e (sr_ms r)\<rparr>))"

inductive sys_reach :: "((nat \<Rightarrow> nat \<Rightarrow> int) \<Rightarrow> nat list \<Rightarrow> nat list) \<Rightarrow> sysrun \<Rightarrow> bool" for qs where
  sys_init: "sys_reach qs \<lparr>sr_ms = comp_multi_create_system_compositor warm now, sr_pc = LpCheck\<rparr>"
| sys_more: "sys_reach qs r \<Longrightarrow> sys_step qs r (Inr r') \<Longrightarrow> sys_reach qs r'"

section \<open>Sorting\<close>

text \<open>What the C standard promises of \<^verbatim>\<open>qsort\<close> with a comparison that orders by a key.\<close>

definition qsort_spec :: "((nat \<Rightarrow> nat \<Rightarrow> int) \<Rightarrow> nat list \<Rightarrow> nat list) \<Rightarrow> bool" where
  "qsort_spec qs \<longleftrightarrow> (\<forall>cmp (key :: nat \<Rightarrow> int) xs. (\<forall>a b. cmp a b \<le> 0 \<longleftrightarrow> key a \<le> key b) \<longrightarrow>
     mset (qs cmp xs) = mset xs \<and> sorted_wrt (\<lambda>a b. cmp a b \<le> 0) (qs cmp xs))"

fun insert_cmp :: "('a \<Rightarrow> 'a \<Rightarrow> int) \<Rightarrow> 'a \<Rightarrow> 'a list \<Rightarrow> 'a list" where
  "insert_cmp cmp x [] = [x]"
| "insert_cmp cmp x (y # ys) = (if cmp x y \<le> 0 then x # y # ys else y # insert_cmp cmp x ys)"

definition insertion_qsort :: "('a \<Rightarrow> 'a \<Rightarrow> int) \<Rightarrow> 'a list \<Rightarrow> 'a list" where
  "insertion_qsort cmp xs = foldr (insert_cmp cmp) xs []"

lemma insert_cmp_mset [simp]: "mset (insert_cmp cmp x ys) = add_mset x (mset ys)"
  by (induction ys) auto

lemma insert_cmp_set [simp]: "set (insert_cmp cmp x ys) = insert x (set ys)"
  by (induction ys) auto

lemma insertion_qsort_ok: "qsort_spec insertion_qsort"
proof -
  have "mset (insertion_qsort cmp xs) = mset xs \<and> sorted_wrt (\<lambda>a b. cmp a b \<le> 0) (insertion_qsort cmp xs)"
    if key: "\<And>a b. cmp a b \<le> 0 \<longleftrightarrow> key a \<le> key b" for cmp :: "nat \<Rightarrow> nat \<Rightarrow> int" and key :: "nat \<Rightarrow> int" and xs
  proof (induction xs)
    case Nil
    then show ?case by (simp add: insertion_qsort_def)
  next
    case (Cons x xs)
    have "sorted_wrt (\<lambda>a b. cmp a b \<le> 0) (insert_cmp cmp x ys)" if "sorted_wrt (\<lambda>a b. cmp a b \<le> 0) ys" for ys
      using that by (induction ys) (auto simp: key)
    with Cons show ?case by (simp add: insertion_qsort_def)
  qed
  then show ?thesis unfolding qsort_spec_def by blast
qed

lemma overlay_sort_func_key: "overlay_sort_func h a b \<le> 0 \<longleftrightarrow> z_order (the (h a)) \<le> z_order (the (h b))"
  by (simp add: overlay_sort_func_def Let_def)

lemma qsort_overlay:
  assumes "qsort_spec qs"
  shows "mset (qs (overlay_sort_func h) xs) = mset xs"
    and "sorted_wrt (\<lambda>a b. z_order (the (h a)) \<le> z_order (the (h b))) (qs (overlay_sort_func h) xs)"
proof -
  have "\<forall>a b. overlay_sort_func h a b \<le> 0 \<longleftrightarrow> z_order (the (h a)) \<le> z_order (the (h b))"
    by (simp add: overlay_sort_func_key)
  moreover have "(\<forall>a b. cmp a b \<le> 0 \<longleftrightarrow> key a \<le> key b) \<Longrightarrow>
      mset (qs cmp xs) = mset xs \<and> sorted_wrt (\<lambda>a b. cmp a b \<le> 0) (qs cmp xs)"
    for cmp and key :: "nat \<Rightarrow> int"
    using assms unfolding qsort_spec_def by blast
  from this [of "overlay_sort_func h" "\<lambda>a. z_order (the (h a))", OF calculation]
  show "mset (qs (overlay_sort_func h) xs) = mset xs"
    and "sorted_wrt (\<lambda>a b. z_order (the (h a)) \<le> z_order (the (h b))) (qs (overlay_sort_func h) xs)"
    by (simp_all add: overlay_sort_func_key)
qed

section \<open>The transfer of layers\<close>

text \<open>The call a layer leads to.\<close>

definition entry_call :: "layer_entry \<Rightarrow> native_call option" where
  "entry_call l = (case le_xdev l of None \<Rightarrow> None | Some xdev \<Rightarrow>
     let xscs = le_xscs l; d = le_data l; vc = ld_view_count d;
         single = (\<lambda>c. map_option (\<lambda>x. c xdev x d) (xscs ! 0))
     in case ld_type d of
       XRT_LAYER_PROJECTION \<Rightarrow>
         if None \<in> set (take vc xscs) then None else Some (NcLayerProjection xdev xscs d)
     | XRT_LAYER_PROJECTION_DEPTH \<Rightarrow>
         if None \<in> set (take (vc + vc) xscs) then None
         else Some (NcLayerProjectionDepth xdev (take vc xscs) (take vc (drop vc xscs)) d)
     | XRT_LAYER_QUAD \<Rightarrow> single NcLayerQuad
     | XRT_LAYER_CUBE \<Rightarrow> single NcLayerCube
     | XRT_LAYER_CYLINDER \<Rightarrow> single NcLayerCylinder
     | XRT_LAYER_EQUIRECT1 \<Rightarrow> single NcLayerEquirect1
     | XRT_LAYER_EQUIRECT2 \<Rightarrow> single NcLayerEquirect2
     | XRT_LAYER_PASSTHROUGH \<Rightarrow> None)"

definition client_calls :: "multi_compositor \<Rightarrow> native_call list" where
  "client_calls mc = List.map_filter entry_call (slot_layers (delivered mc))"

lemma all_views_ok: "n \<le> length xscs \<Longrightarrow> all_views 0 n xscs = Inr (None \<notin> set (take n xscs))"
proof (induction n)
  case (Suc n)
  then show ?case by (cases "xscs ! n") (auto simp: take_Suc_conv_app_nth)
qed simp

lemma copy_views_ok:
  assumes "n \<le> vc" and "vc + vc \<le> length xscs" and "vc \<le> XRT_MAX_VIEWS"
  shows "copy_views vc n xscs = Inr (
    if None \<in> set (take n xscs) \<union> set (take n (drop vc xscs)) then None
    else Some (take n xscs, take n (drop vc xscs)))"
  using assms
proof (induction n)
  case (Suc n)
  then have "xscs ! (n + vc) = drop vc xscs ! n" by (simp add: add.commute)
  with Suc show ?case
    by (auto simp: take_Suc_conv_app_nth)
qed simp

lemma do_layer_ok:
  assumes "layer_fits l"
  shows "do_layer l = Inr (entry_call l)"
proof -
  let ?vc = "ld_view_count (le_data l)"
  have len: "length (le_xscs l) = 4" and vc: "?vc \<le> 2"
    using assms by (auto simp: layer_fits_def XRT_MAX_VIEWS_def)
  have a: "all_views 0 ?vc (le_xscs l) = Inr (None \<notin> set (take ?vc (le_xscs l)))"
    using len vc by (intro all_views_ok) simp
  have c: "copy_views ?vc ?vc (le_xscs l) = Inr (
      if None \<in> set (take (?vc + ?vc) (le_xscs l)) then None
      else Some (take ?vc (le_xscs l), take ?vc (drop ?vc (le_xscs l))))"
    using copy_views_ok [of ?vc ?vc "le_xscs l"] len vc
    by (simp add: XRT_MAX_VIEWS_def take_add)
  show ?thesis
    using len a c
    by (cases "ld_type (le_data l)"; cases "le_xdev l"; cases "le_xscs l ! 0")
      (simp_all add: do_layer_def entry_call_def do_projection_layer_def do_projection_layer_depth_def do_single_def
        do_quad_layer_def do_cube_layer_def do_cylinder_layer_def do_equirect1_layer_def do_equirect2_layer_def Let_def)
qed

lemma submit_slot_ok:
  "\<forall>l \<in> set ls. layer_fits l \<Longrightarrow> submit_slot ls log = Inr (log @ List.map_filter entry_call ls)"
  by (induction ls arbitrary: log) (auto simp: do_layer_ok List.map_filter_def split: option.splits)

lemma submit_clients_ok:
  "\<forall>p \<in> set ps. \<exists>mc. h p = Some mc \<and> slots_fit mc \<Longrightarrow>
   submit_clients h ps log = Inr (log @ concat (map (\<lambda>p. client_calls (the (h p))) ps))"
proof (induction ps arbitrary: log)
  case (Cons p ps)
  then obtain mc where mc: "h p = Some mc" "slots_fit mc" by auto
  then have "submit_slot (slot_layers (delivered mc)) log = Inr (log @ client_calls mc)"
    unfolding client_calls_def by (intro submit_slot_ok) (simp add: slots_fit_def)
  with Cons mc show ?case by simp
qed simp

definition listed :: "nat option list \<Rightarrow> nat list" where
  "listed cs = map the (filter (\<lambda>c. c \<noteq> None) cs)"

lemma listed_simps [simp]:
  "listed [] = []" "listed (None # cs) = listed cs" "listed (Some p # cs) = p # listed cs"
  by (simp_all add: listed_def)

lemma set_listed: "p \<in> set (listed cs) \<longleftrightarrow> Some p \<in> set cs"
  by (force simp: listed_def)

definition after_deliver :: "int \<Rightarrow> int \<Rightarrow> multi_compositor \<Rightarrow> multi_compositor" where
  "after_deliver dt now mc = (
     if slot_active (scheduled mc) \<and>
        time_is_greater_then_or_within_half_ms dt (fd_display_time_ns (slot_data (scheduled mc)))
     then mc\<lparr>pa_log := pa_log mc @ retire_log now (delivered mc), xsc_refs := xsc_refs mc - slot_refs (delivered mc),
       delivered := scheduled mc, scheduled := cleared_slot\<rparr>
     else mc)"

lemma deliver_after: "multi_compositor_deliver_any_frames dt now mc = Inr (after_deliver dt now mc)"
  by (simp add: deliver_eq after_deliver_def)

definition shown :: "multi_compositor \<Rightarrow> bool" where
  "shown mc \<longleftrightarrow> slot_active (delivered mc) \<and> visible mc \<and> session_active mc"

definition after_collect :: "int \<Rightarrow> int \<Rightarrow> int \<Rightarrow> multi_compositor \<Rightarrow> multi_compositor" where
  "after_collect dt sid now mc = (let mc = after_deliver dt now mc in
     if \<not> slot_active (delivered mc) then mc
     else if shown mc then multi_compositor_latch_frame_locked now sid mc
     else multi_compositor_retire_delivered_locked now mc)"

lemma collect_client_ok:
  assumes "h p = Some mc"
  shows "collect_client dt sid now (Some p) (h, arr) =
    Inr (h(p \<mapsto> after_collect dt sid now mc), if shown (after_deliver dt now mc) then arr @ [p] else arr)"
  using assms by (simp add: collect_client_def deliver_after after_collect_def shown_def Let_def)

lemma collect_clients_ok:
  assumes "distinct (listed cs)" and "\<forall>p \<in> set (listed cs). h p \<noteq> None"
  shows "collect_clients dt sid now cs (h, arr) = Inr (
    (\<lambda>p. if p \<in> set (listed cs) then map_option (after_collect dt sid now) (h p) else h p),
    arr @ filter (\<lambda>p. shown (after_deliver dt now (the (h p)))) (listed cs))"
  using assms
proof (induction cs arbitrary: h arr)
  case (Cons c cs)
  show ?case
  proof (cases c)
    case None
    with Cons show ?thesis by (simp add: collect_client_def)
  next
    case (Some p)
    with Cons.prems obtain mc where mc: "h p = Some mc" by auto
    let ?h = "h(p \<mapsto> after_collect dt sid now mc)"
    have p: "p \<notin> set (listed cs)" using Cons.prems Some by simp
    have "filter (\<lambda>q. shown (after_deliver dt now (the (?h q)))) (listed cs) =
        filter (\<lambda>q. shown (after_deliver dt now (the (h q)))) (listed cs)"
      using p by (intro filter_cong) auto
    moreover have "collect_clients dt sid now cs (?h, arr') = Inr (
        (\<lambda>q. if q \<in> set (listed cs) then map_option (after_collect dt sid now) (?h q) else ?h q),
        arr' @ filter (\<lambda>q. shown (after_deliver dt now (the (?h q)))) (listed cs))" for arr'
      using Cons.prems Some p by (intro Cons.IH) auto
    ultimately show ?thesis
      using Some mc p by (auto simp: collect_client_ok fun_eq_iff)
  qed
qed simp

lemma after_collect_flags [simp]:
  "visible (after_collect dt sid now mc) = visible mc" "focused (after_collect dt sid now mc) = focused mc"
  "z_order (after_collect dt sid now mc) = z_order mc" "session_active (after_collect dt sid now mc) = session_active mc"
  "is_base_session (after_collect dt sid now mc) = is_base_session mc"
  by (simp_all add: after_collect_def after_deliver_def multi_compositor_latch_frame_locked_def pa_call_def retire_eq Let_def)

lemma after_deliver_flags [simp]:
  "visible (after_deliver dt now mc) = visible mc" "session_active (after_deliver dt now mc) = session_active mc"
  by (simp_all add: after_deliver_def)

lemma after_collect_delivered:
  "delivered (after_collect dt sid now mc) =
     (if shown (after_deliver dt now mc) \<or> \<not> slot_active (delivered (after_deliver dt now mc))
      then delivered (after_deliver dt now mc) else cleared_slot)"
  by (auto simp: after_collect_def multi_compositor_latch_frame_locked_def retire_eq Let_def shown_def)

lemma active_after_collect: "slot_active (delivered (after_collect dt sid now mc)) = shown (after_deliver dt now mc)"
  by (auto simp: after_collect_delivered shown_def)

lemma shown_after_collect: "shown (after_collect dt sid now mc) = shown (after_deliver dt now mc)"
  by (auto simp: shown_def after_collect_delivered)

lemma slots_fit_after_collect: "slots_fit mc \<Longrightarrow> slots_fit (after_collect dt sid now mc)"
  by (auto simp: slots_fit_def after_collect_def after_deliver_def multi_compositor_latch_frame_locked_def pa_call_def
      retire_eq Let_def)

lemma key_client_simps [simp]:
  "visible (key_client k mc) = visible mc" "focused (key_client k mc) = focused mc"
  "z_order (key_client k mc) = z_order mc" "session_active (key_client k mc) = session_active mc"
  "is_base_session (key_client k mc) = is_base_session mc"
  "slot_active (delivered (key_client k mc)) = slot_active (delivered mc)" "shown (key_client k mc) = shown mc"
  by (simp_all add: key_client_def shown_def)

lemma slots_fit_key_client: "slots_fit mc \<Longrightarrow> slots_fit (key_client k mc)"
  by (auto simp: slots_fit_def key_client_def key_layer_def layer_fits_def)

lemma blend_of_visible:
  assumes "\<forall>mc \<in> set mcs. visible mc"
  shows "find_active_blend_mode_from fv mcs = Inr (case find focused mcs of
      Some mc \<Rightarrow> fd_env_blend_mode (slot_data (delivered mc))
    | None \<Rightarrow> (case (fv, mcs) of
        (Some mc, _) \<Rightarrow> fd_env_blend_mode (slot_data (delivered mc))
      | (None, mc # _) \<Rightarrow> fd_env_blend_mode (slot_data (delivered mc))
      | (None, []) \<Rightarrow> XRT_BLEND_MODE_OPAQUE))"
  using assms by (induction mcs arbitrary: fv) (auto split: option.splits list.splits)

text \<open>The blend mode of the frame: that of the lowest focused client, or else of the lowest client.\<close>

definition frame_blend :: "multi_compositor list \<Rightarrow> xrt_blend_mode" where
  "frame_blend mcs = (case find focused mcs of
      Some mc \<Rightarrow> fd_env_blend_mode (slot_data (delivered mc))
    | None \<Rightarrow> (case mcs of
        mc # _ \<Rightarrow> fd_env_blend_mode (slot_data (delivered mc))
      | [] \<Rightarrow> XRT_BLEND_MODE_OPAQUE))"

lemma find_active_blend_mode_ok:
  "\<forall>mc \<in> set mcs. visible mc \<Longrightarrow> find_active_blend_mode mcs = Inr (frame_blend mcs)"
  by (cases mcs) (auto simp: find_active_blend_mode_def blend_of_visible frame_blend_def split: option.splits)

definition clients_ok :: "msys \<Rightarrow> bool" where
  "clients_ok ms \<longleftrightarrow> distinct (listed (ms_clients ms)) \<and> (\<forall>p \<in> set (listed (ms_clients ms)). ms_heap ms p \<noteq> None)
     \<and> (\<forall>p mc. ms_heap ms p = Some mc \<longrightarrow> slots_fit mc)"

lemma chroma_heap:
  "\<exists>f. (\<forall>p. f p = id \<or> f p = key_client key) \<and> apply_chroma_key key arr h p = map_option (f p) (h p)"
  if "\<forall>q \<in> set arr. h q \<noteq> None"
proof (cases "find (\<lambda>q. is_base (the (h q))) arr")
  case None
  then show ?thesis by (intro exI [of _ "\<lambda>_. id"]) (simp add: apply_chroma_key_def option.map_id)
next
  case (Some b)
  then have "b \<in> set arr" by (auto simp: find_Some_iff)
  with that obtain mc where "h b = Some mc" by auto
  with Some show ?thesis
    by (intro exI [of _ "\<lambda>q. if float_positive (curve key) \<and> q = b then key_client key else id"])
      (auto simp: apply_chroma_key_def option.map_id)
qed

lemma chroma_facts:
  assumes "\<forall>q \<in> set arr. h q \<noteq> None"
  shows "apply_chroma_key key arr h p = None \<longleftrightarrow> h p = None"
    and "h p = Some mc \<Longrightarrow> \<exists>mc'. apply_chroma_key key arr h p = Some mc' \<and> visible mc' = visible mc
      \<and> focused mc' = focused mc \<and> z_order mc' = z_order mc \<and> session_active mc' = session_active mc
      \<and> shown mc' = shown mc \<and> slot_active (delivered mc') = slot_active (delivered mc)
      \<and> (slots_fit mc \<longrightarrow> slots_fit mc')"
proof -
  obtain f where f: "f p = id \<or> f p = key_client key" "apply_chroma_key key arr h p = map_option (f p) (h p)"
    using chroma_heap [OF assms, of key p] by blast
  then show "apply_chroma_key key arr h p = None \<longleftrightarrow> h p = None" by simp
  show "h p = Some mc \<Longrightarrow> \<exists>mc'. apply_chroma_key key arr h p = Some mc' \<and> visible mc' = visible mc
      \<and> focused mc' = focused mc \<and> z_order mc' = z_order mc \<and> session_active mc' = session_active mc
      \<and> shown mc' = shown mc \<and> slot_active (delivered mc') = slot_active (delivered mc)
      \<and> (slots_fit mc \<longrightarrow> slots_fit mc')"
    using f by (auto simp: slots_fit_key_client)
qed

text \<open>Everything \<^verbatim>\<open>transfer_layers_locked\<close> does, for well-formed clients.\<close>

lemma transfer_ok:
  assumes qs: "qsort_spec qs" and ok: "clients_ok ms"
  shows "\<exists>h cs. transfer_layers_locked qs dt sid now ms = Inr (ms\<lparr>ms_heap := h,
      ms_native := ms_native ms @ NcLayerBegin \<lparr>fd_frame_id = sid, fd_display_time_ns = dt,
          fd_env_blend_mode = frame_blend (map (\<lambda>p. the (h p)) cs)\<rparr>
        # concat (map (\<lambda>p. client_calls (the (h p))) cs)\<rparr>)
    \<and> distinct cs
    \<and> set cs = {p \<in> set (listed (ms_clients ms)). shown (after_deliver dt now (the (ms_heap ms p)))}
    \<and> sorted_wrt (\<lambda>a b. z_order (the (h a)) \<le> z_order (the (h b))) cs
    \<and> (\<forall>p. h p = None \<longleftrightarrow> ms_heap ms p = None)
    \<and> (\<forall>p mc. ms_heap ms p = Some mc \<longrightarrow> (\<exists>mc'. h p = Some mc' \<and> session_active mc' = session_active mc
        \<and> visible mc' = visible mc \<and> z_order mc' = z_order mc \<and> slots_fit mc'))
    \<and> (\<forall>p \<in> set (listed (ms_clients ms)). p \<notin> set cs \<longrightarrow> \<not> slot_active (delivered (the (h p))))"
proof -
  let ?L = "listed (ms_clients ms)"
  let ?h1 = "\<lambda>p. if p \<in> set ?L then map_option (after_collect dt sid now) (ms_heap ms p) else ms_heap ms p"
  let ?A = "filter (\<lambda>p. shown (after_deliver dt now (the (ms_heap ms p)))) ?L"
  let ?cs = "qs (overlay_sort_func ?h1) ?A"
  let ?h = "apply_chroma_key (ms_chroma_key ms) ?cs ?h1"
  have c: "collect_clients dt sid now (ms_clients ms) (ms_heap ms, []) = Inr (?h1, ?A)"
    using ok by (simp add: clients_ok_def collect_clients_ok)
  have mset: "mset ?cs = mset ?A" and sorted: "sorted_wrt (\<lambda>a b. z_order (the (?h1 a)) \<le> z_order (the (?h1 b))) ?cs"
    by (rule qsort_overlay [OF qs])+
  from mset have set: "set ?cs = set ?A" by (rule mset_eq_setD)
  have dist: "distinct ?cs"
    using ok by (simp add: mset_eq_imp_distinct_iff [OF mset] clients_ok_def)
  have h1: "\<forall>q \<in> set ?cs. ?h1 q \<noteq> None" using ok set by (auto simp: clients_ok_def)
  note cf = chroma_facts [OF h1, where key = "ms_chroma_key ms"]
  have fit1: "\<forall>p mc. ?h1 p = Some mc \<longrightarrow> slots_fit mc"
    using ok slots_fit_after_collect by (auto simp: clients_ok_def)
  have facts: "\<exists>mc'. ?h p = Some mc' \<and> session_active mc' = session_active mc
        \<and> visible mc' = visible mc \<and> z_order mc' = z_order mc \<and> slots_fit mc'" if "ms_heap ms p = Some mc" for p mc
  proof (cases "p \<in> set ?L")
    case True
    with that have "?h1 p = Some (after_collect dt sid now mc)" by simp
    with cf(2) [OF this] fit1 show ?thesis by fastforce
  next
    case False
    with that have "?h1 p = Some mc" by simp
    with cf(2) [OF this] fit1 show ?thesis by fastforce
  qed
  have shown: "shown (the (?h p)) \<and> z_order (the (?h p)) = z_order (the (?h1 p))" if "p \<in> set ?cs" for p
  proof -
    from that set ok obtain mc where mc: "ms_heap ms p = Some mc" "p \<in> set ?L" "shown (after_deliver dt now mc)"
      by (auto simp: clients_ok_def)
    then have "?h1 p = Some (after_collect dt sid now mc)" by simp
    with cf(2) [OF this] mc show ?thesis by (auto simp: shown_after_collect)
  qed
  have bl: "find_active_blend_mode (map (\<lambda>p. the (?h p)) ?cs) = Inr (frame_blend (map (\<lambda>p. the (?h p)) ?cs))"
    using shown by (intro find_active_blend_mode_ok) (auto simp: shown_def)
  have sub: "submit_clients ?h ?cs log = Inr (log @ concat (map (\<lambda>p. client_calls (the (?h p))) ?cs))" for log
    using facts set ok by (intro submit_clients_ok) (fastforce simp: clients_ok_def)
  have zs: "sorted_wrt (\<lambda>a b. z_order (the (?h a)) \<le> z_order (the (?h b))) ?cs"
    using sorted shown by (simp add: sorted_wrt_iff_nth_less)
  have inact: "\<not> slot_active (delivered (the (?h p)))" if p: "p \<in> set ?L" "p \<notin> set ?cs" for p
  proof -
    from p set ok obtain mc where mc: "ms_heap ms p = Some mc" "\<not> shown (after_deliver dt now mc)"
      by (auto simp: clients_ok_def)
    then have "?h1 p = Some (after_collect dt sid now mc)" using p by simp
    from cf(2) [OF this] obtain mc' where "?h p = Some mc'"
      "slot_active (delivered mc') = slot_active (delivered (after_collect dt sid now mc))" by blast
    with mc show ?thesis by (simp add: active_after_collect)
  qed
  have none: "?h p = None \<longleftrightarrow> ms_heap ms p = None" for p using cf(1) [of p] by simp
  have tr: "transfer_layers_locked qs dt sid now ms = Inr (ms\<lparr>ms_heap := ?h,
      ms_native := ms_native ms @ NcLayerBegin \<lparr>fd_frame_id = sid, fd_display_time_ns = dt,
          fd_env_blend_mode = frame_blend (map (\<lambda>p. the (?h p)) ?cs)\<rparr>
        # concat (map (\<lambda>p. client_calls (the (?h p))) ?cs)\<rparr>)"
    using c bl sub by (simp add: transfer_layers_locked_def Let_def)
  have setcs: "set ?cs = {p \<in> set ?L. shown (after_deliver dt now (the (ms_heap ms p)))}"
    using set by simp
  show ?thesis
  proof (intro exI conjI)
    show "transfer_layers_locked qs dt sid now ms = Inr (ms\<lparr>ms_heap := ?h,
      ms_native := ms_native ms @ NcLayerBegin \<lparr>fd_frame_id = sid, fd_display_time_ns = dt,
          fd_env_blend_mode = frame_blend (map (\<lambda>p. the (?h p)) ?cs)\<rparr>
        # concat (map (\<lambda>p. client_calls (the (?h p))) ?cs)\<rparr>)"
      by (rule tr)
    show "distinct ?cs" by (rule dist)
    show "set ?cs = {p \<in> set ?L. shown (after_deliver dt now (the (ms_heap ms p)))}" by (rule setcs)
    show "sorted_wrt (\<lambda>a b. z_order (the (?h a)) \<le> z_order (the (?h b))) ?cs" by (rule zs)
    show "\<forall>p. ?h p = None \<longleftrightarrow> ms_heap ms p = None" using none by blast
  qed (use facts inact in blast)+
qed

section \<open>The session of the native compositor\<close>

text \<open>What the native compositor expects: frames only in a session, and each in its order.\<close>

datatype native_phase = NpStopped | NpReady | NpPredicted | NpWoken | NpBegun | NpLayers

fun native_next :: "native_phase \<Rightarrow> native_call \<Rightarrow> native_phase option" where
  "native_next NpStopped NcBeginSession = Some NpReady"
| "native_next NpReady NcEndSession = Some NpStopped"
| "native_next NpReady NcPredictFrame = Some NpPredicted"
| "native_next NpPredicted (NcWoke i w) = Some NpWoken"
| "native_next NpWoken (NcBeginFrame i) = Some NpBegun"
| "native_next NpBegun (NcLayerBegin d) = Some NpLayers"
| "native_next NpLayers (NcLayerProjection x s d) = Some NpLayers"
| "native_next NpLayers (NcLayerProjectionDepth x s t d) = Some NpLayers"
| "native_next NpLayers (NcLayerQuad x c d) = Some NpLayers"
| "native_next NpLayers (NcLayerCube x c d) = Some NpLayers"
| "native_next NpLayers (NcLayerCylinder x c d) = Some NpLayers"
| "native_next NpLayers (NcLayerEquirect1 x c d) = Some NpLayers"
| "native_next NpLayers (NcLayerEquirect2 x c d) = Some NpLayers"
| "native_next NpLayers NcLayerCommit = Some NpReady"
| "native_next _ _ = None"

primrec native_run :: "native_phase \<Rightarrow> native_call list \<Rightarrow> native_phase option" where
  "native_run ph [] = Some ph"
| "native_run ph (c # cs) = (case native_next ph c of None \<Rightarrow> None | Some ph' \<Rightarrow> native_run ph' cs)"

lemma native_run_append:
  "native_run ph (xs @ ys) = (case native_run ph xs of None \<Rightarrow> None | Some ph' \<Rightarrow> native_run ph' ys)"
  by (induction xs arbitrary: ph) (auto split: option.splits)

lemma lcall_phase: "entry_call l = Some c \<Longrightarrow> native_next NpLayers c = Some NpLayers"
  by (auto simp: entry_call_def Let_def split: option.splits xrt_layer_type.splits if_splits)

lemma client_calls_phase: "native_run NpLayers (client_calls mc) = Some NpLayers"
proof -
  have "native_run NpLayers (List.map_filter entry_call ls) = Some NpLayers" for ls
    by (induction ls) (auto simp: List.map_filter_def lcall_phase)
  then show ?thesis by (simp add: client_calls_def)
qed

lemma all_client_calls_phase: "native_run NpLayers (concat (map (\<lambda>p. client_calls (f p)) ps)) = Some NpLayers"
  by (induction ps) (auto simp: native_run_append client_calls_phase)

definition session_on :: "msys \<Rightarrow> bool" where
  "session_on ms \<longleftrightarrow> ms_state ms \<in> {MULTI_SYSTEM_STATE_RUNNING, MULTI_SYSTEM_STATE_STOPPING}"

definition native_phase_of :: "sysrun \<Rightarrow> native_phase" where
  "native_phase_of r = (if \<not> session_on (sr_ms r) then NpStopped else
     case sr_pc r of LpWait \<Rightarrow> NpPredicted | LpTransfer \<Rightarrow> NpWoken | _ \<Rightarrow> NpReady)"

section \<open>The count of active sessions\<close>

definition active_set :: "(nat \<Rightarrow> multi_compositor option) \<Rightarrow> nat set" where
  "active_set h = {p. \<exists>mc. h p = Some mc \<and> session_active mc}"

lemma active_set_upd:
  "active_set (h(p \<mapsto> mc)) = (if session_active mc then insert p (active_set h) else active_set h - {p})"
  "active_set (h(p := None)) = active_set h - {p}"
  by (auto simp: active_set_def)

lemma active_set_mem: "h p = Some mc \<Longrightarrow> p \<in> active_set h \<longleftrightarrow> session_active mc"
  by (simp add: active_set_def)

definition heap_ok :: "msys \<Rightarrow> bool" where
  "heap_ok ms \<longleftrightarrow> clients_ok ms \<and> finite (dom (ms_heap ms)) \<and> length (ms_clients ms) = MULTI_MAX_CLIENTS
     \<and> \<not> ms_locked ms \<and> unat (ms_active_count ms) = card (active_set (ms_heap ms))"

lemma active_set_finite: "finite (dom h) \<Longrightarrow> finite (active_set h)"
  by (rule finite_subset [of _ "dom h"]) (auto simp: active_set_def)

lemma heap_ok_upd:
  assumes "heap_ok ms" and "ms_heap ms p = Some mc" and "slots_fit mc'" and "session_active mc' = session_active mc"
  shows "heap_ok (ms\<lparr>ms_heap := (ms_heap ms)(p \<mapsto> mc')\<rparr>)"
  using assms active_set_mem [of "ms_heap ms" p mc]
  by (auto simp: heap_ok_def clients_ok_def active_set_upd insert_absorb)

lemma heap_ok_frame:
  "heap_ok (ms\<lparr>ms_native := n\<rparr>) = heap_ok ms" "heap_ok (ms\<lparr>ms_state := st\<rparr>) = heap_ok ms"
  "heap_ok (ms\<lparr>ms_events := e\<rparr>) = heap_ok ms" "heap_ok (ms\<lparr>ms_chroma_key := k\<rparr>) = heap_ok ms"
  "heap_ok (ms\<lparr>ms_last_timings := t\<rparr>) = heap_ok ms"
  by (simp_all add: heap_ok_def clients_ok_def)

lemma heap_ok_same:
  assumes "heap_ok ms" and "\<forall>p. h p = None \<longleftrightarrow> ms_heap ms p = None"
    and "\<forall>p mc. ms_heap ms p = Some mc \<longrightarrow> (\<exists>mc'. h p = Some mc' \<and> session_active mc' = session_active mc \<and> slots_fit mc')"
  shows "heap_ok (ms\<lparr>ms_heap := h\<rparr>)"
proof -
  have "p \<in> active_set h \<longleftrightarrow> p \<in> active_set (ms_heap ms)" for p
    using assms(2,3) [rule_format, of p] by (cases "ms_heap ms p") (auto simp: active_set_def)
  then have "active_set h = active_set (ms_heap ms)" by blast
  moreover have "dom h = dom (ms_heap ms)" using assms(2) by (auto simp: dom_def)
  moreover have "slots_fit mc" if "h p = Some mc" for p mc
    using that assms(2,3) by (metis not_Some_eq option.inject)
  ultimately show ?thesis using assms(1,2) by (auto simp: heap_ok_def clients_ok_def)
qed

lemma for_clients_ok:
  assumes "\<forall>p \<in> set (listed cs). h p \<noteq> None"
    and "\<And>mc. session_active (f mc) = session_active mc" and "\<And>mc. slots_fit (f mc) = slots_fit mc"
  shows "\<exists>h'. for_clients f cs h = Inr h' \<and> (\<forall>p. h' p = None \<longleftrightarrow> h p = None)
    \<and> (\<forall>p mc. h p = Some mc \<longrightarrow> (\<exists>mc'. h' p = Some mc' \<and> session_active mc' = session_active mc
        \<and> slots_fit mc' = slots_fit mc))"
  using assms(1)
proof (induction cs arbitrary: h)
  case (Cons c cs)
  show ?case
  proof (cases c)
    case (Some p)
    with Cons.prems obtain mc where mc: "h p = Some mc" by auto
    have "\<forall>q \<in> set (listed cs). (h(p \<mapsto> f mc)) q \<noteq> None" using Cons.prems Some by auto
    from Cons.IH [OF this] obtain h' where h': "for_clients f cs (h(p \<mapsto> f mc)) = Inr h'"
      "\<forall>q. h' q = None \<longleftrightarrow> (h(p \<mapsto> f mc)) q = None"
      "\<forall>q m. (h(p \<mapsto> f mc)) q = Some m \<longrightarrow> (\<exists>m'. h' q = Some m' \<and> session_active m' = session_active m
        \<and> slots_fit m' = slots_fit m)" by blast
    have "\<exists>m'. h' q = Some m' \<and> session_active m' = session_active m \<and> slots_fit m' = slots_fit m"
      if "h q = Some m" for q m
      using that mc h'(3) [rule_format, of q] assms(2,3) by (cases "q = p") auto
    with h' mc Some show ?thesis by (intro exI [of _ h']) auto
  qed (use Cons in auto)
qed auto

lemma loop_broadcast_ok:
  assumes "heap_ok ms"
  shows "\<exists>ms'. broadcast_timings_to_clients t ms = Inr ms' \<and> heap_ok ms' \<and> ms_state ms' = ms_state ms
      \<and> ms_native ms' = ms_native ms"
    and "\<exists>ms'. broadcast_timings_to_pacers t per diff ms = Inr ms' \<and> heap_ok ms' \<and> ms_state ms' = ms_state ms
      \<and> ms_native ms' = ms_native ms"
proof -
  have ok: "\<forall>p \<in> set (listed (ms_clients ms)). ms_heap ms p \<noteq> None" and unl: "ms\<lparr>ms_locked := False\<rparr> = ms"
    and fit: "\<And>p mc. ms_heap ms p = Some mc \<Longrightarrow> slots_fit mc"
    using assms by (auto simp: heap_ok_def clients_ok_def)
  have f: "session_active (next_display t mc) = session_active mc" "slots_fit (next_display t mc) = slots_fit mc"
    "session_active (pa_call c mc) = session_active mc" "slots_fit (pa_call c mc) = slots_fit mc" for mc c
    by (simp_all add: next_display_def pa_call_def slots_fit_def)
  obtain h where h: "for_clients (next_display t) (ms_clients ms) (ms_heap ms) = Inr h"
    "\<forall>p. h p = None \<longleftrightarrow> ms_heap ms p = None"
    "\<forall>p mc. ms_heap ms p = Some mc \<longrightarrow> (\<exists>mc'. h p = Some mc' \<and> session_active mc' = session_active mc \<and> slots_fit mc' = slots_fit mc)"
    using for_clients_ok [OF ok, of "next_display t"] f by blast
  have "heap_ok (ms\<lparr>ms_heap := h\<rparr>)" using h fit by (intro heap_ok_same [OF assms]) blast+
  moreover have "ms\<lparr>ms_heap := h, ms_locked := False\<rparr> = ms\<lparr>ms_heap := h\<rparr>" using unl by (cases ms) simp
  ultimately show "\<exists>ms'. broadcast_timings_to_clients t ms = Inr ms' \<and> heap_ok ms' \<and> ms_state ms' = ms_state ms
      \<and> ms_native ms' = ms_native ms"
    using h by (simp add: broadcast_timings_to_clients_def os_mutex_lock_def os_mutex_unlock_def)
  obtain h where h: "for_clients (\<lambda>mc. next_display t (pa_call (PaInfo t per diff) mc)) (ms_clients ms) (ms_heap ms) = Inr h"
    "\<forall>p. h p = None \<longleftrightarrow> ms_heap ms p = None"
    "\<forall>p mc. ms_heap ms p = Some mc \<longrightarrow> (\<exists>mc'. h p = Some mc' \<and> session_active mc' = session_active mc \<and> slots_fit mc' = slots_fit mc)"
    using for_clients_ok [OF ok, of "\<lambda>mc. next_display t (pa_call (PaInfo t per diff) mc)"] f by fastforce
  have "heap_ok (ms\<lparr>ms_heap := h\<rparr>)" using h fit by (intro heap_ok_same [OF assms]) blast+
  moreover have "heap_ok ms' = heap_ok (ms\<lparr>ms_heap := h\<rparr>)" if "ms_heap ms' = h" "ms_clients ms' = ms_clients ms"
    "\<not> ms_locked ms'" "ms_active_count ms' = ms_active_count ms" for ms'
    using that assms by (simp add: heap_ok_def clients_ok_def)
  ultimately show "\<exists>ms'. broadcast_timings_to_pacers t per diff ms = Inr ms' \<and> heap_ok ms' \<and> ms_state ms' = ms_state ms
      \<and> ms_native ms' = ms_native ms"
    using h by (simp add: broadcast_timings_to_pacers_def os_mutex_lock_def os_mutex_unlock_def)
qed

end
