(* ===== verification/Multi_Invariant.thy ===== *)
theory Multi_Invariant
  imports Multi_System
begin

text \<open>
  The properties of the system compositor: the invariant of its threads, the protocol of the
  native session, the layers of a frame, shutdown and the locking of the z order.
\<close>

section \<open>The invariant\<close>

definition sys_inv :: "sysrun \<Rightarrow> bool" where
  "sys_inv r \<longleftrightarrow> heap_ok (sr_ms r)
     \<and> ms_state (sr_ms r) \<noteq> MULTI_SYSTEM_STATE_INVALID
     \<and> (sr_pc r \<in> {LpPredict, LpWait, LpTransfer} \<longrightarrow> session_on (sr_ms r))
     \<and> native_run NpStopped (ms_native (sr_ms r)) = Some (native_phase_of r)"

lemma native_updates [simp]:
  "ms_native (native c ms) = ms_native ms @ [c]" "ms_state (native c ms) = ms_state ms"
  "heap_ok (native c ms) = heap_ok ms" "session_on (native c ms) = session_on ms"
  by (simp_all add: native_def heap_ok_frame session_on_def)

lemma check_inv:
  assumes "sys_inv r" and "sr_pc r = LpCheck"
  shows "\<exists>ms. update_session_state_locked (sr_ms r) = Inr ms \<and>
    sys_inv \<lparr>sr_ms = ms, sr_pc = (if ms_state ms = MULTI_SYSTEM_STATE_STOPPED then LpSleep else LpPredict)\<rparr>"
  using assms
  by (cases "ms_state (sr_ms r)")
    (auto simp: sys_inv_def update_session_state_locked_def native_phase_of_def session_on_def native_run_append
      heap_ok_frame)

lemma sys_inv_ms:
  assumes "sys_inv r" and "heap_ok ms" and "ms_state ms = ms_state (sr_ms r)" and "ms_native ms = ms_native (sr_ms r)"
  shows "sys_inv (r\<lparr>sr_ms := ms\<rparr>)"
  using assms by (simp add: sys_inv_def native_phase_of_def session_on_def)

lemma predict_inv:
  assumes "sys_inv r" and "sr_pc r = LpPredict"
  shows "\<exists>r'. at_pc LpWait (loop_predict fe (sr_ms r)) = Inr r' \<and> sys_inv r'"
proof -
  let ?ms = "native NcPredictFrame (sr_ms r)"
  have "heap_ok ?ms" using assms by (simp add: sys_inv_def)
  from loop_broadcast_ok(1) [OF this, of "fe_display_time_ns fe"] obtain ms' where
    "loop_predict fe (sr_ms r) = Inr ms'" "heap_ok ms'" "ms_state ms' = ms_state (sr_ms r)"
    "ms_native ms' = ms_native (sr_ms r) @ [NcPredictFrame]"
    by (auto simp: loop_predict_def)
  with assms show ?thesis
    by (auto simp: at_pc_def sys_inv_def native_phase_of_def session_on_def native_run_append)
qed

lemma wait_inv:
  assumes "sys_inv r" and "sr_pc r = LpWait"
  shows "\<exists>r'. at_pc LpTransfer (loop_wait fe (sr_ms r)) = Inr r' \<and> sys_inv r'"
proof -
  let ?c = "NcWoke (fe_frame_id fe) (fe_woke_ns fe)"
  have "heap_ok (native ?c (sr_ms r))" using assms by (simp add: sys_inv_def)
  from loop_broadcast_ok(2) [OF this, of "fe_display_time_ns fe" "fe_period_ns fe" "fe_display_time_ns fe - fe_now_ns fe"]
  obtain ms' where "loop_wait fe (sr_ms r) = Inr ms'" "heap_ok ms'" "ms_state ms' = ms_state (sr_ms r)"
    "ms_native ms' = ms_native (sr_ms r) @ [?c]"
    by (auto simp: loop_wait_def)
  with assms show ?thesis
    by (auto simp: at_pc_def sys_inv_def native_phase_of_def session_on_def native_run_append)
qed

lemma transfer_step_inv:
  assumes qs: "qsort_spec qs" and inv: "sys_inv r" and pc: "sr_pc r = LpTransfer"
  shows "\<exists>r'. at_pc LpCheck (loop_transfer qs fe (sr_ms r)) = Inr r' \<and> sys_inv r'"
proof -
  let ?ms = "os_mutex_lock (native (NcBeginFrame (fe_frame_id fe)) (sr_ms r))"
  let ?frame = "\<lambda>b. \<lparr>fd_frame_id = fe_frame_id fe, fd_display_time_ns = fe_display_time_ns fe, fd_env_blend_mode = b\<rparr>"
  have hok: "heap_ok (sr_ms r)" using inv by (simp add: sys_inv_def)
  then have cok: "clients_ok ?ms"
    by (simp add: heap_ok_def clients_ok_def os_mutex_lock_def native_def)
  obtain h cs where t: "transfer_layers_locked qs (fe_display_time_ns fe) (fe_frame_id fe) (fe_latch_ns fe) ?ms =
      Inr (?ms\<lparr>ms_heap := h, ms_native := ms_native ?ms @ NcLayerBegin (?frame (frame_blend (map (\<lambda>p. the (h p)) cs)))
        # concat (map (\<lambda>p. client_calls (the (h p))) cs)\<rparr>)"
    and h: "\<forall>p. h p = None \<longleftrightarrow> ms_heap ?ms p = None"
      "\<forall>p mc. ms_heap ?ms p = Some mc \<longrightarrow> (\<exists>mc'. h p = Some mc' \<and> session_active mc' = session_active mc
        \<and> visible mc' = visible mc \<and> z_order mc' = z_order mc \<and> slots_fit mc')"
    using transfer_ok [OF qs cok, of "fe_display_time_ns fe" "fe_frame_id fe" "fe_latch_ns fe"] by blast
  have hp: "ms_heap ?ms = ms_heap (sr_ms r)" by (simp add: os_mutex_lock_def native_def)
  have hok': "heap_ok ((sr_ms r)\<lparr>ms_heap := h\<rparr>)"
    using h hp by (intro heap_ok_same [OF hok]) fastforce+
  let ?log = "ms_native (sr_ms r) @ NcBeginFrame (fe_frame_id fe)
    # NcLayerBegin (?frame (frame_blend (map (\<lambda>p. the (h p)) cs))) # concat (map (\<lambda>p. client_calls (the (h p))) cs)
    @ [NcLayerCommit]"
  obtain ms' where l: "loop_transfer qs fe (sr_ms r) = Inr ms'" "ms_heap ms' = h" "ms_clients ms' = ms_clients (sr_ms r)"
    "\<not> ms_locked ms'" "ms_active_count ms' = ms_active_count (sr_ms r)" "ms_state ms' = ms_state (sr_ms r)"
    "ms_native ms' = ?log"
    using t by (simp add: loop_transfer_def os_mutex_lock_def os_mutex_unlock_def native_def)
  have "heap_ok ms'" using hok' l by (simp add: heap_ok_def clients_ok_def)
  moreover have "native_run NpStopped ?log = Some NpReady"
    using inv pc by (simp add: sys_inv_def native_phase_of_def native_run_append all_client_calls_phase)
  ultimately show ?thesis
    using inv pc l by (simp add: at_pc_def sys_inv_def native_phase_of_def session_on_def)
qed

section \<open>Operations of the clients\<close>

lemma update_status_ok:
  "ms_active_count ms < 0xFFFFFFFF \<Longrightarrow>
     multi_system_compositor_update_session_status True ms = Inr (ms\<lparr>ms_active_count := ms_active_count ms + 1\<rparr>)"
  "ms_active_count ms > 0 \<Longrightarrow>
     multi_system_compositor_update_session_status False ms = Inr (ms\<lparr>ms_active_count := ms_active_count ms - 1\<rparr>)"
  by (simp_all add: multi_system_compositor_update_session_status_def)

lemma active_count_pos:
  assumes "heap_ok ms" and "ms_heap ms p = Some mc" and "session_active mc"
  shows "ms_active_count ms > 0"
proof -
  have "p \<in> active_set (ms_heap ms)" "finite (active_set (ms_heap ms))"
    using assms active_set_finite by (auto simp: active_set_mem heap_ok_def)
  then have "card (active_set (ms_heap ms)) > 0" by (auto simp: card_gt_0_iff)
  with assms(1) show ?thesis by (simp add: heap_ok_def word_less_nat_alt)
qed

lemma session_begin_ok:
  assumes ok: "heap_ok ms" and mc: "ms_heap ms p = Some mc" "\<not> session_active mc" and n: "ms_active_count ms < 0xFFFFFFFF"
  shows "\<exists>ms'. multi_compositor_begin_session p ms = Inr ms' \<and> heap_ok ms' \<and> ms_state ms' = ms_state ms
    \<and> ms_native ms' = ms_native ms"
proof -
  have fin: "finite (active_set (ms_heap ms))" "p \<notin> active_set (ms_heap ms)"
    using ok mc active_set_finite by (auto simp: active_set_mem heap_ok_def)
  have "unat (ms_active_count ms + 1) = Suc (unat (ms_active_count ms))"
    using n by (simp add: unat_word_ariths word_less_nat_alt)
  then show ?thesis
    using ok mc n fin
    by (simp add: multi_compositor_begin_session_def update_status_ok with_client_def heap_ok_def clients_ok_def
        active_set_upd slots_fit_def)
qed

lemma session_end_ok:
  assumes ok: "heap_ok ms" and mc: "ms_heap ms p = Some mc" "session_active mc"
  shows "\<exists>ms'. multi_compositor_end_session p ms = Inr ms' \<and> heap_ok ms' \<and> ms_state ms' = ms_state ms
    \<and> ms_native ms' = ms_native ms"
proof -
  have fin: "finite (active_set (ms_heap ms))" "p \<in> active_set (ms_heap ms)"
    using ok mc active_set_finite by (auto simp: active_set_mem heap_ok_def)
  have pos: "ms_active_count ms > 0" using ok mc by (rule active_count_pos)
  then have "unat (ms_active_count ms - 1) = unat (ms_active_count ms) - 1"
    by (simp add: unat_minus_one word_greater_zero_iff)
  then show ?thesis
    using ok mc pos fin
    by (simp add: multi_compositor_end_session_def update_status_ok with_client_def heap_ok_def clients_ok_def
        active_set_upd slots_fit_def)
qed

lemma listed_update:
  "i < length cs \<Longrightarrow> cs ! i = None \<Longrightarrow> mset (listed (cs[i := Some p])) = add_mset p (mset (listed cs))"
proof (induction cs arbitrary: i)
  case (Cons c cs)
  then show ?case by (cases i; cases c) auto
qed simp

lemma listed_removed: "listed (map (\<lambda>c. if c = Some p then None else c) cs) = filter (\<lambda>q. q \<noteq> p) (listed cs)"
proof (induction cs)
  case (Cons c cs)
  then show ?case by (cases c) auto
qed simp

lemma create_ok:
  assumes ok: "heap_ok ms" and p: "ms_heap ms p = None"
  shows "heap_ok (multi_compositor_create p is_overlay ms)"
proof -
  let ?ms = "multi_compositor_create p is_overlay ms"
  obtain mc where h: "ms_heap ?ms = (ms_heap ms)(p \<mapsto> mc)" and mc: "\<not> session_active mc" "slots_fit mc"
    by (simp add: multi_compositor_create_def Let_def pa_call_def new_multi_compositor_def slots_fit_def)
  have new: "p \<notin> set (listed (ms_clients ms))" using ok p by (auto simp: heap_ok_def clients_ok_def)
  have "distinct (listed (ms_clients ?ms)) \<and> set (listed (ms_clients ?ms)) \<subseteq> insert p (set (listed (ms_clients ms)))
      \<and> length (ms_clients ?ms) = length (ms_clients ms)"
  proof (cases "find_index (\<lambda>c. c = None) (ms_clients ms)")
    case None
    then show ?thesis using ok by (auto simp: multi_compositor_create_def Let_def heap_ok_def clients_ok_def)
  next
    case (Some i)
    then have i: "i < length (ms_clients ms)" "ms_clients ms ! i = None" by (auto simp: find_index_Some_iff)
    note m = listed_update [OF i, of p]
    have "distinct (listed ((ms_clients ms)[i := Some p]))"
      using m new ok mset_eq_imp_distinct_iff [of _ "p # listed (ms_clients ms)"]
      by (simp add: heap_ok_def clients_ok_def)
    with Some mset_eq_setD [of _ "p # listed (ms_clients ms)"] m show ?thesis
      by (auto simp: multi_compositor_create_def Let_def)
  qed
  moreover have "active_set (ms_heap ?ms) = active_set (ms_heap ms)"
    using h mc p by (auto simp: active_set_def)
  moreover have "ms_locked ?ms = ms_locked ms" "ms_active_count ?ms = ms_active_count ms"
    by (simp_all add: multi_compositor_create_def Let_def)
  ultimately show ?thesis using ok h mc by (auto simp: heap_ok_def clients_ok_def)
qed

lemma heap_ok_remove:
  assumes "heap_ok ms" and "ms_heap ms p = Some mc" and "\<not> session_active mc"
  shows "heap_ok (ms\<lparr>ms_clients := map (\<lambda>c. if c = Some p then None else c) (ms_clients ms),
    ms_heap := (ms_heap ms)(p := None)\<rparr>)"
proof -
  have "active_set (ms_heap ms) - {p} = active_set (ms_heap ms)" using assms by (auto simp: active_set_def)
  with assms(1) show ?thesis
    by (auto simp: heap_ok_def clients_ok_def listed_removed active_set_upd)
qed

lemma destroy_ok:
  assumes ok: "heap_ok ms" and mc: "ms_heap ms p = Some mc"
  shows "\<exists>ms'. multi_compositor_destroy p now ms = Inr ms' \<and> heap_ok ms' \<and> ms_state ms' = ms_state ms
    \<and> ms_native ms' = ms_native ms"
proof -
  obtain ms1 mc1 where 1: "(if session_active mc
       then try_bind (multi_system_compositor_update_session_status False ms) (\<lambda>ms.
         with_client p (\<lambda>mc. Inr (mc\<lparr>session_active := False\<rparr>)) ms)
       else Inr ms) = Inr ms1" "heap_ok ms1" "ms_state ms1 = ms_state ms" "ms_native ms1 = ms_native ms"
    "ms_heap ms1 p = Some mc1" "\<not> session_active mc1"
  proof (cases "session_active mc")
    case True
    from session_end_ok [OF ok mc True] obtain ms' where ms': "multi_compositor_end_session p ms = Inr ms'"
      "heap_ok ms'" "ms_state ms' = ms_state ms" "ms_native ms' = ms_native ms" by blast
    then have "try_bind (multi_system_compositor_update_session_status False ms) (\<lambda>ms.
        with_client p (\<lambda>mc. Inr (mc\<lparr>session_active := False\<rparr>)) ms) = Inr ms'"
      using mc True by (simp add: multi_compositor_end_session_def)
    moreover have "ms_heap ms' p = Some (mc\<lparr>session_active := False\<rparr>)"
      using calculation mc active_count_pos [OF ok mc True]
      by (auto simp: update_status_ok with_client_def)
    ultimately show ?thesis using that ms' True by simp
  next
    case False
    then show ?thesis using that ok mc by simp
  qed
  have "multi_compositor_destroy p now ms = Inr (ms1\<lparr>ms_clients := map (\<lambda>c. if c = Some p then None else c) (ms_clients ms1),
      ms_heap := (ms_heap ms1)(p := None)\<rparr>)"
    using 1 mc by (simp add: multi_compositor_destroy_def with_client_def Let_def)
  with heap_ok_remove [OF 1(2,5,6)] 1(3,4) show ?thesis by simp
qed

lemma sys_inv_with_ms:
  assumes "sys_inv r" and "\<exists>ms'. m = Inr ms' \<and> heap_ok ms' \<and> ms_state ms' = ms_state (sr_ms r)
    \<and> ms_native ms' = ms_native (sr_ms r)"
  shows "\<exists>r'. with_ms r m = Inr r' \<and> sys_inv r'"
  using assms sys_inv_ms by (auto simp: with_ms_def)

lemma settings_ok:
  assumes ok: "heap_ok ms"
  shows "ms_heap ms p = Some mc \<Longrightarrow> \<exists>ms'. system_compositor_set_state p v f t ms = Inr ms' \<and> heap_ok ms'
      \<and> ms_state ms' = ms_state ms \<and> ms_native ms' = ms_native ms"
    and "ms_heap ms p = Some mc \<Longrightarrow> \<exists>ms'. system_compositor_set_main_app_visibility p v ms = Inr ms' \<and> heap_ok ms'
      \<and> ms_state ms' = ms_state ms \<and> ms_native ms' = ms_native ms"
    and "\<exists>ms'. system_compositor_set_base_chroma_key_params mn mx cv ds ms = Inr ms' \<and> heap_ok ms'
      \<and> ms_state ms' = ms_state ms \<and> ms_native ms' = ms_native ms"
proof -
  have fit: "slots_fit (mc\<lparr>visible := v, focused := f\<rparr>)" "slots_fit (mc\<lparr>is_base_session := v\<rparr>)" if "ms_heap ms p = Some mc"
    using ok that by (auto simp: heap_ok_def clients_ok_def slots_fit_def)
  show "ms_heap ms p = Some mc \<Longrightarrow> \<exists>ms'. system_compositor_set_state p v f t ms = Inr ms' \<and> heap_ok ms'
      \<and> ms_state ms' = ms_state ms \<and> ms_native ms' = ms_native ms"
    using ok fit heap_ok_upd [OF ok, of p mc "mc\<lparr>visible := v, focused := f\<rparr>"]
    by (simp add: system_compositor_set_state_def multi_compositor_push_event_def heap_ok_frame)
  show "ms_heap ms p = Some mc \<Longrightarrow> \<exists>ms'. system_compositor_set_main_app_visibility p v ms = Inr ms' \<and> heap_ok ms'
      \<and> ms_state ms' = ms_state ms \<and> ms_native ms' = ms_native ms"
    using ok fit heap_ok_upd [OF ok, of p mc "mc\<lparr>is_base_session := v\<rparr>"]
    by (simp add: system_compositor_set_main_app_visibility_def multi_compositor_push_event_def with_client_def heap_ok_frame)
  show "\<exists>ms'. system_compositor_set_base_chroma_key_params mn mx cv ds ms = Inr ms' \<and> heap_ok ms'
      \<and> ms_state ms' = ms_state ms \<and> ms_native ms' = ms_native ms"
    using ok by (simp add: system_compositor_set_base_chroma_key_params_def os_mutex_lock_def os_mutex_unlock_def
        heap_ok_def clients_ok_def)
qed

lemma sys_step_inv:
  assumes "sys_step qs r res" and "qsort_spec qs" and inv: "sys_inv r"
  shows "\<exists>r'. res = Inr r' \<and> sys_inv r'"
proof -
  have ok: "heap_ok (sr_ms r)" using inv by (simp add: sys_inv_def)
  show ?thesis
    using assms(1)
  proof cases
    case sys_check
    with check_inv [OF inv] show ?thesis by auto
  next
    case sys_wake
    with inv show ?thesis by (simp add: sys_inv_def native_phase_of_def)
  next
    case (sys_predict fe)
    with predict_inv [OF inv] show ?thesis by simp
  next
    case (sys_wait fe)
    with wait_inv [OF inv] show ?thesis by simp
  next
    case (sys_transfer fe)
    with transfer_step_inv [OF assms(2) inv] show ?thesis by simp
  next
    case (sys_create p is_overlay)
    have "sys_inv (r\<lparr>sr_ms := multi_compositor_create p is_overlay (sr_ms r)\<rparr>)"
      using create_ok [OF ok sys_create(2)] by (rule sys_inv_ms [OF inv]) (simp_all add: multi_compositor_create_def Let_def)
    with sys_create show ?thesis by simp
  next
    case (sys_destroy p mc now)
    with sys_inv_with_ms [OF inv destroy_ok [OF ok]] show ?thesis by simp
  next
    case (sys_begin p mc)
    with sys_inv_with_ms [OF inv session_begin_ok [OF ok]] show ?thesis by simp
  next
    case (sys_end p mc)
    with sys_inv_with_ms [OF inv session_end_ok [OF ok]] show ?thesis by simp
  next
    case (sys_client p mc mc')
    have "sys_inv (r\<lparr>sr_ms := (sr_ms r)\<lparr>ms_heap := (ms_heap (sr_ms r))(p \<mapsto> mc')\<rparr>\<rparr>)"
      using heap_ok_upd [OF ok sys_client(2)] sys_client(3) by (intro sys_inv_ms [OF inv]) (simp_all add: client_work_def)
    with sys_client show ?thesis by simp
  next
    case (sys_set_state p mc v f t)
    with sys_inv_with_ms [OF inv settings_ok(1) [OF ok]] show ?thesis by simp
  next
    case (sys_main_app p mc v)
    with sys_inv_with_ms [OF inv settings_ok(2) [OF ok]] show ?thesis by simp
  next
    case (sys_chroma mn mx cv ds)
    with sys_inv_with_ms [OF inv settings_ok(3) [OF ok]] show ?thesis by simp
  next
    case (sys_notify p e)
    have "sys_inv (r\<lparr>sr_ms := multi_compositor_push_event p e (sr_ms r)\<rparr>)"
      using ok by (intro sys_inv_ms [OF inv]) (simp_all add: multi_compositor_push_event_def heap_ok_frame)
    with sys_notify show ?thesis by simp
  qed
qed

lemma listed_replicate [simp]: "listed (replicate n None) = []"
  by (induction n) auto

lemma sys_reach_inv: "sys_reach qs r \<Longrightarrow> qsort_spec qs \<Longrightarrow> sys_inv r"
proof (induction rule: sys_reach.induct)
  case (sys_init warm now)
  then show ?case
    by (simp add: sys_inv_def comp_multi_create_system_compositor_def heap_ok_def clients_ok_def active_set_def
        native_phase_of_def session_on_def)
next
  case (sys_more r r')
  from sys_step_inv [OF sys_more.hyps(2) sys_more.prems sys_more.IH] sys_more.prems show ?case by auto
qed

section \<open>Properties\<close>

definition new_system :: "bool \<Rightarrow> sysrun" where
  "new_system warm = \<lparr>sr_ms = comp_multi_create_system_compositor warm 0, sr_pc = LpCheck\<rparr>"

lemma new_system_reach: "sys_reach qs (new_system warm)"
  unfolding new_system_def by (rule sys_init)



text \<open>Stopping the render thread leaves the native compositor with no session, except before its
  first pass in the warm start state: there the clean-up ends a native session that was never
  begun.\<close>

lemma shutdown_ends_session:
  assumes "qsort_spec qs" and "sys_reach qs r" and "sr_pc r = LpCheck"
  shows "native_run NpStopped (ms_native (main_loop_cleanup (sr_ms r))) =
    (if ms_state (sr_ms r) = MULTI_SYSTEM_STATE_INIT_WARM_START then None else Some NpStopped)"
  using sys_reach_inv [OF assms(2,1)] assms(3)
  by (cases "ms_state (sr_ms r)")
    (auto simp: sys_inv_def main_loop_cleanup_def native_phase_of_def session_on_def native_run_append)

text \<open>C13. The frame given to the native compositor holds, in ascending z order, every layer with a
  device and swapchains of exactly those listed clients that have a frame, are visible and have
  an active session; its blend mode is that of the lowest focused client, or else of the lowest
  one; and the delivered frame of every other client has been dropped, so it is never shown
  later.\<close>

theorem transfer_shows_visible_clients:
  assumes "qsort_spec qs" and "clients_ok ms"
  shows "\<exists>ms' cs. transfer_layers_locked qs dt sid now ms = Inr ms'
    \<and> ms_native ms' = ms_native ms @ NcLayerBegin \<lparr>fd_frame_id = sid, fd_display_time_ns = dt,
          fd_env_blend_mode = frame_blend (map (\<lambda>p. the (ms_heap ms' p)) cs)\<rparr>
        # concat (map (\<lambda>p. client_calls (the (ms_heap ms' p))) cs)
    \<and> distinct cs
    \<and> set cs = {p \<in> set (listed (ms_clients ms)). shown (after_deliver dt now (the (ms_heap ms p)))}
    \<and> sorted_wrt (\<lambda>a b. z_order (the (ms_heap ms' a)) \<le> z_order (the (ms_heap ms' b))) cs
    \<and> (\<forall>p \<in> set (listed (ms_clients ms)). p \<notin> set cs \<longrightarrow> \<not> slot_active (delivered (the (ms_heap ms' p))))"
proof -
  obtain h cs where "transfer_layers_locked qs dt sid now ms = Inr (ms\<lparr>ms_heap := h,
      ms_native := ms_native ms @ NcLayerBegin \<lparr>fd_frame_id = sid, fd_display_time_ns = dt,
          fd_env_blend_mode = frame_blend (map (\<lambda>p. the (h p)) cs)\<rparr>
        # concat (map (\<lambda>p. client_calls (the (h p))) cs)\<rparr>)"
    "distinct cs" "set cs = {p \<in> set (listed (ms_clients ms)). shown (after_deliver dt now (the (ms_heap ms p)))}"
    "sorted_wrt (\<lambda>a b. z_order (the (h a)) \<le> z_order (the (h b))) cs"
    "\<forall>p \<in> set (listed (ms_clients ms)). p \<notin> set cs \<longrightarrow> \<not> slot_active (delivered (the (h p)))"
    using transfer_ok [OF assms, of dt sid now] by blast
  then show ?thesis by (intro exI [of _ "ms\<lparr>ms_heap := h, ms_native := _\<rparr>"] exI [of _ cs]) simp
qed

definition sample_quad :: layer_entry where
  "sample_quad = \<lparr>le_xdev = Some 1, le_xscs = [Some 7, None, None, None],
     le_data = \<lparr>ld_type = XRT_LAYER_QUAD, ld_view_count = 0,
       ld_chroma_key = \<lparr>hsv_min = [], hsv_max = [], curve = 0, despill = 0\<rparr>, ld_rest = 0\<rparr>\<rparr>"

definition sample_client :: "bool \<Rightarrow> int \<Rightarrow> multi_compositor" where
  "sample_client vis z = (new_multi_compositor False)\<lparr>visible := vis, session_active := True, z_order := z,
     delivered := \<lparr>slot_active = True, slot_data = zero_frame_data, slot_layers = [sample_quad]\<rparr>\<rparr>"

definition sample_system :: msys where
  "sample_system = (comp_multi_create_system_compositor False 0)\<lparr>
     ms_heap := [10 \<mapsto> sample_client True 5, 11 \<mapsto> sample_client False 1, 12 \<mapsto> sample_client True 2],
     ms_clients := [Some 10, None, Some 11, Some 12]\<rparr>"

lemma sample_system_ok: "clients_ok sample_system"
  by (auto simp: clients_ok_def sample_system_def sample_client_def new_multi_compositor_def slots_fit_def
      sample_quad_def layer_fits_def XRT_MAX_VIEWS_def split: if_splits)

theorem transfer_shows_visible_clients_witness:
  "\<exists>ms' cs. transfer_layers_locked insertion_qsort 100 3 90 sample_system = Inr ms' \<and> set cs = {10, 12}
     \<and> ms_native ms' = NcLayerBegin \<lparr>fd_frame_id = 3, fd_display_time_ns = 100,
          fd_env_blend_mode = frame_blend (map (\<lambda>p. the (ms_heap ms' p)) cs)\<rparr>
        # concat (map (\<lambda>p. client_calls (the (ms_heap ms' p))) cs)"
proof -
  have n: "ms_native sample_system = []"
    by (simp add: sample_system_def comp_multi_create_system_compositor_def)
  have "{p \<in> set (listed (ms_clients sample_system)). shown (after_deliver 100 90 (the (ms_heap sample_system p)))} = {10, 12}"
    by (auto simp: sample_system_def sample_client_def new_multi_compositor_def after_deliver_def shown_def
        time_is_greater_then_or_within_half_ms_def)
  with transfer_shows_visible_clients [OF insertion_qsort_ok sample_system_ok, of 100 3 90] n show ?thesis
    by (metis (no_types, lifting) append_Nil)
qed

text \<open>Setting the z order of a client releases \<^verbatim>\<open>list_and_timing_lock\<close> without having taken it: in
  every reachable state that is an unlock of a mutex nobody holds, and while the render thread
  holds it, for instance during \<^verbatim>\<open>transfer_layers_locked\<close>, the call releases the render thread's
  lock.\<close>

lemma set_z_order_unlocks:
  assumes "qsort_spec qs" and "sys_reach qs r" and "ms_heap (sr_ms r) p = Some mc"
  shows "system_compositor_set_z_order p z (sr_ms r) = Inl MutexNotHeld
    \<and> (\<exists>ms'. system_compositor_set_z_order p z (os_mutex_lock (sr_ms r)) = Inr ms' \<and> \<not> ms_locked ms')"
  using sys_reach_inv [OF assms(2,1)] assms(3)
  by (simp add: system_compositor_set_z_order_def with_client_def os_mutex_unlock_def os_mutex_lock_def sys_inv_def
      heap_ok_def)

text \<open>A warm start with no active session renders exactly one frame, with no layers: the native
  session is begun, one frame is predicted, begun and committed, and the next check ends the
  session and goes to sleep.\<close>

lemma warm_start_one_frame:
  assumes "qsort_spec qs"
  shows "\<exists>ms. try_bind (update_session_state_locked (comp_multi_create_system_compositor True now)) (\<lambda>ms.
      try_bind (loop_predict fe ms) (\<lambda>ms. try_bind (loop_wait fe ms) (\<lambda>ms. try_bind (loop_transfer qs fe ms) (\<lambda>ms.
        update_session_state_locked ms)))) = Inr ms
    \<and> ms_state ms = MULTI_SYSTEM_STATE_STOPPED
    \<and> ms_native ms = [NcBeginSession, NcPredictFrame, NcWoke (fe_frame_id fe) (fe_woke_ns fe), NcBeginFrame (fe_frame_id fe),
        NcLayerBegin \<lparr>fd_frame_id = fe_frame_id fe, fd_display_time_ns = fe_display_time_ns fe,
          fd_env_blend_mode = XRT_BLEND_MODE_OPAQUE\<rparr>, NcLayerCommit, NcEndSession]"
proof -
  have e: "qs (overlay_sort_func h) [] = []" for h
    using qsort_overlay(1) [OF assms, of h "[]"] by simp
  have f: "for_clients g (replicate n None) h = Inr h" for g n h by (induction n) auto
  have c: "collect_clients dt sid n (replicate k None) st = Inr st" for dt sid n k st
    by (induction k) (auto simp: collect_client_def split: prod.splits)
  show ?thesis
    by (simp add: e f c comp_multi_create_system_compositor_def update_session_state_locked_def loop_predict_def
        loop_wait_def loop_transfer_def broadcast_timings_to_clients_def broadcast_timings_to_pacers_def
        os_mutex_lock_def os_mutex_unlock_def native_def transfer_layers_locked_def apply_chroma_key_def
        find_active_blend_mode_def)
qed


end
