(* ===== verification/Ipc_Server.thy ===== *)
theory Ipc_Server
  imports Prelude
begin

text \<open>
  The client management of the service, \<^verbatim>\<open>ipc/server/ipc_server_process.c\<close>, with the life of a
  client thread (\<^verbatim>\<open>ipc_server_per_client_thread.c\<close>) and the session requests of
  \<^verbatim>\<open>ipc_server_handler.c\<close>.

  The server has a fixed array of client slots. One of the clients may be the active, that is
  focused and visible, application; overlays are always visible. A client is named by the index
  of its slot. The calls on the system compositor are recorded in a log.
\<close>

section \<open>State\<close>

definition IPC_MAX_CLIENTS :: nat where "IPC_MAX_CLIENTS = 32"

record io_blocks =
  block_poses :: bool
  block_hand_tracking :: bool
  block_inputs :: bool
  block_outputs :: bool

record ipc_app_state =
  as_id :: "32 word"
  primary_application :: bool
  session_active :: bool
  session_visible :: bool
  session_focused :: bool
  session_overlay :: bool
  as_io_blocks :: io_blocks
  as_z_order :: "32 word"

record ipc_client_state =
  has_xs :: bool                  \<comment> \<open>\<^verbatim>\<open>xs != NULL\<close>\<close>
  has_xc :: bool                  \<comment> \<open>\<^verbatim>\<open>xc != NULL\<close>\<close>
  client_state :: ipc_app_state
  server_thread_index :: int
  handle_valid :: bool            \<comment> \<open>\<^verbatim>\<open>imc.ipc_handle\<close>\<close>

datatype ipc_thread_state = IPC_THREAD_READY | IPC_THREAD_STARTING | IPC_THREAD_RUNNING | IPC_THREAD_STOPPING

record ipc_thread =
  it_state :: ipc_thread_state
  it_ics :: ipc_client_state

datatype syscomp_call =
    SetState nat bool bool
  | SetZOrder nat int
  | SetMainAppVisibility nat bool

record ipc_server =
  threads :: "ipc_thread list"
  active_client_index :: int
  last_active_client_index :: int
  connected_client_count :: "32 word"
  id_generator :: "32 word"
  running :: bool
  exit_on_disconnect :: bool
  exit_when_idle :: bool
  last_client_disconnect_ns :: int
  syscomp_log :: "syscomp_call list"

definition zero_app_state :: ipc_app_state where
  "zero_app_state = \<lparr>as_id = 0, primary_application = False, session_active = False, session_visible = False,
     session_focused = False, session_overlay = False,
     as_io_blocks = \<lparr>block_poses = False, block_hand_tracking = False, block_inputs = False, block_outputs = False\<rparr>,
     as_z_order = 0\<rparr>"

definition zero_ics :: ipc_client_state where
  "zero_ics = \<lparr>has_xs = False, has_xc = False, client_state = zero_app_state, server_thread_index = 0, handle_valid = True\<rparr>"

definition ics_of :: "ipc_server \<Rightarrow> nat \<Rightarrow> ipc_client_state" where
  "ics_of s i = it_ics (threads s ! i)"

definition app_of :: "ipc_server \<Rightarrow> nat \<Rightarrow> ipc_app_state" where
  "app_of s i = client_state (ics_of s i)"

definition upd_ics :: "nat \<Rightarrow> (ipc_client_state \<Rightarrow> ipc_client_state) \<Rightarrow> ipc_server \<Rightarrow> ipc_server" where
  "upd_ics i f s = s\<lparr>threads := (threads s)[i := (threads s ! i)\<lparr>it_ics := f (ics_of s i)\<rparr>]\<rparr>"

definition upd_app :: "nat \<Rightarrow> (ipc_app_state \<Rightarrow> ipc_app_state) \<Rightarrow> ipc_server \<Rightarrow> ipc_server" where
  "upd_app i f = upd_ics i (\<lambda>ics. ics\<lparr>client_state := f (client_state ics)\<rparr>)"

definition syscomp :: "syscomp_call list \<Rightarrow> ipc_server \<Rightarrow> ipc_server" where
  "syscomp cs s = s\<lparr>syscomp_log := syscomp_log s @ cs\<rparr>"

definition init_server_state :: "ipc_server \<Rightarrow> ipc_server" where
  "init_server_state s = s\<lparr>active_client_index := -1, last_active_client_index := -1, connected_client_count := 0,
     threads := map (\<lambda>t. t\<lparr>it_ics := (it_ics t)\<lparr>server_thread_index := -1\<rparr>\<rparr>) (threads s)\<rparr>"

text \<open>The part of \<^verbatim>\<open>init_all\<close> that sets up the server object, on zeroed memory.\<close>

definition new_server :: "bool \<Rightarrow> bool \<Rightarrow> ipc_server" where
  "new_server on_disconnect when_idle = init_server_state \<lparr>
     threads = replicate IPC_MAX_CLIENTS \<lparr>it_state = IPC_THREAD_READY, it_ics = zero_ics\<rparr>,
     active_client_index = 0, last_active_client_index = 0, connected_client_count = 0, id_generator = 0,
     running = True, exit_on_disconnect = on_disconnect, exit_when_idle = when_idle, last_client_disconnect_ns = 0,
     syscomp_log = []\<rparr>"

section \<open>Focus\<close>

definition INT64_MIN :: int where "INT64_MIN = - (2 ^ 63)"

definition handle_overlay_client_events :: "nat \<Rightarrow> int \<Rightarrow> int \<Rightarrow> ipc_server \<Rightarrow> ipc_server" where
  "handle_overlay_client_events i active_id prev_active_id s = (
     if \<not> session_overlay (app_of s i) then s
     else if \<not> has_xc (ics_of s i) then s
     else
       let s = (if active_id \<ge> 0 \<and> prev_active_id \<ge> 0
             then syscomp [SetMainAppVisibility i False, SetMainAppVisibility i True] s else s);
           s = (if active_id \<ge> 0 \<and> prev_active_id < 0 then syscomp [SetMainAppVisibility i True] s else s)
       in (if active_id < 0 \<and> prev_active_id \<ge> 0 then syscomp [SetMainAppVisibility i False] s else s))"

definition handle_focused_client_events :: "nat \<Rightarrow> int \<Rightarrow> int \<Rightarrow> ipc_server \<Rightarrow> ipc_server" where
  "handle_focused_client_events i active_id prev_active_id s = (
     let a = app_of s i;
         z = INT64_MIN; foc = False; vis = False;
         (vis, foc, z) = (if server_thread_index (ics_of s i) = active_id then (True, True, INT64_MIN) else (vis, foc, z));
         (vis, foc, z) = (if session_overlay a then (True, True, uint (as_z_order a)) else (vis, foc, z));
         s = upd_app i (\<lambda>a. a\<lparr>session_visible := vis, session_focused := foc, as_z_order := word_of_int z\<rparr>) s
     in if has_xc (ics_of s i) then syscomp [SetState i vis foc, SetZOrder i z] s else s)"

definition flush_client :: "nat \<Rightarrow> ipc_server \<Rightarrow> ipc_server" where
  "flush_client i s = (
     if server_thread_index (ics_of s i) < 0 then s
     else handle_overlay_client_events i (active_client_index s) (last_active_client_index s)
       (handle_focused_client_events i (active_client_index s) (last_active_client_index s) s))"

definition flush_state_to_all_clients_locked :: "ipc_server \<Rightarrow> ipc_server" where
  "flush_state_to_all_clients_locked s = fold flush_client [0..<IPC_MAX_CLIENTS] s"

text \<open>A client that can be the active application.\<close>

definition fallback_candidate :: "ipc_server \<Rightarrow> nat \<Rightarrow> bool" where
  "fallback_candidate s i \<longleftrightarrow> \<not> session_overlay (app_of s i) \<and> server_thread_index (ics_of s i) \<ge> 0
     \<and> session_active (app_of s i)"

definition fallback_active_application :: "ipc_server \<Rightarrow> int" where
  "fallback_active_application s =
     fold (\<lambda>i fb. if fallback_candidate s i then int i else fb) [0..<IPC_MAX_CLIENTS] (-1)"

definition thread_at :: "ipc_server \<Rightarrow> int \<Rightarrow> fault + ipc_client_state" where
  "thread_at s i = try_bind (arr_get (threads s) (nat i)) (\<lambda>t. Inr (it_ics t))"

definition choose_active :: "ipc_server \<Rightarrow> fault + ipc_server" where
  "choose_active s = (
     let fb = fallback_active_application s;
         set_idle = (fb = -1)
     in try_bind (
       if active_client_index s \<ge> 0 then
         try_bind (thread_at s (active_client_index s)) (\<lambda>ics.
           if \<not> (\<not> session_overlay (client_state ics) \<and> session_active (client_state ics))
           then Inr (s\<lparr>active_client_index := fb\<rparr>) else Inr s)
       else Inr s) (\<lambda>s.
       Inr (if set_idle then s\<lparr>active_client_index := -1\<rparr> else s)))"

definition update_server_state_locked :: "ipc_server \<Rightarrow> fault + ipc_server" where
  "update_server_state_locked s =
     try_bind (
       if active_client_index s \<ge> 0 then
         try_bind (thread_at s (active_client_index s)) (\<lambda>ics.
           Inr (session_active (client_state ics) \<and> active_client_index s = last_active_client_index s))
       else Inr False) (\<lambda>early_out.
     if early_out then Inr s
     else try_bind (choose_active s) (\<lambda>s.
       let s = flush_state_to_all_clients_locked s
       in Inr (s\<lparr>last_active_client_index := active_client_index s\<rparr>)))"

definition find_client_locked :: "ipc_server \<Rightarrow> 32 word \<Rightarrow> nat option" where
  "find_client_locked s client_id = (
     if client_id = 0 \<or> client_id > 0x7FFFFFFF then None
     else case find (\<lambda>i. as_id (app_of s i) = client_id) [0..<IPC_MAX_CLIENTS] of
       None \<Rightarrow> None
     | Some i \<Rightarrow> if handle_valid (ics_of s i) then Some i else None)"

definition get_client_app_state_locked :: "ipc_server \<Rightarrow> 32 word \<Rightarrow> xrt_result + ipc_app_state" where
  "get_client_app_state_locked s client_id = (case find_client_locked s client_id of
     None \<Rightarrow> Inl XRT_ERROR_IPC_FAILURE
   | Some i \<Rightarrow> Inr ((app_of s i)\<lparr>primary_application :=
       (active_client_index s = server_thread_index (ics_of s i))\<rparr>))"

definition set_active_client_locked :: "32 word \<Rightarrow> ipc_server \<Rightarrow> fault + (ipc_server \<times> xrt_result)" where
  "set_active_client_locked client_id s = (case find_client_locked s client_id of
     None \<Rightarrow> Inr (s, XRT_ERROR_IPC_FAILURE)
   | Some i \<Rightarrow>
       let index = server_thread_index (ics_of s i)
       in if index \<noteq> active_client_index s
          then try_bind (update_server_state_locked (s\<lparr>active_client_index := index\<rparr>)) (\<lambda>s. Inr (s, XRT_SUCCESS))
          else Inr (s, XRT_SUCCESS))"

definition toggle_io_client_locked :: "32 word \<Rightarrow> ipc_server \<Rightarrow> ipc_server \<times> xrt_result" where
  "toggle_io_client_locked client_id s = (case find_client_locked s client_id of
     None \<Rightarrow> (s, XRT_ERROR_IPC_FAILURE)
   | Some i \<Rightarrow>
       let iob = as_io_blocks (app_of s i);
           io_active = (block_poses iob \<and> block_hand_tracking iob \<and> block_inputs iob \<and> block_outputs iob);
           b = (\<not> io_active)
       in (upd_app i (\<lambda>a. a\<lparr>as_io_blocks := \<lparr>block_poses = b, block_hand_tracking = b, block_inputs = b, block_outputs = b\<rparr>\<rparr>) s,
           XRT_SUCCESS))"

definition set_client_io_blocks_locked :: "32 word \<Rightarrow> io_blocks \<Rightarrow> ipc_server \<Rightarrow> ipc_server \<times> xrt_result" where
  "set_client_io_blocks_locked client_id blocks s = (case find_client_locked s client_id of
     None \<Rightarrow> (s, XRT_ERROR_IPC_FAILURE)
   | Some i \<Rightarrow> (upd_app i (\<lambda>a. a\<lparr>as_io_blocks := blocks\<rparr>) s, XRT_SUCCESS))"

text \<open>The loop of \<^verbatim>\<open>allocate_id_locked\<close> over the ids in use; \<open>None\<close> would be a loop without end.\<close>

partial_function (option) allocate_id_loop :: "32 word list \<Rightarrow> 32 word \<Rightarrow> 32 word option" where
  "allocate_id_loop ids gen = (
     let id = gen + 1
     in if id \<noteq> 0 \<and> id \<notin> set ids then Some id else allocate_id_loop ids id)"

definition client_ids :: "ipc_server \<Rightarrow> 32 word list" where
  "client_ids s = map (\<lambda>t. as_id (client_state (it_ics t))) (threads s)"

definition allocate_id_locked :: "ipc_server \<Rightarrow> (ipc_server \<times> 32 word) option" where
  "allocate_id_locked s =
     map_option (\<lambda>id. (s\<lparr>id_generator := id\<rparr>, id)) (allocate_id_loop (client_ids s) (id_generator s))"

section \<open>Sessions of the clients\<close>

definition ipc_server_activate_session :: "nat \<Rightarrow> ipc_server \<Rightarrow> fault + ipc_server" where
  "ipc_server_activate_session i s = (
     if session_active (app_of s i) then Inr s
     else try_bind (c_assert (server_thread_index (ics_of s i) \<ge> 0)) (\<lambda>_.
       let s = upd_app i (\<lambda>a. a\<lparr>session_active := True\<rparr>) s
       in if session_overlay (app_of s i)
          then Inr (handle_overlay_client_events i (active_client_index s) (last_active_client_index s)
            (handle_focused_client_events i (active_client_index s) (last_active_client_index s) s))
          else try_bind (set_active_client_locked (as_id (app_of s i)) s) (\<lambda>(s, _). Inr s)))"

definition ipc_server_deactivate_session :: "nat \<Rightarrow> ipc_server \<Rightarrow> fault + ipc_server" where
  "ipc_server_deactivate_session i s =
     update_server_state_locked (upd_app i (\<lambda>a. a\<lparr>session_active := False\<rparr>) s)"

text \<open>
  \<^verbatim>\<open>ipc_handle_session_create\<close> with the compositor every session gets by default; \<open>xret\<close> is the
  answer of the system.
\<close>

definition ipc_handle_session_create ::
  "nat \<Rightarrow> bool \<Rightarrow> 32 word \<Rightarrow> xrt_result \<Rightarrow> ipc_server \<Rightarrow> ipc_server \<times> xrt_result" where
  "ipc_handle_session_create i is_overlay z xret s = (
     if has_xs (ics_of s i) then (s, XRT_ERROR_IPC_SESSION_ALREADY_CREATED)
     else if xret \<noteq> XRT_SUCCESS then (s, xret)
     else
       let s = upd_app i (\<lambda>a. a\<lparr>session_overlay := is_overlay, as_z_order := z\<rparr>) s;
           s = upd_ics i (\<lambda>ics. ics\<lparr>has_xs := True, has_xc := True\<rparr>) s;
           a = app_of s i
       in (syscomp [SetState i (session_visible a) (session_focused a), SetZOrder i (uint (as_z_order a))] s, XRT_SUCCESS))"

definition ipc_server_client_destroy_session_and_compositor :: "nat \<Rightarrow> ipc_server \<Rightarrow> ipc_server" where
  "ipc_server_client_destroy_session_and_compositor i s = upd_ics i (\<lambda>ics. ics\<lparr>has_xs := False, has_xc := False\<rparr>) s"

definition ipc_handle_session_destroy :: "nat \<Rightarrow> ipc_server \<Rightarrow> ipc_server \<times> xrt_result" where
  "ipc_handle_session_destroy i s = (
     if \<not> has_xs (ics_of s i) then (s, XRT_ERROR_IPC_SESSION_NOT_CREATED)
     else (ipc_server_client_destroy_session_and_compositor i s, XRT_SUCCESS))"

definition ipc_handle_compositor_predict_frame :: "nat \<Rightarrow> ipc_server \<Rightarrow> fault + (ipc_server \<times> xrt_result)" where
  "ipc_handle_compositor_predict_frame i s = (
     if \<not> has_xc (ics_of s i) then Inr (s, XRT_ERROR_IPC_SESSION_NOT_CREATED)
     else try_bind (ipc_server_activate_session i s) (\<lambda>s. Inr (s, XRT_SUCCESS)))"

section \<open>Connections\<close>

text \<open>
  \<^verbatim>\<open>ipc_server_handle_client_connected\<close> up to the join of the thread that used the slot before:
  the connection is refused, the slot is ready, or the old thread has to be joined.
\<close>

datatype connect_outcome = Refused | SlotReady nat | JoinFirst nat

definition connect_find :: "ipc_server \<Rightarrow> ipc_server \<times> connect_outcome" where
  "connect_find s = (
     let s = s\<lparr>connected_client_count := connected_client_count s + 1, last_client_disconnect_ns := 0\<rparr>
     in case find (\<lambda>i. server_thread_index (ics_of s i) < 0) [0..<IPC_MAX_CLIENTS] of
       None \<Rightarrow> (s, Refused)
     | Some i \<Rightarrow>
         let st = it_state (threads s ! i)
         in if st \<noteq> IPC_THREAD_READY \<and> st \<noteq> IPC_THREAD_STOPPING then (s, Refused)
            else if st \<noteq> IPC_THREAD_READY then (s, JoinFirst i)
            else (s, SlotReady i))"

text \<open>The rest of the function; \<open>shm\<close>: the shared memory was created. The flag: a thread was started.\<close>

definition connect_start :: "bool \<Rightarrow> nat \<Rightarrow> ipc_server \<Rightarrow> (ipc_server \<times> bool) option" where
  "connect_start shm i s = (
     let s = s\<lparr>threads := (threads s)[i := (threads s ! i)\<lparr>it_state := IPC_THREAD_STARTING\<rparr>]\<rparr>
     in map_option (\<lambda>(s, id).
       (upd_ics i (\<lambda>_. zero_ics\<lparr>client_state := zero_app_state\<lparr>as_id := id\<rparr>, server_thread_index := int i\<rparr>) s, shm))
       (allocate_id_locked s))"

text \<open>The three locked stretches of \<^verbatim>\<open>common_shutdown\<close>, in order.\<close>

definition shutdown_release :: "nat \<Rightarrow> ipc_server \<Rightarrow> ipc_server" where
  "shutdown_release i s = (
     let s = s\<lparr>threads := (threads s)[i := (threads s ! i)\<lparr>it_state := IPC_THREAD_STOPPING\<rparr>]\<rparr>;
         s = upd_ics i (\<lambda>ics. ics\<lparr>server_thread_index := -1, client_state := zero_app_state, handle_valid := False\<rparr>) s
     in s\<lparr>connected_client_count := connected_client_count s - 1\<rparr>)"

definition shutdown_exit_checks :: "int \<Rightarrow> ipc_server \<Rightarrow> ipc_server \<times> bool" where
  "shutdown_exit_checks now_ns s = (
     let s = (if exit_on_disconnect s then s\<lparr>running := False\<rparr> else s)
     in if exit_when_idle s \<and> connected_client_count s = 0
        then (s\<lparr>last_client_disconnect_ns := now_ns\<rparr>, True) else (s, False))"

definition delayed_exit_thread :: "ipc_server \<Rightarrow> ipc_server" where
  "delayed_exit_thread s = (
     if exit_when_idle s \<and> connected_client_count s = 0 \<and> last_client_disconnect_ns s > 0
     then s\<lparr>running := False\<rparr> else s)"

end
