(* ===== verification/Ipc_Focus.thy ===== *)
theory Ipc_Focus
  imports Ipc_Server
begin

text \<open>
  The threads of the service and the properties of its client management: which client has the
  focus, the identifiers of clients, the count of connections, and the join of an old client
  thread.
\<close>

section \<open>The threads\<close>

text \<open>
  Where the thread of a slot is: none started, serving, past the first or the second locked
  stretch of \<^verbatim>\<open>common_shutdown\<close>, or ended. The main thread keeps \<^verbatim>\<open>global_state.lock\<close> while it joins.
\<close>

datatype thread_pc = TNone | TRunning | TReleased | TDestroyed | TDone

datatype main_pc = MIdle | MJoining nat

record irun =
  ir_s :: ipc_server
  ir_pc :: "nat \<Rightarrow> thread_pc"
  ir_main :: main_pc
  ir_lost :: nat                  \<comment> \<open>connections that were refused or got no thread\<close>

definition started :: "irun \<Rightarrow> nat \<Rightarrow> ipc_server \<times> bool \<Rightarrow> irun" where
  "started r i res = r\<lparr>ir_s := fst res, ir_pc := (ir_pc r)(i := if snd res then TRunning else TNone),
     ir_main := MIdle, ir_lost := ir_lost r + (if snd res then 0 else 1)\<rparr>"

definition with_s :: "irun \<Rightarrow> fault + ipc_server \<Rightarrow> fault + irun" where
  "with_s r m = try_bind m (\<lambda>s. Inr (r\<lparr>ir_s := s\<rparr>))"

definition id_findable :: "ipc_server \<Rightarrow> bool" where
  "id_findable s \<longleftrightarrow> id_generator s \<le> 0x7FFFFFFF"

text \<open>
  Clients keep the kind of session they have been active with (an overlay never becomes a main
  application), and fewer than \<open>2 ^ 31\<close> connections are made.
\<close>

definition kind_kept :: "bool \<Rightarrow> ipc_app_state \<Rightarrow> bool" where
  "kind_kept is_overlay a \<longleftrightarrow> is_overlay = session_overlay a \<or> (is_overlay \<and> \<not> session_active a)"

inductive ipc_step :: "irun \<Rightarrow> fault + irun \<Rightarrow> bool" where
  connect_refused: "ir_main r = MIdle \<Longrightarrow> connect_find (ir_s r) = (s, Refused) \<Longrightarrow>
    ipc_step r (Inr (r\<lparr>ir_s := s, ir_lost := ir_lost r + 1\<rparr>))"
| connect_join: "ir_main r = MIdle \<Longrightarrow> connect_find (ir_s r) = (s, JoinFirst i) \<Longrightarrow>
    ipc_step r (Inr (r\<lparr>ir_s := s, ir_main := MJoining i\<rparr>))"
| connect_ready: "ir_main r = MIdle \<Longrightarrow> connect_find (ir_s r) = (s, SlotReady i) \<Longrightarrow>
    connect_start shm i s = Some res \<Longrightarrow> id_findable (fst res) \<Longrightarrow> ipc_step r (Inr (started r i res))"
| connect_joined: "ir_main r = MJoining i \<Longrightarrow> ir_pc r i = TDone \<Longrightarrow>
    connect_start shm i (ir_s r) = Some res \<Longrightarrow> id_findable (fst res) \<Longrightarrow> ipc_step r (Inr (started r i res))"
| session_create: "ir_main r = MIdle \<Longrightarrow> ir_pc r i = TRunning \<Longrightarrow> kind_kept ov (app_of (ir_s r) i) \<Longrightarrow>
    ipc_step r (Inr (r\<lparr>ir_s := fst (ipc_handle_session_create i ov z xret (ir_s r))\<rparr>))"
| session_destroy: "ir_main r = MIdle \<Longrightarrow> ir_pc r i = TRunning \<Longrightarrow>
    ipc_step r (Inr (r\<lparr>ir_s := fst (ipc_handle_session_destroy i (ir_s r))\<rparr>))"
| predict_frame: "ir_main r = MIdle \<Longrightarrow> ir_pc r i = TRunning \<Longrightarrow>
    ipc_step r (with_s r (try_bind (ipc_handle_compositor_predict_frame i (ir_s r)) (\<lambda>(s, _). Inr s)))"
| set_active: "ir_main r = MIdle \<Longrightarrow>
    ipc_step r (with_s r (try_bind (set_active_client_locked client_id (ir_s r)) (\<lambda>(s, _). Inr s)))"
| toggle_io: "ir_main r = MIdle \<Longrightarrow>
    ipc_step r (Inr (r\<lparr>ir_s := fst (toggle_io_client_locked client_id (ir_s r))\<rparr>))"
| set_io: "ir_main r = MIdle \<Longrightarrow>
    ipc_step r (Inr (r\<lparr>ir_s := fst (set_client_io_blocks_locked client_id blocks (ir_s r))\<rparr>))"
| release: "ir_main r = MIdle \<Longrightarrow> ir_pc r i = TRunning \<Longrightarrow>
    ipc_step r (Inr (r\<lparr>ir_s := shutdown_release i (ir_s r), ir_pc := (ir_pc r)(i := TReleased)\<rparr>))"
| destroyed: "ir_main r = MIdle \<Longrightarrow> ir_pc r i = TReleased \<Longrightarrow>
    ipc_step r (Inr (r\<lparr>ir_s := fst (shutdown_exit_checks now
      (ipc_server_client_destroy_session_and_compositor i (ir_s r))), ir_pc := (ir_pc r)(i := TDestroyed)\<rparr>))"
| deactivated: "ir_main r = MIdle \<Longrightarrow> ir_pc r i = TDestroyed \<Longrightarrow>
    ipc_step r (try_bind (ipc_server_deactivate_session i (ir_s r)) (\<lambda>s.
      Inr (r\<lparr>ir_s := s, ir_pc := (ir_pc r)(i := TDone)\<rparr>)))"
| delayed_exit: "ir_main r = MIdle \<Longrightarrow> ipc_step r (Inr (r\<lparr>ir_s := delayed_exit_thread (ir_s r)\<rparr>))"

definition new_run :: "bool \<Rightarrow> bool \<Rightarrow> irun" where
  "new_run on_disconnect when_idle =
     \<lparr>ir_s = new_server on_disconnect when_idle, ir_pc = (\<lambda>_. TNone), ir_main = MIdle, ir_lost = 0\<rparr>"

inductive ipc_reach :: "irun \<Rightarrow> bool" where
  ipc_init: "ipc_reach (new_run on_disconnect when_idle)"
| ipc_more: "ipc_reach r \<Longrightarrow> ipc_step r (Inr r') \<Longrightarrow> ipc_reach r'"

section \<open>Flushing the state\<close>

definition flush_app :: "int \<Rightarrow> ipc_client_state \<Rightarrow> ipc_app_state" where
  "flush_app act ics = (let a = client_state ics; v = (server_thread_index ics = act \<or> session_overlay a)
     in a\<lparr>session_visible := v, session_focused := v,
       as_z_order := (if session_overlay a then as_z_order a else word_of_int INT64_MIN)\<rparr>)"

definition flush_thread :: "int \<Rightarrow> ipc_thread \<Rightarrow> ipc_thread" where
  "flush_thread act t = (if server_thread_index (it_ics t) < 0 then t
     else t\<lparr>it_ics := (it_ics t)\<lparr>client_state := flush_app act (it_ics t)\<rparr>\<rparr>)"

lemma overlay_events_eq: "\<exists>L. handle_overlay_client_events i act prev s = s\<lparr>syscomp_log := L\<rparr>"
proof -
  have "handle_overlay_client_events i act prev s =
      s\<lparr>syscomp_log := syscomp_log (handle_overlay_client_events i act prev s)\<rparr>"
    by (simp add: handle_overlay_client_events_def syscomp_def Let_def)
  then show ?thesis by (rule exI)
qed

lemma focused_events_eq:
  assumes "i < length (threads s)"
  shows "\<exists>L. handle_focused_client_events i act prev s =
    s\<lparr>threads := (threads s)[i := (threads s ! i)\<lparr>it_ics := (ics_of s i)\<lparr>client_state := flush_app act (ics_of s i)\<rparr>\<rparr>],
      syscomp_log := L\<rparr>"
proof -
  have "handle_focused_client_events i act prev s =
    (s\<lparr>threads := (threads s)[i := (threads s ! i)\<lparr>it_ics := (ics_of s i)\<lparr>client_state := flush_app act (ics_of s i)\<rparr>\<rparr>]\<rparr>)
      \<lparr>syscomp_log := syscomp_log (handle_focused_client_events i act prev s)\<rparr>"
    using assms
    by (cases "server_thread_index (ics_of s i) = act"; cases "session_overlay (app_of s i)"; cases "has_xc (ics_of s i)")
      (simp_all add: handle_focused_client_events_def upd_app_def upd_ics_def syscomp_def ics_of_def app_of_def
        flush_app_def Let_def)
  then show ?thesis by (intro exI) simp
qed

lemma handle_events_eq:
  assumes "i < length (threads s)"
  shows "\<exists>L. handle_overlay_client_events i act prev (handle_focused_client_events i act prev s) =
    s\<lparr>threads := (threads s)[i := (threads s ! i)\<lparr>it_ics := (ics_of s i)\<lparr>client_state := flush_app act (ics_of s i)\<rparr>\<rparr>],
      syscomp_log := L\<rparr>"
  using focused_events_eq [OF assms, of act prev]
    overlay_events_eq [of i act prev "handle_focused_client_events i act prev s"]
  by fastforce

lemma flush_client_eq:
  assumes "i < length (threads s)"
  shows "\<exists>L. flush_client i s =
    s\<lparr>threads := (threads s)[i := flush_thread (active_client_index s) (threads s ! i)], syscomp_log := L\<rparr>"
proof (cases "server_thread_index (ics_of s i) < 0")
  case True
  then show ?thesis
    by (intro exI [of _ "syscomp_log s"]) (simp add: flush_client_def flush_thread_def ics_of_def)
next
  case False
  then show ?thesis
    using handle_events_eq [OF assms, of "active_client_index s" "last_active_client_index s"]
    by (simp add: flush_client_def flush_thread_def ics_of_def)
qed

lemma flush_upto:
  assumes "n \<le> length (threads s)"
  shows "\<exists>L. fold flush_client [0..<n] s =
    s\<lparr>threads := map (flush_thread (active_client_index s)) (take n (threads s)) @ drop n (threads s), syscomp_log := L\<rparr>"
  using assms
proof (induction n)
  case 0
  then show ?case by (intro exI [of _ "syscomp_log s"]) simp
next
  case (Suc n)
  let ?ts = "map (flush_thread (active_client_index s)) (take n (threads s)) @ drop n (threads s)"
  from Suc obtain L where L: "fold flush_client [0..<n] s = s\<lparr>threads := ?ts, syscomp_log := L\<rparr>" by auto
  have n: "n < length ?ts" "?ts ! n = threads s ! n" using Suc.prems by (simp_all add: nth_append)
  have "?ts[n := flush_thread (active_client_index s) (threads s ! n)] =
      map (flush_thread (active_client_index s)) (take (Suc n) (threads s)) @ drop (Suc n) (threads s)"
    using Suc.prems
    by (simp add: list_update_append take_Suc_conv_app_nth Cons_nth_drop_Suc [symmetric])
  with flush_client_eq [of n "s\<lparr>threads := ?ts, syscomp_log := L\<rparr>"] n L show ?case
    by simp
qed

lemma flush_all_eq:
  assumes "length (threads s) = IPC_MAX_CLIENTS"
  shows "\<exists>L. flush_state_to_all_clients_locked s =
    s\<lparr>threads := map (flush_thread (active_client_index s)) (threads s), syscomp_log := L\<rparr>"
  using flush_upto [of IPC_MAX_CLIENTS s] assms by (simp add: flush_state_to_all_clients_locked_def)

lemma fallback_cases:
  "(fallback_active_application s = -1 \<and> (\<forall>i < IPC_MAX_CLIENTS. \<not> fallback_candidate s i))
   \<or> (\<exists>i < IPC_MAX_CLIENTS. fallback_active_application s = int i \<and> fallback_candidate s i)"
proof -
  have "(fold (\<lambda>i fb. if fallback_candidate s i then int i else fb) [0..<n] (-1) = -1 \<and> (\<forall>i < n. \<not> fallback_candidate s i))
    \<or> (\<exists>i < n. fold (\<lambda>i fb. if fallback_candidate s i then int i else fb) [0..<n] (-1) = int i \<and> fallback_candidate s i)" for n
    by (induction n) (auto simp: less_Suc_eq)
  then show ?thesis by (simp add: fallback_active_application_def)
qed

section \<open>Reading an updated server\<close>

definition idx :: "ipc_server \<Rightarrow> nat \<Rightarrow> int" where "idx s i = server_thread_index (ics_of s i)"
definition hv :: "ipc_server \<Rightarrow> nat \<Rightarrow> bool" where "hv s i = handle_valid (ics_of s i)"
definition st :: "ipc_server \<Rightarrow> nat \<Rightarrow> ipc_thread_state" where "st s i = it_state (threads s ! i)"

lemmas view_defs = idx_def hv_def st_def app_of_def ics_of_def

lemma view_frame [simp]:
  "idx (s\<lparr>active_client_index := a\<rparr>) i = idx s i" "idx (s\<lparr>last_active_client_index := a\<rparr>) i = idx s i"
  "idx (s\<lparr>connected_client_count := c\<rparr>) i = idx s i" "idx (s\<lparr>last_client_disconnect_ns := t\<rparr>) i = idx s i"
  "idx (s\<lparr>syscomp_log := l\<rparr>) i = idx s i" "idx (s\<lparr>running := b\<rparr>) i = idx s i" "idx (s\<lparr>id_generator := g\<rparr>) i = idx s i"
  "hv (s\<lparr>active_client_index := a\<rparr>) i = hv s i" "hv (s\<lparr>last_active_client_index := a\<rparr>) i = hv s i"
  "hv (s\<lparr>connected_client_count := c\<rparr>) i = hv s i" "hv (s\<lparr>last_client_disconnect_ns := t\<rparr>) i = hv s i"
  "hv (s\<lparr>syscomp_log := l\<rparr>) i = hv s i" "hv (s\<lparr>running := b\<rparr>) i = hv s i" "hv (s\<lparr>id_generator := g\<rparr>) i = hv s i"
  "st (s\<lparr>active_client_index := a\<rparr>) i = st s i" "st (s\<lparr>last_active_client_index := a\<rparr>) i = st s i"
  "st (s\<lparr>connected_client_count := c\<rparr>) i = st s i" "st (s\<lparr>last_client_disconnect_ns := t\<rparr>) i = st s i"
  "st (s\<lparr>syscomp_log := l\<rparr>) i = st s i" "st (s\<lparr>running := b\<rparr>) i = st s i" "st (s\<lparr>id_generator := g\<rparr>) i = st s i"
  "app_of (s\<lparr>active_client_index := a\<rparr>) i = app_of s i" "app_of (s\<lparr>last_active_client_index := a\<rparr>) i = app_of s i"
  "app_of (s\<lparr>connected_client_count := c\<rparr>) i = app_of s i" "app_of (s\<lparr>last_client_disconnect_ns := t\<rparr>) i = app_of s i"
  "app_of (s\<lparr>syscomp_log := l\<rparr>) i = app_of s i" "app_of (s\<lparr>running := b\<rparr>) i = app_of s i"
  "app_of (s\<lparr>id_generator := g\<rparr>) i = app_of s i"
  by (simp_all add: view_defs)

lemma view_upd [simp]:
  assumes "i < length (threads s)"
  shows "app_of (upd_app i f s) j = (if j = i then f (app_of s i) else app_of s j)"
    and "idx (upd_app i f s) j = idx s j" and "hv (upd_app i f s) j = hv s j" and "st (upd_app i f s) j = st s j"
    and "length (threads (upd_app i f s)) = length (threads s)"
    and "active_client_index (upd_app i f s) = active_client_index s"
    and "last_active_client_index (upd_app i f s) = last_active_client_index s"
    and "connected_client_count (upd_app i f s) = connected_client_count s"
  using assms by (auto simp: view_defs upd_app_def upd_ics_def nth_list_update)

definition candidate :: "ipc_server \<Rightarrow> nat \<Rightarrow> bool" where
  "candidate s i \<longleftrightarrow> \<not> session_overlay (app_of s i) \<and> idx s i \<ge> 0 \<and> session_active (app_of s i)"

lemma candidate_eq: "fallback_candidate s = candidate s"
  by (simp add: fun_eq_iff fallback_candidate_def candidate_def idx_def)

section \<open>The invariant\<close>

definition id_ok :: "32 word \<Rightarrow> bool" where
  "id_ok c \<longleftrightarrow> c \<noteq> 0 \<and> c \<le> 0x7FFFFFFF"

lemma id_ok_zero [simp]: "\<not> id_ok 0"
  by (simp add: id_ok_def)

lemma zero_app_simps [simp]:
  "as_id zero_app_state = 0" "\<not> session_active zero_app_state" "\<not> session_overlay zero_app_state"
  "\<not> session_visible zero_app_state" "\<not> session_focused zero_app_state"
  by (simp_all add: zero_app_state_def)

definition slot_ok :: "ipc_server \<Rightarrow> (nat \<Rightarrow> thread_pc) \<Rightarrow> nat \<Rightarrow> bool" where
  "slot_ok s pc i \<longleftrightarrow>
     (idx s i = int i \<and> id_ok (as_id (app_of s i)) \<and> hv s i \<and> pc i \<in> {TNone, TRunning}
       \<or> idx s i = -1 \<and> app_of s i = zero_app_state
         \<and> (pc i = TNone \<and> st s i = IPC_THREAD_READY
            \<or> pc i \<in> {TReleased, TDestroyed, TDone} \<and> st s i = IPC_THREAD_STOPPING))
     \<and> (session_active (app_of s i) \<longrightarrow> pc i = TRunning)"

definition slots_ok :: "ipc_server \<Rightarrow> (nat \<Rightarrow> thread_pc) \<Rightarrow> bool" where
  "slots_ok s pc \<longleftrightarrow> length (threads s) = IPC_MAX_CLIENTS \<and> (\<forall>i < IPC_MAX_CLIENTS. slot_ok s pc i)
     \<and> (\<forall>i \<ge> IPC_MAX_CLIENTS. pc i = TNone)
     \<and> (\<forall>i < IPC_MAX_CLIENTS. \<forall>j < IPC_MAX_CLIENTS. as_id (app_of s i) = as_id (app_of s j) \<longrightarrow>
          as_id (app_of s i) \<noteq> 0 \<longrightarrow> i = j)"

definition focus_ok :: "ipc_server \<Rightarrow> (nat \<Rightarrow> thread_pc) \<Rightarrow> bool" where
  "focus_ok s pc \<longleftrightarrow> last_active_client_index s = active_client_index s
     \<and> (active_client_index s = -1 \<and> (\<forall>i < IPC_MAX_CLIENTS. \<not> candidate s i)
        \<or> (\<exists>i < IPC_MAX_CLIENTS. active_client_index s = int i \<and> (candidate s i \<or> pc i \<in> {TReleased, TDestroyed})))"

definition vis_ok :: "ipc_server \<Rightarrow> bool" where
  "vis_ok s \<longleftrightarrow> (\<forall>i < IPC_MAX_CLIENTS. idx s i = int i \<longrightarrow>
     (\<not> session_overlay (app_of s i) \<longrightarrow>
        session_visible (app_of s i) = (int i = active_client_index s)
        \<and> session_focused (app_of s i) = (int i = active_client_index s))
     \<and> (session_overlay (app_of s i) \<and> session_active (app_of s i) \<longrightarrow>
        session_visible (app_of s i) \<and> session_focused (app_of s i)))"

definition count_ok :: "irun \<Rightarrow> bool" where
  "count_ok r \<longleftrightarrow> connected_client_count (ir_s r) =
     of_nat (card {i. i < IPC_MAX_CLIENTS \<and> ir_pc r i = TRunning} + ir_lost r + (if ir_main r = MIdle then 0 else 1))"

definition main_ok :: "irun \<Rightarrow> bool" where
  "main_ok r \<longleftrightarrow> (\<forall>i. ir_main r = MJoining i \<longrightarrow>
     i < IPC_MAX_CLIENTS \<and> ir_pc r i \<in> {TReleased, TDestroyed, TDone})"

definition ipc_inv :: "irun \<Rightarrow> bool" where
  "ipc_inv r \<longleftrightarrow> slots_ok (ir_s r) (ir_pc r) \<and> focus_ok (ir_s r) (ir_pc r) \<and> vis_ok (ir_s r) \<and> count_ok r \<and> main_ok r"

text \<open>What the invariant reads of the server.\<close>

definition same_view :: "ipc_server \<Rightarrow> ipc_server \<Rightarrow> bool" where
  "same_view s' s \<longleftrightarrow> length (threads s') = length (threads s)
     \<and> active_client_index s' = active_client_index s \<and> last_active_client_index s' = last_active_client_index s
     \<and> (\<forall>i. idx s' i = idx s i \<and> hv s' i = hv s i \<and> st s' i = st s i
        \<and> (\<exists>io z. app_of s' i = (app_of s i)\<lparr>as_io_blocks := io, as_z_order := z\<rparr>)
        \<and> (idx s i = -1 \<longrightarrow> app_of s' i = app_of s i))"

lemma same_viewD:
  assumes "same_view s' s"
  shows "as_id (app_of s' i) = as_id (app_of s i)" "session_active (app_of s' i) = session_active (app_of s i)"
    "session_visible (app_of s' i) = session_visible (app_of s i)" "session_focused (app_of s' i) = session_focused (app_of s i)"
    "session_overlay (app_of s' i) = session_overlay (app_of s i)"
proof -
  obtain io z where "app_of s' i = (app_of s i)\<lparr>as_io_blocks := io, as_z_order := z\<rparr>"
    using assms unfolding same_view_def by blast
  then show "as_id (app_of s' i) = as_id (app_of s i)" "session_active (app_of s' i) = session_active (app_of s i)"
    "session_visible (app_of s' i) = session_visible (app_of s i)" "session_focused (app_of s' i) = session_focused (app_of s i)"
    "session_overlay (app_of s' i) = session_overlay (app_of s i)"
    by simp_all
qed

lemma same_view_ok:
  assumes v: "same_view s' s"
  shows "slots_ok s pc \<Longrightarrow> slots_ok s' pc" and "focus_ok s pc \<Longrightarrow> focus_ok s' pc" and "vis_ok s \<Longrightarrow> vis_ok s'"
proof -
  have r: "idx s' i = idx s i" "hv s' i = hv s i" "st s' i = st s i" "idx s i = -1 \<Longrightarrow> app_of s' i = app_of s i" for i
    using v by (auto simp: same_view_def)
  have t: "length (threads s') = length (threads s)" "active_client_index s' = active_client_index s"
    "last_active_client_index s' = last_active_client_index s"
    using v by (auto simp: same_view_def)
  have sl: "slot_ok s pc i \<Longrightarrow> slot_ok s' pc i" for i
    using r by (auto simp: slot_ok_def same_viewD [OF v])
  show "slots_ok s pc \<Longrightarrow> slots_ok s' pc"
    using sl t by (simp add: slots_ok_def same_viewD [OF v])
  have "candidate s' = candidate s"
    by (simp add: fun_eq_iff candidate_def r same_viewD [OF v])
  then show "focus_ok s pc \<Longrightarrow> focus_ok s' pc"
    by (simp add: focus_ok_def t)
  show "vis_ok s \<Longrightarrow> vis_ok s'"
    by (simp add: vis_ok_def r t same_viewD [OF v])
qed

lemma ipc_inv_view:
  assumes "ipc_inv r" and "same_view s' (ir_s r)" and "connected_client_count s' = connected_client_count (ir_s r)"
  shows "ipc_inv (r\<lparr>ir_s := s'\<rparr>)"
  using assms same_view_ok [OF assms(2)] by (simp add: ipc_inv_def count_ok_def main_ok_def)

section \<open>Choosing the active client\<close>

text \<open>The state that \<^verbatim>\<open>update_server_state_locked\<close> leaves when it does not return early.\<close>

definition refocused :: "ipc_server \<Rightarrow> ipc_server \<Rightarrow> bool" where
  "refocused s s' \<longleftrightarrow> (\<exists>act L. s' = s\<lparr>active_client_index := act,
       threads := map (flush_thread act) (threads s), syscomp_log := L, last_active_client_index := act\<rparr>
     \<and> (act = -1 \<and> (\<forall>i < IPC_MAX_CLIENTS. \<not> candidate s i) \<or> (\<exists>i < IPC_MAX_CLIENTS. act = int i \<and> candidate s i)))"

definition active_in_range :: "ipc_server \<Rightarrow> bool" where
  "active_in_range s \<longleftrightarrow> active_client_index s = -1 \<and> (\<forall>i < IPC_MAX_CLIENTS. \<not> candidate s i)
     \<or> (\<exists>i < IPC_MAX_CLIENTS. active_client_index s = int i
          \<and> (session_active (app_of s i) \<longrightarrow> idx s i \<ge> 0))"

lemma choose_active_ok:
  assumes len: "length (threads s) = IPC_MAX_CLIENTS" and act: "active_in_range s"
  shows "\<exists>act. choose_active s = Inr (s\<lparr>active_client_index := act\<rparr>)
    \<and> (act = -1 \<and> (\<forall>i < IPC_MAX_CLIENTS. \<not> candidate s i) \<or> (\<exists>i < IPC_MAX_CLIENTS. act = int i \<and> candidate s i))"
proof (cases "active_client_index s = -1")
  case True
  with act have none: "\<forall>i < IPC_MAX_CLIENTS. \<not> candidate s i" by (auto simp: active_in_range_def)
  with fallback_cases [of s] have "fallback_active_application s = -1" by (auto simp: candidate_eq)
  with True none show ?thesis by (intro exI [of _ "-1"]) (simp add: choose_active_def)
next
  case False
  with act obtain i where i: "i < IPC_MAX_CLIENTS" "active_client_index s = int i"
    "session_active (app_of s i) \<longrightarrow> idx s i \<ge> 0" by (auto simp: active_in_range_def)
  have t: "thread_at s (int i) = Inr (ics_of s i)" using i len by (simp add: thread_at_def ics_of_def)
  have keep: "s = s\<lparr>active_client_index := int i\<rparr>" using i by simp
  show ?thesis
  proof (cases "candidate s i")
    case True
    with fallback_cases [of s] i have "fallback_active_application s \<noteq> -1" by (auto simp: candidate_eq)
    with True i t keep show ?thesis
      by (intro exI [of _ "int i"]) (auto simp: choose_active_def candidate_def app_of_def)
  next
    case no: False
    with i have "\<not> (\<not> session_overlay (client_state (ics_of s i)) \<and> session_active (client_state (ics_of s i)))"
      by (auto simp: candidate_def app_of_def)
    with i t have "choose_active s = Inr (s\<lparr>active_client_index := fallback_active_application s\<rparr>)"
      by (auto simp: choose_active_def Let_def)
    with fallback_cases [of s] show ?thesis
      by (intro exI [of _ "fallback_active_application s"]) (auto simp: candidate_eq)
  qed
qed

lemma update_ok:
  assumes len: "length (threads s) = IPC_MAX_CLIENTS" and act: "active_in_range s"
  shows "\<exists>s'. update_server_state_locked s = Inr s' \<and>
    (s' = s \<and> active_client_index s = last_active_client_index s
       \<and> (\<exists>i < IPC_MAX_CLIENTS. active_client_index s = int i \<and> session_active (app_of s i))
     \<or> refocused s s')"
proof -
  obtain a where a: "choose_active s = Inr (s\<lparr>active_client_index := a\<rparr>)"
    "a = -1 \<and> (\<forall>i < IPC_MAX_CLIENTS. \<not> candidate s i) \<or> (\<exists>i < IPC_MAX_CLIENTS. a = int i \<and> candidate s i)"
    using choose_active_ok [OF assms] by blast
  obtain L where L: "flush_state_to_all_clients_locked (s\<lparr>active_client_index := a\<rparr>) =
      s\<lparr>active_client_index := a, threads := map (flush_thread a) (threads s), syscomp_log := L\<rparr>"
    using flush_all_eq [of "s\<lparr>active_client_index := a\<rparr>"] len by auto
  let ?s = "s\<lparr>active_client_index := a, threads := map (flush_thread a) (threads s), syscomp_log := L,
    last_active_client_index := a\<rparr>"
  have re: "refocused s ?s" using a(2) by (auto simp: refocused_def)
  show ?thesis
  proof (cases "active_client_index s \<ge> 0")
    case False
    with a L re show ?thesis by (simp add: update_server_state_locked_def)
  next
    case True
    with act obtain i where i: "i < IPC_MAX_CLIENTS" "active_client_index s = int i" by (auto simp: active_in_range_def)
    have t: "thread_at s (int i) = Inr (ics_of s i)" using i len by (simp add: thread_at_def ics_of_def)
    show ?thesis
    proof (cases "session_active (app_of s i) \<and> int i = last_active_client_index s")
      case True
      with i t show ?thesis by (auto simp: update_server_state_locked_def app_of_def)
    next
      case False
      with a L re i t show ?thesis by (auto simp: update_server_state_locked_def app_of_def)
    qed
  qed
qed

lemma refocused_view:
  assumes "refocused s s'" and "length (threads s) = IPC_MAX_CLIENTS" and i: "i < IPC_MAX_CLIENTS"
  shows "idx s' i = idx s i" "hv s' i = hv s i" "st s' i = st s i"
    "app_of s' i = (if idx s i < 0 then app_of s i else flush_app (active_client_index s') (ics_of s i))"
  using assms by (auto simp: refocused_def view_defs flush_thread_def split: if_splits)

lemma flush_app_simps [simp]:
  "as_id (flush_app a ics) = as_id (client_state ics)" "session_active (flush_app a ics) = session_active (client_state ics)"
  "session_overlay (flush_app a ics) = session_overlay (client_state ics)"
  "session_visible (flush_app a ics) = (server_thread_index ics = a \<or> session_overlay (client_state ics))"
  "session_focused (flush_app a ics) = (server_thread_index ics = a \<or> session_overlay (client_state ics))"
  by (simp_all add: flush_app_def Let_def)

lemma refocused_app:
  assumes "refocused s s'" and "length (threads s) = IPC_MAX_CLIENTS" and "i < IPC_MAX_CLIENTS"
  shows "as_id (app_of s' i) = as_id (app_of s i)" "session_active (app_of s' i) = session_active (app_of s i)"
    "session_overlay (app_of s' i) = session_overlay (app_of s i)" "candidate s' i = candidate s i"
  using refocused_view [OF assms] by (auto simp: app_of_def candidate_def)

lemma refocused_ok:
  assumes re: "refocused s s'" and ok: "slots_ok s pc"
  shows "slots_ok s' pc \<and> focus_ok s' pc \<and> vis_ok s' \<and> connected_client_count s' = connected_client_count s"
proof -
  have len: "length (threads s) = IPC_MAX_CLIENTS" using ok by (simp add: slots_ok_def)
  note v = refocused_view [OF re len] and a = refocused_app [OF re len]
  have sl: "slot_ok s' pc i" if "i < IPC_MAX_CLIENTS" for i
  proof -
    have so: "slot_ok s pc i" using ok that by (simp add: slots_ok_def)
    have free: "app_of s' i = app_of s i" if "idx s i = -1" using v(4) [OF \<open>i < IPC_MAX_CLIENTS\<close>] that by simp
    show ?thesis
    proof (cases "idx s i = -1")
      case True
      with so free [OF True] show ?thesis by (simp add: slot_ok_def v(1-3) [OF that])
    next
      case False
      with so show ?thesis by (simp add: slot_ok_def v(1-3) [OF that] a [OF that])
    qed
  qed
  have len': "length (threads s') = IPC_MAX_CLIENTS" using re len by (auto simp: refocused_def)
  have "slots_ok s' pc" using ok sl a len' by (simp add: slots_ok_def)
  moreover have "focus_ok s' pc"
  proof -
    obtain act where "active_client_index s' = act" "last_active_client_index s' = act"
      "act = -1 \<and> (\<forall>i < IPC_MAX_CLIENTS. \<not> candidate s i) \<or> (\<exists>i < IPC_MAX_CLIENTS. act = int i \<and> candidate s i)"
      using re by (auto simp: refocused_def)
    then show ?thesis using a(4) unfolding focus_ok_def by metis
  qed
  moreover have "vis_ok s'"
    unfolding vis_ok_def
  proof (intro allI impI)
    fix i assume i: "i < IPC_MAX_CLIENTS" "idx s' i = int i"
    then have "app_of s' i = flush_app (active_client_index s') (ics_of s i)" "server_thread_index (ics_of s i) = int i"
      using v [OF i(1)] by (auto simp: idx_def)
    then show "(\<not> session_overlay (app_of s' i) \<longrightarrow>
        session_visible (app_of s' i) = (int i = active_client_index s')
        \<and> session_focused (app_of s' i) = (int i = active_client_index s'))
     \<and> (session_overlay (app_of s' i) \<and> session_active (app_of s' i) \<longrightarrow>
        session_visible (app_of s' i) \<and> session_focused (app_of s' i))"
      by auto
  qed
  moreover have "connected_client_count s' = connected_client_count s" using re by (auto simp: refocused_def)
  ultimately show ?thesis by blast
qed

lemma slot_active_occupied:
  assumes "slots_ok s pc" and "i < IPC_MAX_CLIENTS" and "session_active (app_of s i)"
  shows "idx s i = int i"
proof -
  have "slot_ok s pc i" using assms(1,2) by (simp add: slots_ok_def)
  with assms(3) show ?thesis by (auto simp: slot_ok_def)
qed

section \<open>The operations keep the invariant\<close>

lemma count_running:
  assumes "slots_ok s pc" and "pc i = TRunning"
  shows "i < IPC_MAX_CLIENTS" and "idx s i = int i" and "slot_ok s pc i"
proof -
  show i: "i < IPC_MAX_CLIENTS" using assms by (metis slots_ok_def linorder_not_less thread_pc.distinct(1))
  then show so: "slot_ok s pc i" using assms by (simp add: slots_ok_def)
  show "idx s i = int i" using so assms(2) by (auto simp: slot_ok_def)
qed

lemma active_range:
  assumes s: "slots_ok s pc" and f: "focus_ok s pc"
  shows "active_in_range s"
proof -
  have "session_active (app_of s i) \<longrightarrow> idx s i \<ge> 0" if "i < IPC_MAX_CLIENTS" for i
    using slot_active_occupied [OF s that] by auto
  with f show ?thesis by (auto simp: focus_ok_def active_in_range_def)
qed

lemma view_same [simp]: "same_view s s"
  by (auto simp: same_view_def) (metis ipc_app_state.surjective ipc_app_state.update_convs)

lemma upd_app_io_view:
  assumes "i < length (threads s)" and "idx s i \<noteq> -1"
  shows "same_view (upd_app i (\<lambda>a. a\<lparr>as_io_blocks := b\<rparr>) s) s"
proof -
  have "app_of s j = (app_of s j)\<lparr>as_io_blocks := as_io_blocks (app_of s j), as_z_order := as_z_order (app_of s j)\<rparr>"
    "(app_of s j)\<lparr>as_io_blocks := b\<rparr> = (app_of s j)\<lparr>as_io_blocks := b, as_z_order := as_z_order (app_of s j)\<rparr>" for j
    by simp_all
  with assms show ?thesis unfolding same_view_def by (simp; metis)
qed

lemma find_client_ok:
  assumes s: "slots_ok s pc"
  shows "find_client_locked s c = Some i \<Longrightarrow> i < IPC_MAX_CLIENTS \<and> as_id (app_of s i) = c \<and> idx s i = int i"
    and "i < IPC_MAX_CLIENTS \<Longrightarrow> idx s i = int i \<Longrightarrow> find_client_locked s (as_id (app_of s i)) = Some i"
proof -
  have so: "slot_ok s pc j" if "j < IPC_MAX_CLIENTS" for j using s that by (simp add: slots_ok_def)
  show "i < IPC_MAX_CLIENTS \<and> as_id (app_of s i) = c \<and> idx s i = int i" if f: "find_client_locked s c = Some i"
  proof -
    from f have "i < IPC_MAX_CLIENTS" "as_id (app_of s i) = c" "c \<noteq> 0"
      by (auto simp: find_client_locked_def find_Some_iff split: if_splits option.splits)
    with so [of i] show ?thesis by (auto simp: slot_ok_def)
  qed
  show "find_client_locked s (as_id (app_of s i)) = Some i" if i: "i < IPC_MAX_CLIENTS" "idx s i = int i"
  proof -
    have "id_ok (as_id (app_of s i))" "hv s i" using so [OF i(1)] i(2) by (auto simp: slot_ok_def)
    then have id: "as_id (app_of s i) \<noteq> 0" "\<not> as_id (app_of s i) > 0x7FFFFFFF" "hv s i"
      by (auto simp: id_ok_def)
    have "\<exists>j. find (\<lambda>k. as_id (app_of s k) = as_id (app_of s i)) [0..<IPC_MAX_CLIENTS] = Some j"
      using i(1) by (metis (mono_tags, lifting) atLeast0LessThan find_None_iff lessThan_iff not_Some_eq set_upt)
    then obtain j where j: "find (\<lambda>k. as_id (app_of s k) = as_id (app_of s i)) [0..<IPC_MAX_CLIENTS] = Some j" by blast
    then have "j < IPC_MAX_CLIENTS" "as_id (app_of s j) = as_id (app_of s i)" by (auto simp: find_Some_iff)
    with s id i have "j = i" unfolding slots_ok_def by metis
    with id j show ?thesis by (auto simp: find_client_locked_def hv_def)
  qed
qed

lemma set_active_ok:
  assumes s: "slots_ok s pc" and f: "focus_ok s pc"
  shows "\<exists>s' x. set_active_client_locked c s = Inr (s', x)
    \<and> (s' = s \<or> (\<exists>i < IPC_MAX_CLIENTS. idx s i = int i \<and> refocused (s\<lparr>active_client_index := int i\<rparr>) s'))"
proof (cases "find_client_locked s c")
  case None
  then show ?thesis by (simp add: set_active_client_locked_def)
next
  case (Some i)
  from find_client_ok(1) [OF s Some] have i: "i < IPC_MAX_CLIENTS" "idx s i = int i" by auto
  show ?thesis
  proof (cases "int i = active_client_index s")
    case True
    with Some i show ?thesis by (simp add: set_active_client_locked_def idx_def)
  next
    case False
    let ?s = "s\<lparr>active_client_index := int i\<rparr>"
    have "active_in_range ?s" using i by (auto simp: active_in_range_def)
    moreover have "length (threads ?s) = IPC_MAX_CLIENTS" using s by (simp add: slots_ok_def)
    ultimately obtain s' where s': "update_server_state_locked ?s = Inr s'"
      "refocused ?s s' \<or> active_client_index ?s = last_active_client_index ?s"
      using update_ok by blast
    have "last_active_client_index s = active_client_index s" using f by (simp add: focus_ok_def)
    with s' False have "refocused ?s s'" by auto
    with s' Some i False show ?thesis by (auto simp: set_active_client_locked_def idx_def)
  qed
qed

lemma slots_ok_active [simp]: "slots_ok (s\<lparr>active_client_index := a\<rparr>) pc = slots_ok s pc"
  by (simp add: slots_ok_def slot_ok_def)

lemma set_active_inv:
  assumes "slots_ok s pc" and "focus_ok s pc" and "vis_ok s"
  shows "\<exists>s' x. set_active_client_locked c s = Inr (s', x) \<and> slots_ok s' pc \<and> focus_ok s' pc \<and> vis_ok s'
    \<and> connected_client_count s' = connected_client_count s"
proof -
  obtain s' x where s': "set_active_client_locked c s = Inr (s', x)"
    "s' = s \<or> (\<exists>i < IPC_MAX_CLIENTS. idx s i = int i \<and> refocused (s\<lparr>active_client_index := int i\<rparr>) s')"
    using set_active_ok [OF assms(1,2)] by blast
  from s'(2) show ?thesis
  proof
    assume "s' = s" with s' assms show ?thesis by blast
  next
    assume "\<exists>i < IPC_MAX_CLIENTS. idx s i = int i \<and> refocused (s\<lparr>active_client_index := int i\<rparr>) s'"
    then obtain i where "refocused (s\<lparr>active_client_index := int i\<rparr>) s'" by blast
    from refocused_ok [OF this, of pc] assms(1) have "slots_ok s' pc \<and> focus_ok s' pc \<and> vis_ok s'
        \<and> connected_client_count s' = connected_client_count s"
      by simp
    with s'(1) show ?thesis by blast
  qed
qed

lemma ipc_inv_same_pc:
  assumes "ipc_inv r" and "slots_ok s' (ir_pc r) \<and> focus_ok s' (ir_pc r) \<and> vis_ok s'
    \<and> connected_client_count s' = connected_client_count (ir_s r)"
  shows "ipc_inv (r\<lparr>ir_s := s'\<rparr>)"
  using assms by (simp add: ipc_inv_def count_ok_def main_ok_def)

text \<open>Activation of the session of a running client.\<close>

lemma activated_slot:
  assumes "i < length (threads s)"
  shows "j \<noteq> i \<Longrightarrow> slot_ok (upd_app i (\<lambda>a. a\<lparr>session_active := True\<rparr>) s) pc j = slot_ok s pc j"
    and "slot_ok s pc i \<Longrightarrow> pc i = TRunning \<Longrightarrow> idx s i = int i \<Longrightarrow>
      slot_ok (upd_app i (\<lambda>a. a\<lparr>session_active := True\<rparr>) s) pc i"
  using assms by (simp_all add: slot_ok_def)

lemma activated_slots:
  assumes s: "slots_ok s pc" and pc: "pc i = TRunning"
  shows "slots_ok (upd_app i (\<lambda>a. a\<lparr>session_active := True\<rparr>) s) pc"
proof -
  note i = count_running [OF s pc]
  have len: "i < length (threads s)" using s i(1) by (auto simp: slots_ok_def)
  have "slot_ok (upd_app i (\<lambda>a. a\<lparr>session_active := True\<rparr>) s) pc j" if "j < IPC_MAX_CLIENTS" for j
    using activated_slot [OF len] i(2,3) pc s that by (cases "j = i") (simp_all add: slots_ok_def)
  moreover have "as_id (app_of (upd_app i (\<lambda>a. a\<lparr>session_active := True\<rparr>) s) j) = as_id (app_of s j)" for j
    using len by simp
  ultimately show ?thesis using s len unfolding slots_ok_def by simp
qed

lemma not_active_index:
  assumes s: "slots_ok s pc" and f: "focus_ok s pc" and pc: "pc i = TRunning" and n: "\<not> session_active (app_of s i)"
  shows "active_client_index s \<noteq> int i"
proof
  assume "active_client_index s = int i"
  with f have "candidate s i \<or> pc i \<in> {TReleased, TDestroyed}" by (auto simp: focus_ok_def)
  with pc n show False by (auto simp: candidate_def)
qed

lemma activated_overlay:
  assumes s: "slots_ok s pc" and f: "focus_ok s pc" and v: "vis_ok s" and pc: "pc i = TRunning"
    and n: "\<not> session_active (app_of s i)" and ov: "session_overlay (app_of s i)"
  shows "\<exists>s'. ipc_server_activate_session i s = Inr s' \<and> slots_ok s' pc \<and> focus_ok s' pc \<and> vis_ok s'
    \<and> connected_client_count s' = connected_client_count s"
proof -
  note i = count_running [OF s pc]
  have len: "i < length (threads s)" "length (threads s) = IPC_MAX_CLIENTS" using s i(1) by (auto simp: slots_ok_def)
  let ?s = "upd_app i (\<lambda>a. a\<lparr>session_active := True\<rparr>) s"
  have s1: "slots_ok ?s pc" using activated_slots [OF s pc] .
  let ?act = "active_client_index s"
  have len1: "i < length (threads ?s)" using len by simp
  from handle_events_eq [OF len1, of ?act "last_active_client_index s"] obtain L where
    L: "handle_overlay_client_events i ?act (last_active_client_index s)
        (handle_focused_client_events i ?act (last_active_client_index s) ?s) =
      ?s\<lparr>threads := (threads ?s)[i := (threads ?s ! i)\<lparr>it_ics := (ics_of ?s i)\<lparr>client_state := flush_app ?act (ics_of ?s i)\<rparr>\<rparr>],
        syscomp_log := L\<rparr>" by blast
  define s' where "s' = (upd_app i (\<lambda>_. flush_app ?act (ics_of ?s i)) ?s)\<lparr>syscomp_log := L\<rparr>"
  have eq: "s' = ?s\<lparr>threads := (threads ?s)[i := (threads ?s ! i)\<lparr>it_ics := (ics_of ?s i)\<lparr>client_state := flush_app ?act (ics_of ?s i)\<rparr>\<rparr>],
        syscomp_log := L\<rparr>"
    by (simp add: s'_def upd_app_def upd_ics_def ics_of_def)
  have app: "app_of s' j = (if j = i then flush_app ?act (ics_of ?s i) else app_of s j)" for j
    unfolding s'_def using len1 len(1) by simp
  have other: "idx s' j = idx s j" "hv s' j = hv s j" "st s' j = st s j" for j
    unfolding s'_def using len1 len(1) by simp_all
  have new: "as_id (app_of s' i) = as_id (app_of s i)" "session_active (app_of s' i)" "session_overlay (app_of s' i)"
    "session_visible (app_of s' i)" "session_focused (app_of s' i)"
    using app [of i] ov view_upd(1) [OF len(1), of "\<lambda>a. a\<lparr>session_active := True\<rparr>" i]
    by (simp_all add: app_of_def)
  have old: "app_of s' j = app_of s j" if "j \<noteq> i" for j using app [of j] that by simp
  have act: "active_client_index s' = ?act" "last_active_client_index s' = last_active_client_index s"
    "connected_client_count s' = connected_client_count s" "length (threads s') = IPC_MAX_CLIENTS"
    unfolding s'_def using len len1 by simp_all
  have slot: "slot_ok s' pc j" if "j < IPC_MAX_CLIENTS" for j
  proof (cases "j = i")
    case True
    have "idx s i \<noteq> -1" using i(2) by simp
    with i(3) i(2) pc new(1,2) True show ?thesis by (simp add: slot_ok_def other)
  next
    case False
    have "slot_ok s pc j" using s that by (simp add: slots_ok_def)
    moreover have "slot_ok s' pc j = slot_ok s pc j" by (simp only: slot_ok_def other old [OF False])
    ultimately show ?thesis by blast
  qed
  have ids: "as_id (app_of s' j) = as_id (app_of s j)" for j using new(1) old by (cases "j = i") simp_all
  have "slots_ok s' pc" using s slot act(4) unfolding slots_ok_def ids by blast
  moreover have cand: "candidate s' j = candidate s j" for j
    using new(3) ov n old by (cases "j = i") (simp_all add: candidate_def other)
  then have "focus_ok s' pc" using f unfolding focus_ok_def cand act by simp
  moreover have "vis_ok s'" using v new old unfolding vis_ok_def other act by metis
  moreover have "ipc_server_activate_session i s = Inr s'"
    using n i(2) ov len L by (simp add: ipc_server_activate_session_def idx_def Let_def eq)
  ultimately show ?thesis using act(3) by blast
qed

lemma activated_main:
  assumes s: "slots_ok s pc" and f: "focus_ok s pc" and pc: "pc i = TRunning"
    and n: "\<not> session_active (app_of s i)" and ov: "\<not> session_overlay (app_of s i)"
  shows "\<exists>s'. ipc_server_activate_session i s = Inr s' \<and> slots_ok s' pc \<and> focus_ok s' pc \<and> vis_ok s'
    \<and> connected_client_count s' = connected_client_count s \<and> session_active (app_of s' i)
    \<and> (\<forall>j < IPC_MAX_CLIENTS. (session_active (app_of s j) \<longrightarrow> session_active (app_of s' j))
        \<and> session_overlay (app_of s' j) = session_overlay (app_of s j))"
proof -
  note i = count_running [OF s pc]
  have len: "i < length (threads s)" "length (threads s) = IPC_MAX_CLIENTS" using s i(1) by (auto simp: slots_ok_def)
  let ?s = "upd_app i (\<lambda>a. a\<lparr>session_active := True\<rparr>) s"
  let ?t = "?s\<lparr>active_client_index := int i\<rparr>"
  have s1: "slots_ok ?s pc" using activated_slots [OF s pc] .
  have l1: "length (threads ?t) = IPC_MAX_CLIENTS" using len by simp
  have i1: "idx ?s i = int i" using len i(2) by simp
  have na: "active_client_index s \<noteq> int i" using not_active_index [OF s f pc n] .
  have "active_in_range ?t" using i(1) i1 by (auto simp: active_in_range_def)
  with update_ok [OF l1] obtain s' where s': "update_server_state_locked ?t = Inr s'"
    "refocused ?t s' \<or> active_client_index ?t = last_active_client_index ?t" by blast
  have "last_active_client_index ?t \<noteq> int i" using f na len by (simp add: focus_ok_def)
  with s' have re: "refocused ?t s'" by auto
  have fc: "find_client_locked ?s (as_id (app_of ?s i)) = Some i" by (rule find_client_ok(2) [OF s1 i(1) i1])
  have "ipc_server_activate_session i s = Inr s'"
    using n i(2) ov len fc na s'(1) i1
    by (simp add: ipc_server_activate_session_def idx_def Let_def set_active_client_locked_def)
  moreover have "slots_ok s' pc \<and> focus_ok s' pc \<and> vis_ok s' \<and> connected_client_count s' = connected_client_count ?t"
    using refocused_ok [OF re, of pc] s1 by simp
  moreover have "session_active (app_of s' i)"
    using refocused_app(2) [OF re l1 i(1)] len by simp
  moreover have "(session_active (app_of s j) \<longrightarrow> session_active (app_of s' j))
      \<and> session_overlay (app_of s' j) = session_overlay (app_of s j)" if "j < IPC_MAX_CLIENTS" for j
    using refocused_app(2,3) [OF re l1 that] len by simp
  ultimately show ?thesis using len by simp
qed

lemma predict_ok:
  assumes s: "slots_ok s pc" and f: "focus_ok s pc" and v: "vis_ok s" and pc: "pc i = TRunning"
  shows "\<exists>s' x. ipc_handle_compositor_predict_frame i s = Inr (s', x) \<and> slots_ok s' pc \<and> focus_ok s' pc \<and> vis_ok s'
    \<and> connected_client_count s' = connected_client_count s"
proof -
  have "\<exists>s'. ipc_server_activate_session i s = Inr s' \<and> slots_ok s' pc \<and> focus_ok s' pc \<and> vis_ok s'
    \<and> connected_client_count s' = connected_client_count s"
  proof (cases "session_active (app_of s i)")
    case True
    with s f v show ?thesis by (simp add: ipc_server_activate_session_def)
  next
    case False
    then show ?thesis
      using activated_main [OF s f pc False] activated_overlay [OF s f v pc False]
      by (cases "session_overlay (app_of s i)") blast+
  qed
  then obtain s' where "ipc_server_activate_session i s = Inr s'" "slots_ok s' pc" "focus_ok s' pc" "vis_ok s'"
    "connected_client_count s' = connected_client_count s" by blast
  with s f v show ?thesis
    by (cases "has_xc (ics_of s i)") (simp_all add: ipc_handle_compositor_predict_frame_def)
qed

lemma deactivate_ok:
  assumes s: "slots_ok s pc" and f: "focus_ok s pc" and v: "vis_ok s" and pc: "pc i = TDestroyed"
  shows "\<exists>s'. ipc_server_deactivate_session i s = Inr s' \<and> slots_ok s' (pc(i := TDone)) \<and> focus_ok s' (pc(i := TDone))
    \<and> vis_ok s' \<and> connected_client_count s' = connected_client_count s"
proof -
  have i: "i < IPC_MAX_CLIENTS" using s pc by (metis slots_ok_def linorder_not_less thread_pc.distinct(5))
  have len: "i < length (threads s)" "length (threads s) = IPC_MAX_CLIENTS" using s i by (auto simp: slots_ok_def)
  have so: "slot_ok s pc i" using s i by (simp add: slots_ok_def)
  with pc have z: "app_of s i = zero_app_state" "idx s i = -1" "st s i = IPC_THREAD_STOPPING" by (auto simp: slot_ok_def)
  let ?s = "upd_app i (\<lambda>a. a\<lparr>session_active := False\<rparr>) s"
  have same: "app_of ?s j = app_of s j" for j using len z(1) by (simp add: zero_app_state_def)
  have "?s = s"
  proof -
    have "(client_state (ics_of s i))\<lparr>session_active := False\<rparr> = client_state (ics_of s i)"
      using z(1) by (simp add: app_of_def zero_app_state_def)
    then show ?thesis using len(1) by (simp add: upd_app_def upd_ics_def ics_of_def)
  qed
  let ?pc = "pc(i := TDone)"
  have s': "slots_ok s ?pc"
  proof -
    have "slot_ok s ?pc j" if "j < IPC_MAX_CLIENTS" for j
    proof (cases "j = i")
      case True
      with z show ?thesis by (simp add: slot_ok_def)
    next
      case False
      have "slot_ok s pc j" using s that by (simp add: slots_ok_def)
      moreover have "slot_ok s ?pc j = slot_ok s pc j" by (simp only: slot_ok_def fun_upd_apply False if_False)
      ultimately show ?thesis by blast
    qed
    with s i show ?thesis by (auto simp: slots_ok_def)
  qed
  obtain s1 where s1: "update_server_state_locked s = Inr s1"
    "s1 = s \<and> (\<exists>j < IPC_MAX_CLIENTS. active_client_index s = int j \<and> session_active (app_of s j)) \<or> refocused s s1"
    using update_ok [OF len(2) active_range [OF s f]] by blast
  have d: "ipc_server_deactivate_session i s = Inr s1"
    using s1(1) \<open>?s = s\<close> by (simp add: ipc_server_deactivate_session_def)
  from s1(2) show ?thesis
  proof
    assume e: "s1 = s \<and> (\<exists>j < IPC_MAX_CLIENTS. active_client_index s = int j \<and> session_active (app_of s j))"
    then obtain j where j: "j < IPC_MAX_CLIENTS" "active_client_index s = int j" "session_active (app_of s j)" by blast
    then have "j \<noteq> i" using z(1) by auto
    have "focus_ok s ?pc"
      using f j \<open>j \<noteq> i\<close> by (auto simp: focus_ok_def)
    with e d s' v show ?thesis by blast
  next
    assume "refocused s s1"
    from refocused_ok [OF this s'] d show ?thesis by blast
  qed
qed

text \<open>The first locked stretch of the shutdown of a client.\<close>

lemma release_view:
  assumes "i < length (threads s)"
  shows "idx (shutdown_release i s) j = (if j = i then -1 else idx s j)"
    and "hv (shutdown_release i s) j = (if j = i then False else hv s j)"
    and "st (shutdown_release i s) j = (if j = i then IPC_THREAD_STOPPING else st s j)"
    and "app_of (shutdown_release i s) j = (if j = i then zero_app_state else app_of s j)"
    and "length (threads (shutdown_release i s)) = length (threads s)"
    and "active_client_index (shutdown_release i s) = active_client_index s"
    and "last_active_client_index (shutdown_release i s) = last_active_client_index s"
    and "connected_client_count (shutdown_release i s) = connected_client_count s - 1"
  using assms by (simp_all add: shutdown_release_def view_defs upd_ics_def Let_def nth_list_update)

lemma release_ok:
  assumes s: "slots_ok s pc" and f: "focus_ok s pc" and v: "vis_ok s" and pc: "pc i = TRunning"
  shows "slots_ok (shutdown_release i s) (pc(i := TReleased))"
    and "focus_ok (shutdown_release i s) (pc(i := TReleased))"
    and "vis_ok (shutdown_release i s)"
proof -
  note i = count_running [OF s pc]
  have len: "i < length (threads s)" using s i(1) by (auto simp: slots_ok_def)
  define s' where "s' = shutdown_release i s"
  note r = release_view [OF len, folded s'_def]
  let ?pc = "pc(i := TReleased)"
  have slot: "slot_ok s' ?pc j" if "j < IPC_MAX_CLIENTS" for j
  proof (cases "j = i")
    case True
    then show ?thesis by (simp add: slot_ok_def r)
  next
    case False
    have "slot_ok s pc j" using s that by (simp add: slots_ok_def)
    moreover have "slot_ok s' ?pc j = slot_ok s pc j" by (simp only: slot_ok_def r fun_upd_apply False if_False)
    ultimately show ?thesis by blast
  qed
  have ids: "as_id (app_of s' j) = (if j = i then 0 else as_id (app_of s j))" for j by (simp add: r)
  show "slots_ok (shutdown_release i s) ?pc" unfolding s'_def [symmetric]
    using s slot i(1) unfolding slots_ok_def by (auto simp: r(5) ids)
  have cand: "candidate s' j = (j \<noteq> i \<and> candidate s j)" for j by (simp add: candidate_def r)
  show "focus_ok (shutdown_release i s) ?pc" unfolding s'_def [symmetric]
    using f i(1) unfolding focus_ok_def by (auto simp: r(6,7) cand)
  show "vis_ok (shutdown_release i s)" unfolding s'_def [symmetric]
    using v unfolding vis_ok_def by (simp add: r)
qed

section \<open>Identifiers\<close>

lemma allocate_id_loop_finds:
  fixes ids :: "32 word list"
  assumes "g + 1 + of_nat n \<noteq> 0" and "g + 1 + of_nat n \<notin> set ids"
  shows "\<exists>id. allocate_id_loop ids g = Some id \<and> id \<noteq> 0 \<and> id \<notin> set ids"
  using assms
proof (induction n arbitrary: g)
  case 0
  then show ?case by (subst allocate_id_loop.simps) simp
next
  case (Suc n)
  show ?case
  proof (cases "g + 1 \<noteq> 0 \<and> g + 1 \<notin> set ids")
    case True
    then show ?thesis by (subst allocate_id_loop.simps) simp
  next
    case False
    have "\<exists>id. allocate_id_loop ids (g + 1) = Some id \<and> id \<noteq> 0 \<and> id \<notin> set ids"
      using Suc.prems by (intro Suc.IH) (simp_all add: ac_simps)
    with False show ?thesis by (subst allocate_id_loop.simps) auto
  qed
qed

lemma allocate_id_loop_ok:
  fixes ids :: "32 word list"
  assumes "length ids \<le> IPC_MAX_CLIENTS"
  shows "\<exists>id. allocate_id_loop ids g = Some id \<and> id \<noteq> 0 \<and> id \<notin> set ids"
proof -
  have "card (insert 0 (set ids)) \<le> Suc (length ids)"
    using card_length [of ids] by (simp add: card_insert_if le_SucI)
  then have "insert 0 (set ids) \<noteq> (UNIV :: 32 word set)"
    using assms by (auto simp: IPC_MAX_CLIENTS_def card_word)
  then obtain w where w: "w \<notin> insert 0 (set ids)" by blast
  have "g + 1 + of_nat (unat (w - (g + 1))) = w" by simp
  with w allocate_id_loop_finds [of g "unat (w - (g + 1))" ids] show ?thesis by simp
qed

lemma client_ids_set:
  assumes "length (threads s) = IPC_MAX_CLIENTS"
  shows "length (client_ids s) \<le> IPC_MAX_CLIENTS" and "i < IPC_MAX_CLIENTS \<Longrightarrow> as_id (app_of s i) \<in> set (client_ids s)"
  using assms by (auto simp: client_ids_def app_of_def ics_of_def)

section \<open>Connections\<close>

lemma connect_start_view:
  assumes len: "i < length (threads s)" "length (threads s) = IPC_MAX_CLIENTS" and c: "connect_start shm i s = Some (s', b)"
  shows "\<exists>id. b = shm \<and> id \<noteq> 0 \<and> id \<notin> set (client_ids s) \<and> id_generator s' = id
    \<and> (\<forall>j. idx s' j = (if j = i then int i else idx s j) \<and> hv s' j = (if j = i then True else hv s j)
        \<and> st s' j = (if j = i then IPC_THREAD_STARTING else st s j)
        \<and> app_of s' j = (if j = i then zero_app_state\<lparr>as_id := id\<rparr> else app_of s j))
    \<and> length (threads s') = length (threads s) \<and> active_client_index s' = active_client_index s
    \<and> last_active_client_index s' = last_active_client_index s \<and> connected_client_count s' = connected_client_count s"
proof -
  let ?t = "s\<lparr>threads := (threads s)[i := (threads s ! i)\<lparr>it_state := IPC_THREAD_STARTING\<rparr>]\<rparr>"
  have ids: "client_ids ?t = client_ids s"
    using len by (simp add: client_ids_def map_update) (metis list_update_id map_update nth_map)
  obtain id where id: "allocate_id_loop (client_ids s) (id_generator s) = Some id" "id \<noteq> 0" "id \<notin> set (client_ids s)"
    using allocate_id_loop_ok [OF client_ids_set(1) [OF len(2)]] by blast
  have s': "s' = upd_ics i (\<lambda>_. zero_ics\<lparr>client_state := zero_app_state\<lparr>as_id := id\<rparr>, server_thread_index := int i\<rparr>)
      (?t\<lparr>id_generator := id\<rparr>)" "b = shm"
    using c id(1) ids by (auto simp: connect_start_def allocate_id_locked_def Let_def)
  have v: "idx s' j = (if j = i then int i else idx s j)" "hv s' j = (if j = i then True else hv s j)"
    "st s' j = (if j = i then IPC_THREAD_STARTING else st s j)"
    "app_of s' j = (if j = i then zero_app_state\<lparr>as_id := id\<rparr> else app_of s j)" for j
    unfolding s' using len(1) by (simp_all add: view_defs upd_ics_def nth_list_update zero_ics_def)
  have o: "length (threads s') = length (threads s)" "active_client_index s' = active_client_index s"
    "last_active_client_index s' = last_active_client_index s" "connected_client_count s' = connected_client_count s"
    "id_generator s' = id"
    unfolding s' by (simp_all add: upd_ics_def)
  from id s'(2) v o show ?thesis by blast
qed

lemma start_ok:
  assumes s: "slots_ok s pc" and f: "focus_ok s pc" and v: "vis_ok s" and i: "i < IPC_MAX_CLIENTS" "idx s i = -1"
    and pc: "pc i \<in> {TNone, TDone}" and c: "connect_start shm i s = Some (s', b)" and g: "id_findable s'"
  shows "slots_ok s' (pc(i := if b then TRunning else TNone))"
    and "focus_ok s' (pc(i := if b then TRunning else TNone))"
    and "vis_ok s'" and "connected_client_count s' = connected_client_count s"
proof -
  have len: "i < length (threads s)" "length (threads s) = IPC_MAX_CLIENTS" using s i by (auto simp: slots_ok_def)
  obtain id where id: "id \<noteq> 0" "id \<notin> set (client_ids s)" "id_generator s' = id"
    and w: "\<And>j. idx s' j = (if j = i then int i else idx s j)" "\<And>j. hv s' j = (if j = i then True else hv s j)"
    "\<And>j. st s' j = (if j = i then IPC_THREAD_STARTING else st s j)"
    "\<And>j. app_of s' j = (if j = i then zero_app_state\<lparr>as_id := id\<rparr> else app_of s j)"
    and o: "length (threads s') = length (threads s)" "active_client_index s' = active_client_index s"
      "last_active_client_index s' = last_active_client_index s" "connected_client_count s' = connected_client_count s"
    using connect_start_view [OF len c] by blast
  let ?pc = "pc(i := if b then TRunning else TNone)"
  have idok: "id_ok id" using id g by (simp add: id_ok_def id_findable_def)
  have slot: "slot_ok s' ?pc j" if "j < IPC_MAX_CLIENTS" for j
  proof (cases "j = i")
    case True
    with idok show ?thesis by (simp add: slot_ok_def w)
  next
    case False
    have "slot_ok s pc j" using s that by (simp add: slots_ok_def)
    moreover have "slot_ok s' ?pc j = slot_ok s pc j" by (simp only: slot_ok_def w fun_upd_apply False if_False)
    ultimately show ?thesis by blast
  qed
  have ids: "as_id (app_of s' j) = (if j = i then id else as_id (app_of s j))" for j by (simp add: w)
  have fresh: "as_id (app_of s j) \<noteq> id" if "j < IPC_MAX_CLIENTS" for j
    using client_ids_set(2) [OF len(2) that] id(2) by auto
  show "slots_ok s' ?pc"
    unfolding slots_ok_def
  proof (intro conjI allI impI)
    show "length (threads s') = IPC_MAX_CLIENTS" using o len by simp
    show "slot_ok s' ?pc j" if "j < IPC_MAX_CLIENTS" for j using slot [OF that] .
    show "?pc j = TNone" if "IPC_MAX_CLIENTS \<le> j" for j using s i(1) that by (simp add: slots_ok_def)
    show "j = k" if "j < IPC_MAX_CLIENTS" "k < IPC_MAX_CLIENTS" "as_id (app_of s' j) = as_id (app_of s' k)"
      "as_id (app_of s' j) \<noteq> 0" for j k
    proof (rule ccontr)
      assume ne: "j \<noteq> k"
      then consider "j = i" "k \<noteq> i" | "j \<noteq> i" "k = i" | "j \<noteq> i" "k \<noteq> i" by blast
      then show False
      proof cases
        case 1
        with that(3) fresh [OF that(2)] show ?thesis by (simp add: ids)
      next
        case 2
        with that(3) fresh [OF that(1)] show ?thesis by (simp add: ids)
      next
        case 3
        with that ne s show ?thesis by (simp add: ids slots_ok_def)
      qed
    qed
  qed
  have ni: "\<not> candidate s i" using i(2) by (simp add: candidate_def)
  have cand: "candidate s' j = candidate s j" for j using ni by (simp add: candidate_def w)
  have na: "active_client_index s \<noteq> int i" using f ni pc by (auto simp: focus_ok_def)
  show "focus_ok s' ?pc"
  proof -
    from f consider "active_client_index s = -1" "\<forall>j < IPC_MAX_CLIENTS. \<not> candidate s j"
      | j where "j < IPC_MAX_CLIENTS" "active_client_index s = int j" "candidate s j \<or> pc j \<in> {TReleased, TDestroyed}"
      by (auto simp: focus_ok_def)
    then show ?thesis
    proof cases
      case 1
      with f show ?thesis by (simp add: focus_ok_def cand o)
    next
      case (2 j)
      with na have "j \<noteq> i" by auto
      with 2 f show ?thesis unfolding focus_ok_def cand o by (auto simp: focus_ok_def)
    qed
  qed
  show "vis_ok s'" using v na unfolding vis_ok_def o by (auto simp: w)
  show "connected_client_count s' = connected_client_count s" by (rule o)
qed

lemma session_create_view:
  assumes len: "i < length (threads s)" and k: "kind_kept ov (app_of s i)"
  shows "\<exists>s'. fst (ipc_handle_session_create i ov z xret s) = s'
    \<and> (\<forall>j. idx s' j = idx s j \<and> hv s' j = hv s j \<and> st s' j = st s j)
    \<and> (\<forall>j. as_id (app_of s' j) = as_id (app_of s j) \<and> session_active (app_of s' j) = session_active (app_of s j)
       \<and> session_visible (app_of s' j) = session_visible (app_of s j) \<and> session_focused (app_of s' j) = session_focused (app_of s j)
       \<and> (session_overlay (app_of s' j) = session_overlay (app_of s j)
          \<or> j = i \<and> session_overlay (app_of s' j) \<and> \<not> session_active (app_of s j)))
    \<and> (\<forall>j. j \<noteq> i \<longrightarrow> app_of s' j = app_of s j)
    \<and> length (threads s') = length (threads s) \<and> active_client_index s' = active_client_index s
    \<and> last_active_client_index s' = last_active_client_index s \<and> connected_client_count s' = connected_client_count s"
proof -
  let ?s = "upd_app i (\<lambda>a. a\<lparr>session_overlay := ov, as_z_order := z\<rparr>) s"
  let ?t = "upd_ics i (\<lambda>ics. ics\<lparr>has_xs := True, has_xc := True\<rparr>) ?s"
  have l: "i < length (threads ?s)" using len by simp
  have t: "idx ?t j = idx s j" "hv ?t j = hv s j" "st ?t j = st s j"
    "app_of ?t j = (if j = i then (app_of s i)\<lparr>session_overlay := ov, as_z_order := z\<rparr> else app_of s j)"
    "length (threads ?t) = length (threads s)" "active_client_index ?t = active_client_index s"
    "last_active_client_index ?t = last_active_client_index s" "connected_client_count ?t = connected_client_count s" for j
    using len by (auto simp: view_defs upd_app_def upd_ics_def nth_list_update)
  show ?thesis
  proof (cases "has_xs (ics_of s i) \<or> xret \<noteq> XRT_SUCCESS")
    case True
    then show ?thesis by (auto simp: ipc_handle_session_create_def)
  next
    case False
    then obtain L where "fst (ipc_handle_session_create i ov z xret s) = ?t\<lparr>syscomp_log := L\<rparr>"
      by (simp add: ipc_handle_session_create_def syscomp_def Let_def)
    with t k show ?thesis
      by (intro exI [of _ "?t\<lparr>syscomp_log := L\<rparr>"]) (auto simp: kind_kept_def)
  qed
qed

lemma session_create_ok:
  assumes s: "slots_ok s pc" and f: "focus_ok s pc" and v: "vis_ok s" and pc: "pc i = TRunning"
    and k: "kind_kept ov (app_of s i)" and d: "s' = fst (ipc_handle_session_create i ov z xret s)"
  shows "slots_ok s' pc \<and> focus_ok s' pc \<and> vis_ok s' \<and> connected_client_count s' = connected_client_count s"
proof -
  note i = count_running [OF s pc]
  have len: "i < length (threads s)" using s i(1) by (auto simp: slots_ok_def)
  from session_create_view [OF len k, of z xret, unfolded d [symmetric]]
  have w: "\<And>j. idx s' j = idx s j" "\<And>j. hv s' j = hv s j" "\<And>j. st s' j = st s j"
    and a: "\<And>j. as_id (app_of s' j) = as_id (app_of s j)" "\<And>j. session_active (app_of s' j) = session_active (app_of s j)"
      "\<And>j. session_visible (app_of s' j) = session_visible (app_of s j)"
      "\<And>j. session_focused (app_of s' j) = session_focused (app_of s j)"
    and ov: "\<And>j. session_overlay (app_of s' j) = session_overlay (app_of s j)
          \<or> session_overlay (app_of s' j) \<and> \<not> session_active (app_of s j)"
    and other: "\<And>j. j \<noteq> i \<Longrightarrow> app_of s' j = app_of s j"
    and o: "length (threads s') = length (threads s)" "active_client_index s' = active_client_index s"
      "last_active_client_index s' = last_active_client_index s" "connected_client_count s' = connected_client_count s"
    by blast+
  have slot: "slot_ok s' pc j = slot_ok s pc j" for j
  proof (cases "j = i")
    case True
    have "idx s i \<noteq> -1" using i(2) by simp
    with True show ?thesis by (simp add: slot_ok_def w a)
  next
    case False
    show ?thesis by (simp only: slot_ok_def w a other [OF False])
  qed
  have "slots_ok s' pc" using s unfolding slots_ok_def slot a o .
  moreover have "candidate s' j = candidate s j" for j using ov [of j] by (auto simp: candidate_def w a)
  then have "focus_ok s' pc" using f unfolding focus_ok_def o by simp
  moreover have "vis_ok s'"
    unfolding vis_ok_def o w a
  proof (intro allI impI)
    fix j assume j: "j < IPC_MAX_CLIENTS" "idx s j = int j"
    with v ov [of j] show "(\<not> session_overlay (app_of s' j) \<longrightarrow>
        session_visible (app_of s j) = (int j = active_client_index s)
        \<and> session_focused (app_of s j) = (int j = active_client_index s))
     \<and> (session_overlay (app_of s' j) \<and> session_active (app_of s j) \<longrightarrow>
        session_visible (app_of s j) \<and> session_focused (app_of s j))"
      by (auto simp: vis_ok_def)
  qed
  ultimately show ?thesis using o(4) by blast
qed

lemma same_viewI:
  assumes "\<And>j. idx s' j = idx s j" "\<And>j. hv s' j = hv s j" "\<And>j. st s' j = st s j" "\<And>j. app_of s' j = app_of s j"
    "length (threads s') = length (threads s)" "active_client_index s' = active_client_index s"
    "last_active_client_index s' = last_active_client_index s"
  shows "same_view s' s"
proof -
  have "app_of s j = (app_of s j)\<lparr>as_io_blocks := as_io_blocks (app_of s j), as_z_order := as_z_order (app_of s j)\<rparr>" for j
    by simp
  with assms show ?thesis unfolding same_view_def by metis
qed

lemma destroy_session_view: "same_view (ipc_server_client_destroy_session_and_compositor i s) s"
  and destroy_session_count: "connected_client_count (ipc_server_client_destroy_session_and_compositor i s) = connected_client_count s"
proof -
  have "threads (upd_ics i (\<lambda>ics. ics\<lparr>has_xs := False, has_xc := False\<rparr>) s) ! j =
      (if j = i \<and> i < length (threads s)
       then (threads s ! i)\<lparr>it_ics := (it_ics (threads s ! i))\<lparr>has_xs := False, has_xc := False\<rparr>\<rparr> else threads s ! j)" for j
    by (cases "i < length (threads s)") (simp_all add: upd_ics_def ics_of_def list_update_beyond)
  then have "idx (upd_ics i (\<lambda>ics. ics\<lparr>has_xs := False, has_xc := False\<rparr>) s) j = idx s j"
    "hv (upd_ics i (\<lambda>ics. ics\<lparr>has_xs := False, has_xc := False\<rparr>) s) j = hv s j"
    "st (upd_ics i (\<lambda>ics. ics\<lparr>has_xs := False, has_xc := False\<rparr>) s) j = st s j"
    "app_of (upd_ics i (\<lambda>ics. ics\<lparr>has_xs := False, has_xc := False\<rparr>) s) j = app_of s j" for j
    by (simp_all add: view_defs)
  then show "same_view (ipc_server_client_destroy_session_and_compositor i s) s"
    unfolding ipc_server_client_destroy_session_and_compositor_def by (intro same_viewI) (simp_all add: upd_ics_def)
  show "connected_client_count (ipc_server_client_destroy_session_and_compositor i s) = connected_client_count s"
    by (simp add: ipc_server_client_destroy_session_and_compositor_def upd_ics_def)
qed

lemma same_view_trans: "same_view a b \<Longrightarrow> same_view b c \<Longrightarrow> slots_ok c pc \<and> focus_ok c pc \<and> vis_ok c \<Longrightarrow>
  slots_ok a pc \<and> focus_ok a pc \<and> vis_ok a"
  using same_view_ok by blast

lemma exit_checks_view: "same_view (fst (shutdown_exit_checks now s)) s"
  and exit_checks_count: "connected_client_count (fst (shutdown_exit_checks now s)) = connected_client_count s"
  by (rule same_viewI) (simp_all add: shutdown_exit_checks_def Let_def)

lemma delayed_exit_view: "same_view (delayed_exit_thread s) s"
  and delayed_exit_count: "connected_client_count (delayed_exit_thread s) = connected_client_count s"
  by (rule same_viewI) (simp_all add: delayed_exit_thread_def)

lemma connect_find_cases:
  "connect_find s = (s\<lparr>connected_client_count := connected_client_count s + 1, last_client_disconnect_ns := 0\<rparr>,
     case find (\<lambda>i. idx s i < 0) [0..<IPC_MAX_CLIENTS] of
       None \<Rightarrow> Refused
     | Some i \<Rightarrow>
         if st s i \<noteq> IPC_THREAD_READY \<and> st s i \<noteq> IPC_THREAD_STOPPING then Refused
         else if st s i \<noteq> IPC_THREAD_READY then JoinFirst i else SlotReady i)"
  by (simp add: connect_find_def Let_def idx_def st_def ics_of_def split: option.split)

lemma connect_find_view:
  assumes "connect_find s = (s', out)"
  shows "same_view s' s" and "connected_client_count s' = connected_client_count s + 1"
    and "out = SlotReady i \<Longrightarrow> i < IPC_MAX_CLIENTS \<and> idx s i < 0 \<and> st s i = IPC_THREAD_READY"
    and "out = JoinFirst i \<Longrightarrow> i < IPC_MAX_CLIENTS \<and> idx s i < 0 \<and> st s i = IPC_THREAD_STOPPING"
proof -
  have s': "s' = s\<lparr>connected_client_count := connected_client_count s + 1, last_client_disconnect_ns := 0\<rparr>"
    using assms by (simp add: connect_find_cases)
  show "same_view s' s" unfolding s' by (rule same_viewI) simp_all
  show "connected_client_count s' = connected_client_count s + 1" unfolding s' by simp
  have f: "find (\<lambda>i. idx s i < 0) [0..<IPC_MAX_CLIENTS] = Some j \<Longrightarrow> j < IPC_MAX_CLIENTS \<and> idx s j < 0" for j
    by (auto simp: find_Some_iff)
  show "out = SlotReady i \<Longrightarrow> i < IPC_MAX_CLIENTS \<and> idx s i < 0 \<and> st s i = IPC_THREAD_READY"
    using assms f [of i] by (simp add: connect_find_cases split: option.splits if_splits)
  show "out = JoinFirst i \<Longrightarrow> i < IPC_MAX_CLIENTS \<and> idx s i < 0 \<and> st s i = IPC_THREAD_STOPPING"
    using assms f [of i] by (cases "st s i") (simp_all add: connect_find_cases split: option.splits if_splits)
qed

section \<open>The invariant of the threads\<close>

definition running_set :: "(nat \<Rightarrow> thread_pc) \<Rightarrow> nat set" where
  "running_set pc = {i. i < IPC_MAX_CLIENTS \<and> pc i = TRunning}"

lemma running_set_upd:
  "i < IPC_MAX_CLIENTS \<Longrightarrow> running_set (pc(i := TRunning)) = insert i (running_set pc)"
  "p \<noteq> TRunning \<Longrightarrow> running_set (pc(i := p)) = running_set pc - {i}"
  by (auto simp: running_set_def)

lemma running_set_finite [simp]: "finite (running_set pc)"
  by (simp add: running_set_def)

lemma running_set_mem: "i \<in> running_set pc \<longleftrightarrow> i < IPC_MAX_CLIENTS \<and> pc i = TRunning"
  by (simp add: running_set_def)

lemma count_ok_eq: "count_ok r \<longleftrightarrow> connected_client_count (ir_s r) =
    of_nat (card (running_set (ir_pc r)) + ir_lost r + (if ir_main r = MIdle then 0 else 1))"
  by (simp add: count_ok_def running_set_def)

lemma started_inv:
  assumes s: "slots_ok s (ir_pc r)" "focus_ok s (ir_pc r)" "vis_ok s" and i: "i < IPC_MAX_CLIENTS" "idx s i = -1"
    and pc: "ir_pc r i \<in> {TNone, TDone}" and c: "connect_start shm i s = Some res" "id_findable (fst res)"
    and n: "connected_client_count s = of_nat (card (running_set (ir_pc r)) + ir_lost r + 1)"
  shows "ipc_inv (started r i res)"
proof -
  obtain s' b where res: "res = (s', b)" by fastforce
  have c': "connect_start shm i s = Some (s', b)" "id_findable s'" using c res by simp_all
  note ok = start_ok [OF s i pc c']
  have "i \<notin> running_set (ir_pc r)" using pc by (auto simp: running_set_def)
  then have "count_ok (started r i res)"
    using n ok(4) i(1) by (simp add: count_ok_eq started_def res running_set_upd)
  with ok show ?thesis by (simp add: ipc_inv_def started_def res main_ok_def)
qed

lemma with_s_inv:
  assumes "ipc_inv r" and "\<exists>s' x. m = Inr (s', x) \<and> slots_ok s' (ir_pc r) \<and> focus_ok s' (ir_pc r) \<and> vis_ok s'
    \<and> connected_client_count s' = connected_client_count (ir_s r)"
  shows "\<exists>r'. with_s r (try_bind m (\<lambda>(s, _). Inr s)) = Inr r' \<and> ipc_inv r'"
  using assms ipc_inv_same_pc [OF assms(1)] by (auto simp: with_s_def)

lemma io_inv:
  assumes "ipc_inv r"
  shows "ipc_inv (r\<lparr>ir_s := fst (toggle_io_client_locked c (ir_s r))\<rparr>)"
    and "ipc_inv (r\<lparr>ir_s := fst (set_client_io_blocks_locked c b (ir_s r))\<rparr>)"
proof -
  have s: "slots_ok (ir_s r) (ir_pc r)" using assms by (simp add: ipc_inv_def)
  have u: "ipc_inv (r\<lparr>ir_s := upd_app i (\<lambda>a. a\<lparr>as_io_blocks := b\<rparr>) (ir_s r)\<rparr>)"
    if "find_client_locked (ir_s r) c = Some i" for i b
  proof -
    from find_client_ok(1) [OF s that] have "i < length (threads (ir_s r))" "idx (ir_s r) i \<noteq> -1"
      using s by (auto simp: slots_ok_def)
    from ipc_inv_view [OF assms upd_app_io_view [OF this]] this show ?thesis by simp
  qed
  show "ipc_inv (r\<lparr>ir_s := fst (toggle_io_client_locked c (ir_s r))\<rparr>)"
    and "ipc_inv (r\<lparr>ir_s := fst (set_client_io_blocks_locked c b (ir_s r))\<rparr>)"
    using u assms by (auto simp: toggle_io_client_locked_def set_client_io_blocks_locked_def Let_def split: option.splits)
qed

lemma ipc_step_inv:
  assumes "ipc_step r res" and inv: "ipc_inv r"
  shows "\<exists>r'. res = Inr r' \<and> ipc_inv r'"
proof -
  have s: "slots_ok (ir_s r) (ir_pc r)" and f: "focus_ok (ir_s r) (ir_pc r)" and v: "vis_ok (ir_s r)"
    and n: "count_ok r" and m: "main_ok r"
    using inv by (simp_all add: ipc_inv_def)
  have mem: "ir_pc r i = TRunning \<Longrightarrow> i \<in> running_set (ir_pc r)" for i
    using count_running(1) [OF s] by (simp add: running_set_def)
  show ?thesis
    using assms(1)
  proof cases
    case (connect_refused s')
    note w = connect_find_view [OF connect_refused(3)]
    have "count_ok (r\<lparr>ir_s := s', ir_lost := ir_lost r + 1\<rparr>)"
      using n w(2) connect_refused(2) by (simp add: count_ok_eq)
    with same_view_ok [OF w(1)] s f v m connect_refused show ?thesis by (simp add: ipc_inv_def main_ok_def)
  next
    case (connect_join s' i)
    note w = connect_find_view [OF connect_join(3)]
    have i: "i < IPC_MAX_CLIENTS" "idx (ir_s r) i < 0" "st (ir_s r) i = IPC_THREAD_STOPPING" using w(4) by auto
    have "slot_ok (ir_s r) (ir_pc r) i" using s i(1) by (simp add: slots_ok_def)
    with i have "ir_pc r i \<in> {TReleased, TDestroyed, TDone}" by (auto simp: slot_ok_def)
    moreover have "count_ok (r\<lparr>ir_s := s', ir_main := MJoining i\<rparr>)"
      using n w(2) connect_join(2) by (simp add: count_ok_eq)
    ultimately show ?thesis
      using same_view_ok [OF w(1)] s f v connect_join i(1) by (simp add: ipc_inv_def main_ok_def)
  next
    case (connect_ready s' i shm res)
    note w = connect_find_view [OF connect_ready(3)]
    have i: "i < IPC_MAX_CLIENTS" "idx (ir_s r) i < 0" "st (ir_s r) i = IPC_THREAD_READY" using w(3) by auto
    have "slot_ok (ir_s r) (ir_pc r) i" using s i(1) by (simp add: slots_ok_def)
    with i have "ir_pc r i = TNone" "idx (ir_s r) i = -1" by (auto simp: slot_ok_def)
    moreover from this have "idx s' i = -1" using w(1) by (simp add: same_view_def)
    moreover have "connected_client_count s' = of_nat (card (running_set (ir_pc r)) + ir_lost r + 1)"
      using n w(2) connect_ready(2) by (simp add: count_ok_eq)
    ultimately have "ipc_inv (started r i res)"
      using same_view_ok [OF w(1)] s f v i(1) connect_ready by (intro started_inv) auto
    with connect_ready show ?thesis by simp
  next
    case (connect_joined i shm res)
    have i: "i < IPC_MAX_CLIENTS" using m connect_joined(2) by (simp add: main_ok_def)
    have "slot_ok (ir_s r) (ir_pc r) i" using s i by (simp add: slots_ok_def)
    with connect_joined(3) have "idx (ir_s r) i = -1" by (auto simp: slot_ok_def)
    moreover have "connected_client_count (ir_s r) = of_nat (card (running_set (ir_pc r)) + ir_lost r + 1)"
      using n connect_joined(2) by (simp add: count_ok_eq)
    ultimately have "ipc_inv (started r i res)"
      using s f v i connect_joined by (intro started_inv) auto
    with connect_joined show ?thesis by simp
  next
    case (session_create i ov z xret)
    from session_create_ok [OF s f v session_create(3,4) refl] ipc_inv_same_pc [OF inv] session_create
    show ?thesis by simp
  next
    case (session_destroy i)
    have "ipc_inv (r\<lparr>ir_s := fst (ipc_handle_session_destroy i (ir_s r))\<rparr>)"
      using inv ipc_inv_view [OF inv destroy_session_view destroy_session_count, of i]
      by (simp add: ipc_handle_session_destroy_def)
    with session_destroy show ?thesis by simp
  next
    case (predict_frame i)
    with with_s_inv [OF inv predict_ok [OF s f v]] show ?thesis by simp
  next
    case (set_active c)
    with with_s_inv [OF inv set_active_inv [OF s f v]] show ?thesis by simp
  next
    case (toggle_io c)
    with io_inv(1) [OF inv] show ?thesis by simp
  next
    case (set_io c b)
    with io_inv(2) [OF inv] show ?thesis by simp
  next
    case (release i)
    note i = count_running(1) [OF s release(3)]
    have len: "i < length (threads (ir_s r))" using s i by (simp add: slots_ok_def)
    have "card (running_set (ir_pc r)) = Suc (card (running_set (ir_pc r) - {i}))"
      using mem [OF release(3)] by (metis card_Suc_Diff1 running_set_finite)
    then have "count_ok (r\<lparr>ir_s := shutdown_release i (ir_s r), ir_pc := (ir_pc r)(i := TReleased)\<rparr>)"
      using n release(2) by (simp add: count_ok_eq running_set_upd release_view(8) [OF len])
    with release_ok [OF s f v release(3)] release show ?thesis by (simp add: ipc_inv_def main_ok_def)
  next
    case (destroyed i now)
    let ?s = "fst (shutdown_exit_checks now (ipc_server_client_destroy_session_and_compositor i (ir_s r)))"
    have ok: "slots_ok ?s (ir_pc r) \<and> focus_ok ?s (ir_pc r) \<and> vis_ok ?s"
      using same_view_trans [OF exit_checks_view destroy_session_view] s f v by blast
    have i: "i < IPC_MAX_CLIENTS"
      using s destroyed(3) by (metis slots_ok_def linorder_not_less thread_pc.distinct(3))
    let ?pc = "(ir_pc r)(i := TDestroyed)"
    have slot: "slot_ok ?s (ir_pc r) j \<Longrightarrow> slot_ok ?s ?pc j" for j
      using destroyed(3) by (cases "j = i") (simp_all add: slot_ok_def)
    have "slots_ok ?s ?pc" using ok slot i unfolding slots_ok_def by auto
    moreover have "focus_ok ?s ?pc" using ok unfolding focus_ok_def by auto
    moreover have "running_set ?pc = running_set (ir_pc r)" using destroyed(3) by (auto simp: running_set_def)
    then have "count_ok (r\<lparr>ir_s := ?s, ir_pc := ?pc\<rparr>)"
      using n by (simp add: count_ok_eq exit_checks_count destroy_session_count)
    ultimately show ?thesis using ok destroyed by (simp add: ipc_inv_def main_ok_def)
  next
    case (deactivated i)
    obtain s' where s': "ipc_server_deactivate_session i (ir_s r) = Inr s'" "slots_ok s' ((ir_pc r)(i := TDone))"
      "focus_ok s' ((ir_pc r)(i := TDone))" "vis_ok s'" "connected_client_count s' = connected_client_count (ir_s r)"
      using deactivate_ok [OF s f v deactivated(3)] by blast
    have "running_set ((ir_pc r)(i := TDone)) = running_set (ir_pc r)" using deactivated(3) by (auto simp: running_set_def)
    then have "count_ok (r\<lparr>ir_s := s', ir_pc := (ir_pc r)(i := TDone)\<rparr>)"
      using n s'(5) by (simp add: count_ok_eq)
    with s' deactivated show ?thesis by (simp add: ipc_inv_def main_ok_def)
  next
    case delayed_exit
    with ipc_inv_view [OF inv delayed_exit_view delayed_exit_count] show ?thesis by simp
  qed
qed

lemma new_run_inv: "ipc_inv (new_run a b)"
proof -
  let ?s = "new_server a b"
  have v: "idx ?s i = -1" "app_of ?s i = zero_app_state" "st ?s i = IPC_THREAD_READY" if "i < IPC_MAX_CLIENTS" for i
    using that by (simp_all add: new_server_def init_server_state_def view_defs zero_ics_def)
  have l: "length (threads ?s) = IPC_MAX_CLIENTS" "active_client_index ?s = -1" "last_active_client_index ?s = -1"
    "connected_client_count ?s = 0"
    by (simp_all add: new_server_def init_server_state_def)
  have "slots_ok ?s (\<lambda>_. TNone)" by (simp add: slots_ok_def slot_ok_def v l)
  moreover have "focus_ok ?s (\<lambda>_. TNone)" by (simp add: focus_ok_def candidate_def v l)
  moreover have "vis_ok ?s" by (simp add: vis_ok_def v l)
  ultimately show ?thesis
    by (simp add: ipc_inv_def new_run_def main_ok_def count_ok_eq running_set_def l)
qed

lemma ipc_reach_inv: "ipc_reach r \<Longrightarrow> ipc_inv r"
proof (induction rule: ipc_reach.induct)
  case (ipc_init a b)
  then show ?case by (rule new_run_inv)
next
  case (ipc_more r r')
  from ipc_step_inv [OF ipc_more.hyps(2) ipc_more.IH] show ?case by auto
qed

end
