(* ===== verification/Ipc_Properties.thy ===== *)
theory Ipc_Properties
  imports Ipc_Focus
begin

text \<open>The properties of the client management of the service.\<close>

section \<open>A run with two clients\<close>

lemma find_first: "p 0 \<Longrightarrow> find p [0..<IPC_MAX_CLIENTS] = Some 0"
  by (simp add: IPC_MAX_CLIENTS_def upt_rec)

lemma find_second: "\<not> p 0 \<Longrightarrow> p 1 \<Longrightarrow> find p [0..<IPC_MAX_CLIENTS] = Some 1"
  by (simp add: IPC_MAX_CLIENTS_def upt_rec)

lemma allocate_next:
  "id_generator s + 1 \<noteq> 0 \<Longrightarrow> id_generator s + 1 \<notin> set (client_ids s) \<Longrightarrow>
     allocate_id_locked s = Some (s\<lparr>id_generator := id_generator s + 1\<rparr>, id_generator s + 1)"
  by (simp add: allocate_id_locked_def allocate_id_loop.simps)

lemma new_server_view:
  assumes "i < IPC_MAX_CLIENTS"
  shows "idx (new_server a b) i = -1" "app_of (new_server a b) i = zero_app_state"
    "st (new_server a b) i = IPC_THREAD_READY"
  using assms by (simp_all add: new_server_def init_server_state_def view_defs zero_ics_def)

lemma client_ids_zero: "client_ids (new_server a b) = replicate IPC_MAX_CLIENTS 0"
  by (simp add: new_server_def init_server_state_def client_ids_def zero_ics_def)

text \<open>One connection to a fresh service.\<close>

lemma first_connection:
  "\<exists>r. ipc_reach r \<and> ir_main r = MIdle \<and> ir_pc r = (\<lambda>_. TNone)(0 := TRunning) \<and> ir_lost r = 0
     \<and> id_generator (ir_s r) = 1 \<and> idx (ir_s r) 0 = 0 \<and> (\<forall>i < IPC_MAX_CLIENTS. i \<noteq> 0 \<longrightarrow> idx (ir_s r) i = -1
        \<and> st (ir_s r) i = IPC_THREAD_READY)
     \<and> (\<forall>i < IPC_MAX_CLIENTS. as_id (app_of (ir_s r) i) = (if i = 0 then 1 else 0)
        \<and> \<not> session_overlay (app_of (ir_s r) i) \<and> \<not> session_active (app_of (ir_s r) i))
     \<and> connect_start True 0 (fst (connect_find (ir_s (new_run a b)))) = Some (ir_s r, True)"
proof -
  let ?s = "new_server a b"
  have p: "0 < IPC_MAX_CLIENTS" by (simp add: IPC_MAX_CLIENTS_def)
  obtain s where s: "connect_find ?s = (s, SlotReady 0)"
    "s = ?s\<lparr>connected_client_count := connected_client_count ?s + 1, last_client_disconnect_ns := 0\<rparr>"
    using new_server_view [OF p] find_first [of "\<lambda>i. idx ?s i < 0"] by (simp add: connect_find_cases)
  have len: "0 < length (threads s)" "length (threads s) = IPC_MAX_CLIENTS"
    using p by (simp_all add: s(2) new_server_def init_server_state_def)
  have ids: "client_ids s = replicate IPC_MAX_CLIENTS 0" using client_ids_zero by (simp add: s(2) client_ids_def)
  have g: "id_generator s = 0" by (simp add: s(2) new_server_def init_server_state_def)
  let ?t = "s\<lparr>threads := (threads s)[0 := (threads s ! 0)\<lparr>it_state := IPC_THREAD_STARTING\<rparr>]\<rparr>"
  have "client_ids ?t = client_ids s"
    using len by (simp add: client_ids_def map_update) (metis list_update_id map_update nth_map)
  then have "allocate_id_locked ?t = Some (?t\<lparr>id_generator := 1\<rparr>, 1)"
    using allocate_next [of ?t] ids g by simp
  then obtain s' where c: "connect_start True 0 s = Some (s', True)"
    by (simp add: connect_start_def Let_def)
  have gen: "id_generator s' = 1"
    using c \<open>allocate_id_locked ?t = _\<close> by (auto simp: connect_start_def Let_def upd_ics_def)
  obtain id where v: "id_generator s' = id" "\<And>j. idx s' j = (if j = 0 then int 0 else idx s j)"
    "\<And>j. st s' j = (if j = 0 then IPC_THREAD_STARTING else st s j)"
    "\<And>j. app_of s' j = (if j = 0 then zero_app_state\<lparr>as_id := id\<rparr> else app_of s j)"
    using connect_start_view [OF len c] by blast
  define r where "r = started (new_run a b) 0 (s', True)"
  have "ipc_step (new_run a b) (Inr r)"
    unfolding r_def using s(1) c gen
    by (intro connect_ready) (simp_all add: new_run_def id_findable_def)
  then have "ipc_reach r" using ipc_init ipc_more by blast
  moreover have "idx s j = idx ?s j" "st s j = st ?s j" "app_of s j = app_of ?s j" for j by (simp_all add: s(2))
  ultimately show ?thesis
    using v gen c s(1)
    by (intro exI [of _ r]) (simp add: r_def started_def new_run_def new_server_view)
qed

text \<open>A second connection, and the first frames of both clients.\<close>

lemma reach_facts:
  assumes "ipc_reach r"
  shows "slots_ok (ir_s r) (ir_pc r)" "focus_ok (ir_s r) (ir_pc r)" "vis_ok (ir_s r)" "length (threads (ir_s r)) = IPC_MAX_CLIENTS"
  using ipc_reach_inv [OF assms] by (simp_all add: ipc_inv_def slots_ok_def)

lemma second_connection:
  "\<exists>r. ipc_reach r \<and> ir_main r = MIdle \<and> ir_pc r = (\<lambda>_. TNone)(0 := TRunning, 1 := TRunning)
     \<and> (\<forall>i < IPC_MAX_CLIENTS. \<not> session_overlay (app_of (ir_s r) i) \<and> \<not> session_active (app_of (ir_s r) i))"
proof -
  obtain r where r: "ipc_reach r" "ir_main r = MIdle" "ir_pc r = (\<lambda>_. TNone)(0 := TRunning)" "ir_lost r = 0"
    "id_generator (ir_s r) = 1" "idx (ir_s r) 0 = 0"
    "\<forall>i < IPC_MAX_CLIENTS. i \<noteq> 0 \<longrightarrow> idx (ir_s r) i = -1 \<and> st (ir_s r) i = IPC_THREAD_READY"
    "\<forall>i < IPC_MAX_CLIENTS. as_id (app_of (ir_s r) i) = (if i = 0 then 1 else 0)
        \<and> \<not> session_overlay (app_of (ir_s r) i) \<and> \<not> session_active (app_of (ir_s r) i)"
    using first_connection [of False False] by blast
  let ?s = "ir_s r"
  have p: "1 < IPC_MAX_CLIENTS" by (simp add: IPC_MAX_CLIENTS_def)
  obtain s where s: "connect_find ?s = (s, SlotReady 1)"
    "s = ?s\<lparr>connected_client_count := connected_client_count ?s + 1, last_client_disconnect_ns := 0\<rparr>"
    using r(6,7) p find_second [of "\<lambda>i. idx ?s i < 0"] by (simp add: connect_find_cases)
  have len: "1 < length (threads s)" "length (threads s) = IPC_MAX_CLIENTS"
    using p reach_facts(4) [OF r(1)] by (simp_all add: s(2))
  have ids: "2 \<notin> set (client_ids s)"
  proof
    assume "2 \<in> set (client_ids s)"
    then obtain i where "i < IPC_MAX_CLIENTS" "as_id (app_of ?s i) = 2"
      using len(2) by (auto simp: client_ids_def in_set_conv_nth s(2) app_of_def ics_of_def)
    with r(8) show False by (simp split: if_splits)
  qed
  let ?t = "s\<lparr>threads := (threads s)[1 := (threads s ! 1)\<lparr>it_state := IPC_THREAD_STARTING\<rparr>]\<rparr>"
  have "client_ids ?t = client_ids s"
    using len by (simp add: client_ids_def map_update) (metis list_update_id map_update nth_map One_nat_def)
  moreover have "id_generator ?t = 1" using r(5) by (simp add: s(2))
  ultimately have a: "allocate_id_locked ?t = Some (?t\<lparr>id_generator := 2\<rparr>, 2)"
    using allocate_next [of ?t] ids by simp
  then obtain s' where c: "connect_start True 1 s = Some (s', True)"
    by (simp add: connect_start_def Let_def)
  have gen: "id_generator s' = 2"
    using c a by (auto simp: connect_start_def Let_def upd_ics_def)
  obtain id where v: "\<And>j. app_of s' j = (if j = 1 then zero_app_state\<lparr>as_id := id\<rparr> else app_of s j)"
    using connect_start_view [OF len c] by blast
  define q where "q = started r 1 (s', True)"
  have "ipc_step r (Inr q)"
    unfolding q_def using s(1) c gen r(2) by (intro connect_ready) (simp_all add: id_findable_def)
  then have "ipc_reach q" using r(1) ipc_more by blast
  moreover have "app_of s j = app_of ?s j" for j by (simp add: s(2))
  ultimately show ?thesis
    using v r(3,8) by (intro exI [of _ q]) (simp add: q_def started_def)
qed

lemma session_create_plain:
  assumes "ipc_reach r" and "ir_main r = MIdle" and "ir_pc r i = TRunning"
    and "\<forall>j < IPC_MAX_CLIENTS. \<not> session_overlay (app_of (ir_s r) j) \<and> (session_active (app_of (ir_s r) j) \<longleftrightarrow> j \<in> A)"
  shows "\<exists>r'. ipc_reach r' \<and> ir_main r' = MIdle \<and> ir_pc r' = ir_pc r
    \<and> (\<forall>j < IPC_MAX_CLIENTS. \<not> session_overlay (app_of (ir_s r') j) \<and> (j \<in> insert i A \<longrightarrow> session_active (app_of (ir_s r') j)))"
proof -
  note f = reach_facts [OF assms(1)]
  note i = count_running(1) [OF f(1) assms(3)]
  have len: "i < length (threads (ir_s r))" using i f(4) by simp
  let ?s = "upd_ics i (\<lambda>ics. ics\<lparr>has_xs := False, has_xc := False\<rparr>) (ir_s r)"
  let ?d = "r\<lparr>ir_s := fst (ipc_handle_session_destroy i (ir_s r))\<rparr>"
  have d: "ipc_reach ?d" using ipc_more [OF assms(1) session_destroy [OF assms(2,3)]] .
  have dv: "same_view (ir_s ?d) (ir_s r)"
    using destroy_session_view [of i "ir_s r"] by (simp add: ipc_handle_session_destroy_def)
  have nx: "\<not> has_xs (ics_of (ir_s ?d) i)"
    using len by (simp add: ipc_handle_session_destroy_def ipc_server_client_destroy_session_and_compositor_def upd_ics_def ics_of_def)
  have ov: "\<not> session_overlay (app_of (ir_s ?d) i)" using same_viewD(5) [OF dv] assms(4) i by simp
  let ?c = "?d\<lparr>ir_s := fst (ipc_handle_session_create i False 0 XRT_SUCCESS (ir_s ?d))\<rparr>"
  have k: "kind_kept False (app_of (ir_s ?d) i)" using ov by (simp add: kind_kept_def)
  have c: "ipc_reach ?c"
    using ipc_more [OF d session_create [of ?d i False 0 XRT_SUCCESS]] assms(2,3) k by simp
  have dl: "i < length (threads (ir_s ?d))" using reach_facts(4) [OF d] i by simp
  from session_create_view [OF dl k, of 0 XRT_SUCCESS]
  have cv: "\<And>j. session_active (app_of (ir_s ?c) j) = session_active (app_of (ir_s r) j)"
    "\<And>j. j \<noteq> i \<Longrightarrow> app_of (ir_s ?c) j = app_of (ir_s ?d) j"
    using same_viewD(2) [OF dv] by auto
  have xc: "has_xc (ics_of (ir_s ?c) i)" "\<not> session_overlay (app_of (ir_s ?c) i)"
    using nx dl by (simp_all add: ipc_handle_session_create_def Let_def syscomp_def upd_ics_def upd_app_def ics_of_def app_of_def)
  have ovc: "\<not> session_overlay (app_of (ir_s ?c) j)" if "j < IPC_MAX_CLIENTS" for j
    using xc(2) cv(2) same_viewD(5) [OF dv] assms(4) that by (cases "j = i") simp_all
  note cf = reach_facts [OF c]
  have pc: "ir_pc ?c i = TRunning" using assms(3) by simp
  obtain s' where s': "ipc_server_activate_session i (ir_s ?c) = Inr s'" "session_active (app_of s' i)"
    "\<forall>j < IPC_MAX_CLIENTS. (session_active (app_of (ir_s ?c) j) \<longrightarrow> session_active (app_of s' j))
        \<and> session_overlay (app_of s' j) = session_overlay (app_of (ir_s ?c) j)"
  proof (cases "session_active (app_of (ir_s ?c) i)")
    case True
    then show ?thesis using that by (simp add: ipc_server_activate_session_def)
  next
    case False
    from activated_main [OF cf(1,2) pc False xc(2)] show ?thesis using that by blast
  qed
  let ?p = "?c\<lparr>ir_s := s'\<rparr>"
  have "ipc_step ?c (Inr ?p)"
    using predict_frame [of ?c i] assms(2) pc s'(1) xc(1)
    by (simp add: ipc_handle_compositor_predict_frame_def with_s_def)
  from ipc_more [OF c this] have "ipc_reach ?p" .
  moreover have "\<not> session_overlay (app_of s' j)" if "j < IPC_MAX_CLIENTS" for j using s'(3) ovc that by simp
  moreover have "session_active (app_of s' j)" if "j < IPC_MAX_CLIENTS" "j \<in> insert i A" for j
    using that s'(2,3) assms(4) cv(1) by auto
  ultimately show ?thesis using assms(2) by (intro exI [of _ ?p]) simp
qed

lemma two_active_clients:
  "\<exists>r. ipc_reach r \<and> ir_main r = MIdle \<and> ir_pc r = (\<lambda>_. TNone)(0 := TRunning, 1 := TRunning)
     \<and> (\<forall>i < 2. \<not> session_overlay (app_of (ir_s r) i) \<and> session_active (app_of (ir_s r) i))"
proof -
  obtain r0 where 0: "ipc_reach r0" "ir_main r0 = MIdle" "ir_pc r0 = (\<lambda>_. TNone)(0 := TRunning, 1 := TRunning)"
    "\<forall>i < IPC_MAX_CLIENTS. \<not> session_overlay (app_of (ir_s r0) i) \<and> \<not> session_active (app_of (ir_s r0) i)"
    using second_connection by blast
  have p: "0 < IPC_MAX_CLIENTS" by (simp add: IPC_MAX_CLIENTS_def)
  from session_create_plain [OF 0(1,2), of 0 "{}"] 0(3,4) obtain r1 where r1: "ipc_reach r1" "ir_main r1 = MIdle"
    "ir_pc r1 = ir_pc r0" "\<forall>j < IPC_MAX_CLIENTS. \<not> session_overlay (app_of (ir_s r1) j)
      \<and> (j \<in> {0} \<longrightarrow> session_active (app_of (ir_s r1) j))"
    by auto
  then have 1: "ipc_reach r1" "ir_main r1 = MIdle" "ir_pc r1 = ir_pc r0"
    "\<forall>j < IPC_MAX_CLIENTS. \<not> session_overlay (app_of (ir_s r1) j)" "session_active (app_of (ir_s r1) 0)"
    using p by auto
  let ?A = "{j. session_active (app_of (ir_s r1) j)}"
  from session_create_plain [OF 1(1,2), of 1 ?A] 1 0(3) obtain r2 where 2: "ipc_reach r2" "ir_main r2 = MIdle"
    "ir_pc r2 = ir_pc r0" "\<forall>j < IPC_MAX_CLIENTS. \<not> session_overlay (app_of (ir_s r2) j)
      \<and> (j \<in> insert 1 ?A \<longrightarrow> session_active (app_of (ir_s r2) j))"
    by auto
  have "\<not> session_overlay (app_of (ir_s r2) i) \<and> session_active (app_of (ir_s r2) i)" if "i < 2" for i
  proof -
    have "i < IPC_MAX_CLIENTS" "i \<in> insert 1 ?A"
      using that 1(5) by (cases "i = 0"; simp add: IPC_MAX_CLIENTS_def)+
    with 2(4) show ?thesis by blast
  qed
  with 2 0(3) show ?thesis by (intro exI [of _ r2]) simp
qed

section \<open>Properties\<close>



text \<open>C34. The identifier of a new client is found after finitely many tries and is non-zero and
  different from that of every client slot, whatever the 32 bit generator has wrapped around to.\<close>

theorem allocate_id_unique:
  assumes "length (threads s) = IPC_MAX_CLIENTS"
  shows "\<exists>id. allocate_id_locked s = Some (s\<lparr>id_generator := id\<rparr>, id) \<and> id \<noteq> 0
    \<and> (\<forall>i < IPC_MAX_CLIENTS. as_id (app_of s i) \<noteq> id)"
proof -
  obtain id where id: "allocate_id_loop (client_ids s) (id_generator s) = Some id" "id \<noteq> 0" "id \<notin> set (client_ids s)"
    using allocate_id_loop_ok [OF client_ids_set(1) [OF assms]] by blast
  then show ?thesis using client_ids_set(2) [OF assms] by (auto simp: allocate_id_locked_def)
qed

theorem allocate_id_unique_witness:
  "\<exists>id. allocate_id_locked ((new_server True False)\<lparr>id_generator := -1\<rparr>) =
      Some ((new_server True False)\<lparr>id_generator := id\<rparr>, id) \<and> id \<noteq> 0"
  using allocate_id_unique [of "(new_server True False)\<lparr>id_generator := -1\<rparr>"]
  by (auto simp: new_server_def init_server_state_def)

text \<open>The count of connected clients is the number of running client threads plus every connection
  that was refused or got no shared memory, for they are counted and never taken back; so once a
  connection has been refused the service never again exits when it is idle.\<close>

lemma refused_connection_prevents_idle_exit:
  assumes "ipc_reach r" and "ir_lost r > 0" and "ir_lost r + 33 < 2 ^ 32"
  shows "connected_client_count (ir_s r) = of_nat (card {i. i < IPC_MAX_CLIENTS \<and> ir_pc r i = TRunning} + ir_lost r
      + (if ir_main r = MIdle then 0 else 1))
    \<and> delayed_exit_thread (ir_s r) = ir_s r"
proof -
  let ?n = "card {i. i < IPC_MAX_CLIENTS \<and> ir_pc r i = TRunning} + ir_lost r + (if ir_main r = MIdle then 0 else 1)"
  have c: "connected_client_count (ir_s r) = of_nat ?n"
    using ipc_reach_inv [OF assms(1)] by (simp add: ipc_inv_def count_ok_def)
  have "card {i. i < IPC_MAX_CLIENTS \<and> ir_pc r i = TRunning} \<le> 32"
    using card_mono [of "{..<IPC_MAX_CLIENTS}" "{i. i < IPC_MAX_CLIENTS \<and> ir_pc r i = TRunning}"]
    by (force simp: IPC_MAX_CLIENTS_def)
  then have b: "0 < ?n" "?n < 2 ^ 32" using assms(2,3) by auto
  have nz: "(of_nat k :: 32 word) \<noteq> 0" if "0 < k" "k < 2 ^ 32" for k
    using unat_of_nat [where 'a = 32, of k] that by auto
  have "(of_nat ?n :: 32 word) \<noteq> 0" by (rule nz [OF b])
  with c show ?thesis by (simp add: delayed_exit_thread_def)
qed

text \<open>C36. Accepting a connection can deadlock the service: the slot of a client that is shutting down is
  free before its thread has ended, and the main thread joins that thread while it holds
  \<^verbatim>\<open>global_state.lock\<close>, which the thread still has to take. A state is reachable from which no
  locked operation of any thread is ever possible again.\<close>

theorem connect_deadlock:
  "\<exists>r i. ipc_reach r \<and> ir_main r = MJoining i \<and> ir_pc r i = TReleased \<and> (\<forall>res. \<not> ipc_step r res)"
proof -
  obtain r where r: "ipc_reach r" "ir_main r = MIdle" "ir_pc r = (\<lambda>_. TNone)(0 := TRunning)"
    using first_connection [of False False] by blast
  note f = reach_facts [OF r(1)]
  let ?q = "r\<lparr>ir_s := shutdown_release 0 (ir_s r), ir_pc := (ir_pc r)(0 := TReleased)\<rparr>"
  have q: "ipc_reach ?q" using ipc_more [OF r(1) release [of r 0]] r(2,3) by simp
  have len: "0 < length (threads (ir_s r))" using f(4) by (simp add: IPC_MAX_CLIENTS_def)
  obtain s where s: "connect_find (ir_s ?q) = (s, JoinFirst 0)"
    using find_first [of "\<lambda>i. idx (shutdown_release 0 (ir_s r)) i < 0"]
    by (simp add: connect_find_cases release_view [OF len])
  let ?d = "?q\<lparr>ir_s := s, ir_main := MJoining 0\<rparr>"
  have d: "ipc_reach ?d" using ipc_more [OF q connect_join [of ?q s 0]] r(2) s by simp
  have "\<not> ipc_step ?d res" for res
    by (auto elim!: ipc_step.cases)
  with d show ?thesis by (intro exI [of _ ?d] exI [of _ 0]) simp
qed

text \<open>Destroying the session of the active client does not deactivate it: it stays the focused and
  visible client with no session at all, and another main application stays hidden, even when it
  goes on to ask for frames.\<close>

lemma destroyed_session_keeps_focus:
  assumes "ipc_reach r" and "ir_pc r i = TRunning" and "active_client_index (ir_s r) = int i"
    and "ir_pc r j = TRunning" and "i \<noteq> j" and "candidate (ir_s r) i" and "candidate (ir_s r) j"
  defines "s' \<equiv> fst (ipc_handle_session_destroy i (ir_s r))"
  shows "active_client_index s' = int i \<and> session_focused (app_of s' i)
    \<and> \<not> session_visible (app_of s' j)
    \<and> (\<exists>x. ipc_handle_compositor_predict_frame j s' = Inr (s', x))"
proof -
  note f = reach_facts [OF assms(1)]
  have v: "same_view s' (ir_s r)"
    using destroy_session_view by (simp add: s'_def ipc_handle_session_destroy_def)
  note ci = count_running [OF f(1) assms(2)] and cj = count_running [OF f(1) assms(4)]
  have "session_focused (app_of (ir_s r) i)" "\<not> session_visible (app_of (ir_s r) j)"
    using f(3) ci cj assms(3,5,6,7) by (auto simp: vis_ok_def candidate_def)
  moreover have "session_active (app_of s' j)" using assms(7) by (simp add: same_viewD [OF v] candidate_def)
  ultimately show ?thesis
    using v assms(3)
    by (simp add: same_viewD [OF v] same_view_def ipc_handle_compositor_predict_frame_def ipc_server_activate_session_def)
qed

end
