(* ===== verification/Path_Verify.thy ===== *)
theory Path_Verify
  imports Prelude "HOL-Library.Char_ord"
begin

text \<open>
  Verification of the strings an application passes in
  (\<^verbatim>\<open>state_trackers/oxr/oxr_verify.c\<close>, path section): full paths such as
  \<^verbatim>\<open>/user/hand/left\<close>, the single-level names of actions and action sets and the
  localized names. A C string is a \<open>char list\<close> that stands for the memory from the pointer to
  the end of the object it points into, so reading past the object is \<open>OutOfBounds\<close>.
  Logging is not modelled; what it reads of the string is where a buffer is formatted.

  The loop over a path is a state machine with an early return; its reference is the grammar of
  well-formed paths: a non-empty sequence of components, each behind a slash.
\<close>

section \<open>Characters and C strings\<close>

abbreviation NUL :: char where
  "NUL \<equiv> CHR 0x00"

definition valid_path_char :: "char \<Rightarrow> bool" where
  "valid_path_char c \<longleftrightarrow>
     (if CHR ''a'' \<le> c \<and> c \<le> CHR ''z'' then True
      else if CHR ''0'' \<le> c \<and> c \<le> CHR ''9'' then True
      else c = CHR ''-'' \<or> c = CHR ''_'' \<or> c = CHR ''.'' \<or> c = CHR ''/'')"

text \<open>The loop of \<^verbatim>\<open>contains_zero\<close> from index \<open>i\<close>, with \<open>n\<close> bytes left to look at.\<close>

primrec contains_zero_from :: "char list \<Rightarrow> nat \<Rightarrow> nat \<Rightarrow> fault + bool" where
  "contains_zero_from path i 0 = Inr False"
| "contains_zero_from path i (Suc n) = try_bind (arr_get path i) (\<lambda>c.
     if c = NUL then Inr True else contains_zero_from path (i + 1) n)"

definition contains_zero :: "char list \<Rightarrow> nat \<Rightarrow> fault + bool" where
  "contains_zero path sz = contains_zero_from path 0 sz"

text \<open>\<^verbatim>\<open>strlen\<close> of the standard library: reading stops at the terminator.\<close>

primrec c_strlen :: "char list \<Rightarrow> fault + nat" where
  "c_strlen [] = Inl OutOfBounds"
| "c_strlen (c # cs) = (if c = NUL then Inr 0 else try_bind (c_strlen cs) (\<lambda>n. Inr (n + 1)))"

section \<open>Names\<close>

text \<open>The loop over the characters of a single-level path, \<open>n\<close> of them left.\<close>

primrec single_level_from :: "char list \<Rightarrow> nat \<Rightarrow> nat \<Rightarrow> fault + XrResult" where
  "single_level_from path i 0 = Inr XR_SUCCESS"
| "single_level_from path i (Suc n) = try_bind (arr_get path i) (\<lambda>c.
     if valid_path_char c \<and> c \<noteq> CHR ''/'' then single_level_from path (i + 1) n
     else Inr XR_ERROR_PATH_FORMAT_INVALID)"

definition oxr_verify_fixed_size_single_level_path :: "char list \<Rightarrow> nat \<Rightarrow> fault + XrResult" where
  "oxr_verify_fixed_size_single_level_path path array_size =
     (if array_size = 0 then Inr XR_ERROR_RUNTIME_FAILURE
      else try_bind (arr_get path 0) (\<lambda>c.
        if c = NUL then Inr XR_ERROR_NAME_INVALID
        else try_bind (contains_zero path array_size) (\<lambda>z.
          if \<not> z then Inr XR_ERROR_PATH_FORMAT_INVALID
          else try_bind (c_strlen path) (\<lambda>len. single_level_from path 0 len))))"

definition oxr_verify_localized_name :: "char list \<Rightarrow> nat \<Rightarrow> fault + XrResult" where
  "oxr_verify_localized_name string array_size =
     (if array_size = 0 then Inr XR_ERROR_RUNTIME_FAILURE
      else try_bind (arr_get string 0) (\<lambda>c.
        if c = NUL then Inr XR_ERROR_LOCALIZED_NAME_INVALID
        else try_bind (contains_zero string array_size) (\<lambda>z.
          if \<not> z then Inr XR_ERROR_LOCALIZED_NAME_INVALID else Inr XR_SUCCESS)))"

section \<open>Full paths\<close>

datatype verify_state = VERIFY_START | VERIFY_MIDDLE | VERIFY_SLASH | VERIFY_SLASHDOTS

definition XR_MAX_PATH_LENGTH :: nat where
  "XR_MAX_PATH_LENGTH = 256"

text \<open>The switch on the state: an early return, or the next state with the flag \<^verbatim>\<open>valid\<close>.\<close>

fun verify_char :: "verify_state \<Rightarrow> char \<Rightarrow> bool \<Rightarrow> XrResult + verify_state \<times> bool" where
  "verify_char VERIFY_START c valid =
     (if c \<noteq> CHR ''/'' then Inl XR_ERROR_PATH_FORMAT_INVALID else Inr (VERIFY_SLASH, valid))"
| "verify_char VERIFY_SLASH c valid =
     (if c = CHR ''.'' then Inr (VERIFY_SLASHDOTS, valid)
      else if c = CHR ''/'' then Inl XR_ERROR_PATH_FORMAT_INVALID
      else Inr (VERIFY_MIDDLE, valid_path_char c))"
| "verify_char VERIFY_MIDDLE c valid =
     (if c = CHR ''/'' then Inr (VERIFY_SLASH, valid) else Inr (VERIFY_MIDDLE, valid_path_char c))"
| "verify_char VERIFY_SLASHDOTS c valid =
     (if c = CHR ''/'' then Inl XR_ERROR_PATH_FORMAT_INVALID
      else if c = CHR ''.'' then Inr (VERIFY_SLASHDOTS, valid)
      else Inr (VERIFY_MIDDLE, valid_path_char c))"

text \<open>
  The loop from index \<open>i\<close> with \<open>n\<close> characters left: an early return (\<open>Inl\<close>) or the state after the
  last character.
\<close>

primrec verify_loop ::
  "char list \<Rightarrow> nat \<Rightarrow> nat \<Rightarrow> nat \<Rightarrow> verify_state \<Rightarrow> bool \<Rightarrow> fault + (XrResult + verify_state)" where
  "verify_loop path len i 0 state valid = Inr (Inr state)"
| "verify_loop path len i (Suc n) state valid = try_bind (arr_get path i) (\<lambda>c.
     (case verify_char state c valid of
        Inl r \<Rightarrow> Inr (Inl r)
      | Inr (state', valid1) \<Rightarrow>
          try_bind (if valid1 then try_bind (arr_get path (len - 1)) (\<lambda>e. Inr (e \<noteq> CHR ''/'')) else Inr valid1)
            (\<lambda>valid2.
               if \<not> valid2 then Inr (Inl XR_ERROR_PATH_FORMAT_INVALID)
               else verify_loop path len (i + 1) n state' valid2)))"

text \<open>The switch on the state the loop ended in.\<close>

fun verify_final :: "verify_state \<Rightarrow> nat \<Rightarrow> XrResult" where
  "verify_final VERIFY_START len = XR_ERROR_PATH_FORMAT_INVALID"
| "verify_final VERIFY_SLASH len = (if len > 1 then XR_SUCCESS else XR_ERROR_PATH_FORMAT_INVALID)"
| "verify_final VERIFY_SLASHDOTS len = XR_ERROR_PATH_FORMAT_INVALID"
| "verify_final VERIFY_MIDDLE len = XR_SUCCESS"

text \<open>A path that is too long is formatted with \<^verbatim>\<open>%s\<close>, which reads up to its terminator.\<close>

definition oxr_verify_full_path :: "char list \<Rightarrow> nat \<Rightarrow> fault + XrResult" where
  "oxr_verify_full_path path len =
     (if len \<ge> XR_MAX_PATH_LENGTH then
        try_bind (c_strlen path) (\<lambda>_. Inr XR_ERROR_PATH_FORMAT_INVALID)
      else try_bind (verify_loop path len 0 len VERIFY_START True) (\<lambda>r.
        case r of Inl e \<Rightarrow> Inr e | Inr state \<Rightarrow> Inr (verify_final state len)))"

text \<open>The length of the string, looking at most at \<open>n\<close> bytes; \<open>XR_MAX_PATH_LENGTH\<close> without a terminator.\<close>

primrec bounded_length_from :: "char list \<Rightarrow> nat \<Rightarrow> nat \<Rightarrow> fault + nat" where
  "bounded_length_from path i 0 = Inr XR_MAX_PATH_LENGTH"
| "bounded_length_from path i (Suc n) = try_bind (arr_get path i) (\<lambda>c.
     if c = NUL then Inr i else bounded_length_from path (i + 1) n)"

definition oxr_verify_full_path_c :: "char list \<Rightarrow> fault + XrResult" where
  "oxr_verify_full_path_c path =
     try_bind (bounded_length_from path 0 XR_MAX_PATH_LENGTH) (\<lambda>len. oxr_verify_full_path path len)"

section \<open>The grammar of well-formed paths\<close>

text \<open>
  A component is non-empty, made of the allowed characters other than the slash, and not made of
  dots only.
\<close>

definition path_component :: "string \<Rightarrow> bool" where
  "path_component n \<longleftrightarrow>
     n \<noteq> [] \<and> (\<forall>c \<in> set n. valid_path_char c \<and> c \<noteq> CHR ''/'') \<and> (\<exists>c \<in> set n. c \<noteq> CHR ''.'')"

definition path_of :: "string list \<Rightarrow> string" where
  "path_of ns = concat (map (\<lambda>n. CHR ''/'' # n) ns)"

definition well_formed_path :: "string \<Rightarrow> bool" where
  "well_formed_path p \<longleftrightarrow>
     length p < XR_MAX_PATH_LENGTH \<and> (\<exists>ns. ns \<noteq> [] \<and> p = path_of ns \<and> (\<forall>n \<in> set ns. path_component n))"

text \<open>Cutting a string at its slashes.\<close>

fun split_slash :: "string \<Rightarrow> string list" where
  "split_slash [] = [[]]"
| "split_slash (c # cs) =
     (if c = CHR ''/'' then [] # split_slash cs
      else (c # hd (split_slash cs)) # tl (split_slash cs))"

lemma split_slash_not_Nil [simp]: "split_slash p \<noteq> []"
  by (induction p) auto

lemma path_of_split_slash: "path_of (split_slash p) = CHR ''/'' # p"
proof (induction p)
  case Nil
  then show ?case by (simp add: path_of_def)
next
  case (Cons c p)
  obtain n ns where "split_slash p = n # ns"
    using split_slash_not_Nil [of p] by (cases "split_slash p") auto
  with Cons show ?case by (auto simp: path_of_def)
qed

lemma split_slash_append:
  "CHR ''/'' \<notin> set n \<Longrightarrow> split_slash (n @ CHR ''/'' # p) = n # split_slash p"
  by (induction n) auto

lemma split_slash_single: "CHR ''/'' \<notin> set n \<Longrightarrow> split_slash n = [n]"
  by (induction n) auto

lemma split_slash_path_of:
  assumes "ns \<noteq> []" and "\<forall>n \<in> set ns. CHR ''/'' \<notin> set n"
  shows "split_slash (tl (path_of ns)) = ns"
  using assms
proof (induction ns)
  case Nil
  then show ?case by simp
next
  case (Cons n ns)
  show ?case
  proof (cases ns)
    case Nil
    with Cons.prems show ?thesis by (simp add: path_of_def split_slash_single)
  next
    case (Cons m ms)
    then have "tl (path_of (n # ns)) = n @ CHR ''/'' # tl (path_of ns)"
      by (simp add: path_of_def)
    with Cons Cons.IH Cons.prems show ?thesis by (simp add: split_slash_append)
  qed
qed

lemma well_formed_path_split:
  "well_formed_path p \<longleftrightarrow> length p < XR_MAX_PATH_LENGTH \<and>
     (\<exists>q. p = CHR ''/'' # q \<and> (\<forall>n \<in> set (split_slash q). path_component n))" (is "_ \<longleftrightarrow> ?r")
proof
  assume "well_formed_path p"
  then obtain ns where ns: "length p < XR_MAX_PATH_LENGTH" "ns \<noteq> []" "p = path_of ns" "\<forall>n \<in> set ns. path_component n"
    by (auto simp: well_formed_path_def)
  from ns(4) have "\<forall>n \<in> set ns. CHR ''/'' \<notin> set n" by (auto simp: path_component_def)
  from split_slash_path_of [OF ns(2) this] ns have "split_slash (tl p) = ns" by simp
  moreover from ns(2,3) have "p = CHR ''/'' # tl p" by (cases ns) (auto simp: path_of_def)
  ultimately show ?r using ns by metis
next
  assume ?r
  then show "well_formed_path p"
    unfolding well_formed_path_def by (metis path_of_split_slash split_slash_not_Nil)
qed

section \<open>The verifier decides the grammar\<close>

text \<open>The loop on the characters themselves; \<open>e\<close> tells that the path does not end with a slash.\<close>

primrec run_chars :: "bool \<Rightarrow> verify_state \<Rightarrow> string \<Rightarrow> XrResult + verify_state" where
  "run_chars e st [] = Inr st"
| "run_chars e st (c # cs) =
     (case verify_char st c True of
        Inl r \<Rightarrow> Inl r
      | Inr (st', v) \<Rightarrow> if v \<and> e then run_chars e st' cs else Inl XR_ERROR_PATH_FORMAT_INVALID)"

lemma verify_loop_run:
  assumes "last (pre @ q) = l"
  shows "verify_loop (pre @ q @ rest) (length pre + length q) (length pre) (length q) st True
    = Inr (run_chars (l \<noteq> CHR ''/'') st q)"
  using assms
proof (induction q arbitrary: pre st)
  case Nil
  then show ?case by simp
next
  case (Cons c q)
  have e: "(pre @ (c # q) @ rest) ! (length pre + length q) = l"
    using Cons.prems by (simp add: nth_append last_conv_nth nth_Cons' split: if_splits)
  have IH: "verify_loop (pre @ (c # q) @ rest) (length pre + length (c # q)) (Suc (length pre)) (length q) st' True
    = Inr (run_chars (l \<noteq> CHR ''/'') st' q)" for st'
    using Cons.IH [of "pre @ [c]" st'] Cons.prems by simp
  show ?case
    using e by (simp add: IH [simplified] nth_append split: sum.split prod.split)
qed

lemma verify_char_error: "verify_char st c v = Inl r \<Longrightarrow> r = XR_ERROR_PATH_FORMAT_INVALID"
  by (cases st) (auto split: if_splits)

lemma run_chars_error: "run_chars e st q = Inl r \<Longrightarrow> r = XR_ERROR_PATH_FORMAT_INVALID"
  by (induction q arbitrary: st) (auto split: sum.splits if_splits dest: verify_char_error)

lemma verify_char_slash: "verify_char st c v = Inr (VERIFY_SLASH, v') \<Longrightarrow> c = CHR ''/''"
  by (cases st) (auto split: if_splits)

lemma run_chars_slash: "run_chars e st q = Inr VERIFY_SLASH \<Longrightarrow> q \<noteq> [] \<Longrightarrow> last q = CHR ''/''"
proof (induction q arbitrary: st)
  case Nil
  then show ?case by simp
next
  case (Cons c q)
  then show ?case
    by (cases "q = []") (auto split: sum.splits if_splits dest: verify_char_slash)
qed

text \<open>Which rests lead from a state to the accepting one.\<close>

lemma valid_dot [simp]: "valid_path_char CHR ''.''"
  by (simp add: valid_path_char_def)

lemma run_chars_accepts:
  "(run_chars True VERIFY_SLASH q = Inr VERIFY_MIDDLE \<longleftrightarrow> (\<forall>n \<in> set (split_slash q). path_component n)) \<and>
   (run_chars True VERIFY_MIDDLE q = Inr VERIFY_MIDDLE \<longleftrightarrow>
     (\<forall>c \<in> set (hd (split_slash q)). valid_path_char c \<and> c \<noteq> CHR ''/'') \<and>
     (\<forall>n \<in> set (tl (split_slash q)). path_component n)) \<and>
   (run_chars True VERIFY_SLASHDOTS q = Inr VERIFY_MIDDLE \<longleftrightarrow>
     path_component (CHR ''.'' # hd (split_slash q)) \<and> (\<forall>n \<in> set (tl (split_slash q)). path_component n))"
proof (induction q)
  case Nil
  show ?case by (simp add: path_component_def)
next
  case (Cons c q)
  obtain n ns where s: "split_slash q = n # ns"
    using split_slash_not_Nil [of q] by (cases "split_slash q") auto
  consider "c = CHR ''/''" | "c = CHR ''.''" | "c \<noteq> CHR ''/''" "c \<noteq> CHR ''.''" by blast
  then show ?case
  proof cases
    case 1
    with Cons s show ?thesis by (simp add: path_component_def)
  next
    case 2
    with Cons s show ?thesis by (simp add: path_component_def)
  next
    case 3
    with Cons s show ?thesis by (auto simp: path_component_def)
  qed
qed

definition path_verdict :: "bool \<Rightarrow> XrResult" where
  "path_verdict b = (if b then XR_SUCCESS else XR_ERROR_PATH_FORMAT_INVALID)"

lemma split_slash_snoc: "split_slash (q @ [CHR ''/'']) = split_slash q @ [[]]"
proof (induction q)
  case Nil
  then show ?case by simp
next
  case (Cons c q)
  obtain n ns where "split_slash q = n # ns"
    using split_slash_not_Nil [of q] by (cases "split_slash q") auto
  with Cons show ?case by simp
qed

lemma components_no_trailing_slash:
  assumes "\<forall>n \<in> set (split_slash q). path_component n"
  shows "last (CHR ''/'' # q) \<noteq> CHR ''/''"
proof
  assume l: "last (CHR ''/'' # q) = CHR ''/''"
  have "[] \<in> set (split_slash q)"
  proof (cases "q = []")
    case False
    with l have "q = butlast q @ [CHR ''/'']" by (metis append_butlast_last_id last.simps)
    then have "split_slash q = split_slash (butlast q) @ [[]]" by (metis split_slash_snoc)
    then show ?thesis by simp
  qed simp
  with assms show False by (auto simp: path_component_def)
qed

lemma verify_final_verdict:
  assumes "st = VERIFY_SLASH \<Longrightarrow> len \<le> 1"
  shows "verify_final st len = path_verdict (st = VERIFY_MIDDLE)"
  using assms by (cases st) (auto simp: path_verdict_def)

lemma oxr_verify_full_path_wellformed:
  assumes short: "length p < XR_MAX_PATH_LENGTH"
  shows "oxr_verify_full_path (p @ rest) (length p) = Inr (path_verdict (well_formed_path p))"
proof (cases p)
  case Nil
  then show ?thesis
    by (simp add: oxr_verify_full_path_def XR_MAX_PATH_LENGTH_def well_formed_path_split path_verdict_def)
next
  case (Cons c q)
  define e where "e \<longleftrightarrow> last p \<noteq> CHR ''/''"
  have run: "verify_loop (p @ rest) (length p) 0 (length p) VERIFY_START True = Inr (run_chars e VERIFY_START p)"
    using verify_loop_run [of "[]" p "last p" rest VERIFY_START] by (simp add: e_def)
  have wf: "well_formed_path p \<longleftrightarrow> c = CHR ''/'' \<and> (\<forall>n \<in> set (split_slash q). path_component n)"
    using short Cons by (auto simp: well_formed_path_split)
  have acc: "run_chars e VERIFY_START p = Inr VERIFY_MIDDLE \<longleftrightarrow> well_formed_path p"
  proof (cases e)
    case True
    then show ?thesis using run_chars_accepts [of q] Cons wf by simp
  next
    case False
    then have "\<not> well_formed_path p"
      using components_no_trailing_slash [of q] wf Cons unfolding e_def by auto
    with False Cons show ?thesis by simp
  qed
  show ?thesis
  proof (cases "run_chars e VERIFY_START p")
    case (Inl r)
    with acc have "\<not> well_formed_path p" by simp
    then have v: "path_verdict (well_formed_path p) = XR_ERROR_PATH_FORMAT_INVALID"
      by (simp add: path_verdict_def)
    have r: "r = XR_ERROR_PATH_FORMAT_INVALID"
      using Inl by (rule run_chars_error)
    show ?thesis
      unfolding oxr_verify_full_path_def run Inl v r using short by simp
  next
    case (Inr st)
    have "st = VERIFY_SLASH \<Longrightarrow> \<not> e"
      using run_chars_slash [of e VERIFY_START p] Inr Cons unfolding e_def by blast
    moreover have "\<not> e \<Longrightarrow> False"
      using Inr Cons by (auto split: if_splits)
    ultimately have "verify_final st (length p) = path_verdict (st = VERIFY_MIDDLE)"
      by (intro verify_final_verdict) blast
    moreover from acc Inr have "st = VERIFY_MIDDLE \<longleftrightarrow> well_formed_path p" by simp
    moreover have "oxr_verify_full_path (p @ rest) (length p) = Inr (verify_final st (length p))"
      unfolding oxr_verify_full_path_def run Inr using short by simp
    ultimately show ?thesis by simp
  qed
qed

section \<open>Strings with their terminator\<close>

lemma c_strlen_terminated: "NUL \<notin> set p \<Longrightarrow> c_strlen (p @ NUL # rest) = Inr (length p)"
  by (induction p) auto

lemma bounded_length_terminated:
  assumes "NUL \<notin> set p"
  shows "bounded_length_from (pre @ p @ NUL # rest) (length pre) n
    = Inr (if length p < n then length pre + length p else XR_MAX_PATH_LENGTH)"
  using assms
proof (induction p arbitrary: pre n)
  case Nil
  then show ?case by (cases n) (simp_all add: nth_append)
next
  case (Cons c p)
  show ?case
  proof (cases n)
    case (Suc m)
    with Cons.IH [of "pre @ [c]" m] Cons.prems show ?thesis by (auto simp: nth_append)
  qed simp
qed

lemma oxr_verify_full_path_c_eq:
  assumes "NUL \<notin> set p"
  shows "oxr_verify_full_path_c (p @ NUL # rest) = Inr (path_verdict (well_formed_path p))"
proof (cases "length p < XR_MAX_PATH_LENGTH")
  case True
  with bounded_length_terminated [OF assms, of "[]" rest XR_MAX_PATH_LENGTH]
  show ?thesis
    using oxr_verify_full_path_wellformed [OF True, of "NUL # rest"]
    by (simp add: oxr_verify_full_path_c_def)
next
  case False
  with bounded_length_terminated [OF assms, of "[]" rest XR_MAX_PATH_LENGTH] c_strlen_terminated [OF assms, of rest]
  show ?thesis
    by (simp add: oxr_verify_full_path_c_def oxr_verify_full_path_def well_formed_path_def path_verdict_def)
qed

text \<open>C16.
  The path verifier is a decision procedure for well-formed paths: for every
  zero-terminated string it reads nothing behind the terminator, and it accepts exactly the
  strings of fewer than 256 characters that are a non-empty sequence of components, each behind
  a slash, where a component is non-empty, consists of the characters a-z, 0-9, dash, underscore
  and dot, and is not made of dots only. Every other string is a format error.\<close>
theorem verify_full_path_grammar:
  assumes "NUL \<notin> set p"
  shows "oxr_verify_full_path_c (p @ NUL # rest) =
    Inr (if well_formed_path p then XR_SUCCESS else XR_ERROR_PATH_FORMAT_INVALID)"
  using oxr_verify_full_path_c_eq [OF assms] by (simp add: path_verdict_def)

theorem verify_full_path_grammar_witness:
  "oxr_verify_full_path_c (''/user/hand/.left'' @ NUL # ''x'') = Inr XR_SUCCESS
   \<and> oxr_verify_full_path_c (''/user/../left'' @ NUL # []) = Inr XR_ERROR_PATH_FORMAT_INVALID
   \<and> oxr_verify_full_path_c (''/user/'' @ NUL # []) = Inr XR_ERROR_PATH_FORMAT_INVALID"
  using verify_full_path_grammar [of "''/user/hand/.left''" "''x''"]
    verify_full_path_grammar [of "''/user/../left''" "[]"]
    verify_full_path_grammar [of "''/user/''" "[]"]
  by (simp add: well_formed_path_split XR_MAX_PATH_LENGTH_def path_component_def valid_path_char_def less_eq_char_simp)

section \<open>Fixed-size names\<close>

lemma contains_zero_terminated:
  assumes "NUL \<notin> set p"
  shows "contains_zero_from (pre @ p @ NUL # rest) (length pre) (Suc (length p) + k) = Inr True"
  using assms
proof (induction p arbitrary: pre)
  case (Cons c p)
  from Cons.IH [of "pre @ [c]"] Cons.prems show ?case by (simp add: nth_append)
qed (simp add: nth_append)

lemma contains_zero_unterminated:
  assumes "NUL \<notin> set p"
  shows "contains_zero_from (pre @ p @ rest) (length pre) (length p) = Inr False"
  using assms
proof (induction p arbitrary: pre)
  case (Cons c p)
  from Cons.IH [of "pre @ [c]"] Cons.prems show ?case by (auto simp: nth_append)
qed simp

lemma single_level_from_eq:
  "single_level_from (pre @ p @ rest) (length pre) (length p)
    = Inr (path_verdict (\<forall>c \<in> set p. valid_path_char c \<and> c \<noteq> CHR ''/''))"
proof (induction p arbitrary: pre)
  case (Cons c p)
  from Cons.IH [of "pre @ [c]"] show ?case by (simp add: nth_append path_verdict_def)
qed (simp add: path_verdict_def)

lemma single_level_path_terminated:
  assumes "NUL \<notin> set p" and "p \<noteq> []" and "length p < k"
  shows "oxr_verify_fixed_size_single_level_path (p @ NUL # rest) k
    = Inr (path_verdict (\<forall>c \<in> set p. valid_path_char c \<and> c \<noteq> CHR ''/''))"
proof -
  from assms(3) obtain j where k: "k = Suc (length p) + j" using less_imp_Suc_add by force
  from assms obtain c q where p: "p = c # q" "c \<noteq> NUL" by (cases p) auto
  have "contains_zero (p @ NUL # rest) k = Inr True"
    using contains_zero_terminated [OF assms(1), of "[]" rest j] k by (simp add: contains_zero_def)
  moreover have "single_level_from (p @ NUL # rest) 0 (length p)
    = Inr (path_verdict (\<forall>c \<in> set p. valid_path_char c \<and> c \<noteq> CHR ''/''))"
    using single_level_from_eq [of "[]" p "NUL # rest"] by simp
  ultimately show ?thesis
    using c_strlen_terminated [OF assms(1), of rest] p k
    by (simp add: oxr_verify_fixed_size_single_level_path_def)
qed

end
