(* ===== verification/Path_Store.thy ===== *)
theory Path_Store
  imports Path_Verify "HOL-Library.AList" "HOL-Library.Multiset"
begin

text \<open>
  The table of paths of an instance (\<^verbatim>\<open>state_trackers/oxr/path/oxr_path_store.c\<close>), the two entry
  points \<^verbatim>\<open>xrStringToPath\<close> and \<^verbatim>\<open>xrPathToString\<close> (\<^verbatim>\<open>oxr_api_instance.c\<close>), the cache of
  often used paths (\<^verbatim>\<open>actions/oxr_instance_path_cache.c\<close>) and the hash set underneath
  (\<^verbatim>\<open>auxiliary/util/u_hashset.cpp\<close>, a wrapper of \<^verbatim>\<open>std::unordered_map\<close>), which is an association
  list here: the code never depends on its order.

  Path objects live on a heap. The cells of the array that \<^verbatim>\<open>realloc\<close> adds are \<open>Uninit\<close> until they
  are written; reading one is the fault \<open>UninitRead\<close>. What the environment decides is an
  argument: the address \<^verbatim>\<open>calloc\<close> returns (or \<open>None\<close>), whether \<^verbatim>\<open>realloc\<close> succeeds, and the hash
  function, whose value is stored and never read.
\<close>

section \<open>State\<close>

type_synonym XrPath = nat

definition XR_NULL_PATH :: XrPath where
  "XR_NULL_PATH = 0"

text \<open>\<^verbatim>\<open>struct oxr_path\<close> with the \<^verbatim>\<open>u_hashset_item\<close> and the string that follow it in memory.\<close>

record oxr_path =
  op_id :: XrPath
  op_hash :: nat
  op_length :: nat
  op_c_str :: "char list"

datatype cell = Uninit | Cell "addr option"

record path_store =
  ps_store :: "(string \<times> addr) list option"
  ps_array :: "cell list option"
  ps_array_length :: nat
  ps_num :: nat
  ps_heap :: "addr \<Rightarrow> oxr_path option"

definition not_null :: "'a option \<Rightarrow> fault + 'a" where
  "not_null p = (case p of None \<Rightarrow> Inl NullDeref | Some x \<Rightarrow> Inr x)"

lemma not_null_Some [simp]: "not_null (Some x) = Inr x"
  by (simp add: not_null_def)

section \<open>The hash set\<close>

definition item_key :: "oxr_path \<Rightarrow> string" where
  "item_key item = take (op_length item) (op_c_str item)"

definition u_hashset_find_str :: "path_store \<Rightarrow> string \<Rightarrow> nat \<Rightarrow> fault + addr option" where
  "u_hashset_find_str s str len = try_bind (not_null (ps_store s)) (\<lambda>hs.
     if len \<le> length str then Inr (map_of hs (take len str)) else Inl OutOfBounds)"

definition u_hashset_insert_item :: "path_store \<Rightarrow> addr \<Rightarrow> fault + path_store" where
  "u_hashset_insert_item s a = try_bind (not_null (ps_store s)) (\<lambda>hs.
     try_bind (deref (ps_heap s) a) (\<lambda>item.
       Inr (s\<lparr>ps_store := Some (AList.update (item_key item) a hs)\<rparr>)))"

definition u_hashset_erase_item :: "path_store \<Rightarrow> addr \<Rightarrow> fault + path_store" where
  "u_hashset_erase_item s a = try_bind (not_null (ps_store s)) (\<lambda>hs.
     try_bind (deref (ps_heap s) a) (\<lambda>item.
       Inr (s\<lparr>ps_store := Some (AList.delete (item_key item) hs)\<rparr>)))"

text \<open>\<^verbatim>\<open>destroy_callback\<close> on every item of the cleared set: freeing twice is a fault.\<close>

primrec free_items :: "addr list \<Rightarrow> (addr \<Rightarrow> oxr_path option) \<Rightarrow> fault + (addr \<Rightarrow> oxr_path option)" where
  "free_items [] h = Inr h"
| "free_items (a # as) h = try_bind (deref h a) (\<lambda>_. free_items as (h(a := None)))"

definition u_hashset_clear_and_free :: "path_store \<Rightarrow> fault + path_store" where
  "u_hashset_clear_and_free s = try_bind (not_null (ps_store s)) (\<lambda>hs.
     try_bind (free_items (map snd hs) (ps_heap s)) (\<lambda>h.
       Inr (s\<lparr>ps_store := Some [], ps_heap := h\<rparr>)))"

section \<open>The path store\<close>

definition get_or_null :: "path_store \<Rightarrow> XrPath \<Rightarrow> fault + addr option" where
  "get_or_null s xr_path =
     (if xr_path \<ge> ps_array_length s then Inr None
      else try_bind (not_null (ps_array s)) (\<lambda>arr.
        try_bind (arr_get arr xr_path) (\<lambda>c.
          case c of Uninit \<Rightarrow> Inl UninitRead | Cell p \<Rightarrow> Inr p)))"

text \<open>\<^verbatim>\<open>U_ARRAY_REALLOC_OR_FREE\<close>: the old cells are kept, the new ones hold whatever was there.\<close>

definition realloc_or_free :: "cell list option \<Rightarrow> nat \<Rightarrow> bool \<Rightarrow> cell list option" where
  "realloc_or_free arr cnt ok =
     (if \<not> ok then None
      else let old = (case arr of None \<Rightarrow> [] | Some cs \<Rightarrow> take cnt cs)
           in Some (old @ replicate (cnt - length old) Uninit))"

function grow_size :: "nat \<Rightarrow> nat \<Rightarrow> nat" where
  "grow_size new_size num = (if new_size < num then grow_size (new_size + 64) num else new_size)"
  by pat_completeness auto
termination
  by (relation "measure (\<lambda>(new_size, num). num - new_size)") auto

declare grow_size.simps [simp del]

definition ensure_array_length :: "path_store \<Rightarrow> bool \<Rightarrow> path_store \<times> XrResult \<times> XrPath" where
  "ensure_array_length s ok =
     (let num = ps_num s + 1
      in if num < ps_array_length s then (s\<lparr>ps_num := ps_num s + 1\<rparr>, XR_SUCCESS, ps_num s)
         else
           let new_size = grow_size (ps_array_length s) num;
               s1 = s\<lparr>ps_array := realloc_or_free (ps_array s) new_size ok\<rparr>;
               s2 = s1\<lparr>ps_array_length := new_size\<rparr>
           in (s2\<lparr>ps_num := ps_num s2 + 1\<rparr>, XR_SUCCESS, ps_num s2))"

definition insert_path :: "path_store \<Rightarrow> addr \<Rightarrow> bool \<Rightarrow> fault + path_store \<times> XrResult" where
  "insert_path s a ok = try_bind (u_hashset_insert_item s a) (\<lambda>s1.
     let (s2, xr_ret, out_id) = ensure_array_length s1 ok
     in if xr_ret \<noteq> XR_SUCCESS then try_bind (u_hashset_erase_item s2 a) (\<lambda>s3. Inr (s3, xr_ret))
        else try_bind (deref (ps_heap s2) a) (\<lambda>p.
          let s3 = s2\<lparr>ps_heap := (ps_heap s2)(a \<mapsto> p\<lparr>op_id := out_id\<rparr>)\<rparr>
          in try_bind (not_null (ps_array s3)) (\<lambda>arr.
             try_bind (arr_set arr out_id (Cell (Some a))) (\<lambda>arr'.
               Inr (s3\<lparr>ps_array := Some arr'\<rparr>, XR_SUCCESS)))))"

definition allocate_and_insert ::
  "(string \<Rightarrow> nat) \<Rightarrow> path_store \<Rightarrow> string \<Rightarrow> nat \<Rightarrow> addr option \<Rightarrow> bool
   \<Rightarrow> fault + path_store \<times> XrResult \<times> XrPath option" where
  "allocate_and_insert hash s str len mem ok =
     (case mem of
        None \<Rightarrow> Inr (s, XR_ERROR_RUNTIME_FAILURE, None)
      | Some a \<Rightarrow>
          if length str < len then Inl OutOfBounds
          else
            let path = \<lparr>op_id = 0, op_hash = hash (take len str), op_length = len,
                        op_c_str = take len str @ [NUL]\<rparr>
            in try_bind (insert_path (s\<lparr>ps_heap := (ps_heap s)(a \<mapsto> path)\<rparr>) a ok) (\<lambda>(s1, ret).
                 if ret \<noteq> XR_SUCCESS then Inr (s1\<lparr>ps_heap := (ps_heap s1)(a := None)\<rparr>, ret, None)
                 else try_bind (deref (ps_heap s1) a) (\<lambda>p. Inr (s1, XR_SUCCESS, Some (op_id p)))))"

definition path_store_null :: path_store where
  "path_store_null = \<lparr>ps_store = None, ps_array = None, ps_array_length = 0, ps_num = 0, ps_heap = (\<lambda>_. None)\<rparr>"

definition oxr_path_store_init :: "path_store \<Rightarrow> bool \<Rightarrow> path_store \<times> XrResult" where
  "oxr_path_store_init s ok =
     (let s1 = s\<lparr>ps_store := Some []\<rparr>;
          s2 = s1\<lparr>ps_array := realloc_or_free (ps_array s1) 64 ok\<rparr>
      in (s2\<lparr>ps_array_length := 64, ps_num := 1\<rparr>, XR_SUCCESS))"

definition oxr_path_store_fini :: "path_store \<Rightarrow> fault + path_store" where
  "oxr_path_store_fini s =
     (let s1 = s\<lparr>ps_array := None, ps_array_length := 0, ps_num := 0\<rparr>
      in if ps_store s1 = None then Inr s1
         else try_bind (u_hashset_clear_and_free s1) (\<lambda>s2. Inr (s2\<lparr>ps_store := None\<rparr>)))"

definition oxr_path_store_is_valid :: "path_store \<Rightarrow> XrPath \<Rightarrow> fault + bool" where
  "oxr_path_store_is_valid s xr_path = try_bind (get_or_null s xr_path) (\<lambda>p. Inr (p \<noteq> None))"

definition oxr_path_store_get_or_create ::
  "(string \<Rightarrow> nat) \<Rightarrow> path_store \<Rightarrow> string \<Rightarrow> nat \<Rightarrow> addr option \<Rightarrow> bool
   \<Rightarrow> fault + path_store \<times> XrResult \<times> XrPath option" where
  "oxr_path_store_get_or_create hash s str len mem ok =
     try_bind (u_hashset_find_str s str len) (\<lambda>item.
       case item of
         Some a \<Rightarrow> try_bind (deref (ps_heap s) a) (\<lambda>p. Inr (s, XR_SUCCESS, Some (op_id p)))
       | None \<Rightarrow> allocate_and_insert hash s str len mem ok)"

definition oxr_path_store_only_get :: "path_store \<Rightarrow> string \<Rightarrow> nat \<Rightarrow> fault + XrPath" where
  "oxr_path_store_only_get s str len = try_bind (u_hashset_find_str s str len) (\<lambda>item.
     case item of
       Some a \<Rightarrow> try_bind (deref (ps_heap s) a) (\<lambda>p. Inr (op_id p))
     | None \<Rightarrow> Inr XR_NULL_PATH)"

definition oxr_path_store_get_string :: "path_store \<Rightarrow> XrPath \<Rightarrow> fault + XrResult \<times> (char list \<times> nat) option" where
  "oxr_path_store_get_string s xr_path = try_bind (get_or_null s xr_path) (\<lambda>path.
     case path of
       None \<Rightarrow> Inr (XR_ERROR_PATH_INVALID, None)
     | Some a \<Rightarrow> try_bind (deref (ps_heap s) a) (\<lambda>p. Inr (XR_SUCCESS, Some (op_c_str p, op_length p))))"

section \<open>The entry points\<close>

definition oxr_xrStringToPath ::
  "(string \<Rightarrow> nat) \<Rightarrow> path_store \<Rightarrow> char list \<Rightarrow> addr option \<Rightarrow> bool
   \<Rightarrow> fault + path_store \<times> XrResult \<times> XrPath option" where
  "oxr_xrStringToPath hash s pathString mem ok =
     try_bind (oxr_verify_full_path_c pathString) (\<lambda>ret.
       if ret \<noteq> XR_SUCCESS then Inr (s, ret, None)
       else try_bind (c_strlen pathString) (\<lambda>len.
         oxr_path_store_get_or_create hash s pathString len mem ok))"

text \<open>\<^verbatim>\<open>(uint32_t)\<close> of a \<^verbatim>\<open>size_t\<close>.\<close>

definition u32 :: "nat \<Rightarrow> nat" where
  "u32 n = n mod 2 ^ 32"

text \<open>The copying loop of the two-call helper: \<open>n\<close> bytes from index \<open>i\<close>.\<close>

primrec copy_out :: "char list \<Rightarrow> char list \<Rightarrow> nat \<Rightarrow> nat \<Rightarrow> fault + char list" where
  "copy_out out data i 0 = Inr out"
| "copy_out out data i (Suc n) = try_bind (arr_get data i) (\<lambda>c.
     try_bind (arr_set out i c) (\<lambda>out'. copy_out out' data (i + 1) n))"

text \<open>
  \<^verbatim>\<open>OXR_TWO_CALL_CHECK_ONLY\<close>: an early return with the count written through \<^verbatim>\<open>cnt_output\<close> (if
  that is not \<^verbatim>\<open>NULL\<close>), or \<open>None\<close> to go on.
\<close>

definition two_call_check :: "nat \<Rightarrow> bool \<Rightarrow> nat \<Rightarrow> XrResult \<Rightarrow> (XrResult \<times> nat option) option" where
  "two_call_check cnt_input has_cnt_output cnt sval =
     (if \<not> has_cnt_output then Some (XR_ERROR_VALIDATION_FAILURE, None)
      else if cnt_input = 0 then Some (sval, Some (u32 cnt))
      else if cnt_input < u32 cnt then Some (XR_ERROR_SIZE_INSUFFICIENT, Some (u32 cnt))
      else None)"

text \<open>\<^verbatim>\<open>OXR_TWO_CALL_HELPER\<close>: the result, the count and the buffer of the application.\<close>

definition two_call_helper ::
  "nat \<Rightarrow> bool \<Rightarrow> char list \<Rightarrow> nat \<Rightarrow> char list \<Rightarrow> XrResult \<Rightarrow> fault + XrResult \<times> nat option \<times> char list" where
  "two_call_helper cnt_input has_cnt_output out cnt data sval =
     (case two_call_check cnt_input has_cnt_output cnt sval of
        Some (r, n) \<Rightarrow> Inr (r, n, out)
      | None \<Rightarrow> try_bind (copy_out out data 0 cnt) (\<lambda>out'. Inr (sval, Some (u32 cnt), out')))"

definition oxr_xrPathToString ::
  "path_store \<Rightarrow> XrPath \<Rightarrow> nat \<Rightarrow> bool \<Rightarrow> char list \<Rightarrow> fault + XrResult \<times> nat option \<times> char list" where
  "oxr_xrPathToString s path bufferCapacityInput has_count buffer =
     (if path = XR_NULL_PATH then Inr (XR_ERROR_PATH_INVALID, None, buffer)
      else try_bind (oxr_path_store_get_string s path) (\<lambda>(ret, res).
        if ret \<noteq> XR_SUCCESS then Inr (ret, None, buffer)
        else try_bind (not_null res) (\<lambda>(str, len).
          two_call_helper bufferCapacityInput has_count buffer (len + 1) str XR_SUCCESS)))"

section \<open>What a path store holds\<close>

text \<open>
  \<open>stores s as strs\<close>: the store holds the strings \<open>strs\<close>, the path with id \<open>i + 1\<close> is the object at
  \<open>as ! i\<close> and has the string \<open>strs ! i\<close>. Cell 0 and the cells behind the last path were never
  written.
\<close>

abbreviation cells :: "addr list \<Rightarrow> nat \<Rightarrow> cell list" where
  "cells as k \<equiv> Uninit # map (\<lambda>a. Cell (Some a)) as @ replicate k Uninit"

definition stores :: "path_store \<Rightarrow> addr list \<Rightarrow> string list \<Rightarrow> bool" where
  "stores s as strs \<longleftrightarrow>
     (\<exists>k. ps_array s = Some (cells as k) \<and> ps_array_length s = length as + 1 + k)
     \<and> ps_num s = length as + 1 \<and> length as = length strs \<and> distinct as \<and> distinct strs
     \<and> dom (ps_heap s) = set as
     \<and> (\<exists>m. ps_store s = Some m \<and> distinct (map fst m) \<and> map_of m = map_of (zip strs as))
     \<and> (\<forall>i < length strs. \<exists>h. ps_heap s (as ! i) =
          Some \<lparr>op_id = i + 1, op_hash = h, op_length = length (strs ! i), op_c_str = strs ! i @ [NUL]\<rparr>)"

lemma storesE:
  assumes "stores s as strs"
  obtains k m where "ps_array s = Some (cells as k)" "ps_array_length s = length as + 1 + k"
    "ps_num s = length as + 1" "length as = length strs" "distinct as" "distinct strs"
    "dom (ps_heap s) = set as" "ps_store s = Some m" "distinct (map fst m)" "map_of m = map_of (zip strs as)"
    "\<forall>i < length strs. \<exists>h. ps_heap s (as ! i) =
       Some \<lparr>op_id = i + 1, op_hash = h, op_length = length (strs ! i), op_c_str = strs ! i @ [NUL]\<rparr>"
  using assms unfolding stores_def by blast

lemma map_of_zip_nth_str:
  "length as = length strs \<Longrightarrow> distinct strs \<Longrightarrow> i < length strs \<Longrightarrow> map_of (zip strs as) (strs ! i) = Some (as ! i)"
  by (simp add: map_of_zip_nth)

lemma map_of_zip_None: "length as = length strs \<Longrightarrow> p \<notin> set strs \<Longrightarrow> map_of (zip strs as) p = None"
  by (auto simp: map_of_eq_None_iff dest: set_zip_leftD)

lemma map_of_zip_snoc:
  assumes "length as = length strs" and "p \<notin> set strs"
  shows "map_of (zip (strs @ [p]) (as @ [a])) = (map_of (zip strs as))(p \<mapsto> a)"
  using assms
proof (induction as strs rule: list_induct2)
  case (Cons b bs q qs)
  then have ni: "p \<notin> set qs" "p \<noteq> q" by auto
  show ?case
    unfolding append_Cons zip_Cons_Cons map_of.simps fst_conv snd_conv Cons.IH [OF ni(1)]
    using ni(2) by (rule fun_upd_twist)
qed simp

lemma grow_size_ge: "num \<le> grow_size n num"
  by (induction n num rule: grow_size.induct) (subst grow_size.simps, auto)

lemma grow_size_mono: "n \<le> grow_size n num"
  by (induction n num rule: grow_size.induct) (subst grow_size.simps, auto)

section \<open>The operations on a store\<close>

lemma get_or_null_cases:
  assumes "stores s as strs"
  shows "get_or_null s x =
    (if x \<ge> ps_array_length s then Inr None
     else if x = 0 \<or> x > length strs then Inl UninitRead else Inr (Some (as ! (x - 1))))"
proof -
  from assms obtain k where k: "ps_array s = Some (cells as k)" "ps_array_length s = length as + 1 + k"
    "length as = length strs" by (rule storesE)
  show ?thesis
  proof (cases x)
    case 0
    with k show ?thesis by (simp add: get_or_null_def)
  next
    case (Suc y)
    with k show ?thesis by (auto simp: get_or_null_def nth_append)
  qed
qed

lemma find_str_stores:
  assumes "stores s as strs"
  shows "u_hashset_find_str s (p @ rest) (length p) = Inr (map_of (zip strs as) p)"
proof -
  from assms obtain m where "ps_store s = Some m" "map_of m = map_of (zip strs as)" by (rule storesE)
  then show ?thesis by (simp add: u_hashset_find_str_def)
qed

lemma get_string_stores:
  assumes "stores s as strs" and "i < length strs"
  shows "oxr_path_store_get_string s (i + 1) = Inr (XR_SUCCESS, Some (strs ! i @ [NUL], length (strs ! i)))"
proof -
  from assms(1) obtain k where k: "ps_array_length s = length as + 1 + k" "length as = length strs" 
    by (rule storesE)
  from assms obtain h where "ps_heap s (as ! i) =
      Some \<lparr>op_id = i + 1, op_hash = h, op_length = length (strs ! i), op_c_str = strs ! i @ [NUL]\<rparr>"
    unfolding stores_def by blast
  with k assms get_or_null_cases [OF assms(1)] show ?thesis
    by (simp add: oxr_path_store_get_string_def)
qed

lemma get_or_create_found:
  assumes "stores s as strs" and "i < length strs" and "strs ! i = p"
  shows "oxr_path_store_get_or_create hash s (p @ rest) (length p) mem ok = Inr (s, XR_SUCCESS, Some (i + 1))"
proof -
  from assms obtain h where "ps_heap s (as ! i) =
      Some \<lparr>op_id = i + 1, op_hash = h, op_length = length (strs ! i), op_c_str = strs ! i @ [NUL]\<rparr>"
    unfolding stores_def by blast
  moreover have "map_of (zip strs as) p = Some (as ! i)"
    using map_of_zip_nth_str [of as strs i] assms by (simp add: stores_def)
  ultimately show ?thesis
    using find_str_stores [OF assms(1)] by (simp add: oxr_path_store_get_or_create_def)
qed

lemma ensure_array_length_cells:
  assumes "ps_array s = Some (cells as k)" and "ps_array_length s = length as + 1 + k" and "ps_num s = length as + 1"
  obtains k' where "ensure_array_length s True =
    (s\<lparr>ps_array := Some (cells as (Suc k')), ps_array_length := length as + 2 + k', ps_num := length as + 2\<rparr>,
     XR_SUCCESS, length as + 1)"
proof (cases "1 < k")
  case True
  then obtain j where j: "k = Suc j" by (cases k) auto
  with assms True show ?thesis
    by (intro that [of j]) (simp add: ensure_array_length_def Let_def)
next
  case False
  define n where "n = grow_size (length as + 1 + k) (length as + 2)"
  have "length as + 2 \<le> n" "length as + 1 + k \<le> n"
    unfolding n_def by (rule grow_size_ge, rule grow_size_mono)
  then obtain j where j: "n = length as + 2 + j" by (metis le_iff_add)
  have "realloc_or_free (Some (cells as k)) n True = Some (cells as (Suc j))"
    using j False \<open>length as + 1 + k \<le> n\<close>
    by (auto simp: realloc_or_free_def replicate_add [symmetric] simp flip: replicate_Suc)
  moreover have "grow_size (Suc (length as + k)) (Suc (Suc (length as))) = n" by (simp add: n_def)
  ultimately show ?thesis
    using assms False j by (intro that [of j]) (simp add: ensure_array_length_def Let_def)
qed

lemma get_or_create_new:
  assumes st: "stores s as strs" and p: "p \<notin> set strs" and a: "ps_heap s a = None"
  shows "\<exists>s'. oxr_path_store_get_or_create hash s (p @ rest) (length p) (Some a) True
      = Inr (s', XR_SUCCESS, Some (length strs + 1)) \<and> stores s' (as @ [a]) (strs @ [p])"
proof -
  obtain k m where st': "ps_array s = Some (cells as k)" "ps_array_length s = length as + 1 + k"
    "ps_num s = length as + 1" "length as = length strs" "distinct as" "distinct strs"
    "dom (ps_heap s) = set as" "ps_store s = Some m" "distinct (map fst m)" "map_of m = map_of (zip strs as)"
    "\<forall>i < length strs. \<exists>h. ps_heap s (as ! i) =
       Some \<lparr>op_id = i + 1, op_hash = h, op_length = length (strs ! i), op_c_str = strs ! i @ [NUL]\<rparr>"
    using st by (rule storesE)
  have na: "a \<notin> set as" using a st'(7) by (metis domIff)
  let ?o = "\<lparr>op_id = 0, op_hash = hash p, op_length = length p, op_c_str = p @ [NUL]\<rparr>"
  let ?s0 = "s\<lparr>ps_heap := (ps_heap s)(a \<mapsto> ?o)\<rparr>"
  let ?s1 = "?s0\<lparr>ps_store := Some (AList.update p a m)\<rparr>"
  have ins: "u_hashset_insert_item ?s0 a = Inr ?s1"
    using st' by (simp add: u_hashset_insert_item_def item_key_def)
  from ensure_array_length_cells [of ?s1 as k] st' obtain k' where
    ens: "ensure_array_length ?s1 True =
      (?s1\<lparr>ps_array := Some (cells as (Suc k')), ps_array_length := length as + 2 + k', ps_num := length as + 2\<rparr>,
       XR_SUCCESS, length as + 1)" by auto
  define s' where "s' = ?s1\<lparr>ps_array := Some (cells (as @ [a]) k'), ps_array_length := length as + 2 + k',
    ps_num := length as + 2, ps_heap := (ps_heap s)(a \<mapsto> ?o\<lparr>op_id := length as + 1\<rparr>)\<rparr>"
  have "insert_path ?s0 a True = Inr (s', XR_SUCCESS)"
    unfolding insert_path_def ins try_bind_Inr ens s'_def
    by (simp add: list_update_append)
  moreover have "u_hashset_find_str s (p @ rest) (length p) = Inr None"
    unfolding find_str_stores [OF st] map_of_zip_None [OF st'(4) p] ..
  ultimately have "oxr_path_store_get_or_create hash s (p @ rest) (length p) (Some a) True
      = Inr (s', XR_SUCCESS, Some (length strs + 1))"
    using st'(4)
    by (simp add: oxr_path_store_get_or_create_def allocate_and_insert_def Let_def s'_def)
  moreover have "stores s' (as @ [a]) (strs @ [p])"
    unfolding stores_def
  proof (intro conjI)
    show "\<forall>i<length (strs @ [p]). \<exists>h. ps_heap s' ((as @ [a]) ! i) =
        Some \<lparr>op_id = i + 1, op_hash = h, op_length = length ((strs @ [p]) ! i), op_c_str = (strs @ [p]) ! i @ [NUL]\<rparr>"
      using st'(4,11) na by (auto simp: s'_def nth_append less_Suc_eq in_set_conv_nth)
    show "\<exists>m. ps_store s' = Some m \<and> distinct (map fst m) \<and> map_of m = map_of (zip (strs @ [p]) (as @ [a]))"
      using st'(9,10) map_of_zip_snoc [OF st'(4) p, of a] 
      by (intro exI [of _ "AList.update p a m"]) (simp add: s'_def distinct_update update_conv')
    show "\<exists>k. ps_array s' = Some (cells (as @ [a]) k) \<and> ps_array_length s' = length (as @ [a]) + 1 + k"
      by (intro exI [of _ k']) (simp add: s'_def)
    show "dom (ps_heap s') = set (as @ [a])"
      using st'(7) by (auto simp: s'_def)
  qed (use st' na p in \<open>simp_all add: s'_def\<close>)
  ultimately show ?thesis by blast
qed

lemma init_stores: "oxr_path_store_init path_store_null True = (s, r) \<Longrightarrow> stores s [] [] \<and> r = XR_SUCCESS"
  by (auto simp: oxr_path_store_init_def path_store_null_def realloc_or_free_def stores_def
      intro: exI [of _ 63] simp flip: replicate_Suc)

text \<open>When the array has to grow and \<^verbatim>\<open>realloc\<close> fails, the write of the new cell goes through \<^verbatim>\<open>NULL\<close>.\<close>

lemma growth_failure_null_deref:
  assumes st: "stores s as strs" and full: "ps_array_length s \<le> ps_num s + 1"
    and p: "p \<notin> set strs"
  shows "oxr_path_store_get_or_create hash s (p @ rest) (length p) (Some a) False = Inl NullDeref"
proof -
  obtain m where m: "ps_store s = Some m" "length as = length strs"
    using st by (rule storesE)
  show ?thesis
    using find_str_stores [OF st, of p rest] map_of_zip_None [OF m(2) p] m(1) full
    by (simp add: oxr_path_store_get_or_create_def allocate_and_insert_def insert_path_def
        u_hashset_insert_item_def ensure_array_length_def realloc_or_free_def Let_def not_null_def)
qed

section \<open>Destroying the store\<close>

lemma free_items_distinct:
  "distinct as \<Longrightarrow> set as \<subseteq> dom h \<Longrightarrow> free_items as h = Inr (h |` (- set as))"
proof (induction as arbitrary: h)
  case (Cons a as)
  from Cons.prems obtain x where "h a = Some x" by auto
  moreover have "set as \<subseteq> dom (h(a := None))" using Cons.prems by auto
  moreover have "h(a := None) |` (- set as) = h |` (- set (a # as))"
    by (auto simp: restrict_map_def fun_eq_iff)
  ultimately show ?case using Cons.IH [of "h(a := None)"] Cons.prems by (simp del: fun_upd_apply)
qed (simp add: restrict_map_def)

lemma fini_frees_all:
  assumes "stores s as strs"
  shows "oxr_path_store_fini s = Inr path_store_null"
proof -
  obtain k m where st: "length as = length strs" "distinct as" "distinct strs" "dom (ps_heap s) = set as"
    "ps_store s = Some m" "distinct (map fst m)" "map_of m = map_of (zip strs as)"
    using assms by (rule storesE)
  have "set m = set (zip strs as)"
    using map_of_inject_set [of m "zip strs as"] st by simp
  moreover have "distinct (zip strs as)" using st(2) by (rule distinct_zipI2)
  moreover have "distinct m" using st(6) by (simp add: distinct_map)
  ultimately have perm: "mset m = mset (zip strs as)" by (simp add: set_eq_iff_mset_eq_distinct)
  then have "mset (map snd m) = mset (map snd (zip strs as))" by (simp only: mset_map)
  then have "mset (map snd m) = mset as" using st(1) by simp
  then have "distinct (map snd m)" "set (map snd m) = set as"
    using st(2) mset_eq_imp_distinct_iff mset_eq_setD by blast+
  then have "free_items (map snd m) (ps_heap s) = Inr Map.empty"
    using free_items_distinct [of "map snd m" "ps_heap s"] st(4)
    by (simp add: restrict_map_def fun_eq_iff) (metis domIff)
  then show ?thesis
    using st(5) by (simp add: oxr_path_store_fini_def u_hashset_clear_and_free_def path_store_null_def)
qed

section \<open>Paths and strings correspond\<close>

lemma copy_out_eq:
  assumes "i + n \<le> length data" and "i + n \<le> length out"
  shows "copy_out out data i n = Inr (take i out @ take n (drop i data) @ drop (i + n) out)"
  using assms
proof (induction n arbitrary: i out)
  case (Suc n)
  have "take (Suc i) (out[i := data ! i]) = take i out @ [data ! i]"
    using Suc.prems by (simp add: take_Suc_conv_app_nth)
  moreover have "take (Suc n) (drop i data) = data ! i # take n (drop (Suc i) data)"
    using Suc.prems by (simp add: Cons_nth_drop_Suc [symmetric])
  ultimately show ?case using Suc.IH [of "Suc i" "out[i := data ! i]"] Suc.prems by simp
qed simp

text \<open>The text of a path with id \<open>x\<close>: what the two calls of \<^verbatim>\<open>xrPathToString\<close> return.\<close>

definition reads_back :: "path_store \<Rightarrow> XrPath \<Rightarrow> string \<Rightarrow> bool" where
  "reads_back s x p \<longleftrightarrow>
     oxr_xrPathToString s x 0 True [] = Inr (XR_SUCCESS, Some (length p + 1), [])
     \<and> (\<forall>buffer. length p + 1 \<le> length buffer \<longrightarrow>
          oxr_xrPathToString s x (length buffer) True buffer
            = Inr (XR_SUCCESS, Some (length p + 1), p @ NUL # drop (length p + 1) buffer))"

lemma stores_reads_back:
  assumes "stores s as strs" and "i < length strs" and "length (strs ! i) < XR_MAX_PATH_LENGTH"
  shows "reads_back s (i + 1) (strs ! i)"
  using get_string_stores [OF assms(1,2)] assms(3)
  by (simp add: reads_back_def oxr_xrPathToString_def XR_NULL_PATH_def two_call_helper_def two_call_check_def u32_def
      XR_MAX_PATH_LENGTH_def copy_out_eq del: copy_out.simps)

text \<open>A run of \<^verbatim>\<open>xrStringToPath\<close> calls; \<open>alloc\<close> is \<^verbatim>\<open>calloc\<close>, \<^verbatim>\<open>realloc\<close> does not fail.\<close>

primrec string_to_paths ::
  "(string \<Rightarrow> nat) \<Rightarrow> (path_store \<Rightarrow> addr option) \<Rightarrow> path_store \<Rightarrow> string list
   \<Rightarrow> fault + path_store \<times> (XrResult \<times> XrPath option) list" where
  "string_to_paths hash alloc s [] = Inr (s, [])"
| "string_to_paths hash alloc s (p # ps) =
     try_bind (oxr_xrStringToPath hash s (p @ [NUL]) (alloc s) True) (\<lambda>(s1, r, x).
       try_bind (string_to_paths hash alloc s1 ps) (\<lambda>(s2, rs). Inr (s2, (r, x) # rs)))"

definition answered :: "bool \<Rightarrow> string list \<Rightarrow> string \<Rightarrow> XrResult \<times> XrPath option \<Rightarrow> bool" where
  "answered oom strs p a \<longleftrightarrow>
     (if well_formed_path p
      then (\<exists>i < length strs. strs ! i = p \<and> a = (XR_SUCCESS, Some (i + 1)))
        \<or> oom \<and> a = (XR_ERROR_RUNTIME_FAILURE, None)
      else a = (XR_ERROR_PATH_FORMAT_INVALID, None))"

lemma answered_mono: "answered oom strs p a \<Longrightarrow> answered oom (strs @ qs) p a"
  by (auto simp: answered_def nth_append split: if_splits intro: exI)

text \<open>Every call of \<^verbatim>\<open>oxr_path_store_get_or_create\<close>: the string is there afterwards, or memory ran out.\<close>

definition gets :: "bool \<Rightarrow> string list \<Rightarrow> string \<Rightarrow> XrResult \<times> XrPath option \<Rightarrow> bool" where
  "gets oom strs p a \<longleftrightarrow> (\<exists>i < length strs. strs ! i = p \<and> a = (XR_SUCCESS, Some (i + 1)))
     \<or> oom \<and> a = (XR_ERROR_RUNTIME_FAILURE, None)"

lemma get_or_create_step:
  assumes st: "stores s as strs" and m: "\<forall>a. mem = Some a \<longrightarrow> ps_heap s a = None"
  shows "\<exists>s' as' qs a. oxr_path_store_get_or_create hash s (p @ rest) (length p) mem True = Inr (s', a)
    \<and> stores s' as' (strs @ qs) \<and> gets (mem = None) (strs @ qs) p a"
proof (cases "p \<in> set strs")
  case True
  then obtain i where "i < length strs" "strs ! i = p" by (auto simp: in_set_conv_nth)
  with st get_or_create_found [OF st this] show ?thesis
    by (intro exI [of _ s] exI [of _ as] exI [of _ "[]"]) (auto simp: gets_def)
next
  case new: False
  show ?thesis
  proof (cases mem)
    case None
    have "u_hashset_find_str s (p @ rest) (length p) = Inr None"
      unfolding find_str_stores [OF st] using st new by (auto simp: stores_def map_of_zip_None)
    with None have "oxr_path_store_get_or_create hash s (p @ rest) (length p) mem True
        = Inr (s, XR_ERROR_RUNTIME_FAILURE, None)"
      by (simp add: oxr_path_store_get_or_create_def allocate_and_insert_def)
    with None st show ?thesis
      by (intro exI [of _ s] exI [of _ as] exI [of _ "[]"]) (simp add: gets_def)
  next
    case (Some a)
    with m have "ps_heap s a = None" by simp
    from get_or_create_new [OF st new this, of hash rest] Some show ?thesis
      by (fastforce simp: gets_def nth_append intro: exI [of _ "[p]"])
  qed
qed

lemma string_to_path_step:
  assumes st: "stores s as strs" and p: "NUL \<notin> set p" and m: "\<forall>a. mem = Some a \<longrightarrow> ps_heap s a = None"
  shows "\<exists>s' as' qs a. oxr_xrStringToPath hash s (p @ [NUL]) mem True = Inr (s', a)
    \<and> stores s' as' (strs @ qs) \<and> answered (mem = None) (strs @ qs) p a"
proof (cases "well_formed_path p")
  case False
  then have "oxr_xrStringToPath hash s (p @ [NUL]) mem True = Inr (s, XR_ERROR_PATH_FORMAT_INVALID, None)"
    using oxr_verify_full_path_c_eq [OF p, of "[]"] by (simp add: oxr_xrStringToPath_def path_verdict_def)
  with False st show ?thesis by (intro exI [of _ s] exI [of _ as] exI [of _ "[]"]) (simp add: answered_def)
next
  case True
  then have goc: "oxr_xrStringToPath hash s (p @ [NUL]) mem True
      = oxr_path_store_get_or_create hash s (p @ [NUL]) (length p) mem True"
    using oxr_verify_full_path_c_eq [OF p, of "[]"] c_strlen_terminated [OF p, of "[]"]
    by (simp add: oxr_xrStringToPath_def path_verdict_def)
  have "answered oom qs p a \<longleftrightarrow> gets oom qs p a" for oom qs a
    using True by (simp add: answered_def gets_def)
  with get_or_create_step [OF st m, of hash p "[NUL]"] goc show ?thesis by simp
qed

lemma string_to_paths_run:
  assumes st: "stores s as strs" and alloc: "\<forall>s a. alloc s = Some a \<longrightarrow> ps_heap s a = None"
    and oom: "\<forall>s. alloc s = None \<longrightarrow> oom" and ps: "\<forall>p \<in> set ps. NUL \<notin> set p"
  shows "\<exists>s' as' qs rs. string_to_paths hash alloc s ps = Inr (s', rs)
    \<and> stores s' as' (strs @ qs) \<and> list_all2 (answered oom (strs @ qs)) ps rs"
  using st ps
proof (induction ps arbitrary: s as strs)
  case Nil
  then show ?case by (intro exI [of _ s] exI [of _ as] exI [of _ "[]"]) simp
next
  case (Cons p ps)
  from Cons.prems(2) have p: "NUL \<notin> set p" and ps: "\<forall>q \<in> set ps. NUL \<notin> set q" by auto
  from alloc have m: "\<forall>a. alloc s = Some a \<longrightarrow> ps_heap s a = None" by blast
  from string_to_path_step [OF Cons.prems(1) p m] obtain s1 as1 qs1 a where
    s1: "oxr_xrStringToPath hash s (p @ [NUL]) (alloc s) True = Inr (s1, a)"
      "stores s1 as1 (strs @ qs1)" "answered (alloc s = None) (strs @ qs1) p a" by blast
  from s1(3) oom have "answered oom (strs @ qs1) p a"
    by (auto simp: answered_def split: if_splits)
  then have a: "answered oom (strs @ qs1 @ qs) p a" for qs
    using answered_mono [of oom "strs @ qs1" p a qs] by simp
  from Cons.IH [OF s1(2) ps] obtain s2 as2 qs2 rs where
    "string_to_paths hash alloc s1 ps = Inr (s2, rs)" "stores s2 as2 (strs @ qs1 @ qs2)"
    "list_all2 (answered oom (strs @ qs1 @ qs2)) ps rs" by auto
  with s1(1) a show ?case
    by (cases a) (auto intro!: exI [of _ "qs1 @ qs2"])
qed

definition path_ok :: "path_store \<Rightarrow> string \<Rightarrow> XrResult \<times> XrPath option \<Rightarrow> bool" where
  "path_ok s p a \<longleftrightarrow>
     (if well_formed_path p
      then (\<exists>x. a = (XR_SUCCESS, Some x) \<and> x \<noteq> XR_NULL_PATH \<and> reads_back s x p)
        \<or> a = (XR_ERROR_RUNTIME_FAILURE, None)
      else a = (XR_ERROR_PATH_FORMAT_INVALID, None))"

lemma answered_path_ok:
  assumes "stores s as strs" and "answered oom strs p a"
  shows "path_ok s p a" and "\<not> oom \<Longrightarrow> fst a \<noteq> XR_ERROR_RUNTIME_FAILURE"
proof -
  have "length p < XR_MAX_PATH_LENGTH" if "well_formed_path p"
    using that by (simp add: well_formed_path_def)
  with assms stores_reads_back [OF assms(1)] show "path_ok s p a"
    by (fastforce simp: answered_def path_ok_def XR_NULL_PATH_def split: if_splits)
  show "\<not> oom \<Longrightarrow> fst a \<noteq> XR_ERROR_RUNTIME_FAILURE"
    using assms(2) by (auto simp: answered_def split: if_splits)
qed

lemma answered_injective:
  assumes "stores s as strs" and "answered oom strs p (r, Some x)" and "answered oom strs q (r', Some y)"
  shows "x = y \<longleftrightarrow> p = q"
proof -
  have "distinct strs" using assms(1) by (simp add: stores_def)
  with assms(2,3) show ?thesis
    by (auto simp: answered_def nth_eq_iff_index_eq split: if_splits)
qed

text \<open>C9.
  Round trip of paths. After creating the path store and any sequence of \<^verbatim>\<open>xrStringToPath\<close> calls on
  zero-terminated strings, with any results of the allocator: no call faults; an ill-formed
  string is refused; a well-formed one gets an id that is not the null path, unless the
  allocator failed; at the end every id reads back, by the two calls of
  \<^verbatim>\<open>xrPathToString\<close>, as exactly the string it was made from; two ids are equal exactly if their
  strings are; and destroying the store then frees every path once and leaves nothing behind.\<close>
theorem path_roundtrip:
  assumes alloc: "\<forall>s a. alloc s = Some a \<longrightarrow> ps_heap s a = None"
    and ps: "\<forall>p \<in> set ps. NUL \<notin> set p"
    and init: "oxr_path_store_init path_store_null True = (s0, r0)"
  shows "\<exists>s rs. string_to_paths hash alloc s0 ps = Inr (s, rs) \<and> length rs = length ps
    \<and> (\<forall>i < length ps. path_ok s (ps ! i) (rs ! i))
    \<and> ((\<forall>s. alloc s \<noteq> None) \<longrightarrow> (\<forall>i < length ps. fst (rs ! i) \<noteq> XR_ERROR_RUNTIME_FAILURE))
    \<and> (\<forall>i < length ps. \<forall>j < length ps. \<forall>x y. snd (rs ! i) = Some x \<longrightarrow> snd (rs ! j) = Some y
         \<longrightarrow> (x = y \<longleftrightarrow> ps ! i = ps ! j))
    \<and> oxr_path_store_fini s = Inr path_store_null"
proof -
  define oom where "oom \<longleftrightarrow> (\<exists>s. alloc s = None)"
  have "stores s0 [] []" using init_stores [OF init] by simp
  from string_to_paths_run [OF this alloc _ ps, of oom hash] obtain s as strs rs where
    run: "string_to_paths hash alloc s0 ps = Inr (s, rs)" and st: "stores s as strs"
    and ans: "list_all2 (answered oom strs) ps rs"
    by (auto simp: oom_def)
  from ans have len: "length rs = length ps" and nth: "i < length ps \<Longrightarrow> answered oom strs (ps ! i) (rs ! i)" for i
    by (auto simp: list_all2_conv_all_nth)
  have inj: "x = y \<longleftrightarrow> ps ! i = ps ! j"
    if "i < length ps" "j < length ps" "snd (rs ! i) = Some x" "snd (rs ! j) = Some y" for i j x y
    using answered_injective [OF st, of oom "ps ! i" "fst (rs ! i)" x "ps ! j" "fst (rs ! j)" y] nth that
    by (metis prod.collapse)
  have err: "fst (rs ! i) \<noteq> XR_ERROR_RUNTIME_FAILURE" if "\<forall>s. alloc s \<noteq> None" "i < length ps" for i
    using answered_path_ok(2) [OF st nth [OF that(2)]] that(1) by (simp add: oom_def)
  show ?thesis
    by (rule exI [of _ s], rule exI [of _ rs], intro conjI allI impI)
      (simp_all add: run len fini_frees_all [OF st] answered_path_ok(1) [OF st nth] err inj)
qed

definition first_free :: "path_store \<Rightarrow> addr option" where
  "first_free s = (if ps_heap s (ps_num s) = None then Some (ps_num s) else None)"

theorem path_roundtrip_witness:
  "\<exists>s rs. string_to_paths length first_free (fst (oxr_path_store_init path_store_null True))
      [''/user'', ''//'', ''/user''] = Inr (s, rs)
    \<and> path_ok s ''/user'' (rs ! 0) \<and> rs ! 1 = (XR_ERROR_PATH_FORMAT_INVALID, None)
    \<and> oxr_path_store_fini s = Inr path_store_null"
proof -
  let ?ps = "[''/user'', ''//'', ''/user'']"
  have alloc: "\<forall>s a. first_free s = Some a \<longrightarrow> ps_heap s a = None"
    by (simp add: first_free_def)
  have nul: "\<forall>p \<in> set ?ps. NUL \<notin> set p" by simp
  obtain s rs where s: "string_to_paths length first_free (fst (oxr_path_store_init path_store_null True)) ?ps = Inr (s, rs)"
    and f: "oxr_path_store_fini s = Inr path_store_null"
    and ok: "\<forall>i < length ?ps. path_ok s (?ps ! i) (rs ! i)"
    using path_roundtrip [OF alloc nul surjective_pairing, of length]
    by (elim exE conjE) (rule that)
  have ok0: "path_ok s (?ps ! 0) (rs ! 0)" and ok1: "path_ok s (?ps ! 1) (rs ! 1)"
    by (rule ok [rule_format], simp)+
  have "\<not> well_formed_path ''//''"
    by (simp add: well_formed_path_split path_component_def)
  with ok1 have "rs ! 1 = (XR_ERROR_PATH_FORMAT_INVALID, None)" by (simp add: path_ok_def)
  with s f ok0 show ?thesis by auto
qed

text \<open>Ids that were never handed out. The cells of the path array that hold no path are never
  initialised, and the id 0 has such a cell too: asking whether the null path, or an id
  above the last one but within the allocated array, is valid reads uninitialised memory, and so
  does \<^verbatim>\<open>xrPathToString\<close> for the latter. Ids beyond the array are refused properly.\<close>
lemma unknown_path_id:
  assumes st: "stores s as strs" and x: "x = XR_NULL_PATH \<or> length strs < x"
  shows "if x < ps_array_length s
    then oxr_path_store_is_valid s x = Inl UninitRead
      \<and> oxr_path_store_get_string s x = Inl UninitRead
      \<and> oxr_xrPathToString s x cap has_count buffer =
          (if x = XR_NULL_PATH then Inr (XR_ERROR_PATH_INVALID, None, buffer) else Inl UninitRead)
    else oxr_path_store_is_valid s x = Inr False
      \<and> oxr_xrPathToString s x cap has_count buffer = Inr (XR_ERROR_PATH_INVALID, None, buffer)"
  using get_or_null_cases [OF st, of x] x
  by (auto simp: oxr_path_store_is_valid_def oxr_path_store_get_string_def oxr_xrPathToString_def XR_NULL_PATH_def)

end
