(* ===== verification/Subaction.thy ===== *)
theory Subaction
  imports Path_Store
begin

text \<open>
  Subaction paths: the classification of path ids into flags (\<^verbatim>\<open>actions/oxr_subaction.[ch]\<close>), the
  path cache of the instance that holds the ids of the known ones
  (\<^verbatim>\<open>actions/oxr_instance_path_cache.c\<close>), and the checks of the paths an application passes
  when it creates, synchronises and reads actions (\<^verbatim>\<open>oxr_verify.c\<close>). The x-macros that
  enumerate the subaction paths are written out. The error branches fetch the string of the offending path
  for the log; that read is part of the model, what is logged is not.
\<close>

section \<open>Data\<close>

record oxr_subaction_paths =
  sp_any :: bool
  sp_left :: bool
  sp_right :: bool
  sp_head :: bool
  sp_gamepad :: bool
  sp_eyes :: bool
  sp_user :: bool

definition no_subaction_paths :: oxr_subaction_paths where
  "no_subaction_paths = \<lparr>sp_any = False, sp_left = False, sp_right = False, sp_head = False,
     sp_gamepad = False, sp_eyes = False, sp_user = False\<rparr>"

record oxr_instance_path_cache =
  pc_left :: XrPath
  pc_right :: XrPath
  pc_head :: XrPath
  pc_gamepad :: XrPath
  pc_eyes :: XrPath
  pc_user :: XrPath
  pc_template_paths :: "XrPath list"

definition oxr_subaction_paths_is_subset_of :: "oxr_subaction_paths \<Rightarrow> oxr_subaction_paths \<Rightarrow> bool" where
  "oxr_subaction_paths_is_subset_of a b =
     (if sp_left a \<and> \<not> sp_left b then False
      else if sp_right a \<and> \<not> sp_right b then False
      else if sp_head a \<and> \<not> sp_head b then False
      else if sp_gamepad a \<and> \<not> sp_gamepad b then False
      else if sp_eyes a \<and> \<not> sp_eyes b then False
      else if sp_user a \<and> \<not> sp_user b then False
      else True)"

section \<open>The path cache\<close>

text \<open>The strings of the known paths.\<close>

definition path_left :: string where "path_left = ''/user/hand/left''"
definition path_right :: string where "path_right = ''/user/hand/right''"
definition path_head :: string where "path_head = ''/user/head''"
definition path_gamepad :: string where "path_gamepad = ''/user/gamepad''"
definition path_eyes :: string where "path_eyes = ''/user/eyes_ext''"
definition path_user :: string where "path_user = ''/user''"

lemmas path_defs = path_left_def path_right_def path_head_def path_gamepad_def path_eyes_def path_user_def

lemma paths_neq [simp]:
  "path_left \<noteq> path_right"
  "path_left \<noteq> path_head"
  "path_left \<noteq> path_gamepad"
  "path_left \<noteq> path_eyes"
  "path_left \<noteq> path_user"
  "path_right \<noteq> path_left"
  "path_right \<noteq> path_head"
  "path_right \<noteq> path_gamepad"
  "path_right \<noteq> path_eyes"
  "path_right \<noteq> path_user"
  "path_head \<noteq> path_left"
  "path_head \<noteq> path_right"
  "path_head \<noteq> path_gamepad"
  "path_head \<noteq> path_eyes"
  "path_head \<noteq> path_user"
  "path_gamepad \<noteq> path_left"
  "path_gamepad \<noteq> path_right"
  "path_gamepad \<noteq> path_head"
  "path_gamepad \<noteq> path_eyes"
  "path_gamepad \<noteq> path_user"
  "path_eyes \<noteq> path_left"
  "path_eyes \<noteq> path_right"
  "path_eyes \<noteq> path_head"
  "path_eyes \<noteq> path_gamepad"
  "path_eyes \<noteq> path_user"
  "path_user \<noteq> path_left"
  "path_user \<noteq> path_right"
  "path_user \<noteq> path_head"
  "path_user \<noteq> path_gamepad"
  "path_user \<noteq> path_eyes"
  by (simp_all add: path_defs)

text \<open>\<^verbatim>\<open>OXR_FOR_EACH_SUBACTION_PATH_DETAILED\<close>: the member of the cache with its path.\<close>

definition subaction_paths_detailed ::
  "((XrPath \<Rightarrow> oxr_instance_path_cache \<Rightarrow> oxr_instance_path_cache) \<times> string) list" where
  "subaction_paths_detailed =
     [(\<lambda>x c. c\<lparr>pc_left := x\<rparr>, path_left),
      (\<lambda>x c. c\<lparr>pc_right := x\<rparr>, path_right),
      (\<lambda>x c. c\<lparr>pc_head := x\<rparr>, path_head),
      (\<lambda>x c. c\<lparr>pc_gamepad := x\<rparr>, path_gamepad),
      (\<lambda>x c. c\<lparr>pc_eyes := x\<rparr>, path_eyes),
      (\<lambda>x c. c\<lparr>pc_user := x\<rparr>, path_user)]"

text \<open>One \<^verbatim>\<open>oxr_path_store_get_or_create\<close> per entry, stopping at the first error.\<close>

primrec cache_paths ::
  "(string \<Rightarrow> nat) \<Rightarrow> (path_store \<Rightarrow> addr option)
   \<Rightarrow> ((XrPath \<Rightarrow> oxr_instance_path_cache \<Rightarrow> oxr_instance_path_cache) \<times> string) list
   \<Rightarrow> path_store \<Rightarrow> oxr_instance_path_cache \<Rightarrow> fault + path_store \<times> oxr_instance_path_cache \<times> XrResult" where
  "cache_paths hash alloc [] s c = Inr (s, c, XR_SUCCESS)"
| "cache_paths hash alloc (e # es) s c =
     try_bind (oxr_path_store_get_or_create hash s (snd e @ [NUL]) (length (snd e)) (alloc s) True) (\<lambda>(s1, ret, x).
       if ret \<noteq> XR_SUCCESS then Inr (s1, c, ret)
       else try_bind (not_null x) (\<lambda>id. cache_paths hash alloc es s1 (fst e id c)))"

text \<open>The profile templates are generated code: their paths are the argument \<open>templates\<close>.\<close>

definition oxr_instance_path_cache_init ::
  "(string \<Rightarrow> nat) \<Rightarrow> (path_store \<Rightarrow> addr option) \<Rightarrow> string list \<Rightarrow> path_store \<Rightarrow> oxr_instance_path_cache
   \<Rightarrow> fault + path_store \<times> oxr_instance_path_cache \<times> XrResult" where
  "oxr_instance_path_cache_init hash alloc templates s c =
     try_bind (cache_paths hash alloc subaction_paths_detailed s c) (\<lambda>(s1, c1, ret).
       if ret \<noteq> XR_SUCCESS then Inr (s1, c1, ret)
       else cache_paths hash alloc
         (map (\<lambda>i. (\<lambda>x c. c\<lparr>pc_template_paths := (pc_template_paths c)[i := x]\<rparr>, templates ! i)) [0..<length templates])
         s1 c1)"

section \<open>Classification\<close>

text \<open>One pass of the loop of \<^verbatim>\<open>oxr_classify_subaction_paths\<close>; \<open>None\<close> is the \<^verbatim>\<open>return false\<close>.\<close>

definition classify_one :: "oxr_instance_path_cache \<Rightarrow> XrPath \<Rightarrow> oxr_subaction_paths \<Rightarrow> oxr_subaction_paths option" where
  "classify_one cache path sp =
     (if path = XR_NULL_PATH then Some (sp\<lparr>sp_any := True\<rparr>)
      else if path = pc_left cache then Some (sp\<lparr>sp_left := True\<rparr>)
      else if path = pc_right cache then Some (sp\<lparr>sp_right := True\<rparr>)
      else if path = pc_head cache then Some (sp\<lparr>sp_head := True\<rparr>)
      else if path = pc_gamepad cache then Some (sp\<lparr>sp_gamepad := True\<rparr>)
      else if path = pc_eyes cache then Some (sp\<lparr>sp_eyes := True\<rparr>)
      else None)"

primrec classify_all ::
  "oxr_instance_path_cache \<Rightarrow> XrPath list \<Rightarrow> oxr_subaction_paths \<Rightarrow> bool \<times> oxr_subaction_paths" where
  "classify_all cache [] sp = (True, sp)"
| "classify_all cache (path # paths) sp =
     (case classify_one cache path sp of
        None \<Rightarrow> (False, sp)
      | Some sp' \<Rightarrow> classify_all cache paths sp')"

definition oxr_classify_subaction_paths ::
  "oxr_instance_path_cache \<Rightarrow> XrPath list \<Rightarrow> bool \<times> oxr_subaction_paths" where
  "oxr_classify_subaction_paths cache paths =
     (if length paths = 0 then (True, no_subaction_paths\<lparr>sp_any := True\<rparr>)
      else classify_all cache paths no_subaction_paths)"

definition oxr_classify_subaction_path :: "oxr_instance_path_cache \<Rightarrow> XrPath \<Rightarrow> bool \<times> oxr_subaction_paths" where
  "oxr_classify_subaction_path cache path = oxr_classify_subaction_paths cache [path]"

section \<open>Verification\<close>

text \<open>The error branches: the string is fetched for the message.\<close>

definition path_error :: "path_store \<Rightarrow> XrPath \<Rightarrow> XrResult \<Rightarrow> fault + XrResult" where
  "path_error s path r = try_bind (oxr_path_store_get_string s path) (\<lambda>_. Inr r)"

definition subaction_path_no_dups ::
  "path_store \<Rightarrow> oxr_instance_path_cache \<Rightarrow> oxr_subaction_paths \<Rightarrow> XrPath \<Rightarrow> fault + oxr_subaction_paths \<times> XrResult" where
  "subaction_path_no_dups s cache sp path =
     (if path = XR_NULL_PATH then Inr (sp, XR_ERROR_PATH_INVALID)
      else
        let found =
          (if path = pc_left cache then Some (sp_left sp, sp\<lparr>sp_left := True\<rparr>)
           else if path = pc_right cache then Some (sp_right sp, sp\<lparr>sp_right := True\<rparr>)
           else if path = pc_head cache then Some (sp_head sp, sp\<lparr>sp_head := True\<rparr>)
           else if path = pc_gamepad cache then Some (sp_gamepad sp, sp\<lparr>sp_gamepad := True\<rparr>)
           else if path = pc_eyes cache then Some (sp_eyes sp, sp\<lparr>sp_eyes := True\<rparr>)
           else None)
        in (case found of
              None \<Rightarrow> try_bind (path_error s path XR_ERROR_PATH_UNSUPPORTED) (\<lambda>r. Inr (sp, r))
            | Some (duplicate, sp') \<Rightarrow>
                if duplicate then try_bind (path_error s path XR_ERROR_PATH_UNSUPPORTED) (\<lambda>r. Inr (sp, r))
                else Inr (sp', XR_SUCCESS)))"

primrec no_dups_loop ::
  "path_store \<Rightarrow> oxr_instance_path_cache \<Rightarrow> oxr_subaction_paths \<Rightarrow> XrPath list \<Rightarrow> fault + XrResult" where
  "no_dups_loop s cache sp [] = Inr XR_SUCCESS"
| "no_dups_loop s cache sp (path # paths) =
     try_bind (subaction_path_no_dups s cache sp path) (\<lambda>(sp', ret).
       if ret \<noteq> XR_SUCCESS then Inr ret else no_dups_loop s cache sp' paths)"

definition oxr_verify_subaction_paths_create ::
  "path_store \<Rightarrow> oxr_instance_path_cache \<Rightarrow> XrPath list \<Rightarrow> fault + XrResult" where
  "oxr_verify_subaction_paths_create s cache subactionPaths = no_dups_loop s cache no_subaction_paths subactionPaths"

definition oxr_verify_subaction_path_sync ::
  "path_store \<Rightarrow> oxr_instance_path_cache \<Rightarrow> oxr_subaction_paths \<Rightarrow> XrPath \<Rightarrow> fault + XrResult" where
  "oxr_verify_subaction_path_sync s cache permitted path =
     (if path = XR_NULL_PATH then Inr XR_SUCCESS
      else
        let (ok, sp) = oxr_classify_subaction_path cache path
        in if \<not> ok then path_error s path XR_ERROR_PATH_INVALID
           else if \<not> oxr_subaction_paths_is_subset_of sp permitted then Inr XR_ERROR_PATH_UNSUPPORTED
           else Inr XR_SUCCESS)"

definition oxr_verify_subaction_path_get ::
  "path_store \<Rightarrow> oxr_instance_path_cache \<Rightarrow> XrPath \<Rightarrow> oxr_subaction_paths
   \<Rightarrow> fault + XrResult \<times> oxr_subaction_paths option" where
  "oxr_verify_subaction_path_get s cache path act =
     (let sp = no_subaction_paths;
          found =
            (if path = XR_NULL_PATH then Some (sp\<lparr>sp_any := True\<rparr>)
             else if path = pc_left cache then Some (sp\<lparr>sp_left := True\<rparr>)
             else if path = pc_right cache then Some (sp\<lparr>sp_right := True\<rparr>)
             else if path = pc_head cache then Some (sp\<lparr>sp_head := True\<rparr>)
             else if path = pc_gamepad cache then Some (sp\<lparr>sp_gamepad := True\<rparr>)
             else if path = pc_eyes cache then Some (sp\<lparr>sp_eyes := True\<rparr>)
             else if path = pc_user cache then Some (sp\<lparr>sp_user := True\<rparr>)
             else None)
      in (case found of
            None \<Rightarrow> try_bind (path_error s path XR_ERROR_PATH_INVALID) (\<lambda>r. Inr (r, None))
          | Some sp' \<Rightarrow>
              let fail = (sp_left sp' \<and> \<not> sp_left act \<or> sp_right sp' \<and> \<not> sp_right act
                \<or> sp_head sp' \<and> \<not> sp_head act \<or> sp_gamepad sp' \<and> \<not> sp_gamepad act
                \<or> sp_eyes sp' \<and> \<not> sp_eyes act \<or> sp_user sp' \<and> \<not> sp_user act)
              in if fail then try_bind (path_error s path XR_ERROR_PATH_UNSUPPORTED) (\<lambda>r. Inr (r, None))
                 else Inr (XR_SUCCESS, Some sp')))"

section \<open>What the cache holds\<close>

definition id_of :: "string list \<Rightarrow> XrPath \<Rightarrow> string \<Rightarrow> bool" where
  "id_of strs x p \<longleftrightarrow> 0 < x \<and> x \<le> length strs \<and> strs ! (x - 1) = p"

lemma id_of_Suc: "i < length strs \<Longrightarrow> id_of strs (Suc i) (strs ! i)"
  by (simp add: id_of_def)

lemma id_of_mono: "id_of strs x p \<Longrightarrow> id_of (strs @ qs) x p"
  by (auto simp: id_of_def nth_append)

lemma id_of_eq_iff:
  assumes "distinct strs" and "id_of strs x p" and "id_of strs y q"
  shows "x = y \<longleftrightarrow> p = q"
proof -
  from assms obtain i j where "x = Suc i" "y = Suc j" "i < length strs" "j < length strs" "strs ! i = p" "strs ! j = q"
    by (cases x; cases y) (auto simp: id_of_def)
  with assms(1) show ?thesis by (auto simp: nth_eq_iff_index_eq)
qed

definition six :: "oxr_instance_path_cache \<Rightarrow> XrPath list" where
  "six c = [pc_left c, pc_right c, pc_head c, pc_gamepad c, pc_eyes c, pc_user c]"

abbreviation user_paths :: "string list" where
  "user_paths \<equiv> [path_left, path_right, path_head, path_gamepad, path_eyes]"

definition cache_for :: "string list \<Rightarrow> oxr_instance_path_cache \<Rightarrow> bool" where
  "cache_for strs c \<longleftrightarrow> list_all2 (id_of strs) (six c) (user_paths @ [path_user])"

definition set_all ::
  "((XrPath \<Rightarrow> oxr_instance_path_cache \<Rightarrow> oxr_instance_path_cache) \<times> string) list \<Rightarrow> XrPath list
   \<Rightarrow> oxr_instance_path_cache \<Rightarrow> oxr_instance_path_cache" where
  "set_all es ids c = fold (\<lambda>(e, x). fst e x) (zip es ids) c"

lemma set_all_six:
  assumes "\<And>e x c. e \<in> set es \<Longrightarrow> six (fst e x c) = six c"
  shows "six (set_all es ids c) = six c"
  using assms
proof (induction es arbitrary: ids c)
  case (Cons e es)
  then show ?case by (cases ids) (simp_all add: set_all_def)
qed (simp add: set_all_def)

lemma cache_paths_run:
  assumes "stores s as strs" and alloc: "\<forall>s a. alloc s = Some a \<longrightarrow> ps_heap s a = None"
    and oom: "\<forall>s. alloc s = None \<longrightarrow> oom"
  shows "\<exists>s' as' qs c' r. cache_paths hash alloc es s c = Inr (s', c', r) \<and> stores s' as' (strs @ qs)
    \<and> (r = XR_SUCCESS \<and> (\<exists>ids. list_all2 (id_of (strs @ qs)) ids (map snd es) \<and> c' = set_all es ids c)
       \<or> oom \<and> r = XR_ERROR_RUNTIME_FAILURE)"
  using assms(1)
proof (induction es arbitrary: s as strs c)
  case Nil
  then show ?case
    by (intro exI [of _ s] exI [of _ as] exI [of _ "[]"]) (simp add: set_all_def)
next
  case (Cons e es)
  from alloc have m: "\<forall>a. alloc s = Some a \<longrightarrow> ps_heap s a = None" by blast
  from get_or_create_step [OF Cons.prems m, of hash "snd e" "[NUL]"] obtain s1 as1 qs1 a where
    s1: "oxr_path_store_get_or_create hash s (snd e @ [NUL]) (length (snd e)) (alloc s) True = Inr (s1, a)"
      "stores s1 as1 (strs @ qs1)" and a: "gets (alloc s = None) (strs @ qs1) (snd e) a" by blast
  show ?case
  proof (cases "a = (XR_ERROR_RUNTIME_FAILURE, None)")
    case True
    with a oom have oom by (auto simp: gets_def)
    with s1 True show ?thesis
      by (intro exI [of _ s1] exI [of _ as1] exI [of _ qs1]) simp
  next
    case False
    with a obtain i where i: "i < length (strs @ qs1)" "(strs @ qs1) ! i = snd e" "a = (XR_SUCCESS, Some (i + 1))"
      by (auto simp: gets_def)
    from Cons.IH [OF s1(2), of "fst e (i + 1) c", unfolded append_assoc] obtain s2 as2 qs2 c2 r where
      s2: "cache_paths hash alloc es s1 (fst e (i + 1) c) = Inr (s2, c2, r)"
        "stores s2 as2 (strs @ qs1 @ qs2)"
        "r = XR_SUCCESS \<and> (\<exists>ids. list_all2 (id_of (strs @ qs1 @ qs2)) ids (map snd es) \<and> c2 = set_all es ids (fst e (i + 1) c))
         \<or> oom \<and> r = XR_ERROR_RUNTIME_FAILURE" by blast
    have "id_of (strs @ qs1 @ qs2) (i + 1) (snd e)"
      using id_of_mono [OF id_of_Suc [OF i(1)], of qs2] i(2) by simp
    then have "\<exists>ids'. list_all2 (id_of (strs @ qs1 @ qs2)) ids' (map snd (e # es)) \<and> c2 = set_all (e # es) ids' c"
      if "list_all2 (id_of (strs @ qs1 @ qs2)) ids (map snd es)" "c2 = set_all es ids (fst e (i + 1) c)" for ids
      using that by (intro exI [of _ "(i + 1) # ids"]) (simp add: set_all_def)
    moreover have "cache_paths hash alloc (e # es) s c = Inr (s2, c2, r)"
      using s1(1) i(3) s2(1) by simp
    ultimately show ?thesis
      using s2(2,3) by (intro exI [of _ s2] exI [of _ as2] exI [of _ "qs1 @ qs2"]) auto
  qed
qed

lemma detailed_names: "map snd subaction_paths_detailed = user_paths @ [path_user]"
  by (simp add: subaction_paths_detailed_def)

lemma six_set_all: "length ids = 6 \<Longrightarrow> six (set_all subaction_paths_detailed ids c) = ids"
  by (auto simp: set_all_def subaction_paths_detailed_def six_def numeral_eq_Suc length_Suc_conv)

lemma cache_init_for:
  assumes st: "stores s as strs" and alloc: "\<forall>s a. alloc s = Some a \<longrightarrow> ps_heap s a = None"
    and oom: "\<forall>s. alloc s = None \<longrightarrow> oom"
  shows "\<exists>s' as' qs c' r. oxr_instance_path_cache_init hash alloc templates s c = Inr (s', c', r)
    \<and> stores s' as' (strs @ qs) \<and> (r = XR_SUCCESS \<and> cache_for (strs @ qs) c' \<or> oom \<and> r = XR_ERROR_RUNTIME_FAILURE)"
proof -
  define es :: "((XrPath \<Rightarrow> oxr_instance_path_cache \<Rightarrow> oxr_instance_path_cache) \<times> string) list" where
    "es = map (\<lambda>i. (\<lambda>x c. c\<lparr>pc_template_paths := (pc_template_paths c)[i := x]\<rparr>, templates ! i)) [0..<length templates]"
  have keep: "six (set_all es ids c) = six c" for ids c
    by (rule set_all_six) (auto simp: six_def es_def)
  have init: "oxr_instance_path_cache_init hash alloc templates s c =
     try_bind (cache_paths hash alloc subaction_paths_detailed s c) (\<lambda>(s1, c1, ret).
       if ret \<noteq> XR_SUCCESS then Inr (s1, c1, ret) else cache_paths hash alloc es s1 c1)"
    unfolding oxr_instance_path_cache_init_def es_def ..
  obtain s1 as1 qs1 c1 r1 where
    s1: "cache_paths hash alloc subaction_paths_detailed s c = Inr (s1, c1, r1)" "stores s1 as1 (strs @ qs1)"
    and r1: "r1 = XR_SUCCESS \<and> (\<exists>ids. list_all2 (id_of (strs @ qs1)) ids (map snd subaction_paths_detailed)
        \<and> c1 = set_all subaction_paths_detailed ids c) \<or> oom \<and> r1 = XR_ERROR_RUNTIME_FAILURE"
    using cache_paths_run [OF st alloc oom, of hash subaction_paths_detailed c] by blast
  show ?thesis
  proof (cases "r1 = XR_SUCCESS")
    case False
    with s1 r1 show ?thesis
      by (intro exI [of _ s1] exI [of _ as1] exI [of _ qs1]) (simp add: init)
  next
    case True
    with r1 obtain ids where ids: "list_all2 (id_of (strs @ qs1)) ids (map snd subaction_paths_detailed)"
      "c1 = set_all subaction_paths_detailed ids c" by auto
    from ids(1) have "length ids = 6" by (auto dest: list_all2_lengthD simp: detailed_names)
    with ids have c1: "cache_for (strs @ qs1) c1"
      by (simp add: cache_for_def six_set_all detailed_names)
    obtain s2 as2 qs2 c2 r2 where
      s2: "cache_paths hash alloc es s1 c1 = Inr (s2, c2, r2)" "stores s2 as2 ((strs @ qs1) @ qs2)"
      and r2: "r2 = XR_SUCCESS \<and> (\<exists>ids. list_all2 (id_of ((strs @ qs1) @ qs2)) ids (map snd es) \<and> c2 = set_all es ids c1)
          \<or> oom \<and> r2 = XR_ERROR_RUNTIME_FAILURE"
      using cache_paths_run [OF s1(2) alloc oom, of hash es c1] by blast
    have "cache_for ((strs @ qs1) @ qs2) c2" if "r2 = XR_SUCCESS"
    proof -
      from r2 that obtain ids where "c2 = set_all es ids c1" by auto
      then have "six c2 = six c1" using keep by simp
      then show ?thesis
        using c1 id_of_mono unfolding cache_for_def by (metis (no_types, lifting) list_all2_mono)
    qed
    then show ?thesis
      using s1(1) True s2 r2
      by (intro exI [of _ s2] exI [of _ as2] exI [of _ "qs1 @ qs2"] exI [of _ c2] exI [of _ r2])
        (auto simp: init)
  qed
qed

section \<open>The checks decide what they should\<close>

definition seen :: "oxr_subaction_paths \<Rightarrow> string set" where
  "seen sp = (if sp_left sp then {path_left} else {}) \<union> (if sp_right sp then {path_right} else {})
     \<union> (if sp_head sp then {path_head} else {}) \<union> (if sp_gamepad sp then {path_gamepad} else {})
     \<union> (if sp_eyes sp then {path_eyes} else {})"

lemma cache_eq:
  assumes "distinct strs" and "cache_for strs c" and "id_of strs x p"
  shows "x = pc_left c \<longleftrightarrow> p = path_left" and "x = pc_right c \<longleftrightarrow> p = path_right"
    and "x = pc_head c \<longleftrightarrow> p = path_head" and "x = pc_gamepad c \<longleftrightarrow> p = path_gamepad"
    and "x = pc_eyes c \<longleftrightarrow> p = path_eyes" and "x = pc_user c \<longleftrightarrow> p = path_user"
    and "x \<noteq> XR_NULL_PATH"
  using assms(2) id_of_eq_iff [OF assms(1,3)] assms(3)
  by (simp_all add: cache_for_def six_def id_of_def XR_NULL_PATH_def)

lemma path_error_stored:
  assumes "stores s as strs" and "id_of strs x p"
  shows "path_error s x r = Inr r"
proof -
  from assms(2) obtain i where "x = i + 1" "i < length strs" by (cases x) (auto simp: id_of_def)
  with get_string_stores [OF assms(1)] show ?thesis by (simp add: path_error_def)
qed

lemma no_dups_step:
  assumes st: "stores s as strs" and c: "cache_for strs c" and x: "id_of strs x p"
  shows "if p \<in> set user_paths \<and> p \<notin> seen sp
    then \<exists>sp'. subaction_path_no_dups s c sp x = Inr (sp', XR_SUCCESS) \<and> seen sp' = insert p (seen sp)
    else subaction_path_no_dups s c sp x = Inr (sp, XR_ERROR_PATH_UNSUPPORTED)"
proof -
  have d: "distinct strs" using st by (simp add: stores_def)
  note eq = cache_eq [OF d c x] path_error_stored [OF st x]
  consider "p = path_left" | "p = path_right" | "p = path_head" | "p = path_gamepad"
    | "p = path_eyes" | "p \<notin> set user_paths"
    by fastforce
  then show ?thesis
    by cases (auto simp: subaction_path_no_dups_def eq Let_def seen_def)
qed

lemma no_dups_loop_eq:
  assumes st: "stores s as strs" and c: "cache_for strs c" and "list_all2 (id_of strs) xs ps"
  shows "no_dups_loop s c sp xs =
    Inr (if distinct ps \<and> set ps \<subseteq> set user_paths - seen sp then XR_SUCCESS else XR_ERROR_PATH_UNSUPPORTED)"
  using assms(3)
proof (induction xs ps arbitrary: sp rule: list_all2_induct)
  case (Cons x xs p ps)
  note step = no_dups_step [OF st c Cons.hyps(1), of sp]
  show ?case
  proof (cases "p \<in> set user_paths \<and> p \<notin> seen sp")
    case True
    with step obtain sp' where sp': "subaction_path_no_dups s c sp x = Inr (sp', XR_SUCCESS)"
      "seen sp' = insert p (seen sp)" by auto
    from True have iff: "distinct (p # ps) \<and> set (p # ps) \<subseteq> set user_paths - seen sp
      \<longleftrightarrow> distinct ps \<and> set ps \<subseteq> set user_paths - insert p (seen sp)" by auto
    show ?thesis unfolding iff using Cons.IH [of sp'] sp' by simp
  next
    case False
    then have "\<not> (distinct (p # ps) \<and> set (p # ps) \<subseteq> set user_paths - seen sp)" by auto
    moreover have "subaction_path_no_dups s c sp x = Inr (sp, XR_ERROR_PATH_UNSUPPORTED)"
      using step False by (simp only: if_False)
    ultimately show ?thesis by (simp only: no_dups_loop.simps try_bind_Inr if_False) simp
  qed
qed simp

lemma seen_none [simp]: "seen no_subaction_paths = {}"
  by (simp add: seen_def no_subaction_paths_def)

text \<open>Synchronising and reading an action: what a known path id is answered.\<close>

lemma subaction_path_sync_eq:
  assumes st: "stores s as strs" and c: "cache_for strs c" and x: "id_of strs x p"
  shows "oxr_verify_subaction_path_sync s c permitted x =
    Inr (if p \<notin> set user_paths then XR_ERROR_PATH_INVALID
         else if p \<in> seen permitted then XR_SUCCESS else XR_ERROR_PATH_UNSUPPORTED)"
proof -
  have d: "distinct strs" using st by (simp add: stores_def)
  note eq = cache_eq [OF d c x] path_error_stored [OF st x]
  consider "p = path_left" | "p = path_right" | "p = path_head" | "p = path_gamepad" | "p = path_eyes"
    | "p \<notin> set user_paths" by fastforce
  then show ?thesis
    by cases (simp_all add: oxr_verify_subaction_path_sync_def oxr_classify_subaction_path_def
        oxr_classify_subaction_paths_def classify_one_def eq seen_def no_subaction_paths_def
        oxr_subaction_paths_is_subset_of_def)
qed

lemma subaction_path_get_eq:
  assumes st: "stores s as strs" and c: "cache_for strs c" and x: "id_of strs x p"
  shows "map_sum id fst (oxr_verify_subaction_path_get s c x act) =
    Inr (if p \<notin> set (user_paths @ [path_user]) then XR_ERROR_PATH_INVALID
         else if p \<in> seen act \<or> p = path_user \<and> sp_user act then XR_SUCCESS else XR_ERROR_PATH_UNSUPPORTED)"
proof -
  have d: "distinct strs" using st by (simp add: stores_def)
  note eq = cache_eq [OF d c x] path_error_stored [OF st x]
  consider "p = path_left" | "p = path_right" | "p = path_head" | "p = path_gamepad" | "p = path_eyes"
    | "p = path_user" | "p \<notin> set (user_paths @ [path_user])" by fastforce
  then show ?thesis
    by cases (simp_all add: oxr_verify_subaction_path_get_def Let_def eq seen_def no_subaction_paths_def)
qed

text \<open>C22.
  Subaction paths at action creation. In every instance, that is after the path store was
  created, the path cache was initialised on it and the application asked for any further
  paths, the check of the subaction paths of a new action accepts a list of path ids
  exactly if the strings they stand for are pairwise different and each is one of the five
  top level user paths; otherwise it answers with the unsupported path error, and it never faults on
  such ids.\<close>
theorem subaction_paths_create_decides:
  assumes alloc: "\<forall>s a. alloc s = Some a \<longrightarrow> ps_heap s a = None"
    and init: "oxr_path_store_init path_store_null True = (s0, r0)"
    and cache: "oxr_instance_path_cache_init hash alloc templates s0 c0 = Inr (s1, c, XR_SUCCESS)"
    and ps: "\<forall>p \<in> set ps. NUL \<notin> set p"
    and run: "string_to_paths hash alloc s1 ps = Inr (s, map (\<lambda>x. (XR_SUCCESS, Some x)) xs)"
  shows "oxr_verify_subaction_paths_create s c xs =
    Inr (if distinct ps \<and> set ps \<subseteq> set user_paths then XR_SUCCESS else XR_ERROR_PATH_UNSUPPORTED)"
proof -
  have "stores s0 [] []" using init_stores [OF init] by simp
  from cache_init_for [OF this alloc, of True hash templates c0] cache obtain as1 strs1 where
    s1: "stores s1 as1 strs1" "cache_for strs1 c" by auto
  have "\<forall>s. alloc s = None \<longrightarrow> True" by simp
  from string_to_paths_run [OF s1(1) alloc this ps, of hash] obtain s' as qs rs where
    run': "string_to_paths hash alloc s1 ps = Inr (s', rs)" and s': "stores s' as (strs1 @ qs)"
    and rs: "list_all2 (answered True (strs1 @ qs)) ps rs" by blast
  from run run' have "s' = s" "rs = map (\<lambda>x. (XR_SUCCESS, Some x)) xs" by simp_all
  with s' rs have s: "stores s as (strs1 @ qs)"
    and a: "list_all2 (answered True (strs1 @ qs)) ps (map (\<lambda>x. (XR_SUCCESS, Some x)) xs)" by simp_all
  have "id_of (strs1 @ qs) x p" if "answered True (strs1 @ qs) p (XR_SUCCESS, Some x)" for x p
    using that by (auto simp: answered_def id_of_def split: if_splits)
  with a have ids: "list_all2 (id_of (strs1 @ qs)) xs ps"
    by (auto simp: list_all2_conv_all_nth)
  have "cache_for (strs1 @ qs) c"
    using s1(2) id_of_mono unfolding cache_for_def by (metis (no_types, lifting) list_all2_mono)
  from no_dups_loop_eq [OF s this ids, of no_subaction_paths] show ?thesis
    by (simp add: oxr_verify_subaction_paths_create_def)
qed

theorem subaction_paths_create_decides_witness:
  "\<exists>c s s'. oxr_verify_subaction_paths_create s c [1, 2] = Inr XR_SUCCESS
    \<and> oxr_verify_subaction_paths_create s' c [1, 1] = Inr XR_ERROR_PATH_UNSUPPORTED"
proof -
  let ?s0 = "fst (oxr_path_store_init path_store_null True)"
  let ?c0 = "\<lparr>pc_left = 0, pc_right = 0, pc_head = 0, pc_gamepad = 0, pc_eyes = 0, pc_user = 0, pc_template_paths = []\<rparr>"
  have alloc: "\<forall>s a. first_free s = Some a \<longrightarrow> ps_heap s a = None" by (simp add: first_free_def)
  define R where "R = oxr_instance_path_cache_init length first_free [] ?s0 ?c0"
  have "case R of Inl _ \<Rightarrow> False | Inr (s, c, r) \<Rightarrow> r = XR_SUCCESS
    \<and> map_sum id snd (string_to_paths length first_free s [path_left, path_right])
        = Inr (map (\<lambda>x. (XR_SUCCESS, Some x)) [1, 2])
    \<and> map_sum id snd (string_to_paths length first_free s [path_left, path_left])
        = Inr (map (\<lambda>x. (XR_SUCCESS, Some x)) [1, 1])"
    unfolding R_def by code_simp
  then obtain s c where R: "oxr_instance_path_cache_init length first_free [] ?s0 ?c0 = Inr (s, c, XR_SUCCESS)"
    and a: "map_sum id snd (string_to_paths length first_free s [path_left, path_right])
        = Inr (map (\<lambda>x. (XR_SUCCESS, Some x)) [1, 2])"
    and b: "map_sum id snd (string_to_paths length first_free s [path_left, path_left])
        = Inr (map (\<lambda>x. (XR_SUCCESS, Some x)) [1, 1])"
    by (auto simp: R_def split: sum.splits prod.splits)
  from a obtain s2 where a': "string_to_paths length first_free s [path_left, path_right]
      = Inr (s2, map (\<lambda>x. (XR_SUCCESS, Some x)) [1, 2])"
    by (auto simp: map_sum_def split: sum.splits prod.splits)
  from b obtain s3 where b': "string_to_paths length first_free s [path_left, path_left]
      = Inr (s3, map (\<lambda>x. (XR_SUCCESS, Some x)) [1, 1])"
    by (auto simp: map_sum_def split: sum.splits prod.splits)
  have "oxr_verify_subaction_paths_create s2 c [1, 2] = Inr XR_SUCCESS"
    using subaction_paths_create_decides [OF alloc surjective_pairing R _ a'] by (simp add: path_defs)
  moreover have "oxr_verify_subaction_paths_create s3 c [1, 1] = Inr XR_ERROR_PATH_UNSUPPORTED"
    using subaction_paths_create_decides [OF alloc surjective_pairing R _ b'] by (simp add: path_defs)
  ultimately show ?thesis by blast
qed

end
