(* ===== verification/Cobs.thy ===== *)
theory Cobs
  imports Prelude
begin

text \<open>
  Consistent overhead byte stuffing, the framing of the serial protocol of the contact glove
  dongle (\<^verbatim>\<open>auxiliary/util/u_cobs.[ch]\<close>): the packet encoder and the streaming decoder.
  The packets given to the callback are recorded in \<open>cd_packets\<close>. Byte arrays are lists; a write
  outside one is \<open>OutOfBounds\<close>.
\<close>

section \<open>Decoder\<close>

definition ENOMEM :: int where "ENOMEM = 12"
definition EINVAL :: int where "EINVAL = 22"
definition ENOSPC :: int where "ENOSPC = 28"

definition PACKET_DELIMITER :: "8 word" where
  "PACKET_DELIMITER = 0"

record u_cobs_decoder =
  cd_buffer :: "8 word list"
  cd_buffer_size :: nat
  cd_read_bytes :: nat
  cd_bytes_until_next_code :: nat
  cd_error_recovery :: bool
  cd_packets :: "8 word list list"

text \<open>\<open>ok\<close>: whether \<^verbatim>\<open>calloc\<close> succeeds.\<close>

definition u_cobs_decoder_create :: "nat \<Rightarrow> bool \<Rightarrow> int \<times> u_cobs_decoder option" where
  "u_cobs_decoder_create buffer_size ok =
     (if \<not> ok then (- ENOMEM, None)
      else (0, Some \<lparr>cd_buffer = replicate buffer_size 0, cd_buffer_size = buffer_size, cd_read_bytes = 0,
                     cd_bytes_until_next_code = 0, cd_error_recovery = False, cd_packets = []\<rparr>))"

text \<open>
  The inner loop that looks for a delimiter: it tests \<open>byte\<close>, which it does not read again, against the
  rest \<open>data\<close> of the input. The result is the decoder and the input from the index the loop ended with.
\<close>

primrec recover_loop :: "8 word \<Rightarrow> 8 word list \<Rightarrow> u_cobs_decoder \<Rightarrow> u_cobs_decoder \<times> 8 word list" where
  "recover_loop byte [] d = (d, [])"
| "recover_loop byte (x # data) d =
     (if byte = PACKET_DELIMITER
      then (d\<lparr>cd_error_recovery := False, cd_read_bytes := 0, cd_bytes_until_next_code := 0\<rparr>, x # data)
      else recover_loop byte data d)"

lemma recover_loop_length: "length (snd (recover_loop byte data d)) \<le> length data"
  by (induction data) auto

text \<open>Storing a byte that is neither a delimiter nor skipped.\<close>

definition store_byte :: "8 word \<Rightarrow> u_cobs_decoder \<Rightarrow> fault + u_cobs_decoder" where
  "store_byte byte d =
     (if cd_bytes_until_next_code d = 0 then
        let d1 = d\<lparr>cd_bytes_until_next_code := unat byte - 1\<rparr>
        in if cd_read_bytes d1 > 0 then
             try_bind (arr_set (cd_buffer d1) (cd_read_bytes d1) 0) (\<lambda>b.
               Inr (d1\<lparr>cd_buffer := b, cd_read_bytes := cd_read_bytes d1 + 1\<rparr>))
           else Inr d1
      else
        try_bind (arr_set (cd_buffer d) (cd_read_bytes d) byte) (\<lambda>b.
          Inr (d\<lparr>cd_buffer := b, cd_read_bytes := cd_read_bytes d + 1,
                 cd_bytes_until_next_code := cd_bytes_until_next_code d - 1\<rparr>)))"

text \<open>The loop of \<^verbatim>\<open>u_cobs_push_bytes\<close> on the bytes that are left.\<close>

function u_cobs_push_bytes :: "u_cobs_decoder \<Rightarrow> 8 word list \<Rightarrow> fault + u_cobs_decoder \<times> int" where
  "u_cobs_push_bytes d [] = Inr (d, 0)"
| "u_cobs_push_bytes d (byte # data) =
     (if byte = PACKET_DELIMITER then
        if cd_error_recovery d then
          u_cobs_push_bytes (d\<lparr>cd_error_recovery := False, cd_read_bytes := 0, cd_bytes_until_next_code := 0\<rparr>) data
        else if cd_bytes_until_next_code d \<noteq> 0 then Inr (d\<lparr>cd_read_bytes := 0\<rparr>, - EINVAL)
        else if cd_read_bytes d > 0 then
          u_cobs_push_bytes (d\<lparr>cd_packets := cd_packets d @ [take (cd_read_bytes d) (cd_buffer d)],
            cd_read_bytes := 0\<rparr>) data
        else u_cobs_push_bytes d data
      else if cd_error_recovery d then u_cobs_push_bytes d data
      else if cd_read_bytes d \<ge> cd_buffer_size d then
        let (d1, rest) = recover_loop byte (byte # data) (d\<lparr>cd_error_recovery := True\<rparr>)
        in if cd_error_recovery d1 then Inr (d1, - ENOSPC)
           else try_bind (store_byte byte d1) (\<lambda>d2. u_cobs_push_bytes d2 (tl rest))
      else try_bind (store_byte byte d) (\<lambda>d2. u_cobs_push_bytes d2 data))"
  by pat_completeness auto

termination
proof (relation "measure (\<lambda>(d, data). length data)", goal_cases)
  case (6 d byte data)
  then show ?case
    using recover_loop_length [of byte data "d\<lparr>cd_error_recovery := True\<rparr>"]
    by (simp, metis diff_le_self le_imp_less_Suc le_trans snd_conv)
qed auto

section \<open>Encoder\<close>

text \<open>
  The inner loop: data bytes up to a zero byte or the largest code. \<open>Inl\<close> is the early return with
  \<^verbatim>\<open>-ENOSPC\<close> and what was written so far.
\<close>

function encode_run :: "8 word list \<Rightarrow> nat \<Rightarrow> 8 word list \<Rightarrow> nat \<Rightarrow> nat \<Rightarrow> 8 word
    \<Rightarrow> fault + (8 word list + 8 word list \<times> nat \<times> nat \<times> 8 word)" where
  "encode_run input output_size out ri wi code =
     (if ri < length input \<and> input ! ri \<noteq> 0 \<and> code < 0xFF then
        if wi \<ge> output_size then Inr (Inl out)
        else try_bind (arr_set out wi (input ! ri)) (\<lambda>out'.
          encode_run input output_size out' (ri + 1) (wi + 1) (code + 1))
      else Inr (Inr (out, ri, wi, code)))"
  by pat_completeness auto

termination
  by (relation "measure (\<lambda>(input, output_size, out, ri, wi, code). length input - ri)") auto

declare encode_run.simps [simp del]

lemma encode_run_progress:
  assumes "encode_run input output_size out ri wi code = Inr (Inr (out', ri', wi', code'))"
  shows "ri \<le> ri'" and "ri < length input \<Longrightarrow> code < 0xFF \<Longrightarrow> ri = ri' \<Longrightarrow> input ! ri = 0"
proof -
  have ge: "ri \<le> ri'"
    if "encode_run input output_size out ri wi code = Inr (Inr (out', ri', wi', code'))" for out ri wi code
    using that
  proof (induction input output_size out ri wi code rule: encode_run.induct)
    case (1 input output_size out ri wi code)
    show ?case
    proof (cases "ri < length input \<and> input ! ri \<noteq> 0 \<and> code < 0xFF \<and> wi < output_size \<and> wi < length out")
      case True
      with 1(2) have "encode_run input output_size (out[wi := input ! ri]) (ri + 1) (wi + 1) (code + 1)
          = Inr (Inr (out', ri', wi', code'))"
        by (subst (asm) encode_run.simps) simp
      with 1(1) [of "out[wi := input ! ri]"] True have "ri + 1 \<le> ri'" by simp
      then show ?thesis by simp
    next
      case False
      with 1(2) show ?thesis
        by (subst (asm) encode_run.simps) (auto split: if_splits simp: try_simps)
    qed
  qed
  show "ri \<le> ri'" using assms by (rule ge)
  show "input ! ri = 0" if "ri < length input" "code < 0xFF" "ri = ri'"
  proof (rule ccontr)
    assume "input ! ri \<noteq> 0"
    with assms that show False
      by (subst (asm) encode_run.simps) (auto split: if_splits simp: try_simps dest!: ge)
  qed
qed

text \<open>The outer loop, the final check and the delimiter.\<close>

function encode_loop :: "8 word list \<Rightarrow> nat \<Rightarrow> 8 word list \<Rightarrow> nat \<Rightarrow> nat \<Rightarrow> fault + 8 word list \<times> int" where
  "encode_loop input output_size out ri wi =
     (if ri < length input then
        (case encode_run input output_size out ri (wi + 1) 1 of
           Inl f \<Rightarrow> Inl f
         | Inr (Inl out1) \<Rightarrow> Inr (out1, - ENOSPC)
         | Inr (Inr (out1, ri1, wi1, code)) \<Rightarrow>
             try_bind (arr_set out1 wi code) (\<lambda>out2.
               encode_loop input output_size out2
                 (if ri1 < length input \<and> input ! ri1 = 0 then ri1 + 1 else ri1) wi1))
      else if wi \<ge> output_size then Inr (out, - ENOSPC)
      else try_bind (arr_set out wi PACKET_DELIMITER) (\<lambda>out1. Inr (out1, int (wi + 1))))"
  by pat_completeness auto

termination
proof (relation "measure (\<lambda>(input, output_size, out, ri, wi). length input - ri)", goal_cases)
  case (2 input output_size out ri wi x2 y out1 z ri1 w wi1 code out2)
  then have run: "encode_run input output_size out ri (wi + 1) 1 = Inr (Inr (out1, ri1, wi1, code))" by simp
  from encode_run_progress [OF run] 2(1) show ?case
    by (cases "ri = ri1") auto
qed simp

declare encode_loop.simps [simp del]

definition u_cobs_encode :: "8 word list \<Rightarrow> 8 word list \<Rightarrow> nat \<Rightarrow> fault + 8 word list \<times> int" where
  "u_cobs_encode input out output_size =
     (if length input + 1 > output_size then Inr (out, - ENOSPC)
      else try_bind (c_assert (output_size > length input)) (\<lambda>_. encode_loop input output_size out 0 0))"

section \<open>The encoding of a packet\<close>

text \<open>
  A packet as its zero-free segments: \<open>packet_of\<close> joins them with zero bytes, \<open>frame_of\<close> is what goes
  over the wire before the delimiter.
\<close>

fun packet_of :: "8 word list list \<Rightarrow> 8 word list" where
  "packet_of [] = []"
| "packet_of [seg] = seg"
| "packet_of (seg # segs) = seg @ 0 # packet_of segs"

definition frame_of :: "8 word list list \<Rightarrow> 8 word list" where
  "frame_of segs = concat (map (\<lambda>seg. of_nat (length seg + 1) # seg) segs)"

definition zero_free :: "8 word list \<Rightarrow> bool" where
  "zero_free seg \<longleftrightarrow> 0 \<notin> set seg \<and> length seg \<le> 254"

text \<open>The packets the encoding preserves.\<close>

definition framable :: "8 word list list \<Rightarrow> bool" where
  "framable segs \<longleftrightarrow> segs \<noteq> [] \<and> (\<forall>seg \<in> set segs. zero_free seg) \<and> hd segs \<noteq> [] \<and> last segs \<noteq> []"

lemma packet_of_Cons: "segs \<noteq> [] \<Longrightarrow> packet_of (seg # segs) = seg @ 0 # packet_of segs"
  by (cases segs) auto

lemma frame_of_Cons: "frame_of (seg # segs) = of_nat (length seg + 1) # seg @ frame_of segs"
  by (simp add: frame_of_def)

lemma frame_of_Nil [simp]: "frame_of [] = []"
  by (simp add: frame_of_def)

lemma length_frame_of: "segs \<noteq> [] \<Longrightarrow> length (frame_of segs) = length (packet_of segs) + 1"
proof (induction segs)
  case (Cons seg segs)
  then show ?case by (cases "segs = []") (simp_all add: frame_of_Cons packet_of_Cons)
qed simp

lemma code_nat: "n \<le> 254 \<Longrightarrow> unat (of_nat (n + 1) :: 8 word) = n + 1"
  by (simp add: unat_of_nat del: of_nat_add of_nat_Suc)

lemma code_less: "n < 254 \<Longrightarrow> (of_nat (n + 1) :: 8 word) < 0xFF"
  using code_nat [of n] by (simp add: word_less_nat_alt)

section \<open>What the encoder writes\<close>

definition put :: "'a list \<Rightarrow> nat \<Rightarrow> 'a list \<Rightarrow> 'a list" where
  "put out i xs = take i out @ xs @ drop (i + length xs) out"

lemma put_Nil [simp]: "put out i [] = out"
  by (simp add: put_def)

lemma length_put [simp]: "i + length xs \<le> length out \<Longrightarrow> length (put out i xs) = length out"
  by (simp add: put_def)

lemma put_Cons: "i + length (x # xs) \<le> length out \<Longrightarrow> put (out[i := x]) (i + 1) xs = put out i (x # xs)"
  by (simp add: put_def take_Suc_conv_app_nth)

lemma put_before: "0 < i \<Longrightarrow> i + length xs \<le> length out \<Longrightarrow>
    (put out i xs)[i - 1 := x] = put out (i - 1) (x # xs)"
  by (cases i) (simp_all add: put_def take_Suc_conv_app_nth list_update_append)

lemma put_append: "i + length xs + length ys \<le> length out \<Longrightarrow>
    put (put out i xs) (i + length xs) ys = put out i (xs @ ys)"
  by (simp add: put_def ac_simps)

lemma put_single: "i < length out \<Longrightarrow> put out i [x] = out[i := x]"
  by (simp add: put_def upd_conv_take_nth_drop)

lemma encode_run_segment:
  assumes "0 \<notin> set seg" and "n + length seg \<le> 254" and "post = [] \<or> hd post = 0 \<or> n + length seg = 254"
    and "wi + length seg \<le> output_size" and "output_size \<le> length out"
  shows "encode_run (pre @ seg @ post) output_size out (length pre) wi (of_nat (n + 1)) =
    Inr (Inr (put out wi seg, length pre + length seg, wi + length seg, of_nat (n + length seg + 1)))"
  using assms
proof (induction seg arbitrary: pre out wi n)
  case Nil
  have "n = 254 \<Longrightarrow> \<not> (of_nat (n + 1) :: 8 word) < 0xFF" by simp
  with Nil show ?case by (cases post) (subst encode_run.simps, auto simp: nth_append)+
next
  case (Cons x seg)
  have "n < 254" using Cons.prems(2) by simp
  with code_less have lt: "(of_nat (n + 1) :: 8 word) < 0xFF" by blast
  have "encode_run (pre @ (x # seg) @ post) output_size out (length pre) wi (of_nat (n + 1))
      = encode_run (pre @ (x # seg) @ post) output_size (out[wi := x]) (length pre + 1) (wi + 1) (of_nat (n + 1) + 1)"
    using Cons.prems lt by (subst encode_run.simps) (auto simp: nth_append)
  also have "\<dots> = encode_run ((pre @ [x]) @ seg @ post) output_size (out[wi := x]) (length (pre @ [x])) (wi + 1)
      (of_nat (Suc n + 1))"
    by (simp add: algebra_simps)
  also have "\<dots> = Inr (Inr (put (out[wi := x]) (wi + 1) seg, length (pre @ [x]) + length seg, wi + 1 + length seg,
      of_nat (Suc n + length seg + 1)))"
    by (rule Cons.IH) (use Cons.prems in auto)
  finally show ?case
    using Cons.prems put_Cons [of wi x seg out] by simp
qed

text \<open>One pass of the outer loop.\<close>

lemma encode_loop_step:
  assumes "ri < length input" and "wi < length out1"
    and "encode_run input output_size out ri (wi + 1) 1 = Inr (Inr (out1, ri1, wi1, code))"
  shows "encode_loop input output_size out ri wi = encode_loop input output_size (out1[wi := code])
    (if ri1 < length input \<and> input ! ri1 = 0 then ri1 + 1 else ri1) wi1"
  using assms by (subst encode_loop.simps) simp

lemma encode_loop_segment:
  assumes "zero_free seg" and "seg @ post \<noteq> []" and "post = [] \<or> hd post = 0 \<or> length seg = 254"
    and "wi + 1 + length seg \<le> output_size" and "output_size \<le> length out"
  shows "encode_loop (pre @ seg @ post) output_size out (length pre) wi =
    encode_loop (pre @ seg @ post) output_size (put out wi (of_nat (length seg + 1) # seg))
      (length pre + length seg + (if post \<noteq> [] \<and> hd post = 0 then 1 else 0)) (wi + 1 + length seg)"
proof -
  have run: "encode_run (pre @ seg @ post) output_size out (length pre) (wi + 1) 1 =
      Inr (Inr (put out (wi + 1) seg, length pre + length seg, wi + 1 + length seg, of_nat (length seg + 1)))"
    using encode_run_segment [of seg 0 post "wi + 1" output_size out pre] assms by (simp add: zero_free_def)
  have "(put out (wi + 1) seg)[wi := of_nat (length seg + 1)] = put out wi (of_nat (length seg + 1) # seg)"
    using put_before [of "wi + 1" seg out "of_nat (length seg + 1)"] assms by simp
  moreover have "(length pre + length seg < length (pre @ seg @ post)
      \<and> (pre @ seg @ post) ! (length pre + length seg) = 0) \<longleftrightarrow> post \<noteq> [] \<and> hd post = 0"
    by (cases post) (auto simp: nth_append)
  moreover have "length pre < length (pre @ seg @ post)" using assms(2) by simp
  moreover have "wi < length (put out (wi + 1) seg)" using assms(4,5) by simp
  ultimately show ?thesis
    by (subst encode_loop_step [OF _ _ run]) (simp_all only: if_not_P split: if_split, simp_all)
qed

lemma encode_loop_frame:
  assumes "segs \<noteq> []" and "\<forall>seg \<in> set segs. zero_free seg" and "last segs \<noteq> []"
    and "wi + length (frame_of segs) < output_size" and "output_size \<le> length out"
  shows "encode_loop (pre @ packet_of segs) output_size out (length pre) wi =
    Inr (put out wi (frame_of segs @ [0]), int (wi + length (frame_of segs) + 1))"
  using assms
proof (induction segs arbitrary: pre out wi)
  case Nil
  then show ?case by simp
next
  case (Cons seg segs)
  have z: "zero_free seg" using Cons.prems(2) by simp
  have len: "wi + 1 + length seg \<le> output_size" using Cons.prems(4) by (simp add: frame_of_Cons)
  show ?case
  proof (cases "segs = []")
    case True
    with Cons.prems(3) have ne: "seg \<noteq> []" by simp
    have "encode_loop (pre @ seg) output_size out (length pre) wi =
        encode_loop (pre @ seg) output_size (put out wi (of_nat (length seg + 1) # seg)) (length pre + length seg) (wi + 1 + length seg)"
      using encode_loop_segment [OF z _ _ len Cons.prems(5), of "[]" pre] ne by simp
    also have "\<dots> = Inr ((put out wi (of_nat (length seg + 1) # seg))[wi + 1 + length seg := 0], int (wi + 1 + length seg + 1))"
      using Cons.prems(4,5) True
      by (subst encode_loop.simps) (simp add: frame_of_Cons PACKET_DELIMITER_def)
    also have "(put out wi (of_nat (length seg + 1) # seg))[wi + 1 + length seg := 0] = put out wi (frame_of [seg] @ [0])"
      using put_append [of wi "of_nat (length seg + 1) # seg" "[0]" out] Cons.prems(4,5) True
        put_single [of "wi + 1 + length seg" "put out wi (of_nat (length seg + 1) # seg)" 0]
      by (simp add: frame_of_Cons)
    finally show ?thesis using True by (simp add: frame_of_Cons)
  next
    case False
    let ?out = "put out wi (of_nat (length seg + 1) # seg)"
    have pk: "packet_of (seg # segs) = seg @ 0 # packet_of segs" using False by (rule packet_of_Cons)
    have "encode_loop (pre @ packet_of (seg # segs)) output_size out (length pre) wi
        = encode_loop (pre @ seg @ 0 # packet_of segs) output_size ?out (length pre + length seg + 1) (wi + 1 + length seg)"
      using encode_loop_segment [OF z _ _ len Cons.prems(5), of "0 # packet_of segs" pre] pk by simp
    also have "\<dots> = encode_loop ((pre @ seg @ [0]) @ packet_of segs) output_size ?out (length (pre @ seg @ [0])) (wi + 1 + length seg)"
      by (simp add: algebra_simps)
    also have "\<dots> = Inr (put ?out (wi + 1 + length seg) (frame_of segs @ [0]), int (wi + 1 + length seg + length (frame_of segs) + 1))"
      by (rule Cons.IH) (use Cons.prems False len in \<open>auto simp: frame_of_Cons\<close>)
    also have "put ?out (wi + 1 + length seg) (frame_of segs @ [0]) = put out wi (frame_of (seg # segs) @ [0])"
      using put_append [of wi "of_nat (length seg + 1) # seg" "frame_of segs @ [0]" out] Cons.prems(4,5)
      by (simp add: frame_of_Cons)
    finally show ?thesis by (simp add: frame_of_Cons)
  qed
qed

lemma encode_frame:
  assumes "framable segs" and "length (packet_of segs) + 2 \<le> length out"
  shows "u_cobs_encode (packet_of segs) out (length out)
    = Inr (put out 0 (frame_of segs @ [0]), int (length (packet_of segs) + 2))"
proof -
  have "encode_loop ([] @ packet_of segs) (length out) out (length ([] :: 8 word list)) 0 =
      Inr (put out 0 (frame_of segs @ [0]), int (0 + length (frame_of segs) + 1))"
    using assms length_frame_of [of segs] by (intro encode_loop_frame) (auto simp: framable_def)
  with assms length_frame_of [of segs] show ?thesis
    by (simp add: u_cobs_encode_def framable_def)
qed

section \<open>What the decoder reads\<close>

lemma recover_loop_fails: "byte \<noteq> PACKET_DELIMITER \<Longrightarrow> recover_loop byte data d = (d, [])"
  by (induction data) auto

text \<open>The decoder is inside a packet and has \<open>acc\<close> of it.\<close>

definition holding :: "u_cobs_decoder \<Rightarrow> 8 word list \<Rightarrow> bool" where
  "holding d acc \<longleftrightarrow> cd_read_bytes d = length acc \<and> length acc \<le> cd_buffer_size d
     \<and> length (cd_buffer d) = cd_buffer_size d \<and> take (length acc) (cd_buffer d) = acc
     \<and> \<not> cd_error_recovery d"

definition idle :: "u_cobs_decoder \<Rightarrow> bool" where
  "idle d \<longleftrightarrow> holding d [] \<and> cd_bytes_until_next_code d = 0"

lemma created_idle: "u_cobs_decoder_create n True = (0, Some d) \<Longrightarrow> idle d \<and> cd_buffer_size d = n \<and> cd_packets d = []"
  by (auto simp: u_cobs_decoder_create_def idle_def holding_def)

lemma holding_snoc:
  assumes "holding d acc" and "length acc < cd_buffer_size d"
  shows "holding (d\<lparr>cd_buffer := (cd_buffer d)[length acc := x], cd_read_bytes := length acc + 1,
    cd_bytes_until_next_code := b\<rparr>) (acc @ [x])"
  using assms by (simp add: holding_def take_Suc_conv_app_nth)

definition frozen :: "u_cobs_decoder \<Rightarrow> u_cobs_decoder \<Rightarrow> bool" where
  "frozen d d' \<longleftrightarrow> cd_packets d' = cd_packets d \<and> cd_buffer_size d' = cd_buffer_size d"

lemma push_data_bytes:
  assumes "holding d acc" and "0 \<notin> set seg" and "length seg \<le> cd_bytes_until_next_code d"
    and "length acc + length seg \<le> cd_buffer_size d"
  shows "\<exists>d'. u_cobs_push_bytes d (seg @ rest) = u_cobs_push_bytes d' rest \<and> holding d' (acc @ seg)
    \<and> cd_bytes_until_next_code d' = cd_bytes_until_next_code d - length seg \<and> frozen d d'"
  using assms
proof (induction seg arbitrary: d acc)
  case Nil
  then show ?case by (intro exI [of _ d]) (simp add: frozen_def)
next
  case (Cons x seg)
  define d1 where "d1 = d\<lparr>cd_buffer := (cd_buffer d)[length acc := x], cd_read_bytes := length acc + 1,
    cd_bytes_until_next_code := cd_bytes_until_next_code d - 1\<rparr>"
  have lt: "length acc < cd_buffer_size d" using Cons.prems(4) by simp
  have st: "store_byte x d = Inr d1"
    using Cons.prems(1,3) lt by (auto simp: store_byte_def holding_def d1_def)
  have push: "u_cobs_push_bytes d ((x # seg) @ rest) = u_cobs_push_bytes d1 (seg @ rest)"
    using Cons.prems(1,2) lt st by (auto simp: holding_def PACKET_DELIMITER_def)
  have h1: "holding d1 (acc @ [x])" unfolding d1_def by (rule holding_snoc [OF Cons.prems(1) lt])
  have "\<exists>d'. u_cobs_push_bytes d1 (seg @ rest) = u_cobs_push_bytes d' rest \<and> holding d' ((acc @ [x]) @ seg)
      \<and> cd_bytes_until_next_code d' = cd_bytes_until_next_code d1 - length seg \<and> frozen d1 d'"
    by (rule Cons.IH [OF h1]) (use Cons.prems in \<open>auto simp: d1_def\<close>)
  then show ?case unfolding push by (auto simp: d1_def frozen_def)
qed

lemma push_code:
  assumes "holding d acc" and "cd_bytes_until_next_code d = 0" and "n \<le> 254" and "length acc < cd_buffer_size d"
  shows "\<exists>d'. u_cobs_push_bytes d (of_nat (n + 1) # rest) = u_cobs_push_bytes d' rest
    \<and> holding d' (if acc = [] then [] else acc @ [0]) \<and> cd_bytes_until_next_code d' = n \<and> frozen d d'"
proof -
  let ?b = "of_nat (n + 1) :: 8 word"
  have u: "unat ?b = n + 1" using assms(3) by (rule code_nat)
  then have nz: "?b \<noteq> PACKET_DELIMITER" by (metis PACKET_DELIMITER_def add_is_0 unat_0 zero_neq_one)
  define d1 where "d1 = (if acc = [] then d\<lparr>cd_bytes_until_next_code := n\<rparr>
    else d\<lparr>cd_buffer := (cd_buffer d)[length acc := 0], cd_read_bytes := length acc + 1, cd_bytes_until_next_code := n\<rparr>)"
  have "store_byte ?b d = Inr d1"
    using assms u by (auto simp: store_byte_def holding_def d1_def Let_def simp del: of_nat_add of_nat_Suc)
  with assms nz have "u_cobs_push_bytes d (?b # rest) = u_cobs_push_bytes d1 rest"
    by (simp add: holding_def del: of_nat_add of_nat_Suc)
  moreover have "holding d1 (if acc = [] then [] else acc @ [0])"
  proof (cases "acc = []")
    case True
    then show ?thesis using assms(1) by (simp add: d1_def holding_def)
  next
    case False
    then show ?thesis using holding_snoc [OF assms(1,4), where x = 0 and b = n] by (simp add: d1_def)
  qed
  ultimately show ?thesis
    by (intro exI [of _ d1]) (simp add: d1_def frozen_def)
qed

definition joined :: "8 word list \<Rightarrow> 8 word list \<Rightarrow> 8 word list" where
  "joined acc p = (if acc = [] then p else acc @ 0 # p)"

lemma push_segment:
  assumes "holding d acc" and "cd_bytes_until_next_code d = 0" and "zero_free seg"
    and "acc \<noteq> [] \<or> seg \<noteq> []" and "length (joined acc seg) \<le> cd_buffer_size d"
  shows "\<exists>d'. u_cobs_push_bytes d (of_nat (length seg + 1) # seg @ rest) = u_cobs_push_bytes d' rest
    \<and> holding d' (joined acc seg) \<and> cd_bytes_until_next_code d' = 0 \<and> frozen d d'"
proof -
  have "length acc < cd_buffer_size d"
    using assms(4,5) by (cases seg) (auto simp: joined_def split: if_splits)
  moreover have "length seg \<le> 254" using assms(3) by (simp add: zero_free_def)
  ultimately obtain d1 where d1: "u_cobs_push_bytes d (of_nat (length seg + 1) # seg @ rest) = u_cobs_push_bytes d1 (seg @ rest)"
    "holding d1 (if acc = [] then [] else acc @ [0])" "cd_bytes_until_next_code d1 = length seg" "frozen d d1"
    using push_code [OF assms(1,2)] by blast
  have "\<exists>d'. u_cobs_push_bytes d1 (seg @ rest) = u_cobs_push_bytes d' rest
    \<and> holding d' ((if acc = [] then [] else acc @ [0]) @ seg)
    \<and> cd_bytes_until_next_code d' = cd_bytes_until_next_code d1 - length seg \<and> frozen d1 d'"
    by (rule push_data_bytes [OF d1(2)]) (use assms d1 in \<open>auto simp: zero_free_def joined_def frozen_def split: if_splits\<close>)
  with d1 show ?thesis by (auto simp: joined_def frozen_def)
qed

lemma push_frame:
  assumes "holding d acc" and "cd_bytes_until_next_code d = 0" and "segs \<noteq> []"
    and "\<forall>seg \<in> set segs. zero_free seg" and "acc \<noteq> [] \<or> hd segs \<noteq> []"
    and "length (joined acc (packet_of segs)) \<le> cd_buffer_size d"
  shows "\<exists>d'. u_cobs_push_bytes d (frame_of segs @ rest) = u_cobs_push_bytes d' rest
    \<and> holding d' (joined acc (packet_of segs)) \<and> cd_bytes_until_next_code d' = 0 \<and> frozen d d'"
  using assms
proof (induction segs arbitrary: d acc)
  case Nil
  then show ?case by simp
next
  case (Cons seg segs)
  have z: "zero_free seg" "acc \<noteq> [] \<or> seg \<noteq> []" using Cons.prems by auto
  have len: "length (joined acc seg) \<le> cd_buffer_size d"
    using Cons.prems(6) by (cases "segs = []") (auto simp: joined_def packet_of_Cons split: if_splits)
  obtain d1 where d1: "u_cobs_push_bytes d (frame_of (seg # segs) @ rest) = u_cobs_push_bytes d1 (frame_of segs @ rest)"
    "holding d1 (joined acc seg)" "cd_bytes_until_next_code d1 = 0" "frozen d d1"
    using push_segment [OF Cons.prems(1,2) z len, of "frame_of segs @ rest"] by (auto simp: frame_of_Cons)
  show ?case
  proof (cases "segs = []")
    case True
    with d1 show ?thesis by auto
  next
    case False
    have j: "joined (joined acc seg) (packet_of segs) = joined acc (packet_of (seg # segs))"
      using False z(2) by (auto simp: joined_def packet_of_Cons)
    have "joined acc seg \<noteq> []" using z(2) by (auto simp: joined_def)
    then have "\<exists>d'. u_cobs_push_bytes d1 (frame_of segs @ rest) = u_cobs_push_bytes d' rest
      \<and> holding d' (joined (joined acc seg) (packet_of segs)) \<and> cd_bytes_until_next_code d' = 0 \<and> frozen d1 d'"
      by (intro Cons.IH [OF d1(2,3) False]) (use Cons.prems d1(4) j in \<open>auto simp: frozen_def\<close>)
    with d1 j show ?thesis by (auto simp: frozen_def)
  qed
qed

text \<open>A whole packet with its delimiter.\<close>

definition wire :: "8 word list list \<Rightarrow> 8 word list" where
  "wire segs = frame_of segs @ [0]"

lemma packet_of_not_Nil: "segs \<noteq> [] \<Longrightarrow> hd segs \<noteq> [] \<Longrightarrow> packet_of segs \<noteq> []"
  by (cases segs rule: packet_of.cases) auto

lemma push_wire:
  assumes "idle d" and "framable segs" and "length (packet_of segs) \<le> cd_buffer_size d"
  shows "\<exists>d'. u_cobs_push_bytes d (wire segs @ rest) = u_cobs_push_bytes d' rest
    \<and> idle d' \<and> cd_packets d' = cd_packets d @ [packet_of segs] \<and> cd_buffer_size d' = cd_buffer_size d"
proof -
  from assms obtain d1 where d1: "u_cobs_push_bytes d (frame_of segs @ 0 # rest) = u_cobs_push_bytes d1 (0 # rest)"
    "holding d1 (packet_of segs)" "cd_bytes_until_next_code d1 = 0" "frozen d d1"
    using push_frame [of d "[]" segs "0 # rest"] by (auto simp: idle_def framable_def joined_def)
  have ne: "packet_of segs \<noteq> []" using assms(2) packet_of_not_Nil by (auto simp: framable_def)
  let ?d2 = "d1\<lparr>cd_packets := cd_packets d1 @ [packet_of segs], cd_read_bytes := 0\<rparr>"
  have "u_cobs_push_bytes d1 (0 # rest) = u_cobs_push_bytes ?d2 rest"
    using d1(2,3) ne by (simp add: holding_def PACKET_DELIMITER_def)
  moreover have "idle ?d2" using d1(2,3) by (simp add: idle_def holding_def)
  ultimately show ?thesis
    using d1(1,4) by (intro exI [of _ ?d2]) (simp add: wire_def frozen_def)
qed

lemma push_wires:
  assumes "idle d" and "\<forall>segs \<in> set packets. framable segs \<and> length (packet_of segs) \<le> cd_buffer_size d"
  shows "\<exists>d'. u_cobs_push_bytes d (concat (map wire packets)) = Inr (d', 0)
    \<and> idle d' \<and> cd_packets d' = cd_packets d @ map packet_of packets"
  using assms
proof (induction packets arbitrary: d)
  case (Cons segs packets)
  from push_wire [OF Cons.prems(1), of segs "concat (map wire packets)"] Cons.prems(2) obtain d1 where
    "u_cobs_push_bytes d (concat (map wire (segs # packets))) = u_cobs_push_bytes d1 (concat (map wire packets))"
    "idle d1" "cd_packets d1 = cd_packets d @ [packet_of segs]" "cd_buffer_size d1 = cd_buffer_size d" by auto
  with Cons.IH [of d1] Cons.prems(2) show ?case by auto
qed simp

section \<open>Streams\<close>

text \<open>Reads from the serial port: one \<^verbatim>\<open>u_cobs_push_bytes\<close> per chunk, until one fails.\<close>

primrec push_chunks :: "u_cobs_decoder \<Rightarrow> 8 word list list \<Rightarrow> fault + u_cobs_decoder \<times> int" where
  "push_chunks d [] = Inr (d, 0)"
| "push_chunks d (c # cs) = try_bind (u_cobs_push_bytes d c) (\<lambda>(d', r).
     if r = 0 then push_chunks d' cs else Inr (d', r))"

lemma push_append:
  "u_cobs_push_bytes d (xs @ ys) = Inr (d2, 0) \<Longrightarrow>
     \<exists>d1. u_cobs_push_bytes d xs = Inr (d1, 0) \<and> u_cobs_push_bytes d1 ys = Inr (d2, 0)"
proof (induction d xs rule: u_cobs_push_bytes.induct)
  case (2 d byte data)
  show ?case
  proof (cases "byte = PACKET_DELIMITER")
    case True
    with 2 show ?thesis by (auto simp: EINVAL_def split: if_splits)
  next
    case False
    then show ?thesis
    proof (cases "cd_error_recovery d")
      case True
      with 2 False show ?thesis by simp
    next
      case nrec: False
      with 2(7) False have "\<not> cd_buffer_size d \<le> cd_read_bytes d"
        by (auto simp: recover_loop_fails ENOSPC_def)
      with 2 False nrec show ?thesis by (auto simp: try_simps)
    qed
  qed
qed simp

lemma push_chunks_concat:
  "u_cobs_push_bytes d (concat chunks) = Inr (d', 0) \<Longrightarrow> push_chunks d chunks = Inr (d', 0)"
proof (induction chunks arbitrary: d)
  case (Cons c chunks)
  then show ?case using push_append [of d c "concat chunks" d'] by auto
qed simp

section \<open>Properties\<close>

text \<open>What is written to the wire for a packet: the bytes the encoder reports, out of a buffer \<open>out\<close>.\<close>

definition sent :: "8 word list \<Rightarrow> 8 word list \<Rightarrow> fault + 8 word list" where
  "sent packet out = try_bind (u_cobs_encode packet out (length out)) (\<lambda>(out', n).
     if n < 0 then Inr [] else Inr (take (nat n) out'))"

primrec sent_all :: "8 word list list \<Rightarrow> 8 word list \<Rightarrow> fault + 8 word list" where
  "sent_all [] out = Inr []"
| "sent_all (p # ps) out = try_bind (sent p out) (\<lambda>xs. try_bind (sent_all ps out) (\<lambda>ys. Inr (xs @ ys)))"

lemma sent_wire:
  assumes "framable segs" and "length (packet_of segs) + 2 \<le> length out"
  shows "sent (packet_of segs) out = Inr (wire segs)"
proof -
  have "segs \<noteq> []" using assms(1) by (simp add: framable_def)
  from length_frame_of [OF this] show ?thesis
    using encode_frame [OF assms] assms(2) by (simp add: sent_def wire_def put_def nat_add_distrib)
qed

lemma sent_all_wires:
  "\<forall>segs \<in> set packets. framable segs \<and> length (packet_of segs) + 2 \<le> length out \<Longrightarrow>
     sent_all (map packet_of packets) out = Inr (concat (map wire packets))"
  by (induction packets) (auto simp: sent_wire)



text \<open>C37.
  Loss of synchronisation. A packet cut short by its delimiter is reported as invalid, but the
  decoder keeps the number of bytes that were missing: the next frame is taken for
  those bytes, code bytes included. A valid one-segment packet behind a truncated one is therefore lost
  with a second error if it is shorter than what was missing, and delivered with its code
  byte as its first byte if it is as long.\<close>
theorem cobs_truncation_corrupts:
  assumes "idle d" and "zero_free t" and "zero_free s" and "n \<le> 254" and "n \<le> cd_buffer_size d"
    and "length t + length s + 1 \<le> n"
  shows "\<exists>d1 d2. u_cobs_push_bytes d (of_nat (n + 1) # t @ [0]) = Inr (d1, - EINVAL)
    \<and> (if length t + length s + 1 < n
       then u_cobs_push_bytes d1 (wire [s]) = Inr (d2, - EINVAL) \<and> cd_packets d2 = cd_packets d
       else u_cobs_push_bytes d1 (wire [s]) = Inr (d2, 0) \<and> cd_packets d2 = cd_packets d @ [frame_of [s]])"
proof -
  have h: "holding d []" "cd_bytes_until_next_code d = 0" using assms(1) by (simp_all add: idle_def)
  from push_code [OF h assms(4), of "t @ [0]"] assms(5,6) obtain da where
    da: "u_cobs_push_bytes d (of_nat (n + 1) # t @ [0]) = u_cobs_push_bytes da (t @ [0])"
      "holding da []" "cd_bytes_until_next_code da = n" "frozen d da" by auto
  from push_data_bytes [OF da(2), of t "[0]"] da(3,4) assms(2,5,6) obtain db where
    db: "u_cobs_push_bytes da (t @ [0]) = u_cobs_push_bytes db [0]" "holding db t"
      "cd_bytes_until_next_code db = n - length t" "frozen da db"
    by (auto simp: zero_free_def frozen_def)
  let ?d1 = "db\<lparr>cd_read_bytes := 0\<rparr>"
  have d1: "u_cobs_push_bytes db [0] = Inr (?d1, - EINVAL)"
    using db(2,3) assms(6) by (simp add: holding_def PACKET_DELIMITER_def)
  have h1: "holding ?d1 []" using db(2) by (simp add: holding_def)
  have nz: "0 \<notin> set (frame_of [s])"
    using assms(3) code_nat [of "length s"] by (auto simp: frame_of_def zero_free_def simp del: of_nat_add of_nat_Suc) 
  have lf: "length (frame_of [s]) = length s + 1" by (simp add: frame_of_def)
  have "\<exists>dc. u_cobs_push_bytes ?d1 (frame_of [s] @ [0]) = u_cobs_push_bytes dc [0] \<and> holding dc ([] @ frame_of [s])
      \<and> cd_bytes_until_next_code dc = cd_bytes_until_next_code ?d1 - length (frame_of [s]) \<and> frozen ?d1 dc"
    by (rule push_data_bytes [OF h1 nz]) (use lf db(3,4) da(4) assms(5,6) in \<open>auto simp: frozen_def\<close>)
  then obtain dc where
    dc: "u_cobs_push_bytes ?d1 (wire [s]) = u_cobs_push_bytes dc [0]" "holding dc (frame_of [s])"
      "cd_bytes_until_next_code dc = n - length t - (length s + 1)" "frozen ?d1 dc"
    unfolding wire_def append_Nil lf using db(3) by auto
  have p: "cd_packets dc = cd_packets d" using dc(4) db(4) da(4) by (simp add: frozen_def)
  show ?thesis
  proof (cases "length t + length s + 1 < n")
    case True
    then have "u_cobs_push_bytes dc [0] = Inr (dc\<lparr>cd_read_bytes := 0\<rparr>, - EINVAL)"
      using dc(2,3) by (simp add: holding_def PACKET_DELIMITER_def)
    with True da(1) db(1) d1 dc(1) p show ?thesis
      by (intro exI [of _ ?d1] exI [of _ "dc\<lparr>cd_read_bytes := 0\<rparr>"]) simp
  next
    case False
    let ?d2 = "dc\<lparr>cd_packets := cd_packets dc @ [frame_of [s]], cd_read_bytes := 0\<rparr>"
    have "u_cobs_push_bytes dc [0] = Inr (?d2, 0)"
      using False dc(2,3) by (simp add: holding_def PACKET_DELIMITER_def frame_of_def)
    with False da(1) db(1) d1 dc(1) p show ?thesis
      by (intro exI [of _ ?d1] exI [of _ ?d2]) simp
  qed
qed

theorem cobs_truncation_corrupts_witness:
  "\<exists>d d1 d2. idle d \<and> u_cobs_push_bytes d [4, 0] = Inr (d1, - EINVAL)
    \<and> u_cobs_push_bytes d1 [3, 8, 9, 0] = Inr (d2, 0) \<and> cd_packets d2 = [[3, 8, 9]]"
proof -
  obtain d where d: "u_cobs_decoder_create 4 True = (0, Some d)"
    by (simp add: u_cobs_decoder_create_def)
  have i: "idle d" "cd_buffer_size d = 4" "cd_packets d = []" using created_idle [OF d] by simp_all
  have e: "of_nat (3 + 1) # [] @ [0] = [4, 0 :: 8 word]" "wire [[8, 9]] = [3, 8, 9, 0]" "frame_of [[8, 9]] = [3, 8, 9]"
    by (simp_all add: wire_def frame_of_def)
  have "\<exists>d1 d2. u_cobs_push_bytes d (of_nat (3 + 1) # [] @ [0]) = Inr (d1, - EINVAL)
    \<and> (if length ([] :: 8 word list) + length [8, 9 :: 8 word] + 1 < 3
       then u_cobs_push_bytes d1 (wire [[8, 9]]) = Inr (d2, - EINVAL) \<and> cd_packets d2 = cd_packets d
       else u_cobs_push_bytes d1 (wire [[8, 9]]) = Inr (d2, 0) \<and> cd_packets d2 = cd_packets d @ [frame_of [[8, 9]]])"
    by (rule cobs_truncation_corrupts [OF i(1)]) (simp_all add: i zero_free_def)
  then show ?thesis
    unfolding e i(3) append_Nil using i(1) by (simp del: u_cobs_push_bytes.simps) blast
qed

text \<open>An unchecked write. The encoder checks the space for data bytes but not for the code byte of a
  group: on two full groups of 254 bytes, a third short one and two zeros, with an output buffer of exactly
  the size that passes its initial test, it writes the last code byte behind the buffer.\<close>
lemma cobs_encode_overflow:
  assumes "0 \<notin> set a" and "0 \<notin> set b" and "length a = 254" and "length b = 254" and "c \<noteq> 0" and "length out = 512"
  shows "length (a @ b @ [c, 0, 0]) + 1 = length out \<and> u_cobs_encode (a @ b @ [c, 0, 0]) out (length out) = Inl OutOfBounds"
proof -
  let ?input = "a @ b @ [c, 0, 0]"
  have hb: "hd (b @ [c, 0, 0]) \<noteq> 0" using assms(2,4) by (cases b) auto
  have z: "zero_free a" "zero_free b" "zero_free [c]" using assms by (simp_all add: zero_free_def)
  define out1 where "out1 = put out 0 (of_nat (length a + 1) # a)"
  define out2 where "out2 = put out1 255 (of_nat (length b + 1) # b)"
  define out3 where "out3 = put out2 510 (of_nat (length [c] + 1) # [c])"
  have l1: "length out1 = 512" using assms by (simp add: out1_def)
  have l2: "length out2 = 512" using assms l1 by (simp add: out2_def)
  have l3: "length out3 = 512" using l2 by (simp add: out3_def)
  have s1: "encode_loop ?input 512 out 0 0 = encode_loop ?input 512 out1 254 255"
    using encode_loop_segment [OF z(1), of "b @ [c, 0, 0]" 0 512 out "[]", folded out1_def] assms hb by simp
  have s2: "encode_loop ?input 512 out1 254 255 = encode_loop ?input 512 out2 508 510"
    using encode_loop_segment [OF z(2), of "[c, 0, 0]" 255 512 out1 a, folded out2_def] assms l1 by simp
  have s3: "encode_loop ?input 512 out2 508 510 = encode_loop ?input 512 out3 510 512"
    using encode_loop_segment [OF z(3), of "[0, 0]" 510 512 out2 "a @ b", folded out3_def] assms l2 by simp
  have nth: "?input ! 510 = 0" using assms by (simp add: nth_append)
  have "encode_run ?input 512 out3 510 (512 + 1) 1 = Inr (Inr (out3, 510, 513, 1))"
    using nth by (subst encode_run.simps) simp
  then have "encode_loop ?input 512 out3 510 512 = Inl OutOfBounds"
    using assms l3 by (subst encode_loop.simps) (simp add: arr_set_def)
  with s1 s2 s3 assms show ?thesis by (simp add: u_cobs_encode_def)
qed

end
