(* ===== verification/Session_Events.thy ===== *)
theory Session_Events
  imports Session
begin

text \<open>
  The event list of a session of the base implementation, \<^verbatim>\<open>base/b_session.[ch]\<close>: a singly linked
  list with only a head pointer, appended to by walking to its end. It is a second provider of the
  contract \<open>fifo\<close>. The mutex is held for the whole of each function; the cells of a
  session are a heap of their own, whose addresses are what \<^verbatim>\<open>calloc\<close> returned. The loops that follow the
  links are partial functions: on a cyclic list they have no result.
\<close>

section \<open>State\<close>

record b_session_event =
  be_xse :: xrt_session_event
  be_next :: "addr option"

record b_events =
  bv_heap :: "addr \<Rightarrow> b_session_event option"
  bv_ptr :: "addr option"

definition no_events :: b_events where
  "no_events = \<lparr>bv_heap = (\<lambda>_. None), bv_ptr = None\<rparr>"

definition returns :: "(fault + 'a) option \<Rightarrow> fault + 'a" where
  "returns r = (case r of None \<Rightarrow> Inl OutOfFuel | Some x \<Rightarrow> x)"

lemma returns_Some [simp]: "returns (Some x) = x"
  by (simp add: returns_def)

section \<open>Operations\<close>

text \<open>The loop that finds the last slot, from a cell: the last cell.\<close>

partial_function (option) last_cell :: "(addr \<Rightarrow> b_session_event option) \<Rightarrow> addr \<Rightarrow> (fault + addr) option" where
  "last_cell h a = (case h a of
      None \<Rightarrow> Some (Inl UseAfterFree)
    | Some c \<Rightarrow> (case be_next c of None \<Rightarrow> Some (Inr a) | Some b \<Rightarrow> last_cell h b))"

declare last_cell.simps [code]

definition b_session_event_push :: "b_events \<Rightarrow> addr option \<Rightarrow> xrt_session_event \<Rightarrow> fault + b_events" where
  "b_session_event_push bv mem xse = (case mem of
      None \<Rightarrow> Inl NullDeref
    | Some use \<Rightarrow>
        let h = (bv_heap bv)(use \<mapsto> \<lparr>be_xse = xse, be_next = None\<rparr>)
        in (case bv_ptr bv of
              None \<Rightarrow> Inr (bv\<lparr>bv_heap := h, bv_ptr := Some use\<rparr>)
            | Some first \<Rightarrow>
                try_bind (returns (last_cell h first)) (\<lambda>l.
                try_bind (deref h l) (\<lambda>c.
                  Inr (bv\<lparr>bv_heap := h(l \<mapsto> c\<lparr>be_next := Some use\<rparr>)\<rparr>)))))"

definition b_session_event_pop :: "b_events \<Rightarrow> fault + b_events \<times> xrt_session_event" where
  "b_session_event_pop bv = (case bv_ptr bv of
      None \<Rightarrow> Inr (bv, EventNone)
    | Some bse \<Rightarrow>
        try_bind (deref (bv_heap bv) bse) (\<lambda>c.
          Inr (bv\<lparr>bv_ptr := be_next c, bv_heap := (bv_heap bv)(bse := None)\<rparr>, be_xse c)))"

text \<open>The member functions of the session.\<close>

definition bs_push_event :: "b_events \<Rightarrow> addr option \<Rightarrow> xrt_session_event \<Rightarrow> fault + b_events \<times> xrt_result" where
  "bs_push_event bv mem xse = try_bind (b_session_event_push bv mem xse) (\<lambda>bv'. Inr (bv', XRT_SUCCESS))"

definition bs_poll_events :: "b_events \<Rightarrow> fault + b_events \<times> xrt_session_event \<times> xrt_result" where
  "bs_poll_events bv = try_bind (b_session_event_pop bv) (\<lambda>(bv', xse). Inr (bv', xse, XRT_SUCCESS))"

definition bs_request_exit :: "b_events \<Rightarrow> addr option \<Rightarrow> fault + b_events \<times> xrt_result" where
  "bs_request_exit bv mem = try_bind (b_session_event_push bv mem EventRequestExit) (\<lambda>bv'. Inr (bv', XRT_SUCCESS))"

text \<open>The loop of \<^verbatim>\<open>destroy\<close> that frees the events.\<close>

partial_function (option) free_events ::
  "(addr \<Rightarrow> b_session_event option) \<Rightarrow> addr option \<Rightarrow> (fault + (addr \<Rightarrow> b_session_event option)) option" where
  "free_events h event = (case event of
      None \<Rightarrow> Some (Inr h)
    | Some a \<Rightarrow> (case h a of
          None \<Rightarrow> Some (Inl UseAfterFree)
        | Some c \<Rightarrow> free_events (h(a := None)) (be_next c)))"

declare free_events.simps [code]

section \<open>The list is a FIFO\<close>

definition cells_of :: "b_events \<Rightarrow> addr list \<Rightarrow> xrt_session_event list \<Rightarrow> bool" where
  "cells_of bv as es \<longleftrightarrow> chain be_next (bv_heap bv) (bv_ptr bv) as \<and> distinct as \<and> dom (bv_heap bv) = set as
     \<and> map (\<lambda>a. map_option be_xse (bv_heap bv a)) as = map Some es"

definition has_events :: "b_events \<Rightarrow> xrt_session_event list \<Rightarrow> bool" where
  "has_events bv es \<longleftrightarrow> (\<exists>as. cells_of bv as es)"

lemma no_events_has: "has_events no_events []"
  by (simp add: has_events_def cells_of_def no_events_def)

lemma last_cell_step:
  "h a = Some c \<Longrightarrow> last_cell h a = (case be_next c of None \<Rightarrow> Some (Inr a) | Some b \<Rightarrow> last_cell h b)"
  by (subst last_cell.simps) simp

lemma last_cell_chain:
  "chain be_next h (Some a) (as @ [l]) \<Longrightarrow> last_cell h a = Some (Inr l)"
proof (induction as arbitrary: a)
  case Nil
  then obtain c where "l = a" "h a = Some c" "be_next c = None" by auto
  then show ?case by (simp add: last_cell_step)
next
  case (Cons b as)
  then obtain c where c: "h a = Some c" "chain be_next h (be_next c) (as @ [l])" by auto
  then obtain a' where "be_next c = Some a'" by (cases "be_next c") auto
  with c Cons.IH [of a'] show ?case by (simp add: last_cell_step)
qed

lemma b_session_event_push_cells:
  assumes "cells_of bv as es" and "bv_heap bv a = None"
  shows "\<exists>bv'. b_session_event_push bv (Some a) xse = Inr bv' \<and> cells_of bv' (as @ [a]) (es @ [xse])"
proof -
  have na: "a \<notin> set as" using assms by (auto simp: cells_of_def domIff)
  show ?thesis
  proof (cases as rule: rev_cases)
    case Nil
    with assms show ?thesis
      by (auto simp: cells_of_def b_session_event_push_def Let_def)
  next
    case (snoc bs l)
    let ?n = "\<lparr>be_xse = xse, be_next = None\<rparr>"
    let ?h = "(bv_heap bv)(a \<mapsto> ?n)"
    from assms(1) snoc obtain p where p: "bv_ptr bv = Some p"
      by (cases "bv_ptr bv") (auto simp: cells_of_def)
    have ch: "chain be_next ?h (Some p) (bs @ [l])"
      using assms(1) p snoc na by (simp add: cells_of_def chain_frame)
    then obtain c where c: "bv_heap bv l = Some c"
      using assms(1) snoc na chain_dom [of be_next "bv_heap bv" "bv_ptr bv" as] by (auto simp: cells_of_def)
    have la: "l \<noteq> a" using na snoc by auto
    let ?bv = "bv\<lparr>bv_heap := ?h(l \<mapsto> c\<lparr>be_next := Some a\<rparr>)\<rparr>"
    have "b_session_event_push bv (Some a) xse = Inr ?bv"
      using p last_cell_chain [OF ch] c la by (simp add: b_session_event_push_def Let_def)
    moreover have "cells_of ?bv (as @ [a]) (es @ [xse])"
      unfolding cells_of_def
    proof (intro conjI)
      show "chain be_next (bv_heap ?bv) (bv_ptr ?bv) (as @ [a])"
        using chain_snoc [of be_next "bv_heap bv" "bv_ptr bv" bs l a "c\<lparr>be_next := Some a\<rparr>" ?n] assms(1) snoc na
        by (simp add: cells_of_def)
      show "distinct (as @ [a])" using assms(1) na by (simp add: cells_of_def)
      show "dom (bv_heap ?bv) = set (as @ [a])" using assms(1) snoc by (auto simp: cells_of_def)
      have "map_option be_xse (bv_heap ?bv b) = map_option be_xse (bv_heap bv b)" if "b \<in> set as" for b
        using that na c by auto
      moreover have "map_option be_xse (bv_heap ?bv a) = Some xse" using la by simp
      ultimately show "map (\<lambda>b. map_option be_xse (bv_heap ?bv b)) (as @ [a]) = map Some (es @ [xse])"
        using assms(1) by (simp add: cells_of_def cong: map_cong)
    qed
    ultimately show ?thesis by blast
  qed
qed

lemma b_session_event_push_has:
  "has_events bv es \<Longrightarrow> bv_heap bv a = None \<Longrightarrow>
     \<exists>bv'. b_session_event_push bv (Some a) xse = Inr bv' \<and> has_events bv' (es @ [xse])"
  using b_session_event_push_cells unfolding has_events_def by blast

lemma b_session_event_pop_empty: "has_events bv [] \<Longrightarrow> b_session_event_pop bv = Inr (bv, EventNone)"
  by (auto simp: has_events_def cells_of_def b_session_event_pop_def)

lemma b_session_event_pop_has:
  assumes "has_events bv (xse # es)"
  shows "\<exists>bv'. b_session_event_pop bv = Inr (bv', xse) \<and> has_events bv' es"
proof -
  from assms obtain cs where cs: "cells_of bv cs (xse # es)" by (auto simp: has_events_def)
  then obtain a as where "cs = a # as" by (cases cs) (auto simp: cells_of_def)
  with cs have "cells_of bv (a # as) (xse # es)" by simp
  then obtain c where c: "bv_ptr bv = Some a" "bv_heap bv a = Some c" "be_xse c = xse" "a \<notin> set as" "distinct as"
    "chain be_next (bv_heap bv) (be_next c) as" "dom (bv_heap bv) = insert a (set as)"
    "map (\<lambda>a. map_option be_xse (bv_heap bv a)) as = map Some es"
    by (auto simp: cells_of_def)
  let ?bv = "bv\<lparr>bv_ptr := be_next c, bv_heap := (bv_heap bv)(a := None)\<rparr>"
  have "map (\<lambda>b. map_option be_xse (bv_heap ?bv b)) as = map (\<lambda>b. map_option be_xse (bv_heap bv b)) as"
    using c(4) by (intro map_cong) auto
  with c have "cells_of ?bv as es" by (auto simp: cells_of_def chain_frame)
  then show ?thesis
    using c by (auto simp: b_session_event_pop_def has_events_def)
qed

lemma free_events_chain:
  "chain be_next h x as \<Longrightarrow> distinct as \<Longrightarrow> \<exists>h'. free_events h x = Some (Inr h') \<and> dom h' = dom h - set as"
proof (induction as arbitrary: h x)
  case Nil
  then show ?case by (subst free_events.simps) simp
next
  case (Cons a as)
  then obtain c where c: "x = Some a" "h a = Some c" "chain be_next (h(a := None)) (be_next c) as"
    by (auto simp: chain_frame)
  have "distinct as" using Cons.prems(2) by simp
  from Cons.IH [OF c(3) this] obtain h' where
    "free_events (h(a := None)) (be_next c) = Some (Inr h')" "dom h' = dom (h(a := None)) - set as" by blast
  with c show ?case by (subst free_events.simps) auto
qed

lemma free_events_all:
  assumes "has_events bv es"
  shows "returns (free_events (bv_heap bv) (bv_ptr bv)) = Inr (\<lambda>_. None)"
proof -
  from assms obtain as where as: "cells_of bv as es" by (auto simp: has_events_def)
  with free_events_chain [of "bv_heap bv" "bv_ptr bv" as] obtain h' where
    "free_events (bv_heap bv) (bv_ptr bv) = Some (Inr h')" "dom h' = {}"
    by (auto simp: cells_of_def)
  then show ?thesis by simp
qed

text \<open>The contract: taking from an empty list is \<open>None\<close> here, where the code returns \<open>EventNone\<close>.\<close>

definition take_session_event :: "b_events \<Rightarrow> fault + b_events \<times> xrt_session_event option" where
  "take_session_event bv = try_bind (b_session_event_pop bv) (\<lambda>(bv', xse).
     Inr (bv', if bv_ptr bv = None then None else Some xse))"

definition event_fresh :: "b_events \<Rightarrow> addr \<Rightarrow> bool" where
  "event_fresh bv a \<longleftrightarrow> bv_heap bv a = None"

lemma has_events_ptr: "has_events bv es \<Longrightarrow> bv_ptr bv = None \<longleftrightarrow> es = []"
  by (cases "bv_ptr bv") (auto simp: has_events_def cells_of_def chain_Some)

interpretation be: fifo has_events "\<lambda>bv a. b_session_event_push bv (Some a)" take_session_event event_fresh
proof unfold_locales
  fix bv es a d
  assume "has_events bv es" and "event_fresh bv a"
  then show "\<exists>bv'. b_session_event_push bv (Some a) d = Inr bv' \<and> has_events bv' (es @ [d])"
    by (simp add: event_fresh_def b_session_event_push_has)
next
  fix bv
  assume "has_events bv []"
  then show "\<exists>bv'. take_session_event bv = Inr (bv', None) \<and> has_events bv' []"
    by (simp add: take_session_event_def b_session_event_pop_empty has_events_ptr)
next
  fix bv d es
  assume h: "has_events bv (d # es)"
  with b_session_event_pop_has [OF h] show "\<exists>bv'. take_session_event bv = Inr (bv', Some d) \<and> has_events bv' es"
    by (auto simp: take_session_event_def has_events_ptr)
qed

end
