(* ===== verification/Base_System.thy ===== *)
theory Base_System
  imports Session_Events
begin

text \<open>
  The system object of the base implementation, \<^verbatim>\<open>base/b_system.[ch]\<close>, with the creation and
  destruction of sessions (\<^verbatim>\<open>base/b_session.c\<close>): the growing array of registered sessions and the
  broadcast of events to all of them. A registered pair holds the session and its event sink, which are
  parts of one object, so a pair is the address of the session. Mutexes are held for the whole
  of each function.

  The abstract system is a map from the existing sessions to the events that wait for them.
\<close>

section \<open>State\<close>

record b_session =
  bs_bsys :: bool
  bs_events :: b_events

record b_system =
  by_count :: nat
  by_capacity :: nat
  by_pairs :: "addr option list"
  by_xsysc :: bool
  by_sessions :: "addr \<Rightarrow> b_session option"

definition b_system_init :: "b_system \<Rightarrow> bool \<Rightarrow> b_system \<times> bool" where
  "b_system_init bsys ok =
     (let bsys = bsys\<lparr>by_capacity := 2\<rparr>
      in if \<not> ok then (bsys, False) else (bsys\<lparr>by_pairs := replicate 2 None\<rparr>, True))"

section \<open>Registration\<close>

text \<open>
  \<^verbatim>\<open>realloc\<close> keeps the old entries; the new ones are written before they are read. \<open>ok\<close>: whether it
  succeeds.
\<close>

definition b_system_add_session :: "b_system \<Rightarrow> addr \<Rightarrow> bool \<Rightarrow> fault + b_system" where
  "b_system_add_session bsys xs ok =
     (let new_count = by_count bsys + 1;
          grow = new_count > by_capacity bsys;
          bsys = (if grow then bsys\<lparr>by_capacity := by_capacity bsys * 2\<rparr> else bsys)
      in if grow \<and> \<not> ok then Inr bsys
         else
           let bsys = (if grow then bsys\<lparr>by_pairs := by_pairs bsys @ replicate (by_capacity bsys - length (by_pairs bsys)) None\<rparr>
                       else bsys)
           in try_bind (arr_set (by_pairs bsys) (by_count bsys) (Some xs)) (\<lambda>pairs.
                Inr (bsys\<lparr>by_pairs := pairs, by_count := by_count bsys + 1\<rparr>)))"

text \<open>The search for a session from index \<open>dst\<close> with \<open>n\<close> entries left: the index where it ended.\<close>

primrec find_session :: "addr option list \<Rightarrow> addr \<Rightarrow> nat \<Rightarrow> nat \<Rightarrow> fault + nat" where
  "find_session pairs xs dst 0 = Inr dst"
| "find_session pairs xs dst (Suc n) = try_bind (arr_get pairs dst) (\<lambda>p.
     if p = Some xs then Inr dst else find_session pairs xs (dst + 1) n)"

text \<open>The copying loop, \<open>n\<close> entries from \<open>src = dst + 1\<close>.\<close>

primrec shift_down :: "addr option list \<Rightarrow> nat \<Rightarrow> nat \<Rightarrow> fault + addr option list" where
  "shift_down pairs dst 0 = Inr pairs"
| "shift_down pairs dst (Suc n) = try_bind (arr_get pairs (dst + 1)) (\<lambda>p.
     try_bind (arr_set pairs dst p) (\<lambda>pairs. shift_down pairs (dst + 1) n))"

definition b_system_remove_session :: "b_system \<Rightarrow> addr \<Rightarrow> fault + b_system" where
  "b_system_remove_session bsys xs =
     (let cnt = by_count bsys in
      try_bind (find_session (by_pairs bsys) xs 0 cnt) (\<lambda>dst.
        if dst \<ge> cnt then Inr bsys
        else
          try_bind (c_assert (cnt > 0)) (\<lambda>_.
          try_bind (if dst < cnt - 1 then shift_down (by_pairs bsys) dst (cnt - 1 - dst) else Inr (by_pairs bsys)) (\<lambda>pairs.
          try_bind (arr_set pairs (cnt - 1) None) (\<lambda>pairs.
            Inr (bsys\<lparr>by_pairs := pairs, by_count := cnt - 1\<rparr>))))))"

section \<open>Sessions\<close>

definition b_session_create :: "b_system \<Rightarrow> bool \<Rightarrow> addr option \<Rightarrow> bool \<Rightarrow> fault + b_system \<times> addr" where
  "b_session_create bsys has_bsys mem ok = (case mem of
      None \<Rightarrow> Inl NullDeref
    | Some bs \<Rightarrow>
        let bsys = bsys\<lparr>by_sessions := (by_sessions bsys)(bs \<mapsto> \<lparr>bs_bsys = has_bsys, bs_events = no_events\<rparr>)\<rparr>
        in if has_bsys then try_bind (b_system_add_session bsys bs ok) (\<lambda>bsys. Inr (bsys, bs)) else Inr (bsys, bs))"

text \<open>
  \<open>want_native\<close>: whether a native compositor is asked for; \<open>native\<close>: what its creation returns.
\<close>

definition create_session ::
  "b_system \<Rightarrow> bool \<Rightarrow> xrt_result \<Rightarrow> addr option \<Rightarrow> bool \<Rightarrow> fault + b_system \<times> xrt_result \<times> addr option" where
  "create_session bsys want_native native mem ok =
     (if want_native \<and> \<not> by_xsysc bsys then Inr (bsys, XRT_ERROR_COMPOSITOR_NOT_SUPPORTED, None)
      else try_bind (b_session_create bsys True mem ok) (\<lambda>(bsys, bs).
        if \<not> want_native then Inr (bsys, XRT_SUCCESS, Some bs)
        else if native \<noteq> XRT_SUCCESS then Inr (bsys, native, None)
        else Inr (bsys, XRT_SUCCESS, Some bs)))"

text \<open>\<^verbatim>\<open>destroy\<close> of a session.\<close>

definition bs_destroy :: "b_system \<Rightarrow> addr \<Rightarrow> fault + b_system" where
  "bs_destroy bsys xs =
     try_bind (deref (by_sessions bsys) xs) (\<lambda>bs.
     try_bind (returns (free_events (bv_heap (bs_events bs)) (bv_ptr (bs_events bs)))) (\<lambda>h.
     try_bind (if bs_bsys bs then b_system_remove_session bsys xs else Inr bsys) (\<lambda>bsys.
       Inr (bsys\<lparr>by_sessions := (by_sessions bsys)(xs := None)\<rparr>))))"

text \<open>A member function of a session applied to its event list.\<close>

definition on_events :: "b_system \<Rightarrow> addr \<Rightarrow> (b_events \<Rightarrow> fault + b_events \<times> 'r) \<Rightarrow> fault + b_system \<times> 'r" where
  "on_events bsys xs f =
     try_bind (deref (by_sessions bsys) xs) (\<lambda>bs.
     try_bind (f (bs_events bs)) (\<lambda>(bv, r).
       Inr (bsys\<lparr>by_sessions := (by_sessions bsys)(xs \<mapsto> bs\<lparr>bs_events := bv\<rparr>)\<rparr>, r)))"

section \<open>Broadcast\<close>

text \<open>The loop from index \<open>i\<close> with \<open>n\<close> sessions left; \<open>mem\<close> gives the event cell for each session.\<close>

primrec broadcast_loop ::
  "(addr \<Rightarrow> addr option) \<Rightarrow> xrt_session_event \<Rightarrow> b_system \<Rightarrow> nat \<Rightarrow> nat \<Rightarrow> fault + b_system" where
  "broadcast_loop mem xse bsys i 0 = Inr bsys"
| "broadcast_loop mem xse bsys i (Suc n) = try_bind (arr_get (by_pairs bsys) i) (\<lambda>p. case p of
      None \<Rightarrow> Inl NullDeref
    | Some xs \<Rightarrow>
        try_bind (on_events bsys xs (\<lambda>bv. bs_push_event bv (mem xs) xse)) (\<lambda>(bsys, xret).
          broadcast_loop mem xse bsys (i + 1) n))"

definition b_system_broadcast_event :: "(addr \<Rightarrow> addr option) \<Rightarrow> b_system \<Rightarrow> xrt_session_event \<Rightarrow> fault + b_system" where
  "b_system_broadcast_event mem bsys xse = broadcast_loop mem xse bsys 0 (by_count bsys)"

definition b_system_set_system_compositor :: "b_system \<Rightarrow> fault + b_system" where
  "b_system_set_system_compositor bsys =
     try_bind (c_assert (\<not> by_xsysc bsys)) (\<lambda>_. Inr (bsys\<lparr>by_xsysc := True\<rparr>))"

definition b_system_fini :: "b_system \<Rightarrow> b_system" where
  "b_system_fini bsys = bsys\<lparr>by_pairs := [], by_count := 0\<rparr>"

section \<open>A run of the system\<close>

datatype sys_op =
    SysCreate addr bool xrt_result
  | SysDestroy addr
  | SysBroadcast "addr \<Rightarrow> addr option" xrt_session_event
  | SysPush addr addr xrt_session_event
  | SysRequestExit addr addr
  | SysPoll addr

datatype sys_out =
    Created xrt_result "addr option"
  | Done
  | Event xrt_session_event

definition sys_op_step :: "b_system \<Rightarrow> sys_op \<Rightarrow> fault + b_system \<times> sys_out" where
  "sys_op_step s op = (case op of
      SysCreate a want native \<Rightarrow>
        try_bind (create_session s want native (Some a) True) (\<lambda>(s, r, x). Inr (s, Created r x))
    | SysDestroy a \<Rightarrow> try_bind (bs_destroy s a) (\<lambda>s. Inr (s, Done))
    | SysBroadcast mem xse \<Rightarrow> try_bind (b_system_broadcast_event mem s xse) (\<lambda>s. Inr (s, Done))
    | SysPush a cell xse \<Rightarrow> try_bind (on_events s a (\<lambda>bv. bs_push_event bv (Some cell) xse)) (\<lambda>(s, _). Inr (s, Done))
    | SysRequestExit a cell \<Rightarrow> try_bind (on_events s a (\<lambda>bv. bs_request_exit bv (Some cell))) (\<lambda>(s, _). Inr (s, Done))
    | SysPoll a \<Rightarrow> try_bind (on_events s a bs_poll_events) (\<lambda>(s, xse, _). Inr (s, Event xse)))"

primrec sys_op_run :: "b_system \<Rightarrow> sys_op list \<Rightarrow> fault + b_system \<times> sys_out list" where
  "sys_op_run s [] = Inr (s, [])"
| "sys_op_run s (op # ops) = try_bind (sys_op_step s op) (\<lambda>(s1, out).
     try_bind (sys_op_run s1 ops) (\<lambda>(s2, outs). Inr (s2, out # outs)))"

text \<open>The abstract system; \<open>xsysc\<close>: there is a system compositor.\<close>

type_synonym abs_system = "addr \<Rightarrow> xrt_session_event list option"

definition abs_step :: "bool \<Rightarrow> abs_system \<Rightarrow> sys_op \<Rightarrow> abs_system \<times> sys_out" where
  "abs_step xsysc m op = (case op of
      SysCreate a want native \<Rightarrow>
        if want \<and> \<not> xsysc then (m, Created XRT_ERROR_COMPOSITOR_NOT_SUPPORTED None)
        else if want \<and> native \<noteq> XRT_SUCCESS then (m(a \<mapsto> []), Created native None)
        else (m(a \<mapsto> []), Created XRT_SUCCESS (Some a))
    | SysDestroy a \<Rightarrow> (m(a := None), Done)
    | SysBroadcast mem xse \<Rightarrow> (\<lambda>a. map_option (\<lambda>es. es @ [xse]) (m a), Done)
    | SysPush a cell xse \<Rightarrow> (m(a \<mapsto> the (m a) @ [xse]), Done)
    | SysRequestExit a cell \<Rightarrow> (m(a \<mapsto> the (m a) @ [EventRequestExit]), Done)
    | SysPoll a \<Rightarrow> (m(a \<mapsto> tl (the (m a))), Event (case the (m a) of [] \<Rightarrow> EventNone | e # _ \<Rightarrow> e)))"

primrec abs_run :: "bool \<Rightarrow> abs_system \<Rightarrow> sys_op list \<Rightarrow> abs_system \<times> sys_out list" where
  "abs_run xsysc m [] = (m, [])"
| "abs_run xsysc m (op # ops) = (case abs_step xsysc m op of (m1, out) \<Rightarrow>
     case abs_run xsysc m1 ops of (m2, outs) \<Rightarrow> (m2, out # outs))"

text \<open>
  The caller uses sessions that exist; \<^verbatim>\<open>calloc\<close> returns addresses that are not in use.
\<close>

definition events_of :: "b_system \<Rightarrow> addr \<Rightarrow> b_events option" where
  "events_of s a = map_option bs_events (by_sessions s a)"

definition fresh_cell :: "b_system \<Rightarrow> addr \<Rightarrow> addr \<Rightarrow> bool" where
  "fresh_cell s a cell \<longleftrightarrow> (case events_of s a of None \<Rightarrow> False | Some bv \<Rightarrow> bv_heap bv cell = None)"

definition op_ok :: "b_system \<Rightarrow> sys_op \<Rightarrow> bool" where
  "op_ok s op = (case op of
      SysCreate a want native \<Rightarrow> by_sessions s a = None
    | SysDestroy a \<Rightarrow> by_sessions s a \<noteq> None
    | SysBroadcast mem xse \<Rightarrow>
        (\<forall>a \<in> set (map the (take (by_count s) (by_pairs s))). case mem a of None \<Rightarrow> False | Some cell \<Rightarrow> fresh_cell s a cell)
    | SysPush a cell xse \<Rightarrow> fresh_cell s a cell
    | SysRequestExit a cell \<Rightarrow> fresh_cell s a cell
    | SysPoll a \<Rightarrow> by_sessions s a \<noteq> None)"

primrec ops_ok :: "b_system \<Rightarrow> sys_op list \<Rightarrow> bool" where
  "ops_ok s [] \<longleftrightarrow> True"
| "ops_ok s (op # ops) \<longleftrightarrow> op_ok s op \<and> (case sys_op_step s op of Inl f \<Rightarrow> True | Inr (s1, out) \<Rightarrow> ops_ok s1 ops)"

section \<open>The registry\<close>

text \<open>The registered sessions are \<open>rs\<close>, in the first entries of the array, which is as long as the capacity.\<close>

definition registry :: "b_system \<Rightarrow> addr list \<Rightarrow> bool" where
  "registry s rs \<longleftrightarrow> (\<exists>rest. by_pairs s = map Some rs @ rest) \<and> by_count s = length rs
     \<and> by_capacity s = length (by_pairs s) \<and> 0 < by_capacity s \<and> distinct rs"

lemma add_session_registry:
  assumes "registry s rs" and "xs \<notin> set rs"
  shows "\<exists>s'. b_system_add_session s xs True = Inr s' \<and> registry s' (rs @ [xs])
    \<and> by_sessions s' = by_sessions s \<and> by_xsysc s' = by_xsysc s"
proof -
  from assms(1) obtain rest where r: "by_pairs s = map Some rs @ rest" "by_count s = length rs"
    "by_capacity s = length rs + length rest" "0 < by_capacity s" "distinct rs"
    by (auto simp: registry_def)
  show ?thesis
  proof (cases rest)
    case Nil
    with r obtain k where "length rs = Suc k" by (cases rs) auto
    with r Nil assms(2) show ?thesis
      by (auto simp: b_system_add_session_def Let_def registry_def list_update_append)
  next
    case (Cons x rest')
    with r assms(2) show ?thesis
      by (auto simp: b_system_add_session_def Let_def registry_def list_update_append)
  qed
qed

text \<open>
  A growth that fails has already doubled the capacity: the session is not registered, and the
  next registration writes behind the array.
\<close>

lemma failed_growth:
  assumes "registry s rs" and "by_count s = by_capacity s"
  shows "\<exists>s1. b_system_add_session s xs False = Inr s1 \<and> by_pairs s1 = by_pairs s
    \<and> b_system_add_session s1 ys ok = Inl OutOfBounds"
  using assms by (auto simp: b_system_add_session_def Let_def registry_def arr_set_def)

lemma find_session_at:
  "xs \<notin> set as \<Longrightarrow> find_session (pre @ map Some (as @ xs # bs) @ rest) xs (length pre) (length as + Suc n) = Inr (length pre + length as)"
proof (induction as arbitrary: pre)
  case Nil
  then show ?case by (simp add: nth_append)
next
  case (Cons a as)
  from Cons.IH [of "pre @ [Some a]"] Cons.prems show ?case by (simp add: nth_append)
qed

lemma shift_down_eq:
  "shift_down (pre @ x # ys @ rest) (length pre) (length ys) = Inr (pre @ ys @ last (x # ys) # rest)"
proof (induction ys arbitrary: pre x)
  case Nil
  then show ?case by simp
next
  case (Cons y ys)
  from Cons.IH [of "pre @ [y]" y] show ?case by (simp add: nth_append list_update_append)
qed

lemma remove_session_registry:
  assumes "registry s (as @ xs # bs)"
  shows "\<exists>s'. b_system_remove_session s xs = Inr s' \<and> registry s' (as @ bs)
    \<and> by_sessions s' = by_sessions s \<and> by_xsysc s' = by_xsysc s"
proof -
  from assms obtain rest where r: "by_pairs s = map Some (as @ xs # bs) @ rest" "by_count s = length as + Suc (length bs)"
    "by_capacity s = length (by_pairs s)" "distinct (as @ xs # bs)"
    by (auto simp: registry_def)
  have find: "find_session (by_pairs s) xs 0 (by_count s) = Inr (length as)"
    using find_session_at [of xs as "[]" bs rest "length bs"] r by simp
  have shift: "(if length as < by_count s - 1 then shift_down (by_pairs s) (length as) (by_count s - 1 - length as)
      else Inr (by_pairs s)) = Inr (map Some as @ map Some bs @ last (Some xs # map Some bs) # rest)"
    using shift_down_eq [of "map Some as" "Some xs" "map Some bs" rest] r by (cases bs) auto
  let ?s = "s\<lparr>by_pairs := map Some (as @ bs) @ None # rest, by_count := length as + length bs\<rparr>"
  have "b_system_remove_session s xs = Inr ?s"
    unfolding b_system_remove_session_def Let_def find try_bind_Inr shift
    using r(2) by (simp add: list_update_append)
  moreover have "registry ?s (as @ bs)"
    using r by (auto simp: registry_def)
  ultimately show ?thesis by auto
qed

section \<open>The system implements the map of event lists\<close>

definition holds_sessions :: "(addr \<Rightarrow> b_session option) \<Rightarrow> abs_system \<Rightarrow> bool" where
  "holds_sessions h m \<longleftrightarrow> (\<forall>a. rel_option (\<lambda>bs es. bs_bsys bs \<and> has_events (bs_events bs) es) (h a) (m a))"

definition implements :: "b_system \<Rightarrow> abs_system \<Rightarrow> bool" where
  "implements s m \<longleftrightarrow> (\<exists>rs. registry s rs \<and> set rs = dom (by_sessions s)) \<and> holds_sessions (by_sessions s) m"

lemma implementsI:
  "registry s rs \<Longrightarrow> set rs = dom (by_sessions s) \<Longrightarrow> holds_sessions (by_sessions s) m \<Longrightarrow> implements s m"
  by (auto simp: implements_def)

lemma implementsE:
  assumes "implements s m"
  obtains rs where "registry s rs" "set rs = dom (by_sessions s)" "holds_sessions (by_sessions s) m"
  using assms by (auto simp: implements_def)

lemma registry_sessions [simp]: "registry (s\<lparr>by_sessions := h\<rparr>) rs \<longleftrightarrow> registry s rs"
  by (simp add: registry_def)

lemma holds_sessionsD:
  assumes "holds_sessions h m" and "h a = Some bs"
  obtains es where "m a = Some es" "bs_bsys bs" "has_events (bs_events bs) es"
proof -
  have "rel_option (\<lambda>bs es. bs_bsys bs \<and> has_events (bs_events bs) es) (Some bs) (m a)"
    using assms unfolding holds_sessions_def by metis
  then show thesis by (cases "m a") (auto intro: that)
qed

lemma holds_sessions_upd:
  "holds_sessions h m \<Longrightarrow> bs_bsys bs \<Longrightarrow> has_events (bs_events bs) es \<Longrightarrow> holds_sessions (h(a \<mapsto> bs)) (m(a \<mapsto> es))"
  by (simp add: holds_sessions_def)

lemma holds_sessions_del: "holds_sessions h m \<Longrightarrow> holds_sessions (h(a := None)) (m(a := None))"
  by (simp add: holds_sessions_def)

text \<open>A member function that turns waiting events \<open>es\<close> into \<open>g es\<close>.\<close>

lemma on_events_implements:
  assumes "implements s m" and "by_sessions s a = Some bs"
    and "\<And>es. m a = Some es \<Longrightarrow> has_events (bs_events bs) es \<Longrightarrow> \<exists>bv. f (bs_events bs) = Inr (bv, r es) \<and> has_events bv (g es)"
  shows "\<exists>s'. on_events s a f = Inr (s', r (the (m a))) \<and> implements s' (m(a \<mapsto> g (the (m a))))
    \<and> by_xsysc s' = by_xsysc s"
proof -
  from assms(1) obtain rs where rs: "registry s rs" "set rs = dom (by_sessions s)" "holds_sessions (by_sessions s) m"
    by (rule implementsE)
  from rs(3) assms(2) obtain es where es: "m a = Some es" "bs_bsys bs" "has_events (bs_events bs) es"
    by (rule holds_sessionsD)
  with assms(3) obtain bv where bv: "f (bs_events bs) = Inr (bv, r es)" "has_events bv (g es)" by blast
  let ?s = "s\<lparr>by_sessions := (by_sessions s)(a \<mapsto> bs\<lparr>bs_events := bv\<rparr>)\<rparr>"
  have "on_events s a f = Inr (?s, r es)" using assms(2) bv by (simp add: on_events_def)
  moreover have "implements ?s (m(a \<mapsto> g es))"
  proof (rule implementsI)
    show "registry ?s rs" using rs(1) by simp
    show "set rs = dom (by_sessions ?s)" using rs(2) assms(2) by auto
    show "holds_sessions (by_sessions ?s) (m(a \<mapsto> g es))"
      using rs(3) es(2) bv(2) by (simp add: holds_sessions_upd)
  qed
  ultimately show ?thesis using es by auto
qed

lemma push_implements:
  assumes "implements s m" and "fresh_cell s a cell"
  shows "\<exists>s'. on_events s a (\<lambda>bv. bs_push_event bv (Some cell) xse) = Inr (s', XRT_SUCCESS)
    \<and> implements s' (m(a \<mapsto> the (m a) @ [xse])) \<and> by_xsysc s' = by_xsysc s"
proof -
  from assms(2) obtain bs where bs: "by_sessions s a = Some bs" "bv_heap (bs_events bs) cell = None"
    by (auto simp: fresh_cell_def events_of_def split: option.splits)
  have "\<exists>bv. bs_push_event (bs_events bs) (Some cell) xse = Inr (bv, XRT_SUCCESS) \<and> has_events bv (es @ [xse])"
    if "has_events (bs_events bs) es" for es
    using b_session_event_push_has [OF that bs(2), of xse] by (auto simp: bs_push_event_def)
  then show ?thesis
    by (intro on_events_implements [OF assms(1) bs(1), where r = "\<lambda>_. XRT_SUCCESS" and g = "\<lambda>es. es @ [xse]"]) blast
qed

lemma poll_implements:
  assumes "implements s m" and "by_sessions s a \<noteq> None"
  shows "\<exists>s'. on_events s a bs_poll_events = Inr (s', case the (m a) of [] \<Rightarrow> EventNone | e # _ \<Rightarrow> e, XRT_SUCCESS)
    \<and> implements s' (m(a \<mapsto> tl (the (m a)))) \<and> by_xsysc s' = by_xsysc s"
proof -
  from assms(2) obtain bs where bs: "by_sessions s a = Some bs" by auto
  have "\<exists>bv. bs_poll_events (bs_events bs) = Inr (bv, case es of [] \<Rightarrow> EventNone | e # _ \<Rightarrow> e, XRT_SUCCESS)
      \<and> has_events bv (tl es)" if "has_events (bs_events bs) es" for es
    using that b_session_event_pop_has [of "bs_events bs"]
    by (cases es) (fastforce simp: bs_poll_events_def b_session_event_pop_empty)+
  then show ?thesis
    by (intro on_events_implements [OF assms(1) bs, where g = tl
        and r = "\<lambda>es. (case es of [] \<Rightarrow> EventNone | e # _ \<Rightarrow> e, XRT_SUCCESS)"]) blast
qed

lemma create_implements:
  assumes "implements s m" and "by_sessions s a = None" and "\<not> (want \<and> \<not> by_xsysc s)"
  shows "\<exists>s'. create_session s want native (Some a) True
      = Inr (s', if want \<and> native \<noteq> XRT_SUCCESS then (native, None) else (XRT_SUCCESS, Some a))
    \<and> implements s' (m(a \<mapsto> [])) \<and> by_xsysc s' = by_xsysc s"
proof -
  from assms(1) obtain rs where rs: "registry s rs" "set rs = dom (by_sessions s)" "holds_sessions (by_sessions s) m"
    by (rule implementsE)
  let ?b = "\<lparr>bs_bsys = True, bs_events = no_events\<rparr>"
  let ?s = "s\<lparr>by_sessions := (by_sessions s)(a \<mapsto> ?b)\<rparr>"
  have "registry ?s rs" "a \<notin> set rs" using rs assms(2) by auto
  from add_session_registry [OF this] obtain s' where
    s': "b_system_add_session ?s a True = Inr s'" "registry s' (rs @ [a])" "by_sessions s' = by_sessions ?s" "by_xsysc s' = by_xsysc s"
    by auto
  have "holds_sessions (by_sessions s') (m(a \<mapsto> []))"
    unfolding s'(3) using rs(3) no_events_has by (auto intro!: holds_sessions_upd)
  moreover have "set (rs @ [a]) = dom (by_sessions s')" using s'(3) rs(2) by auto
  ultimately have "implements s' (m(a \<mapsto> []))" using s'(2) by (intro implementsI)
  with s' assms(3) show ?thesis
    by (auto simp: create_session_def b_session_create_def Let_def)
qed

lemma destroy_implements:
  assumes "implements s m" and "by_sessions s a \<noteq> None"
  shows "\<exists>s'. bs_destroy s a = Inr s' \<and> implements s' (m(a := None)) \<and> by_xsysc s' = by_xsysc s"
proof -
  from assms(2) obtain bs where bs: "by_sessions s a = Some bs" by auto
  from assms(1) obtain rs where rs: "registry s rs" "set rs = dom (by_sessions s)" "holds_sessions (by_sessions s) m"
    by (rule implementsE)
  from rs(3) bs obtain es where es: "bs_bsys bs" "has_events (bs_events bs) es" by (rule holds_sessionsD)
  from rs(2) bs obtain as cs where split: "rs = as @ a # cs" by (metis domI in_set_conv_decomp)
  from remove_session_registry [of s as a cs] rs(1) split obtain s' where
    s': "b_system_remove_session s a = Inr s'" "registry s' (as @ cs)" "by_sessions s' = by_sessions s" "by_xsysc s' = by_xsysc s"
    by auto
  have d: "distinct rs" using rs(1) by (simp add: registry_def)
  let ?s = "s'\<lparr>by_sessions := (by_sessions s')(a := None)\<rparr>"
  have "bs_destroy s a = Inr ?s"
    using bs es s'(1) free_events_all by (simp add: bs_destroy_def)
  moreover have "set (as @ cs) = dom (by_sessions ?s)"
    using rs(2) d split s'(3) by auto
  then have "implements ?s (m(a := None))"
    using s'(2,3) rs(3) by (intro implementsI [of ?s "as @ cs"]) (simp_all add: holds_sessions_del)
  ultimately show ?thesis using s'(4) by auto
qed

lemma on_events_frame:
  assumes "on_events s a f = Inr (s', r)"
  shows "by_pairs s' = by_pairs s" and "b \<noteq> a \<Longrightarrow> by_sessions s' b = by_sessions s b"
  using assms by (auto simp: on_events_def try_simps)

lemma broadcast_loop_implements:
  assumes "implements s m" and "by_pairs s = map Some (pre @ bs) @ rest" and "distinct bs"
    and "\<forall>a \<in> set bs. \<exists>cell. mem a = Some cell \<and> fresh_cell s a cell"
  shows "\<exists>s'. broadcast_loop mem xse s (length pre) (length bs) = Inr s'
    \<and> implements s' (\<lambda>a. if a \<in> set bs then map_option (\<lambda>es. es @ [xse]) (m a) else m a)
    \<and> by_xsysc s' = by_xsysc s"
  using assms
proof (induction bs arbitrary: s m pre)
  case Nil
  then show ?case by simp
next
  case (Cons a bs)
  from Cons.prems(4) obtain cell where cell: "mem a = Some cell" "fresh_cell s a cell" by auto
  from push_implements [OF Cons.prems(1) cell(2), of xse] obtain s1 where
    s1: "on_events s a (\<lambda>bv. bs_push_event bv (Some cell) xse) = Inr (s1, XRT_SUCCESS)"
      "implements s1 (m(a \<mapsto> the (m a) @ [xse]))" "by_xsysc s1 = by_xsysc s" by blast
  note frame = on_events_frame [OF s1(1)]
  have na: "a \<notin> set bs" using Cons.prems(3) by simp
  have pairs: "by_pairs s1 = map Some ((pre @ [a]) @ bs) @ rest" using frame(1) Cons.prems(2) by simp
  have fresh: "\<forall>b \<in> set bs. \<exists>cell. mem b = Some cell \<and> fresh_cell s1 b cell"
  proof
    fix b assume b: "b \<in> set bs"
    then have "by_sessions s1 b = by_sessions s b" using na frame(2) by metis
    with b Cons.prems(4) show "\<exists>cell. mem b = Some cell \<and> fresh_cell s1 b cell"
      by (simp add: fresh_cell_def events_of_def)
  qed
  have "distinct bs" using Cons.prems(3) by simp
  from Cons.IH [OF s1(2) pairs this fresh] obtain s2 where
    s2: "broadcast_loop mem xse s1 (length (pre @ [a])) (length bs) = Inr s2" "by_xsysc s2 = by_xsysc s1"
      "implements s2 (\<lambda>b. if b \<in> set bs then map_option (\<lambda>es. es @ [xse]) ((m(a \<mapsto> the (m a) @ [xse])) b)
        else (m(a \<mapsto> the (m a) @ [xse])) b)" by blast
  have "m a \<noteq> None"
  proof -
    from cell(2) obtain b where "by_sessions s a = Some b"
      by (auto simp: fresh_cell_def events_of_def split: option.splits)
    with Cons.prems(1) show ?thesis by (auto simp: implements_def elim: holds_sessionsD)
  qed
  then have "(\<lambda>b. if b \<in> set bs then map_option (\<lambda>es. es @ [xse]) ((m(a \<mapsto> the (m a) @ [xse])) b)
      else (m(a \<mapsto> the (m a) @ [xse])) b)
    = (\<lambda>b. if b \<in> set (a # bs) then map_option (\<lambda>es. es @ [xse]) (m b) else m b)"
    using na by (auto simp: fun_eq_iff)
  moreover have "broadcast_loop mem xse s (length pre) (length (a # bs)) = Inr s2"
    using s1(1) s2(1) cell(1) Cons.prems(2) by (simp add: nth_append)
  ultimately show ?case using s2(2,3) s1(3) by auto
qed

lemma sys_op_step_implements:
  assumes "implements s m" and "op_ok s op"
  shows "\<exists>s'. sys_op_step s op = Inr (s', snd (abs_step (by_xsysc s) m op))
    \<and> implements s' (fst (abs_step (by_xsysc s) m op)) \<and> by_xsysc s' = by_xsysc s"
proof (cases op)
  case (SysCreate a want native)
  with assms(2) have free: "by_sessions s a = None" by (simp add: op_ok_def)
  show ?thesis
  proof (cases "want \<and> \<not> by_xsysc s")
    case True
    with SysCreate assms(1) show ?thesis by (simp add: sys_op_step_def create_session_def abs_step_def)
  next
    case False
    from create_implements [OF assms(1) free False, of native] SysCreate False show ?thesis
      by (auto simp: sys_op_step_def abs_step_def)
  qed
next
  case (SysDestroy a)
  with assms(2) have "by_sessions s a \<noteq> None" by (simp add: op_ok_def)
  from destroy_implements [OF assms(1) this] SysDestroy show ?thesis
    by (auto simp: sys_op_step_def abs_step_def)
next
  case (SysBroadcast mem xse)
  from assms(1) obtain rs where rs: "registry s rs" "set rs = dom (by_sessions s)" "holds_sessions (by_sessions s) m"
    by (rule implementsE)
  from rs(1) obtain rest where r: "by_pairs s = map Some ([] @ rs) @ rest" "by_count s = length rs" "distinct rs"
    by (auto simp: registry_def)
  have "map the (take (by_count s) (by_pairs s)) = rs" using r by (simp add: comp_def)
  with assms(2) SysBroadcast have ok: "\<forall>a \<in> set rs. \<exists>cell. mem a = Some cell \<and> fresh_cell s a cell"
    by (auto simp: op_ok_def split: option.splits)
  have eq: "(\<lambda>a. if a \<in> set rs then map_option (\<lambda>es. es @ [xse]) (m a) else m a) = (\<lambda>a. map_option (\<lambda>es. es @ [xse]) (m a))"
  proof
    fix a
    have "rel_option (\<lambda>bs es. bs_bsys bs \<and> has_events (bs_events bs) es) (by_sessions s a) (m a)"
      using rs(3) by (simp add: holds_sessions_def)
    then have "a \<notin> set rs \<Longrightarrow> m a = None"
      using rs(2) by (cases "by_sessions s a"; cases "m a") auto
    then show "(if a \<in> set rs then map_option (\<lambda>es. es @ [xse]) (m a) else m a) = map_option (\<lambda>es. es @ [xse]) (m a)"
      by simp
  qed
  from broadcast_loop_implements [OF assms(1) r(1,3) ok, of xse] r(2) SysBroadcast eq show ?thesis
    by (auto simp: sys_op_step_def abs_step_def b_system_broadcast_event_def)
next
  case (SysPush a cell xse)
  with assms(2) have "fresh_cell s a cell" by (simp add: op_ok_def)
  from push_implements [OF assms(1) this, of xse] SysPush show ?thesis
    by (auto simp: sys_op_step_def abs_step_def)
next
  case (SysRequestExit a cell)
  have eq: "bs_request_exit = (\<lambda>bv c. bs_push_event bv c EventRequestExit)"
    by (intro ext) (simp add: bs_request_exit_def bs_push_event_def)
  from SysRequestExit assms(2) have "fresh_cell s a cell" by (simp add: op_ok_def)
  from push_implements [OF assms(1) this, of EventRequestExit] SysRequestExit show ?thesis
    by (auto simp: sys_op_step_def abs_step_def eq)
next
  case (SysPoll a)
  with assms(2) have "by_sessions s a \<noteq> None" by (simp add: op_ok_def)
  from poll_implements [OF assms(1) this] SysPoll show ?thesis
    by (auto simp: sys_op_step_def abs_step_def)
qed

lemma sys_op_run_implements:
  assumes "implements s m" and "ops_ok s ops"
  shows "\<exists>s'. sys_op_run s ops = Inr (s', snd (abs_run (by_xsysc s) m ops))
    \<and> implements s' (fst (abs_run (by_xsysc s) m ops))"
  using assms
proof (induction ops arbitrary: s m)
  case Nil
  then show ?case by simp
next
  case (Cons op ops)
  from Cons.prems(2) have "op_ok s op" by simp
  from sys_op_step_implements [OF Cons.prems(1) this] obtain s1 where
    s1: "sys_op_step s op = Inr (s1, snd (abs_step (by_xsysc s) m op))"
      "implements s1 (fst (abs_step (by_xsysc s) m op))" "by_xsysc s1 = by_xsysc s" by blast
  with Cons.prems(2) have "ops_ok s1 ops" by simp
  from Cons.IH [OF s1(2) this] s1 show ?case by (auto split: prod.splits)
qed

definition zero_system :: b_system where
  "zero_system = \<lparr>by_count = 0, by_capacity = 0, by_pairs = [], by_xsysc = False, by_sessions = (\<lambda>_. None)\<rparr>"

text \<open>\<^verbatim>\<open>b_system_create\<close> and \<^verbatim>\<open>b_system_set_system_compositor\<close>.\<close>

definition created_system :: "bool \<Rightarrow> b_system" where
  "created_system xsysc = (fst (b_system_init zero_system True))\<lparr>by_xsysc := xsysc\<rparr>"

lemma created_implements: "implements (created_system xsysc) (\<lambda>_. None)"
  by (auto simp: implements_def registry_def holds_sessions_def created_system_def b_system_init_def Let_def
      zero_system_def)

text \<open>C23.
  The system refines a map of event lists. Whatever sessions are created and destroyed, in any order
  and number, and whatever is broadcast, pushed and polled in between: no operation
  faults, every poll answers as if each session had a plain list of its own, a broadcast
  reaches every existing session exactly once and in order, and no event of a destroyed session is left. A
  session whose native compositor could not be created exists all the same: it stays registered although
  the caller never gets it.\<close>
theorem base_system_refines:
  assumes "ops_ok (created_system xsysc) ops"
  shows "\<exists>s'. sys_op_run (created_system xsysc) ops = Inr (s', snd (abs_run xsysc (\<lambda>_. None) ops))
    \<and> (\<exists>rs. take (by_count s') (by_pairs s') = map Some rs \<and> distinct rs
         \<and> set rs = dom (fst (abs_run xsysc (\<lambda>_. None) ops)))
    \<and> (\<forall>a. case fst (abs_run xsysc (\<lambda>_. None) ops) a of
         None \<Rightarrow> by_sessions s' a = None
       | Some es \<Rightarrow> \<exists>bs. by_sessions s' a = Some bs \<and> has_events (bs_events bs) es)"
proof -
  have x: "by_xsysc (created_system xsysc) = xsysc" by (simp add: created_system_def)
  from sys_op_run_implements [OF created_implements assms] obtain s' where
    s': "sys_op_run (created_system xsysc) ops = Inr (s', snd (abs_run xsysc (\<lambda>_. None) ops))"
      "implements s' (fst (abs_run xsysc (\<lambda>_. None) ops))" unfolding x by blast
  define m where "m = fst (abs_run xsysc (\<lambda>_. None) ops)"
  from s'(2) obtain rs where rs: "registry s' rs" "set rs = dom (by_sessions s')" "holds_sessions (by_sessions s') m"
    unfolding m_def by (rule implementsE)
  have rel: "rel_option (\<lambda>bs es. bs_bsys bs \<and> has_events (bs_events bs) es) (by_sessions s' a) (m a)" for a
    using rs(3) by (simp add: holds_sessions_def)
  have "case m a of None \<Rightarrow> by_sessions s' a = None
      | Some es \<Rightarrow> \<exists>bs. by_sessions s' a = Some bs \<and> has_events (bs_events bs) es" for a
    using rel [of a] by (cases "by_sessions s' a"; cases "m a") auto
  moreover have "dom m = dom (by_sessions s')"
  proof -
    have "m a \<noteq> None \<longleftrightarrow> by_sessions s' a \<noteq> None" for a
      using rel [of a] by (cases "by_sessions s' a"; cases "m a") auto
    then show ?thesis unfolding dom_def by auto
  qed
  moreover have "take (by_count s') (by_pairs s') = map Some rs" "distinct rs"
    using rs(1) by (auto simp: registry_def)
  ultimately show ?thesis using s'(1) rs(2) unfolding m_def by blast
qed

theorem base_system_refines_witness:
  "\<exists>s'. sys_op_run (created_system True)
      [SysCreate 1 True XRT_SUCCESS, SysCreate 2 False XRT_SUCCESS, SysCreate 3 True XRT_ERROR_OTHER,
       SysBroadcast (\<lambda>_. Some 7) EventLost, SysRequestExit 2 8, SysDestroy 1, SysPoll 2, SysPoll 2, SysPoll 2]
    = Inr (s', [Created XRT_SUCCESS (Some 1), Created XRT_SUCCESS (Some 2), Created XRT_ERROR_OTHER None,
       Done, Done, Done, Event EventLost, Event EventRequestExit, Event EventNone])"
proof -
  let ?ops = "[SysCreate 1 True XRT_SUCCESS, SysCreate 2 False XRT_SUCCESS, SysCreate 3 True XRT_ERROR_OTHER,
       SysBroadcast (\<lambda>_. Some 7) EventLost, SysRequestExit 2 8, SysDestroy 1, SysPoll 2, SysPoll 2, SysPoll 2]"
  have "ops_ok (created_system True) ?ops" by code_simp
  from base_system_refines [OF this] obtain s' where
    "sys_op_run (created_system True) ?ops = Inr (s', snd (abs_run True (\<lambda>_. None) ?ops))" by blast
  then show ?thesis by (simp add: abs_step_def)
qed

end
