(* ===== verification/Sink_Queue.thy ===== *)
theory Sink_Queue
  imports Fifo "HOL-Library.Multiset" "HOL-Library.Sublist"
begin

text \<open>
  The queue that decouples the producer of frames from a slow consumer,
  \<^verbatim>\<open>auxiliary/util/u_sink_queue.c\<close>: a linked list with front and back pointers, a size and an
  optional bound, a consumer thread and the shut down. It is the third provider of the contract
  \<open>fifo\<close>. \<open>sq_refs\<close> are the references to frames that the queue and its thread hold; the calls of
  the downstream consumer are recorded in \<open>sr_delivered\<close>. Each function runs under the mutex; the thread
  gives it up while it waits and while the consumer works, and the step relation interleaves there.
\<close>

section \<open>State\<close>

type_synonym frame = nat

record u_sink_queue_elem =
  el_frame :: frame
  el_next :: "addr option"

record u_sink_queue =
  sq_heap :: "addr \<Rightarrow> u_sink_queue_elem option"
  sq_front :: "addr option"
  sq_back :: "addr option"
  sq_size :: nat
  sq_max_size :: nat
  sq_running :: bool
  sq_refs :: "frame multiset"

section \<open>The queue\<close>

definition queue_is_empty :: "u_sink_queue \<Rightarrow> bool" where
  "queue_is_empty q \<longleftrightarrow> sq_size q = 0"

definition queue_is_full :: "u_sink_queue \<Rightarrow> bool" where
  "queue_is_full q \<longleftrightarrow> (let is_unbounded = (sq_max_size q = 0) in sq_size q \<ge> sq_max_size q \<and> \<not> is_unbounded)"

definition front_of :: "u_sink_queue \<Rightarrow> fault + addr" where
  "front_of q = (case sq_front q of None \<Rightarrow> Inl NullDeref | Some a \<Rightarrow> Inr a)"

definition queue_pop :: "u_sink_queue \<Rightarrow> fault + u_sink_queue \<times> frame" where
  "queue_pop q =
     try_bind (c_assert (\<not> queue_is_empty q)) (\<lambda>_.
     try_bind (front_of q) (\<lambda>old_front.
     try_bind (deref (sq_heap q) old_front) (\<lambda>e.
       let q = q\<lparr>sq_front := el_next e, sq_heap := (sq_heap q)(old_front := None), sq_size := sq_size q - 1\<rparr>
       in if sq_front q = None then
            try_bind (c_assert (queue_is_empty q)) (\<lambda>_. Inr (q\<lparr>sq_back := None\<rparr>, el_frame e))
          else Inr (q, el_frame e))))"

text \<open>\<^verbatim>\<open>xrt_frame_reference\<close> on a pointer to \<^verbatim>\<open>NULL\<close>, and to drop a reference.\<close>

definition take_ref :: "frame \<Rightarrow> u_sink_queue \<Rightarrow> u_sink_queue" where
  "take_ref xf q = q\<lparr>sq_refs := add_mset xf (sq_refs q)\<rparr>"

definition drop_ref :: "frame \<Rightarrow> u_sink_queue \<Rightarrow> u_sink_queue" where
  "drop_ref xf q = q\<lparr>sq_refs := sq_refs q - {#xf#}\<rparr>"

text \<open>\<open>mem\<close> is what \<^verbatim>\<open>calloc\<close> returns.\<close>

definition queue_try_refpush :: "u_sink_queue \<Rightarrow> addr option \<Rightarrow> frame \<Rightarrow> fault + u_sink_queue" where
  "queue_try_refpush q mem xf =
     try_bind (if queue_is_full q \<and> \<not> queue_is_empty q
               then try_bind (queue_pop q) (\<lambda>(q, old). Inr (drop_ref old q)) else Inr q) (\<lambda>q.
     case mem of
       None \<Rightarrow> Inl NullDeref
     | Some elem \<Rightarrow>
         let q = take_ref xf (q\<lparr>sq_heap := (sq_heap q)(elem \<mapsto> \<lparr>el_frame = xf, el_next = None\<rparr>)\<rparr>)
         in try_bind (case sq_back q of
                None \<Rightarrow> Inr (q\<lparr>sq_front := Some elem\<rparr>)
              | Some b \<Rightarrow> try_bind (deref (sq_heap q) b) (\<lambda>c.
                  Inr (q\<lparr>sq_heap := (sq_heap q)(b \<mapsto> c\<lparr>el_next := Some elem\<rparr>)\<rparr>))) (\<lambda>q.
              Inr (q\<lparr>sq_back := Some elem, sq_size := sq_size q + 1\<rparr>)))"

text \<open>The clearing loop; every pass removes an element, so the size bounds the passes.\<close>

primrec refclear_loop :: "nat \<Rightarrow> u_sink_queue \<Rightarrow> fault + u_sink_queue" where
  "refclear_loop 0 q = (if queue_is_empty q then Inr q else Inl OutOfFuel)"
| "refclear_loop (Suc n) q =
     (if queue_is_empty q then Inr q
      else try_bind (c_assert ((sq_size q > 1) \<noteq> (sq_front q = sq_back q))) (\<lambda>_.
           try_bind (queue_pop q) (\<lambda>(q, xf). refclear_loop n (drop_ref xf q))))"

definition queue_refclear :: "u_sink_queue \<Rightarrow> fault + u_sink_queue" where
  "queue_refclear q = refclear_loop (sq_size q) q"

section \<open>The exported functions\<close>

text \<open>\<^verbatim>\<open>queue_frame\<close> and \<^verbatim>\<open>queue_break_apart\<close> up to its join; both signal the thread.\<close>

definition queue_frame :: "u_sink_queue \<Rightarrow> addr option \<Rightarrow> frame \<Rightarrow> fault + u_sink_queue" where
  "queue_frame q mem xf = (if sq_running q then queue_try_refpush q mem xf else Inr q)"

definition queue_break_apart :: "u_sink_queue \<Rightarrow> fault + u_sink_queue" where
  "queue_break_apart q = queue_refclear (q\<lparr>sq_running := False\<rparr>)"

text \<open>The results of \<^verbatim>\<open>pthread_mutex_init\<close>, \<^verbatim>\<open>pthread_cond_init\<close> and \<^verbatim>\<open>pthread_create\<close> are arguments.\<close>

definition u_sink_queue_create :: "nat \<Rightarrow> int \<Rightarrow> int \<Rightarrow> int \<Rightarrow> u_sink_queue option" where
  "u_sink_queue_create max_size mutex_ret cond_ret thread_ret =
     (let q = \<lparr>sq_heap = (\<lambda>_. None), sq_front = None, sq_back = None, sq_size = 0, sq_max_size = max_size,
               sq_running = True, sq_refs = {#}\<rparr>
      in if mutex_ret \<noteq> 0 then None else if cond_ret \<noteq> 0 then None else if thread_ret \<noteq> 0 then None else Some q)"

section \<open>The thread\<close>

text \<open>
  Where the thread gives up the mutex: before its first pass (and after the consumer returned) it is at
  the test of its loop, then asleep (perhaps already signalled), in the consumer with a frame, or ended.
\<close>

datatype thread_pc = AtLoop | Asleep bool | Consuming frame | Ended

text \<open>From the check behind \<^verbatim>\<open>pthread_cond_wait\<close> to where the mutex is given up.\<close>

definition after_wait :: "u_sink_queue \<Rightarrow> fault + u_sink_queue \<times> thread_pc" where
  "after_wait q =
     (if \<not> sq_running q then Inr (q, Ended)
      else if queue_is_empty q then Inr (q, Asleep False)
      else try_bind (queue_pop q) (\<lambda>(q, frame). Inr (q, Consuming frame)))"

text \<open>From the test of the loop.\<close>

definition queue_mainloop :: "u_sink_queue \<Rightarrow> fault + u_sink_queue \<times> thread_pc" where
  "queue_mainloop q =
     (if \<not> sq_running q then Inr (q, Ended)
      else if queue_is_empty q then Inr (q, Asleep False)
      else after_wait q)"

record sink_run =
  sr_q :: u_sink_queue
  sr_pc :: thread_pc
  sr_accepted :: "frame list"
  sr_delivered :: "frame list"

definition signal :: "thread_pc \<Rightarrow> thread_pc" where
  "signal pc = (case pc of Asleep _ \<Rightarrow> Asleep True | _ \<Rightarrow> pc)"

definition thread_moves :: "sink_run \<Rightarrow> fault + u_sink_queue \<times> thread_pc \<Rightarrow> fault + sink_run" where
  "thread_moves r m = try_bind m (\<lambda>(q, pc).
     Inr (r\<lparr>sr_q := q, sr_pc := pc,
            sr_delivered := (case pc of Consuming f \<Rightarrow> sr_delivered r @ [f] | _ \<Rightarrow> sr_delivered r)\<rparr>))"

text \<open>The steps; a sleeping thread may wake up without a signal.\<close>

inductive sink_step :: "sink_run \<Rightarrow> fault + sink_run \<Rightarrow> bool" where
  step_frame: "sq_heap (sr_q r) a = None \<Longrightarrow> res = try_bind (queue_frame (sr_q r) (Some a) xf) (\<lambda>q.
      Inr (r\<lparr>sr_q := q, sr_pc := signal (sr_pc r),
             sr_accepted := (if sq_running (sr_q r) then sr_accepted r @ [xf] else sr_accepted r)\<rparr>))
    \<Longrightarrow> sink_step r res"
| step_break: "sq_running (sr_q r) \<Longrightarrow> res = try_bind (queue_break_apart (sr_q r)) (\<lambda>q.
      Inr (r\<lparr>sr_q := q, sr_pc := signal (sr_pc r)\<rparr>)) \<Longrightarrow> sink_step r res"
| step_loop: "sr_pc r = AtLoop \<Longrightarrow> res = thread_moves r (queue_mainloop (sr_q r)) \<Longrightarrow> sink_step r res"
| step_wake: "sr_pc r = Asleep b \<Longrightarrow> res = thread_moves r (after_wait (sr_q r)) \<Longrightarrow> sink_step r res"
| step_consumed: "sr_pc r = Consuming f \<Longrightarrow>
    sink_step r (Inr (r\<lparr>sr_q := drop_ref f (sr_q r), sr_pc := AtLoop\<rparr>))"

definition sink_start :: "nat \<Rightarrow> sink_run" where
  "sink_start max_size = \<lparr>sr_q = the (u_sink_queue_create max_size 0 0 0), sr_pc = AtLoop,
     sr_accepted = [], sr_delivered = []\<rparr>"

inductive sink_reach :: "nat \<Rightarrow> sink_run \<Rightarrow> bool" for max_size where
  reach_start: "sink_reach max_size (sink_start max_size)"
| reach_step: "sink_reach max_size r \<Longrightarrow> sink_step r (Inr r') \<Longrightarrow> sink_reach max_size r'"

section \<open>The list is intact\<close>

definition elems :: "u_sink_queue \<Rightarrow> addr list \<Rightarrow> frame list \<Rightarrow> bool" where
  "elems q as fs \<longleftrightarrow> chain el_next (sq_heap q) (sq_front q) as \<and> distinct as \<and> dom (sq_heap q) = set as
     \<and> map (\<lambda>a. map_option el_frame (sq_heap q a)) as = map Some fs
     \<and> sq_back q = (if as = [] then None else Some (last as)) \<and> sq_size q = length fs"

definition queued :: "u_sink_queue \<Rightarrow> frame list \<Rightarrow> bool" where
  "queued q fs \<longleftrightarrow> (\<exists>as. elems q as fs)"

lemma elems_length: "elems q as fs \<Longrightarrow> length as = length fs"
  unfolding elems_def by (metis length_map)

lemma queued_empty: "queued q fs \<Longrightarrow> queue_is_empty q \<longleftrightarrow> fs = []"
  by (auto simp: queued_def elems_def queue_is_empty_def)

lemma queued_size: "queued q fs \<Longrightarrow> sq_size q = length fs"
  by (auto simp: queued_def elems_def)

lemma queued_refs [simp]: "queued (take_ref f q) fs \<longleftrightarrow> queued q fs" "queued (drop_ref f q) fs \<longleftrightarrow> queued q fs"
  "queued (q\<lparr>sq_running := b\<rparr>) fs \<longleftrightarrow> queued q fs" "queued (q\<lparr>sq_refs := rs\<rparr>) fs \<longleftrightarrow> queued q fs"
  by (simp_all add: queued_def elems_def take_ref_def drop_ref_def)

definition same_rest :: "u_sink_queue \<Rightarrow> u_sink_queue \<Rightarrow> bool" where
  "same_rest q' q \<longleftrightarrow> sq_max_size q' = sq_max_size q \<and> sq_running q' = sq_running q"

lemma queue_pop_queued:
  assumes "queued q (f # fs)"
  shows "\<exists>q'. queue_pop q = Inr (q', f) \<and> queued q' fs \<and> sq_refs q' = sq_refs q \<and> same_rest q' q
    \<and> dom (sq_heap q') \<subseteq> dom (sq_heap q)"
proof -
  from assms obtain cs where cs: "elems q cs (f # fs)" by (auto simp: queued_def)
  then obtain a as where "cs = a # as" by (cases cs) (auto simp: elems_def)
  with cs have e: "elems q (a # as) (f # fs)" by simp
  then obtain c where c: "sq_front q = Some a" "sq_heap q a = Some c" "el_frame c = f" "a \<notin> set as" "distinct as"
    "chain el_next (sq_heap q) (el_next c) as" "dom (sq_heap q) = insert a (set as)"
    "map (\<lambda>a. map_option el_frame (sq_heap q a)) as = map Some fs" "sq_size q = Suc (length fs)"
    "sq_back q = Some (last (a # as))"
    by (auto simp: elems_def)
  have len: "length as = length fs" using elems_length [OF e] by simp
  let ?q = "q\<lparr>sq_front := el_next c, sq_heap := (sq_heap q)(a := None), sq_size := length fs,
    sq_back := (if as = [] then None else sq_back q)\<rparr>"
  have nil: "el_next c = None \<longleftrightarrow> as = []" using c(6) by (cases as) auto
  have "queue_pop q = Inr (?q, f)"
    using c(1,2,3,9) nil len by (auto simp: queue_pop_def queue_is_empty_def front_of_def Let_def)
  moreover have "map (\<lambda>b. map_option el_frame (sq_heap ?q b)) as = map (\<lambda>b. map_option el_frame (sq_heap q b)) as"
    using c(4) by (intro map_cong) auto
  then have "elems ?q as fs"
    using c len by (auto simp: elems_def chain_frame)
  ultimately show ?thesis using c(7) by (auto simp: queued_def same_rest_def)
qed

text \<open>Linking a new element.\<close>

definition append_elem :: "u_sink_queue \<Rightarrow> addr \<Rightarrow> frame \<Rightarrow> fault + u_sink_queue" where
  "append_elem q elem xf = try_bind (case sq_back q of
        None \<Rightarrow> Inr (q\<lparr>sq_heap := (sq_heap q)(elem \<mapsto> \<lparr>el_frame = xf, el_next = None\<rparr>), sq_front := Some elem\<rparr>)
      | Some b \<Rightarrow> try_bind (deref ((sq_heap q)(elem \<mapsto> \<lparr>el_frame = xf, el_next = None\<rparr>)) b) (\<lambda>c.
          Inr (q\<lparr>sq_heap := (sq_heap q)(elem \<mapsto> \<lparr>el_frame = xf, el_next = None\<rparr>, b \<mapsto> c\<lparr>el_next := Some elem\<rparr>)\<rparr>)))
      (\<lambda>q. Inr (take_ref xf (q\<lparr>sq_back := Some elem, sq_size := sq_size q + 1\<rparr>)))"

lemma append_elem_queued:
  assumes "queued q fs" and "sq_heap q a = None"
  shows "\<exists>q'. append_elem q a xf = Inr q' \<and> queued q' (fs @ [xf]) \<and> sq_refs q' = add_mset xf (sq_refs q) \<and> same_rest q' q"
proof -
  from assms(1) obtain as where e: "elems q as fs" by (auto simp: queued_def)
  have na: "a \<notin> set as" using e assms(2) by (auto simp: elems_def domIff)
  let ?n = "\<lparr>el_frame = xf, el_next = None\<rparr>"
  show ?thesis
  proof (cases as rule: rev_cases)
    case Nil
    with e show ?thesis
      by (auto simp: append_elem_def take_ref_def elems_def queued_def same_rest_def intro!: exI [of _ "[a]"])
  next
    case (snoc bs l)
    then have "l \<in> set as" by simp
    then obtain c where c: "sq_heap q l = Some c"
      using e chain_dom [of el_next "sq_heap q" "sq_front q" as] by (auto simp: elems_def)
    have la: "l \<noteq> a" using na snoc by auto
    let ?q = "take_ref xf (q\<lparr>sq_heap := (sq_heap q)(a \<mapsto> ?n, l \<mapsto> c\<lparr>el_next := Some a\<rparr>), sq_back := Some a,
      sq_size := sq_size q + 1\<rparr>)"
    have "append_elem q a xf = Inr ?q"
      using e snoc c la by (simp add: append_elem_def elems_def)
    moreover have "elems ?q (as @ [a]) (fs @ [xf])"
      unfolding elems_def
    proof (intro conjI)
      show "chain el_next (sq_heap ?q) (sq_front ?q) (as @ [a])"
        using chain_snoc [of el_next "sq_heap q" "sq_front q" bs l a "c\<lparr>el_next := Some a\<rparr>" ?n] e snoc na
        by (simp add: elems_def take_ref_def)
      show "dom (sq_heap ?q) = set (as @ [a])" using e snoc by (auto simp: elems_def take_ref_def)
      have "map_option el_frame (sq_heap ?q b) = map_option el_frame (sq_heap q b)" if "b \<in> set as" for b
        using that na c by (auto simp: take_ref_def)
      moreover have "map_option el_frame (sq_heap ?q a) = Some xf" using la by (simp add: take_ref_def)
      ultimately show "map (\<lambda>b. map_option el_frame (sq_heap ?q b)) (as @ [a]) = map Some (fs @ [xf])"
        using e by (simp add: elems_def cong: map_cong)
    qed (use e na in \<open>simp_all add: elems_def take_ref_def\<close>)
    ultimately show ?thesis by (auto simp: queued_def take_ref_def same_rest_def)
  qed
qed

lemma queue_try_refpush_append:
  "queue_try_refpush q (Some a) xf = try_bind (if queue_is_full q \<and> \<not> queue_is_empty q
      then try_bind (queue_pop q) (\<lambda>(q, old). Inr (drop_ref old q)) else Inr q) (\<lambda>q. append_elem q a xf)"
  unfolding queue_try_refpush_def append_elem_def
  by (intro arg_cong2 [where f = try_bind] refl ext)
    (auto simp: Let_def take_ref_def deref_def try_bind_def split: option.splits)

text \<open>What a push keeps: all frames, or all but the oldest when the bound is reached.\<close>

definition bounded_push :: "nat \<Rightarrow> frame list \<Rightarrow> frame \<Rightarrow> frame list" where
  "bounded_push max_size fs xf = (if max_size \<noteq> 0 \<and> length fs \<ge> max_size then tl fs @ [xf] else fs @ [xf])"

lemma queue_try_refpush_queued:
  assumes "queued q fs" and "sq_heap q a = None" and "sq_refs q = mset fs + x"
  shows "\<exists>q'. queue_try_refpush q (Some a) xf = Inr q' \<and> queued q' (bounded_push (sq_max_size q) fs xf)
    \<and> sq_refs q' = mset (bounded_push (sq_max_size q) fs xf) + x \<and> same_rest q' q"
proof (cases "sq_max_size q \<noteq> 0 \<and> length fs \<ge> sq_max_size q")
  case True
  then obtain f gs where fs: "fs = f # gs" by (cases fs) auto
  have full: "queue_is_full q \<and> \<not> queue_is_empty q"
    using True fs queued_size [OF assms(1)] by (simp add: queue_is_full_def queue_is_empty_def Let_def)
  from queue_pop_queued [of q f gs] assms(1) fs obtain q1 where
    q1: "queue_pop q = Inr (q1, f)" "queued q1 gs" "sq_refs q1 = sq_refs q" "same_rest q1 q"
      "dom (sq_heap q1) \<subseteq> dom (sq_heap q)" by auto
  have "sq_heap (drop_ref f q1) a = None" using q1(5) assms(2) by (auto simp: drop_ref_def)
  from append_elem_queued [OF _ this, of gs xf] q1(2) obtain q2 where
    q2: "append_elem (drop_ref f q1) a xf = Inr q2" "queued q2 (gs @ [xf])"
      "sq_refs q2 = add_mset xf (sq_refs (drop_ref f q1))" "same_rest q2 (drop_ref f q1)" by auto
  have "sq_refs q2 = mset (gs @ [xf]) + x"
    using q2(3) q1(3) assms(3) fs by (simp add: drop_ref_def)
  moreover have "same_rest q2 q" using q2(4) q1(4) by (simp add: same_rest_def drop_ref_def)
  ultimately show ?thesis
    using True full q1(1) q2 fs by (simp add: queue_try_refpush_append bounded_push_def)
next
  case False
  then have "\<not> (queue_is_full q \<and> \<not> queue_is_empty q)"
    using queued_size [OF assms(1)] by (auto simp: queue_is_full_def Let_def)
  with append_elem_queued [OF assms(1,2), of xf] assms(3) False show ?thesis
    by (auto simp: queue_try_refpush_append bounded_push_def)
qed

lemma refclear_loop_queued:
  assumes "queued q fs" and "sq_refs q = mset fs + x" and "length fs \<le> n"
  shows "\<exists>q'. refclear_loop n q = Inr q' \<and> queued q' [] \<and> sq_refs q' = x \<and> same_rest q' q"
  using assms
proof (induction n arbitrary: q fs)
  case 0
  then show ?case by (simp add: queued_empty same_rest_def)
next
  case (Suc n)
  show ?case
  proof (cases fs)
    case Nil
    with Suc.prems show ?thesis by (auto simp: queued_empty same_rest_def)
  next
    case (Cons f gs)
    with Suc.prems(1) obtain as where e: "elems q as (f # gs)" by (auto simp: queued_def)
    then obtain a bs where as: "as = a # bs" by (cases as) (auto simp: elems_def)
    with e have "length gs = length bs" using elems_length [OF e] by simp
    then have "(sq_size q > 1) \<noteq> (sq_front q = sq_back q)"
      using e as last_in_set [of bs] by (auto simp: elems_def)
    moreover from Cons Suc.prems(1) queue_pop_queued [of q f gs] obtain q1 where
      q1: "queue_pop q = Inr (q1, f)" "queued q1 gs" "sq_refs q1 = sq_refs q" "same_rest q1 q" by auto
    moreover have "queued (drop_ref f q1) gs" "sq_refs (drop_ref f q1) = mset gs + x"
      using q1(2,3) Suc.prems(2) Cons by (simp_all add: drop_ref_def)
    with Suc.IH [of "drop_ref f q1" gs] Suc.prems(3) Cons obtain q2 where
      "refclear_loop n (drop_ref f q1) = Inr q2" "queued q2 []" "sq_refs q2 = x" "same_rest q2 (drop_ref f q1)" by auto
    ultimately show ?thesis
      using Suc.prems(1) Cons by (auto simp: queued_empty same_rest_def drop_ref_def)
  qed
qed

text \<open>The contract, on queues without a bound.\<close>

definition sink_push :: "u_sink_queue \<Rightarrow> addr \<Rightarrow> frame \<Rightarrow> fault + u_sink_queue" where
  "sink_push q a xf = queue_try_refpush q (Some a) xf"

definition sink_pop :: "u_sink_queue \<Rightarrow> fault + u_sink_queue \<times> frame option" where
  "sink_pop q = (if queue_is_empty q then Inr (q, None)
     else try_bind (queue_pop q) (\<lambda>(q, f). Inr (drop_ref f q, Some f)))"

definition unbounded_holds :: "u_sink_queue \<Rightarrow> frame list \<Rightarrow> bool" where
  "unbounded_holds q fs \<longleftrightarrow> queued q fs \<and> sq_refs q = mset fs \<and> sq_max_size q = 0"

definition cell_free :: "u_sink_queue \<Rightarrow> addr \<Rightarrow> bool" where
  "cell_free q a \<longleftrightarrow> sq_heap q a = None"

interpretation sq: fifo unbounded_holds sink_push sink_pop cell_free
proof unfold_locales
  fix q fs a d
  assume "unbounded_holds q fs" and "cell_free q a"
  with queue_try_refpush_queued [of q fs a "{#}" d] show "\<exists>q'. sink_push q a d = Inr q' \<and> unbounded_holds q' (fs @ [d])"
    by (auto simp: unbounded_holds_def cell_free_def sink_push_def bounded_push_def same_rest_def)
next
  fix q
  assume h: "unbounded_holds q []"
  then have "queue_is_empty q" using queued_empty [of q "[]"] by (simp add: unbounded_holds_def)
  with h show "\<exists>q'. sink_pop q = Inr (q', None) \<and> unbounded_holds q' []"
    by (simp add: unbounded_holds_def sink_pop_def)
next
  fix q d fs
  assume h: "unbounded_holds q (d # fs)"
  then have "queued q (d # fs)" by (simp add: unbounded_holds_def)
  from queue_pop_queued [OF this] queued_empty [OF this] h
  show "\<exists>q'. sink_pop q = Inr (q', Some d) \<and> unbounded_holds q' fs"
    by (auto simp: unbounded_holds_def sink_pop_def same_rest_def drop_ref_def)
qed

section \<open>The invariant of the threads\<close>

definition in_flight :: "thread_pc \<Rightarrow> frame list" where
  "in_flight pc = (case pc of Consuming f \<Rightarrow> [f] | _ \<Rightarrow> [])"

lemma in_flight_simps [simp]:
  "in_flight (Consuming f) = [f]" "in_flight (Asleep b) = []" "in_flight AtLoop = []" "in_flight Ended = []"
  by (simp_all add: in_flight_def)

lemma in_flight_signal [simp]: "in_flight (signal pc) = in_flight pc"
  by (simp add: in_flight_def signal_def split: thread_pc.split)

text \<open>
  The queue is intact and holds \<open>fs\<close>; references are those of the queue and of the frame at the consumer; what
  was delivered and what waits are accepted frames in order; a thread that sleeps unsignalled has
  nothing to do.
\<close>

definition sink_ok :: "nat \<Rightarrow> sink_run \<Rightarrow> frame list \<Rightarrow> bool" where
  "sink_ok max_size r fs \<longleftrightarrow> queued (sr_q r) fs \<and> sq_max_size (sr_q r) = max_size
     \<and> sq_refs (sr_q r) = mset fs + mset (in_flight (sr_pc r))
     \<and> (max_size \<noteq> 0 \<longrightarrow> length fs \<le> max_size)
     \<and> subseq (sr_delivered r @ fs) (sr_accepted r)
     \<and> (max_size = 0 \<and> sq_running (sr_q r) \<longrightarrow> sr_delivered r @ fs = sr_accepted r)
     \<and> (\<not> sq_running (sr_q r) \<longrightarrow> fs = [])
     \<and> (sr_pc r = Asleep False \<longrightarrow> fs = [] \<and> sq_running (sr_q r))
     \<and> (sr_pc r = Ended \<longrightarrow> \<not> sq_running (sr_q r))"

lemma bounded_push_length: "n \<noteq> 0 \<Longrightarrow> length fs \<le> n \<Longrightarrow> length (bounded_push n fs x) \<le> n"
  by (auto simp: bounded_push_def)

lemma bounded_push_subseq: "subseq (ds @ fs) as \<Longrightarrow> subseq (ds @ bounded_push n fs x) (as @ [x])"
proof -
  assume s: "subseq (ds @ fs) as"
  have "subseq (ds @ tl fs) (ds @ fs)" by (cases fs) (auto intro!: list_emb_append_mono)
  with s have "subseq (ds @ tl fs) as" by (rule subseq_order.trans [rotated])
  moreover have snoc: "subseq ys as \<Longrightarrow> subseq (ys @ [x]) (as @ [x])" for ys
    by (intro list_emb_append_mono) auto
  ultimately show ?thesis
    using s snoc [of "ds @ fs"] snoc [of "ds @ tl fs"] by (simp add: bounded_push_def)
qed

lemma frame_keeps:
  assumes "sink_ok n r fs" and "sq_heap (sr_q r) a = None"
  shows "\<exists>q. queue_frame (sr_q r) (Some a) xf = Inr q
    \<and> (\<exists>fs'. sink_ok n (r\<lparr>sr_q := q, sr_pc := signal (sr_pc r),
          sr_accepted := (if sq_running (sr_q r) then sr_accepted r @ [xf] else sr_accepted r)\<rparr>) fs')"
proof (cases "sq_running (sr_q r)")
  case False
  with assms(1) show ?thesis
    by (intro exI [of _ "sr_q r"]) (auto simp: queue_frame_def sink_ok_def signal_def split: thread_pc.splits)
next
  case True
  let ?fs = "bounded_push n fs xf"
  from queue_try_refpush_queued [of "sr_q r" fs a "mset (in_flight (sr_pc r))" xf] assms obtain q where
    q: "queue_try_refpush (sr_q r) (Some a) xf = Inr q" "queued q ?fs"
      "sq_refs q = mset ?fs + mset (in_flight (sr_pc r))" "same_rest q (sr_q r)"
    by (auto simp: sink_ok_def)
  have "sink_ok n (r\<lparr>sr_q := q, sr_pc := signal (sr_pc r), sr_accepted := sr_accepted r @ [xf]\<rparr>) ?fs"
    unfolding sink_ok_def
  proof (intro conjI impI)
    show "subseq (sr_delivered (r\<lparr>sr_q := q, sr_pc := signal (sr_pc r), sr_accepted := sr_accepted r @ [xf]\<rparr>) @ ?fs)
        (sr_accepted (r\<lparr>sr_q := q, sr_pc := signal (sr_pc r), sr_accepted := sr_accepted r @ [xf]\<rparr>))"
      using assms(1) by (simp add: sink_ok_def bounded_push_subseq)
  qed (use q assms(1) True in \<open>auto simp: sink_ok_def same_rest_def bounded_push_length bounded_push_def signal_def
      split: thread_pc.splits\<close>)
  with q(1) True show ?thesis by (auto simp: queue_frame_def)
qed

lemma break_keeps:
  assumes "sink_ok n r fs"
  shows "\<exists>q. queue_break_apart (sr_q r) = Inr q \<and> sink_ok n (r\<lparr>sr_q := q, sr_pc := signal (sr_pc r)\<rparr>) []"
proof -
  let ?q = "(sr_q r)\<lparr>sq_running := False\<rparr>"
  from assms have q0: "queued ?q fs" "sq_refs ?q = mset fs + mset (in_flight (sr_pc r))" "length fs \<le> sq_size ?q"
    by (auto simp: sink_ok_def queued_size)
  from refclear_loop_queued [OF q0] obtain q where
    q: "refclear_loop (sq_size ?q) ?q = Inr q" "queued q []" "sq_refs q = mset (in_flight (sr_pc r))" "same_rest q ?q" by blast
  have "subseq (sr_delivered r) (sr_accepted r)"
    using assms unfolding sink_ok_def by (meson list_emb_append2 subseq_order.order_trans subseq_order.order_refl list_emb_prefix)
  with q assms have "sink_ok n (r\<lparr>sr_q := q, sr_pc := signal (sr_pc r)\<rparr>) []"
    by (auto simp: sink_ok_def same_rest_def signal_def split: thread_pc.splits)
  with q(1) show ?thesis by (auto simp: queue_break_apart_def queue_refclear_def)
qed

lemma after_wait_keeps:
  assumes "sink_ok n r fs" and "in_flight (sr_pc r) = []"
  shows "\<exists>r'. thread_moves r (after_wait (sr_q r)) = Inr r' \<and> (\<exists>fs'. sink_ok n r' fs')"
proof -
  have qd: "queued (sr_q r) fs" using assms(1) by (simp add: sink_ok_def)
  consider "\<not> sq_running (sr_q r)" | "sq_running (sr_q r)" "fs = []" | f gs where "sq_running (sr_q r)" "fs = f # gs"
    by (cases fs) auto
  then show ?thesis
  proof cases
    case 1
    with assms show ?thesis
      by (auto simp: thread_moves_def after_wait_def sink_ok_def)
  next
    case 2
    with assms queued_empty [OF qd] show ?thesis
      by (auto simp: thread_moves_def after_wait_def sink_ok_def)
  next
    case 3
    from queue_pop_queued [of "sr_q r" f gs] qd 3 obtain q where
      q: "queue_pop (sr_q r) = Inr (q, f)" "queued q gs" "sq_refs q = sq_refs (sr_q r)" "same_rest q (sr_q r)" by auto
    let ?r = "r\<lparr>sr_q := q, sr_pc := Consuming f, sr_delivered := sr_delivered r @ [f]\<rparr>"
    have "thread_moves r (after_wait (sr_q r)) = Inr ?r"
      using 3 q(1) queued_empty [OF qd] by (simp add: thread_moves_def after_wait_def)
    moreover have "sink_ok n ?r gs"
      using assms 3 q by (auto simp: sink_ok_def same_rest_def)
    ultimately show ?thesis by blast
  qed
qed

lemma queue_mainloop_after_wait: "queue_mainloop q = after_wait q"
  by (simp add: queue_mainloop_def after_wait_def)

lemma sink_step_keeps:
  assumes "sink_step r res" and "sink_ok n r fs"
  shows "\<exists>r' fs'. res = Inr r' \<and> sink_ok n r' fs'"
  using assms(1)
proof cases
  case (step_frame a xf)
  with frame_keeps [OF assms(2), of a xf] show ?thesis by auto
next
  case step_break
  with break_keeps [OF assms(2)] show ?thesis by auto
next
  case step_loop
  with after_wait_keeps [OF assms(2)] show ?thesis by (auto simp: queue_mainloop_after_wait)
next
  case (step_wake b)
  with after_wait_keeps [OF assms(2)] show ?thesis by (auto simp:)
next
  case (step_consumed f)
  with assms(2) have "sink_ok n (r\<lparr>sr_q := drop_ref f (sr_q r), sr_pc := AtLoop\<rparr>) fs"
    by (auto simp: sink_ok_def in_flight_def drop_ref_def)
  with step_consumed show ?thesis by blast
qed

lemma sink_start_ok: "sink_ok n (sink_start n) []"
  by (auto simp: sink_ok_def sink_start_def u_sink_queue_create_def Let_def queued_def elems_def)

lemma sink_reach_ok: "sink_reach n r \<Longrightarrow> \<exists>fs. sink_ok n r fs"
proof (induction rule: sink_reach.induct)
  case reach_start
  then show ?case using sink_start_ok by blast
next
  case (reach_step r r')
  then show ?case using sink_step_keeps by blast
qed



end
