(* ===== verification/Worker_Pool.thy ===== *)
theory Worker_Pool
  imports Prelude
begin

text \<open>
  The worker pool, \<^verbatim>\<open>auxiliary/util/u_worker.c\<close>: an array of tasks shared by several groups, worker
  threads that take tasks from it while fewer than \<open>p_limit\<close> of them work, and callers that wait for the
  tasks of their group and raise that limit while they wait. Every stretch of code between taking and
  giving up the mutex is one function; \<open>wp_step\<close> interleaves those of all threads. A condition variable
  is the list of the threads asleep in it, and the argument \<open>k\<close> of the functions that signal is the
  scheduler's choice of the thread that is woken. Counters are natural numbers; that none is decremented
  at zero is part of the invariant, which equates them with the numbers they count.
\<close>

section \<open>State\<close>

record task =
  tk_g :: "addr option"
  tk_func :: "nat option"
  tk_data :: nat

record wk_group =
  g_tasks_in_array :: nat
  g_working :: nat
  g_released :: nat
  g_waiting_count :: nat
  g_waiting_cond :: "nat list"

record wk_pool =
  p_refs :: nat
  p_tasks :: "task list"
  p_tasks_count :: nat
  p_avail_count :: nat
  p_avail_cond :: "nat list"
  p_initial_limit :: nat
  p_limit :: nat
  p_working :: nat
  p_thread_count :: nat
  p_running :: bool
  p_groups :: "addr \<Rightarrow> wk_group option"

abbreviation no_task :: task where
  "no_task \<equiv> \<lparr>tk_g = None, tk_func = None, tk_data = 0\<rparr>"

definition MAX_TASK_COUNT :: nat where
  "MAX_TASK_COUNT = 64"

definition MAX_THREAD_COUNT :: nat where
  "MAX_THREAD_COUNT = 16"

text \<open>\<^verbatim>\<open>pthread_cond_signal\<close> wakes one of the threads asleep, if there are any.\<close>

definition wake_one :: "nat \<Rightarrow> nat list \<Rightarrow> nat list" where
  "wake_one k ws = (if ws = [] then [] else remove1 (ws ! (k mod length ws)) ws)"

definition upd_group :: "wk_pool \<Rightarrow> addr \<Rightarrow> (wk_group \<Rightarrow> wk_group) \<Rightarrow> fault + wk_pool" where
  "upd_group p g f = try_bind (deref (p_groups p) g) (\<lambda>c. Inr (p\<lparr>p_groups := (p_groups p)(g \<mapsto> f c)\<rparr>))"

text \<open>The dereference of a pointer that may be \<^verbatim>\<open>NULL\<close>.\<close>

definition task_group :: "task \<Rightarrow> fault + addr" where
  "task_group t = (case tk_g t of None \<Rightarrow> Inl NullDeref | Some g \<Rightarrow> Inr g)"

section \<open>Internal functions of the pool\<close>

definition locked_pool_pop_task :: "wk_pool \<Rightarrow> fault + wk_pool \<times> task" where
  "locked_pool_pop_task p =
     try_bind (c_assert (p_tasks_count p > 0)) (\<lambda>_.
     case find_index (\<lambda>t. tk_func t \<noteq> None) (p_tasks p) of
       None \<Rightarrow> Inl AssertFailed
     | Some i \<Rightarrow>
         let t = p_tasks p ! i; p = p\<lparr>p_tasks := (p_tasks p)[i := no_task], p_tasks_count := p_tasks_count p - 1\<rparr>
         in try_bind (task_group t) (\<lambda>g.
            try_bind (upd_group p g (\<lambda>c. c\<lparr>g_tasks_in_array := g_tasks_in_array c - 1\<rparr>)) (\<lambda>p.
            try_bind (upd_group p g (\<lambda>c. c\<lparr>g_working := g_working c + 1\<rparr>)) (\<lambda>p. Inr (p, t)))))"

definition locked_pool_push_task :: "wk_pool \<Rightarrow> addr \<Rightarrow> nat option \<Rightarrow> nat \<Rightarrow> fault + wk_pool" where
  "locked_pool_push_task p g func data =
     try_bind (c_assert (p_tasks_count p < MAX_TASK_COUNT)) (\<lambda>_.
     case find_index (\<lambda>t. tk_func t = None) (p_tasks p) of
       None \<Rightarrow> Inl AssertFailed
     | Some i \<Rightarrow>
         upd_group (p\<lparr>p_tasks := (p_tasks p)[i := \<lparr>tk_g = Some g, tk_func = func, tk_data = data\<rparr>],
                      p_tasks_count := p_tasks_count p + 1\<rparr>)
                   g (\<lambda>c. c\<lparr>g_tasks_in_array := g_tasks_in_array c + 1\<rparr>))"

definition signal_available :: "nat \<Rightarrow> wk_pool \<Rightarrow> wk_pool" where
  "signal_available k p = p\<lparr>p_avail_cond := wake_one k (p_avail_cond p)\<rparr>"

definition locked_pool_wake_worker_if_allowed :: "nat \<Rightarrow> wk_pool \<Rightarrow> wk_pool" where
  "locked_pool_wake_worker_if_allowed k p =
     (if p_tasks_count p = 0 then p
      else if p_working p \<ge> p_limit p then p
      else if p_avail_count p = 0 then p
      else signal_available k p)"

section \<open>Internal functions of a group\<close>

definition locked_group_has_tasks_waiting_or_inflight :: "wk_group \<Rightarrow> bool" where
  "locked_group_has_tasks_waiting_or_inflight c \<longleftrightarrow> \<not> (g_tasks_in_array c = 0 \<and> g_working c = 0)"

definition locked_group_should_wait :: "nat \<Rightarrow> wk_pool \<Rightarrow> addr \<Rightarrow> fault + wk_pool \<times> bool" where
  "locked_group_should_wait k p g =
     try_bind (deref (p_groups p) g) (\<lambda>c.
     if locked_group_has_tasks_waiting_or_inflight c then
       if g_released c > 0 then
         try_bind (upd_group p g (\<lambda>c. c\<lparr>g_released := g_released c - 1\<rparr>)) (\<lambda>p.
         Inr (locked_pool_wake_worker_if_allowed k (p\<lparr>p_limit := p_limit p + 1\<rparr>), True))
       else Inr (p, True)
     else if g_released c > 0 then
       try_bind (upd_group p g (\<lambda>c. c\<lparr>g_released := g_released c - 1\<rparr>)) (\<lambda>p. Inr (p, False))
     else Inr (p, True))"

definition locked_group_wake_waiter_if_allowed :: "nat \<Rightarrow> wk_pool \<Rightarrow> addr \<Rightarrow> fault + wk_pool" where
  "locked_group_wake_waiter_if_allowed k p g =
     try_bind (deref (p_groups p) g) (\<lambda>c.
     if locked_group_has_tasks_waiting_or_inflight c then Inr p
     else if g_waiting_count c = 0 then Inr p
     else
       try_bind (upd_group p g (\<lambda>c. c\<lparr>g_waiting_cond := wake_one k (g_waiting_cond c)\<rparr>)) (\<lambda>p.
       try_bind (c_assert (p_limit p > p_initial_limit p)) (\<lambda>_.
       upd_group (p\<lparr>p_limit := p_limit p - 1\<rparr>) g (\<lambda>c. c\<lparr>g_released := g_released c + 1\<rparr>))))"

text \<open>\<^verbatim>\<open>locked_group_wait\<close> gives up the mutex in the middle: up to there, and from there on.\<close>

definition locked_group_wait :: "nat \<Rightarrow> wk_pool \<Rightarrow> addr \<Rightarrow> fault + wk_pool" where
  "locked_group_wait tid p g =
     try_bind (upd_group p g (\<lambda>c. c\<lparr>g_waiting_count := g_waiting_count c + 1\<rparr>)) (\<lambda>p.
     upd_group p g (\<lambda>c. c\<lparr>g_waiting_cond := g_waiting_cond c @ [tid]\<rparr>))"

definition locked_group_wait_end :: "wk_pool \<Rightarrow> addr \<Rightarrow> fault + wk_pool" where
  "locked_group_wait_end p g = upd_group p g (\<lambda>c. c\<lparr>g_waiting_count := g_waiting_count c - 1\<rparr>)"

section \<open>The worker threads\<close>

text \<open>Where a worker thread gives up the mutex, or has not taken it yet.\<close>

datatype worker_pc = W_Start | W_Waiting | W_Busy task | W_Ended

definition locked_thread_allowed_to_work :: "wk_pool \<Rightarrow> bool" where
  "locked_thread_allowed_to_work p =
     (if p_tasks_count p = 0 then False else if p_working p \<ge> p_limit p then False else True)"

definition locked_thread_wait_for_work :: "nat \<Rightarrow> wk_pool \<Rightarrow> wk_pool" where
  "locked_thread_wait_for_work tid p =
     p\<lparr>p_avail_count := p_avail_count p + 1, p_avail_cond := p_avail_cond p @ [tid]\<rparr>"

definition locked_thread_wait_end :: "wk_pool \<Rightarrow> wk_pool" where
  "locked_thread_wait_end p = p\<lparr>p_avail_count := p_avail_count p - 1\<rparr>"

text \<open>\<^verbatim>\<open>run_func\<close> from the test of its loop until it gives up the mutex.\<close>

definition run_func_loop :: "nat \<Rightarrow> nat \<Rightarrow> wk_pool \<Rightarrow> fault + wk_pool \<times> worker_pc" where
  "run_func_loop k tid p =
     (if \<not> p_running p then Inr (signal_available k p, W_Ended)
      else if \<not> locked_thread_allowed_to_work p then Inr (locked_thread_wait_for_work tid p, W_Waiting)
      else try_bind (locked_pool_pop_task p) (\<lambda>(p, t).
           Inr (locked_pool_wake_worker_if_allowed k (p\<lparr>p_working := p_working p + 1\<rparr>), W_Busy t)))"

text \<open>Behind the call of the task's function, up to the end of the loop's body.\<close>

definition run_func_done :: "nat \<Rightarrow> wk_pool \<Rightarrow> task \<Rightarrow> fault + wk_pool" where
  "run_func_done k p t =
     (let p = p\<lparr>p_working := p_working p - 1\<rparr>
      in try_bind (task_group t) (\<lambda>g.
         try_bind (upd_group p g (\<lambda>c. c\<lparr>g_working := g_working c - 1\<rparr>)) (\<lambda>p.
         try_bind (deref (p_groups p) g) (\<lambda>c.
         try_bind (c_assert (g_tasks_in_array c \<le> p_tasks_count p)) (\<lambda>_.
         locked_group_wake_waiter_if_allowed k p g)))))"

text \<open>
  What a worker does when it gets the mutex; a thread asleep in the condition variable does not. \<open>kw\<close>
  chooses the waiter, \<open>k\<close> the worker that is signalled.
\<close>

definition run_func :: "nat \<Rightarrow> nat \<Rightarrow> nat \<Rightarrow> wk_pool \<Rightarrow> worker_pc \<Rightarrow> fault + wk_pool \<times> worker_pc" where
  "run_func k kw tid p pc =
     (case pc of
        W_Start \<Rightarrow> run_func_loop k tid p
      | W_Waiting \<Rightarrow> if tid \<in> set (p_avail_cond p) then Inr (p, pc) else run_func_loop k tid (locked_thread_wait_end p)
      | W_Busy t \<Rightarrow> try_bind (run_func_done kw p t) (run_func_loop k tid)
      | W_Ended \<Rightarrow> Inr (p, pc))"

section \<open>The exported functions of the pool\<close>

text \<open>The results of \<^verbatim>\<open>os_mutex_init\<close> and \<^verbatim>\<open>os_cond_init\<close> are arguments.\<close>

definition u_worker_thread_pool_create :: "nat \<Rightarrow> nat \<Rightarrow> int \<Rightarrow> int \<Rightarrow> fault + wk_pool option" where
  "u_worker_thread_pool_create starting_worker_count thread_count mutex_ret cond_ret =
     try_bind (c_assert (starting_worker_count \<le> thread_count)) (\<lambda>_.
     if starting_worker_count > thread_count then Inr None else
     try_bind (c_assert (thread_count \<le> MAX_THREAD_COUNT)) (\<lambda>_.
     if thread_count > MAX_THREAD_COUNT then Inr None else
     if mutex_ret \<noteq> 0 then Inr None else
     if cond_ret \<noteq> 0 then Inr None else
     Inr (Some \<lparr>p_refs = 1, p_tasks = replicate MAX_TASK_COUNT no_task, p_tasks_count = 0, p_avail_count = 0,
                p_avail_cond = [], p_initial_limit = starting_worker_count, p_limit = starting_worker_count,
                p_working = 0, p_thread_count = thread_count, p_running = True, p_groups = (\<lambda>_. None)\<rparr>)))"

text \<open>\<^verbatim>\<open>u_worker_thread_pool_destroy\<close> up to its joins.\<close>

definition u_worker_thread_pool_destroy :: "nat \<Rightarrow> wk_pool \<Rightarrow> wk_pool" where
  "u_worker_thread_pool_destroy k p = signal_available k (p\<lparr>p_running := False\<rparr>)"

text \<open>\<^verbatim>\<open>u_worker_thread_pool_reference\<close> to a pool, and to \<^verbatim>\<open>NULL\<close>: whether the pool is being destroyed.\<close>

definition pool_reference :: "wk_pool \<Rightarrow> wk_pool" where
  "pool_reference p = p\<lparr>p_refs := p_refs p + 1\<rparr>"

definition pool_unreference :: "nat \<Rightarrow> wk_pool \<Rightarrow> wk_pool \<times> bool" where
  "pool_unreference k p =
     (let p = p\<lparr>p_refs := p_refs p - 1\<rparr>
      in if p_refs p = 0 then (u_worker_thread_pool_destroy k p, True) else (p, False))"

section \<open>The exported functions of a group\<close>

text \<open>
  What follows a call of \<^verbatim>\<open>u_worker_group_wait_all\<close>, and where a calling thread stands: outside, before
  the lock of that function, asleep (or woken) in it, before the lock of \<^verbatim>\<open>u_worker_group_push\<close>, behind
  the wait of \<^verbatim>\<open>u_worker_group_destroy\<close>, or joining the workers of the pool.
\<close>

datatype wait_for = For_Return | For_Push "nat option" nat | For_Destroy

datatype caller_pc =
    C_Out
  | C_Wait_All addr wait_for
  | C_Waiting addr wait_for
  | C_Push addr "nat option" nat
  | C_Free addr
  | C_Join

definition u_worker_group_create :: "wk_pool \<Rightarrow> addr \<Rightarrow> wk_pool" where
  "u_worker_group_create p g =
     pool_reference (p\<lparr>p_groups := (p_groups p)(g \<mapsto> \<lparr>g_tasks_in_array = 0, g_working = 0, g_released = 0,
                                                  g_waiting_count = 0, g_waiting_cond = []\<rparr>)\<rparr>)"

definition after_wait_all :: "addr \<Rightarrow> wait_for \<Rightarrow> caller_pc" where
  "after_wait_all g w = (case w of For_Return \<Rightarrow> C_Out | For_Push f d \<Rightarrow> C_Push g f d | For_Destroy \<Rightarrow> C_Free g)"

text \<open>The loop of \<^verbatim>\<open>u_worker_group_wait_all\<close> until it gives up the mutex, and the function up to there.\<close>

definition wait_all_loop :: "nat \<Rightarrow> nat \<Rightarrow> wk_pool \<Rightarrow> addr \<Rightarrow> wait_for \<Rightarrow> fault + wk_pool \<times> caller_pc" where
  "wait_all_loop k tid p g w =
     try_bind (locked_group_should_wait k p g) (\<lambda>(p, wait).
     if wait then try_bind (locked_group_wait tid p g) (\<lambda>p. Inr (p, C_Waiting g w))
     else Inr (p, after_wait_all g w))"

definition u_worker_group_wait_all :: "nat \<Rightarrow> nat \<Rightarrow> wk_pool \<Rightarrow> addr \<Rightarrow> wait_for \<Rightarrow> fault + wk_pool \<times> caller_pc" where
  "u_worker_group_wait_all k tid p g w =
     try_bind (deref (p_groups p) g) (\<lambda>c.
     if \<not> locked_group_has_tasks_waiting_or_inflight c then Inr (p, after_wait_all g w)
     else try_bind (upd_group p g (\<lambda>c. c\<lparr>g_released := g_released c + 1\<rparr>)) (\<lambda>p. wait_all_loop k tid p g w))"

definition u_worker_group_push :: "nat \<Rightarrow> wk_pool \<Rightarrow> addr \<Rightarrow> nat option \<Rightarrow> nat \<Rightarrow> fault + wk_pool \<times> caller_pc" where
  "u_worker_group_push k p g f d =
     (if p_tasks_count p \<ge> MAX_TASK_COUNT then Inr (p, C_Wait_All g (For_Push f d))
      else try_bind (locked_pool_push_task p g f d) (\<lambda>p.
           Inr (if p_avail_count p > 0 then signal_available k p else p, C_Out)))"

text \<open>\<^verbatim>\<open>u_worker_group_destroy\<close> behind its wait.\<close>

definition group_free :: "nat \<Rightarrow> wk_pool \<Rightarrow> addr \<Rightarrow> wk_pool \<times> caller_pc" where
  "group_free k p g =
     (let (p, destroyed) = pool_unreference k p
      in (p\<lparr>p_groups := (p_groups p)(g := None)\<rparr>, if destroyed then C_Join else C_Out))"

text \<open>What a calling thread does when it gets the mutex, or goes on without one.\<close>

definition client_run :: "nat \<Rightarrow> nat \<Rightarrow> wk_pool \<Rightarrow> caller_pc \<Rightarrow> fault + wk_pool \<times> caller_pc" where
  "client_run k tid p pc =
     (case pc of
        C_Out \<Rightarrow> Inr (p, pc)
      | C_Wait_All g w \<Rightarrow> u_worker_group_wait_all k tid p g w
      | C_Waiting g w \<Rightarrow>
          try_bind (deref (p_groups p) g) (\<lambda>c.
          if tid \<in> set (g_waiting_cond c) then Inr (p, pc)
          else try_bind (locked_group_wait_end p g) (\<lambda>p. wait_all_loop k tid p g w))
      | C_Push g f d \<Rightarrow> u_worker_group_push k p g f d
      | C_Free g \<Rightarrow> Inr (group_free k p g)
      | C_Join \<Rightarrow> Inr (p, pc))"

section \<open>Interleaving\<close>

text \<open>
  The pool, its worker threads, the threads that call it, whether the creator of the pool still holds
  its reference, and a record of the tasks pushed and of those carried out.
\<close>

record worker_system =
  ws_pool :: wk_pool
  ws_workers :: "worker_pc list"
  ws_clients :: "caller_pc list"
  ws_handle :: bool
  ws_pushed :: "task list"
  ws_done :: "task list"

datatype worker_event =
    Worker nat nat nat
  | Client nat nat
  | Spurious_Worker nat
  | Spurious_Client nat
  | Call_Create nat addr
  | Call_Wait nat addr
  | Call_Push nat addr nat nat
  | Call_Destroy nat addr
  | Call_Drop nat nat

definition done_task :: "worker_pc \<Rightarrow> task list" where
  "done_task pc = (case pc of W_Busy t \<Rightarrow> [t] | _ \<Rightarrow> [])"

definition pushed_task :: "caller_pc \<Rightarrow> caller_pc \<Rightarrow> task list" where
  "pushed_task pc pc' =
     (case pc of C_Push g f d \<Rightarrow> (if pc' = C_Out then [\<lparr>tk_g = Some g, tk_func = f, tk_data = d\<rparr>] else []) | _ \<Rightarrow> [])"

definition worker_step :: "nat \<Rightarrow> nat \<Rightarrow> nat \<Rightarrow> worker_system \<Rightarrow> fault + worker_system" where
  "worker_step k kw i s =
     try_bind (run_func k kw i (ws_pool s) (ws_workers s ! i)) (\<lambda>(p, pc).
     Inr (s\<lparr>ws_pool := p, ws_workers := (ws_workers s)[i := pc], ws_done := ws_done s @ done_task (ws_workers s ! i)\<rparr>))"

definition caller_step :: "nat \<Rightarrow> nat \<Rightarrow> worker_system \<Rightarrow> fault + worker_system" where
  "caller_step k c s =
     try_bind (client_run k c (ws_pool s) (ws_clients s ! c)) (\<lambda>(p, pc).
     Inr (s\<lparr>ws_pool := p, ws_clients := (ws_clients s)[c := pc],
            ws_pushed := ws_pushed s @ pushed_task (ws_clients s ! c) pc\<rparr>))"

text \<open>A thread can call only when it is outside, and only on a group or pool that exists.\<close>

definition may_call :: "nat \<Rightarrow> worker_system \<Rightarrow> bool" where
  "may_call c s \<longleftrightarrow> c < length (ws_clients s) \<and> ws_clients s ! c = C_Out"

definition enters :: "nat \<Rightarrow> addr \<Rightarrow> caller_pc \<Rightarrow> worker_system \<Rightarrow> worker_system" where
  "enters c g pc s =
     (if may_call c s \<and> p_groups (ws_pool s) g \<noteq> None then s\<lparr>ws_clients := (ws_clients s)[c := pc]\<rparr> else s)"

definition wakes_spuriously :: "nat \<Rightarrow> wk_pool \<Rightarrow> caller_pc \<Rightarrow> wk_pool" where
  "wakes_spuriously c p pc =
     (case pc of
        C_Waiting g w \<Rightarrow> (case p_groups p g of
            None \<Rightarrow> p
          | Some gr \<Rightarrow> p\<lparr>p_groups := (p_groups p)(g \<mapsto> gr\<lparr>g_waiting_cond := removeAll c (g_waiting_cond gr)\<rparr>)\<rparr>)
      | _ \<Rightarrow> p)"

definition wp_step :: "worker_system \<Rightarrow> worker_event \<Rightarrow> fault + worker_system" where
  "wp_step s ev =
     (case ev of
        Worker k kw i \<Rightarrow> if i < length (ws_workers s) then worker_step k kw i s else Inr s
      | Client k c \<Rightarrow> if c < length (ws_clients s) then caller_step k c s else Inr s
      | Spurious_Worker i \<Rightarrow>
          Inr (s\<lparr>ws_pool := (ws_pool s)\<lparr>p_avail_cond := removeAll i (p_avail_cond (ws_pool s))\<rparr>\<rparr>)
      | Spurious_Client c \<Rightarrow>
          Inr (if c < length (ws_clients s)
               then s\<lparr>ws_pool := wakes_spuriously c (ws_pool s) (ws_clients s ! c)\<rparr> else s)
      | Call_Create c g \<Rightarrow>
          Inr (if may_call c s \<and> ws_handle s \<and> p_groups (ws_pool s) g = None
               then s\<lparr>ws_pool := u_worker_group_create (ws_pool s) g\<rparr> else s)
      | Call_Wait c g \<Rightarrow> Inr (enters c g (C_Wait_All g For_Return) s)
      | Call_Push c g f d \<Rightarrow> Inr (enters c g (C_Push g (Some f) d) s)
      | Call_Destroy c g \<Rightarrow> Inr (enters c g (C_Wait_All g For_Destroy) s)
      | Call_Drop k c \<Rightarrow>
          Inr (if may_call c s \<and> ws_handle s
               then let (p, destroyed) = pool_unreference k (ws_pool s)
                    in s\<lparr>ws_pool := p, ws_handle := False,
                         ws_clients := (ws_clients s)[c := if destroyed then C_Join else C_Out]\<rparr>
               else s))"

primrec wp_run :: "worker_system \<Rightarrow> worker_event list \<Rightarrow> fault + worker_system" where
  "wp_run s [] = Inr s"
| "wp_run s (ev # evs) = try_bind (wp_step s ev) (\<lambda>s. wp_run s evs)"

text \<open>A new pool with \<open>n\<close> calling threads, and the state once it was created.\<close>

definition wp_init :: "nat \<Rightarrow> wk_pool \<Rightarrow> worker_system" where
  "wp_init n p = \<lparr>ws_pool = p, ws_workers = replicate (p_thread_count p) W_Start, ws_clients = replicate n C_Out,
                  ws_handle = True, ws_pushed = [], ws_done = []\<rparr>"

text \<open>The group that an event calls, and that each group has a calling thread of its own.\<close>

definition calls_group :: "worker_event \<Rightarrow> (nat \<times> addr) option" where
  "calls_group ev =
     (case ev of Call_Create c g \<Rightarrow> Some (c, g) | Call_Wait c g \<Rightarrow> Some (c, g) | Call_Push c g _ _ \<Rightarrow> Some (c, g)
      | Call_Destroy c g \<Rightarrow> Some (c, g) | _ \<Rightarrow> None)"

definition owned_calls :: "(addr \<Rightarrow> nat) \<Rightarrow> worker_event list \<Rightarrow> bool" where
  "owned_calls own evs \<longleftrightarrow> list_all (\<lambda>ev. case calls_group ev of None \<Rightarrow> True | Some (c, g) \<Rightarrow> c = own g) evs"

end
