(* ===== verification/Worker_Invariant.thy ===== *)
theory Worker_Invariant
  imports Worker_Pool "HOL-Library.Multiset"
begin

text \<open>
  The invariant of the worker pool and what follows from it. \<open>pool_ok\<close> equates the counters of the pool
  with the contents of its array and the places of its threads; \<open>callers_ok\<close> describes groups that have a
  calling thread of their own, and the limit of workers as the initial one plus the callers that wait for
  outstanding tasks; \<open>awake_ok\<close> says that no wake-up of a worker is lost. Each internal function gets a
  lemma that it does not fault and keeps the parts; \<open>wp_step_ok\<close> puts them together.
\<close>

section \<open>Counting\<close>

lemma length_filter_update:
  assumes "i < length xs"
  shows "length (filter P (xs[i := x])) + (if P (xs ! i) then 1 else 0) =
         length (filter P xs) + (if P x then 1 else 0)"
  using assms
proof (induction xs arbitrary: i)
  case (Cons y ys)
  then show ?case by (cases i) auto
qed simp

lemma length_filter_same:
  "i < length xs \<Longrightarrow> P x = P (xs ! i) \<Longrightarrow> length (filter P (xs[i := x])) = length (filter P xs)"
  using length_filter_update [of i xs P x] by (simp split: if_splits)

lemma length_filter_gain:
  "i < length xs \<Longrightarrow> \<not> P (xs ! i) \<Longrightarrow> P x \<Longrightarrow> length (filter P (xs[i := x])) = Suc (length (filter P xs))"
  using length_filter_update [of i xs P x] by simp

lemma length_filter_lose:
  "i < length xs \<Longrightarrow> P (xs ! i) \<Longrightarrow> \<not> P x \<Longrightarrow> length (filter P xs) = Suc (length (filter P (xs[i := x])))"
  using length_filter_update [of i xs P x] by simp

lemma length_filter_le: "(\<And>x. P x \<Longrightarrow> Q x) \<Longrightarrow> length (filter P xs) \<le> length (filter Q xs)"
  by (induction xs) (auto intro: le_SucI)

lemma filter_nonempty: "i < length xs \<Longrightarrow> P (xs ! i) \<Longrightarrow> filter P xs \<noteq> []"
  by (metis filter_empty_conv nth_mem)

lemma length_filter_change:
  assumes "i < length xs" "\<And>j. j < length xs \<Longrightarrow> j \<noteq> i \<Longrightarrow> P (xs ! j) = Q (xs ! j)"
  shows "length (filter Q (xs[i := x])) + (if P (xs ! i) then 1 else 0) = length (filter P xs) + (if Q x then 1 else 0)"
  using assms
proof (induction xs arbitrary: i)
  case (Cons y ys)
  show ?case
  proof (cases i)
    case 0
    have "filter P ys = filter Q ys"
    proof (rule filter_cong [OF refl])
      fix x assume "x \<in> set ys"
      then obtain j where "j < length ys" "ys ! j = x" by (auto simp: in_set_conv_nth)
      then show "P x = Q x" using Cons.prems(2) [of "Suc j"] 0 by simp
    qed
    then show ?thesis using 0 by simp
  next
    case (Suc k)
    have "length (filter Q (ys[k := x])) + (if P (ys ! k) then 1 else 0) = length (filter P ys) + (if Q x then 1 else 0)"
    proof (rule Cons.IH)
      show "k < length ys" using Cons.prems(1) Suc by simp
      show "P (ys ! j) = Q (ys ! j)" if "j < length ys" "j \<noteq> k" for j
        using Cons.prems(2) [of "Suc j"] Suc that by simp
    qed
    moreover have "P y = Q y" using Cons.prems(2) [of 0] Suc by simp
    ultimately show ?thesis using Suc by simp
  qed
qed simp

lemma length_filter_drop:
  assumes "i < length xs" "P (xs ! i)" "\<not> Q (xs ! i)"
    and "\<And>j. j < length xs \<Longrightarrow> j \<noteq> i \<Longrightarrow> P (xs ! j) = Q (xs ! j)"
  shows "length (filter P xs) = Suc (length (filter Q xs))"
  using length_filter_change [of i xs P Q "xs ! i"] assms by simp

section \<open>The invariant\<close>

definition filled :: "task \<Rightarrow> bool" where
  "filled t \<longleftrightarrow> tk_func t \<noteq> None"

definition filled_of :: "addr \<Rightarrow> task \<Rightarrow> bool" where
  "filled_of g t \<longleftrightarrow> tk_func t \<noteq> None \<and> tk_g t = Some g"

definition w_busy :: "worker_pc \<Rightarrow> bool" where
  "w_busy pc \<longleftrightarrow> (case pc of W_Busy _ \<Rightarrow> True | _ \<Rightarrow> False)"

definition w_busy_of :: "addr \<Rightarrow> worker_pc \<Rightarrow> bool" where
  "w_busy_of g pc \<longleftrightarrow> (case pc of W_Busy t \<Rightarrow> tk_g t = Some g | _ \<Rightarrow> False)"

definition good_task :: "(addr \<Rightarrow> wk_group option) \<Rightarrow> task \<Rightarrow> bool" where
  "good_task gs t \<longleftrightarrow> tk_func t \<noteq> None \<and> (\<exists>g. tk_g t = Some g \<and> gs g \<noteq> None)"

definition pool_ok :: "worker_pc list \<Rightarrow> wk_pool \<Rightarrow> bool" where
  "pool_ok ws p \<longleftrightarrow>
     length (p_tasks p) = MAX_TASK_COUNT \<and>
     p_tasks_count p = length (filter filled (p_tasks p)) \<and>
     p_working p = length (filter w_busy ws) \<and>
     p_avail_count p = length (filter ((=) W_Waiting) ws) \<and>
     distinct (p_avail_cond p) \<and>
     (\<forall>i \<in> set (p_avail_cond p). i < length ws \<and> ws ! i = W_Waiting) \<and>
     (\<forall>t \<in> set (p_tasks p). filled t \<longrightarrow> good_task (p_groups p) t) \<and>
     (\<forall>t. W_Busy t \<in> set ws \<longrightarrow> good_task (p_groups p) t) \<and>
     (\<forall>g c. p_groups p g = Some c \<longrightarrow>
        g_tasks_in_array c = length (filter (filled_of g) (p_tasks p)) \<and> g_working c = length (filter (w_busy_of g) ws))"

text \<open>A worker that is not asleep and has not ended.\<close>

definition some_awake :: "worker_pc list \<Rightarrow> wk_pool \<Rightarrow> bool" where
  "some_awake ws p \<longleftrightarrow> (\<exists>i < length ws. i \<notin> set (p_avail_cond p) \<and> ws ! i \<noteq> W_Ended)"

definition awake_ok :: "worker_pc list \<Rightarrow> wk_pool \<Rightarrow> bool" where
  "awake_ok ws p \<longleftrightarrow>
     (p_running p \<longrightarrow> W_Ended \<notin> set ws) \<and>
     (p_running p \<and> 0 < p_tasks_count p \<and> p_working p < p_limit p \<and> ws \<noteq> [] \<longrightarrow> some_awake ws p) \<and>
     (\<not> p_running p \<longrightarrow> p_avail_cond p = [] \<or> some_awake ws p)"

abbreviation outstanding :: "wk_group \<Rightarrow> bool" where
  "outstanding \<equiv> locked_group_has_tasks_waiting_or_inflight"

fun group_of :: "caller_pc \<Rightarrow> addr option" where
  "group_of C_Out = None"
| "group_of (C_Wait_All g w) = Some g"
| "group_of (C_Waiting g w) = Some g"
| "group_of (C_Push g f d) = Some g"
| "group_of (C_Free g) = Some g"
| "group_of C_Join = None"

fun waits_on :: "addr \<Rightarrow> caller_pc \<Rightarrow> bool" where
  "waits_on g (C_Waiting g' w) = (g = g')"
| "waits_on g _ = False"

fun good_push :: "caller_pc \<Rightarrow> bool" where
  "good_push (C_Push g f d) = (f \<noteq> None)"
| "good_push (C_Wait_All g (For_Push f d)) = (f \<noteq> None)"
| "good_push (C_Waiting g (For_Push f d)) = (f \<noteq> None)"
| "good_push _ = True"

definition waited :: "(addr \<Rightarrow> nat) \<Rightarrow> caller_pc list \<Rightarrow> addr \<Rightarrow> bool" where
  "waited own cs g \<longleftrightarrow> own g < length cs \<and> waits_on g (cs ! own g)"

definition group_ok :: "(addr \<Rightarrow> nat) \<Rightarrow> caller_pc list \<Rightarrow> addr \<Rightarrow> wk_group \<Rightarrow> bool" where
  "group_ok own cs g c \<longleftrightarrow>
     g_waiting_count c = (if waited own cs g then 1 else 0) \<and>
     g_released c = (if waited own cs g \<and> \<not> outstanding c then 1 else 0) \<and>
     (g_waiting_cond c = [] \<or> waited own cs g \<and> outstanding c \<and> g_waiting_cond c = [own g])"

definition donates :: "wk_pool \<Rightarrow> caller_pc \<Rightarrow> bool" where
  "donates p pc \<longleftrightarrow>
     (case pc of C_Waiting g w \<Rightarrow> (case p_groups p g of Some c \<Rightarrow> outstanding c | None \<Rightarrow> False) | _ \<Rightarrow> False)"

definition callers_ok :: "(addr \<Rightarrow> nat) \<Rightarrow> caller_pc list \<Rightarrow> wk_pool \<Rightarrow> bool" where
  "callers_ok own cs p \<longleftrightarrow>
     (\<forall>g c. p_groups p g = Some c \<longrightarrow> group_ok own cs g c) \<and>
     p_limit p = p_initial_limit p + length (filter (donates p) cs) \<and>
     (\<forall>i < length cs. \<forall>g. group_of (cs ! i) = Some g \<longrightarrow> own g = i \<and> p_groups p g \<noteq> None) \<and>
     (\<forall>i < length cs. \<forall>g c. cs ! i = C_Free g \<and> p_groups p g = Some c \<longrightarrow> \<not> outstanding c) \<and>
     (\<forall>i < length cs. good_push (cs ! i))"

definition refs_ok :: "bool \<Rightarrow> wk_pool \<Rightarrow> bool" where
  "refs_ok h p \<longleftrightarrow> finite (dom (p_groups p)) \<and> p_refs p = (if h then 1 else 0) + card (dom (p_groups p)) \<and>
     (p_running p \<longleftrightarrow> 0 < p_refs p)"

definition logs_ok :: "worker_pc list \<Rightarrow> wk_pool \<Rightarrow> task list \<Rightarrow> task list \<Rightarrow> bool" where
  "logs_ok ws p pushed done \<longleftrightarrow>
     mset pushed = mset (filter filled (p_tasks p)) + mset (concat (map done_task ws)) + mset done"

definition wp_ok :: "(addr \<Rightarrow> nat) \<Rightarrow> worker_system \<Rightarrow> bool" where
  "wp_ok own s \<longleftrightarrow>
     pool_ok (ws_workers s) (ws_pool s) \<and> awake_ok (ws_workers s) (ws_pool s) \<and>
     callers_ok own (ws_clients s) (ws_pool s) \<and> refs_ok (ws_handle s) (ws_pool s) \<and>
     logs_ok (ws_workers s) (ws_pool s) (ws_pushed s) (ws_done s)"

section \<open>Small facts\<close>

lemma upd_group_eq: "p_groups p g = Some c \<Longrightarrow> upd_group p g f = Inr (p\<lparr>p_groups := (p_groups p)(g \<mapsto> f c)\<rparr>)"
  by (simp add: upd_group_def)

lemma set_wake_one: "set (wake_one k ws) \<subseteq> set ws"
  using set_remove1_subset [of _ ws] by (auto simp: wake_one_def)

lemma distinct_wake_one: "distinct ws \<Longrightarrow> distinct (wake_one k ws)"
  by (simp add: wake_one_def)

lemma wake_one_wakes: "distinct ws \<Longrightarrow> ws \<noteq> [] \<Longrightarrow> \<exists>i \<in> set ws. i \<notin> set (wake_one k ws)"
  by (intro bexI [of _ "ws ! (k mod length ws)"]) (simp_all add: wake_one_def)

lemma donates_simps [simp]:
  "donates p (C_Waiting g w) = (case p_groups p g of Some c \<Rightarrow> outstanding c | None \<Rightarrow> False)"
  "\<not> donates p C_Out" "\<not> donates p (C_Wait_All g w)" "\<not> donates p (C_Push g f d)" "\<not> donates p (C_Free g)" "\<not> donates p C_Join"
  by (simp_all add: donates_def)

lemma donates_cong: "p_groups p' = p_groups p \<Longrightarrow> donates p' = donates p"
  by (rule ext) (simp add: donates_def split: caller_pc.split)

lemma good_task_upd [simp]: "good_task gs t \<Longrightarrow> good_task (gs(g \<mapsto> c)) t"
  by (auto simp: good_task_def)

lemma filled_no_task [simp]: "\<not> filled no_task" "\<not> filled_of g no_task"
  by (simp_all add: filled_def filled_of_def)

lemma filled_of_filled: "filled_of g t \<Longrightarrow> filled t"
  by (simp add: filled_of_def filled_def)

lemma w_busy_simps [simp]:
  "w_busy (W_Busy t)" "\<not> w_busy W_Start" "\<not> w_busy W_Waiting" "\<not> w_busy W_Ended"
  "w_busy_of g (W_Busy t) \<longleftrightarrow> tk_g t = Some g" "\<not> w_busy_of g W_Start" "\<not> w_busy_of g W_Waiting" "\<not> w_busy_of g W_Ended"
  by (simp_all add: w_busy_def w_busy_of_def)

lemma pool_ok_group:
  assumes "pool_ok ws p" "p_groups p g = Some c"
  shows "g_tasks_in_array c = length (filter (filled_of g) (p_tasks p))" "g_working c = length (filter (w_busy_of g) ws)"
  using assms unfolding pool_ok_def by blast+

lemma pool_ok_tasks_le:
  "pool_ok ws p \<Longrightarrow> p_groups p g = Some c \<Longrightarrow> g_tasks_in_array c \<le> p_tasks_count p"
  using length_filter_le [of "filled_of g" filled] by (simp add: pool_ok_def filled_of_filled)

section \<open>Signals\<close>

lemma pool_ok_cond:
  assumes "pool_ok ws p" "distinct l" "set l \<subseteq> set (p_avail_cond p)"
  shows "pool_ok ws (p\<lparr>p_avail_cond := l\<rparr>)"
  using assms unfolding pool_ok_def by auto

lemma pool_ok_signal: "pool_ok ws p \<Longrightarrow> pool_ok ws (signal_available k p)"
  unfolding signal_available_def
  by (rule pool_ok_cond) (simp_all add: distinct_wake_one set_wake_one pool_ok_def)

lemma some_awake_cond: "some_awake ws p \<Longrightarrow> set l \<subseteq> set (p_avail_cond p) \<Longrightarrow> some_awake ws (p\<lparr>p_avail_cond := l\<rparr>)"
  unfolding some_awake_def by auto

lemma signal_awake:
  assumes "pool_ok ws p" "p_avail_cond p \<noteq> []"
  shows "some_awake ws (signal_available k p)"
proof -
  obtain i where "i \<in> set (p_avail_cond p)" "i \<notin> set (wake_one k (p_avail_cond p))"
    using wake_one_wakes [OF _ assms(2), of k] assms(1) by (auto simp: pool_ok_def)
  then show ?thesis
    using assms(1) unfolding some_awake_def signal_available_def pool_ok_def by (intro exI [of _ i]) auto
qed

lemma signal_awake':
  "pool_ok ws p \<Longrightarrow> some_awake ws p \<or> p_avail_cond p \<noteq> [] \<Longrightarrow> some_awake ws (signal_available k p)"
  by (metis signal_awake signal_available_def some_awake_cond set_wake_one)

lemma awake_ok_signal: "pool_ok ws p \<Longrightarrow> awake_ok ws p \<Longrightarrow> awake_ok ws (signal_available k p)"
  using signal_awake' [of ws p k] unfolding awake_ok_def by (auto simp: signal_available_def wake_one_def)

lemma all_awake: "p_avail_cond p = [] \<Longrightarrow> W_Ended \<notin> set ws \<Longrightarrow> ws \<noteq> [] \<Longrightarrow> some_awake ws p"
  unfolding some_awake_def by (intro exI [of _ 0]) (metis length_greater_0_conv list.set(1) empty_iff nth_mem)

lemma no_waiters: "pool_ok ws p \<Longrightarrow> p_avail_count p = 0 \<Longrightarrow> p_avail_cond p = []"
  unfolding pool_ok_def
  by (metis (mono_tags, lifting) filter_nonempty length_0_conv list.set_intros(1) neq_Nil_conv)

lemma wake_groups [simp]:
  "p_groups (locked_pool_wake_worker_if_allowed k p) = p_groups p"
  "p_limit (locked_pool_wake_worker_if_allowed k p) = p_limit p"
  "p_initial_limit (locked_pool_wake_worker_if_allowed k p) = p_initial_limit p"
  "p_tasks (locked_pool_wake_worker_if_allowed k p) = p_tasks p"
  "p_refs (locked_pool_wake_worker_if_allowed k p) = p_refs p"
  "p_running (locked_pool_wake_worker_if_allowed k p) = p_running p"
  by (simp_all add: locked_pool_wake_worker_if_allowed_def signal_available_def)

lemma signal_groups [simp]:
  "p_groups (signal_available k p) = p_groups p"
  "p_limit (signal_available k p) = p_limit p"
  "p_initial_limit (signal_available k p) = p_initial_limit p"
  "p_tasks (signal_available k p) = p_tasks p"
  "p_refs (signal_available k p) = p_refs p"
  "p_running (signal_available k p) = p_running p"
  by (simp_all add: signal_available_def)

lemma pool_ok_wake: "pool_ok ws p \<Longrightarrow> pool_ok ws (locked_pool_wake_worker_if_allowed k p)"
  by (simp add: locked_pool_wake_worker_if_allowed_def pool_ok_signal)

text \<open>A wake-up restores the part of the invariant about a running pool, whatever the limit was before.\<close>

lemma awake_ok_wake:
  assumes "pool_ok ws p" "p_running p" "W_Ended \<notin> set ws"
  shows "awake_ok ws (locked_pool_wake_worker_if_allowed k p)"
proof (cases "0 < p_tasks_count p \<and> p_working p < p_limit p \<and> ws \<noteq> []")
  case True
  have "some_awake ws (locked_pool_wake_worker_if_allowed k p)"
  proof (cases "p_avail_cond p = []")
    case True': True
    then show ?thesis using all_awake [of p ws] assms(3) True signal_awake' [OF assms(1)]
      by (auto simp: locked_pool_wake_worker_if_allowed_def)
  next
    case False
    then show ?thesis
      using True signal_awake [OF assms(1) False] no_waiters [OF assms(1)]
      by (auto simp: locked_pool_wake_worker_if_allowed_def)
  qed
  then show ?thesis using assms by (simp add: awake_ok_def)
next
  case False
  then show ?thesis
    using assms by (auto simp: awake_ok_def locked_pool_wake_worker_if_allowed_def)
qed

section \<open>Tasks\<close>

lemma pop_eq:
  assumes "pool_ok ws p" "0 < p_tasks_count p"
  obtains i g c where "i < length (p_tasks p)" "filled (p_tasks p ! i)" "tk_g (p_tasks p ! i) = Some g"
    "p_groups p g = Some c" "g_tasks_in_array c > 0"
    "locked_pool_pop_task p =
       Inr (p\<lparr>p_tasks := (p_tasks p)[i := no_task], p_tasks_count := p_tasks_count p - 1,
              p_groups := (p_groups p)(g \<mapsto> c\<lparr>g_tasks_in_array := g_tasks_in_array c - 1, g_working := g_working c + 1\<rparr>)\<rparr>,
            p_tasks p ! i)"
proof -
  have "filter filled (p_tasks p) \<noteq> []" using assms by (auto simp: pool_ok_def)
  then have "find_index (\<lambda>t. tk_func t \<noteq> None) (p_tasks p) \<noteq> None"
    by (auto simp: find_index_None_iff filter_empty_conv filled_def)
  then obtain i where i: "find_index (\<lambda>t. tk_func t \<noteq> None) (p_tasks p) = Some i" by auto
  then have il: "i < length (p_tasks p)" and fl: "filled (p_tasks p ! i)"
    by (simp_all add: find_index_Some_iff filled_def)
  have "good_task (p_groups p) (p_tasks p ! i)" using assms(1) il fl by (simp add: pool_ok_def)
  then obtain g c where g: "tk_g (p_tasks p ! i) = Some g" "p_groups p g = Some c" by (auto simp: good_task_def)
  have "filled_of g (p_tasks p ! i)" using g fl by (simp add: filled_of_def filled_def)
  then have "filter (filled_of g) (p_tasks p) \<noteq> []"
    by (rule filter_nonempty [OF il])
  then have pos: "g_tasks_in_array c > 0"
    unfolding pool_ok_group(1) [OF assms(1) g(2)] by simp
  show thesis
    by (rule that [OF il fl g pos])
      (simp add: locked_pool_pop_task_def i assms(2) task_group_def g upd_group_eq Let_def del: not_None_eq)
qed

lemma pool_ok_pop:
  assumes ok: "pool_ok ws p" and w: "i < length ws" "ws ! i = W_Start"
    and t: "j < length (p_tasks p)" "filled (p_tasks p ! j)" "tk_g (p_tasks p ! j) = Some g" "p_groups p g = Some c"
  shows "pool_ok (ws[i := W_Busy (p_tasks p ! j)])
    (p\<lparr>p_tasks := (p_tasks p)[j := no_task], p_tasks_count := p_tasks_count p - 1,
       p_groups := (p_groups p)(g \<mapsto> c\<lparr>g_tasks_in_array := g_tasks_in_array c - 1, g_working := g_working c + 1\<rparr>),
       p_working := p_working p + 1\<rparr>)" (is "pool_ok ?ws ?p")
proof -
  let ?t = "p_tasks p ! j"
  have good: "good_task (p_groups p) ?t" using ok t by (simp add: pool_ok_def)
  have cnt: "p_tasks_count ?p = length (filter filled (p_tasks ?p))"
    using length_filter_lose [of j "p_tasks p" filled no_task] t ok by (simp add: pool_ok_def)
  have wk: "p_working ?p = length (filter w_busy ?ws)"
    using length_filter_gain [of i ws w_busy "W_Busy ?t"] w ok by (simp add: pool_ok_def)
  have av: "p_avail_count ?p = length (filter ((=) W_Waiting) ?ws)"
    using length_filter_same [of i ws "(=) W_Waiting" "W_Busy ?t"] w ok by (simp add: pool_ok_def)
  have cond: "\<forall>k \<in> set (p_avail_cond ?p). k < length ?ws \<and> ?ws ! k = W_Waiting"
    using ok w by (auto simp: pool_ok_def nth_list_update)
  have goods: "\<forall>t \<in> set (p_tasks p). filled t \<longrightarrow> good_task (p_groups p) t"
    "\<forall>t. W_Busy t \<in> set ws \<longrightarrow> good_task (p_groups p) t"
    using ok by (simp_all add: pool_ok_def)
  have tasks: "\<forall>t \<in> set (p_tasks ?p). filled t \<longrightarrow> good_task (p_groups ?p) t"
    using goods(1) by (auto dest!: set_update_subset_insert [THEN subsetD])
  have works: "\<forall>t. W_Busy t \<in> set ?ws \<longrightarrow> good_task (p_groups ?p) t"
    using goods(2) good by (auto dest!: set_update_subset_insert [THEN subsetD])
  have grp: "g_tasks_in_array c' = length (filter (filled_of g') (p_tasks ?p)) \<and>
             g_working c' = length (filter (w_busy_of g') ?ws)" if "p_groups ?p g' = Some c'" for g' c'
  proof (cases "g' = g")
    case True
    have "filled_of g ?t" using t by (simp add: filled_of_def filled_def)
    then show ?thesis
      using True that pool_ok_group [OF ok t(4)] w t length_filter_lose [of j "p_tasks p" "filled_of g" no_task]
        length_filter_gain [of i ws "w_busy_of g" "W_Busy ?t"] by auto
  next
    case False
    then have g': "p_groups p g' = Some c'" using that by simp
    moreover have "\<not> filled_of g' ?t" using t False by (simp add: filled_of_def)
    ultimately show ?thesis
      using False pool_ok_group [OF ok g'] w t length_filter_same [of j "p_tasks p" "filled_of g'" no_task]
        length_filter_same [of i ws "w_busy_of g'" "W_Busy ?t"] by auto
  qed
  have arr: "length (p_tasks ?p) = MAX_TASK_COUNT" "distinct (p_avail_cond ?p)" using ok by (simp_all add: pool_ok_def)
  show ?thesis
    unfolding pool_ok_def by (intro conjI allI impI arr cnt wk av cond tasks works) (use grp in blast)+
qed

lemma push_eq:
  assumes "pool_ok ws p" "p_tasks_count p < MAX_TASK_COUNT" "p_groups p g = Some c"
  obtains i where "i < length (p_tasks p)" "\<not> filled (p_tasks p ! i)"
    "locked_pool_push_task p g f d =
       Inr (p\<lparr>p_tasks := (p_tasks p)[i := \<lparr>tk_g = Some g, tk_func = f, tk_data = d\<rparr>],
              p_tasks_count := p_tasks_count p + 1,
              p_groups := (p_groups p)(g \<mapsto> c\<lparr>g_tasks_in_array := g_tasks_in_array c + 1\<rparr>)\<rparr>)"
proof -
  have "\<exists>t \<in> set (p_tasks p). \<not> filled t"
  proof (rule ccontr)
    assume "\<not> ?thesis"
    then have "filter filled (p_tasks p) = p_tasks p" by (auto intro: filter_True)
    then show False using assms(1,2) by (simp add: pool_ok_def)
  qed
  then have "find_index (\<lambda>t. tk_func t = None) (p_tasks p) \<noteq> None"
    by (auto simp: find_index_None_iff filled_def)
  then obtain i where i: "find_index (\<lambda>t. tk_func t = None) (p_tasks p) = Some i" by auto
  have "i < length (p_tasks p)" "\<not> filled (p_tasks p ! i)"
    using i by (simp_all add: find_index_Some_iff filled_def)
  then show thesis
    by (rule that) (simp add: locked_pool_push_task_def assms(2,3) upd_group_eq i)
qed

lemma pool_ok_push:
  assumes ok: "pool_ok ws p" and g: "p_groups p g = Some c" and f: "f \<noteq> None"
    and t: "j < length (p_tasks p)" "\<not> filled (p_tasks p ! j)"
  shows "pool_ok ws
    (p\<lparr>p_tasks := (p_tasks p)[j := \<lparr>tk_g = Some g, tk_func = f, tk_data = d\<rparr>], p_tasks_count := p_tasks_count p + 1,
       p_groups := (p_groups p)(g \<mapsto> c\<lparr>g_tasks_in_array := g_tasks_in_array c + 1\<rparr>)\<rparr>)" (is "pool_ok ws ?p")
proof -
  let ?t = "\<lparr>tk_g = Some g, tk_func = f, tk_data = d\<rparr>"
  have [simp]: "filled ?t" "filled_of g' ?t \<longleftrightarrow> g' = g" for g' using f by (auto simp: filled_def filled_of_def)
  have nf: "\<not> filled_of g' (p_tasks p ! j)" for g' using t filled_of_filled by blast
  have good: "\<forall>t \<in> set (p_tasks p). filled t \<longrightarrow> good_task (p_groups p) t" "\<forall>t. W_Busy t \<in> set ws \<longrightarrow> good_task (p_groups p) t"
    using ok by (simp_all add: pool_ok_def)
  have upd: "good_task (p_groups ?p) ?t" using f by (simp add: good_task_def)
  have cnt: "p_tasks_count ?p = length (filter filled (p_tasks ?p))"
    using length_filter_gain [of j "p_tasks p" filled ?t] t ok by (simp add: pool_ok_def)
  have tasks: "\<forall>t \<in> set (p_tasks ?p). filled t \<longrightarrow> good_task (p_groups ?p) t"
    using upd good by (auto dest!: set_update_subset_insert [THEN subsetD])
  have works: "\<forall>t. W_Busy t \<in> set ws \<longrightarrow> good_task (p_groups ?p) t"
    using good by simp
  have grp: "g_tasks_in_array c' = length (filter (filled_of g') (p_tasks ?p)) \<and>
             g_working c' = length (filter (w_busy_of g') ws)" if "p_groups ?p g' = Some c'" for g' c'
  proof (cases "g' = g")
    case True
    then show ?thesis
      using that pool_ok_group [OF ok g] t nf length_filter_gain [of j "p_tasks p" "filled_of g" ?t] by auto
  next
    case False
    then have g': "p_groups p g' = Some c'" using that by simp
    then show ?thesis
      using False pool_ok_group [OF ok g'] t nf length_filter_same [of j "p_tasks p" "filled_of g'" ?t] by auto
  qed
  have rest: "length (p_tasks ?p) = MAX_TASK_COUNT" "distinct (p_avail_cond ?p)" "p_working ?p = length (filter w_busy ws)"
    "p_avail_count ?p = length (filter ((=) W_Waiting) ws)"
    "\<forall>i \<in> set (p_avail_cond ?p). i < length ws \<and> ws ! i = W_Waiting"
    using ok by (simp_all add: pool_ok_def)
  show ?thesis
    unfolding pool_ok_def by (intro conjI allI impI rest cnt tasks works) (use grp in blast)+
qed

section \<open>Worker threads\<close>

lemma pool_ok_irrelevant [simp]:
  "pool_ok ws (p\<lparr>p_limit := n\<rparr>) = pool_ok ws p"
  "pool_ok ws (p\<lparr>p_refs := n\<rparr>) = pool_ok ws p"
  "pool_ok ws (p\<lparr>p_running := b\<rparr>) = pool_ok ws p"
  by (simp_all add: pool_ok_def)

lemma pool_ok_upd_group:
  assumes "pool_ok ws p" "p_groups p g = Some c" "g_tasks_in_array c' = g_tasks_in_array c" "g_working c' = g_working c"
  shows "pool_ok ws (p\<lparr>p_groups := (p_groups p)(g \<mapsto> c')\<rparr>)"
  using assms unfolding pool_ok_def by simp

lemma pool_ok_wait:
  assumes ok: "pool_ok ws p" and w: "i < length ws" "ws ! i = W_Start"
  shows "pool_ok (ws[i := W_Waiting]) (locked_thread_wait_for_work i p)"
proof -
  have "i \<notin> set (p_avail_cond p)" using ok w by (auto simp: pool_ok_def)
  moreover have "length (filter w_busy (ws[i := W_Waiting])) = length (filter w_busy ws)"
    "length (filter (w_busy_of g) (ws[i := W_Waiting])) = length (filter (w_busy_of g) ws)" for g
    using w by (simp_all add: length_filter_same)
  moreover have "length (filter ((=) W_Waiting) (ws[i := W_Waiting])) = Suc (length (filter ((=) W_Waiting) ws))"
    using w by (simp add: length_filter_gain)
  moreover have "W_Busy t \<in> set (ws[i := W_Waiting]) \<Longrightarrow> W_Busy t \<in> set ws" for t
    by (auto dest!: set_update_subset_insert [THEN subsetD])
  ultimately show ?thesis
    using ok w unfolding pool_ok_def locked_thread_wait_for_work_def by (auto simp: nth_list_update)
qed

lemma pool_ok_wait_end:
  assumes ok: "pool_ok ws p" and w: "i < length ws" "ws ! i = W_Waiting" "i \<notin> set (p_avail_cond p)"
  shows "pool_ok (ws[i := W_Start]) (locked_thread_wait_end p)"
proof -
  have "length (filter w_busy (ws[i := W_Start])) = length (filter w_busy ws)"
    "length (filter (w_busy_of g) (ws[i := W_Start])) = length (filter (w_busy_of g) ws)" for g
    using w by (simp_all add: length_filter_same)
  moreover have "length (filter ((=) W_Waiting) ws) = Suc (length (filter ((=) W_Waiting) (ws[i := W_Start])))"
    using w by (simp add: length_filter_lose)
  moreover have "W_Busy t \<in> set (ws[i := W_Start]) \<Longrightarrow> W_Busy t \<in> set ws" for t
    by (auto dest!: set_update_subset_insert [THEN subsetD])
  ultimately show ?thesis
    using ok w unfolding pool_ok_def locked_thread_wait_end_def by (auto simp: nth_list_update)
qed

lemma pool_ok_end:
  assumes ok: "pool_ok ws p" and w: "i < length ws" "ws ! i = W_Start"
  shows "pool_ok (ws[i := W_Ended]) p"
proof -
  have "length (filter w_busy (ws[i := W_Ended])) = length (filter w_busy ws)"
    "length (filter (w_busy_of g) (ws[i := W_Ended])) = length (filter (w_busy_of g) ws)"
    "length (filter ((=) W_Waiting) (ws[i := W_Ended])) = length (filter ((=) W_Waiting) ws)" for g
    using w by (simp_all add: length_filter_same)
  moreover have "W_Busy t \<in> set (ws[i := W_Ended]) \<Longrightarrow> W_Busy t \<in> set ws" for t
    by (auto dest!: set_update_subset_insert [THEN subsetD])
  ultimately show ?thesis
    using ok w unfolding pool_ok_def by (auto simp: nth_list_update)
qed

lemma pool_ok_busy_end:
  assumes ok: "pool_ok ws p" and w: "i < length ws" "ws ! i = W_Busy t" and t: "tk_g t = Some g" "p_groups p g = Some c"
  shows "pool_ok (ws[i := W_Start])
    (p\<lparr>p_working := p_working p - 1, p_groups := (p_groups p)(g \<mapsto> c\<lparr>g_working := g_working c - 1\<rparr>)\<rparr>)" (is "pool_ok ?ws ?p")
proof -
  have wk: "p_working ?p = length (filter w_busy ?ws)"
    using length_filter_lose [of i ws w_busy W_Start] w ok by (simp add: pool_ok_def)
  have av: "p_avail_count ?p = length (filter ((=) W_Waiting) ?ws)"
    using length_filter_same [of i ws "(=) W_Waiting" W_Start] w ok by (simp add: pool_ok_def)
  have rest: "length (p_tasks ?p) = MAX_TASK_COUNT" "distinct (p_avail_cond ?p)"
    "p_tasks_count ?p = length (filter filled (p_tasks ?p))"
    "\<forall>t \<in> set (p_tasks ?p). filled t \<longrightarrow> good_task (p_groups ?p) t"
    using ok by (simp_all add: pool_ok_def)
  have cond: "\<forall>k \<in> set (p_avail_cond ?p). k < length ?ws \<and> ?ws ! k = W_Waiting"
    using ok w by (auto simp: pool_ok_def nth_list_update)
  have works: "\<forall>t. W_Busy t \<in> set ?ws \<longrightarrow> good_task (p_groups ?p) t"
    using ok by (auto simp: pool_ok_def dest!: set_update_subset_insert [THEN subsetD])
  have grp: "g_tasks_in_array c' = length (filter (filled_of g') (p_tasks ?p)) \<and>
             g_working c' = length (filter (w_busy_of g') ?ws)" if "p_groups ?p g' = Some c'" for g' c'
  proof (cases "g' = g")
    case True
    then show ?thesis
      using that pool_ok_group [OF ok t(2)] w t length_filter_lose [of i ws "w_busy_of g" W_Start] by auto
  next
    case False
    then have g': "p_groups p g' = Some c'" using that by simp
    then show ?thesis
      using False pool_ok_group [OF ok g'] w t length_filter_same [of i ws "w_busy_of g'" W_Start] by auto
  qed
  show ?thesis
    unfolding pool_ok_def by (intro conjI allI impI rest wk av cond works) (use grp in blast)+
qed

section \<open>Callers\<close>

lemma callers_ok_cong:
  "p_groups p' = p_groups p \<Longrightarrow> p_limit p' = p_limit p \<Longrightarrow> p_initial_limit p' = p_initial_limit p \<Longrightarrow>
     callers_ok own cs p' = callers_ok own cs p"
  by (simp add: callers_ok_def donates_cong [of p' p])

lemma donates_upd_same:
  "p_groups p g = Some c \<Longrightarrow> outstanding c' = outstanding c \<Longrightarrow> p_groups p' = (p_groups p)(g \<mapsto> c') \<Longrightarrow>
     donates p' = donates p"
  by (rule ext) (auto simp: donates_def split: caller_pc.split option.split)

lemma callers_ok_group: "callers_ok own cs p \<Longrightarrow> p_groups p g = Some c \<Longrightarrow> group_ok own cs g c"
  by (simp add: callers_ok_def)

lemma callers_ok_upd:
  assumes ok: "callers_ok own cs p" and g: "p_groups p g = Some c"
    and c': "outstanding c' = outstanding c" "g_waiting_count c' = g_waiting_count c"
      "g_released c' = g_released c" "g_waiting_cond c' = g_waiting_cond c"
    and p': "p_groups p' = (p_groups p)(g \<mapsto> c')" "p_limit p' = p_limit p" "p_initial_limit p' = p_initial_limit p"
  shows "callers_ok own cs p'"
proof -
  have "group_ok own cs g c'" using callers_ok_group [OF ok g] c' by (simp add: group_ok_def)
  then show ?thesis
    using ok p' c'(1) g unfolding callers_ok_def donates_upd_same [OF g c'(1) p'(1)] by auto
qed

lemma not_waited_donates:
  assumes ok: "callers_ok own cs p" and n: "\<not> waited own cs g" and p': "p_groups p' = (p_groups p)(g \<mapsto> c')"
  shows "filter (donates p') cs = filter (donates p) cs"
proof (rule filter_cong [OF refl])
  fix pc assume "pc \<in> set cs"
  then obtain j where j: "j < length cs" "cs ! j = pc" by (auto simp: in_set_conv_nth)
  show "donates p' pc = donates p pc"
  proof (cases "\<exists>w. pc = C_Waiting g w")
    case True
    then have "own g = j" using ok j unfolding callers_ok_def by (metis group_of.simps(3))
    then show ?thesis using True n j by (auto simp: waited_def)
  next
    case False
    then show ?thesis using p' by (auto simp: donates_def split: caller_pc.split)
  qed
qed

text \<open>The limit counts the caller of a group that waits for outstanding tasks; the last task releases it.\<close>

lemma donor_limit:
  assumes ok: "callers_ok own cs p" and g: "p_groups p g = Some c" "outstanding c" "waited own cs g"
  shows "p_initial_limit p < p_limit p"
proof -
  obtain w where "own g < length cs" "cs ! own g = C_Waiting g w"
    using g(3) by (auto simp: waited_def elim: waits_on.elims)
  then have "filter (donates p) cs \<noteq> []"
    using g by (intro filter_nonempty [of "own g"]) (simp_all add: donates_def)
  then show ?thesis using ok by (simp add: callers_ok_def)
qed

lemma release_callers_ok:
  assumes ok: "callers_ok own cs p" and g: "p_groups p g = Some c" "outstanding c" "waited own cs g"
    and c': "\<not> outstanding c'" "g_waiting_count c' = g_waiting_count c" "g_released c' = Suc (g_released c)" "g_waiting_cond c' = []"
    and p': "p_groups p' = (p_groups p)(g \<mapsto> c')" "p_limit p' = p_limit p - 1" "p_initial_limit p' = p_initial_limit p"
  shows "callers_ok own cs p'"
proof -
  obtain w where w: "own g < length cs" "cs ! own g = C_Waiting g w"
    using g(3) by (auto simp: waited_def elim: waits_on.elims)
  have own: "own g' = j" if "j < length cs" "cs ! j = C_Waiting g' w'" for j g' w'
    using ok that unfolding callers_ok_def by (metis group_of.simps(3))
  have "length (filter (donates p) cs) = Suc (length (filter (donates p') cs))"
  proof (rule length_filter_drop [OF w(1)])
    show "donates p (cs ! own g)" "\<not> donates p' (cs ! own g)" using w g c' p' by (simp_all add: donates_def)
    show "donates p (cs ! j) = donates p' (cs ! j)" if "j < length cs" "j \<noteq> own g" for j
      using own [OF that(1)] that p' by (auto simp: donates_def split: caller_pc.split)
  qed
  moreover have "group_ok own cs g c'"
    using callers_ok_group [OF ok g(1)] g c' by (simp add: group_ok_def)
  moreover have "\<forall>i < length cs. \<forall>h d. cs ! i = C_Free h \<and> p_groups p' h = Some d \<longrightarrow> \<not> outstanding d"
    using ok p' c' unfolding callers_ok_def by auto
  ultimately show ?thesis
    using ok p' unfolding callers_ok_def by auto
qed

lemma done_callers_ok:
  assumes ok: "callers_ok own cs p" and g: "p_groups p g = Some c" "outstanding c" "\<not> waited own cs g"
    and c': "g_waiting_count c' = g_waiting_count c" "g_released c' = g_released c" "g_waiting_cond c' = g_waiting_cond c"
    and p': "p_groups p' = (p_groups p)(g \<mapsto> c')" "p_limit p' = p_limit p" "p_initial_limit p' = p_initial_limit p"
    and no_free: "\<not> outstanding c \<Longrightarrow> \<not> outstanding c'"
  shows "callers_ok own cs p'"
proof -
  have "group_ok own cs g c'" using callers_ok_group [OF ok g(1)] g c' by (simp add: group_ok_def)
  moreover have "\<forall>i < length cs. \<forall>h d. cs ! i = C_Free h \<and> p_groups p' h = Some d \<longrightarrow> \<not> outstanding d"
    using ok p' g unfolding callers_ok_def by auto
  ultimately show ?thesis
    using ok p' unfolding callers_ok_def not_waited_donates [OF ok g(3) p'(1)] by auto
qed

lemma run_func_done_ok:
  assumes ok: "pool_ok ws p" "callers_ok own cs p" and w: "i < length ws" "ws ! i = W_Busy t"
  obtains p' where "run_func_done k p t = Inr p'" "pool_ok (ws[i := W_Start]) p'" "callers_ok own cs p'"
    "p_refs p' = p_refs p" "p_running p' = p_running p" "dom (p_groups p') = dom (p_groups p)" "p_tasks p' = p_tasks p"
proof -
  have "W_Busy t \<in> set ws" using w nth_mem by metis
  then have "good_task (p_groups p) t" using ok(1) by (simp add: pool_ok_def)
  then obtain g c where t: "tk_g t = Some g" and g: "p_groups p g = Some c" by (auto simp: good_task_def)
  define c1 where "c1 = c\<lparr>g_working := g_working c - 1\<rparr>"
  define p1 where "p1 = p\<lparr>p_working := p_working p - 1, p_groups := (p_groups p)(g \<mapsto> c1)\<rparr>"
  have ok1: "pool_ok (ws[i := W_Start]) p1"
    unfolding p1_def c1_def by (rule pool_ok_busy_end [OF ok(1) w t g])
  have g1: "p_groups p1 g = Some c1" by (simp add: p1_def)
  have "filter (w_busy_of g) ws \<noteq> []" using w t by (intro filter_nonempty [of i]) simp_all
  then have out: "outstanding c"
    using pool_ok_group(2) [OF ok(1) g] by (simp add: locked_group_has_tasks_waiting_or_inflight_def)
  have run: "run_func_done k p t = locked_group_wake_waiter_if_allowed k p1 g"
    using pool_ok_tasks_le [OF ok1 g1] g1
    by (simp add: run_func_done_def task_group_def t upd_group_def g p1_def c1_def Let_def)
  note facts = callers_ok_group [OF ok(2) g, unfolded group_ok_def]
  show thesis
  proof (cases "outstanding c1 \<or> g_waiting_count c1 = 0")
    case True
    have "callers_ok own cs p1"
    proof (cases "outstanding c1")
      case True
      then show ?thesis
        by (intro callers_ok_upd [OF ok(2) g, of c1]) (simp_all add: out p1_def c1_def)
    next
      case False
      then have "\<not> waited own cs g" using True facts by (auto simp: c1_def)
      then show ?thesis
        by (intro done_callers_ok [OF ok(2) g out, of c1]) (simp_all add: p1_def c1_def out)
    qed
    moreover have "run_func_done k p t = Inr p1"
      unfolding run using True g1 by (auto simp: locked_group_wake_waiter_if_allowed_def)
    moreover have "dom (p_groups p1) = dom (p_groups p)" using g by (auto simp: p1_def)
    ultimately show thesis
      by (intro that [of p1] ok1) (simp_all add: p1_def)
  next
    case False
    then have wt: "waited own cs g" using facts by (auto simp: c1_def split: if_splits)
    define c2 where "c2 = c1\<lparr>g_waiting_cond := [], g_released := g_released c1 + 1\<rparr>"
    define p2 where "p2 = p1\<lparr>p_limit := p_limit p1 - 1, p_groups := (p_groups p1)(g \<mapsto> c2)\<rparr>"
    have "wake_one k (g_waiting_cond c) = []" using facts by (auto simp: wake_one_def)
    moreover have "p_initial_limit p < p_limit p" by (rule donor_limit [OF ok(2) g out wt])
    ultimately have "run_func_done k p t = Inr p2"
      unfolding run using False g1
      by (simp add: locked_group_wake_waiter_if_allowed_def upd_group_def p2_def c2_def p1_def c1_def)
    moreover have "pool_ok (ws[i := W_Start]) p2"
      unfolding p2_def using pool_ok_upd_group [of _ "p1\<lparr>p_limit := p_limit p1 - 1\<rparr>" g c1 c2] ok1 g1 by (simp add: c2_def)
    moreover have "callers_ok own cs p2"
      by (rule release_callers_ok [OF ok(2) g out wt, of c2])
        (use False in \<open>simp_all add: p2_def c2_def p1_def c1_def locked_group_has_tasks_waiting_or_inflight_def\<close>)
    moreover have "dom (p_groups p2) = dom (p_groups p)" using g by (auto simp: p2_def p1_def)
    ultimately show thesis
      by (intro that [of p2]) (simp_all add: p2_def p1_def)
  qed
qed

section \<open>A worker's turn\<close>

lemma mset_filter_lose:
  "j < length xs \<Longrightarrow> P (xs ! j) \<Longrightarrow> \<not> P x \<Longrightarrow> mset (filter P xs) = add_mset (xs ! j) (mset (filter P (xs[j := x])))"
proof (induction xs arbitrary: j)
  case (Cons y ys)
  then show ?case by (cases j) auto
qed simp

lemma mset_filter_gain:
  "j < length xs \<Longrightarrow> \<not> P (xs ! j) \<Longrightarrow> P x \<Longrightarrow> mset (filter P (xs[j := x])) = add_mset x (mset (filter P xs))"
proof (induction xs arbitrary: j)
  case (Cons y ys)
  then show ?case by (cases j) auto
qed simp

lemma mset_concat_update:
  "i < length xs \<Longrightarrow> mset (concat (map f (xs[i := x]))) + mset (f (xs ! i)) = mset (concat (map f xs)) + mset (f x)"
proof (induction xs arbitrary: i)
  case (Cons y ys)
  then show ?case by (cases i) (auto simp: ac_simps)
qed simp

lemma run_func_loop_ok:
  assumes ok: "pool_ok ws p" "callers_ok own cs p" "logs_ok ws p pushed dn" and w: "i < length ws" "ws ! i = W_Start"
    and e: "p_running p \<longrightarrow> W_Ended \<notin> set ws"
  obtains p' pc where "run_func_loop k i p = Inr (p', pc)" "pool_ok (ws[i := pc]) p'" "awake_ok (ws[i := pc]) p'"
    "callers_ok own cs p'" "logs_ok (ws[i := pc]) p' pushed dn"
    "p_refs p' = p_refs p" "p_running p' = p_running p" "dom (p_groups p') = dom (p_groups p)"
proof -
  note dt = mset_concat_update [OF w(1), of done_task]
  have sub: "x \<in> set (ws[i := pc]) \<Longrightarrow> x = pc \<or> x \<in> set ws" for x pc
    by (auto dest!: set_update_subset_insert [THEN subsetD])
  consider "\<not> p_running p" | "p_running p" "\<not> locked_thread_allowed_to_work p" | "p_running p" "locked_thread_allowed_to_work p"
    by blast
  then show thesis
  proof cases
    case 1
    let ?p = "signal_available k p" and ?ws = "ws[i := W_Ended]"
    have pk: "pool_ok ?ws p" by (rule pool_ok_end [OF ok(1) w])
    have "awake_ok ?ws ?p"
      using 1 signal_awake [OF pk, of k] by (cases "p_avail_cond p = []") (simp_all add: awake_ok_def signal_available_def wake_one_def)
    moreover have "callers_ok own cs ?p" using callers_ok_cong [of ?p p own cs] ok(2) by simp
    moreover have "logs_ok ?ws ?p pushed dn" using ok(3) dt [of W_Ended] w by (simp add: logs_ok_def done_task_def)
    ultimately show thesis
      using that [of ?p W_Ended] 1 pool_ok_signal [OF pk] by (simp add: run_func_loop_def)
  next
    case 2
    let ?p = "locked_thread_wait_for_work i p" and ?ws = "ws[i := W_Waiting]"
    have "awake_ok ?ws ?p"
      using 2 e by (auto simp: awake_ok_def locked_thread_wait_for_work_def locked_thread_allowed_to_work_def
          split: if_splits dest!: sub)
    moreover have "callers_ok own cs ?p"
      using callers_ok_cong [of ?p p own cs] ok(2) by (simp add: locked_thread_wait_for_work_def)
    moreover have "logs_ok ?ws ?p pushed dn"
      using ok(3) dt [of W_Waiting] w by (simp add: logs_ok_def done_task_def locked_thread_wait_for_work_def)
    ultimately show thesis
      using that [of ?p W_Waiting] 2 pool_ok_wait [OF ok(1) w]
      by (simp add: run_func_loop_def locked_thread_wait_for_work_def)
  next
    case 3
    then have "0 < p_tasks_count p" by (simp add: locked_thread_allowed_to_work_def split: if_splits)
    from pop_eq [OF ok(1) this] obtain j g c where j: "j < length (p_tasks p)" "filled (p_tasks p ! j)"
      "tk_g (p_tasks p ! j) = Some g" "p_groups p g = Some c" and pos: "g_tasks_in_array c > 0"
      and pop: "locked_pool_pop_task p =
       Inr (p\<lparr>p_tasks := (p_tasks p)[j := no_task], p_tasks_count := p_tasks_count p - 1,
              p_groups := (p_groups p)(g \<mapsto> c\<lparr>g_tasks_in_array := g_tasks_in_array c - 1, g_working := g_working c + 1\<rparr>)\<rparr>,
            p_tasks p ! j)" (is "_ = Inr (?p1, ?t)") by blast
    define c' where "c' = c\<lparr>g_tasks_in_array := g_tasks_in_array c - 1, g_working := g_working c + 1\<rparr>"
    define p2 where "p2 = ?p1\<lparr>p_working := p_working ?p1 + 1\<rparr>"
    let ?p = "locked_pool_wake_worker_if_allowed k p2" and ?ws = "ws[i := W_Busy ?t]"
    have pk: "pool_ok ?ws p2" using pool_ok_pop [OF ok(1) w j] by (simp add: p2_def)
    have "W_Ended \<notin> set ?ws" using e 3 by (auto dest!: sub)
    then have aw: "awake_ok ?ws ?p" using 3 by (intro awake_ok_wake [OF pk]) (simp_all add: p2_def)
    have "callers_ok own cs p2"
      by (rule callers_ok_upd [OF ok(2) j(4), of c'])
        (use pos in \<open>simp_all add: p2_def c'_def locked_group_has_tasks_waiting_or_inflight_def\<close>)
    then have cl: "callers_ok own cs ?p" using callers_ok_cong [of ?p p2 own cs] by simp
    have lg: "logs_ok ?ws ?p pushed dn"
      using ok(3) dt [of "W_Busy ?t"] w mset_filter_lose [of j "p_tasks p" filled no_task] j
      by (simp add: logs_ok_def done_task_def p2_def)
    have dom: "dom (p_groups ?p) = dom (p_groups p)" using j(4) by (auto simp: p2_def)
    have rest: "p_refs ?p = p_refs p" "p_running ?p = p_running p" by (simp_all add: p2_def)
    have run: "run_func_loop k i p = Inr (?p, W_Busy ?t)"
      using 3 by (simp add: run_func_loop_def pop p2_def)
    show thesis by (rule that [OF run pool_ok_wake [OF pk] aw cl lg rest dom])
  qed
qed

lemma run_func_ok:
  assumes ok: "pool_ok ws p" "awake_ok ws p" "callers_ok own cs p" "refs_ok h p" "logs_ok ws p pushed dn"
    and w: "i < length ws"
  obtains p' pc where "run_func k kw i p (ws ! i) = Inr (p', pc)" "pool_ok (ws[i := pc]) p'" "awake_ok (ws[i := pc]) p'"
    "callers_ok own cs p'" "refs_ok h p'" "logs_ok (ws[i := pc]) p' pushed (dn @ done_task (ws ! i))"
proof -
  have refs: "refs_ok h p'" if "p_refs p' = p_refs p" "p_running p' = p_running p" "dom (p_groups p') = dom (p_groups p)" for p'
    using ok(4) that by (simp add: refs_ok_def)
  have sub: "W_Ended \<in> set (ws[i := W_Start]) \<Longrightarrow> W_Ended \<in> set ws"
    by (auto dest!: set_update_subset_insert [THEN subsetD])
  note dt = mset_concat_update [OF w, of done_task W_Start]
  show thesis
  proof (cases "ws ! i")
    case W_Start
    have "p_running p \<longrightarrow> W_Ended \<notin> set ws" using ok(2) by (simp add: awake_ok_def)
    from run_func_loop_ok [OF ok(1,3,5) w W_Start this, of k] obtain p' pc where r: "run_func_loop k i p = Inr (p', pc)"
      "pool_ok (ws[i := pc]) p'" "awake_ok (ws[i := pc]) p'" "callers_ok own cs p'" "logs_ok (ws[i := pc]) p' pushed dn"
      "p_refs p' = p_refs p" "p_running p' = p_running p" "dom (p_groups p') = dom (p_groups p)" .
    have "run_func k kw i p (ws ! i) = Inr (p', pc)" by (simp add: run_func_def W_Start r(1))
    moreover have "logs_ok (ws[i := pc]) p' pushed (dn @ done_task (ws ! i))" using r(5) by (simp add: W_Start done_task_def)
    ultimately show thesis by (rule that [OF _ r(2-4) refs [OF r(6-8)]])
  next
    case W_Waiting
    show thesis
    proof (cases "i \<in> set (p_avail_cond p)")
      case True
      then show thesis
        using that [of p W_Waiting] ok W_Waiting list_update_id [of ws i] by (simp add: run_func_def done_task_def)
    next
      case False
      let ?p = "locked_thread_wait_end p" and ?ws = "ws[i := W_Start]"
      have pk: "pool_ok ?ws ?p" by (rule pool_ok_wait_end [OF ok(1) w W_Waiting False])
      have cl: "callers_ok own cs ?p" using callers_ok_cong [of ?p p own cs] ok(3) by (simp add: locked_thread_wait_end_def)
      have lg: "logs_ok ?ws ?p pushed dn"
        using ok(5) dt W_Waiting by (simp add: logs_ok_def done_task_def locked_thread_wait_end_def)
      have en: "p_running ?p \<longrightarrow> W_Ended \<notin> set ?ws"
        using ok(2) sub by (auto simp: awake_ok_def locked_thread_wait_end_def)
      have st: "i < length ?ws" "?ws ! i = W_Start" using w by simp_all
      from run_func_loop_ok [OF pk cl lg st en, of k] obtain p' pc where r: "run_func_loop k i ?p = Inr (p', pc)"
        "pool_ok (?ws[i := pc]) p'" "awake_ok (?ws[i := pc]) p'" "callers_ok own cs p'" "logs_ok (?ws[i := pc]) p' pushed dn"
        "p_refs p' = p_refs ?p" "p_running p' = p_running ?p" "dom (p_groups p') = dom (p_groups ?p)" .
      have run: "run_func k kw i p (ws ! i) = Inr (p', pc)" by (simp add: run_func_def W_Waiting False r(1))
      have "refs_ok h p'" by (rule refs) (simp_all add: r locked_thread_wait_end_def)
      moreover have "logs_ok (ws[i := pc]) p' pushed (dn @ done_task (ws ! i))" using r(5) by (simp add: W_Waiting done_task_def)
      ultimately show thesis
        using r(2-4) by (intro that [OF run]) simp_all
    qed
  next
    case (W_Busy t)
    from run_func_done_ok [OF ok(1,3) w W_Busy, of kw] obtain p1 where p1: "run_func_done kw p t = Inr p1"
      "pool_ok (ws[i := W_Start]) p1" "callers_ok own cs p1" "p_refs p1 = p_refs p" "p_running p1 = p_running p"
      "dom (p_groups p1) = dom (p_groups p)" "p_tasks p1 = p_tasks p" by blast
    have lg: "logs_ok (ws[i := W_Start]) p1 pushed (dn @ [t])"
      using ok(5) dt W_Busy p1(7) by (simp add: logs_ok_def done_task_def)
    have en: "p_running p1 \<longrightarrow> W_Ended \<notin> set (ws[i := W_Start])" using ok(2) sub p1(5) by (auto simp: awake_ok_def)
    have st: "i < length (ws[i := W_Start])" "ws[i := W_Start] ! i = W_Start" using w by simp_all
    from run_func_loop_ok [OF p1(2,3) lg st en, of k] obtain p' pc where r: "run_func_loop k i p1 = Inr (p', pc)"
      "pool_ok (ws[i := W_Start, i := pc]) p'" "awake_ok (ws[i := W_Start, i := pc]) p'" "callers_ok own cs p'"
      "logs_ok (ws[i := W_Start, i := pc]) p' pushed (dn @ [t])"
      "p_refs p' = p_refs p1" "p_running p' = p_running p1" "dom (p_groups p') = dom (p_groups p1)" .
    have run: "run_func k kw i p (ws ! i) = Inr (p', pc)" by (simp add: run_func_def W_Busy p1(1) r(1))
    have "refs_ok h p'" by (rule refs) (simp_all add: r p1)
    moreover have "logs_ok (ws[i := pc]) p' pushed (dn @ done_task (ws ! i))" using r(5) by (simp add: W_Busy done_task_def)
    ultimately show thesis
      using r(2-4) by (intro that [OF run]) simp_all
  next
    case W_Ended
    then show thesis
      using that [of p W_Ended] ok list_update_id [of ws i] by (simp add: run_func_def done_task_def)
  qed
qed

section \<open>A caller's turn\<close>

lemma callers_ok_own:
  assumes "callers_ok own cs p" "i < length cs" "group_of (cs ! i) = Some g"
  obtains c where "own g = i" "p_groups p g = Some c"
  using assms unfolding callers_ok_def by blast

lemma waits_on_group: "waits_on g pc \<Longrightarrow> group_of pc = Some g"
  by (auto elim: waits_on.elims)

lemma donates_group: "group_of pc \<noteq> Some g \<Longrightarrow> p_groups p' = (p_groups p)(g := c) \<Longrightarrow> donates p' pc = donates p pc"
  by (auto simp: donates_def split: caller_pc.split)

lemma callers_ok_client:
  assumes ok: "callers_ok own cs p" and i: "i < length cs"
    and old: "group_of (cs ! i) = None \<or> group_of (cs ! i) = Some g" and g: "own g = i"
    and new: "group_of pc = None \<or> group_of pc = Some g"
    and p': "p_groups p' = (p_groups p)(g \<mapsto> c)" "p_initial_limit p' = p_initial_limit p"
      "p_limit p' + (if donates p (cs ! i) then 1 else 0) = p_limit p + (if donates p' pc then 1 else 0)"
    and c: "group_ok own (cs[i := pc]) g c" "pc = C_Free g \<Longrightarrow> \<not> outstanding c" "good_push pc"
  shows "callers_ok own (cs[i := pc]) p'"
proof -
  have other: "group_of (cs ! j) \<noteq> Some g" if "j < length cs" "j \<noteq> i" for j
    using ok that g unfolding callers_ok_def by blast
  have same: "waited own (cs[i := pc]) h = waited own cs h" if "h \<noteq> g" for h
    using old new that waits_on_group [of h pc] waits_on_group [of h "cs ! i"]
    by (cases "own h = i") (auto simp: waited_def nth_list_update)
  have groups: "group_ok own (cs[i := pc]) h d" if "p_groups p' h = Some d" for h d
    using that c(1) p'(1) ok by (cases "h = g") (auto simp: callers_ok_def group_ok_def same)
  have "length (filter (donates p') (cs[i := pc])) + (if donates p (cs ! i) then 1 else 0) =
        length (filter (donates p) cs) + (if donates p' pc then 1 else 0)"
    by (rule length_filter_change [OF i]) (use donates_group [OF other p'(1)] in simp)
  then have limit: "p_limit p' = p_initial_limit p' + length (filter (donates p') (cs[i := pc]))"
    using ok p'(2,3) unfolding callers_ok_def by linarith
  have own: "own h = j \<and> p_groups p' h \<noteq> None" if "j < length (cs[i := pc])" "group_of (cs[i := pc] ! j) = Some h" for j h
    using that ok p'(1) new g by (cases "j = i") (auto simp: callers_ok_def nth_list_update)
  have free: "\<not> outstanding d" if "j < length (cs[i := pc])" "cs[i := pc] ! j = C_Free h \<and> p_groups p' h = Some d" for j h d
  proof (cases "j = i")
    case True
    then show ?thesis using that p'(1) c(2) new by auto
  next
    case False
    then show ?thesis using that other [of j] p'(1) ok unfolding callers_ok_def by (cases "h = g") auto
  qed
  have push: "good_push (cs[i := pc] ! j)" if "j < length (cs[i := pc])" for j
    using that ok c(3) by (cases "j = i") (auto simp: callers_ok_def)
  show ?thesis
    unfolding callers_ok_def by (intro conjI allI impI groups limit push free) (use own in blast)+
qed

lemma after_wait_all_facts [simp]:
  "\<not> donates p (after_wait_all g w)"
  "\<not> waits_on h (after_wait_all g w)"
  "group_of (after_wait_all g w) = None \<or> group_of (after_wait_all g w) = Some g"
  by (cases w; simp add: after_wait_all_def donates_def)+

lemma good_push_after: "good_push (C_Wait_All g w) \<Longrightarrow> good_push (after_wait_all g w)"
  by (cases w) (auto simp: after_wait_all_def)

lemma good_push_waiting: "good_push (C_Waiting g w) = good_push (C_Wait_All g w)"
  by (cases w) auto

lemma awake_ok_cong:
  "p_running p' = p_running p \<Longrightarrow> p_tasks_count p' = p_tasks_count p \<Longrightarrow> p_working p' = p_working p \<Longrightarrow>
     p_limit p' = p_limit p \<Longrightarrow> p_avail_cond p' = p_avail_cond p \<Longrightarrow> awake_ok ws p' = awake_ok ws p"
  by (simp add: awake_ok_def some_awake_def)

lemma refs_ok_upd:
  "refs_ok h p \<Longrightarrow> p_groups p g \<noteq> None \<Longrightarrow> p_groups p' = (p_groups p)(g \<mapsto> c) \<Longrightarrow> p_refs p' = p_refs p \<Longrightarrow>
     p_running p' = p_running p \<Longrightarrow> refs_ok h p'"
  by (auto simp: refs_ok_def insert_absorb [OF domI])

lemma refs_ok_running: "refs_ok h p \<Longrightarrow> p_groups p g \<noteq> None \<Longrightarrow> p_running p"
  by (auto simp: refs_ok_def card_gt_0_iff)

lemma client_wait_all_ok:
  assumes ok: "pool_ok ws p" "awake_ok ws p" "callers_ok own cs p" "refs_ok h p" "logs_ok ws p pushed dn"
    and i: "i < length cs" "cs ! i = C_Wait_All g w"
  obtains p' pc where "u_worker_group_wait_all k i p g w = Inr (p', pc)" "pool_ok ws p'" "awake_ok ws p'"
    "callers_ok own (cs[i := pc]) p'" "refs_ok h p'" "logs_ok ws p' pushed dn"
proof -
  obtain c where own: "own g = i" and g: "p_groups p g = Some c"
    using callers_ok_own [OF ok(3) i(1)] i(2) by auto
  have nw: "\<not> waited own cs g" using own i by (simp add: waited_def)
  have c: "g_waiting_count c = 0" "g_released c = 0" "g_waiting_cond c = []"
    using callers_ok_group [OF ok(3) g] nw by (simp_all add: group_ok_def)
  have gp: "good_push (C_Wait_All g w)" using ok(3) i unfolding callers_ok_def by metis
  have nd: "\<not> donates p (cs ! i)" using i by (simp add: donates_def)
  show thesis
  proof (cases "outstanding c")
    case False
    have "callers_ok own (cs[i := after_wait_all g w]) p"
    proof (rule callers_ok_client [OF ok(3) i(1) _ own])
      show "group_ok own (cs[i := after_wait_all g w]) g c"
        using c own i by (simp add: group_ok_def waited_def)
    qed (use g False gp nd i in \<open>simp_all add: map_upd_triv good_push_after\<close>)
    then show thesis using that [of p "after_wait_all g w"] ok g False by (simp add: u_worker_group_wait_all_def)
  next
    case True
    define c' where "c' = c\<lparr>g_waiting_count := 1, g_waiting_cond := [i]\<rparr>"
    define p2 where "p2 = locked_pool_wake_worker_if_allowed k (p\<lparr>p_limit := p_limit p + 1\<rparr>)"
    define p3 where "p3 = p2\<lparr>p_groups := (p_groups p)(g \<mapsto> c')\<rparr>"
    have c0: "c\<lparr>g_released := 0\<rparr> = c" using c by (cases c) simp
    have p0: "p\<lparr>p_groups := (p_groups p)(g \<mapsto> c)\<rparr> = p" using g by (simp add: map_upd_triv)
    have "locked_group_should_wait k (p\<lparr>p_groups := (p_groups p)(g \<mapsto> c\<lparr>g_released := 1\<rparr>)\<rparr>) g = Inr (p2, True)"
      using True p0 by (simp add: locked_group_should_wait_def upd_group_def c0 p2_def
          locked_group_has_tasks_waiting_or_inflight_def)
    moreover have "locked_group_wait i p2 g = Inr p3"
      using c by (simp add: locked_group_wait_def upd_group_def p2_def p3_def g c'_def)
    ultimately have run: "u_worker_group_wait_all k i p g w = Inr (p3, C_Waiting g w)"
      using True g c by (simp add: u_worker_group_wait_all_def upd_group_def wait_all_loop_def)
    have pk2: "pool_ok ws p2" unfolding p2_def by (rule pool_ok_wake) (simp add: ok(1))
    then have pk: "pool_ok ws p3"
      using pool_ok_upd_group [OF pk2, of g c c'] g by (simp add: p3_def p2_def c'_def)
    have "p_running p" by (rule refs_ok_running [OF ok(4), of g]) (simp add: g)
    then have "awake_ok ws p2"
      unfolding p2_def using ok(1,2) by (intro awake_ok_wake) (simp_all add: awake_ok_def)
    then have aw: "awake_ok ws p3" using awake_ok_cong [of p3 p2 ws] by (simp add: p3_def)
    have cl: "callers_ok own (cs[i := C_Waiting g w]) p3"
    proof (rule callers_ok_client [OF ok(3) i(1) _ own])
      show "group_ok own (cs[i := C_Waiting g w]) g c'"
        using c own i True by (simp add: group_ok_def waited_def c'_def locked_group_has_tasks_waiting_or_inflight_def)
    qed (use True gp nd i in \<open>simp_all add: p3_def p2_def donates_def good_push_waiting c'_def
        locked_group_has_tasks_waiting_or_inflight_def\<close>)
    have rf: "refs_ok h p3" by (rule refs_ok_upd [OF ok(4), of g]) (simp_all add: g p3_def p2_def)
    have "logs_ok ws p3 pushed dn" using ok(5) by (simp add: logs_ok_def p3_def p2_def)
    then show thesis by (rule that [OF run pk aw cl rf])
  qed
qed

lemma client_waiting_ok:
  assumes ok: "pool_ok ws p" "awake_ok ws p" "callers_ok own cs p" "refs_ok h p" "logs_ok ws p pushed dn"
    and i: "i < length cs" "cs ! i = C_Waiting g w"
  obtains p' pc where "client_run k i p (C_Waiting g w) = Inr (p', pc)" "pool_ok ws p'" "awake_ok ws p'"
    "callers_ok own (cs[i := pc]) p'" "refs_ok h p'" "logs_ok ws p' pushed dn"
proof -
  obtain c where own: "own g = i" and g: "p_groups p g = Some c"
    using callers_ok_own [OF ok(3) i(1)] i(2) by auto
  have wt: "waited own cs g" using own i by (simp add: waited_def)
  note go = callers_ok_group [OF ok(3) g, unfolded group_ok_def]
  have gp: "good_push (C_Waiting g w)" using ok(3) i unfolding callers_ok_def by metis
  show thesis
  proof (cases "i \<in> set (g_waiting_cond c)")
    case True
    then show thesis
      using that [of p "C_Waiting g w"] ok i list_update_id [of cs i] g by (simp add: client_run_def)
  next
    case False
    then have c: "g_waiting_count c = 1" "g_waiting_cond c = []" using go wt own by auto
    define c' where "c' = (if outstanding c then c\<lparr>g_waiting_cond := [i]\<rparr> else c\<lparr>g_waiting_count := 0, g_released := 0\<rparr>)"
    define pc where "pc = (if outstanding c then C_Waiting g w else after_wait_all g w)"
    define p' where "p' = p\<lparr>p_groups := (p_groups p)(g \<mapsto> c')\<rparr>"
    have rel: "g_released c = (if outstanding c then 0 else 1)" using go wt by simp
    have c1: "c\<lparr>g_waiting_count := 1, g_waiting_cond := [i]\<rparr> = c\<lparr>g_waiting_cond := [i]\<rparr>"
      "c\<lparr>g_waiting_count := Suc 0, g_waiting_cond := [i]\<rparr> = c\<lparr>g_waiting_cond := [i]\<rparr>" using c by (cases c, simp)+
    have run: "client_run k i p (C_Waiting g w) = Inr (p', pc)"
      using False g c rel
      by (simp add: c1 client_run_def locked_group_wait_end_def upd_group_def wait_all_loop_def locked_group_should_wait_def
          locked_group_wait_def locked_group_has_tasks_waiting_or_inflight_def p'_def c'_def pc_def)
    have pk: "pool_ok ws p'"
      unfolding p'_def by (rule pool_ok_upd_group [OF ok(1) g]) (simp_all add: c'_def)
    have aw: "awake_ok ws p'" using ok(2) awake_ok_cong [of p' p ws] by (simp add: p'_def)
    have out: "outstanding c' = outstanding c" by (simp add: c'_def locked_group_has_tasks_waiting_or_inflight_def)
    have cl: "callers_ok own (cs[i := pc]) p'"
    proof (rule callers_ok_client [OF ok(3) i(1) _ own])
      show "group_ok own (cs[i := pc]) g c'"
        using c own i rel by (auto simp: group_ok_def waited_def c'_def pc_def locked_group_has_tasks_waiting_or_inflight_def)
    qed (use gp i g out in \<open>auto simp add: p'_def pc_def good_push_waiting good_push_after split: if_splits\<close>)
    have rf: "refs_ok h p'" by (rule refs_ok_upd [OF ok(4), of g]) (simp_all add: g p'_def)
    have "logs_ok ws p' pushed dn" using ok(5) by (simp add: logs_ok_def p'_def)
    then show thesis by (rule that [OF run pk aw cl rf])
  qed
qed

lemma client_push_ok:
  assumes ok: "pool_ok ws p" "awake_ok ws p" "callers_ok own cs p" "refs_ok h p" "logs_ok ws p pushed dn"
    and i: "i < length cs" "cs ! i = C_Push g f d"
  obtains p' pc where "u_worker_group_push k p g f d = Inr (p', pc)" "pool_ok ws p'" "awake_ok ws p'"
    "callers_ok own (cs[i := pc]) p'" "refs_ok h p'" "logs_ok ws p' (pushed @ pushed_task (cs ! i) pc) dn"
proof -
  obtain c where own: "own g = i" and g: "p_groups p g = Some c"
    using callers_ok_own [OF ok(3) i(1)] i(2) by auto
  have nw: "\<not> waited own cs g" using own i by (simp add: waited_def)
  have c: "g_waiting_count c = 0" "g_released c = 0" "g_waiting_cond c = []"
    using callers_ok_group [OF ok(3) g] nw by (simp_all add: group_ok_def)
  have "good_push (C_Push g f d)" using ok(3) i unfolding callers_ok_def by metis
  then have f: "f \<noteq> None" by simp
  have nd: "\<not> donates p (cs ! i)" using i by (simp add: donates_def)
  show thesis
  proof (cases "p_tasks_count p \<ge> MAX_TASK_COUNT")
    case True
    have "callers_ok own (cs[i := C_Wait_All g (For_Push f d)]) p"
    proof (rule callers_ok_client [OF ok(3) i(1) _ own])
      show "group_ok own (cs[i := C_Wait_All g (For_Push f d)]) g c"
        using c own i by (simp add: group_ok_def waited_def)
    qed (use g f i in \<open>simp_all add: map_upd_triv donates_def\<close>)
    then show thesis
      using that [of p "C_Wait_All g (For_Push f d)"] ok True i by (simp add: u_worker_group_push_def pushed_task_def)
  next
    case False
    let ?t = "\<lparr>tk_g = Some g, tk_func = f, tk_data = d\<rparr>"
    define c' where "c' = c\<lparr>g_tasks_in_array := g_tasks_in_array c + 1\<rparr>"
    have lt: "p_tasks_count p < MAX_TASK_COUNT" using False by simp
    obtain j where j: "j < length (p_tasks p)" "\<not> filled (p_tasks p ! j)"
      and push: "locked_pool_push_task p g f d =
       Inr (p\<lparr>p_tasks := (p_tasks p)[j := ?t], p_tasks_count := p_tasks_count p + 1, p_groups := (p_groups p)(g \<mapsto> c')\<rparr>)"
      (is "_ = Inr ?p1") unfolding c'_def by (rule push_eq [OF ok(1) lt g, of f d])
    define p1 where "p1 = ?p1"
    define p2 where "p2 = (if p_avail_count p1 > 0 then signal_available k p1 else p1)"
    have run: "u_worker_group_push k p g f d = Inr (p2, C_Out)"
      using False push by (simp add: u_worker_group_push_def p1_def p2_def)
    have pk1: "pool_ok ws p1" unfolding p1_def c'_def by (rule pool_ok_push [OF ok(1) g f j])
    have pk: "pool_ok ws p2" by (simp add: p2_def pk1 pool_ok_signal)
    have same: "p_groups p2 = (p_groups p)(g \<mapsto> c')" "p_limit p2 = p_limit p" "p_initial_limit p2 = p_initial_limit p"
      "p_refs p2 = p_refs p" "p_running p2 = p_running p" "p_tasks p2 = (p_tasks p)[j := ?t]"
      by (simp_all add: p2_def p1_def)
    have run1: "p_running p" by (rule refs_ok_running [OF ok(4), of g]) (simp add: g)
    have "some_awake ws p2" if "ws \<noteq> []"
    proof (cases "p_avail_cond p1 = []")
      case True
      then have "p_avail_cond p2 = []" by (simp add: p2_def signal_available_def wake_one_def)
      then show ?thesis using ok(2) run1 that by (intro all_awake) (simp_all add: awake_ok_def)
    next
      case False
      then have "p_avail_count p1 > 0" using no_waiters [OF pk1] by auto
      then show ?thesis using signal_awake [OF pk1 False] by (simp add: p2_def)
    qed
    then have aw: "awake_ok ws p2" using ok(2) run1 same(5) by (auto simp: awake_ok_def)
    have cl: "callers_ok own (cs[i := C_Out]) p2"
    proof (rule callers_ok_client [OF ok(3) i(1) _ own])
      show "group_ok own (cs[i := C_Out]) g c'"
        using c own i by (simp add: group_ok_def waited_def c'_def)
    qed (use i nd in \<open>simp_all add: same donates_def\<close>)
    have rf: "refs_ok h p2" by (rule refs_ok_upd [OF ok(4), of g]) (simp_all add: g same)
    have "filled ?t" using f by (simp add: filled_def)
    then have "logs_ok ws p2 (pushed @ pushed_task (cs ! i) C_Out) dn"
      using ok(5) mset_filter_gain [of j "p_tasks p" filled ?t] j i by (simp add: logs_ok_def same pushed_task_def)
    then show thesis by (rule that [OF run pk aw cl rf])
  qed
qed

text \<open>Freeing a group removes no task: nothing of it is outstanding.\<close>

lemma pool_ok_free:
  assumes ok: "pool_ok ws p" and g: "p_groups p g = Some c" "\<not> outstanding c"
  shows "pool_ok ws (p\<lparr>p_groups := (p_groups p)(g := None)\<rparr>)"
proof -
  have z: "filter (filled_of g) (p_tasks p) = []" "filter (w_busy_of g) ws = []"
    using pool_ok_group [OF ok g(1)] g(2) by (simp_all add: locked_group_has_tasks_waiting_or_inflight_def)
  have keep: "good_task ((p_groups p)(g := None)) t" if "good_task (p_groups p) t" "tk_g t \<noteq> Some g" for t
    using that by (auto simp: good_task_def)
  have "good_task ((p_groups p)(g := None)) t" if "t \<in> set (p_tasks p)" "filled t" for t
  proof (rule keep)
    show "good_task (p_groups p) t" using ok that by (simp add: pool_ok_def)
    have "\<not> filled_of g t" using z(1) that(1) by (auto simp: filter_empty_conv)
    then show "tk_g t \<noteq> Some g" using that(2) by (auto simp add: filled_of_def filled_def)
  qed
  moreover have "good_task ((p_groups p)(g := None)) t" if "W_Busy t \<in> set ws" for t
  proof (rule keep)
    show "good_task (p_groups p) t" using ok that by (simp add: pool_ok_def)
    have "\<not> w_busy_of g (W_Busy t)" using z(2) that by (auto simp: filter_empty_conv)
    then show "tk_g t \<noteq> Some g" by simp
  qed
  ultimately show ?thesis using ok unfolding pool_ok_def by simp
qed

lemma unreference_ok:
  assumes ok: "pool_ok ws p" "awake_ok ws p" and r: "p_refs p > 0" "p_running p"
  obtains p' b where "pool_unreference k p = (p', b)" "pool_ok ws p'" "awake_ok ws p'" "p_refs p' = p_refs p - 1"
    "p_running p' \<longleftrightarrow> 0 < p_refs p'" "p_groups p' = p_groups p" "p_limit p' = p_limit p"
    "p_initial_limit p' = p_initial_limit p" "p_tasks p' = p_tasks p"
proof (cases "p_refs p = 1")
  case True
  let ?p = "p\<lparr>p_refs := 0, p_running := False\<rparr>"
  have pk: "pool_ok ws ?p" using ok(1) by simp
  have "awake_ok ws (signal_available k ?p)"
    using signal_awake [OF pk, of k]
    by (cases "p_avail_cond p = []") (simp_all add: awake_ok_def signal_available_def wake_one_def)
  then show thesis
    using that [of "signal_available k ?p" True] True pool_ok_signal [OF pk]
    by (simp add: pool_unreference_def u_worker_thread_pool_destroy_def)
next
  case False
  then show thesis
    using that [of "p\<lparr>p_refs := p_refs p - 1\<rparr>" False] ok r awake_ok_cong [of "p\<lparr>p_refs := p_refs p - 1\<rparr>" p ws]
    by (simp add: pool_unreference_def)
qed

lemma callers_ok_gone:
  assumes ok: "callers_ok own cs p" and i: "i < length cs" "cs ! i = C_Free g" and pc: "pc \<in> {C_Out, C_Join}"
    and p': "p_groups p' = (p_groups p)(g := None)" "p_limit p' = p_limit p" "p_initial_limit p' = p_initial_limit p"
  shows "callers_ok own (cs[i := pc]) p'"
proof -
  have g: "own g = i" using ok i unfolding callers_ok_def by (metis group_of.simps(5))
  have other: "group_of (cs ! j) \<noteq> Some g" if "j < length cs" "j \<noteq> i" for j
    using ok that g unfolding callers_ok_def by blast
  have nopc: "group_of pc = None" "\<not> donates p' pc" "good_push pc" using pc by auto
  have same: "waited own (cs[i := pc]) h = waited own cs h" for h
    using i nopc(1) waits_on_group [of h pc] waits_on_group [of h "cs ! i"]
    by (cases "own h = i") (auto simp: waited_def nth_list_update)
  have groups: "group_ok own (cs[i := pc]) h d" if "p_groups p' h = Some d" for h d
    using that p'(1) ok by (auto simp: callers_ok_def group_ok_def same split: if_splits)
  have "length (filter (donates p') (cs[i := pc])) + (if donates p (cs ! i) then 1 else 0) =
        length (filter (donates p) cs) + (if donates p' pc then 1 else 0)"
    by (rule length_filter_change [OF i(1)]) (use donates_group [OF other p'(1)] in simp)
  then have limit: "p_limit p' = p_initial_limit p' + length (filter (donates p') (cs[i := pc]))"
    using ok p'(2,3) nopc(2) i(2) unfolding callers_ok_def by simp
  have own: "own h = j \<and> p_groups p' h \<noteq> None" if "j < length (cs[i := pc])" "group_of (cs[i := pc] ! j) = Some h" for j h
  proof (cases "j = i")
    case False
    then have "group_of (cs ! j) = Some h" "j < length cs" using that by simp_all
    then show ?thesis using ok other [of j] False p'(1) unfolding callers_ok_def by auto
  qed (use that nopc(1) in simp)
  have free: "\<not> outstanding d" if "j < length (cs[i := pc])" "cs[i := pc] ! j = C_Free h \<and> p_groups p' h = Some d" for j h d
    using that ok p'(1) nopc(1) unfolding callers_ok_def
    by (cases "j = i") (auto split: if_splits)
  have push: "good_push (cs[i := pc] ! j)" if "j < length (cs[i := pc])" for j
    using that ok nopc(3) by (cases "j = i") (auto simp: callers_ok_def)
  show ?thesis
    unfolding callers_ok_def by (intro conjI allI impI groups limit push free) (use own in blast)+
qed

lemma client_free_ok:
  assumes ok: "pool_ok ws p" "awake_ok ws p" "callers_ok own cs p" "refs_ok h p" "logs_ok ws p pushed dn"
    and i: "i < length cs" "cs ! i = C_Free g"
  obtains p' pc where "group_free k p g = (p', pc)" "pool_ok ws p'" "awake_ok ws p'"
    "callers_ok own (cs[i := pc]) p'" "refs_ok h p'" "logs_ok ws p' pushed dn"
proof -
  obtain c where own: "own g = i" and g: "p_groups p g = Some c"
    using callers_ok_own [OF ok(3) i(1)] i(2) by auto
  have no: "\<not> outstanding c" using ok(3) i g unfolding callers_ok_def by blast
  have fin: "finite (dom (p_groups p))" and dom: "g \<in> dom (p_groups p)" using ok(4) g by (auto simp: refs_ok_def)
  have r: "p_refs p > 0" "p_running p"
    using ok(4) fin dom by (auto simp: refs_ok_def card_gt_0_iff)
  obtain p1 b where u: "pool_unreference k p = (p1, b)" "pool_ok ws p1" "awake_ok ws p1" "p_refs p1 = p_refs p - 1"
    "p_running p1 \<longleftrightarrow> 0 < p_refs p1" "p_groups p1 = p_groups p" "p_limit p1 = p_limit p"
    "p_initial_limit p1 = p_initial_limit p" "p_tasks p1 = p_tasks p"
    by (rule unreference_ok [OF ok(1,2) r])
  define p2 where "p2 = p1\<lparr>p_groups := (p_groups p)(g := None)\<rparr>"
  define pc where "pc = (if b then C_Join else C_Out)"
  have run: "group_free k p g = (p2, pc)" by (simp add: group_free_def u(1,6) p2_def pc_def)
  have pk: "pool_ok ws p2"
    using pool_ok_free [OF u(2), of g c] u(6) g no by (simp add: p2_def)
  have aw: "awake_ok ws p2" using u(3) awake_ok_cong [of p2 p1 ws] by (simp add: p2_def)
  have cl: "callers_ok own (cs[i := pc]) p2"
    by (rule callers_ok_gone [OF ok(3) i]) (simp_all add: pc_def p2_def u)
  have dom2: "dom (p_groups p2) = dom (p_groups p) - {g}" by (auto simp: p2_def)
  have "card (dom (p_groups p2)) = card (dom (p_groups p)) - 1"
    unfolding dom2 by (rule card_Diff_singleton [OF dom])
  moreover have "0 < card (dom (p_groups p))" using fin dom by (metis card_gt_0_iff empty_iff)
  moreover have "finite (dom (p_groups p2))" unfolding dom2 using fin by (rule finite_Diff)
  moreover have "p_refs p2 = p_refs p - 1" "p_running p2 \<longleftrightarrow> 0 < p_refs p2" using u by (simp_all add: p2_def)
  ultimately have rf: "refs_ok h p2" using ok(4) unfolding refs_ok_def by linarith
  have "logs_ok ws p2 pushed dn" using ok(5) u(9) by (simp add: logs_ok_def p2_def)
  then show thesis by (rule that [OF run pk aw cl rf])
qed

lemma client_run_ok:
  assumes ok: "pool_ok ws p" "awake_ok ws p" "callers_ok own cs p" "refs_ok h p" "logs_ok ws p pushed dn"
    and i: "i < length cs"
  obtains p' pc where "client_run k i p (cs ! i) = Inr (p', pc)" "pool_ok ws p'" "awake_ok ws p'"
    "callers_ok own (cs[i := pc]) p'" "refs_ok h p'" "logs_ok ws p' (pushed @ pushed_task (cs ! i) pc) dn"
proof (cases "cs ! i")
  case C_Out
  then show thesis using that [of p C_Out] ok list_update_id [of cs i] by (simp add: client_run_def pushed_task_def)
next
  case (C_Wait_All g w)
  show thesis
    by (rule client_wait_all_ok [OF ok i C_Wait_All, of k], rule that)
      (simp_all add: client_run_def C_Wait_All pushed_task_def)
next
  case (C_Waiting g w)
  show thesis
    by (rule client_waiting_ok [OF ok i C_Waiting, of k], rule that)
      (simp_all add: C_Waiting pushed_task_def)
next
  case (C_Push g f d)
  show thesis
    by (rule client_push_ok [OF ok i C_Push, of k], rule that)
      (simp_all add: client_run_def C_Push)
next
  case (C_Free g)
  show thesis
    by (rule client_free_ok [OF ok i C_Free, of k], rule that)
      (simp_all add: client_run_def C_Free pushed_task_def)
next
  case C_Join
  then show thesis using that [of p C_Join] ok list_update_id [of cs i] by (simp add: client_run_def pushed_task_def)
qed

section \<open>Every step\<close>

lemma wp_ok_worker:
  assumes "wp_ok own s" "i < length (ws_workers s)"
  shows "\<exists>s'. worker_step k kw i s = Inr s' \<and> wp_ok own s'"
proof -
  obtain p' pc where "run_func k kw i (ws_pool s) (ws_workers s ! i) = Inr (p', pc)"
    "pool_ok ((ws_workers s)[i := pc]) p'" "awake_ok ((ws_workers s)[i := pc]) p'" "callers_ok own (ws_clients s) p'"
    "refs_ok (ws_handle s) p'"
    "logs_ok ((ws_workers s)[i := pc]) p' (ws_pushed s) (ws_done s @ done_task (ws_workers s ! i))"
    using assms unfolding wp_ok_def by (elim conjE) (rule run_func_ok)
  then show ?thesis by (simp add: worker_step_def wp_ok_def)
qed

lemma wp_ok_client:
  assumes "wp_ok own s" "i < length (ws_clients s)"
  shows "\<exists>s'. caller_step k i s = Inr s' \<and> wp_ok own s'"
proof -
  obtain p' pc where "client_run k i (ws_pool s) (ws_clients s ! i) = Inr (p', pc)"
    "pool_ok (ws_workers s) p'" "awake_ok (ws_workers s) p'" "callers_ok own ((ws_clients s)[i := pc]) p'"
    "refs_ok (ws_handle s) p'"
    "logs_ok (ws_workers s) p' (ws_pushed s @ pushed_task (ws_clients s ! i) pc) (ws_done s)"
    using assms unfolding wp_ok_def by (elim conjE) (rule client_run_ok)
  then show ?thesis by (simp add: caller_step_def wp_ok_def)
qed

lemma wp_ok_enters:
  assumes ok: "wp_ok own s" and own: "own g = c" and pc: "group_of pc = Some g" "\<And>h. \<not> waits_on h pc" "good_push pc" "\<And>h. pc \<noteq> C_Free h"
  shows "wp_ok own (enters c g pc s)"
proof (cases "may_call c s \<and> p_groups (ws_pool s) g \<noteq> None")
  case True
  then obtain d where d: "p_groups (ws_pool s) g = Some d" by auto
  have c: "c < length (ws_clients s)" "ws_clients s ! c = C_Out" using True by (simp_all add: may_call_def)
  have cl: "callers_ok own (ws_clients s) (ws_pool s)" using ok by (simp add: wp_ok_def)
  have "pc \<noteq> C_Waiting h w" for h w using pc(2) [of h] by auto
  then have nd: "\<not> donates (ws_pool s) pc" by (cases pc) auto
  have nw: "\<not> waited own (ws_clients s) g" using own c by (simp add: waited_def)
  have "callers_ok own ((ws_clients s)[c := pc]) (ws_pool s)"
  proof (rule callers_ok_client [OF cl c(1) _ own])
    show "group_ok own ((ws_clients s)[c := pc]) g d"
      using callers_ok_group [OF cl d] nw own c(1) pc(2) by (simp add: group_ok_def waited_def)
  qed (use c pc d nd in \<open>simp_all add: map_upd_triv\<close>)
  then show ?thesis using True ok by (simp add: enters_def wp_ok_def)
next
  case False
  then have "enters c g pc s = s" unfolding enters_def by (rule if_not_P)
  then show ?thesis using ok by simp
qed

lemma wp_ok_create:
  assumes ok: "wp_ok own s" and c: "ws_handle s" "p_groups (ws_pool s) g = None"
  shows "wp_ok own (s\<lparr>ws_pool := u_worker_group_create (ws_pool s) g\<rparr>)"
proof -
  define p where "p = ws_pool s"
  let ?p = "u_worker_group_create p g"
  note parts = ok [unfolded wp_ok_def, folded p_def]
  have g: "p_groups p g = None" using c by (simp add: p_def)
  have pk: "pool_ok (ws_workers s) p" and cl: "callers_ok own (ws_clients s) p" using parts by simp_all
  have none: "filter (filled_of g) (p_tasks p) = []" "filter (w_busy_of g) (ws_workers s) = []"
  proof -
    show "filter (filled_of g) (p_tasks p) = []"
      using pk g unfolding pool_ok_def filter_empty_conv by (metis filled_of_def filled_def good_task_def option.inject)
    have "\<not> w_busy_of g w" if "w \<in> set (ws_workers s)" for w
    proof (cases w)
      case (W_Busy t)
      then have "good_task (p_groups p) t" using pk that by (simp add: pool_ok_def)
      then show ?thesis using W_Busy g by (auto simp: good_task_def)
    qed simp_all
    then show "filter (w_busy_of g) (ws_workers s) = []" by (simp add: filter_empty_conv)
  qed
  have "pool_ok (ws_workers s) ?p"
    using pk none unfolding pool_ok_def u_worker_group_create_def pool_reference_def by simp
  moreover have "awake_ok (ws_workers s) ?p"
    using parts awake_ok_cong [of ?p p] by (simp add: u_worker_group_create_def pool_reference_def)
  moreover have "refs_ok (ws_handle s) ?p"
    using parts g c(1) by (auto simp: refs_ok_def u_worker_group_create_def pool_reference_def domIff)
  moreover have "logs_ok (ws_workers s) ?p (ws_pushed s) (ws_done s)"
    using parts by (simp add: logs_ok_def u_worker_group_create_def pool_reference_def)
  moreover have "callers_ok own (ws_clients s) ?p"
  proof -
    have gn: "group_of (ws_clients s ! j) \<noteq> Some g" if "j < length (ws_clients s)" for j
      using cl that g unfolding callers_ok_def by blast
    then have nw: "\<not> waited own (ws_clients s) g" using waits_on_group unfolding waited_def by blast
    have "p_groups ?p = (p_groups p)(g \<mapsto> \<lparr>g_tasks_in_array = 0, g_working = 0, g_released = 0, g_waiting_count = 0, g_waiting_cond = []\<rparr>)"
      by (simp add: u_worker_group_create_def pool_reference_def)
    note don = not_waited_donates [OF cl nw this]
    show ?thesis
      using cl nw gn unfolding callers_ok_def don
      by (auto simp: u_worker_group_create_def pool_reference_def group_ok_def locked_group_has_tasks_waiting_or_inflight_def)
  qed
  ultimately show ?thesis by (simp add: wp_ok_def p_def)
qed

lemma wp_ok_drop:
  assumes ok: "wp_ok own s" and c: "may_call c s" "ws_handle s"
  obtains p' b where "pool_unreference k (ws_pool s) = (p', b)"
    "wp_ok own (s\<lparr>ws_pool := p', ws_handle := False, ws_clients := (ws_clients s)[c := if b then C_Join else C_Out]\<rparr>)"
proof -
  note parts = ok [unfolded wp_ok_def]
  have r: "p_refs (ws_pool s) > 0" "p_running (ws_pool s)" using parts c by (simp_all add: refs_ok_def)
  obtain p' b where u: "pool_unreference k (ws_pool s) = (p', b)" "pool_ok (ws_workers s) p'" "awake_ok (ws_workers s) p'"
    "p_refs p' = p_refs (ws_pool s) - 1" "p_running p' \<longleftrightarrow> 0 < p_refs p'" "p_groups p' = p_groups (ws_pool s)"
    "p_limit p' = p_limit (ws_pool s)" "p_initial_limit p' = p_initial_limit (ws_pool s)" "p_tasks p' = p_tasks (ws_pool s)"
    using parts by (elim conjE) (rule unreference_ok [OF _ _ r])
  let ?pc = "if b then C_Join else C_Out"
  have cl: "callers_ok own (ws_clients s) (ws_pool s)" using parts by simp
  have cc: "c < length (ws_clients s)" "ws_clients s ! c = C_Out" using c by (simp_all add: may_call_def)
  have "waited own ((ws_clients s)[c := ?pc]) h = waited own (ws_clients s) h" for h
    using cc by (cases "own h = c") (auto simp: waited_def nth_list_update)
  then have go: "group_ok own ((ws_clients s)[c := ?pc]) h d = group_ok own (ws_clients s) h d" for h d
    by (simp add: group_ok_def)
  have "length (filter (donates p') ((ws_clients s)[c := ?pc])) = length (filter (donates (ws_pool s)) (ws_clients s))"
    unfolding donates_cong [OF u(6)] by (rule length_filter_same) (use cc in simp_all)
  then have "callers_ok own ((ws_clients s)[c := ?pc]) p'"
    using cl cc u(6-8) unfolding callers_ok_def
    by (intro conjI) (simp add: go, simp, auto simp: nth_list_update)
  moreover have "refs_ok False p'" using parts c(2) u by (simp add: refs_ok_def)
  moreover have "logs_ok (ws_workers s) p' (ws_pushed s) (ws_done s)" using parts u(9) by (simp add: logs_ok_def)
  ultimately show thesis using that [OF u(1)] u(2,3) by (simp add: wp_ok_def)
qed

lemma wp_ok_spurious_worker:
  assumes ok: "wp_ok own s"
  shows "wp_ok own (s\<lparr>ws_pool := (ws_pool s)\<lparr>p_avail_cond := removeAll i (p_avail_cond (ws_pool s))\<rparr>\<rparr>)"
proof -
  let ?p = "(ws_pool s)\<lparr>p_avail_cond := removeAll i (p_avail_cond (ws_pool s))\<rparr>"
  note parts = ok [unfolded wp_ok_def]
  have "pool_ok (ws_workers s) ?p"
    using parts by (intro pool_ok_cond) (auto simp: pool_ok_def distinct_removeAll)
  moreover have "some_awake (ws_workers s) ?p" if "some_awake (ws_workers s) (ws_pool s)"
    using that by (rule some_awake_cond) auto
  then have "awake_ok (ws_workers s) ?p" using parts by (auto simp: awake_ok_def)
  moreover have "callers_ok own (ws_clients s) ?p" using parts callers_ok_cong [of ?p "ws_pool s"] by simp
  ultimately show ?thesis using parts by (simp add: wp_ok_def refs_ok_def logs_ok_def)
qed

lemma wp_ok_spurious_client:
  assumes ok: "wp_ok own s" and i: "i < length (ws_clients s)"
  shows "wp_ok own (s\<lparr>ws_pool := wakes_spuriously i (ws_pool s) (ws_clients s ! i)\<rparr>)"
proof (cases "\<exists>g w. ws_clients s ! i = C_Waiting g w")
  case False
  then have "wakes_spuriously i (ws_pool s) (ws_clients s ! i) = ws_pool s"
    by (simp add: wakes_spuriously_def split: caller_pc.split)
  then show ?thesis using ok by simp
next
  case True
  then obtain g w where w: "ws_clients s ! i = C_Waiting g w" by blast
  note parts = ok [unfolded wp_ok_def]
  have cl: "callers_ok own (ws_clients s) (ws_pool s)" using parts by simp
  obtain c where own: "own g = i" and g: "p_groups (ws_pool s) g = Some c"
    using callers_ok_own [OF cl i] w by auto
  define c' where "c' = c\<lparr>g_waiting_cond := removeAll i (g_waiting_cond c)\<rparr>"
  define p' where "p' = (ws_pool s)\<lparr>p_groups := (p_groups (ws_pool s))(g \<mapsto> c')\<rparr>"
  have "wakes_spuriously i (ws_pool s) (ws_clients s ! i) = p'" by (simp add: wakes_spuriously_def w g p'_def c'_def)
  moreover have "pool_ok (ws_workers s) p'"
    unfolding p'_def using parts by (intro pool_ok_upd_group [OF _ g]) (simp_all add: c'_def)
  moreover have "awake_ok (ws_workers s) p'" using parts awake_ok_cong [of p' "ws_pool s"] by (simp add: p'_def)
  moreover have out: "outstanding c' = outstanding c" by (simp add: c'_def locked_group_has_tasks_waiting_or_inflight_def)
  have gp: "good_push (ws_clients s ! i)" using cl i unfolding callers_ok_def by blast
  have "callers_ok own ((ws_clients s)[i := ws_clients s ! i]) p'"
  proof (rule callers_ok_client [OF cl i _ own])
    show "group_ok own ((ws_clients s)[i := ws_clients s ! i]) g c'"
      using callers_ok_group [OF cl g] own by (auto simp: group_ok_def out) (auto simp: c'_def)
  qed (use gp w g out in \<open>simp_all add: p'_def\<close>)
  then have "callers_ok own (ws_clients s) p'" by simp
  moreover have "refs_ok (ws_handle s) p'"
    using parts g by (intro refs_ok_upd [of _ "ws_pool s" g p' c']) (simp_all add: p'_def)
  ultimately show ?thesis using parts by (simp add: wp_ok_def logs_ok_def p'_def)
qed

lemma wp_step_ok:
  assumes ok: "wp_ok own s" and ev: "case calls_group ev of None \<Rightarrow> True | Some (c, g) \<Rightarrow> c = own g"
  shows "\<exists>s'. wp_step s ev = Inr s' \<and> wp_ok own s'"
proof (cases ev)
  case (Worker k kw i)
  then show ?thesis using wp_ok_worker [OF ok, of i k kw] ok by (simp add: wp_step_def)
next
  case (Client k c)
  then show ?thesis using wp_ok_client [OF ok, of c k] ok by (simp add: wp_step_def)
next
  case (Spurious_Worker i)
  then show ?thesis using wp_ok_spurious_worker [OF ok, of i] by (simp add: wp_step_def)
next
  case (Spurious_Client c)
  then show ?thesis using wp_ok_spurious_client [OF ok, of c] ok by (simp add: wp_step_def)
next
  case (Call_Create c g)
  then show ?thesis using wp_ok_create [OF ok, of g] ok by (simp add: wp_step_def)
next
  case (Call_Wait c g)
  then show ?thesis using wp_ok_enters [OF ok, of g c "C_Wait_All g For_Return"] ev by (simp add: wp_step_def calls_group_def)
next
  case (Call_Push c g f d)
  then show ?thesis using wp_ok_enters [OF ok, of g c "C_Push g (Some f) d"] ev by (simp add: wp_step_def calls_group_def)
next
  case (Call_Destroy c g)
  then show ?thesis using wp_ok_enters [OF ok, of g c "C_Wait_All g For_Destroy"] ev by (simp add: wp_step_def calls_group_def)
next
  case (Call_Drop k c)
  show ?thesis
  proof (cases "may_call c s \<and> ws_handle s")
    case True
    then obtain p' b where "pool_unreference k (ws_pool s) = (p', b)"
      "wp_ok own (s\<lparr>ws_pool := p', ws_handle := False, ws_clients := (ws_clients s)[c := if b then C_Join else C_Out]\<rparr>)"
      using wp_ok_drop [OF ok] by metis
    then show ?thesis using True Call_Drop by (simp add: wp_step_def)
  next
    case False
    then show ?thesis using ok Call_Drop unfolding wp_step_def by auto
  qed
qed

lemma wp_run_ok: "wp_ok own s \<Longrightarrow> owned_calls own evs \<Longrightarrow> \<exists>s'. wp_run s evs = Inr s' \<and> wp_ok own s'"
proof (induction evs arbitrary: s)
  case (Cons ev evs)
  then obtain s' where "wp_step s ev = Inr s'" "wp_ok own s'"
    using wp_step_ok [of own s ev] by (auto simp: owned_calls_def)
  then show ?case using Cons by (simp add: owned_calls_def)
qed simp

lemma wp_init_ok:
  assumes "u_worker_thread_pool_create n m r1 r2 = Inr (Some p)"
  shows "wp_ok own (wp_init k p)"
proof -
  have p: "p = \<lparr>p_refs = 1, p_tasks = replicate MAX_TASK_COUNT no_task, p_tasks_count = 0, p_avail_count = 0,
                p_avail_cond = [], p_initial_limit = n, p_limit = n,
                p_working = 0, p_thread_count = m, p_running = True, p_groups = (\<lambda>_. None)\<rparr>"
    using assms by (auto simp: u_worker_thread_pool_create_def try_simps split: if_splits)
  have "filter filled (replicate j no_task) = []" "filter w_busy (replicate j W_Start) = []"
    "filter ((=) W_Waiting) (replicate j W_Start) = []" "concat (map done_task (replicate j W_Start)) = []" for j
    by (induction j) (simp_all add: done_task_def)
  moreover have "filter (donates q) (replicate k C_Out) = []" for q by (induction k) simp_all
  ultimately show ?thesis
    by (auto simp: wp_ok_def wp_init_def p pool_ok_def awake_ok_def callers_ok_def refs_ok_def logs_ok_def)
qed

end
