(* ===== verification/Worker_Properties.thy ===== *)
theory Worker_Properties
  imports Worker_Invariant
begin

text \<open>
  The properties of the worker pool: its counters and the account of its tasks, that a caller waiting for
  its group can always be let go by the workers alone, and what goes wrong when two threads use one group.
\<close>

section \<open>The invariant, spelled out\<close>

definition being_run :: "worker_pc list \<Rightarrow> task list" where
  "being_run ws = concat (map done_task ws)"

text \<open>The callers asleep, or already woken, in \<^verbatim>\<open>u_worker_group_wait_all\<close> of a group with outstanding tasks.\<close>

definition donors :: "worker_system \<Rightarrow> caller_pc list" where
  "donors s = filter (donates (ws_pool s)) (ws_clients s)"

lemma wp_run_from_init:
  assumes "u_worker_thread_pool_create n m r1 r2 = Inr (Some p)" "owned_calls own evs"
  shows "\<exists>s. wp_run (wp_init k p) evs = Inr s \<and> wp_ok own s"
  by (rule wp_run_ok [OF wp_init_ok [OF assms(1)] assms(2)])

text \<open>
  C30. As long as every group has a calling thread of its own, no step of the pool faults, and after any
  interleaving the counters of pool and groups are the numbers of tasks in the array and of tasks being
  run, the worker limit is the initial one plus the callers that wait for outstanding tasks, and every
  task pushed is in the array, being run, or has been run, exactly once.
\<close>
theorem worker_pool_invariant:
  assumes "u_worker_thread_pool_create n m mutex_ret cond_ret = Inr (Some p)" "owned_calls own evs"
  shows "\<exists>s. wp_run (wp_init k p) evs = Inr s \<and>
           length (p_tasks (ws_pool s)) = MAX_TASK_COUNT \<and>
           p_tasks_count (ws_pool s) = length (filter filled (p_tasks (ws_pool s))) \<and>
           p_working (ws_pool s) = length (being_run (ws_workers s)) \<and>
           (\<forall>g c. p_groups (ws_pool s) g = Some c \<longrightarrow>
              g_tasks_in_array c = length (filter (filled_of g) (p_tasks (ws_pool s))) \<and>
              g_working c = length (filter (\<lambda>t. tk_g t = Some g) (being_run (ws_workers s)))) \<and>
           p_limit (ws_pool s) = p_initial_limit (ws_pool s) + length (donors s) \<and>
           mset (ws_pushed s) =
             mset (filter filled (p_tasks (ws_pool s))) + mset (being_run (ws_workers s)) + mset (ws_done s)"
proof -
  obtain s where s: "wp_run (wp_init k p) evs = Inr s" "wp_ok own s"
    using wp_run_from_init [OF assms] by blast
  have len: "length (filter w_busy ws) = length (being_run ws)" for ws
    by (induction ws) (auto simp: being_run_def done_task_def w_busy_def split: worker_pc.split)
  have len': "length (filter (w_busy_of g) ws) = length (filter (\<lambda>t. tk_g t = Some g) (being_run ws))" for g ws
    by (induction ws) (auto simp: being_run_def done_task_def w_busy_of_def split: worker_pc.split)
  show ?thesis
    using s unfolding wp_ok_def pool_ok_def callers_ok_def logs_ok_def len len' donors_def being_run_def [symmetric]
    by (intro exI [of _ s]) simp
qed

theorem worker_pool_invariant_witness:
  "\<exists>p s. u_worker_thread_pool_create 1 2 0 0 = Inr (Some p) \<and>
     wp_run (wp_init 1 p) [Call_Create 0 7, Call_Push 0 7 3 4, Client 0 0, Worker 0 0 0, Worker 0 0 0] = Inr s \<and>
     mset (ws_pushed s) =
       mset (filter filled (p_tasks (ws_pool s))) + mset (being_run (ws_workers s)) + mset (ws_done s)"
proof -
  define p where "p = (case u_worker_thread_pool_create 1 2 0 0 of Inr (Some p) \<Rightarrow> p)"
  have p: "u_worker_thread_pool_create 1 2 0 0 = Inr (Some p)"
    by (simp add: p_def u_worker_thread_pool_create_def MAX_THREAD_COUNT_def)
  have "owned_calls (\<lambda>_. 0) [Call_Create 0 7, Call_Push 0 7 3 4, Client 0 0, Worker 0 0 0, Worker 0 0 0]"
    by (simp add: owned_calls_def calls_group_def)
  from worker_pool_invariant [OF p this, of 1] show ?thesis using p by blast
qed

section \<open>Waiting callers\<close>

lemma worker_step_frame:
  assumes "worker_step k kw i s = Inr s'"
  shows "ws_clients s' = ws_clients s" "ws_handle s' = ws_handle s" "ws_pushed s' = ws_pushed s"
    "ws_done s' = ws_done s @ done_task (ws_workers s ! i)" "length (ws_workers s') = length (ws_workers s)"
  using assms by (auto simp: worker_step_def try_simps)

text \<open>A worker that is not asleep takes a task when there is one and the limit allows it.\<close>

lemma idle_worker_takes_task:
  assumes ok: "wp_ok own s" and i: "i < length (ws_workers s)" "i \<notin> set (p_avail_cond (ws_pool s))"
      "ws_workers s ! i \<in> {W_Start, W_Waiting}"
    and p: "p_running (ws_pool s)" "0 < p_tasks_count (ws_pool s)" "p_working (ws_pool s) < p_limit (ws_pool s)"
  obtains s' where "wp_step s (Worker 0 0 i) = Inr s'" "wp_ok own s'" "w_busy (ws_workers s' ! i)"
    "ws_clients s' = ws_clients s" "ws_done s' = ws_done s" "ws_pushed s' = ws_pushed s"
    "length (ws_workers s') = length (ws_workers s)"
proof -
  obtain s' where s': "worker_step 0 0 i s = Inr s'" "wp_ok own s'" using wp_ok_worker [OF ok i(1)] by blast
  have "p_running (locked_thread_wait_end (ws_pool s))" "locked_thread_allowed_to_work (locked_thread_wait_end (ws_pool s))"
    "locked_thread_allowed_to_work (ws_pool s)"
    using p by (simp_all add: locked_thread_wait_end_def locked_thread_allowed_to_work_def)
  then have "w_busy (ws_workers s' ! i)"
    using s'(1) i p(1)
    by (auto simp: worker_step_def run_func_def run_func_loop_def try_simps split: if_splits)
  moreover have "done_task (ws_workers s ! i) = []" using i(3) by (auto simp: done_task_def)
  ultimately show thesis
    using that [of s'] s' i(1) worker_step_frame [OF s'(1)] by (simp add: wp_step_def)
qed

lemma remaining_tasks:
  assumes "wp_ok own s"
  shows "length (ws_pushed s) = p_tasks_count (ws_pool s) + p_working (ws_pool s) + length (ws_done s)"
proof -
  have "length (filter w_busy ws) = size (mset (concat (map done_task ws)))" for ws
    by (induction ws) (auto simp: done_task_def w_busy_def split: worker_pc.split)
  moreover have "size (filter_mset filled (mset ts)) = length (filter filled ts)" for ts :: "task list"
    by (metis mset_filter size_mset)
  moreover have "size (mset (ws_pushed s)) = size (mset (filter filled (p_tasks (ws_pool s)))) +
      size (mset (concat (map done_task (ws_workers s)))) + size (mset (ws_done s))"
    using assms unfolding wp_ok_def logs_ok_def by simp
  ultimately show ?thesis using assms by (simp add: wp_ok_def pool_ok_def)
qed

definition only_workers :: "worker_event list \<Rightarrow> bool" where
  "only_workers evs \<longleftrightarrow> list_all (\<lambda>ev. case ev of Worker k kw i \<Rightarrow> True | _ \<Rightarrow> False) evs"

lemma wp_run_append: "wp_run s (evs @ evs') = try_bind (wp_run s evs) (\<lambda>s. wp_run s evs')"
  by (induction evs arbitrary: s) (simp_all add: try_bind_def split: sum.split)

text \<open>Some worker can always finish one of the outstanding tasks.\<close>

lemma one_task_less:
  assumes ok: "wp_ok own s" and c: "c < length (ws_clients s)" "ws_clients s ! c = C_Waiting g w"
    and g: "p_groups (ws_pool s) g = Some gr" "outstanding gr" and ws: "ws_workers s \<noteq> []"
  obtains evs s' where "only_workers evs" "wp_run s evs = Inr s'" "wp_ok own s'" "ws_clients s' = ws_clients s"
    "length (ws_workers s') = length (ws_workers s)" "ws_pushed s' = ws_pushed s" "length (ws_done s') = Suc (length (ws_done s))"
proof -
  have finish: "\<exists>s'. wp_step s (Worker 0 0 i) = Inr s' \<and> wp_ok own s' \<and> ws_clients s' = ws_clients s \<and>
      length (ws_workers s') = length (ws_workers s) \<and> ws_pushed s' = ws_pushed s \<and> length (ws_done s') = Suc (length (ws_done s))"
    if sok: "wp_ok own s" and i: "i < length (ws_workers s)" and b: "w_busy (ws_workers s ! i)" for s i
  proof -
    obtain s' where s': "worker_step 0 0 i s = Inr s'" "wp_ok own s'" using wp_ok_worker [OF sok i] by blast
    have "length (done_task (ws_workers s ! i)) = 1" using b by (auto simp: done_task_def w_busy_def split: worker_pc.splits)
    then show ?thesis using s' worker_step_frame [OF s'(1)] i by (simp add: wp_step_def)
  qed
  show thesis
  proof (cases "\<exists>i < length (ws_workers s). w_busy (ws_workers s ! i)")
    case True
    then obtain i where i: "i < length (ws_workers s)" "w_busy (ws_workers s ! i)" by blast
    obtain s' where "wp_step s (Worker 0 0 i) = Inr s'" "wp_ok own s'" "ws_clients s' = ws_clients s"
      "length (ws_workers s') = length (ws_workers s)" "ws_pushed s' = ws_pushed s" "length (ws_done s') = Suc (length (ws_done s))"
      using finish [OF ok i] by blast
    then show thesis by (intro that [of "[Worker 0 0 i]" s']) (simp_all add: only_workers_def)
  next
    case False
    note parts = ok [unfolded wp_ok_def]
    have pk: "pool_ok (ws_workers s) (ws_pool s)" and cl: "callers_ok own (ws_clients s) (ws_pool s)" using parts by simp_all
    have nb: "x \<in> set (ws_workers s) \<Longrightarrow> \<not> w_busy x" for x using False by (auto simp: in_set_conv_nth)
    have z: "p_working (ws_pool s) = 0" using nb pk by (auto simp: pool_ok_def filter_empty_conv)
    have "\<not> w_busy_of g x" if "x \<in> set (ws_workers s)" for x using nb [OF that] by (cases x) auto
    then have "g_working gr = 0" using pool_ok_group(2) [OF pk g(1)] by (auto simp: filter_empty_conv)
    then have t: "0 < p_tasks_count (ws_pool s)"
      using g(2) pool_ok_tasks_le [OF pk g(1)] by (simp add: locked_group_has_tasks_waiting_or_inflight_def)
    have own: "own g = c" using callers_ok_own [OF cl c(1)] c(2) by auto
    have wt: "waited own (ws_clients s) g" using own c by (simp add: waited_def)
    have l: "p_working (ws_pool s) < p_limit (ws_pool s)" using donor_limit [OF cl g wt] z by simp
    have r: "p_running (ws_pool s)" using parts g(1) by (intro refs_ok_running [of "ws_handle s" _ g]) simp_all
    have "some_awake (ws_workers s) (ws_pool s)" using parts r t l ws unfolding awake_ok_def by blast
    then obtain i where i: "i < length (ws_workers s)" "i \<notin> set (p_avail_cond (ws_pool s))" "ws_workers s ! i \<noteq> W_Ended"
      unfolding some_awake_def by blast
    have "ws_workers s ! i \<in> {W_Start, W_Waiting}" using False i by (cases "ws_workers s ! i") auto
    from idle_worker_takes_task [OF ok i(1,2) this r t l] obtain s1 where s1: "wp_step s (Worker 0 0 i) = Inr s1" "wp_ok own s1"
      "w_busy (ws_workers s1 ! i)" "ws_clients s1 = ws_clients s" "ws_done s1 = ws_done s" "ws_pushed s1 = ws_pushed s"
      "length (ws_workers s1) = length (ws_workers s)" .
    obtain s' where "wp_step s1 (Worker 0 0 i) = Inr s'" "wp_ok own s'" "ws_clients s' = ws_clients s1"
      "length (ws_workers s') = length (ws_workers s1)" "ws_pushed s' = ws_pushed s1" "length (ws_done s') = Suc (length (ws_done s1))"
      using finish [OF s1(2) _ s1(3)] i(1) s1(7) by auto
    then show thesis
      by (intro that [of "[Worker 0 0 i, Worker 0 0 i]" s']) (simp_all add: only_workers_def s1)
  qed
qed

lemma finish_group:
  assumes "wp_ok own s" "c < length (ws_clients s)" "ws_clients s ! c = C_Waiting g w" "ws_workers s \<noteq> []"
  shows "\<exists>evs s'. only_workers evs \<and> wp_run s evs = Inr s' \<and> wp_ok own s' \<and> ws_clients s' = ws_clients s \<and>
           (\<exists>gr. p_groups (ws_pool s') g = Some gr \<and> \<not> outstanding gr)"
  using assms
proof (induction "length (ws_pushed s) - length (ws_done s)" arbitrary: s rule: less_induct)
  case less
  have cl: "callers_ok own (ws_clients s) (ws_pool s)" using less.prems(1) by (simp add: wp_ok_def)
  have "group_of (ws_clients s ! c) = Some g" by (simp add: less.prems(3))
  from callers_ok_own [OF cl less.prems(2) this] obtain gr where g: "p_groups (ws_pool s) g = Some gr" .
  show ?case
  proof (cases "outstanding gr")
    case False
    then show ?thesis using less.prems(1) g by (intro exI [of _ "[]"] exI [of _ s]) (simp add: only_workers_def)
  next
    case True
    from one_task_less [OF less.prems(1-3) g True less.prems(4)] obtain evs s1 where s1: "only_workers evs"
      "wp_run s evs = Inr s1" "wp_ok own s1" "ws_clients s1 = ws_clients s" "length (ws_workers s1) = length (ws_workers s)"
      "ws_pushed s1 = ws_pushed s" "length (ws_done s1) = Suc (length (ws_done s))" .
    have "length (ws_done s1) \<le> length (ws_pushed s1)" using remaining_tasks [OF s1(3)] by simp
    then have "length (ws_pushed s1) - length (ws_done s1) < length (ws_pushed s) - length (ws_done s)"
      using s1(6,7) by simp
    moreover have "ws_workers s1 \<noteq> []" using less.prems(4) s1(5) by auto
    ultimately obtain evs' s' where "only_workers evs'" "wp_run s1 evs' = Inr s'" "wp_ok own s'" "ws_clients s' = ws_clients s1"
      "\<exists>gr. p_groups (ws_pool s') g = Some gr \<and> \<not> outstanding gr"
      using less.hyps [of s1] s1(3,4) less.prems(2,3) by auto
    then show ?thesis
      using s1 by (intro exI [of _ "evs @ evs'"] exI [of _ s']) (simp add: wp_run_append only_workers_def)
  qed
qed

lemma released_caller_returns:
  assumes ok: "wp_ok own s" and c: "c < length (ws_clients s)" "ws_clients s ! c = C_Waiting g w"
    and g: "p_groups (ws_pool s) g = Some gr" "\<not> outstanding gr"
  shows "\<exists>s'. wp_step s (Client 0 c) = Inr s' \<and> ws_clients s' ! c = after_wait_all g w"
proof -
  have cl: "callers_ok own (ws_clients s) (ws_pool s)" using ok by (simp add: wp_ok_def)
  have own: "own g = c" using callers_ok_own [OF cl c(1)] c(2) by auto
  have "waited own (ws_clients s) g" using own c by (simp add: waited_def)
  then have "g_waiting_cond gr = []" "g_released gr = 1" "g_waiting_count gr = 1"
    using callers_ok_group [OF cl g(1)] g(2) by (auto simp: group_ok_def)
  then show ?thesis
    using c g(2)
    by (simp add: wp_step_def caller_step_def client_run_def g(1) locked_group_wait_end_def upd_group_def wait_all_loop_def
        locked_group_should_wait_def locked_group_has_tasks_waiting_or_inflight_def)
qed

lemma wp_run_workers:
  assumes "u_worker_thread_pool_create n m r1 r2 = Inr (Some p)"
  shows "wp_run (wp_init k p) evs = Inr s \<Longrightarrow> length (ws_workers s) = m"
proof -
  have step: "wp_step s ev = Inr s' \<Longrightarrow> length (ws_workers s') = length (ws_workers s)" for s s' ev
    by (cases ev) (auto simp: wp_step_def worker_step_def caller_step_def enters_def try_simps split: if_splits prod.splits)
  have run: "wp_run s evs = Inr s' \<Longrightarrow> length (ws_workers s') = length (ws_workers s)" for s s'
    by (induction evs arbitrary: s) (auto simp: try_simps dest: step)
  have "p_thread_count p = m"
    using assms by (auto simp: u_worker_thread_pool_create_def try_simps split: if_splits)
  then show "wp_run (wp_init k p) evs = Inr s \<Longrightarrow> length (ws_workers s) = m"
    using run [of "wp_init k p" s] by (simp add: wp_init_def)
qed

text \<open>
  C32. A caller in \<^verbatim>\<open>u_worker_group_wait_all\<close> is never left behind: in every state that can be reached, the
  workers alone can finish what is outstanding of its group, none of the wake-ups they need is missing, and
  the caller then returns, with no task of the group in the array or being run.
\<close>
theorem worker_wait_all_returns:
  assumes "u_worker_thread_pool_create n m mutex_ret cond_ret = Inr (Some p)" "0 < m" "owned_calls own evs"
    and "wp_run (wp_init k p) evs = Inr s" "c < length (ws_clients s)" "ws_clients s ! c = C_Waiting g w"
  shows "\<exists>evs' s1 s2. only_workers evs' \<and> wp_run s evs' = Inr s1 \<and>
           (\<forall>t \<in> set (p_tasks (ws_pool s1)) \<union> set (being_run (ws_workers s1)). filled t \<longrightarrow> tk_g t \<noteq> Some g) \<and>
           wp_step s1 (Client 0 c) = Inr s2 \<and> ws_clients s2 ! c = after_wait_all g w"
proof -
  have ok: "wp_ok own s" using wp_run_from_init [OF assms(1,3), of k] assms(4) by auto
  have "ws_workers s \<noteq> []" using wp_run_workers [OF assms(1,4)] assms(2) by auto
  from finish_group [OF ok assms(5,6) this] obtain evs' s1 gr where s1: "only_workers evs'" "wp_run s evs' = Inr s1"
    "wp_ok own s1" "ws_clients s1 = ws_clients s" and g: "p_groups (ws_pool s1) g = Some gr" "\<not> outstanding gr" by blast
  obtain s2 where s2: "wp_step s1 (Client 0 c) = Inr s2" "ws_clients s2 ! c = after_wait_all g w"
    using released_caller_returns [OF s1(3) _ _ g] s1(4) assms(5,6) by auto
  have pk: "pool_ok (ws_workers s1) (ws_pool s1)" using s1(3) by (simp add: wp_ok_def)
  have none: "filter (filled_of g) (p_tasks (ws_pool s1)) = []" "filter (w_busy_of g) (ws_workers s1) = []"
    using pool_ok_group [OF pk g(1)] g(2) by (simp_all add: locked_group_has_tasks_waiting_or_inflight_def)
  have "tk_g t \<noteq> Some g" if "t \<in> set (being_run (ws_workers s1))" for t
  proof -
    have "W_Busy t \<in> set (ws_workers s1)" using that by (auto simp: being_run_def done_task_def split: worker_pc.splits)
    then show ?thesis using none(2) by (auto simp: filter_empty_conv)
  qed
  moreover have "tk_g t \<noteq> Some g" if "t \<in> set (p_tasks (ws_pool s1))" "filled t" for t
    using none(1) that by (auto simp: filter_empty_conv filled_of_def filled_def)
  ultimately show ?thesis using s1(1,2) s2 by blast
qed

definition example_pool :: wk_pool where
  "example_pool = \<lparr>p_refs = 1, p_tasks = replicate MAX_TASK_COUNT no_task, p_tasks_count = 0, p_avail_count = 0,
     p_avail_cond = [], p_initial_limit = 1, p_limit = 1, p_working = 0, p_thread_count = 2, p_running = True,
     p_groups = (\<lambda>_. None)\<rparr>"

lemma example_pool_created: "u_worker_thread_pool_create 1 2 0 0 = Inr (Some example_pool)"
  by (simp add: example_pool_def u_worker_thread_pool_create_def MAX_THREAD_COUNT_def)

lemma example_waiting:
  "(case wp_run (wp_init 2 example_pool) [Call_Create 0 7, Call_Push 0 7 3 4, Client 0 0, Call_Wait 0 7, Client 0 0] of
      Inr s \<Rightarrow> length (ws_clients s) = 2 \<and> ws_clients s ! 0 = C_Waiting 7 For_Return | Inl _ \<Rightarrow> False)"
  by code_simp

lemma example_assert:
  "(case wp_run (wp_init 2 example_pool)
     [Call_Create 0 7, Call_Push 0 7 1 1, Client 0 0, Worker 0 0 0, Call_Wait 0 7, Client 0 0, Worker 0 0 0,
      Call_Push 1 7 2 2, Client 0 1, Worker 0 0 0, Worker 0 0 0] of Inl e \<Rightarrow> e = AssertFailed | Inr _ \<Rightarrow> False)"
  by code_simp

theorem worker_wait_all_returns_witness:
  "\<exists>s evs' s1 s2. ws_clients s ! 0 = C_Waiting 7 For_Return \<and> only_workers evs' \<and> wp_run s evs' = Inr s1 \<and>
     wp_step s1 (Client 0 0) = Inr s2 \<and> ws_clients s2 ! 0 = C_Out"
proof -
  let ?evs = "[Call_Create 0 7, Call_Push 0 7 3 4, Client 0 0, Call_Wait 0 7, Client 0 0]"
  obtain s where s: "wp_run (wp_init 2 example_pool) ?evs = Inr s" "length (ws_clients s) = 2"
    "ws_clients s ! 0 = C_Waiting 7 For_Return"
    using example_waiting by (auto split: sum.splits simp del: wp_run.simps)
  have "owned_calls (\<lambda>_. 0) ?evs" by (simp add: owned_calls_def calls_group_def)
  from worker_wait_all_returns [OF example_pool_created _ this s(1) _ s(3)] s(2,3) show ?thesis
    by (auto simp: after_wait_all_def)
qed

section \<open>Two threads on one group\<close>

definition only_threads :: "worker_event list \<Rightarrow> bool" where
  "only_threads evs \<longleftrightarrow> list_all (\<lambda>ev. case ev of Worker k kw i \<Rightarrow> True | Client k c \<Rightarrow> True | _ \<Rightarrow> False) evs"

text \<open>Nothing to do, and the second caller asleep in the condition variable of the group.\<close>

definition stranded :: "worker_system \<Rightarrow> bool" where
  "stranded s \<longleftrightarrow>
     p_running (ws_pool s) \<and> p_tasks_count (ws_pool s) = 0 \<and> list_all (\<lambda>w. w = W_Start \<or> w = W_Waiting) (ws_workers s) \<and>
     ws_clients s = [C_Out, C_Waiting 7 For_Return] \<and>
     (case p_groups (ws_pool s) 7 of Some c \<Rightarrow> 1 \<in> set (g_waiting_cond c) | None \<Rightarrow> False) \<and>
     p_limit (ws_pool s) > p_initial_limit (ws_pool s)"

lemma example_stranded:
  "(case wp_run (wp_init 2 example_pool)
      [Call_Create 0 7, Call_Push 0 7 1 1, Client 0 0, Worker 0 0 0, Call_Wait 0 7, Client 0 0, Call_Wait 1 7, Client 0 1,
       Worker 0 0 0, Client 0 0] of Inr s \<Rightarrow> stranded s | Inl _ \<Rightarrow> False)"
  by code_simp

lemma stranded_worker:
  assumes "stranded s" "i < length (ws_workers s)"
  shows "\<exists>s'. worker_step k kw i s = Inr s' \<and> stranded s'"
proof -
  have w: "ws_workers s ! i = W_Start \<or> ws_workers s ! i = W_Waiting" and t: "p_tasks_count (ws_pool s) = 0"
    and r: "p_running (ws_pool s)"
    using assms by (auto simp: stranded_def list_all_length)
  have all: "list_all (\<lambda>w. w = W_Start \<or> w = W_Waiting) ((ws_workers s)[i := W_Waiting])"
    using assms by (auto simp: stranded_def list_all_length nth_list_update)
  have id: "(ws_workers s)[i := ws_workers s ! i] = ws_workers s" by simp
  show ?thesis
  proof (cases "ws_workers s ! i = W_Waiting \<and> i \<in> set (p_avail_cond (ws_pool s))")
    case True
    then show ?thesis using assms id by (simp add: worker_step_def run_func_def done_task_def stranded_def)
  next
    case False
    then show ?thesis
      using assms(1) w t r all
      by (auto simp: worker_step_def run_func_def run_func_loop_def locked_thread_allowed_to_work_def
          locked_thread_wait_for_work_def locked_thread_wait_end_def stranded_def)
  qed
qed

lemma stranded_client:
  assumes "stranded s" "c < length (ws_clients s)"
  shows "\<exists>s'. caller_step k c s = Inr s' \<and> stranded s'"
proof -
  have "c = 0 \<or> c = 1" using assms by (auto simp: stranded_def)
  then show ?thesis
    using assms by (auto simp: caller_step_def client_run_def stranded_def pushed_task_def split: option.splits)
qed

lemma stranded_run: "stranded s \<Longrightarrow> only_threads evs \<Longrightarrow> \<exists>s'. wp_run s evs = Inr s' \<and> stranded s'"
proof (induction evs arbitrary: s)
  case (Cons ev evs)
  have "\<exists>s'. wp_step s ev = Inr s' \<and> stranded s'"
    using Cons.prems stranded_worker [OF Cons.prems(1)] stranded_client [OF Cons.prems(1)]
    by (cases ev) (auto simp: only_threads_def wp_step_def)
  then show ?case using Cons by (auto simp: only_threads_def)
qed simp

text \<open>
  A group that two threads use breaks the pool: the assertion about the worker limit can fail, when a task
  pushed by one thread ends before the other, already signalled, has left its wait; and of two threads that
  wait for the same tasks only one is signalled, so that the other, without a spurious wake-up, sleeps for
  ever and the worker limit stays raised.
\<close>
lemma worker_group_shared_breaks:
  "\<exists>p. u_worker_thread_pool_create 1 2 0 0 = Inr (Some p) \<and>
     (\<exists>evs. wp_run (wp_init 2 p) evs = Inl AssertFailed) \<and>
     (\<exists>evs s. wp_run (wp_init 2 p) evs = Inr s \<and>
        (\<forall>evs'. only_threads evs' \<longrightarrow>
           (\<exists>s'. wp_run s evs' = Inr s' \<and> p_tasks_count (ws_pool s') = 0 \<and> being_run (ws_workers s') = [] \<and>
              ws_clients s' ! 0 = C_Out \<and> ws_clients s' ! 1 = C_Waiting 7 For_Return \<and>
              p_initial_limit (ws_pool s') < p_limit (ws_pool s'))))"
proof -
  have "\<exists>evs. wp_run (wp_init 2 example_pool) evs = Inl AssertFailed"
    using example_assert by (auto split: sum.splits simp del: wp_run.simps)
  moreover obtain evs s where s: "wp_run (wp_init 2 example_pool) evs = Inr s" "stranded s"
    using example_stranded by (auto split: sum.splits simp del: wp_run.simps)
  have none: "being_run (ws_workers s') = []" if "stranded s'" for s'
    using that by (auto simp: stranded_def being_run_def done_task_def list_all_iff)
  have "\<exists>s'. wp_run s evs' = Inr s' \<and> p_tasks_count (ws_pool s') = 0 \<and> being_run (ws_workers s') = [] \<and>
      ws_clients s' ! 0 = C_Out \<and> ws_clients s' ! 1 = C_Waiting 7 For_Return \<and>
      p_initial_limit (ws_pool s') < p_limit (ws_pool s')" if "only_threads evs'" for evs'
    using stranded_run [OF s(2) that] none by (force simp: stranded_def)
  ultimately show ?thesis using example_pool_created s(1) by blast
qed

end
