(* ===== verification/C_Float.thy ===== *)
theory C_Float
  imports Prelude Complex_Main
begin

text \<open>
  Floating point numbers. A \<^verbatim>\<open>float\<close> is a rational number or one of the special values; the sign of a
  zero and the payload of a NaN are left out, nothing in the modelled code looks at them except
  \<^verbatim>\<open>atan2f\<close>, which is an argument where it is used. Sums and products are computed exactly and
  rounded once to the nearest \<^verbatim>\<open>binary32\<close> number, ties to even, with gradual underflow.
\<close>

section \<open>Values and comparisons\<close>

datatype c_float = NaN | NegInf | Fin rat | PosInf

fun flt_less :: "c_float \<Rightarrow> c_float \<Rightarrow> bool" where
  "flt_less NaN y = False"
| "flt_less x NaN = False"
| "flt_less NegInf y = (y \<noteq> NegInf)"
| "flt_less (Fin a) NegInf = False"
| "flt_less (Fin a) (Fin b) = (a < b)"
| "flt_less (Fin a) PosInf = True"
| "flt_less PosInf y = False"

definition flt_eq :: "c_float \<Rightarrow> c_float \<Rightarrow> bool" where
  "flt_eq x y \<longleftrightarrow> x \<noteq> NaN \<and> x = y"

definition flt_le :: "c_float \<Rightarrow> c_float \<Rightarrow> bool" where
  "flt_le x y \<longleftrightarrow> flt_less x y \<or> flt_eq x y"

fun flt_finite :: "c_float \<Rightarrow> bool" where
  "flt_finite (Fin a) = True"
| "flt_finite _ = False"

section \<open>Rounding\<close>

function bit_length :: "int \<Rightarrow> int" where
  "bit_length n = (if n \<le> 0 then 0 else 1 + bit_length (n div 2))"
  by pat_completeness auto
termination by (relation "measure nat") auto

declare bit_length.simps [simp del]

definition pow2 :: "int \<Rightarrow> rat" where
  "pow2 e = (if 0 \<le> e then 2 ^ nat e else 1 / 2 ^ nat (- e))"

text \<open>The exponent of a positive number: the largest \<open>e\<close> with \<open>pow2 e \<le> r\<close>.\<close>

definition rat_exponent :: "rat \<Rightarrow> int" where
  "rat_exponent r =
     (let (p, q) = quotient_of r;
          e = bit_length p - bit_length q
      in if pow2 e \<le> r then e else e - 1)"

definition round_half_even :: "rat \<Rightarrow> int" where
  "round_half_even x =
     (let f = \<lfloor>x\<rfloor>; d = x - of_int f
      in if d < 1 / 2 then f else if 1 / 2 < d then f + 1 else if even f then f else f + 1)"

definition round32 :: "rat \<Rightarrow> c_float" where
  "round32 r =
     (if r = 0 then Fin 0
      else
        let u = pow2 (max (rat_exponent \<bar>r\<bar>) (- 126) - 23);
            v = of_int (round_half_even (r / u)) * u
        in if pow2 128 \<le> \<bar>v\<bar> then (if r < 0 then NegInf else PosInf) else Fin v)"

section \<open>Arithmetic\<close>

fun flt_neg :: "c_float \<Rightarrow> c_float" where
  "flt_neg NaN = NaN"
| "flt_neg NegInf = PosInf"
| "flt_neg (Fin a) = Fin (- a)"
| "flt_neg PosInf = NegInf"

text \<open>\<^verbatim>\<open>fabsf\<close>.\<close>

fun flt_abs :: "c_float \<Rightarrow> c_float" where
  "flt_abs NaN = NaN"
| "flt_abs NegInf = PosInf"
| "flt_abs (Fin a) = Fin \<bar>a\<bar>"
| "flt_abs PosInf = PosInf"

fun flt_add :: "c_float \<Rightarrow> c_float \<Rightarrow> c_float" where
  "flt_add NaN y = NaN"
| "flt_add x NaN = NaN"
| "flt_add (Fin a) (Fin b) = round32 (a + b)"
| "flt_add (Fin a) y = y"
| "flt_add x (Fin b) = x"
| "flt_add x y = (if x = y then x else NaN)"

text \<open>The sign of a product with an infinity; an infinity times zero is not a number.\<close>

fun flt_sgn :: "c_float \<Rightarrow> rat" where
  "flt_sgn NaN = 0"
| "flt_sgn NegInf = - 1"
| "flt_sgn (Fin a) = sgn a"
| "flt_sgn PosInf = 1"

fun flt_mul :: "c_float \<Rightarrow> c_float \<Rightarrow> c_float" where
  "flt_mul NaN y = NaN"
| "flt_mul x NaN = NaN"
| "flt_mul (Fin a) (Fin b) = round32 (a * b)"
| "flt_mul x y = (if flt_sgn x * flt_sgn y = 0 then NaN
                  else if flt_sgn x * flt_sgn y < 0 then NegInf else PosInf)"

lemma flt_less_irrefl [simp]: "\<not> flt_less x x"
  by (cases x) auto

lemma flt_less_asym: "flt_less x y \<Longrightarrow> \<not> flt_less y x"
  by (cases x; cases y) auto

lemma flt_less_trans: "flt_less x y \<Longrightarrow> flt_less y z \<Longrightarrow> flt_less x z"
  by (cases x; cases y; cases z) auto

lemma flt_not_less: "\<not> flt_less x y \<longleftrightarrow> x = NaN \<or> y = NaN \<or> flt_le y x"
  by (cases x; cases y) (auto simp: flt_le_def flt_eq_def)

end
