(* ===== verification/Layer_Verify.thy ===== *)
theory Layer_Verify
  imports Swapchain C_Float
begin

text \<open>
  The composition layers of \<^verbatim>\<open>xrEndFrame\<close> and their verification, first half of
  \<^verbatim>\<open>state_trackers/oxr/oxr_session_frame_end.c\<close>. Handles are addresses in the heaps of \<open>layer_env\<close>, the
  structures behind a \<^verbatim>\<open>next\<close> pointer are a list. Floating point numbers are kept exact with their
  special values; the code only compares and copies them here. What the Eigen library computes, the
  location of spaces and the chains of poses are functions of the environment. The switches of the build
  (\<^verbatim>\<open>OXR_HAVE_...\<close>) and the extensions the application enabled are fields of the environment too.
\<close>

unbundle bit_operations_syntax

section \<open>Floating point constants\<close>

text \<open>\<^verbatim>\<open>M_PI * 2\<close> as a \<^verbatim>\<open>double\<close>.\<close>

definition two_pi :: c_float where
  "two_pi = Fin (884279719003555 / 140737488355328)"

section \<open>Data of the application\<close>

record quat =
  q_x :: c_float
  q_y :: c_float
  q_z :: c_float
  q_w :: c_float

record vec3 =
  v_x :: c_float
  v_y :: c_float
  v_z :: c_float

record posef =
  orientation :: quat
  position :: vec3

record color4 =
  c_r :: c_float
  c_g :: c_float
  c_b :: c_float
  c_a :: c_float

record rect2di =
  off_x :: "32 word"
  off_y :: "32 word"
  ext_w :: "32 word"
  ext_h :: "32 word"

record sub_image =
  si_swapchain :: "addr option"
  si_rect :: rect2di
  si_array_index :: nat

record depth_info =
  di_sub :: sub_image
  di_min :: c_float
  di_max :: c_float
  di_near :: c_float
  di_far :: c_float

record blend_factors =
  srcFactorColor :: int
  dstFactorColor :: int
  srcFactorAlpha :: int
  dstFactorAlpha :: int

datatype next_struct =
    NextColorScaleBias color4 color4
  | NextImageLayout "64 word"
  | NextAlphaBlend blend_factors
  | NextSettings "64 word"
  | NextDepthTest bool int
  | NextDepthInfo depth_info
  | NextOther

text \<open>\<^verbatim>\<open>oxr_find_input_in_chain\<close>: the first structure of the type, which the selector recognises.\<close>

primrec oxr_find_input_in_chain :: "(next_struct \<Rightarrow> 'a option) \<Rightarrow> next_struct list \<Rightarrow> 'a option" where
  "oxr_find_input_in_chain sel [] = None"
| "oxr_find_input_in_chain sel (base # next) =
     (case sel base of Some x \<Rightarrow> Some x | None \<Rightarrow> oxr_find_input_in_chain sel next)"

definition sel_alpha_blend :: "next_struct \<Rightarrow> blend_factors option" where
  "sel_alpha_blend n = (case n of NextAlphaBlend b \<Rightarrow> Some b | _ \<Rightarrow> None)"

definition sel_depth_info :: "next_struct \<Rightarrow> depth_info option" where
  "sel_depth_info n = (case n of NextDepthInfo d \<Rightarrow> Some d | _ \<Rightarrow> None)"

record layer_head =
  lh_next :: "next_struct list"
  lh_flags :: "64 word"
  lh_space :: "addr option"

record proj_view =
  pv_next :: "next_struct list"
  pv_pose :: posef
  pv_fov :: "c_float list"
  pv_sub :: sub_image

record proj_layer = layer_head +
  viewCount :: nat
  views :: "proj_view list"

record quad_layer = layer_head +
  qd_eye :: int
  qd_sub :: sub_image
  qd_pose :: posef
  qd_size :: "c_float \<times> c_float"

record cube_layer = layer_head +
  cb_eye :: int
  cb_swapchain :: "addr option"
  cb_array_index :: nat
  cb_orientation :: quat

record cylinder_layer = layer_head +
  cy_eye :: int
  cy_sub :: sub_image
  cy_pose :: posef
  cy_radius :: c_float
  cy_angle :: c_float
  cy_ratio :: c_float

record equirect1_layer = layer_head +
  e1_eye :: int
  e1_sub :: sub_image
  e1_pose :: posef
  e1_radius :: c_float
  e1_scale :: "c_float \<times> c_float"
  e1_bias :: "c_float \<times> c_float"

record equirect2_layer = layer_head +
  e2_eye :: int
  e2_sub :: sub_image
  e2_pose :: posef
  e2_radius :: c_float
  e2_horizontal :: c_float
  e2_upper :: c_float
  e2_lower :: c_float

record passthrough_layer = layer_head +
  pt_layer :: "addr option"

datatype layer =
    CompProjection proj_layer
  | CompQuad quad_layer
  | CompCube cube_layer
  | CompCylinder cylinder_layer
  | CompEquirect1 equirect1_layer
  | CompEquirect2 equirect2_layer
  | CompPassthrough passthrough_layer
  | CompUnknown

section \<open>Environment\<close>

datatype view_config =
    PRIMARY_MONO
  | PRIMARY_STEREO
  | PRIMARY_QUAD_VARJO
  | SECONDARY_MONO_FIRST_PERSON_OBSERVER_MSFT
  | OTHER_VIEW_CONFIG

record layer_swapchain = swapchain +
  sc_width :: nat
  sc_height :: nat
  array_layer_count :: nat
  face_count :: nat

record layer_space =
  is_view_space :: bool
  sp_pose :: posef

record layer_env =
  have_alpha_blend :: bool
  have_color_scale_bias :: bool
  have_image_layout :: bool
  have_settings :: bool
  have_depth_test :: bool
  have_depth :: bool
  have_cube :: bool
  have_cylinder :: bool
  have_equirect1 :: bool
  have_equirect2 :: bool
  have_passthrough :: bool
  en_alpha_blend :: bool
  en_color_scale_bias :: bool
  en_image_layout :: bool
  en_settings :: bool
  en_depth_test :: bool
  en_passthrough :: bool
  no_texture_source_alpha :: bool
  current_view_config_type :: view_config
  swapchains :: "addr \<Rightarrow> layer_swapchain option"
  spaces :: "addr \<Rightarrow> layer_space option"
  passthrough_layers :: "addr \<Rightarrow> (bool \<times> addr) option"
  passthroughs :: "addr \<Rightarrow> bool option"
  math_quat_validate_within_1_percent :: "quat \<Rightarrow> bool"
  math_quat_validate :: "quat \<Rightarrow> bool"
  math_quat_normalize :: "quat \<Rightarrow> quat"
  resolve_in_view :: "posef \<Rightarrow> posef \<Rightarrow> posef"
  oxr_space_locate_device :: "addr \<Rightarrow> XrResult \<times> nat"
  resolve_in_device :: "addr \<Rightarrow> posef \<Rightarrow> posef"
  ratio :: "int \<Rightarrow> nat \<Rightarrow> c_float"

definition math_vec3_validate :: "vec3 \<Rightarrow> bool" where
  "math_vec3_validate v \<longleftrightarrow> flt_finite (v_x v) \<and> flt_finite (v_y v) \<and> flt_finite (v_z v)"

section \<open>Rectangles\<close>

definition is_rect_neg :: "rect2di \<Rightarrow> bool" where
  "is_rect_neg r = (if sint (off_x r) < 0 \<or> sint (off_y r) < 0 then True else False)"

text \<open>The sum of two \<^verbatim>\<open>int32_t\<close>, then converted to \<^verbatim>\<open>uint32_t\<close>; an overflow is undefined.\<close>

definition int32_sum :: "32 word \<Rightarrow> 32 word \<Rightarrow> fault + nat" where
  "int32_sum a b = (if sint a + sint b < - (2 ^ 31) \<or> sint a + sint b \<ge> 2 ^ 31 then Inl SignedOverflow else Inr (unat (a + b)))"

definition is_rect_out_of_bounds :: "rect2di \<Rightarrow> layer_swapchain \<Rightarrow> fault + bool" where
  "is_rect_out_of_bounds r sc =
     try_bind (int32_sum (off_x r) (ext_w r)) (\<lambda>total_width.
     if total_width > sc_width sc then Inr True
     else try_bind (int32_sum (off_y r) (ext_h r)) (\<lambda>total_height.
          if total_height > sc_height sc then Inr True else Inr False))"

section \<open>Checks shared by the layers\<close>

definition u_verify_blend_factor_valid :: "int \<Rightarrow> bool" where
  "u_verify_blend_factor_valid f \<longleftrightarrow> f = 0 \<or> f = 1 \<or> f = 2 \<or> f = 3 \<or> f = 4 \<or> f = 5"

text \<open>When the build has the extension, the path without an error ends without a return.\<close>

definition verify_blend_factors :: "layer_env \<Rightarrow> next_struct list \<Rightarrow> fault + XrResult" where
  "verify_blend_factors env next =
     (if have_alpha_blend env then
        if \<not> en_alpha_blend env then Inr XR_SUCCESS
        else case oxr_find_input_in_chain sel_alpha_blend next of
            Some alphaBlend \<Rightarrow>
              if \<not> u_verify_blend_factor_valid (srcFactorColor alphaBlend) then Inr XR_ERROR_VALIDATION_FAILURE
              else if \<not> u_verify_blend_factor_valid (dstFactorColor alphaBlend) then Inr XR_ERROR_VALIDATION_FAILURE
              else if \<not> u_verify_blend_factor_valid (srcFactorAlpha alphaBlend) then Inr XR_ERROR_VALIDATION_FAILURE
              else if \<not> u_verify_blend_factor_valid (dstFactorAlpha alphaBlend) then Inr XR_ERROR_VALIDATION_FAILURE
              else Inl NoReturnValue
          | None \<Rightarrow> Inl NoReturnValue
      else Inr XR_SUCCESS)"

definition verify_space :: "addr option \<Rightarrow> XrResult" where
  "verify_space space = (if space = None then XR_ERROR_VALIDATION_FAILURE else XR_SUCCESS)"

text \<open>\<^verbatim>\<open>if (ret != XR_SUCCESS) return ret;\<close>\<close>

definition on_success :: "fault + XrResult \<Rightarrow> (fault + XrResult) \<Rightarrow> fault + XrResult" where
  "on_success m k = try_bind m (\<lambda>ret. if ret \<noteq> XR_SUCCESS then Inr ret else k)"

section \<open>The verification of each kind of layer\<close>

definition verify_quad_layer :: "layer_env \<Rightarrow> quad_layer \<Rightarrow> fault + XrResult" where
  "verify_quad_layer env quad =
     (case si_swapchain (qd_sub quad) of
        None \<Rightarrow> Inr XR_ERROR_LAYER_INVALID
      | Some handle \<Rightarrow>
          on_success (Inr (verify_space (lh_space quad))) (
          on_success (verify_blend_factors env (lh_next quad)) (
          if \<not> math_quat_validate_within_1_percent env (orientation (qd_pose quad)) then Inr XR_ERROR_POSE_INVALID
          else if \<not> math_vec3_validate (position (qd_pose quad)) then Inr XR_ERROR_POSE_INVALID
          else try_bind (deref (swapchains env) handle) (\<lambda>sc.
          if array_layer_count sc \<le> si_array_index (qd_sub quad) then Inr XR_ERROR_VALIDATION_FAILURE
          else if face_count sc \<noteq> 1 then Inr XR_ERROR_VALIDATION_FAILURE
          else if \<not> released_yes sc then Inr XR_ERROR_LAYER_INVALID
          else if released_index sc \<ge> int (image_count sc) then Inr XR_ERROR_RUNTIME_FAILURE
          else if is_rect_neg (si_rect (qd_sub quad)) then Inr XR_ERROR_SWAPCHAIN_RECT_INVALID
          else try_bind (is_rect_out_of_bounds (si_rect (qd_sub quad)) sc) (\<lambda>oob.
          if oob then Inr XR_ERROR_SWAPCHAIN_RECT_INVALID
          else Inr XR_SUCCESS)))))"

definition verify_depth_layer :: "layer_env \<Rightarrow> depth_info \<Rightarrow> fault + XrResult" where
  "verify_depth_layer env depth =
     (case si_swapchain (di_sub depth) of
        None \<Rightarrow> Inr XR_ERROR_HANDLE_INVALID
      | Some handle \<Rightarrow>
          try_bind (deref (swapchains env) handle) (\<lambda>sc.
          if \<not> released_yes sc then Inr XR_ERROR_LAYER_INVALID
          else if released_index sc \<ge> int (image_count sc) then Inr XR_ERROR_RUNTIME_FAILURE
          else if array_layer_count sc \<le> si_array_index (di_sub depth) then Inr XR_ERROR_VALIDATION_FAILURE
          else if face_count sc \<noteq> 1 then Inr XR_ERROR_VALIDATION_FAILURE
          else if is_rect_neg (si_rect (di_sub depth)) then Inr XR_ERROR_SWAPCHAIN_RECT_INVALID
          else try_bind (is_rect_out_of_bounds (si_rect (di_sub depth)) sc) (\<lambda>oob.
          if oob then Inr XR_ERROR_SWAPCHAIN_RECT_INVALID
          else if flt_less (di_min depth) (Fin 0) \<or> flt_less (Fin 1) (di_min depth) then Inr XR_ERROR_LAYER_INVALID
          else if flt_less (di_max depth) (Fin 0) \<or> flt_less (Fin 1) (di_max depth) then Inr XR_ERROR_LAYER_INVALID
          else if flt_less (di_max depth) (di_min depth) then Inr XR_ERROR_LAYER_INVALID
          else if flt_eq (di_near depth) (di_far depth) then Inr XR_ERROR_LAYER_INVALID
          else Inr XR_SUCCESS)))"

text \<open>The number of views that the view configuration asks for.\<close>

definition verify_view_count :: "layer_env \<Rightarrow> nat \<Rightarrow> fault + XrResult" where
  "verify_view_count env n =
     (case current_view_config_type env of
        PRIMARY_MONO \<Rightarrow> if n \<noteq> 1 then Inr XR_ERROR_VALIDATION_FAILURE else Inr XR_SUCCESS
      | PRIMARY_STEREO \<Rightarrow> if n \<noteq> 2 then Inr XR_ERROR_VALIDATION_FAILURE else Inr XR_SUCCESS
      | PRIMARY_QUAD_VARJO \<Rightarrow> if n \<noteq> 4 then Inr XR_ERROR_VALIDATION_FAILURE else Inr XR_SUCCESS
      | SECONDARY_MONO_FIRST_PERSON_OBSERVER_MSFT \<Rightarrow> if n \<noteq> 1 then Inr XR_ERROR_VALIDATION_FAILURE else Inr XR_SUCCESS
      | OTHER_VIEW_CONFIG \<Rightarrow> Inl AssertFailed)"

text \<open>One pass of the loop over the views, up to its depth information.\<close>

definition verify_view :: "layer_env \<Rightarrow> proj_view \<Rightarrow> fault + XrResult" where
  "verify_view env view =
     (if \<not> math_quat_validate_within_1_percent env (orientation (pv_pose view)) then Inr XR_ERROR_POSE_INVALID
      else if \<not> math_vec3_validate (position (pv_pose view)) then Inr XR_ERROR_POSE_INVALID
      else case si_swapchain (pv_sub view) of
        None \<Rightarrow> Inr XR_ERROR_HANDLE_INVALID
      | Some handle \<Rightarrow>
          try_bind (deref (swapchains env) handle) (\<lambda>sc.
          if \<not> released_yes sc then Inr XR_ERROR_LAYER_INVALID
          else if released_index sc \<ge> int (image_count sc) then Inr XR_ERROR_RUNTIME_FAILURE
          else if array_layer_count sc \<le> si_array_index (pv_sub view) then Inr XR_ERROR_VALIDATION_FAILURE
          else if face_count sc \<noteq> 1 then Inr XR_ERROR_VALIDATION_FAILURE
          else if is_rect_neg (si_rect (pv_sub view)) then Inr XR_ERROR_SWAPCHAIN_RECT_INVALID
          else try_bind (is_rect_out_of_bounds (si_rect (pv_sub view)) sc) (\<lambda>oob.
          if oob then Inr XR_ERROR_SWAPCHAIN_RECT_INVALID
          else Inr XR_SUCCESS)))"

text \<open>The loop over the views; it counts the views with depth information.\<close>

primrec verify_views :: "layer_env \<Rightarrow> proj_view list \<Rightarrow> nat \<Rightarrow> fault + XrResult \<times> nat" where
  "verify_views env [] depth_layer_count = Inr (XR_SUCCESS, depth_layer_count)"
| "verify_views env (view # vs) depth_layer_count =
     try_bind (verify_view env view) (\<lambda>ret.
     if ret \<noteq> XR_SUCCESS then Inr (ret, depth_layer_count)
     else if \<not> have_depth env then verify_views env vs depth_layer_count
     else case oxr_find_input_in_chain sel_depth_info (pv_next view) of
         None \<Rightarrow> verify_views env vs depth_layer_count
       | Some depth \<Rightarrow>
           try_bind (verify_depth_layer env depth) (\<lambda>ret.
           if ret \<noteq> XR_SUCCESS then Inr (ret, depth_layer_count)
           else verify_views env vs (depth_layer_count + 1)))"

definition verify_projection_layer :: "layer_env \<Rightarrow> proj_layer \<Rightarrow> fault + XrResult" where
  "verify_projection_layer env proj =
     on_success (Inr (verify_space (lh_space proj))) (
     on_success (verify_blend_factors env (lh_next proj)) (
     on_success (verify_view_count env (viewCount proj)) (
     if length (views proj) < viewCount proj then Inl OutOfBounds
     else try_bind (verify_views env (take (viewCount proj) (views proj)) 0) (\<lambda>(ret, depth_layer_count).
     if ret \<noteq> XR_SUCCESS then Inr ret
     else if depth_layer_count > 0 \<and> depth_layer_count \<noteq> viewCount proj then Inr XR_ERROR_VALIDATION_FAILURE
     else Inr XR_SUCCESS))))"

definition verify_cube_layer :: "layer_env \<Rightarrow> cube_layer \<Rightarrow> fault + XrResult" where
  "verify_cube_layer env cube =
     (if \<not> have_cube env then Inr XR_ERROR_LAYER_INVALID
      else case cb_swapchain cube of
        None \<Rightarrow> Inr XR_ERROR_LAYER_INVALID
      | Some handle \<Rightarrow>
          on_success (Inr (verify_space (lh_space cube))) (
          on_success (verify_blend_factors env (lh_next cube)) (
          if \<not> math_quat_validate_within_1_percent env (cb_orientation cube) then Inr XR_ERROR_POSE_INVALID
          else try_bind (deref (swapchains env) handle) (\<lambda>sc.
          if array_layer_count sc \<le> cb_array_index cube then Inr XR_ERROR_VALIDATION_FAILURE
          else if face_count sc \<noteq> 6 then Inr XR_ERROR_VALIDATION_FAILURE
          else if \<not> released_yes sc then Inr XR_ERROR_LAYER_INVALID
          else if released_index sc \<ge> int (image_count sc) then Inr XR_ERROR_RUNTIME_FAILURE
          else Inr XR_SUCCESS))))"

definition verify_cylinder_layer :: "layer_env \<Rightarrow> cylinder_layer \<Rightarrow> fault + XrResult" where
  "verify_cylinder_layer env cylinder =
     (if \<not> have_cylinder env then Inr XR_ERROR_LAYER_INVALID
      else case si_swapchain (cy_sub cylinder) of
        None \<Rightarrow> Inr XR_ERROR_LAYER_INVALID
      | Some handle \<Rightarrow>
          on_success (Inr (verify_space (lh_space cylinder))) (
          on_success (verify_blend_factors env (lh_next cylinder)) (
          if \<not> math_quat_validate_within_1_percent env (orientation (cy_pose cylinder)) then Inr XR_ERROR_POSE_INVALID
          else if \<not> math_vec3_validate (position (cy_pose cylinder)) then Inr XR_ERROR_POSE_INVALID
          else try_bind (deref (swapchains env) handle) (\<lambda>sc.
          if array_layer_count sc \<le> si_array_index (cy_sub cylinder) then Inr XR_ERROR_VALIDATION_FAILURE
          else if face_count sc \<noteq> 1 then Inr XR_ERROR_VALIDATION_FAILURE
          else if \<not> released_yes sc then Inr XR_ERROR_LAYER_INVALID
          else if released_index sc \<ge> int (image_count sc) then Inr XR_ERROR_RUNTIME_FAILURE
          else if is_rect_neg (si_rect (cy_sub cylinder)) then Inr XR_ERROR_SWAPCHAIN_RECT_INVALID
          else try_bind (is_rect_out_of_bounds (si_rect (cy_sub cylinder)) sc) (\<lambda>oob.
          if oob then Inr XR_ERROR_SWAPCHAIN_RECT_INVALID
          else if flt_less (cy_radius cylinder) (Fin 0) then Inr XR_ERROR_VALIDATION_FAILURE
          else if flt_less (cy_angle cylinder) (Fin 0) \<or> flt_less two_pi (cy_angle cylinder) then Inr XR_ERROR_VALIDATION_FAILURE
          else if flt_le (cy_ratio cylinder) (Fin 0) then Inr XR_ERROR_VALIDATION_FAILURE
          else Inr XR_SUCCESS)))))"

definition verify_equirect1_layer :: "layer_env \<Rightarrow> equirect1_layer \<Rightarrow> fault + XrResult" where
  "verify_equirect1_layer env equirect =
     (if \<not> have_equirect1 env then Inr XR_ERROR_LAYER_INVALID
      else case si_swapchain (e1_sub equirect) of
        None \<Rightarrow> Inr XR_ERROR_LAYER_INVALID
      | Some handle \<Rightarrow>
          on_success (Inr (verify_space (lh_space equirect))) (
          on_success (verify_blend_factors env (lh_next equirect)) (
          if \<not> math_quat_validate_within_1_percent env (orientation (e1_pose equirect)) then Inr XR_ERROR_POSE_INVALID
          else if \<not> math_vec3_validate (position (e1_pose equirect)) then Inr XR_ERROR_POSE_INVALID
          else try_bind (deref (swapchains env) handle) (\<lambda>sc.
          if array_layer_count sc \<le> si_array_index (e1_sub equirect) then Inr XR_ERROR_VALIDATION_FAILURE
          else if face_count sc \<noteq> 1 then Inr XR_ERROR_VALIDATION_FAILURE
          else if \<not> released_yes sc then Inr XR_ERROR_LAYER_INVALID
          else if released_index sc \<ge> int (image_count sc) then Inr XR_ERROR_RUNTIME_FAILURE
          else if is_rect_neg (si_rect (e1_sub equirect)) then Inr XR_ERROR_SWAPCHAIN_RECT_INVALID
          else try_bind (is_rect_out_of_bounds (si_rect (e1_sub equirect)) sc) (\<lambda>oob.
          if oob then Inr XR_ERROR_SWAPCHAIN_RECT_INVALID
          else if flt_less (e1_radius equirect) (Fin 0) then Inr XR_ERROR_VALIDATION_FAILURE
          else Inr XR_SUCCESS)))))"

definition verify_equirect2_layer :: "layer_env \<Rightarrow> equirect2_layer \<Rightarrow> fault + XrResult" where
  "verify_equirect2_layer env equirect =
     (if \<not> have_equirect2 env then Inr XR_ERROR_LAYER_INVALID
      else case si_swapchain (e2_sub equirect) of
        None \<Rightarrow> Inr XR_ERROR_LAYER_INVALID
      | Some handle \<Rightarrow>
          on_success (Inr (verify_space (lh_space equirect))) (
          on_success (verify_blend_factors env (lh_next equirect)) (
          if \<not> math_quat_validate_within_1_percent env (orientation (e2_pose equirect)) then Inr XR_ERROR_POSE_INVALID
          else if \<not> math_vec3_validate (position (e2_pose equirect)) then Inr XR_ERROR_POSE_INVALID
          else try_bind (deref (swapchains env) handle) (\<lambda>sc.
          if array_layer_count sc \<le> si_array_index (e2_sub equirect) then Inr XR_ERROR_VALIDATION_FAILURE
          else if face_count sc \<noteq> 1 then Inr XR_ERROR_VALIDATION_FAILURE
          else if \<not> released_yes sc then Inr XR_ERROR_LAYER_INVALID
          else if released_index sc \<ge> int (image_count sc) then Inr XR_ERROR_RUNTIME_FAILURE
          else if is_rect_neg (si_rect (e2_sub equirect)) then Inr XR_ERROR_SWAPCHAIN_RECT_INVALID
          else try_bind (is_rect_out_of_bounds (si_rect (e2_sub equirect)) sc) (\<lambda>oob.
          if oob then Inr XR_ERROR_SWAPCHAIN_RECT_INVALID
          else if flt_less (e2_horizontal equirect) (Fin 0) then Inr XR_ERROR_VALIDATION_FAILURE
          else Inr XR_SUCCESS)))))"

definition verify_passthrough_layer :: "layer_env \<Rightarrow> passthrough_layer \<Rightarrow> fault + XrResult" where
  "verify_passthrough_layer env passthrough =
     (if \<not> have_passthrough env then Inr XR_ERROR_LAYER_INVALID
      else if lh_flags passthrough = 0 \<or> lh_flags passthrough AND (1 OR 2 OR 4) = 0 then Inr XR_ERROR_LAYER_INVALID
      else on_success (if lh_space passthrough \<noteq> None then Inr (verify_space (lh_space passthrough)) else Inr XR_SUCCESS) (
        if pt_layer passthrough = None then Inr XR_ERROR_LAYER_INVALID else Inr XR_SUCCESS))"

text \<open>The switch of \<^verbatim>\<open>oxr_session_frame_end\<close> and its loop over the layers.\<close>

definition verify_one_layer :: "layer_env \<Rightarrow> layer \<Rightarrow> fault + XrResult" where
  "verify_one_layer env l =
     (case l of
        CompProjection p \<Rightarrow> verify_projection_layer env p
      | CompQuad q \<Rightarrow> verify_quad_layer env q
      | CompCube c \<Rightarrow> verify_cube_layer env c
      | CompCylinder c \<Rightarrow> verify_cylinder_layer env c
      | CompEquirect1 e \<Rightarrow> verify_equirect1_layer env e
      | CompEquirect2 e \<Rightarrow> verify_equirect2_layer env e
      | CompPassthrough p \<Rightarrow> verify_passthrough_layer env p
      | CompUnknown \<Rightarrow> Inr XR_ERROR_LAYER_INVALID)"

primrec verify_frame_layers :: "layer_env \<Rightarrow> layer option list \<Rightarrow> fault + XrResult" where
  "verify_frame_layers env [] = Inr XR_SUCCESS"
| "verify_frame_layers env (l # ls) =
     (case l of
        None \<Rightarrow> Inr XR_ERROR_LAYER_INVALID
      | Some layer \<Rightarrow> on_success (verify_one_layer env layer) (verify_frame_layers env ls))"

end
