(* ===== verification/Layer_Submit.thy ===== *)
theory Layer_Submit
  imports Layer_Verify
begin

text \<open>
  The submission of layers, second half of \<^verbatim>\<open>state_trackers/oxr/oxr_session_frame_end.c\<close>: from the
  structures of the application to the \<^verbatim>\<open>xrt_layer_data\<close> and the swapchains handed to the compositor. A
  layer whose space cannot be located is skipped. The constant name of the head pose input is left out of
  the data; the calls of the compositor are results here, their error codes are in theory Session.
\<close>

section \<open>Data handed to the compositor\<close>

record xrt_sub_image =
  xs_image_index :: nat
  xs_array_index :: nat
  xs_rect :: rect2di
  xs_norm :: "c_float list"

record xrt_view_data =
  vd_sub :: xrt_sub_image
  vd_fov :: "c_float list"
  vd_pose :: posef

record xrt_depth_data =
  dd_sub :: xrt_sub_image
  dd_min :: c_float
  dd_max :: c_float
  dd_near :: c_float
  dd_far :: c_float

datatype layer_body =
    BodyNone
  | BodyProjection "xrt_view_data list" "xrt_depth_data list"
  | BodyQuad nat xrt_sub_image posef "c_float \<times> c_float"
  | BodyCube nat xrt_sub_image posef
  | BodyCylinder nat xrt_sub_image posef c_float c_float c_float
  | BodyEquirect1 nat xrt_sub_image posef c_float "c_float \<times> c_float" "c_float \<times> c_float"
  | BodyEquirect2 nat xrt_sub_image posef c_float c_float c_float c_float
  | BodyPassthrough bool bool

record xrt_layer_data =
  xl_type :: xrt_layer_type
  xl_timestamp :: int
  xl_flags :: "32 word"
  xl_depth_mask :: bool
  xl_compare_op :: int
  xl_flip_y :: bool
  xl_color_scale :: color4
  xl_color_bias :: color4
  xl_blend :: blend_factors
  xl_view_count :: nat
  xl_body :: layer_body

definition zero_color :: color4 where
  "zero_color = \<lparr>c_r = Fin 0, c_g = Fin 0, c_b = Fin 0, c_a = Fin 0\<rparr>"

definition new_layer_data :: "xrt_layer_type \<Rightarrow> int \<Rightarrow> 32 word \<Rightarrow> xrt_layer_data" where
  "new_layer_data type timestamp flags =
     \<lparr>xl_type = type, xl_timestamp = timestamp, xl_flags = flags, xl_depth_mask = False, xl_compare_op = 0,
      xl_flip_y = False, xl_color_scale = zero_color, xl_color_bias = zero_color,
      xl_blend = \<lparr>srcFactorColor = 0, dstFactorColor = 0, srcFactorAlpha = 0, dstFactorAlpha = 0\<rparr>,
      xl_view_count = 0, xl_body = BodyNone\<rparr>"

text \<open>What is passed to the compositor: the data, the swapchains and the depth swapchains.\<close>

record submitted =
  sb_data :: xrt_layer_data
  sb_swapchains :: "addr list"
  sb_depth_swapchains :: "addr list"

section \<open>Conversions\<close>

definition convert_blend_factor :: "int \<Rightarrow> int" where
  "convert_blend_factor f =
     (if f = 0 then 0 else if f = 1 then 1 else if f = 2 then 2 else if f = 3 then 3
      else if f = 4 then 4 else if f = 5 then 5 else 0x7FFFFFFF)"

definition convert_layer_flags :: "64 word \<Rightarrow> 32 word" where
  "convert_layer_flags xr_flags = flag_if xr_flags 1 1 OR flag_if xr_flags 2 2 OR flag_if xr_flags 4 4"

definition convert_compare_op :: "int \<Rightarrow> int" where
  "convert_compare_op op =
     (if op = 0 then 0 else if op = 1 then 1 else if op = 2 then 2 else if op = 3 then 3
      else if op = 4 then 4 else if op = 5 then 5 else if op = 6 then 6 else if op = 7 then 7 else 0x7FFFFFFF)"

definition convert_eye_visibility :: "int \<Rightarrow> nat" where
  "convert_eye_visibility v = (if v = 0 then 3 else if v = 1 then 1 else if v = 2 then 2 else 0)"

definition convert_layer_settings_flags :: "64 word \<Rightarrow> 32 word" where
  "convert_layer_settings_flags f =
     flag_if f 1 0x20 OR flag_if f 2 0x40 OR flag_if f 4 0x80 OR flag_if f 8 0x100"

section \<open>Structures of the chain\<close>

definition fill_in_color_scale_bias :: "layer_env \<Rightarrow> next_struct list \<Rightarrow> xrt_layer_data \<Rightarrow> xrt_layer_data" where
  "fill_in_color_scale_bias env next d =
     (if \<not> have_color_scale_bias env \<or> \<not> en_color_scale_bias env then d
      else case oxr_find_input_in_chain (\<lambda>n. case n of NextColorScaleBias s b \<Rightarrow> Some (s, b) | _ \<Rightarrow> None) next of
          None \<Rightarrow> d
        | Some (scale, bias) \<Rightarrow> d\<lparr>xl_flags := xl_flags d OR 0x10, xl_color_scale := scale, xl_color_bias := bias\<rparr>)"

definition fill_in_y_flip :: "layer_env \<Rightarrow> next_struct list \<Rightarrow> xrt_layer_data \<Rightarrow> xrt_layer_data" where
  "fill_in_y_flip env next d =
     (if \<not> have_image_layout env \<or> \<not> en_image_layout env then d
      else case oxr_find_input_in_chain (\<lambda>n. case n of NextImageLayout f \<Rightarrow> Some f | _ \<Rightarrow> None) next of
          None \<Rightarrow> d
        | Some f \<Rightarrow> if f AND 1 = 0 then d else d\<lparr>xl_flip_y := True\<rparr>)"

definition fill_in_blend_factors :: "layer_env \<Rightarrow> next_struct list \<Rightarrow> xrt_layer_data \<Rightarrow> xrt_layer_data" where
  "fill_in_blend_factors env next d =
     (if \<not> have_alpha_blend env \<or> \<not> en_alpha_blend env then d
      else case oxr_find_input_in_chain sel_alpha_blend next of
          None \<Rightarrow> d
        | Some b \<Rightarrow> d\<lparr>xl_flags := xl_flags d OR 0x200,
                     xl_blend := \<lparr>srcFactorColor = convert_blend_factor (srcFactorColor b),
                                  dstFactorColor = convert_blend_factor (dstFactorColor b),
                                  srcFactorAlpha = convert_blend_factor (srcFactorAlpha b),
                                  dstFactorAlpha = convert_blend_factor (dstFactorAlpha b)\<rparr>\<rparr>)"

definition fill_in_layer_settings :: "layer_env \<Rightarrow> next_struct list \<Rightarrow> xrt_layer_data \<Rightarrow> xrt_layer_data" where
  "fill_in_layer_settings env next d =
     (if \<not> have_settings env \<or> \<not> en_settings env then d
      else case oxr_find_input_in_chain (\<lambda>n. case n of NextSettings f \<Rightarrow> Some f | _ \<Rightarrow> None) next of
          None \<Rightarrow> d
        | Some f \<Rightarrow> d\<lparr>xl_flags := xl_flags d OR convert_layer_settings_flags f\<rparr>)"

definition fill_in_depth_test :: "layer_env \<Rightarrow> next_struct list \<Rightarrow> xrt_layer_data \<Rightarrow> xrt_layer_data" where
  "fill_in_depth_test env next d =
     (if \<not> have_depth_test env \<or> \<not> en_depth_test env then d
      else case oxr_find_input_in_chain (\<lambda>n. case n of NextDepthTest m op \<Rightarrow> Some (m, op) | _ \<Rightarrow> None) next of
          None \<Rightarrow> d
        | Some (dm, op) \<Rightarrow> d\<lparr>xl_flags := xl_flags d OR 0x400, xl_depth_mask := dm, xl_compare_op := convert_compare_op op\<rparr>)"

text \<open>A handle is a pointer; it may be \<^verbatim>\<open>NULL\<close>.\<close>

definition deref_handle :: "(addr \<Rightarrow> 'a option) \<Rightarrow> addr option \<Rightarrow> fault + 'a" where
  "deref_handle heap handle = (case handle of None \<Rightarrow> Inl NullDeref | Some a \<Rightarrow> deref heap a)"

definition handle_addr :: "addr option \<Rightarrow> fault + addr" where
  "handle_addr handle = (case handle of None \<Rightarrow> Inl NullDeref | Some a \<Rightarrow> Inr a)"

definition fill_in_passthrough :: "layer_env \<Rightarrow> passthrough_layer \<Rightarrow> xrt_layer_data \<Rightarrow> fault + xrt_layer_data" where
  "fill_in_passthrough env p d =
     (if \<not> have_passthrough env \<or> \<not> en_passthrough env then Inr d
      else try_bind (deref_handle (passthrough_layers env) (pt_layer p)) (\<lambda>(paused, pt).
           try_bind (deref (passthroughs env) pt) (\<lambda>pt_paused. Inr (d\<lparr>xl_body := BodyPassthrough pt_paused paused\<rparr>))))"

definition fill_in_sub_image :: "layer_env \<Rightarrow> layer_swapchain \<Rightarrow> sub_image \<Rightarrow> xrt_sub_image" where
  "fill_in_sub_image env sc sub =
     (let r = si_rect sub
      in \<lparr>xs_image_index = nat (released_index sc mod 2 ^ 32), xs_array_index = si_array_index sub, xs_rect = r,
          xs_norm = [ratio env (sint (off_x r)) (sc_width sc), ratio env (sint (off_y r)) (sc_height sc),
                     ratio env (sint (ext_w r)) (sc_width sc), ratio env (sint (ext_h r)) (sc_height sc)]\<rparr>)"

text \<open>\<^verbatim>\<open>None\<close>: the pose cannot be told relative to the head, the layer is not submitted.\<close>

definition handle_space :: "layer_env \<Rightarrow> addr \<Rightarrow> posef \<Rightarrow> fault + posef option" where
  "handle_space env spc pose =
     (let T_space_layer = (if math_quat_validate env (orientation pose) then pose
                           else pose\<lparr>orientation := math_quat_normalize env (orientation pose)\<rparr>)
      in try_bind (deref (spaces env) spc) (\<lambda>sp.
         if is_view_space sp then Inr (Some (resolve_in_view env T_space_layer (sp_pose sp)))
         else let (ret, relation_flags) = oxr_space_locate_device env spc
              in if ret \<noteq> XR_SUCCESS then Inr None
                 else if relation_flags = 0 then Inr None
                 else Inr (Some (resolve_in_device env spc T_space_layer))))"

text \<open>The view space bit.\<close>

definition view_space_flag :: "layer_env \<Rightarrow> addr \<Rightarrow> 32 word \<Rightarrow> fault + 32 word" where
  "view_space_flag env spc flags =
     try_bind (deref (spaces env) spc) (\<lambda>sp. Inr (if is_view_space sp then flags OR 8 else flags))"

section \<open>The submission of each kind of layer\<close>

definition submit_quad_layer :: "layer_env \<Rightarrow> int \<Rightarrow> quad_layer \<Rightarrow> fault + submitted option" where
  "submit_quad_layer env xrt_timestamp quad =
     (let flags = convert_layer_flags (lh_flags quad)
      in try_bind (handle_addr (lh_space quad)) (\<lambda>spc.
         try_bind (handle_space env spc (qd_pose quad)) (\<lambda>located.
         case located of None \<Rightarrow> Inr None
         | Some pose \<Rightarrow>
             try_bind (view_space_flag env spc flags) (\<lambda>flags.
             try_bind (handle_addr (si_swapchain (qd_sub quad))) (\<lambda>handle.
             try_bind (deref (swapchains env) handle) (\<lambda>sc.
               let data = new_layer_data XRT_LAYER_QUAD xrt_timestamp flags;
                   data = data\<lparr>xl_body := BodyQuad (convert_eye_visibility (qd_eye quad))
                                   (fill_in_sub_image env sc (qd_sub quad)) pose (qd_size quad)\<rparr>;
                   data = fill_in_color_scale_bias env (lh_next quad) data;
                   data = fill_in_y_flip env (lh_next quad) data;
                   data = fill_in_blend_factors env (lh_next quad) data;
                   data = fill_in_layer_settings env (lh_next quad) data;
                   data = fill_in_depth_test env (lh_next quad) data
               in Inr (Some \<lparr>sb_data = data, sb_swapchains = [handle], sb_depth_swapchains = []\<rparr>)))))))"

text \<open>
  The first loop over the views of a projection layer, from index \<open>i\<close>: it fills the local arrays of
  \<open>XRT_MAX_VIEWS\<close> elements and returns from the function when a pose cannot be told.
\<close>

primrec locate_views :: "layer_env \<Rightarrow> addr \<Rightarrow> nat \<Rightarrow> proj_view list \<Rightarrow> fault + posef list option" where
  "locate_views env spc i [] = Inr (Some [])"
| "locate_views env spc i (v # vs) =
     (if i \<ge> XRT_MAX_VIEWS then Inl OutOfBounds
      else try_bind (handle_space env spc (pv_pose v)) (\<lambda>located.
           case located of None \<Rightarrow> Inr None
           | Some pose \<Rightarrow> try_bind (locate_views env spc (i + 1) vs) (\<lambda>rest. Inr (map_option ((#) pose) rest))))"

text \<open>The second loop: the data of each view and its swapchain.\<close>

fun view_data :: "layer_env \<Rightarrow> proj_view list \<Rightarrow> posef list \<Rightarrow> fault + (xrt_view_data \<times> addr) list" where
  "view_data env (v # vs) (pose # poses) =
     try_bind (handle_addr (si_swapchain (pv_sub v))) (\<lambda>handle.
     try_bind (deref (swapchains env) handle) (\<lambda>sc.
     try_bind (view_data env vs poses) (\<lambda>rest.
     Inr ((\<lparr>vd_sub = fill_in_sub_image env sc (pv_sub v), vd_fov = pv_fov v, vd_pose = pose\<rparr>, handle) # rest))))"
| "view_data env _ _ = Inr []"

text \<open>The loop over the depth information; it stops at a view that has none.\<close>

primrec depth_data :: "layer_env \<Rightarrow> proj_view list \<Rightarrow> fault + (xrt_depth_data \<times> addr) list \<times> bool" where
  "depth_data env [] = Inr ([], True)"
| "depth_data env (v # vs) =
     (case oxr_find_input_in_chain sel_depth_info (pv_next v) of
        None \<Rightarrow> Inr ([], False)
      | Some d_info \<Rightarrow>
          try_bind (handle_addr (si_swapchain (di_sub d_info))) (\<lambda>handle.
          try_bind (deref (swapchains env) handle) (\<lambda>sc.
          try_bind (depth_data env vs) (\<lambda>(rest, d_scs_valid).
          Inr ((\<lparr>dd_sub = fill_in_sub_image env sc (di_sub d_info), dd_min = di_min d_info, dd_max = di_max d_info,
                 dd_near = di_near d_info, dd_far = di_far d_info\<rparr>, handle) # rest, d_scs_valid)))))"

definition submit_projection_layer :: "layer_env \<Rightarrow> int \<Rightarrow> proj_layer \<Rightarrow> fault + submitted option" where
  "submit_projection_layer env xrt_timestamp proj =
     (let flags = convert_layer_flags (lh_flags proj);
          flags = (if no_texture_source_alpha env then flags AND NOT 2 else flags)
      in if length (views proj) < viewCount proj then Inl OutOfBounds else
         let vs = take (viewCount proj) (views proj) in
         try_bind (handle_addr (lh_space proj)) (\<lambda>spc.
         try_bind (locate_views env spc 0 vs) (\<lambda>located.
         case located of None \<Rightarrow> Inr None
         | Some poses \<Rightarrow>
             try_bind (view_space_flag env spc flags) (\<lambda>flags.
             try_bind (view_data env vs poses) (\<lambda>views_out.
             try_bind (if have_depth env then depth_data env vs else Inr ([], False)) (\<lambda>(depths, d_scs_valid).
               let data = (new_layer_data XRT_LAYER_PROJECTION xrt_timestamp flags)\<lparr>xl_view_count := viewCount proj\<rparr>;
                   data = data\<lparr>xl_body := BodyProjection (map fst views_out) (map fst depths)\<rparr>;
                   data = fill_in_color_scale_bias env (lh_next proj) data;
                   data = fill_in_y_flip env (lh_next proj) data;
                   data = fill_in_blend_factors env (lh_next proj) data;
                   data = fill_in_layer_settings env (lh_next proj) data
               in if d_scs_valid then
                    let data = (fill_in_depth_test env (lh_next proj) data)\<lparr>xl_type := XRT_LAYER_PROJECTION_DEPTH\<rparr>
                    in Inr (Some \<lparr>sb_data = data, sb_swapchains = map snd views_out, sb_depth_swapchains = map snd depths\<rparr>)
                  else Inr (Some \<lparr>sb_data = data, sb_swapchains = map snd views_out, sb_depth_swapchains = []\<rparr>)))))))"

definition submit_cube_layer :: "layer_env \<Rightarrow> int \<Rightarrow> cube_layer \<Rightarrow> fault + submitted option" where
  "submit_cube_layer env xrt_timestamp cube =
     (let data = new_layer_data XRT_LAYER_CUBE xrt_timestamp (convert_layer_flags (lh_flags cube));
          data = fill_in_layer_settings env (lh_next cube) data
      in try_bind (handle_addr (lh_space cube)) (\<lambda>spc.
         try_bind (view_space_flag env spc (xl_flags data)) (\<lambda>flags.
         try_bind (handle_addr (cb_swapchain cube)) (\<lambda>handle.
         try_bind (deref (swapchains env) handle) (\<lambda>sc.
           let data = data\<lparr>xl_flags := flags\<rparr>;
               data = fill_in_color_scale_bias env (lh_next cube) data;
               data = fill_in_y_flip env (lh_next cube) data;
               data = fill_in_blend_factors env (lh_next cube) data;
               data = fill_in_depth_test env (lh_next cube) data;
               zero_rect = \<lparr>off_x = 0, off_y = 0, ext_w = 0, ext_h = 0\<rparr>;
               sub = \<lparr>xs_image_index = nat (released_index sc mod 2 ^ 32), xs_array_index = cb_array_index cube,
                      xs_rect = zero_rect, xs_norm = [Fin 0, Fin 0, Fin 0, Fin 0]\<rparr>;
               pose = \<lparr>orientation = cb_orientation cube, position = \<lparr>v_x = Fin 0, v_y = Fin 0, v_z = Fin 0\<rparr>\<rparr>
           in try_bind (handle_space env spc pose) (\<lambda>located.
              case located of None \<Rightarrow> Inr None
              | Some pose \<Rightarrow>
                  Inr (Some \<lparr>sb_data = data\<lparr>xl_body := BodyCube (convert_eye_visibility (cb_eye cube)) sub pose\<rparr>,
                             sb_swapchains = [handle], sb_depth_swapchains = []\<rparr>)))))))"

definition submit_cylinder_layer :: "layer_env \<Rightarrow> int \<Rightarrow> cylinder_layer \<Rightarrow> fault + submitted option" where
  "submit_cylinder_layer env xrt_timestamp cylinder =
     (let flags = convert_layer_flags (lh_flags cylinder)
      in try_bind (handle_addr (lh_space cylinder)) (\<lambda>spc.
         try_bind (handle_space env spc (cy_pose cylinder)) (\<lambda>located.
         case located of None \<Rightarrow> Inr None
         | Some pose \<Rightarrow>
             try_bind (view_space_flag env spc flags) (\<lambda>flags.
             try_bind (handle_addr (si_swapchain (cy_sub cylinder))) (\<lambda>handle.
             try_bind (deref (swapchains env) handle) (\<lambda>sc.
               let data = new_layer_data XRT_LAYER_CYLINDER xrt_timestamp flags;
                   data = data\<lparr>xl_body := BodyCylinder (convert_eye_visibility (cy_eye cylinder))
                                   (fill_in_sub_image env sc (cy_sub cylinder)) pose
                                   (cy_radius cylinder) (cy_angle cylinder) (cy_ratio cylinder)\<rparr>;
                   data = fill_in_color_scale_bias env (lh_next cylinder) data;
                   data = fill_in_y_flip env (lh_next cylinder) data;
                   data = fill_in_blend_factors env (lh_next cylinder) data;
                   data = fill_in_layer_settings env (lh_next cylinder) data;
                   data = fill_in_depth_test env (lh_next cylinder) data
               in Inr (Some \<lparr>sb_data = data, sb_swapchains = [handle], sb_depth_swapchains = []\<rparr>)))))))"

definition submit_equirect1_layer :: "layer_env \<Rightarrow> int \<Rightarrow> equirect1_layer \<Rightarrow> fault + submitted option" where
  "submit_equirect1_layer env xrt_timestamp equirect =
     (let flags = convert_layer_flags (lh_flags equirect)
      in try_bind (handle_addr (lh_space equirect)) (\<lambda>spc.
         try_bind (handle_space env spc (e1_pose equirect)) (\<lambda>located.
         case located of None \<Rightarrow> Inr None
         | Some pose \<Rightarrow>
             try_bind (view_space_flag env spc flags) (\<lambda>flags.
             try_bind (handle_addr (si_swapchain (e1_sub equirect))) (\<lambda>handle.
             try_bind (deref (swapchains env) handle) (\<lambda>sc.
               let data = new_layer_data XRT_LAYER_EQUIRECT1 xrt_timestamp flags;
                   data = data\<lparr>xl_body := BodyEquirect1 (convert_eye_visibility (e1_eye equirect))
                                   (fill_in_sub_image env sc (e1_sub equirect)) pose
                                   (e1_radius equirect) (e1_scale equirect) (e1_bias equirect)\<rparr>;
                   data = fill_in_color_scale_bias env (lh_next equirect) data;
                   data = fill_in_y_flip env (lh_next equirect) data;
                   data = fill_in_blend_factors env (lh_next equirect) data;
                   data = fill_in_layer_settings env (lh_next equirect) data;
                   data = fill_in_depth_test env (lh_next equirect) data
               in Inr (Some \<lparr>sb_data = data, sb_swapchains = [handle], sb_depth_swapchains = []\<rparr>)))))))"

definition submit_equirect2_layer :: "layer_env \<Rightarrow> int \<Rightarrow> equirect2_layer \<Rightarrow> fault + submitted option" where
  "submit_equirect2_layer env xrt_timestamp equirect =
     (let flags = convert_layer_flags (lh_flags equirect)
      in try_bind (handle_addr (lh_space equirect)) (\<lambda>spc.
         try_bind (handle_space env spc (e2_pose equirect)) (\<lambda>located.
         case located of None \<Rightarrow> Inr None
         | Some pose \<Rightarrow>
             try_bind (view_space_flag env spc flags) (\<lambda>flags.
             try_bind (handle_addr (si_swapchain (e2_sub equirect))) (\<lambda>handle.
             try_bind (deref (swapchains env) handle) (\<lambda>sc.
               let data = new_layer_data XRT_LAYER_EQUIRECT2 xrt_timestamp flags;
                   data = data\<lparr>xl_body := BodyEquirect2 (convert_eye_visibility (e2_eye equirect))
                                   (fill_in_sub_image env sc (e2_sub equirect)) pose
                                   (e2_radius equirect) (e2_horizontal equirect) (e2_upper equirect) (e2_lower equirect)\<rparr>;
                   data = fill_in_color_scale_bias env (lh_next equirect) data;
                   data = fill_in_y_flip env (lh_next equirect) data;
                   data = fill_in_blend_factors env (lh_next equirect) data;
                   data = fill_in_layer_settings env (lh_next equirect) data;
                   data = fill_in_depth_test env (lh_next equirect) data
               in Inr (Some \<lparr>sb_data = data, sb_swapchains = [handle], sb_depth_swapchains = []\<rparr>)))))))"

definition submit_passthrough_layer :: "layer_env \<Rightarrow> int \<Rightarrow> passthrough_layer \<Rightarrow> fault + submitted option" where
  "submit_passthrough_layer env xrt_timestamp passthrough =
     (let data = new_layer_data XRT_LAYER_PASSTHROUGH xrt_timestamp (convert_layer_flags (lh_flags passthrough))
      in try_bind (fill_in_passthrough env passthrough (data\<lparr>xl_body := BodyPassthrough False False\<rparr>)) (\<lambda>data.
         Inr (Some \<lparr>sb_data = fill_in_blend_factors env (lh_next passthrough) data,
                    sb_swapchains = [], sb_depth_swapchains = []\<rparr>)))"

text \<open>The switch in the submission loop of \<^verbatim>\<open>oxr_session_frame_end\<close>, and the loop.\<close>

definition submit_one_layer :: "layer_env \<Rightarrow> int \<Rightarrow> layer \<Rightarrow> fault + submitted option" where
  "submit_one_layer env t l =
     (case l of
        CompProjection p \<Rightarrow> submit_projection_layer env t p
      | CompQuad q \<Rightarrow> submit_quad_layer env t q
      | CompCube c \<Rightarrow> submit_cube_layer env t c
      | CompCylinder c \<Rightarrow> submit_cylinder_layer env t c
      | CompEquirect1 e \<Rightarrow> submit_equirect1_layer env t e
      | CompEquirect2 e \<Rightarrow> submit_equirect2_layer env t e
      | CompPassthrough p \<Rightarrow> submit_passthrough_layer env t p
      | CompUnknown \<Rightarrow> Inl AssertFailed)"

primrec submit_frame_layers :: "layer_env \<Rightarrow> int \<Rightarrow> layer option list \<Rightarrow> fault + submitted list" where
  "submit_frame_layers env t [] = Inr []"
| "submit_frame_layers env t (l # ls) =
     try_bind (case l of None \<Rightarrow> Inl AssertFailed | Some layer \<Rightarrow> submit_one_layer env t layer) (\<lambda>r.
     try_bind (submit_frame_layers env t ls) (\<lambda>rest.
     Inr (case r of None \<Rightarrow> rest | Some s \<Rightarrow> s # rest)))"

end
