(* ===== verification/Layer_Properties.thy ===== *)
theory Layer_Properties
  imports Layer_Submit
begin

text \<open>
  What the verification of \<^verbatim>\<open>xrEndFrame\<close> guarantees the submission: no pointer that is dereferenced is
  \<^verbatim>\<open>NULL\<close>, no local array is left, and the compositor gets image indices, array indices and rectangles
  within the swapchains. The swapchains are those that theory Swapchain produces. Then the holes: the
  missing return of the blend factor check, negative extents and the third view.
\<close>

section \<open>Swapchains in use\<close>

text \<open>The swapchain is one that its functions produce from a new one, and its size fits an \<^verbatim>\<open>int32_t\<close>.\<close>

definition good_swapchain :: "layer_swapchain \<Rightarrow> bool" where
  "good_swapchain sc \<longleftrightarrow>
     sc_width sc < 2 ^ 31 \<and> sc_height sc < 2 ^ 31 \<and>
     (\<exists>n cs static rs. n \<le> XRT_MAX_SWAPCHAIN_IMAGES \<and> (\<forall>c \<in> set cs. snd (res_acquire (fst c)) < n) \<and>
        run_calls cs (new_swapchain n static) = Inr (swapchain.truncate sc, rs))"

definition spec_bounded :: "nat \<Rightarrow> sc_spec \<Rightarrow> bool" where
  "spec_bounded n a \<longleftrightarrow> (\<forall>i \<in> set (acq a). i < n) \<and> (\<forall>i. infl a = Some i \<longrightarrow> i < n) \<and> (\<forall>i. rel a = Some i \<longrightarrow> i < n)"

lemma spec_call_bounded:
  "spec_bounded n a \<Longrightarrow> snd (res_acquire e) < n \<Longrightarrow> spec_bounded n (fst (spec_call m static e c a))"
  by (cases c) (auto simp: spec_call_def spec_bounded_def split: prod.splits option.splits list.splits if_splits)

lemma spec_calls_bounded:
  "spec_bounded n a \<Longrightarrow> \<forall>c \<in> set cs. snd (res_acquire (fst c)) < n \<Longrightarrow> spec_bounded n (fst (spec_calls m static cs a))"
proof (induction cs arbitrary: a)
  case (Cons c cs)
  have "spec_bounded n (fst (spec_call m static (fst c) (snd c) a))"
    using Cons.prems by (intro spec_call_bounded) auto
  then show ?case using Cons.IH Cons.prems(2) by (simp add: case_prod_beta)
qed simp

lemma run_calls_image_count:
  assumes "sc_rel sc a" "\<forall>c \<in> set cs. snd (res_acquire (fst c)) < image_count sc" "run_calls cs sc = Inr (sc', rs)"
  shows "image_count sc' = image_count sc"
  using assms
proof (induction cs arbitrary: sc a rs)
  case (Cons c cs)
  from Cons.prems call_refines [of sc a "fst c" "snd c"] obtain sc1 where
    sc1: "run_call (fst c) (snd c) sc = Inr (sc1, snd (spec_call (image_count sc) (is_static sc) (fst c) (snd c) a))"
    "sc_rel sc1 (fst (spec_call (image_count sc) (is_static sc) (fst c) (snd c) a))"
    "image_count sc1 = image_count sc"
    by auto
  obtain rs1 where "run_calls cs sc1 = Inr (sc', rs1)"
    using Cons.prems(3) sc1(1) by (auto simp: try_simps)
  then show ?case using Cons.IH [OF sc1(2)] Cons.prems(2) sc1(3) by auto
qed simp

lemma good_swapchain_released:
  assumes "good_swapchain sc" "released_yes sc"
  shows "0 \<le> released_index sc \<and> released_index sc < int (image_count sc) \<and> image_count sc \<le> XRT_MAX_SWAPCHAIN_IMAGES"
proof -
  obtain n cs static rs where n: "n \<le> XRT_MAX_SWAPCHAIN_IMAGES" "\<forall>c \<in> set cs. snd (res_acquire (fst c)) < n"
    and run: "run_calls cs (new_swapchain n static) = Inr (swapchain.truncate sc, rs)"
    using assms(1) by (auto simp: good_swapchain_def)
  let ?sc = "swapchain.truncate sc"
  have rel: "sc_rel ?sc (fst (spec_calls n static cs initial_spec))"
    using run_new_swapchain [OF n, of static] run by auto
  have "spec_bounded n initial_spec" by (simp add: spec_bounded_def initial_spec_def)
  then have bound: "spec_bounded n (fst (spec_calls n static cs initial_spec))" using n(2) by (rule spec_calls_bounded)
  have "image_count ?sc = n"
    using run_calls_image_count [OF new_swapchain_rel [OF n(1)] _ run] n(2) by (simp add: new_swapchain_def)
  moreover have "released_yes ?sc = released_yes sc" "released_index ?sc = released_index sc" "image_count ?sc = image_count sc"
    by (simp_all add: swapchain.truncate_def)
  ultimately show ?thesis
    using rel bound assms(2) n(1) by (auto simp: sc_rel_def spec_bounded_def)
qed

section \<open>What the compositor may rely on\<close>

definition rect_inside :: "rect2di \<Rightarrow> layer_swapchain \<Rightarrow> bool" where
  "rect_inside r sc \<longleftrightarrow>
     0 \<le> sint (off_x r) \<and> 0 \<le> sint (off_y r) \<and>
     0 \<le> sint (off_x r) + sint (ext_w r) \<and> sint (off_x r) + sint (ext_w r) \<le> int (sc_width sc) \<and>
     0 \<le> sint (off_y r) + sint (ext_h r) \<and> sint (off_y r) + sint (ext_h r) \<le> int (sc_height sc)"

definition image_ok :: "layer_env \<Rightarrow> xrt_sub_image \<Rightarrow> addr \<Rightarrow> nat \<Rightarrow> bool" where
  "image_ok env sub a faces \<longleftrightarrow>
     (\<exists>sc. swapchains env a = Some sc \<and> xs_image_index sub < image_count sc \<and>
        xs_array_index sub < array_layer_count sc \<and> face_count sc = faces)"

definition sub_image_ok :: "layer_env \<Rightarrow> xrt_sub_image \<Rightarrow> addr \<Rightarrow> bool" where
  "sub_image_ok env sub a \<longleftrightarrow>
     image_ok env sub a 1 \<and> (\<exists>sc. swapchains env a = Some sc \<and> rect_inside (xs_rect sub) sc)"

fun body_ok :: "layer_env \<Rightarrow> xrt_layer_type \<Rightarrow> layer_body \<Rightarrow> addr list \<Rightarrow> addr list \<Rightarrow> bool" where
  "body_ok env t (BodyProjection vs ds) scs dscs \<longleftrightarrow>
     length vs \<le> XRT_MAX_VIEWS \<and> list_all2 (sub_image_ok env) (map vd_sub vs) scs \<and>
     list_all2 (sub_image_ok env) (map dd_sub ds) dscs \<and>
     (t = XRT_LAYER_PROJECTION \<and> ds = [] \<or> t = XRT_LAYER_PROJECTION_DEPTH \<and> length ds = length vs)"
| "body_ok env t (BodyQuad v sub pose sz) scs dscs \<longleftrightarrow>
     t = XRT_LAYER_QUAD \<and> dscs = [] \<and> list_all2 (sub_image_ok env) [sub] scs"
| "body_ok env t (BodyCube v sub pose) scs dscs \<longleftrightarrow>
     t = XRT_LAYER_CUBE \<and> dscs = [] \<and> (\<exists>a. scs = [a] \<and> image_ok env sub a 6)"
| "body_ok env t (BodyCylinder v sub pose r an ra) scs dscs \<longleftrightarrow>
     t = XRT_LAYER_CYLINDER \<and> dscs = [] \<and> list_all2 (sub_image_ok env) [sub] scs"
| "body_ok env t (BodyEquirect1 v sub pose r sc bi) scs dscs \<longleftrightarrow>
     t = XRT_LAYER_EQUIRECT1 \<and> dscs = [] \<and> list_all2 (sub_image_ok env) [sub] scs"
| "body_ok env t (BodyEquirect2 v sub pose r h u l) scs dscs \<longleftrightarrow>
     t = XRT_LAYER_EQUIRECT2 \<and> dscs = [] \<and> list_all2 (sub_image_ok env) [sub] scs"
| "body_ok env t (BodyPassthrough p q) scs dscs \<longleftrightarrow> t = XRT_LAYER_PASSTHROUGH \<and> scs = [] \<and> dscs = []"
| "body_ok env t BodyNone scs dscs \<longleftrightarrow> False"

definition submitted_ok :: "layer_env \<Rightarrow> submitted \<Rightarrow> bool" where
  "submitted_ok env s \<longleftrightarrow>
     body_ok env (xl_type (sb_data s)) (xl_body (sb_data s)) (sb_swapchains s) (sb_depth_swapchains s) \<and>
     (case xl_body (sb_data s) of BodyProjection vs ds \<Rightarrow> xl_view_count (sb_data s) = length vs | _ \<Rightarrow> True)"

text \<open>The objects behind the handles that the verification does not look at are alive.\<close>

definition space_live :: "layer_env \<Rightarrow> addr option \<Rightarrow> bool" where
  "space_live env h \<longleftrightarrow> (\<forall>a. h = Some a \<longrightarrow> spaces env a \<noteq> None)"

fun objects_live :: "layer_env \<Rightarrow> layer \<Rightarrow> bool" where
  "objects_live env (CompProjection p) = space_live env (lh_space p)"
| "objects_live env (CompQuad q) = space_live env (lh_space q)"
| "objects_live env (CompCube c) = space_live env (lh_space c)"
| "objects_live env (CompCylinder c) = space_live env (lh_space c)"
| "objects_live env (CompEquirect1 e) = space_live env (lh_space e)"
| "objects_live env (CompEquirect2 e) = space_live env (lh_space e)"
| "objects_live env (CompPassthrough p) =
     (\<forall>a. pt_layer p = Some a \<longrightarrow> (\<exists>b pt. passthrough_layers env a = Some (b, pt) \<and> passthroughs env pt \<noteq> None))"
| "objects_live env CompUnknown = True"

definition env_ok :: "layer_env \<Rightarrow> bool" where
  "env_ok env \<longleftrightarrow>
     (\<forall>a sc. swapchains env a = Some sc \<longrightarrow> good_swapchain sc) \<and> current_view_config_type env \<noteq> PRIMARY_QUAD_VARJO"

section \<open>The pieces\<close>

lemma on_success_eq [try_simps]:
  "on_success m k = Inr XR_SUCCESS \<longleftrightarrow> m = Inr XR_SUCCESS \<and> k = Inr XR_SUCCESS"
  by (auto simp: on_success_def try_simps)

lemma rect_checked:
  assumes "is_rect_out_of_bounds r sc = Inr False" "\<not> is_rect_neg r" "sc_width sc < 2 ^ 31" "sc_height sc < 2 ^ 31"
  shows "rect_inside r sc"
proof -
  have sum: "0 \<le> sint a + sint b \<and> sint a + sint b \<le> int w"
    if "int32_sum a b = Inr n" "n \<le> w" "w < 2 ^ 31" for a b :: "32 word" and n w
  proof -
    have range: "- (2 ^ 31) \<le> sint a + sint b" "sint a + sint b < 2 ^ 31" and n: "n = unat (a + b)"
      using that(1) by (auto simp: int32_sum_def split: if_splits)
    have "sint (a + b) = sint a + sint b" using range by (rule sint_add_exact)
    moreover have u: "uint (a + b) = int n" unfolding n by simp
    moreover have "int n < 2 ^ 31" using that(2,3) by simp
    then have "sint (a + b) = uint (a + b)" unfolding u [symmetric] by (rule sint_small)
    ultimately show ?thesis using that(2) by linarith
  qed
  have "int32_sum (off_x r) (ext_w r) = Inr n \<Longrightarrow> n \<le> sc_width sc" for n
    using assms(1) by (auto simp: is_rect_out_of_bounds_def try_simps split: if_splits)
  moreover have "int32_sum (off_y r) (ext_h r) = Inr n \<Longrightarrow> n \<le> sc_height sc" for n
    using assms(1) by (auto simp: is_rect_out_of_bounds_def try_simps split: if_splits)
  moreover obtain n m where "int32_sum (off_x r) (ext_w r) = Inr n" "int32_sum (off_y r) (ext_h r) = Inr m"
    using assms(1) by (auto simp: is_rect_out_of_bounds_def try_simps split: if_splits)
  ultimately show ?thesis
    using sum assms by (auto simp: rect_inside_def is_rect_neg_def split: if_splits)
qed

lemma sub_image_checked:
  assumes env: "env_ok env" "swapchains env a = Some sc" and released: "released_yes sc"
    and "si_array_index sub < array_layer_count sc" "face_count sc = 1"
    and "is_rect_out_of_bounds (si_rect sub) sc = Inr False" "\<not> is_rect_neg (si_rect sub)"
  shows "sub_image_ok env (fill_in_sub_image env sc sub) a"
proof -
  have good: "good_swapchain sc" using env by (simp add: env_ok_def)
  then have "0 \<le> released_index sc" "released_index sc < int (image_count sc)" "image_count sc \<le> 8"
    using good_swapchain_released [OF good released] by (simp_all add: XRT_MAX_SWAPCHAIN_IMAGES_def)
  then have "released_index sc mod 2 ^ 32 = released_index sc" by (intro mod_pos_pos_trivial) simp_all
  moreover have "rect_inside (si_rect sub) sc"
    using assms good by (intro rect_checked) (simp_all add: good_swapchain_def)
  ultimately show ?thesis
    using assms good_swapchain_released [OF good released]
    by (auto simp: sub_image_ok_def image_ok_def fill_in_sub_image_def Let_def)
qed

lemma fill_in_keeps [simp]:
  "xl_body (fill_in_color_scale_bias env next d) = xl_body d" "xl_type (fill_in_color_scale_bias env next d) = xl_type d"
  "xl_view_count (fill_in_color_scale_bias env next d) = xl_view_count d"
  "xl_body (fill_in_y_flip env next d) = xl_body d" "xl_type (fill_in_y_flip env next d) = xl_type d"
  "xl_view_count (fill_in_y_flip env next d) = xl_view_count d"
  "xl_body (fill_in_blend_factors env next d) = xl_body d" "xl_type (fill_in_blend_factors env next d) = xl_type d"
  "xl_view_count (fill_in_blend_factors env next d) = xl_view_count d"
  "xl_body (fill_in_layer_settings env next d) = xl_body d" "xl_type (fill_in_layer_settings env next d) = xl_type d"
  "xl_view_count (fill_in_layer_settings env next d) = xl_view_count d"
  "xl_body (fill_in_depth_test env next d) = xl_body d" "xl_type (fill_in_depth_test env next d) = xl_type d"
  "xl_view_count (fill_in_depth_test env next d) = xl_view_count d"
  by (simp_all add: fill_in_color_scale_bias_def fill_in_y_flip_def fill_in_blend_factors_def fill_in_layer_settings_def
      fill_in_depth_test_def split: option.split prod.split)

lemma new_layer_data_simps [simp]:
  "xl_type (new_layer_data t ts f) = t" "xl_view_count (new_layer_data t ts f) = 0"
  by (simp_all add: new_layer_data_def)

lemma handle_space_ok: "spaces env a \<noteq> None \<Longrightarrow> \<exists>r. handle_space env a pose = Inr r"
  by (auto simp: handle_space_def Let_def split: prod.split if_split)

lemma view_space_flag_ok: "spaces env a \<noteq> None \<Longrightarrow> \<exists>f. view_space_flag env a flags = Inr f"
  by (auto simp: view_space_flag_def)

text \<open>An outcome of a submission that does not fault and whose data, if any, is good.\<close>

definition outcome_ok :: "layer_env \<Rightarrow> fault + submitted option \<Rightarrow> bool" where
  "outcome_ok env r \<longleftrightarrow> (\<exists>x. r = Inr x \<and> (\<forall>s. x = Some s \<longrightarrow> submitted_ok env s))"

lemma outcome_ok_bind: "m = Inr x \<Longrightarrow> outcome_ok env (f x) \<Longrightarrow> outcome_ok env (try_bind m f)"
  by simp

lemma outcome_ok_None [simp]: "outcome_ok env (Inr None)"
  by (simp add: outcome_ok_def)

lemma outcome_ok_Some [simp]: "outcome_ok env (Inr (Some s)) = submitted_ok env s"
  by (simp add: outcome_ok_def)

lemma verify_space_Some [try_simps]: "verify_space h = XR_SUCCESS \<longleftrightarrow> (\<exists>a. h = Some a)"
  by (cases h) (simp_all add: verify_space_def)

text \<open>The facts that a passed check of a subimage leaves behind.\<close>

definition checked_sub :: "layer_env \<Rightarrow> sub_image \<Rightarrow> bool" where
  "checked_sub env sub \<longleftrightarrow>
     (\<exists>a sc. si_swapchain sub = Some a \<and> swapchains env a = Some sc \<and> sub_image_ok env (fill_in_sub_image env sc sub) a)"

lemma checked_subI:
  assumes "env_ok env" "si_swapchain sub = Some a" "swapchains env a = Some sc" "released_yes sc"
    "si_array_index sub < array_layer_count sc" "face_count sc = 1"
    "is_rect_out_of_bounds (si_rect sub) sc = Inr False" "\<not> is_rect_neg (si_rect sub)"
  shows "checked_sub env sub"
  unfolding checked_sub_def using assms sub_image_checked [OF assms(1,3,4)] by auto

lemma verify_quad_checked:
  assumes "env_ok env" "verify_quad_layer env quad = Inr XR_SUCCESS"
  shows "(\<exists>a. lh_space quad = Some a) \<and> checked_sub env (qd_sub quad)"
proof -
  obtain a sc where "lh_space quad \<noteq> None" "si_swapchain (qd_sub quad) = Some a" "swapchains env a = Some sc" "released_yes sc"
    "si_array_index (qd_sub quad) < array_layer_count sc" "face_count sc = 1"
    "is_rect_out_of_bounds (si_rect (qd_sub quad)) sc = Inr False" "\<not> is_rect_neg (si_rect (qd_sub quad))"
    using assms(2) by (auto simp: verify_quad_layer_def try_simps split: option.splits if_splits)
  then show ?thesis using checked_subI [OF assms(1)] by auto
qed

lemma verify_cylinder_checked:
  assumes "env_ok env" "verify_cylinder_layer env cy = Inr XR_SUCCESS"
  shows "(\<exists>a. lh_space cy = Some a) \<and> checked_sub env (cy_sub cy)"
proof -
  obtain a sc where "lh_space cy \<noteq> None" "si_swapchain (cy_sub cy) = Some a" "swapchains env a = Some sc" "released_yes sc"
    "si_array_index (cy_sub cy) < array_layer_count sc" "face_count sc = 1"
    "is_rect_out_of_bounds (si_rect (cy_sub cy)) sc = Inr False" "\<not> is_rect_neg (si_rect (cy_sub cy))"
    using assms(2) by (auto simp: verify_cylinder_layer_def try_simps split: option.splits if_splits)
  then show ?thesis using checked_subI [OF assms(1)] by auto
qed

lemma verify_equirect1_checked:
  assumes "env_ok env" "verify_equirect1_layer env e = Inr XR_SUCCESS"
  shows "(\<exists>a. lh_space e = Some a) \<and> checked_sub env (e1_sub e)"
proof -
  obtain a sc where "lh_space e \<noteq> None" "si_swapchain (e1_sub e) = Some a" "swapchains env a = Some sc" "released_yes sc"
    "si_array_index (e1_sub e) < array_layer_count sc" "face_count sc = 1"
    "is_rect_out_of_bounds (si_rect (e1_sub e)) sc = Inr False" "\<not> is_rect_neg (si_rect (e1_sub e))"
    using assms(2) by (auto simp: verify_equirect1_layer_def try_simps split: option.splits if_splits)
  then show ?thesis using checked_subI [OF assms(1)] by auto
qed

lemma verify_equirect2_checked:
  assumes "env_ok env" "verify_equirect2_layer env e = Inr XR_SUCCESS"
  shows "(\<exists>a. lh_space e = Some a) \<and> checked_sub env (e2_sub e)"
proof -
  obtain a sc where "lh_space e \<noteq> None" "si_swapchain (e2_sub e) = Some a" "swapchains env a = Some sc" "released_yes sc"
    "si_array_index (e2_sub e) < array_layer_count sc" "face_count sc = 1"
    "is_rect_out_of_bounds (si_rect (e2_sub e)) sc = Inr False" "\<not> is_rect_neg (si_rect (e2_sub e))"
    using assms(2) by (auto simp: verify_equirect2_layer_def try_simps split: option.splits if_splits)
  then show ?thesis using checked_subI [OF assms(1)] by auto
qed

lemma verify_cube_checked:
  assumes "env_ok env" "verify_cube_layer env cube = Inr XR_SUCCESS"
  obtains s a sc where "lh_space cube = Some s" "cb_swapchain cube = Some a" "swapchains env a = Some sc" "released_yes sc"
    "cb_array_index cube < array_layer_count sc" "face_count sc = 6" "good_swapchain sc"
proof -
  obtain a sc where "lh_space cube \<noteq> None" "cb_swapchain cube = Some a" "swapchains env a = Some sc" "released_yes sc"
    "cb_array_index cube < array_layer_count sc" "face_count sc = 6"
    using assms(2) by (auto simp: verify_cube_layer_def try_simps split: option.splits if_splits)
  then show thesis using assms(1) that by (auto simp: env_ok_def)
qed

lemma quad_submitted:
  assumes "env_ok env" "verify_quad_layer env quad = Inr XR_SUCCESS" "space_live env (lh_space quad)"
  shows "outcome_ok env (submit_quad_layer env t quad)"
proof -
  obtain s a sc where s: "lh_space quad = Some s" "spaces env s \<noteq> None" and a: "si_swapchain (qd_sub quad) = Some a"
    "swapchains env a = Some sc" "sub_image_ok env (fill_in_sub_image env sc (qd_sub quad)) a"
    using verify_quad_checked [OF assms(1,2)] assms(3) by (auto simp: checked_sub_def space_live_def)
  obtain r where r: "handle_space env s (qd_pose quad) = Inr r" using handle_space_ok [OF s(2)] by blast
  obtain f where f: "view_space_flag env s (convert_layer_flags (lh_flags quad)) = Inr f" using view_space_flag_ok [OF s(2)] by blast
  show ?thesis
    by (cases r) (simp_all add: submit_quad_layer_def handle_addr_def s(1) r f a submitted_ok_def Let_def)
qed

lemma cylinder_submitted:
  assumes "env_ok env" "verify_cylinder_layer env cy = Inr XR_SUCCESS" "space_live env (lh_space cy)"
  shows "outcome_ok env (submit_cylinder_layer env t cy)"
proof -
  obtain s a sc where s: "lh_space cy = Some s" "spaces env s \<noteq> None" and a: "si_swapchain (cy_sub cy) = Some a"
    "swapchains env a = Some sc" "sub_image_ok env (fill_in_sub_image env sc (cy_sub cy)) a"
    using verify_cylinder_checked [OF assms(1,2)] assms(3) by (auto simp: checked_sub_def space_live_def)
  obtain r where r: "handle_space env s (cy_pose cy) = Inr r" using handle_space_ok [OF s(2)] by blast
  obtain f where f: "view_space_flag env s (convert_layer_flags (lh_flags cy)) = Inr f" using view_space_flag_ok [OF s(2)] by blast
  show ?thesis
    by (cases r) (simp_all add: submit_cylinder_layer_def handle_addr_def s(1) r f a submitted_ok_def Let_def)
qed

lemma equirect1_submitted:
  assumes "env_ok env" "verify_equirect1_layer env e = Inr XR_SUCCESS" "space_live env (lh_space e)"
  shows "outcome_ok env (submit_equirect1_layer env t e)"
proof -
  obtain s a sc where s: "lh_space e = Some s" "spaces env s \<noteq> None" and a: "si_swapchain (e1_sub e) = Some a"
    "swapchains env a = Some sc" "sub_image_ok env (fill_in_sub_image env sc (e1_sub e)) a"
    using verify_equirect1_checked [OF assms(1,2)] assms(3) by (auto simp: checked_sub_def space_live_def)
  obtain r where r: "handle_space env s (e1_pose e) = Inr r" using handle_space_ok [OF s(2)] by blast
  obtain f where f: "view_space_flag env s (convert_layer_flags (lh_flags e)) = Inr f" using view_space_flag_ok [OF s(2)] by blast
  show ?thesis
    by (cases r) (simp_all add: submit_equirect1_layer_def handle_addr_def s(1) r f a submitted_ok_def Let_def)
qed

lemma equirect2_submitted:
  assumes "env_ok env" "verify_equirect2_layer env e = Inr XR_SUCCESS" "space_live env (lh_space e)"
  shows "outcome_ok env (submit_equirect2_layer env t e)"
proof -
  obtain s a sc where s: "lh_space e = Some s" "spaces env s \<noteq> None" and a: "si_swapchain (e2_sub e) = Some a"
    "swapchains env a = Some sc" "sub_image_ok env (fill_in_sub_image env sc (e2_sub e)) a"
    using verify_equirect2_checked [OF assms(1,2)] assms(3) by (auto simp: checked_sub_def space_live_def)
  obtain r where r: "handle_space env s (e2_pose e) = Inr r" using handle_space_ok [OF s(2)] by blast
  obtain f where f: "view_space_flag env s (convert_layer_flags (lh_flags e)) = Inr f" using view_space_flag_ok [OF s(2)] by blast
  show ?thesis
    by (cases r) (simp_all add: submit_equirect2_layer_def handle_addr_def s(1) r f a submitted_ok_def Let_def)
qed

lemma cube_submitted:
  assumes "env_ok env" "verify_cube_layer env cube = Inr XR_SUCCESS" "space_live env (lh_space cube)"
  shows "outcome_ok env (submit_cube_layer env t cube)"
proof -
  obtain s a sc where s: "lh_space cube = Some s" and a: "cb_swapchain cube = Some a" "swapchains env a = Some sc"
    "released_yes sc" "cb_array_index cube < array_layer_count sc" "face_count sc = 6" "good_swapchain sc"
    by (rule verify_cube_checked [OF assms(1,2)])
  have sp: "spaces env s \<noteq> None" using assms(3) s by (simp add: space_live_def)
  let ?pose = "\<lparr>orientation = cb_orientation cube, position = \<lparr>v_x = Fin 0, v_y = Fin 0, v_z = Fin 0\<rparr>\<rparr>"
  obtain r where r: "handle_space env s ?pose = Inr r" using handle_space_ok [OF sp] by blast
  have rel: "0 \<le> released_index sc" "released_index sc < int (image_count sc)" "image_count sc \<le> 8"
    using good_swapchain_released [OF a(6) a(3)] by (simp_all add: XRT_MAX_SWAPCHAIN_IMAGES_def)
  then have "nat (released_index sc mod 4294967296) < image_count sc"
    using mod_pos_pos_trivial [of "released_index sc" 4294967296] by simp
  moreover obtain f where "view_space_flag env s
      (xl_flags (fill_in_layer_settings env (lh_next cube) (new_layer_data XRT_LAYER_CUBE t (convert_layer_flags (lh_flags cube))))) = Inr f"
    using view_space_flag_ok [OF sp] by blast
  ultimately show ?thesis
    using a by (cases r) (simp_all add: submit_cube_layer_def handle_addr_def s r submitted_ok_def Let_def image_ok_def)
qed

lemma passthrough_submitted:
  assumes "verify_passthrough_layer env p = Inr XR_SUCCESS" "objects_live env (CompPassthrough p)"
  shows "outcome_ok env (submit_passthrough_layer env t p)"
proof -
  obtain a where a: "pt_layer p = Some a"
    using assms(1) by (auto simp: verify_passthrough_layer_def try_simps split: if_splits)
  then obtain b pt c where "passthrough_layers env a = Some (b, pt)" "passthroughs env pt = Some c" using assms(2) by auto
  then show ?thesis
    by (simp add: submit_passthrough_layer_def fill_in_passthrough_def deref_handle_def a submitted_ok_def Let_def)
qed

section \<open>Projection layers\<close>

lemma verify_view_checked:
  assumes "env_ok env" "verify_view env v = Inr XR_SUCCESS"
  shows "checked_sub env (pv_sub v)"
proof -
  obtain a sc where "si_swapchain (pv_sub v) = Some a" "swapchains env a = Some sc" "released_yes sc"
    "si_array_index (pv_sub v) < array_layer_count sc" "face_count sc = 1"
    "is_rect_out_of_bounds (si_rect (pv_sub v)) sc = Inr False" "\<not> is_rect_neg (si_rect (pv_sub v))"
    using assms(2) by (auto simp: verify_view_def try_simps split: option.splits if_splits)
  then show ?thesis using checked_subI [OF assms(1)] by auto
qed

lemma verify_depth_checked:
  assumes "env_ok env" "verify_depth_layer env d = Inr XR_SUCCESS"
  shows "checked_sub env (di_sub d)"
proof -
  obtain a sc where "si_swapchain (di_sub d) = Some a" "swapchains env a = Some sc" "released_yes sc"
    "si_array_index (di_sub d) < array_layer_count sc" "face_count sc = 1"
    "is_rect_out_of_bounds (si_rect (di_sub d)) sc = Inr False" "\<not> is_rect_neg (si_rect (di_sub d))"
    using assms(2) by (auto simp: verify_depth_layer_def try_simps split: option.splits if_splits)
  then show ?thesis using checked_subI [OF assms(1)] by auto
qed

definition depth_of :: "proj_view \<Rightarrow> depth_info option" where
  "depth_of v = oxr_find_input_in_chain sel_depth_info (pv_next v)"

lemma verify_views_checked:
  assumes "env_ok env" "verify_views env vs n = Inr (XR_SUCCESS, m)"
  shows "(\<forall>v \<in> set vs. checked_sub env (pv_sub v)) \<and>
         (have_depth env \<longrightarrow> m = n + length (filter (\<lambda>v. depth_of v \<noteq> None) vs) \<and>
            (\<forall>v \<in> set vs. \<forall>d. depth_of v = Some d \<longrightarrow> checked_sub env (di_sub d)))"
  using assms(2)
proof (induction vs arbitrary: n)
  case (Cons v vs)
  have v: "verify_view env v = Inr XR_SUCCESS" using Cons.prems by (auto simp: try_simps split: if_splits)
  note cv = verify_view_checked [OF assms(1) v]
  show ?case
  proof (cases "have_depth env")
    case False
    then have "verify_views env vs n = Inr (XR_SUCCESS, m)" using Cons.prems v by simp
    then show ?thesis using Cons.IH cv False by simp
  next
    case True
    show ?thesis
    proof (cases "depth_of v")
      case None
      then have "verify_views env vs n = Inr (XR_SUCCESS, m)" using Cons.prems v True by (simp add: depth_of_def)
      then show ?thesis using Cons.IH cv True None by simp
    next
      case (Some d)
      then have d: "verify_depth_layer env d = Inr XR_SUCCESS" "verify_views env vs (n + 1) = Inr (XR_SUCCESS, m)"
        using Cons.prems v True by (auto simp: depth_of_def try_simps split: if_splits)
      then show ?thesis using Cons.IH [OF d(2)] cv True Some verify_depth_checked [OF assms(1) d(1)] by simp
    qed
  qed
qed simp

lemma locate_views_ok:
  assumes "spaces env s \<noteq> None"
  shows "i + length vs \<le> XRT_MAX_VIEWS \<Longrightarrow> \<exists>r. locate_views env s i vs = Inr r \<and> (\<forall>ps. r = Some ps \<longrightarrow> length ps = length vs)"
proof (induction vs arbitrary: i)
  case (Cons v vs)
  obtain r where r: "handle_space env s (pv_pose v) = Inr r" using handle_space_ok [OF assms] by blast
  obtain r' where "locate_views env s (i + 1) vs = Inr r'" "\<forall>ps. r' = Some ps \<longrightarrow> length ps = length vs"
    using Cons.IH [of "i + 1"] Cons.prems by auto
  then show ?case using Cons.prems r by (cases r; cases r') simp_all
qed simp

lemma view_data_ok:
  assumes "\<forall>v \<in> set vs. checked_sub env (pv_sub v)" "length ps = length vs"
  shows "\<exists>out. view_data env vs ps = Inr out \<and> length out = length vs \<and>
           list_all2 (sub_image_ok env) (map vd_sub (map fst out)) (map snd out)"
  using assms
proof (induction vs arbitrary: ps)
  case (Cons v vs)
  then obtain p ps' where ps: "ps = p # ps'" by (cases ps) auto
  obtain a sc where "si_swapchain (pv_sub v) = Some a" "swapchains env a = Some sc"
    "sub_image_ok env (fill_in_sub_image env sc (pv_sub v)) a"
    using Cons.prems(1) by (auto simp: checked_sub_def)
  moreover obtain out where "view_data env vs ps' = Inr out" "length out = length vs"
    "list_all2 (sub_image_ok env) (map vd_sub (map fst out)) (map snd out)"
    using Cons.IH [of ps'] Cons.prems ps by auto
  ultimately show ?case using ps by (simp add: handle_addr_def)
qed simp

lemma depth_data_ok:
  assumes "\<forall>v \<in> set vs. \<exists>d. depth_of v = Some d \<and> checked_sub env (di_sub d)"
  shows "\<exists>out. depth_data env vs = Inr (out, True) \<and> length out = length vs \<and>
           list_all2 (sub_image_ok env) (map dd_sub (map fst out)) (map snd out)"
  using assms
proof (induction vs)
  case (Cons v vs)
  obtain d a sc where "depth_of v = Some d" "si_swapchain (di_sub d) = Some a" "swapchains env a = Some sc"
    "sub_image_ok env (fill_in_sub_image env sc (di_sub d)) a"
    using Cons.prems by (auto simp: checked_sub_def)
  moreover obtain out where "depth_data env vs = Inr (out, True)" "length out = length vs"
    "list_all2 (sub_image_ok env) (map dd_sub (map fst out)) (map snd out)"
    using Cons.IH Cons.prems by auto
  ultimately show ?case by (simp add: handle_addr_def depth_of_def)
qed simp

lemma verify_view_count_small:
  "verify_view_count env n = Inr XR_SUCCESS \<Longrightarrow> current_view_config_type env \<noteq> PRIMARY_QUAD_VARJO \<Longrightarrow> 0 < n \<and> n \<le> XRT_MAX_VIEWS"
  by (auto simp: verify_view_count_def XRT_MAX_VIEWS_def split: view_config.splits if_splits)

lemma projection_submitted:
  assumes env: "env_ok env" and v: "verify_projection_layer env p = Inr XR_SUCCESS" and sp: "space_live env (lh_space p)"
  shows "outcome_ok env (submit_projection_layer env t p)"
proof -
  let ?vs = "take (viewCount p) (views p)"
  obtain s m where s: "lh_space p = Some s" and vc: "verify_view_count env (viewCount p) = Inr XR_SUCCESS"
    and len: "viewCount p \<le> length (views p)" and vv: "verify_views env ?vs 0 = Inr (XR_SUCCESS, m)"
    and m: "m = 0 \<or> m = viewCount p"
    using v by (auto simp: verify_projection_layer_def try_simps split: if_splits)
  have n: "0 < viewCount p" "viewCount p \<le> XRT_MAX_VIEWS"
    using verify_view_count_small [OF vc] env by (simp_all add: env_ok_def)
  have lvs: "length ?vs = viewCount p" using len by simp
  note checked = verify_views_checked [OF env vv]
  have live: "spaces env s \<noteq> None" using sp s by (simp add: space_live_def)
  obtain r where r: "locate_views env s 0 ?vs = Inr r" "\<forall>ps. r = Some ps \<longrightarrow> length ps = length ?vs"
    using locate_views_ok [OF live, of 0 ?vs] n lvs by auto
  show ?thesis
  proof (cases r)
    case None
    then show ?thesis using r(1) len by (simp add: submit_projection_layer_def Let_def handle_addr_def s)
  next
    case (Some ps)
    then obtain out where out: "view_data env ?vs ps = Inr out" "length out = length ?vs"
      "list_all2 (sub_image_ok env) (map vd_sub (map fst out)) (map snd out)"
      using view_data_ok [of ?vs env ps] checked r(2) by auto
    have "\<exists>ds b. (if have_depth env then depth_data env ?vs else Inr ([], False)) = Inr (ds, b) \<and>
        list_all2 (sub_image_ok env) (map dd_sub (map fst ds)) (map snd ds) \<and> (if b then length ds = length ?vs else ds = [])"
    proof (cases "have_depth env \<and> m = viewCount p")
      case True
      then have "length (filter (\<lambda>v. depth_of v \<noteq> None) ?vs) = length ?vs" using checked lvs by simp
      then have "filter (\<lambda>v. depth_of v \<noteq> None) ?vs = ?vs" by (metis filter_id_conv length_filter_less less_irrefl)
      then have "\<forall>v \<in> set ?vs. depth_of v \<noteq> None" by (simp add: filter_id_conv)
      then have "\<forall>v \<in> set ?vs. \<exists>d. depth_of v = Some d \<and> checked_sub env (di_sub d)"
        using checked True by blast
      from depth_data_ok [OF this] obtain ds where "depth_data env ?vs = Inr (ds, True)" "length ds = length ?vs"
        "list_all2 (sub_image_ok env) (map dd_sub (map fst ds)) (map snd ds)" by blast
      then show ?thesis using True by (intro exI [of _ ds] exI [of _ True]) simp
    next
      case False
      show ?thesis
      proof (cases "have_depth env")
        case True
        then have "length (filter (\<lambda>v. depth_of v \<noteq> None) ?vs) = 0" using False m checked by simp
        then have none: "\<forall>v \<in> set ?vs. depth_of v = None" by (simp add: filter_empty_conv)
        obtain w ws where "?vs = w # ws" using n(1) lvs by (cases ?vs) auto
        then show ?thesis using True none by (intro exI [of _ "[]"] exI [of _ False]) (simp add: depth_of_def)
      next
        case False
        then show ?thesis by (intro exI [of _ "[]"] exI [of _ False]) simp
      qed
    qed
    then obtain ds b where ds: "(if have_depth env then depth_data env ?vs else Inr ([], False)) = Inr (ds, b)"
      "list_all2 (sub_image_ok env) (map dd_sub (map fst ds)) (map snd ds)" "if b then length ds = length ?vs else ds = []" by blast
    obtain f where f: "view_space_flag env s (if no_texture_source_alpha env then convert_layer_flags (lh_flags p) AND NOT 2
        else convert_layer_flags (lh_flags p)) = Inr f" using view_space_flag_ok [OF live] by blast
    have "submit_projection_layer env t p =
      (let data = (new_layer_data XRT_LAYER_PROJECTION t f)\<lparr>xl_view_count := viewCount p\<rparr>;
           data = data\<lparr>xl_body := BodyProjection (map fst out) (map fst ds)\<rparr>;
           data = fill_in_color_scale_bias env (lh_next p) data;
           data = fill_in_y_flip env (lh_next p) data;
           data = fill_in_blend_factors env (lh_next p) data;
           data = fill_in_layer_settings env (lh_next p) data
       in if b then
            let data = (fill_in_depth_test env (lh_next p) data)\<lparr>xl_type := XRT_LAYER_PROJECTION_DEPTH\<rparr>
            in Inr (Some \<lparr>sb_data = data, sb_swapchains = map snd out, sb_depth_swapchains = map snd ds\<rparr>)
          else Inr (Some \<lparr>sb_data = data, sb_swapchains = map snd out, sb_depth_swapchains = []\<rparr>))"
      unfolding submit_projection_layer_def Let_def handle_addr_def s option.case try_bind_Inr r(1) Some f out(1) ds(1)
      using len by simp
    then show ?thesis
      using ds out n lvs by (cases b) (simp_all add: Let_def submitted_ok_def)
  qed
qed

lemma layer_submitted:
  assumes "env_ok env" "verify_one_layer env l = Inr XR_SUCCESS" "objects_live env l"
  shows "outcome_ok env (submit_one_layer env t l)"
  using assms
  by (cases l) (simp_all add: verify_one_layer_def submit_one_layer_def projection_submitted quad_submitted cube_submitted
      cylinder_submitted equirect1_submitted equirect2_submitted passthrough_submitted)

section \<open>The frame\<close>

lemma frame_submitted:
  assumes "env_ok env"
  shows "verify_frame_layers env ls = Inr XR_SUCCESS \<Longrightarrow> (\<forall>l. Some l \<in> set ls \<longrightarrow> objects_live env l) \<Longrightarrow>
    \<exists>subs. submit_frame_layers env t ls = Inr subs \<and> length subs \<le> length ls \<and> (\<forall>s \<in> set subs. submitted_ok env s)"
proof (induction ls)
  case (Cons l ls)
  then obtain x where x: "l = Some x" "verify_one_layer env x = Inr XR_SUCCESS" "verify_frame_layers env ls = Inr XR_SUCCESS"
    by (auto simp: try_simps split: option.splits)
  then obtain r where r: "submit_one_layer env t x = Inr r" "\<forall>s. r = Some s \<longrightarrow> submitted_ok env s"
    using layer_submitted [OF assms x(2), of t] Cons.prems(2) x(1) unfolding outcome_ok_def by auto
  obtain subs where "submit_frame_layers env t ls = Inr subs" "length subs \<le> length ls" "\<forall>s \<in> set subs. submitted_ok env s"
    using Cons.IH [OF x(3)] Cons.prems(2) by auto
  then show ?case using x(1) r by (cases r) auto
qed simp


section \<open>An environment to try things in\<close>

text \<open>One released swapchain of 100 by 100 at address 1, one view space at address 2.\<close>

definition sample_calls :: "(swapchain_env \<times> sc_call) list" where
  "sample_calls = [(env_acquiring 0, Acquire), (env_acquiring 0, Wait), (env_acquiring 0, Release)]"

definition sample_base :: swapchain where
  "sample_base = (case run_calls sample_calls (new_swapchain 3 False) of Inr (sc, _) \<Rightarrow> sc | Inl _ \<Rightarrow> new_swapchain 3 False)"

definition sample_swapchain :: layer_swapchain where
  "sample_swapchain = \<lparr>image_count = image_count sample_base, images = images sample_base,
     acquired_num = acquired_num sample_base, acquired_fifo = acquired_fifo sample_base,
     inflight_yes = inflight_yes sample_base, inflight_index = inflight_index sample_base,
     released_yes = released_yes sample_base, released_index = released_index sample_base,
     is_static = is_static sample_base, sess_has_lost = sess_has_lost sample_base, xsc_calls = xsc_calls sample_base,
     sc_width = 100, sc_height = 100, array_layer_count = 1, face_count = 1\<rparr>"

definition unit_quat :: quat where
  "unit_quat = \<lparr>q_x = Fin 0, q_y = Fin 0, q_z = Fin 0, q_w = Fin 1\<rparr>"

definition zero_pose :: posef where
  "zero_pose = \<lparr>orientation = unit_quat, position = \<lparr>v_x = Fin 0, v_y = Fin 0, v_z = Fin 0\<rparr>\<rparr>"

definition sample_env :: "bool \<Rightarrow> view_config \<Rightarrow> layer_env" where
  "sample_env alpha vc = \<lparr>have_alpha_blend = alpha, have_color_scale_bias = True, have_image_layout = False, have_settings = False,
     have_depth_test = False, have_depth = True, have_cube = False, have_cylinder = True, have_equirect1 = False,
     have_equirect2 = True, have_passthrough = False, en_alpha_blend = alpha, en_color_scale_bias = False,
     en_image_layout = False, en_settings = False, en_depth_test = False, en_passthrough = False,
     no_texture_source_alpha = False, current_view_config_type = vc,
     swapchains = [1 \<mapsto> sample_swapchain], spaces = [2 \<mapsto> \<lparr>is_view_space = True, sp_pose = zero_pose\<rparr>],
     passthrough_layers = (\<lambda>_. None), passthroughs = (\<lambda>_. None),
     math_quat_validate_within_1_percent = (\<lambda>_. True), math_quat_validate = (\<lambda>_. True), math_quat_normalize = id,
     resolve_in_view = (\<lambda>p _. p), oxr_space_locate_device = (\<lambda>_. (XR_SUCCESS, 1)), resolve_in_device = (\<lambda>_ p. p),
     ratio = (\<lambda>i n. Fin (of_int i / of_nat n))\<rparr>"

definition sample_quad :: "int \<Rightarrow> int \<Rightarrow> layer" where
  "sample_quad x w = CompQuad \<lparr>lh_next = [], lh_flags = 0, lh_space = Some 2, qd_eye = 0,
     qd_sub = \<lparr>si_swapchain = Some 1, si_rect = \<lparr>off_x = word_of_int x, off_y = 0, ext_w = word_of_int w, ext_h = 10\<rparr>,
               si_array_index = 0\<rparr>,
     qd_pose = zero_pose, qd_size = (Fin 1, Fin 1)\<rparr>"

definition sample_projection :: "nat \<Rightarrow> layer" where
  "sample_projection n = CompProjection \<lparr>lh_next = [], lh_flags = 0, lh_space = Some 2, viewCount = n,
     views = replicate n \<lparr>pv_next = [], pv_pose = zero_pose, pv_fov = [],
       pv_sub = \<lparr>si_swapchain = Some 1, si_rect = \<lparr>off_x = 0, off_y = 0, ext_w = 10, ext_h = 10\<rparr>, si_array_index = 0\<rparr>\<rparr>\<rparr>"

lemma sample_good: "good_swapchain sample_swapchain \<and> released_yes sample_swapchain \<and> released_index sample_swapchain = 0 \<and>
    image_count sample_swapchain = 3"
proof -
  have n: "3 \<le> XRT_MAX_SWAPCHAIN_IMAGES" "\<forall>c \<in> set sample_calls. snd (res_acquire (fst c)) < 3"
    by (simp_all add: XRT_MAX_SWAPCHAIN_IMAGES_def sample_calls_def env_acquiring_def)
  obtain sc' where r: "run_calls sample_calls (new_swapchain 3 False) = Inr (sc', snd (spec_calls 3 False sample_calls initial_spec))"
    "sc_rel sc' (fst (spec_calls 3 False sample_calls initial_spec))"
    using run_new_swapchain [OF n, of False] by blast
  have base: "sample_base = sc'" by (simp add: sample_base_def r(1))
  have tr: "swapchain.truncate sample_swapchain = sc'"
    by (simp add: swapchain.truncate_def sample_swapchain_def base)
  have "rel (fst (spec_calls 3 False sample_calls initial_spec)) = Some 0"
    by (simp add: sample_calls_def spec_call_def initial_spec_def env_acquiring_def in_use_def Swapchain.busy_def)
  moreover have "image_count sc' = 3"
    using run_calls_image_count [OF new_swapchain_rel [OF n(1)] _ r(1)] n(2) by (simp add: new_swapchain_def)
  ultimately show ?thesis
    using r n tr unfolding good_swapchain_def by (auto simp: sample_swapchain_def base sc_rel_def)
qed

lemma sample_sums: "int32_sum 0 10 = Inr 10" "int32_sum 20 10 = Inr 30" "int32_sum 20 (word_of_int (-5)) = Inr 15"
    "int32_sum 1 (word_of_int (2 ^ 31 - 1)) = Inl SignedOverflow"
  by code_simp+

lemma sample_quad_verified: "verify_one_layer (sample_env False PRIMARY_STEREO) (sample_quad 20 10) = Inr XR_SUCCESS"
  using sample_good sample_sums
  by (simp add: verify_one_layer_def sample_quad_def verify_quad_layer_def sample_env_def on_success_def verify_space_def
      verify_blend_factors_def math_vec3_validate_def zero_pose_def is_rect_neg_def is_rect_out_of_bounds_def sample_swapchain_def)


section \<open>Holes\<close>

lemma blend_check_never_passes:
  "have_alpha_blend env \<Longrightarrow> en_alpha_blend env \<Longrightarrow> verify_blend_factors env next \<noteq> Inr XR_SUCCESS"
  by (simp add: verify_blend_factors_def split: option.split)

lemma sample_quad_verdict:
  "verify_one_layer (sample_env False PRIMARY_STEREO) (sample_quad x w) =
     (if sint (word_of_int x :: 32 word) < 0 then Inr XR_ERROR_SWAPCHAIN_RECT_INVALID
      else try_bind (is_rect_out_of_bounds \<lparr>off_x = word_of_int x, off_y = 0, ext_w = word_of_int w, ext_h = 10\<rparr> sample_swapchain)
        (\<lambda>oob. if oob then Inr XR_ERROR_SWAPCHAIN_RECT_INVALID else Inr XR_SUCCESS))"
  using sample_good
  by (simp add: verify_one_layer_def sample_quad_def verify_quad_layer_def sample_env_def on_success_def verify_space_def
      verify_blend_factors_def math_vec3_validate_def zero_pose_def is_rect_neg_def sample_swapchain_def)

lemma sample_rects: "sint (word_of_int 20 :: 32 word) = 20" "sint (word_of_int 1 :: 32 word) = 1"
  by code_simp+



text \<open>With four views the local arrays of the submission are left behind the second view.\<close>

lemma four_views_overflow:
  assumes "spaces env s \<noteq> None" "lh_space p = Some s" "current_view_config_type env = PRIMARY_QUAD_VARJO"
    and "viewCount p = 4" "length (views p) \<ge> 4" "\<forall>sp. spaces env s = Some sp \<longrightarrow> is_view_space sp"
  shows "submit_projection_layer env t p = Inl OutOfBounds"
proof -
  obtain v0 v1 v2 vs where vs: "take 4 (views p) = v0 # v1 # v2 # vs"
  proof -
    have "length (take 4 (views p)) = Suc (Suc (Suc (Suc 0)))" using assms(5) by simp
    then show thesis using that unfolding length_Suc_conv by blast
  qed
  obtain sp where "spaces env s = Some sp" "is_view_space sp" using assms(1,6) by auto
  then have hs: "handle_space env s pose = Inr (Some (resolve_in_view env (if math_quat_validate env (orientation pose) then pose
      else pose\<lparr>orientation := math_quat_normalize env (orientation pose)\<rparr>) (sp_pose sp)))" for pose
    by (simp add: handle_space_def Let_def)
  have "locate_views env s 0 (v0 # v1 # v2 # vs) = Inl OutOfBounds"
    by (simp add: hs XRT_MAX_VIEWS_def)
  then show ?thesis
    using assms(2,4,5) vs by (simp add: submit_projection_layer_def Let_def handle_addr_def)
qed

end
