(* ===== verification/Augins_Extract.thy ===== *)
theory Augins_Extract
  imports Prelude "HOL-Library.Sublist"
begin

text \<open>
  The extraction of a module package, \<^verbatim>\<open>augins/extract.cpp\<close>: the zip archive is unpacked below a
  staging directory, and a stamp file with the size of the archive lets a later start skip the work.

  The file system is a map from canonical paths, lists of component names, to directories and files; the
  root is \<open>[]\<close> and there are no symbolic links. A path string is resolved component by
  component, so that \<^verbatim>\<open>..\<close> leaves a directory. What the operating system decides (permissions,
  full disks, the counts that \<^verbatim>\<open>read\<close> and \<^verbatim>\<open>write\<close> return) and the archive library are fields of
  \<open>os_env\<close>. A write that returns zero for ever keeps its loop running: such an extraction has no result.
\<close>

section \<open>The file system\<close>

datatype node = Dir | File string

type_synonym fsys = "string list \<Rightarrow> node option"

definition node_at :: "fsys \<Rightarrow> string list \<Rightarrow> node option" where
  "node_at fs p = (if p = [] then Some Dir else fs p)"

text \<open>The components of a path; empty ones and single dots name the directory they stand in.\<close>

fun split_path :: "string \<Rightarrow> string list" where
  "split_path [] = [[]]"
| "split_path (c # s) =
    (if c = CHR ''/'' then [] # split_path s
     else (case split_path s of [] \<Rightarrow> [[c]] | w # ws \<Rightarrow> (c # w) # ws))"

definition comps :: "string \<Rightarrow> string list" where
  "comps s = filter (\<lambda>c. c \<noteq> [] \<and> c \<noteq> ''.'') (split_path s)"

text \<open>The object a path names: every component but the last has to be a directory.\<close>

fun place :: "fsys \<Rightarrow> string list \<Rightarrow> string list \<Rightarrow> string list option" where
  "place fs cur [] = Some cur"
| "place fs cur [c] = Some (if c = ''..'' then butlast cur else cur @ [c])"
| "place fs cur (c # d # cs) =
    (if c = ''..'' then place fs (butlast cur) (d # cs)
     else if fs (cur @ [c]) = Some Dir then place fs (cur @ [c]) (d # cs)
     else None)"

text \<open>The same without a look at the file system.\<close>

fun canon :: "string list \<Rightarrow> string list \<Rightarrow> string list" where
  "canon cur [] = cur"
| "canon cur (c # cs) = canon (if c = ''..'' then butlast cur else cur @ [c]) cs"

record zip_entry =
  ze_stat :: bool
  ze_dir :: bool
  ze_name :: string
  ze_data :: "string option"

record os_env =
  may_mkdir :: "string list \<Rightarrow> bool"
  may_open :: "string list \<Rightarrow> bool"
  may_read :: "string list \<Rightarrow> bool"
  write_result :: "string list \<Rightarrow> nat \<Rightarrow> nat option"
  read_result :: "string list \<Rightarrow> nat \<Rightarrow> nat"
  stamp_flush :: "string list \<Rightarrow> nat"
  zip_entries :: "string \<Rightarrow> zip_entry list option"

datatype mkdir_result = MkOk fsys | MkExist | MkFail

definition sys_mkdir :: "('m) os_env_scheme \<Rightarrow> fsys \<Rightarrow> string \<Rightarrow> mkdir_result" where
  "sys_mkdir env fs path =
    (case place fs [] (comps path) of
       None \<Rightarrow> MkFail
     | Some p \<Rightarrow>
         if node_at fs p \<noteq> None then MkExist
         else if may_mkdir env p then MkOk (fs(p \<mapsto> Dir))
         else MkFail)"

section \<open>Helpers of the extraction\<close>

text \<open>
  \<^verbatim>\<open>mkdir_p\<close>: the prefix of the path up to each slash and to its end is created; that something
  exists there already is fine.
\<close>

fun mkdir_segments :: "('m) os_env_scheme \<Rightarrow> fsys \<Rightarrow> string list \<Rightarrow> bool \<times> fsys" where
  "mkdir_segments env fs [] = (True, fs)"
| "mkdir_segments env fs (seg # segs) =
    (if seg = [] then mkdir_segments env fs segs
     else (case sys_mkdir env fs seg of
             MkOk fs' \<Rightarrow> mkdir_segments env fs' segs
           | MkExist \<Rightarrow> mkdir_segments env fs segs
           | MkFail \<Rightarrow> (False, fs)))"

definition path_segments :: "string \<Rightarrow> string list" where
  "path_segments path =
    map (\<lambda>i. take i path)
      (filter (\<lambda>i. i = length path \<or> path ! i = CHR ''/'') [1..<length path + 1])"

definition mkdir_p :: "('m) os_env_scheme \<Rightarrow> fsys \<Rightarrow> string \<Rightarrow> bool \<times> fsys" where
  "mkdir_p env fs path = mkdir_segments env fs (path_segments path)"

text \<open>\<^verbatim>\<open>read_file_bytes\<close>; the count of a call of \<^verbatim>\<open>read\<close> is at most what was asked for.\<close>

function read_loop :: "(nat \<Rightarrow> nat) \<Rightarrow> nat \<Rightarrow> nat \<Rightarrow> nat \<Rightarrow> bool" where
  "read_loop rd len off k =
    (if off < len
     then (if rd k = 0 then False else read_loop rd len (off + min (rd k) (len - off)) (k + 1))
     else True)"
  by pat_completeness auto

termination by (relation "measure (\<lambda>(rd, len, off, k). len - off)") auto

declare read_loop.simps [simp del]

definition read_file_bytes :: "('m) os_env_scheme \<Rightarrow> fsys \<Rightarrow> string \<Rightarrow> string option" where
  "read_file_bytes env fs path =
    (case place fs [] (comps path) of
       None \<Rightarrow> None
     | Some p \<Rightarrow>
         (case node_at fs p of
            Some (File content) \<Rightarrow>
              if may_read env p \<and> read_loop (read_result env p) (length content) 0 0
              then Some content else None
          | _ \<Rightarrow> None))"

text \<open>\<^verbatim>\<open>write_file\<close>: the result is whether it succeeded and how much was written.\<close>

partial_function (option) write_loop ::
  "(nat \<Rightarrow> nat option) \<Rightarrow> nat \<Rightarrow> nat \<Rightarrow> nat \<Rightarrow> (bool \<times> nat) option" where
  "write_loop wr len off k =
    (if off < len
     then (case wr k of
             None \<Rightarrow> Some (False, off)
           | Some n \<Rightarrow> write_loop wr len (off + min n (len - off)) (k + 1))
     else Some (True, off))"

declare write_loop.simps [code]

definition last_slash :: "string \<Rightarrow> nat option" where
  "last_slash s = (case filter (\<lambda>i. s ! i = CHR ''/'') [0..<length s] of [] \<Rightarrow> None | is \<Rightarrow> Some (last is))"

definition open_and_write ::
  "('m) os_env_scheme \<Rightarrow> fsys \<Rightarrow> string \<Rightarrow> string \<Rightarrow> (bool \<times> fsys) option" where
  "open_and_write env fs path data =
    (case place fs [] (comps path) of
       None \<Rightarrow> Some (False, fs)
     | Some p \<Rightarrow>
         if node_at fs p = Some Dir \<or> \<not> may_open env p then Some (False, fs)
         else (case write_loop (write_result env p) (length data) 0 0 of
                 None \<Rightarrow> None
               | Some (ok, n) \<Rightarrow> Some (ok, fs(p \<mapsto> File (take n data)))))"

definition write_file ::
  "('m) os_env_scheme \<Rightarrow> fsys \<Rightarrow> string \<Rightarrow> string \<Rightarrow> (bool \<times> fsys) option" where
  "write_file env fs path data =
    (case last_slash path of
       None \<Rightarrow> open_and_write env fs path data
     | Some slash \<Rightarrow>
         let (ok, fs') = mkdir_p env fs (take slash path)
         in if \<not> ok then Some (False, fs') else open_and_write env fs' path data)"

section \<open>The stamp\<close>

definition digit_char :: "nat \<Rightarrow> char" where
  "digit_char d = char_of (48 + d)"

fun decimal :: "nat \<Rightarrow> string" where
  "decimal n = (if n < 10 then [digit_char n] else decimal (n div 10) @ [digit_char (n mod 10)])"

declare decimal.simps [simp del]

definition is_digit_char :: "char \<Rightarrow> bool" where
  "is_digit_char c \<longleftrightarrow> 48 \<le> (of_char c :: nat) \<and> (of_char c :: nat) \<le> 57"

definition is_space_char :: "char \<Rightarrow> bool" where
  "is_space_char c \<longleftrightarrow> c = CHR '' '' \<or> (9 \<le> (of_char c :: nat) \<and> (of_char c :: nat) \<le> 13)"

definition digits_value :: "string \<Rightarrow> nat" where
  "digits_value = foldl (\<lambda>v c. 10 * v + (of_char c - 48)) 0"

text \<open>\<^verbatim>\<open>f >> v\<close> for a \<^verbatim>\<open>size_t\<close>: white space, an optional sign, digits; too large a number fails.\<close>

definition parse_size :: "string \<Rightarrow> nat option" where
  "parse_size s =
    (let s1 = dropWhile is_space_char s;
         neg = (s1 \<noteq> [] \<and> hd s1 = CHR ''-'');
         s2 = (if s1 \<noteq> [] \<and> (hd s1 = CHR ''-'' \<or> hd s1 = CHR ''+'') then tl s1 else s1);
         ds = takeWhile is_digit_char s2;
         n = digits_value ds
     in if ds = [] \<or> 2 ^ 64 \<le> n then None
        else Some (if neg then (2 ^ 64 - n) mod 2 ^ 64 else n))"

definition read_size_stamp :: "('m) os_env_scheme \<Rightarrow> fsys \<Rightarrow> string \<Rightarrow> nat option" where
  "read_size_stamp env fs dir =
    (case place fs [] (comps (dir @ ''/.size'')) of
       None \<Rightarrow> None
     | Some p \<Rightarrow>
         (case node_at fs p of
            Some (File content) \<Rightarrow> if may_read env p then parse_size content else None
          | _ \<Rightarrow> None))"

definition write_size_stamp :: "('m) os_env_scheme \<Rightarrow> fsys \<Rightarrow> string \<Rightarrow> nat \<Rightarrow> fsys" where
  "write_size_stamp env fs dir src_size =
    (case place fs [] (comps (dir @ ''/.size'')) of
       None \<Rightarrow> fs
     | Some p \<Rightarrow>
         if node_at fs p = Some Dir \<or> \<not> may_open env p then fs
         else fs(p \<mapsto> File (take (stamp_flush env p) (decimal src_size))))"

section \<open>The extraction\<close>

text \<open>\<^verbatim>\<open>name.find("..") != npos\<close>\<close>

fun has_dotdot :: "string \<Rightarrow> bool" where
  "has_dotdot (a # b # s) \<longleftrightarrow> (a = CHR ''.'' \<and> b = CHR ''.'') \<or> has_dotdot (b # s)"
| "has_dotdot _ \<longleftrightarrow> False"

definition suspicious :: "string \<Rightarrow> bool" where
  "suspicious name \<longleftrightarrow> has_dotdot name \<or> (name \<noteq> [] \<and> hd name = CHR ''/'')"

fun extract_entries ::
  "('m) os_env_scheme \<Rightarrow> string \<Rightarrow> fsys \<Rightarrow> zip_entry list \<Rightarrow> (bool \<times> fsys) option" where
  "extract_entries env dest fs [] = Some (True, fs)"
| "extract_entries env dest fs (z # zs) =
    (if \<not> ze_stat z then extract_entries env dest fs zs
     else if ze_dir z
     then extract_entries env dest (snd (mkdir_p env fs (dest @ ''/'' @ ze_name z))) zs
     else if suspicious (ze_name z) then extract_entries env dest fs zs
     else (case ze_data z of
             None \<Rightarrow> Some (False, fs)
           | Some data \<Rightarrow>
               (case write_file env fs (dest @ ''/'' @ ze_name z) data of
                  None \<Rightarrow> None
                | Some (ok, fs') \<Rightarrow>
                    if ok then extract_entries env dest fs' zs else Some (False, fs'))))"

definition extract_augins_zip ::
  "('m) os_env_scheme \<Rightarrow> fsys \<Rightarrow> string \<Rightarrow> string \<Rightarrow> string \<Rightarrow> (bool \<times> fsys \<times> string) option" where
  "extract_augins_zip env fs zip_path staging_subdir cache_root =
    (let dest = cache_root @ ''/'' @ staging_subdir
     in case read_file_bytes env fs zip_path of
          None \<Rightarrow> Some (False, fs, dest)
        | Some blob \<Rightarrow>
            if read_size_stamp env fs dest = Some (length blob) then Some (True, fs, dest)
            else (let (ok, fs1) = mkdir_p env fs dest
                  in if \<not> ok then Some (False, fs1, dest)
                     else (case zip_entries env blob of
                             None \<Rightarrow> Some (False, fs1, dest)
                           | Some entries \<Rightarrow>
                               (case extract_entries env dest fs1 entries of
                                  None \<Rightarrow> None
                                | Some (ok, fs2) \<Rightarrow>
                                    if \<not> ok then Some (False, fs2, dest)
                                    else Some (True, write_size_stamp env fs2 dest (length blob), dest)))))"

end
