(* ===== verification/Augins_Loader.thy ===== *)
theory Augins_Loader
  imports Complex_Main Augins_Extract "HOL-Library.List_Lexorder" "HOL-Library.Char_ord"
begin

text \<open>
  The module host of the service: the parser of a module's manifest (\<^verbatim>\<open>augins/manifest.cpp\<close>), the host
  interface (\<^verbatim>\<open>host_api.cpp\<close>), the registry of overridden functions (\<^verbatim>\<open>dispatch.cpp\<close>), the list of
  loaded modules with their hooks (\<^verbatim>\<open>lifecycle.cpp\<close>) and the loader that drives them
  (\<^verbatim>\<open>loader.cpp\<close>).

  The JSON parser, the dynamic linker, the listing of directories and the code of the modules are fields
  of \<open>mod_env\<close>. A library handle and the address of a symbol are numbers; \<open>open_libs\<close> holds a handle once for
  every \<^verbatim>\<open>dlopen\<close> that has not been undone. The pointers the registry borrows are indices into the list
  of permanent strings. \<open>trace\<close> records the calls of hooks and of \<^verbatim>\<open>dlclose\<close>.
\<close>

section \<open>Manifest\<close>

datatype cjson =
    CNull
  | CBool bool
  | CNumber rat
  | CString string
  | CArray "cjson list"
  | CObject "(string \<times> cjson) list"

definition INT_MAX :: int where
  "INT_MAX = 2147483647"

definition INT_MIN :: int where
  "INT_MIN = - 2147483648"

text \<open>\<^verbatim>\<open>valueint\<close>: the number cut off towards zero, within the range of \<^verbatim>\<open>int\<close>.\<close>

definition valueint :: "rat \<Rightarrow> int" where
  "valueint q =
    (if of_int INT_MAX \<le> q then INT_MAX
     else if q \<le> of_int INT_MIN then INT_MIN
     else if q < 0 then - \<lfloor>- q\<rfloor> else \<lfloor>q\<rfloor>)"

fun get_object_item :: "cjson \<Rightarrow> string \<Rightarrow> cjson option" where
  "get_object_item (CObject items) key = map_of items key"
| "get_object_item _ _ = None"

record manifest =
  manifest_version :: int
  m_id :: string
  m_version :: string
  implemented_functions :: "string list"
  m_name :: string
  m_description :: string
  m_priority :: int

definition AUG_MANIFEST_VERSION :: int where
  "AUG_MANIFEST_VERSION = 1"

fun string_items :: "cjson list \<Rightarrow> string list" where
  "string_items [] = []"
| "string_items (CString s # js) = s # string_items js"
| "string_items (_ # js) = string_items js"

definition optional_string :: "cjson \<Rightarrow> string \<Rightarrow> string \<Rightarrow> string" where
  "optional_string top_item key dflt =
    (case get_object_item top_item key of Some (CString s) \<Rightarrow> s | _ \<Rightarrow> dflt)"

definition manifest_of :: "cjson \<Rightarrow> manifest option" where
  "manifest_of top_item =
    (case get_object_item top_item ''Manifest_Version'' of
       Some (CNumber q) \<Rightarrow>
         if valueint q \<noteq> AUG_MANIFEST_VERSION then None
         else (case get_object_item top_item ''ID'' of
           Some (CString mid) \<Rightarrow>
             if mid = [] then None
             else (case get_object_item top_item ''Version'' of
               Some (CString ver) \<Rightarrow>
                 (case get_object_item top_item ''Implemented_Functions'' of
                    Some (CArray js) \<Rightarrow>
                      Some \<lparr>manifest_version = valueint q, m_id = mid, m_version = ver,
                        implemented_functions = string_items js,
                        m_name = optional_string top_item ''Name'' mid,
                        m_description = optional_string top_item ''Description'' [],
                        m_priority = (case get_object_item top_item ''Priority'' of
                                        Some (CNumber p) \<Rightarrow> valueint p | _ \<Rightarrow> 100)\<rparr>
                  | _ \<Rightarrow> None)
             | _ \<Rightarrow> None)
         | _ \<Rightarrow> None)
     | _ \<Rightarrow> None)"

record mod_env = os_env +
  json_parse :: "string \<Rightarrow> cjson option"
  list_dir :: "fsys \<Rightarrow> string \<Rightarrow> string list option"
  dlopen :: "fsys \<Rightarrow> string \<Rightarrow> nat option"
  dlsym :: "nat \<Rightarrow> string \<Rightarrow> nat option"
  call_on_load :: "nat \<Rightarrow> string \<Rightarrow> int"

text \<open>The text given to the parser ends at the first null character.\<close>

definition c_str :: "string \<Rightarrow> string" where
  "c_str s = takeWhile (\<lambda>c. c \<noteq> CHR 0x00) s"

definition manifest_parse_file :: "('m) mod_env_scheme \<Rightarrow> fsys \<Rightarrow> string \<Rightarrow> manifest option" where
  "manifest_parse_file env fs path =
    (case place fs [] (comps path) of
       None \<Rightarrow> None
     | Some p \<Rightarrow>
         (case node_at fs p of
            Some (File content) \<Rightarrow>
              if \<not> may_read env p then None
              else (case json_parse env (c_str content) of
                      None \<Rightarrow> None
                    | Some top_item \<Rightarrow> manifest_of top_item)
          | _ \<Rightarrow> None))"

section \<open>State\<close>

record internal_entry =
  e_fn :: nat
  e_module_id :: nat
  e_data_dir :: nat
  e_priority :: int

type_synonym registry = "string \<Rightarrow> internal_entry list option"

record loaded_module =
  lm_handle :: nat
  lm_module_id :: string
  lm_data_dir :: string
  lm_on_load :: "nat option"
  lm_on_unload :: "nat option"

datatype mod_event = OnLoad nat string | OnUnload nat string | DlClose nat

record loader_state =
  g_initialised :: bool
  g_map :: registry
  g_loaded :: "loaded_module list"
  g_perm_strings :: "string list"
  g_jvm :: "nat option"
  g_ctx :: "nat option"
  tls_data_dir_stack :: "string list"
  ld_fs :: fsys
  open_libs :: "nat list"
  trace :: "mod_event list"

section \<open>Host interface\<close>

text \<open>The back of the vector is the head of the list.\<close>

definition augins_host_api_push_data_dir :: "string option \<Rightarrow> string list \<Rightarrow> string list" where
  "augins_host_api_push_data_dir path st = (case path of None \<Rightarrow> [] | Some p \<Rightarrow> p) # st"

definition augins_host_api_pop_data_dir :: "string list \<Rightarrow> string list" where
  "augins_host_api_pop_data_dir st = (if st \<noteq> [] then tl st else st)"

definition get_module_data_dir_impl :: "string list \<Rightarrow> string" where
  "get_module_data_dir_impl st = (if st = [] then [] else hd st)"

definition augins_host_api_set_jvm_ctx :: "nat option \<Rightarrow> nat option \<Rightarrow> loader_state \<Rightarrow> loader_state" where
  "augins_host_api_set_jvm_ctx jvm ctx s = s\<lparr>g_jvm := jvm, g_ctx := ctx\<rparr>"

datatype android_priority =
    ANDROID_LOG_VERBOSE | ANDROID_LOG_DEBUG | ANDROID_LOG_INFO | ANDROID_LOG_WARN | ANDROID_LOG_ERROR

definition to_android_priority :: "int \<Rightarrow> android_priority" where
  "to_android_priority aug_level =
    (if aug_level = 0 then ANDROID_LOG_VERBOSE
     else if aug_level = 1 then ANDROID_LOG_DEBUG
     else if aug_level = 2 then ANDROID_LOG_INFO
     else if aug_level = 3 then ANDROID_LOG_WARN
     else if aug_level = 4 then ANDROID_LOG_ERROR
     else ANDROID_LOG_INFO)"

section \<open>Registry\<close>

definition aug_has_modules_for :: "registry \<Rightarrow> string option \<Rightarrow> bool" where
  "aug_has_modules_for reg xr_name =
    (case xr_name of
       None \<Rightarrow> False
     | Some name \<Rightarrow> (case reg name of None \<Rightarrow> False | Some v \<Rightarrow> v \<noteq> []))"

text \<open>The count and the entries written; capacity \<open>0\<close> stands for a missing buffer as well.\<close>

definition aug_get_modules_for :: "registry \<Rightarrow> string option \<Rightarrow> nat \<Rightarrow> nat \<times> internal_entry list" where
  "aug_get_modules_for reg xr_name out_capacity =
    (case xr_name of
       None \<Rightarrow> (0, [])
     | Some name \<Rightarrow>
         (case reg name of
            None \<Rightarrow> (0, [])
          | Some v \<Rightarrow>
              if out_capacity = 0 then (length v, [])
              else (let n = min (length v) out_capacity in (n, take n v))))"

definition aug_dispatch_register ::
  "string option \<Rightarrow> nat option \<Rightarrow> nat \<Rightarrow> nat \<Rightarrow> int \<Rightarrow> registry \<Rightarrow> registry" where
  "aug_dispatch_register xr_name fn module_id data_dir priority reg =
    (case (xr_name, fn) of
       (Some name, Some f) \<Rightarrow>
         reg(name \<mapsto> (case reg name of None \<Rightarrow> [] | Some v \<Rightarrow> v) @
           [\<lparr>e_fn = f, e_module_id = module_id, e_data_dir = data_dir, e_priority = priority\<rparr>])
     | _ \<Rightarrow> reg)"

definition aug_dispatch_sort_by_priority :: "registry \<Rightarrow> registry" where
  "aug_dispatch_sort_by_priority reg = (\<lambda>name. map_option (sort_key e_priority) (reg name))"

definition aug_dispatch_clear :: "registry \<Rightarrow> registry" where
  "aug_dispatch_clear reg = Map.empty"

section \<open>Lifecycle\<close>

definition augins_lifecycle_register_module ::
  "nat \<Rightarrow> string \<Rightarrow> string \<Rightarrow> nat option \<Rightarrow> nat option \<Rightarrow> loader_state \<Rightarrow> loader_state" where
  "augins_lifecycle_register_module handle module_id data_dir on_load on_unload s =
    s\<lparr>g_loaded := g_loaded s @
        [\<lparr>lm_handle = handle, lm_module_id = module_id, lm_data_dir = data_dir,
          lm_on_load = on_load, lm_on_unload = on_unload\<rparr>]\<rparr>"

fun fire_load_loop ::
  "('m) mod_env_scheme \<Rightarrow> loaded_module list \<Rightarrow> int \<Rightarrow> loader_state \<Rightarrow> int \<times> loader_state" where
  "fire_load_loop env [] rejected s = (rejected, s)"
| "fire_load_loop env (m # ms) rejected s =
    (case lm_on_load m of
       None \<Rightarrow> fire_load_loop env ms rejected s
     | Some hook \<Rightarrow>
         let st = augins_host_api_push_data_dir (Some (lm_data_dir m)) (tls_data_dir_stack s);
             rc = call_on_load env hook (get_module_data_dir_impl st);
             s' = s\<lparr>trace := trace s @ [OnLoad hook (get_module_data_dir_impl st)],
                    tls_data_dir_stack := augins_host_api_pop_data_dir st\<rparr>
         in fire_load_loop env ms (if rc \<noteq> 0 then rejected + 1 else rejected) s')"

definition augins_lifecycle_fire_load :: "('m) mod_env_scheme \<Rightarrow> loader_state \<Rightarrow> int \<times> loader_state" where
  "augins_lifecycle_fire_load env s = fire_load_loop env (g_loaded s) 0 s"

fun fire_unload_loop :: "loaded_module list \<Rightarrow> loader_state \<Rightarrow> loader_state" where
  "fire_unload_loop [] s = s"
| "fire_unload_loop (m # ms) s =
    (case lm_on_unload m of
       None \<Rightarrow> fire_unload_loop ms s
     | Some hook \<Rightarrow>
         let st = augins_host_api_push_data_dir (Some (lm_data_dir m)) (tls_data_dir_stack s)
         in fire_unload_loop ms
              (s\<lparr>trace := trace s @ [OnUnload hook (get_module_data_dir_impl st)],
                 tls_data_dir_stack := augins_host_api_pop_data_dir st\<rparr>))"

definition augins_lifecycle_fire_unload :: "loader_state \<Rightarrow> loader_state" where
  "augins_lifecycle_fire_unload s = fire_unload_loop (rev (g_loaded s)) s"

fun dlclose_loop :: "loaded_module list \<Rightarrow> loader_state \<Rightarrow> loader_state" where
  "dlclose_loop [] s = s"
| "dlclose_loop (m # ms) s =
    dlclose_loop ms
      (s\<lparr>open_libs := remove1 (lm_handle m) (open_libs s), trace := trace s @ [DlClose (lm_handle m)]\<rparr>)"

definition augins_lifecycle_dlclose_all :: "loader_state \<Rightarrow> loader_state" where
  "augins_lifecycle_dlclose_all s = (dlclose_loop (rev (g_loaded s)) s)\<lparr>g_loaded := []\<rparr>"

definition augins_lifecycle_module_count :: "loader_state \<Rightarrow> nat" where
  "augins_lifecycle_module_count s = length (g_loaded s)"

section \<open>Loader\<close>

definition ends_with :: "string \<Rightarrow> string \<Rightarrow> bool" where
  "ends_with name sfx \<longleftrightarrow>
    length sfx \<le> length name \<and> drop (length name - length sfx) name = sfx"

definition list_augins_files :: "('m) mod_env_scheme \<Rightarrow> fsys \<Rightarrow> string \<Rightarrow> string list" where
  "list_augins_files env fs dir_path =
    (case list_dir env fs dir_path of
       None \<Rightarrow> []
     | Some names \<Rightarrow>
         sort (map (\<lambda>name. dir_path @ ''/'' @ name)
           (filter (\<lambda>name. length ''.augins'' < length name \<and> ends_with name ''.augins'') names)))"

fun preload_loop ::
  "('m) mod_env_scheme \<Rightarrow> string \<Rightarrow> string \<Rightarrow> string list \<Rightarrow> loader_state \<Rightarrow> loader_state" where
  "preload_loop env dir main_so [] s = s"
| "preload_loop env dir main_so (fname # names) s =
    (if length fname < 3 \<or> \<not> ends_with fname ''.so'' \<or> fname = main_so
     then preload_loop env dir main_so names s
     else (case dlopen env (ld_fs s) (dir @ ''/'' @ fname) of
             None \<Rightarrow> preload_loop env dir main_so names s
           | Some dh \<Rightarrow> preload_loop env dir main_so names (s\<lparr>open_libs := dh # open_libs s\<rparr>)))"

definition preload_siblings ::
  "('m) mod_env_scheme \<Rightarrow> string \<Rightarrow> string \<Rightarrow> loader_state \<Rightarrow> loader_state" where
  "preload_siblings env extract_dir main_so_basename s =
    (case list_dir env (ld_fs s) extract_dir of
       None \<Rightarrow> s
     | Some names \<Rightarrow> preload_loop env extract_dir main_so_basename names s)"

fun register_functions ::
  "('m) mod_env_scheme \<Rightarrow> nat \<Rightarrow> nat \<Rightarrow> nat \<Rightarrow> int \<Rightarrow> string list \<Rightarrow> registry \<Rightarrow> registry" where
  "register_functions env handle id_perm dir_perm prio [] reg = reg"
| "register_functions env handle id_perm dir_perm prio (name # names) reg =
    (case dlsym env handle name of
       None \<Rightarrow> register_functions env handle id_perm dir_perm prio names reg
     | Some fn \<Rightarrow> register_functions env handle id_perm dir_perm prio names
                     (aug_dispatch_register (Some name) (Some fn) id_perm dir_perm prio reg))"

definition file_name :: "string \<Rightarrow> string" where
  "file_name path = (case last_slash path of None \<Rightarrow> path | Some i \<Rightarrow> drop (i + 1) path)"

definition load_one ::
  "('m) mod_env_scheme \<Rightarrow> string \<Rightarrow> string \<Rightarrow> loader_state \<Rightarrow> (bool \<times> loader_state) option" where
  "load_one env augins_path cache_root s =
    (let staging_subdir = ''_staged/'' @ file_name augins_path
     in case extract_augins_zip env (ld_fs s) augins_path staging_subdir cache_root of
          None \<Rightarrow> None
        | Some (extracted, fs1, extract_dir) \<Rightarrow>
            let s1 = s\<lparr>ld_fs := fs1\<rparr>
            in if \<not> extracted then Some (False, s1)
               else (case manifest_parse_file env fs1 (extract_dir @ ''/metadata.json'') of
                       None \<Rightarrow> Some (False, s1)
                     | Some m \<Rightarrow>
                         let main_so_basename = m_id m @ ''.so'';
                             s2 = preload_siblings env extract_dir main_so_basename s1
                         in (case dlopen env (ld_fs s2) (extract_dir @ ''/'' @ main_so_basename) of
                               None \<Rightarrow> Some (False, s2)
                             | Some handle \<Rightarrow>
                                 let s3 = augins_lifecycle_register_module handle (m_id m) extract_dir
                                            (dlsym env handle ''aug_on_module_load'')
                                            (dlsym env handle ''aug_on_module_unload'')
                                            (s2\<lparr>open_libs := handle # open_libs s2\<rparr>);
                                     id_perm = length (g_perm_strings s3);
                                     dir_perm = id_perm + 1
                                 in Some (True,
                                      s3\<lparr>g_perm_strings := g_perm_strings s3 @ [m_id m, extract_dir],
                                         g_map := register_functions env handle id_perm dir_perm (m_priority m)
                                           (implemented_functions m) (g_map s3)\<rparr>))))"

fun load_files :: "('m) mod_env_scheme \<Rightarrow> string \<Rightarrow> string list \<Rightarrow> loader_state \<Rightarrow> loader_state option" where
  "load_files env cache_dir [] s = Some s"
| "load_files env cache_dir (p # ps) s =
    (case load_one env p cache_dir s of
       None \<Rightarrow> None
     | Some (_, s') \<Rightarrow> load_files env cache_dir ps s')"

definition augins_loader_init ::
  "('m) mod_env_scheme \<Rightarrow> string option \<Rightarrow> string option \<Rightarrow> loader_state \<Rightarrow> loader_state option" where
  "augins_loader_init env modules_dir cache_dir s =
    (if g_initialised s then Some s
     else (let s0 = s\<lparr>g_initialised := True\<rparr>
           in if modules_dir = None \<or> modules_dir = Some [] \<or> cache_dir = None \<or> cache_dir = Some []
              then Some s0
              else (case load_files env (the cache_dir)
                           (list_augins_files env (ld_fs s0) (the modules_dir)) s0 of
                      None \<Rightarrow> None
                    | Some s1 \<Rightarrow>
                        Some (snd (augins_lifecycle_fire_load env
                          (s1\<lparr>g_map := aug_dispatch_sort_by_priority (g_map s1)\<rparr>))))))"

definition augins_loader_shutdown :: "loader_state \<Rightarrow> loader_state" where
  "augins_loader_shutdown s =
    (if \<not> g_initialised s then s
     else (let s1 = augins_lifecycle_fire_unload (s\<lparr>g_initialised := False\<rparr>)
           in augins_lifecycle_dlclose_all (s1\<lparr>g_map := aug_dispatch_clear (g_map s1)\<rparr>)))"

definition initial_loader :: "fsys \<Rightarrow> loader_state" where
  "initial_loader fs =
    \<lparr>g_initialised = False, g_map = Map.empty, g_loaded = [], g_perm_strings = [], g_jvm = None,
     g_ctx = None, tls_data_dir_stack = [], ld_fs = fs, open_libs = [], trace = []\<rparr>"

end
