(* ===== verification/Augins_Adapter.thy ===== *)
theory Augins_Adapter
  imports Augins_Loader "HOL-Library.Word"
begin

unbundle bit_operations_syntax

text \<open>
  The calls of the service that modules may override: the default handlers of
  \<^verbatim>\<open>ipc/server/ipc_server_handler.c\<close> with the object tables of \<^verbatim>\<open>ipc_server_objects.c\<close>, the adapters
  of \<^verbatim>\<open>augins/adapters.cpp\<close>, the fork that the generator \<^verbatim>\<open>ipc/shared/proto.py\<close> emits between the two, and
  the start and stop of the service (\<^verbatim>\<open>targets/service-lib/service_target.cpp\<close>).

  Poses are copied and never computed with, so their numbers are a type parameter; the result of a module is
  the integer of its \<^verbatim>\<open>XrResult\<close>. What the space overseer computes and the code of the modules are
  functions of \<open>call_env\<close>; a module is given the data directory it would read from the host interface.
\<close>

section \<open>Relations and locations\<close>

record 'f space_relation =
  relation_flags :: "32 word"
  r_position :: "'f \<times> 'f \<times> 'f"
  r_orientation :: "'f \<times> 'f \<times> 'f \<times> 'f"
  linear_velocity :: "'f \<times> 'f \<times> 'f"
  angular_velocity :: "'f \<times> 'f \<times> 'f"

record 'f space_location =
  locationFlags :: "64 word"
  l_position :: "'f \<times> 'f \<times> 'f"
  l_orientation :: "'f \<times> 'f \<times> 'f \<times> 'f"

definition XRT_ORIENTATION_VALID :: "32 word" where "XRT_ORIENTATION_VALID = 1"
definition XRT_POSITION_VALID :: "32 word" where "XRT_POSITION_VALID = 2"
definition XRT_ORIENTATION_TRACKED :: "32 word" where "XRT_ORIENTATION_TRACKED = 16"
definition XRT_POSITION_TRACKED :: "32 word" where "XRT_POSITION_TRACKED = 32"
definition XR_ORIENTATION_VALID :: "64 word" where "XR_ORIENTATION_VALID = 1"
definition XR_POSITION_VALID :: "64 word" where "XR_POSITION_VALID = 2"
definition XR_ORIENTATION_TRACKED :: "64 word" where "XR_ORIENTATION_TRACKED = 4"
definition XR_POSITION_TRACKED :: "64 word" where "XR_POSITION_TRACKED = 8"

definition xrt_relation_to_xr_loc_flags :: "32 word \<Rightarrow> 64 word" where
  "xrt_relation_to_xr_loc_flags rf =
    (if rf AND XRT_ORIENTATION_VALID \<noteq> 0 then XR_ORIENTATION_VALID else 0) OR
    (if rf AND XRT_POSITION_VALID \<noteq> 0 then XR_POSITION_VALID else 0) OR
    (if rf AND XRT_ORIENTATION_TRACKED \<noteq> 0 then XR_ORIENTATION_TRACKED else 0) OR
    (if rf AND XRT_POSITION_TRACKED \<noteq> 0 then XR_POSITION_TRACKED else 0)"

definition xr_loc_flags_to_xrt_relation :: "64 word \<Rightarrow> 32 word" where
  "xr_loc_flags_to_xrt_relation lf =
    (if lf AND XR_ORIENTATION_VALID \<noteq> 0 then XRT_ORIENTATION_VALID else 0) OR
    (if lf AND XR_POSITION_VALID \<noteq> 0 then XRT_POSITION_VALID else 0) OR
    (if lf AND XR_ORIENTATION_TRACKED \<noteq> 0 then XRT_ORIENTATION_TRACKED else 0) OR
    (if lf AND XR_POSITION_TRACKED \<noteq> 0 then XRT_POSITION_TRACKED else 0)"

definition xr_result_to_xrt :: "int \<Rightarrow> xrt_result" where
  "xr_result_to_xrt xr = (if xr = 0 then XRT_SUCCESS else XRT_ERROR_IPC_FAILURE)"

section \<open>Default handlers\<close>

definition XRT_SYSTEM_MAX_DEVICES :: nat where
  "XRT_SYSTEM_MAX_DEVICES = 32"

definition IPC_MAX_CLIENT_SPACES :: int where
  "IPC_MAX_CLIENT_SPACES = 128"

text \<open>\<open>xsysd_head\<close> is \<open>None\<close> when the service has no devices, else its head device, which may be missing.\<close>

record client_objects =
  ics_xspcs :: "addr option list"
  ics_xdevs :: "addr option list"
  xsysd_head :: "addr option option"

definition validate_space_id :: "client_objects \<Rightarrow> int \<Rightarrow> fault + (xrt_result + addr)" where
  "validate_space_id ics space_id =
    (if space_id < 0 then Inr (Inl XRT_ERROR_IPC_FAILURE)
     else if IPC_MAX_CLIENT_SPACES \<le> space_id then Inr (Inl XRT_ERROR_IPC_FAILURE)
     else try_bind (arr_get (ics_xspcs ics) (nat space_id)) (\<lambda>x.
       case x of None \<Rightarrow> Inr (Inl XRT_ERROR_IPC_FAILURE) | Some xspc \<Rightarrow> Inr (Inr xspc)))"

definition ipc_server_objects_get_xdev_and_validate ::
  "client_objects \<Rightarrow> 32 word \<Rightarrow> fault + (xrt_result + addr)" where
  "ipc_server_objects_get_xdev_and_validate ics xid =
    (if XRT_SYSTEM_MAX_DEVICES \<le> unat xid then Inr (Inl XRT_ERROR_IPC_FAILURE)
     else try_bind (arr_get (ics_xdevs ics) (unat xid)) (\<lambda>x.
       case x of None \<Rightarrow> Inr (Inl XRT_ERROR_IPC_FAILURE) | Some xdev \<Rightarrow> Inr (Inr xdev)))"

definition ipc_server_xdev_is_head_role :: "client_objects \<Rightarrow> 32 word \<Rightarrow> fault + bool" where
  "ipc_server_xdev_is_head_role ics xid =
    (case xsysd_head ics of
       None \<Rightarrow> Inr False
     | Some head \<Rightarrow>
         if XRT_SYSTEM_MAX_DEVICES \<le> unat xid then Inr False
         else try_bind (arr_get (ics_xdevs ics) (unat xid)) (\<lambda>x.
           case x of None \<Rightarrow> Inr False | Some xdev \<Rightarrow> Inr (head = Some xdev)))"

record ('f, 'p) call_env =
  xso_locate_space :: "addr \<Rightarrow> 'p \<Rightarrow> int \<Rightarrow> addr \<Rightarrow> 'p \<Rightarrow> 'f space_relation \<Rightarrow> xrt_result \<times> 'f space_relation"
  xso_locate_device :: "addr \<Rightarrow> 'p \<Rightarrow> int \<Rightarrow> addr \<Rightarrow> 'f space_relation \<Rightarrow> xrt_result \<times> 'f space_relation"
  mod_xrLocateSpace :: "nat \<Rightarrow> string \<Rightarrow> 64 word \<Rightarrow> 64 word \<Rightarrow> int \<Rightarrow> 'f space_location \<Rightarrow> int \<times> 'f space_location"
  mod_LocateDeviceInSpace :: "nat \<Rightarrow> string \<Rightarrow> 64 word \<Rightarrow> int \<Rightarrow> 'f space_location \<Rightarrow> int \<times> 'f space_location"

definition ipc_handle_space_locate_space ::
  "('f, 'p) call_env \<Rightarrow> client_objects \<Rightarrow> 32 word \<Rightarrow> 'p \<Rightarrow> int \<Rightarrow> 32 word \<Rightarrow> 'p \<Rightarrow> 'f space_relation \<Rightarrow>
    fault + (xrt_result \<times> 'f space_relation)" where
  "ipc_handle_space_locate_space cenv ics base_space_id base_offset at_timestamp space_id offset out_relation =
    try_bind (validate_space_id ics (uint base_space_id)) (\<lambda>b.
      case b of
        Inl xret \<Rightarrow> Inr (xret, out_relation)
      | Inr base_space \<Rightarrow>
          try_bind (validate_space_id ics (uint space_id)) (\<lambda>sp.
            case sp of
              Inl xret \<Rightarrow> Inr (xret, out_relation)
            | Inr space \<Rightarrow>
                Inr (xso_locate_space cenv base_space base_offset at_timestamp space offset out_relation)))"

definition ipc_handle_space_locate_device ::
  "('f, 'p) call_env \<Rightarrow> client_objects \<Rightarrow> 32 word \<Rightarrow> 'p \<Rightarrow> int \<Rightarrow> 32 word \<Rightarrow> 'f space_relation \<Rightarrow>
    fault + (xrt_result \<times> 'f space_relation)" where
  "ipc_handle_space_locate_device cenv ics base_space_id base_offset at_timestamp xdev_id out_relation =
    try_bind (validate_space_id ics (uint base_space_id)) (\<lambda>b.
      case b of
        Inl xret \<Rightarrow> Inr (xret, out_relation)
      | Inr base_space \<Rightarrow>
          try_bind (ipc_server_objects_get_xdev_and_validate ics xdev_id) (\<lambda>d.
            case d of
              Inl xret \<Rightarrow> Inr (xret, out_relation)
            | Inr xdev \<Rightarrow>
                Inr (xso_locate_device cenv base_space base_offset at_timestamp xdev out_relation)))"

section \<open>Adapters\<close>

definition location_of :: "'f space_relation \<Rightarrow> 'f space_location" where
  "location_of r =
    \<lparr>locationFlags = xrt_relation_to_xr_loc_flags (relation_flags r),
     l_position = r_position r, l_orientation = r_orientation r\<rparr>"

definition pack_location :: "'f::zero space_location \<Rightarrow> 'f space_relation \<Rightarrow> 'f space_relation" where
  "pack_location loc r =
    r\<lparr>relation_flags := xr_loc_flags_to_xrt_relation (locationFlags loc),
      r_position := l_position loc, r_orientation := l_orientation loc,
      linear_velocity := (0, 0, 0), angular_velocity := (0, 0, 0)\<rparr>"

definition kMaxChain :: nat where
  "kMaxChain = 16"

text \<open>The loop over the chain, with the stack of data directories of the calling thread.\<close>

fun run_chain ::
  "(nat \<Rightarrow> string \<Rightarrow> 'l \<Rightarrow> int \<times> 'l) \<Rightarrow> string list \<Rightarrow> internal_entry list \<Rightarrow> string list \<Rightarrow> 'l \<Rightarrow>
    fault + (int \<times> 'l \<times> string list)" where
  "run_chain call strings [] st loc = Inr (0, loc, st)"
| "run_chain call strings (e # es) st loc =
    try_bind (arr_get strings (e_data_dir e)) (\<lambda>dir.
      let pushed = augins_host_api_push_data_dir (Some dir) st;
          (xr, loc') = call (e_fn e) (get_module_data_dir_impl pushed) loc;
          popped = augins_host_api_pop_data_dir pushed
      in if xr \<noteq> 0 then Inr (xr, loc', popped) else run_chain call strings es popped loc')"

definition aug_adapter_space_locate_space ::
  "('f::zero, 'p) call_env \<Rightarrow> loader_state \<Rightarrow> client_objects \<Rightarrow> 32 word \<Rightarrow> 'p \<Rightarrow> int \<Rightarrow> 32 word \<Rightarrow> 'p \<Rightarrow>
    'f space_relation \<Rightarrow> fault + (xrt_result \<times> 'f space_relation)" where
  "aug_adapter_space_locate_space cenv s ics base_space_id base_offset at_timestamp space_id offset out_relation =
    try_bind (ipc_handle_space_locate_space cenv ics base_space_id base_offset at_timestamp space_id offset
        out_relation) (\<lambda>(r, rel).
      if r \<noteq> XRT_SUCCESS then Inr (r, rel)
      else
        let (n, chain) = aug_get_modules_for (g_map s) (Some ''xrLocateSpace'') kMaxChain in
        try_bind (run_chain
            (\<lambda>fn dir loc. mod_xrLocateSpace cenv fn dir (ucast space_id) (ucast base_space_id) at_timestamp loc)
            (g_perm_strings s) (take n chain) [] (location_of rel)) (\<lambda>(xr, loc, st).
          if xr \<noteq> 0 then Inr (xr_result_to_xrt xr, rel)
          else Inr (XRT_SUCCESS, pack_location loc rel)))"

definition aug_adapter_space_locate_device ::
  "('f::zero, 'p) call_env \<Rightarrow> loader_state \<Rightarrow> client_objects \<Rightarrow> 32 word \<Rightarrow> 'p \<Rightarrow> int \<Rightarrow> 32 word \<Rightarrow>
    'f space_relation \<Rightarrow> fault + (xrt_result \<times> 'f space_relation)" where
  "aug_adapter_space_locate_device cenv s ics base_space_id base_offset at_timestamp xdev_id out_relation =
    try_bind (ipc_handle_space_locate_device cenv ics base_space_id base_offset at_timestamp xdev_id
        out_relation) (\<lambda>(r, rel).
      if r \<noteq> XRT_SUCCESS then Inr (r, rel)
      else try_bind (ipc_server_xdev_is_head_role ics xdev_id) (\<lambda>is_head.
        if \<not> is_head then Inr (XRT_SUCCESS, rel)
        else
          let (n, chain) = aug_get_modules_for (g_map s) (Some ''aug_LocateDeviceInSpace'') kMaxChain in
          try_bind (run_chain
              (\<lambda>fn dir loc. mod_LocateDeviceInSpace cenv fn dir (ucast base_space_id) at_timestamp loc)
              (g_perm_strings s) (take n chain) [] (location_of rel)) (\<lambda>(xr, loc, st).
            if xr \<noteq> 0 then Inr (xr_result_to_xrt xr, rel)
            else Inr (XRT_SUCCESS, pack_location loc rel))))"

text \<open>The fork in the generated dispatcher.\<close>

definition dispatch_space_locate_space ::
  "('f::zero, 'p) call_env \<Rightarrow> loader_state \<Rightarrow> client_objects \<Rightarrow> 32 word \<Rightarrow> 'p \<Rightarrow> int \<Rightarrow> 32 word \<Rightarrow> 'p \<Rightarrow>
    'f space_relation \<Rightarrow> fault + (xrt_result \<times> 'f space_relation)" where
  "dispatch_space_locate_space cenv s ics base_space_id base_offset at_timestamp space_id offset out_relation =
    (if aug_has_modules_for (g_map s) (Some ''xrLocateSpace'')
     then aug_adapter_space_locate_space cenv s ics base_space_id base_offset at_timestamp space_id offset out_relation
     else ipc_handle_space_locate_space cenv ics base_space_id base_offset at_timestamp space_id offset out_relation)"

definition dispatch_space_locate_device ::
  "('f::zero, 'p) call_env \<Rightarrow> loader_state \<Rightarrow> client_objects \<Rightarrow> 32 word \<Rightarrow> 'p \<Rightarrow> int \<Rightarrow> 32 word \<Rightarrow>
    'f space_relation \<Rightarrow> fault + (xrt_result \<times> 'f space_relation)" where
  "dispatch_space_locate_device cenv s ics base_space_id base_offset at_timestamp xdev_id out_relation =
    (if aug_has_modules_for (g_map s) (Some ''aug_LocateDeviceInSpace'')
     then aug_adapter_space_locate_device cenv s ics base_space_id base_offset at_timestamp xdev_id out_relation
     else ipc_handle_space_locate_device cenv ics base_space_id base_offset at_timestamp xdev_id out_relation)"

end
