(* ===== verification/Augins_Service.thy ===== *)
theory Augins_Service
  imports Augins_Adapter
begin

text \<open>
  Start and stop of the service that owns the modules, \<^verbatim>\<open>targets/service-lib/service_target.cpp\<close>,
  and the threads that serve its clients. A client thread takes a copy of the chain of a function and
  calls the modules in it one by one. The switch \<open>waits\<close> of the step relation says whether the stop waits for
  client threads that are inside a chain; the code does not.
\<close>

record service =
  sv_server :: bool
  sv_thread :: bool
  sv_modules_dir :: "string option"
  sv_cache_dir :: "string option"
  sv_loader :: loader_state
  sv_clients :: "nat \<Rightarrow> internal_entry list"

text \<open>\<^verbatim>\<open>android_globals\<close>: a missing path keeps the old one, an empty one reads back as missing.\<close>

definition store_augins_paths :: "string option \<Rightarrow> string option \<Rightarrow> service \<Rightarrow> service" where
  "store_augins_paths modules_dir cache_dir s =
    s\<lparr>sv_modules_dir := (case modules_dir of None \<Rightarrow> sv_modules_dir s
                           | Some d \<Rightarrow> if d = [] then None else Some d),
      sv_cache_dir := (case cache_dir of None \<Rightarrow> sv_cache_dir s
                         | Some d \<Rightarrow> if d = [] then None else Some d)\<rparr>"

definition startServer :: "('m) mod_env_scheme \<Rightarrow> service \<Rightarrow> service option" where
  "startServer env s =
    (if \<not> sv_server s \<and> \<not> sv_thread s
     then (case augins_loader_init env (sv_modules_dir s) (sv_cache_dir s) (sv_loader s) of
             None \<Rightarrow> None
           | Some l \<Rightarrow> Some (s\<lparr>sv_loader := l, sv_thread := True\<rparr>))
     else Some s)"

definition signalStartupComplete :: "bool \<Rightarrow> service \<Rightarrow> service" where
  "signalStartupComplete started s = s\<lparr>sv_server := started\<rparr>"

definition nativeStartServer ::
  "('m) mod_env_scheme \<Rightarrow> nat option \<Rightarrow> nat option \<Rightarrow> service \<Rightarrow> service option" where
  "nativeStartServer env jvm ctx s =
    startServer env (s\<lparr>sv_loader := augins_host_api_set_jvm_ctx jvm ctx (sv_loader s)\<rparr>)"

definition shutdownServer :: "service \<Rightarrow> int \<times> service" where
  "shutdownServer s =
    (if \<not> sv_server s \<or> \<not> sv_thread s then (- 1, s)
     else (0, s\<lparr>sv_thread := False, sv_server := False\<rparr>))"

definition nativeShutdownServer :: "service \<Rightarrow> int \<times> service" where
  "nativeShutdownServer s =
    (let (ret, s') = shutdownServer s
     in (ret, s'\<lparr>sv_loader := augins_loader_shutdown (sv_loader s')\<rparr>))"

text \<open>Code of a module is mapped while some open library has a symbol there.\<close>

definition mapped :: "('m) mod_env_scheme \<Rightarrow> loader_state \<Rightarrow> nat \<Rightarrow> bool" where
  "mapped env l fn \<longleftrightarrow> (\<exists>h \<in> set (open_libs l). \<exists>name. dlsym env h name = Some fn)"

inductive svc_step :: "('m) mod_env_scheme \<Rightarrow> bool \<Rightarrow> service \<Rightarrow> service \<Rightarrow> bool"
  for env :: "('m) mod_env_scheme" and waits :: bool where
  start: "nativeStartServer env jvm ctx s = Some s' \<Longrightarrow> svc_step env waits s s'"
| started: "sv_thread s \<Longrightarrow> svc_step env waits s (signalStartupComplete b s)"
| enter: "sv_server s \<Longrightarrow> sv_clients s i = [] \<Longrightarrow>
    svc_step env waits s (s\<lparr>sv_clients := (sv_clients s)
      (i := snd (aug_get_modules_for (g_map (sv_loader s)) (Some name) kMaxChain))\<rparr>)"
| call: "sv_clients s i = e # es \<Longrightarrow> rest = es \<or> rest = [] \<Longrightarrow>
    svc_step env waits s (s\<lparr>sv_clients := (sv_clients s)(i := rest)\<rparr>)"
| stop: "waits \<longrightarrow> (\<forall>i. sv_clients s i = []) \<Longrightarrow> svc_step env waits s (snd (nativeShutdownServer s))"

inductive svc_reach :: "('m) mod_env_scheme \<Rightarrow> bool \<Rightarrow> service \<Rightarrow> service \<Rightarrow> bool"
  for env :: "('m) mod_env_scheme" and waits :: bool where
  refl: "svc_reach env waits s s"
| step: "svc_reach env waits s s' \<Longrightarrow> svc_step env waits s' s'' \<Longrightarrow> svc_reach env waits s s''"

definition new_service :: "fsys \<Rightarrow> string option \<Rightarrow> string option \<Rightarrow> service" where
  "new_service fs modules_dir cache_dir =
    \<lparr>sv_server = False, sv_thread = False, sv_modules_dir = modules_dir, sv_cache_dir = cache_dir,
     sv_loader = initial_loader fs, sv_clients = (\<lambda>_. [])\<rparr>"

end
