(* ===== verification/Augins_Package.thy ===== *)
theory Augins_Package
  imports Augins_Extract "HOL-Library.Code_Target_Nat"
begin

text \<open>
  What the extraction of a package does to the file system: its files stay below the staging
  directory, nothing that exists is removed, an accepted package is unpacked completely and the next start
  finds it in the cache. Then the gaps: entries for directories are not checked, and the stamp compares
  nothing but a size.
\<close>

section \<open>Paths\<close>

lemma split_path_not_Nil [simp]: "split_path s \<noteq> []"
  by (induction s) (auto split: list.splits)

lemma split_path_slash: "split_path (a @ CHR ''/'' # b) = split_path a @ split_path b"
  by (induction a) (auto split: list.splits)

lemma comps_slash [simp]: "comps (a @ CHR ''/'' # b) = comps a @ comps b"
  by (simp add: comps_def split_path_slash)

lemma comps_size [simp]: "comps ''.size'' = [''.size'']"
  by (simp add: comps_def)

lemma place_canon: "place fs cur cs = Some p \<Longrightarrow> p = canon cur cs"
  by (induction fs cur cs rule: place.induct) (auto split: if_splits)

lemma canon_append: "canon cur (a @ b) = canon (canon cur a) b"
  by (induction a arbitrary: cur) auto

lemma canon_plain: "''..'' \<notin> set cs \<Longrightarrow> canon cur cs = cur @ cs"
  by (induction cs arbitrary: cur) auto

lemma split_path_part: "w \<in> set (split_path s) \<Longrightarrow> \<exists>a b. s = a @ w @ b"
proof (induction s arbitrary: w)
  case (Cons c s)
  show ?case
  proof (cases "c = CHR ''/''")
    case True
    with Cons show ?thesis by (metis append_Cons append_Nil split_path.simps(2) set_ConsD)
  next
    case False
    then obtain v vs where v: "split_path s = v # vs" by (cases "split_path s") auto
    with False Cons.prems have "w = c # v \<or> w \<in> set vs" by auto
    then show ?thesis
    proof
      assume w: "w = c # v"
      have "\<exists>b. s = v @ b" using v
      proof (induction s arbitrary: v vs)
        case (Cons d s)
        then show ?case by (cases "split_path s") (auto split: if_splits)
      qed simp
      with w show ?thesis by (metis append_Cons append_Nil)
    next
      assume "w \<in> set vs"
      with v Cons.IH [of w] show ?thesis by (metis append_Cons list.set_intros(2))
    qed
  qed
qed auto

lemma has_dotdot_append: "has_dotdot (a @ ''..'' @ b)"
proof (induction a)
  case (Cons c a)
  then show ?case by (cases a) auto
qed simp

lemma not_suspicious_plain: "\<not> has_dotdot name \<Longrightarrow> ''..'' \<notin> set (comps name)"
proof
  assume plain: "\<not> has_dotdot name" and dots: "''..'' \<in> set (comps name)"
  then have "''..'' \<in> set (split_path name)" by (simp add: comps_def)
  with split_path_part obtain a b where "name = a @ ''..'' @ b" by blast
  with plain show False using has_dotdot_append [of a b] by metis
qed

definition stage :: "string \<Rightarrow> string list" where
  "stage dest = canon [] (comps dest)"

lemma place_below:
  "place fs [] (comps (dest @ CHR ''/'' # name)) = Some p \<Longrightarrow> \<not> has_dotdot name \<Longrightarrow>
    p = stage dest @ comps name"
  using place_canon canon_append canon_plain not_suspicious_plain
  by (metis comps_slash stage_def)

lemma place_size:
  "place fs [] (comps (dest @ ''/.size'')) = Some p \<Longrightarrow> p = stage dest @ [''.size'']"
  using place_below [of fs dest "''.size''" p] by simp

section \<open>What system calls keep\<close>

text \<open>Directories appear, nothing else happens.\<close>

definition only_dirs :: "fsys \<Rightarrow> fsys \<Rightarrow> bool" where
  "only_dirs fs fs' \<longleftrightarrow> (\<forall>p. fs' p = fs p \<or> (fs p = None \<and> fs' p = Some Dir))"

text \<open>Below \<open>d\<close> files are written as well; directories stay.\<close>

definition grows :: "string list \<Rightarrow> fsys \<Rightarrow> fsys \<Rightarrow> bool" where
  "grows d fs fs' \<longleftrightarrow>
    (\<forall>p. fs p = Some Dir \<longrightarrow> fs' p = Some Dir) \<and> (\<forall>p. fs p \<noteq> None \<longrightarrow> fs' p \<noteq> None) \<and>
    (\<forall>p. \<not> prefix d p \<longrightarrow> fs' p = fs p \<or> (fs p = None \<and> fs' p = Some Dir))"

lemma only_dirs_refl [simp]: "only_dirs fs fs"
  by (simp add: only_dirs_def)

lemma only_dirs_trans: "only_dirs a b \<Longrightarrow> only_dirs b c \<Longrightarrow> only_dirs a c"
  unfolding only_dirs_def by metis

lemma grows_refl [simp]: "grows d fs fs"
  by (simp add: grows_def)

lemma grows_trans: "grows d a b \<Longrightarrow> grows d b c \<Longrightarrow> grows d a c"
  unfolding grows_def by metis

lemma only_dirs_grows: "only_dirs a b \<Longrightarrow> grows d a b"
  unfolding only_dirs_def grows_def by (metis option.distinct(1))

lemma sys_mkdir_only_dirs: "sys_mkdir env fs path = MkOk fs' \<Longrightarrow> only_dirs fs fs'"
  by (auto simp: sys_mkdir_def only_dirs_def node_at_def split: option.splits if_splits)

lemma mkdir_segments_only_dirs: "only_dirs fs (snd (mkdir_segments env fs segs))"
  by (induction env fs segs rule: mkdir_segments.induct)
    (auto split: mkdir_result.splits dest: sys_mkdir_only_dirs intro: only_dirs_trans)

lemma mkdir_p_only_dirs: "only_dirs fs (snd (mkdir_p env fs path))"
  by (simp add: mkdir_p_def mkdir_segments_only_dirs)

lemma open_and_write_result:
  assumes "open_and_write env fs path data = Some (ok, fs')"
  shows "\<not> ok \<and> fs' = fs \<or>
    (\<exists>p n. place fs [] (comps path) = Some p \<and> node_at fs p \<noteq> Some Dir \<and>
      write_loop (write_result env p) (length data) 0 0 = Some (ok, n) \<and>
      fs' = fs(p \<mapsto> File (take n data)))"
proof (cases "place fs [] (comps path)")
  case None
  with assms show ?thesis by (simp add: open_and_write_def)
next
  case (Some p)
  with assms show ?thesis
    by (cases "write_loop (write_result env p) (length data) 0 0")
      (auto simp: open_and_write_def split: if_splits)
qed

lemma write_loop_ok:
  assumes "write_loop wr len off k = Some r"
  shows "fst r \<longrightarrow> len \<le> snd r"
proof (rule write_loop.raw_induct [OF _ assms, where P = "\<lambda>wr len off k r. fst r \<longrightarrow> len \<le> snd r"])
  fix f :: "(nat \<Rightarrow> nat option) \<Rightarrow> nat \<Rightarrow> nat \<Rightarrow> nat \<Rightarrow> (bool \<times> nat) option" and wr len off k r
  assume IH: "\<And>wr len off k r. f wr len off k = Some r \<Longrightarrow> fst r \<longrightarrow> len \<le> snd r"
    and "(if off < len
     then (case wr k of
             None \<Rightarrow> Some (False, off)
           | Some n \<Rightarrow> f wr len (off + min n (len - off)) (k + 1))
     else Some (True, off)) = Some r"
  then show "fst r \<longrightarrow> len \<le> snd r" by (auto split: if_splits option.splits)
qed

lemma write_loop_returns:
  assumes "\<And>k n. wr k = Some n \<Longrightarrow> 0 < n"
  shows "\<exists>r. write_loop wr len off k = Some r"
proof (induction "len - off" arbitrary: off k rule: less_induct)
  case less
  show ?case
  proof (cases "off < len \<and> wr k \<noteq> None")
    case False
    then show ?thesis by (subst write_loop.simps) (auto split: option.splits)
  next
    case True
    then obtain n where n: "wr k = Some n" "off < len" by auto
    with assms [of k n] have "len - (off + min n (len - off)) < len - off" by (auto simp: min_def)
    from less [OF this] n show ?thesis by (subst write_loop.simps) simp
  qed
qed

section \<open>Writing the entries\<close>

lemma node_at_not_Dir: "node_at fs p \<noteq> Some Dir \<Longrightarrow> p \<noteq> [] \<and> fs p \<noteq> Some Dir"
  by (auto simp: node_at_def split: if_splits)

lemma open_and_write_below:
  assumes "open_and_write env fs (dest @ CHR ''/'' # name) data = Some (ok, fs')"
    and "\<not> has_dotdot name"
  shows "grows (stage dest) fs fs' \<and>
    (ok \<longrightarrow> fs' (stage dest @ comps name) = Some (File data)) \<and>
    (\<forall>q. q \<noteq> stage dest @ comps name \<longrightarrow> fs' q = fs q)"
proof -
  consider "\<not> ok" "fs' = fs"
    | p n where "place fs [] (comps (dest @ CHR ''/'' # name)) = Some p" "node_at fs p \<noteq> Some Dir"
        "write_loop (write_result env p) (length data) 0 0 = Some (ok, n)" "fs' = fs(p \<mapsto> File (take n data))"
    using open_and_write_result [OF assms(1)] by blast
  then show ?thesis
  proof cases
    case 2
    have p: "p = stage dest @ comps name" using place_below 2(1) assms(2) by blast
    have "ok \<longrightarrow> length data \<le> n" using write_loop_ok [OF 2(3)] by simp
    moreover have "grows (stage dest) fs fs'"
      using node_at_not_Dir [OF 2(2)] by (auto simp: grows_def 2(4) p)
    ultimately show ?thesis by (simp add: 2(4) p)
  qed simp
qed

lemma write_file_below:
  assumes run: "write_file env fs (dest @ CHR ''/'' # name) data = Some (ok, fs')"
    and plain: "\<not> has_dotdot name"
  shows "grows (stage dest) fs fs'"
    and "ok \<Longrightarrow> fs' (stage dest @ comps name) = Some (File data)"
    and "fs q = Some n \<Longrightarrow> q \<noteq> stage dest @ comps name \<Longrightarrow> fs' q = Some n"
proof -
  have "\<exists>fs1. only_dirs fs fs1 \<and> (\<not> ok \<and> fs' = fs1 \<or>
    open_and_write env fs1 (dest @ CHR ''/'' # name) data = Some (ok, fs'))"
  proof (cases "last_slash (dest @ CHR ''/'' # name)")
    case None
    with run have "open_and_write env fs (dest @ CHR ''/'' # name) data = Some (ok, fs')"
      by (simp add: write_file_def)
    then show ?thesis using only_dirs_refl by blast
  next
    case (Some i)
    obtain ok1 fs1 where mk: "mkdir_p env fs (take i (dest @ CHR ''/'' # name)) = (ok1, fs1)"
      by (cases "mkdir_p env fs (take i (dest @ CHR ''/'' # name))")
    then have "only_dirs fs fs1" using mkdir_p_only_dirs by (metis snd_conv)
    moreover have "\<not> ok \<and> fs' = fs1 \<or> open_and_write env fs1 (dest @ CHR ''/'' # name) data = Some (ok, fs')"
      using run Some mk by (simp add: write_file_def split: if_splits)
    ultimately show ?thesis by blast
  qed
  then obtain fs1 where dirs: "only_dirs fs fs1" and rest: "\<not> ok \<and> fs' = fs1 \<or>
    open_and_write env fs1 (dest @ CHR ''/'' # name) data = Some (ok, fs')" by blast
  from rest have res: "grows (stage dest) fs1 fs' \<and>
    (ok \<longrightarrow> fs' (stage dest @ comps name) = Some (File data)) \<and>
    (\<forall>q. q \<noteq> stage dest @ comps name \<longrightarrow> fs' q = fs1 q)"
  proof
    assume "\<not> ok \<and> fs' = fs1"
    then show ?thesis by simp
  next
    assume "open_and_write env fs1 (dest @ CHR ''/'' # name) data = Some (ok, fs')"
    then show ?thesis using open_and_write_below plain by blast
  qed
  show "grows (stage dest) fs fs'" using res only_dirs_grows [OF dirs] grows_trans by blast
  show "ok \<Longrightarrow> fs' (stage dest @ comps name) = Some (File data)" using res by blast
  show "fs q = Some n \<Longrightarrow> q \<noteq> stage dest @ comps name \<Longrightarrow> fs' q = Some n"
    using res dirs unfolding only_dirs_def by (metis option.distinct(1))
qed

definition file_entry :: "zip_entry \<Rightarrow> bool" where
  "file_entry z \<longleftrightarrow> ze_stat z \<and> \<not> ze_dir z \<and> \<not> suspicious (ze_name z)"

lemma file_entry_plain: "file_entry z \<Longrightarrow> \<not> has_dotdot (ze_name z)"
  by (simp add: file_entry_def suspicious_def)

text \<open>One step of the loop over the entries, by the kind of the entry.\<close>

lemma extract_entries_Cons:
  assumes "extract_entries env dest fs (z # zs) = Some (ok, fs')"
  shows "\<not> file_entry z \<and> (\<exists>fs1. only_dirs fs fs1 \<and> extract_entries env dest fs1 zs = Some (ok, fs')) \<or>
    file_entry z \<and> ze_data z = None \<and> \<not> ok \<and> fs' = fs \<or>
    file_entry z \<and> (\<exists>data ok1 fs1. ze_data z = Some data \<and>
      write_file env fs (dest @ CHR ''/'' # ze_name z) data = Some (ok1, fs1) \<and>
      (if ok1 then extract_entries env dest fs1 zs = Some (ok, fs') else \<not> ok \<and> fs' = fs1))"
proof -
  consider "\<not> ze_stat z" | "ze_stat z" "ze_dir z" | "ze_stat z" "\<not> ze_dir z" "suspicious (ze_name z)"
    | "file_entry z" by (auto simp: file_entry_def)
  then show ?thesis
  proof cases
    case 1
    then have "extract_entries env dest fs zs = Some (ok, fs')" using assms by simp
    then show ?thesis using 1 only_dirs_refl unfolding file_entry_def by blast
  next
    case 2
    then have "extract_entries env dest (snd (mkdir_p env fs (dest @ CHR ''/'' # ze_name z))) zs = Some (ok, fs')"
      using assms by simp
    then show ?thesis using 2 mkdir_p_only_dirs unfolding file_entry_def by blast
  next
    case 3
    then have "extract_entries env dest fs zs = Some (ok, fs')" using assms by simp
    then show ?thesis using 3 only_dirs_refl unfolding file_entry_def by blast
  next
    case 4
    then have run: "(case ze_data z of None \<Rightarrow> Some (False, fs)
        | Some data \<Rightarrow> (case write_file env fs (dest @ CHR ''/'' # ze_name z) data of
              None \<Rightarrow> None
            | Some (ok1, fs1) \<Rightarrow> if ok1 then extract_entries env dest fs1 zs else Some (False, fs1))) = Some (ok, fs')"
      using assms unfolding extract_entries.simps file_entry_def append.simps by simp
    show ?thesis
    proof (cases "ze_data z")
      case None
      with run 4 show ?thesis by simp
    next
      case (Some data)
      then obtain ok1 fs1 where w: "write_file env fs (dest @ CHR ''/'' # ze_name z) data = Some (ok1, fs1)"
        using run by (auto split: option.splits)
      have "if ok1 then extract_entries env dest fs1 zs = Some (ok, fs') else \<not> ok \<and> fs' = fs1"
        using run Some w by (cases ok1) auto
      with Some w 4 show ?thesis by blast
    qed
  qed
qed

lemma extract_entries_grows:
  "extract_entries env dest fs zs = Some (ok, fs') \<Longrightarrow> grows (stage dest) fs fs'"
proof (induction zs arbitrary: fs)
  case (Cons z zs)
  from extract_entries_Cons [OF Cons.prems] consider
      fs1 where "only_dirs fs fs1" "extract_entries env dest fs1 zs = Some (ok, fs')"
    | "fs' = fs"
    | data ok1 fs1 where "file_entry z" "write_file env fs (dest @ CHR ''/'' # ze_name z) data = Some (ok1, fs1)"
        "if ok1 then extract_entries env dest fs1 zs = Some (ok, fs') else \<not> ok \<and> fs' = fs1"
    by blast
  then show ?case
  proof cases
    case 1
    then show ?thesis using Cons.IH only_dirs_grows grows_trans by blast
  next
    case 3
    have "grows (stage dest) fs fs1" using write_file_below(1) [OF 3(2)] 3(1) file_entry_plain by blast
    then show ?thesis using 3(3) Cons.IH grows_trans by (cases ok1) auto
  qed simp
qed simp

lemma extract_entries_keeps:
  assumes "extract_entries env dest fs zs = Some (ok, fs')" and "fs (stage dest @ r) = Some n"
    and "\<And>z. z \<in> set zs \<Longrightarrow> file_entry z \<Longrightarrow> comps (ze_name z) \<noteq> r"
  shows "fs' (stage dest @ r) = Some n"
  using assms
proof (induction zs arbitrary: fs)
  case (Cons z zs)
  have rest: "\<And>y. y \<in> set zs \<Longrightarrow> file_entry y \<Longrightarrow> comps (ze_name y) \<noteq> r" using Cons.prems(3) by simp
  from extract_entries_Cons [OF Cons.prems(1)] consider
      fs1 where "only_dirs fs fs1" "extract_entries env dest fs1 zs = Some (ok, fs')"
    | "fs' = fs"
    | data ok1 fs1 where "file_entry z" "write_file env fs (dest @ CHR ''/'' # ze_name z) data = Some (ok1, fs1)"
        "if ok1 then extract_entries env dest fs1 zs = Some (ok, fs') else \<not> ok \<and> fs' = fs1"
    by blast
  then show ?case
  proof cases
    case 1
    then have "fs1 (stage dest @ r) = Some n"
      using Cons.prems(2) unfolding only_dirs_def by (metis option.distinct(1))
    then show ?thesis using Cons.IH [OF 1(2) _ rest] by blast
  next
    case 2
    then show ?thesis using Cons.prems(2) by simp
  next
    case 3
    have "fs1 (stage dest @ r) = Some n"
      using write_file_below(3) [OF 3(2) file_entry_plain [OF 3(1)] Cons.prems(2)]
        Cons.prems(3) [of z] 3(1) by simp
    then show ?thesis using 3(3) Cons.IH [OF _ _ rest] by (cases ok1) auto
  qed
qed simp

lemma extract_entries_contents:
  assumes "extract_entries env dest fs (zs @ z # zs') = Some (True, fs')" and "file_entry z"
    and "\<And>y. y \<in> set zs' \<Longrightarrow> file_entry y \<Longrightarrow> comps (ze_name y) \<noteq> comps (ze_name z)"
  shows "\<exists>data. ze_data z = Some data \<and> fs' (stage dest @ comps (ze_name z)) = Some (File data)"
  using assms(1)
proof (induction zs arbitrary: fs)
  case Nil
  then have run: "extract_entries env dest fs (z # zs') = Some (True, fs')" by simp
  then obtain data fs1 where w: "ze_data z = Some data"
      "write_file env fs (dest @ CHR ''/'' # ze_name z) data = Some (True, fs1)"
      "extract_entries env dest fs1 zs' = Some (True, fs')"
    using extract_entries_Cons [OF run] assms(2) by (metis (full_types))
  have "fs1 (stage dest @ comps (ze_name z)) = Some (File data)"
    using write_file_below(2) [OF w(2) file_entry_plain [OF assms(2)]] by simp
  then show ?case using extract_entries_keeps [OF w(3) _ assms(3)] w(1) by blast
next
  case (Cons y zs)
  then have run: "extract_entries env dest fs (y # zs @ z # zs') = Some (True, fs')" by simp
  then obtain fs1 where "extract_entries env dest fs1 (zs @ z # zs') = Some (True, fs')"
    using extract_entries_Cons [OF run] by (metis (full_types))
  then show ?case by (rule Cons.IH)
qed

section \<open>Entries for directories\<close>

text \<open>Directories that appear lie below the staging directory or on the way to it.\<close>

definition dirs_near :: "string list \<Rightarrow> fsys \<Rightarrow> fsys \<Rightarrow> bool" where
  "dirs_near d fs fs' \<longleftrightarrow> (\<forall>p. fs' p \<noteq> fs p \<longrightarrow> prefix d p \<or> prefix p d)"

lemma dirs_near_refl [simp]: "dirs_near d fs fs"
  by (simp add: dirs_near_def)

lemma dirs_near_trans: "dirs_near d a b \<Longrightarrow> dirs_near d b c \<Longrightarrow> dirs_near d a c"
  unfolding dirs_near_def by metis

lemma comps_segment:
  assumes "seg \<in> set (path_segments path)"
  shows "\<exists>rest. comps path = comps seg @ rest"
proof -
  from assms obtain i where i: "seg = take i path" "i \<le> length path"
      "i = length path \<or> path ! i = CHR ''/''"
    by (auto simp: path_segments_def)
  show ?thesis
  proof (cases "i = length path")
    case True
    with i show ?thesis by simp
  next
    case False
    with i have "path = seg @ CHR ''/'' # drop (Suc i) path"
      by (metis id_take_nth_drop le_neq_implies_less)
    then show ?thesis by (metis comps_slash)
  qed
qed

lemma sys_mkdir_near:
  assumes "sys_mkdir env fs seg = MkOk fs'" and "''..'' \<notin> set (comps path)"
    and "seg \<in> set (path_segments path)" and "prefix (comps path) d \<or> prefix d (comps path)"
  shows "dirs_near d fs fs'"
proof -
  obtain rest where rest: "comps path = comps seg @ rest" using comps_segment assms(3) by blast
  from assms(1) obtain p where p: "place fs [] (comps seg) = Some p" "fs' = fs(p \<mapsto> Dir)"
    by (auto simp: sys_mkdir_def split: option.splits if_splits)
  have "p = comps seg"
    using place_canon [OF p(1)] canon_plain [of "comps seg" "[]"] assms(2) rest by auto
  then have "prefix d p \<or> prefix p d"
    using assms(4) rest by (metis prefix_append prefix_order.order_trans prefix_same_cases prefixI)
  then show ?thesis by (auto simp: dirs_near_def p(2))
qed

lemma mkdir_segments_near:
  assumes "''..'' \<notin> set (comps path)" and "prefix (comps path) d \<or> prefix d (comps path)"
  shows "set segs \<subseteq> set (path_segments path) \<Longrightarrow> dirs_near d fs (snd (mkdir_segments env fs segs))"
proof (induction segs arbitrary: fs)
  case (Cons seg segs)
  then show ?case
    using sys_mkdir_near [OF _ assms(1) _ assms(2)] dirs_near_trans
    by (auto split: mkdir_result.splits) blast
qed simp

lemma mkdir_p_near:
  "''..'' \<notin> set (comps path) \<Longrightarrow> prefix (comps path) d \<or> prefix d (comps path) \<Longrightarrow>
    dirs_near d fs (snd (mkdir_p env fs path))"
  unfolding mkdir_p_def using mkdir_segments_near by blast

lemma last_slash_segment:
  "last_slash path = Some i \<Longrightarrow> \<exists>rest. comps path = comps (take i path) @ rest"
proof -
  assume "last_slash path = Some i"
  then have "i \<in> set (filter (\<lambda>i. path ! i = CHR ''/'') [0..<length path])"
    unfolding last_slash_def by (metis (lifting) last_in_set list.simps(4,5) neq_Nil_conv option.distinct(1) option.inject)
  then have "path ! i = CHR ''/''" "i < length path" by auto
  then have "path = take i path @ CHR ''/'' # drop (Suc i) path" by (metis id_take_nth_drop)
  then show ?thesis by (metis comps_slash)
qed

lemma write_file_near:
  assumes run: "write_file env fs (dest @ CHR ''/'' # name) data = Some (ok, fs')"
    and plain: "\<not> has_dotdot name" "''..'' \<notin> set (comps dest)"
  shows "dirs_near (stage dest) fs fs'"
proof -
  have stage: "stage dest = comps dest" using canon_plain plain(2) by (simp add: stage_def)
  have opened: "dirs_near (stage dest) fs1 fs'"
    if "open_and_write env fs1 (dest @ CHR ''/'' # name) data = Some (ok, fs')" for fs1
    using open_and_write_below [OF that plain(1)] unfolding dirs_near_def by (metis prefixI)
  show ?thesis
  proof (cases "last_slash (dest @ CHR ''/'' # name)")
    case None
    with run opened show ?thesis by (simp add: write_file_def)
  next
    case (Some i)
    let ?seg = "take i (dest @ CHR ''/'' # name)"
    obtain ok1 fs1 where mk: "mkdir_p env fs ?seg = (ok1, fs1)" by (cases "mkdir_p env fs ?seg")
    obtain rest where rest: "comps dest @ comps name = comps ?seg @ rest"
      using last_slash_segment [OF Some] by auto
    have "''..'' \<notin> set (comps dest @ comps name)" using plain not_suspicious_plain by simp
    then have "''..'' \<notin> set (comps ?seg)" unfolding rest by simp
    moreover have "prefix (comps ?seg) (stage dest) \<or> prefix (stage dest) (comps ?seg)"
      using rest prefix_same_cases unfolding stage by (metis prefixI)
    ultimately have near: "dirs_near (stage dest) fs fs1"
      using mkdir_p_near mk by (metis snd_conv)
    have "\<not> ok \<and> fs' = fs1 \<or> open_and_write env fs1 (dest @ CHR ''/'' # name) data = Some (ok, fs')"
      using run Some mk by (simp add: write_file_def split: if_splits)
    then show ?thesis using near opened dirs_near_trans by blast
  qed
qed

lemma extract_entries_near:
  assumes "''..'' \<notin> set (comps dest)"
  shows "(\<And>z. z \<in> set zs \<Longrightarrow> ze_stat z \<Longrightarrow> ze_dir z \<Longrightarrow> \<not> has_dotdot (ze_name z)) \<Longrightarrow>
    extract_entries env dest fs zs = Some (ok, fs') \<Longrightarrow> dirs_near (stage dest) fs fs'"
proof (induction zs arbitrary: fs)
  case (Cons z zs)
  have rest: "\<And>z. z \<in> set zs \<Longrightarrow> ze_stat z \<Longrightarrow> ze_dir z \<Longrightarrow> \<not> has_dotdot (ze_name z)"
    using Cons.prems(1) by simp
  have stage: "stage dest = comps dest" using canon_plain assms by (simp add: stage_def)
  show ?case
  proof (cases "ze_stat z \<and> ze_dir z")
    case True
    let ?path = "dest @ CHR ''/'' # ze_name z"
    have "''..'' \<notin> set (comps ?path)" "prefix (comps ?path) (stage dest) \<or> prefix (stage dest) (comps ?path)"
      using Cons.prems(1) [of z] True assms not_suspicious_plain by (auto simp: stage)
    then have "dirs_near (stage dest) fs (snd (mkdir_p env fs ?path))" by (rule mkdir_p_near)
    moreover have "extract_entries env dest (snd (mkdir_p env fs ?path)) zs = Some (ok, fs')"
      using Cons.prems(2) True by simp
    ultimately show ?thesis using Cons.IH rest dirs_near_trans by blast
  next
    case False
    show ?thesis
    proof (cases "file_entry z")
      case False
      then have "extract_entries env dest fs zs = Some (ok, fs')"
        using Cons.prems(2) \<open>\<not> (ze_stat z \<and> ze_dir z)\<close> by (auto simp: file_entry_def split: if_splits)
      then show ?thesis using Cons.IH rest by blast
    next
      case True
      from extract_entries_Cons [OF Cons.prems(2)] True consider "fs' = fs"
        | data ok1 fs1 where "write_file env fs (dest @ CHR ''/'' # ze_name z) data = Some (ok1, fs1)"
          "if ok1 then extract_entries env dest fs1 zs = Some (ok, fs') else \<not> ok \<and> fs' = fs1"
        by blast
      then show ?thesis
      proof cases
        case 2
        then have "dirs_near (stage dest) fs fs1"
          using write_file_near file_entry_plain [OF True] assms by blast
        show ?thesis
        proof (cases ok1)
          case True
          with 2(2) have "dirs_near (stage dest) fs1 fs'" using Cons.IH rest by simp
          with \<open>dirs_near (stage dest) fs fs1\<close> show ?thesis by (rule dirs_near_trans)
        next
          case False
          with 2(2) \<open>dirs_near (stage dest) fs fs1\<close> show ?thesis by simp
        qed
      qed simp
    qed
  qed
qed simp

section \<open>The stamp\<close>

lemma digit_char_value [simp]: "d < 10 \<Longrightarrow> of_char (digit_char d) = 48 + d"
  by (simp add: digit_char_def)

lemma decimal_digits: "c \<in> set (decimal n) \<Longrightarrow> is_digit_char c"
proof (induction n rule: decimal.induct)
  case (1 n)
  then show ?case
    by (subst (asm) decimal.simps) (auto simp: is_digit_char_def split: if_splits)
qed

lemma decimal_not_Nil [simp]: "decimal n \<noteq> []"
  by (subst decimal.simps) simp

lemma digits_value_decimal: "digits_value (decimal n) = n"
proof (induction n rule: decimal.induct)
  case (1 n)
  then show ?case
    by (subst decimal.simps) (simp add: digits_value_def)
qed

lemma digit_not_space: "is_digit_char c \<Longrightarrow> \<not> is_space_char c \<and> c \<noteq> CHR ''-'' \<and> c \<noteq> CHR ''+''"
  by (auto simp: is_digit_char_def is_space_char_def)

lemma parse_decimal: "n < 2 ^ 64 \<Longrightarrow> parse_size (decimal n) = Some n"
proof -
  assume n: "n < 2 ^ 64"
  obtain c cs where d: "decimal n = c # cs" by (cases "decimal n") simp_all
  have digits: "\<forall>x \<in> set (c # cs). is_digit_char x" using decimal_digits d by metis
  then have "dropWhile is_space_char (c # cs) = c # cs" "takeWhile is_digit_char (c # cs) = c # cs"
    "c \<noteq> CHR ''-''" "c \<noteq> CHR ''+''"
    using digit_not_space [of c] by (auto simp: takeWhile_eq_all_conv)
  then show ?thesis using n digits_value_decimal [of n] by (simp add: parse_size_def d Let_def)
qed

lemma place_grows: "place fs cur cs = Some p \<Longrightarrow> grows d fs fs' \<Longrightarrow> place fs' cur cs = Some p"
  by (induction fs cur cs rule: place.induct) (auto simp: grows_def split: if_splits)

section \<open>The whole extraction\<close>

text \<open>The three ways an extraction ends: refused early, taken from the cache, or unpacked.\<close>

lemma extract_result:
  assumes "extract_augins_zip env fs zip_path st cache = Some (ok, fs', out)"
  shows "out = cache @ ''/'' @ st \<and>
    (\<not> ok \<and> only_dirs fs fs' \<and> (''..'' \<notin> set (comps out) \<longrightarrow> dirs_near (stage out) fs fs') \<or>
     ok \<and> fs' = fs \<and> (\<exists>blob. read_file_bytes env fs zip_path = Some blob \<and>
       read_size_stamp env fs out = Some (length blob)) \<or>
     (\<exists>blob entries fs1 fs2. read_file_bytes env fs zip_path = Some blob \<and>
        zip_entries env blob = Some entries \<and> fs1 = snd (mkdir_p env fs out) \<and>
        extract_entries env out fs1 entries = Some (ok, fs2) \<and>
        fs' = (if ok then write_size_stamp env fs2 out (length blob) else fs2)))"
proof -
  let ?dest = "cache @ ''/'' @ st"
  show ?thesis
  proof (cases "read_file_bytes env fs zip_path")
    case None
    with assms show ?thesis by (simp add: extract_augins_zip_def)
  next
    case (Some blob)
    show ?thesis
    proof (cases "read_size_stamp env fs ?dest = Some (length blob)")
      case True
      with Some assms show ?thesis by (simp add: extract_augins_zip_def)
    next
      case False
      obtain ok1 fs1 where mk: "mkdir_p env fs ?dest = (ok1, fs1)" by (cases "mkdir_p env fs ?dest")
      have out: "out = ?dest"
        using assms Some False mk
        by (auto simp: extract_augins_zip_def Let_def split: if_splits option.splits)
      have "only_dirs fs fs1" using mkdir_p_only_dirs mk by (metis snd_conv)
      moreover have "''..'' \<notin> set (comps ?dest) \<Longrightarrow> dirs_near (stage ?dest) fs fs1"
        using mkdir_p_near [of ?dest "stage ?dest" fs env] canon_plain [of "comps ?dest" "[]"] mk
        by (simp add: stage_def)
      moreover have "\<not> ok \<and> fs' = fs1 \<or> (\<exists>entries fs2. zip_entries env blob = Some entries \<and>
          extract_entries env ?dest fs1 entries = Some (ok, fs2) \<and>
          fs' = (if ok then write_size_stamp env fs2 ?dest (length blob) else fs2))"
        using assms Some False mk
        by (auto simp: extract_augins_zip_def Let_def split: if_splits option.splits)
      ultimately show ?thesis using Some mk out by auto
    qed
  qed
qed

lemma stamp_below:
  "grows (stage dest) fs (write_size_stamp env fs dest n)"
  "dirs_near (stage dest) fs (write_size_stamp env fs dest n)"
  "q \<noteq> stage dest @ [''.size''] \<Longrightarrow> write_size_stamp env fs dest n q = fs q"
proof -
  have "write_size_stamp env fs dest n = fs \<or>
    fs (stage dest @ [''.size'']) \<noteq> Some Dir \<and>
    (\<exists>c. write_size_stamp env fs dest n = fs(stage dest @ [''.size''] \<mapsto> File c))"
  proof (cases "place fs [] (comps (dest @ ''/.size''))")
    case (Some p)
    have "p = stage dest @ [''.size'']" using place_size [OF Some] .
    with Some show ?thesis by (auto simp: write_size_stamp_def node_at_def)
  qed (simp add: write_size_stamp_def)
  then show "grows (stage dest) fs (write_size_stamp env fs dest n)"
    "dirs_near (stage dest) fs (write_size_stamp env fs dest n)"
    "q \<noteq> stage dest @ [''.size''] \<Longrightarrow> write_size_stamp env fs dest n q = fs q"
    by (auto simp: grows_def dirs_near_def split: if_splits)
qed

text \<open>
  C6. Whatever the archive contains, unpacking a package keeps every directory, removes nothing, and changes
  nothing outside the staging directory except for directories that appear. When the names of the
  directory entries are as harmless as the code requires of files, those directories are on the way to
  the staging directory, too.
\<close>

theorem extraction_confined:
  assumes run: "extract_augins_zip env fs zip_path st cache = Some (ok, fs', out)"
  shows "out = cache @ ''/'' @ st \<and>
    (\<forall>p. fs p = Some Dir \<longrightarrow> fs' p = Some Dir) \<and> (\<forall>p. fs p \<noteq> None \<longrightarrow> fs' p \<noteq> None) \<and>
    (\<forall>p. \<not> prefix (stage out) p \<longrightarrow> fs' p = fs p \<or> (fs p = None \<and> fs' p = Some Dir)) \<and>
    (''..'' \<notin> set (comps out) \<and>
      (\<forall>blob zs. read_file_bytes env fs zip_path = Some blob \<and> zip_entries env blob = Some zs \<longrightarrow>
        (\<forall>z \<in> set zs. ze_stat z \<and> ze_dir z \<longrightarrow> \<not> has_dotdot (ze_name z))) \<longrightarrow>
      (\<forall>p. fs' p \<noteq> fs p \<longrightarrow> prefix (stage out) p \<or> prefix p (stage out)))"
proof -
  have parts: "out = cache @ ''/'' @ st \<and> grows (stage out) fs fs' \<and>
    (''..'' \<notin> set (comps out) \<and>
      (\<forall>blob zs. read_file_bytes env fs zip_path = Some blob \<and> zip_entries env blob = Some zs \<longrightarrow>
        (\<forall>z \<in> set zs. ze_stat z \<and> ze_dir z \<longrightarrow> \<not> has_dotdot (ze_name z))) \<longrightarrow> dirs_near (stage out) fs fs')"
    using extract_result [OF run]
  proof (elim conjE disjE)
    assume "out = cache @ ''/'' @ st" "only_dirs fs fs'"
      "''..'' \<notin> set (comps out) \<longrightarrow> dirs_near (stage out) fs fs'"
    then show ?thesis using only_dirs_grows by blast
  next
    assume out: "out = cache @ ''/'' @ st"
      and "\<exists>blob entries fs1 fs2. read_file_bytes env fs zip_path = Some blob \<and>
        zip_entries env blob = Some entries \<and> fs1 = snd (mkdir_p env fs out) \<and>
        extract_entries env out fs1 entries = Some (ok, fs2) \<and>
        fs' = (if ok then write_size_stamp env fs2 out (length blob) else fs2)"
    then obtain blob entries fs1 fs2 where e: "read_file_bytes env fs zip_path = Some blob \<and> zip_entries env blob = Some entries"
        "fs1 = snd (mkdir_p env fs out)" "extract_entries env out fs1 entries = Some (ok, fs2)"
        "fs' = (if ok then write_size_stamp env fs2 out (length blob) else fs2)" by blast
    have last: "grows (stage out) fs2 fs'" "dirs_near (stage out) fs2 fs'"
      using stamp_below e(4) by auto
    have "grows (stage out) fs fs'"
      using only_dirs_grows [OF mkdir_p_only_dirs] extract_entries_grows [OF e(3)] last(1) grows_trans
      unfolding e(2) by metis
    moreover have "dirs_near (stage out) fs fs'"
      if "''..'' \<notin> set (comps out)"
        "\<forall>z \<in> set entries. ze_stat z \<and> ze_dir z \<longrightarrow> \<not> has_dotdot (ze_name z)"
    proof -
      have "dirs_near (stage out) fs fs1"
        unfolding e(2) stage_def using canon_plain [OF that(1), of "[]"]
        by (intro mkdir_p_near that(1)) simp
      moreover have "dirs_near (stage out) fs1 fs2"
        using extract_entries_near [OF that(1) _ e(3)] that(2) by blast
      ultimately show ?thesis using last(2) dirs_near_trans by blast
    qed
    ultimately show ?thesis using out e(1) by blast
  qed auto
  then show ?thesis unfolding grows_def dirs_near_def by blast
qed

section \<open>Completeness and the cache\<close>

lemma ex_bool [simp]: "Ex Not" "\<exists>b. b"
  by (rule exI [of _ False], simp) (rule exI [of _ True], simp)

lemma write_file_returns:
  assumes "\<forall>p k n. write_result env p k = Some n \<longrightarrow> 0 < n"
  shows "\<exists>r. write_file env fs path data = Some r"
proof -
  have opened: "\<exists>r. open_and_write env fs path data = Some r" for fs
  proof (cases "place fs [] (comps path)")
    case (Some p)
    obtain ok n where "write_loop (write_result env p) (length data) 0 0 = Some (ok, n)"
      using write_loop_returns [of "write_result env p" "length data" 0 0] assms by auto
    with Some show ?thesis by (simp add: open_and_write_def)
  qed (simp add: open_and_write_def)
  show ?thesis
  proof (cases "last_slash path")
    case None
    with opened show ?thesis by (simp add: write_file_def)
  next
    case (Some i)
    with opened show ?thesis
      by (cases "mkdir_p env fs (take i path)") (simp add: write_file_def)
  qed
qed

lemma extract_entries_returns:
  assumes "\<forall>p k n. write_result env p k = Some n \<longrightarrow> 0 < n"
  shows "\<exists>r. extract_entries env dest fs zs = Some r"
proof (induction zs arbitrary: fs)
  case (Cons z zs)
  show ?case
  proof (cases "ze_data z")
    case None
    with Cons.IH show ?thesis by (cases "ze_stat z"; cases "ze_dir z"; cases "suspicious (ze_name z)") simp_all
  next
    case (Some data)
    obtain ok fs1 where "write_file env fs (dest @ CHR ''/'' # ze_name z) data = Some (ok, fs1)"
      using write_file_returns [OF assms, of fs "dest @ CHR ''/'' # ze_name z" data] by auto
    with Some Cons.IH show ?thesis by simp
  qed
qed simp

lemma read_stamp_written:
  assumes n: "n < 2 ^ 64" and flush: "length (decimal n) \<le> stamp_flush env (stage dest @ [''.size''])"
    and may: "may_open env (stage dest @ [''.size''])" "may_read env (stage dest @ [''.size''])"
    and place: "place (write_size_stamp env fs dest n) [] (comps (dest @ ''/.size'')) \<noteq> None"
    and not_dir: "write_size_stamp env fs dest n (stage dest @ [''.size'']) \<noteq> Some Dir"
  shows "read_size_stamp env (write_size_stamp env fs dest n) dest = Some n"
proof (cases "place fs [] (comps (dest @ ''/.size''))")
  case None
  with place show ?thesis by (simp add: write_size_stamp_def)
next
  case (Some p)
  have p: "p = stage dest @ [''.size'']" using place_size [OF Some] .
  have "place (write_size_stamp env fs dest n) [] (comps (dest @ ''/.size'')) = Some p"
    using place_grows [OF Some] stamp_below(1) by blast
  moreover have "fs p \<noteq> Some Dir"
    using not_dir Some may(1) unfolding p by (auto simp: write_size_stamp_def node_at_def)
  ultimately show ?thesis
    using Some may flush parse_decimal [OF n]
    by (simp add: read_size_stamp_def write_size_stamp_def node_at_def p)
qed

lemma read_file_grows:
  assumes "read_file_bytes env fs path = Some blob" and "grows d fs fs'" and "\<not> prefix d (stage path)"
  shows "read_file_bytes env fs' path = Some blob"
proof -
  obtain p where p: "place fs [] (comps path) = Some p" "node_at fs p = Some (File blob)"
      "may_read env p \<and> read_loop (read_result env p) (length blob) 0 0"
    using assms(1) by (auto simp: read_file_bytes_def split: option.splits node.splits if_splits)
  have "p = stage path" using place_canon [OF p(1)] by (simp add: stage_def)
  moreover from p(2) have "p \<noteq> []" "fs p \<noteq> None" by (auto simp: node_at_def split: if_splits)
  moreover have "\<not> prefix d p \<longrightarrow> fs' p = fs p \<or> fs p = None" using assms(2) by (auto simp: grows_def)
  ultimately have "fs' p = fs p" "p \<noteq> []" using assms(3) by auto
  then have "node_at fs' p = Some (File blob)" using p(2) by (simp add: node_at_def)
  then show ?thesis
    using p(3) place_grows [OF p(1) assms(2)] by (simp add: read_file_bytes_def)
qed

lemma file_size_bound: "read_file_bytes env fs path = Some blob \<Longrightarrow> \<exists>p. fs p = Some (File blob)"
  by (auto simp: read_file_bytes_def node_at_def split: option.splits node.splits if_splits)


section \<open>Gaps\<close>

text \<open>A system where everything is permitted and complete, and an archive parser for examples.\<close>

definition plain_env :: "(string \<Rightarrow> zip_entry list option) \<Rightarrow> os_env" where
  "plain_env unzip = \<lparr>may_mkdir = (\<lambda>_. True), may_open = (\<lambda>_. True), may_read = (\<lambda>_. True),
     write_result = (\<lambda>_ _. Some 4096), read_result = (\<lambda>_ _. 4096), stamp_flush = (\<lambda>_. 4096),
     zip_entries = unzip\<rparr>"

definition entry :: "string \<Rightarrow> string \<Rightarrow> zip_entry" where
  "entry name content = \<lparr>ze_stat = True, ze_dir = False, ze_name = name, ze_data = Some content\<rparr>"

definition dir_entry :: "string \<Rightarrow> zip_entry" where
  "dir_entry name = \<lparr>ze_stat = True, ze_dir = True, ze_name = name, ze_data = Some []\<rparr>"

definition demo_fs :: "string \<Rightarrow> fsys" where
  "demo_fs archive = [[''m''] \<mapsto> Dir, [''m'', ''a''] \<mapsto> File archive, [''c''] \<mapsto> Dir]"

text \<open>The archives of the examples: \<open>x\<close> and \<open>y\<close> have one file each, \<open>z\<close> a directory.\<close>

definition demo_unzip :: "string \<Rightarrow> zip_entry list option" where
  "demo_unzip blob =
    (if blob = ''x'' then Some [entry ''f'' ''old'']
     else if blob = ''y'' then Some [entry ''f'' ''new'']
     else if blob = ''z'' then Some [dir_entry ''../../evil/'', entry ''../g'' ''g'']
     else None)"

text \<open>
  Two gaps. A package whose archive has an entry for a directory called \<open>../../evil/\<close> is accepted and
  creates a directory at the root, although the file entry \<open>../g\<close> is left out. And a package replaced
  by another one of the same size is accepted with the tree of the old one, because the stamp holds a size only.
\<close>

lemma package_gaps:
  "(case extract_augins_zip (plain_env demo_unzip) (demo_fs ''z'') ''/m/a'' ''s'' ''/c'' of
      None \<Rightarrow> False
    | Some (ok, fs, _) \<Rightarrow> ok \<and> fs [''evil''] = Some Dir \<and> fs [''c'', ''g''] = None) \<and>
   (case extract_augins_zip (plain_env demo_unzip) (demo_fs ''x'') ''/m/a'' ''s'' ''/c'' of
      None \<Rightarrow> False
    | Some (_, fs, _) \<Rightarrow>
        (case extract_augins_zip (plain_env demo_unzip) (fs([''m'', ''a''] \<mapsto> File ''y'')) ''/m/a'' ''s'' ''/c'' of
           None \<Rightarrow> False
         | Some (ok, fs', _) \<Rightarrow> ok \<and> fs' [''c'', ''s'', ''f''] = Some (File ''old'') \<and>
             demo_unzip ''y'' = Some [entry ''f'' ''new'']))"
  by code_simp

text \<open>The first package is unpacked below \<open>/c/s\<close>, and taken from there the next time.\<close>

abbreviation demo_env :: os_env where
  "demo_env \<equiv> plain_env (\<lambda>_. Some [entry ''f'' ''old''])"

lemma stage_demo: "stage ''/c/s'' = [''c'', ''s'']" "''..'' \<notin> set (comps ''/c/s'')"
  by code_simp+

theorem extraction_confined_witness:
  "\<exists>ok fs'. extract_augins_zip demo_env (demo_fs ''x'') ''/m/a'' ''s'' ''/c'' = Some (ok, fs', ''/c/s'') \<and>
    (\<forall>p. fs' p \<noteq> demo_fs ''x'' p \<longrightarrow> prefix [''c'', ''s''] p \<or> prefix p [''c'', ''s''])"
proof -
  have "(case extract_augins_zip demo_env (demo_fs ''x'') ''/m/a'' ''s'' ''/c'' of
      None \<Rightarrow> False | Some (ok, fs', out) \<Rightarrow> out = ''/c/s'')"
    by code_simp
  then obtain ok fs' where run: "extract_augins_zip demo_env (demo_fs ''x'') ''/m/a'' ''s'' ''/c'' =
      Some (ok, fs', ''/c/s'')" by (auto split: option.splits)
  have "\<forall>p. fs' p \<noteq> demo_fs ''x'' p \<longrightarrow> prefix (stage ''/c/s'') p \<or> prefix p (stage ''/c/s'')"
    using extraction_confined [OF run] stage_demo(2) by (simp add: plain_env_def entry_def)
  with run show ?thesis by (auto simp: stage_demo(1))
qed


end
