(* ===== verification/Augins_Properties.thy ===== *)
theory Augins_Properties
  imports Augins_Service Augins_Package "HOL-Library.Multiset"
begin

text \<open>
  The properties of the module host: the chains it builds are those of the packages it accepts, in the order
  of their priorities; hooks and libraries are torn down in reverse; calls reach mapped code only as
  long as the stop waits for them; and what a call with modules answers.
\<close>

section \<open>The chains of a registry\<close>

definition chain_of :: "registry \<Rightarrow> string \<Rightarrow> internal_entry list" where
  "chain_of reg name = (case reg name of None \<Rightarrow> [] | Some v \<Rightarrow> v)"

lemma chain_of_empty [simp]: "chain_of Map.empty name = []"
  by (simp add: chain_of_def)

text \<open>What the functions of one module add to the chain of a name.\<close>

definition new_entries ::
  "('m) mod_env_scheme \<Rightarrow> nat \<Rightarrow> nat \<Rightarrow> nat \<Rightarrow> int \<Rightarrow> string list \<Rightarrow> string \<Rightarrow> internal_entry list" where
  "new_entries env h i d p fns name =
    concat (map (\<lambda>f. if f = name
      then (case dlsym env h f of None \<Rightarrow> []
            | Some fn \<Rightarrow> [\<lparr>e_fn = fn, e_module_id = i, e_data_dir = d, e_priority = p\<rparr>])
      else []) fns)"

lemma chain_register:
  "chain_of (aug_dispatch_register (Some f) (Some fn) i d p reg) name =
    (if f = name then chain_of reg name @ [\<lparr>e_fn = fn, e_module_id = i, e_data_dir = d, e_priority = p\<rparr>]
     else chain_of reg name)"
  by (simp add: chain_of_def aug_dispatch_register_def)

lemma chain_register_functions:
  "chain_of (register_functions env h i d p fns reg) name = chain_of reg name @ new_entries env h i d p fns name"
  by (induction fns arbitrary: reg) (auto simp: new_entries_def chain_register split: option.splits)

lemma chain_sorted:
  "chain_of (aug_dispatch_sort_by_priority reg) name = sort_key e_priority (chain_of reg name)"
  by (simp add: chain_of_def aug_dispatch_sort_by_priority_def split: option.splits)

lemma map_insort_key:
  assumes "\<And>x. k (g x) = f x"
  shows "map g (insort_key f x xs) = insort_key k (g x) (map g xs)"
  by (induction xs) (simp_all add: assms)

lemma map_sort_key:
  assumes "\<And>x. k (g x) = f x"
  shows "map g (sort_key f xs) = sort_key k (map g xs)"
  by (induction xs) (simp_all add: map_insort_key [where g = g and f = f and k = k, OF assms])

section \<open>Accepted packages\<close>

text \<open>
  A package is accepted when it can be unpacked, its manifest is well-formed and its library opens. The
  specification of the loader works on the file system alone.
\<close>

type_synonym package = "manifest \<times> nat \<times> string"

definition accept ::
  "('m) mod_env_scheme \<Rightarrow> string \<Rightarrow> fsys \<Rightarrow> string \<Rightarrow> (package option \<times> fsys) option" where
  "accept env cache fs path =
    (case extract_augins_zip env fs path (''_staged/'' @ file_name path) cache of
       None \<Rightarrow> None
     | Some (ok, fs', dir) \<Rightarrow> Some
         (if \<not> ok then None
          else (case manifest_parse_file env fs' (dir @ ''/metadata.json'') of
                  None \<Rightarrow> None
                | Some m \<Rightarrow> map_option (\<lambda>h. (m, h, dir)) (dlopen env fs' (dir @ ''/'' @ m_id m @ ''.so''))),
          fs'))"

fun accepted ::
  "('m) mod_env_scheme \<Rightarrow> string \<Rightarrow> fsys \<Rightarrow> string list \<Rightarrow> (package list \<times> fsys) option" where
  "accepted env cache fs [] = Some ([], fs)"
| "accepted env cache fs (p # ps) =
    (case accept env cache fs p of
       None \<Rightarrow> None
     | Some (pk, fs') \<Rightarrow>
         map_option (apfst ((@) (case pk of None \<Rightarrow> [] | Some x \<Rightarrow> [x]))) (accepted env cache fs' ps))"

text \<open>A registered function: its address, the module and its directory, and the priority.\<close>

type_synonym link = "nat \<times> string \<times> string \<times> int"

abbreviation link_priority :: "link \<Rightarrow> int" where
  "link_priority \<equiv> \<lambda>(fn, mid, dir, p). p"

definition links_of :: "('m) mod_env_scheme \<Rightarrow> string \<Rightarrow> package \<Rightarrow> link list" where
  "links_of env name = (\<lambda>(m, h, dir). concat (map (\<lambda>f. if f = name
      then (case dlsym env h f of None \<Rightarrow> [] | Some fn \<Rightarrow> [(fn, m_id m, dir, m_priority m)])
      else []) (implemented_functions m)))"

definition module_of :: "('m) mod_env_scheme \<Rightarrow> package \<Rightarrow> loaded_module" where
  "module_of env = (\<lambda>(m, h, dir). \<lparr>lm_handle = h, lm_module_id = m_id m, lm_data_dir = dir,
     lm_on_load = dlsym env h ''aug_on_module_load'', lm_on_unload = dlsym env h ''aug_on_module_unload''\<rparr>)"

text \<open>Reading an entry through the pointers it borrows.\<close>

definition read_entry :: "string list \<Rightarrow> internal_entry \<Rightarrow> link" where
  "read_entry strings e = (e_fn e, strings ! e_module_id e, strings ! e_data_dir e, e_priority e)"

definition pointers_ok :: "loader_state \<Rightarrow> bool" where
  "pointers_ok s \<longleftrightarrow> (\<forall>name. \<forall>e \<in> set (chain_of (g_map s) name).
     e_module_id e < length (g_perm_strings s) \<and> e_data_dir e < length (g_perm_strings s))"

definition chain_links :: "loader_state \<Rightarrow> string \<Rightarrow> link list" where
  "chain_links s name = map (read_entry (g_perm_strings s)) (chain_of (g_map s) name)"

lemma preload_loop_keeps:
  "\<exists>libs. preload_loop env dir main_so names s = s\<lparr>open_libs := libs @ open_libs s\<rparr>"
proof (induction names arbitrary: s)
  case (Cons n names)
  show ?case
  proof (cases "length n < 3 \<or> \<not> ends_with n ''.so'' \<or> n = main_so")
    case True
    with Cons [of s] show ?thesis by simp
  next
    case False
    show ?thesis
    proof (cases "dlopen env (ld_fs s) (dir @ ''/'' @ n)")
      case None
      with False Cons [of s] show ?thesis by simp
    next
      case (Some dh)
      obtain libs where "preload_loop env dir main_so names (s\<lparr>open_libs := dh # open_libs s\<rparr>) =
          s\<lparr>open_libs := (libs @ [dh]) @ open_libs s\<rparr>"
        using Cons [of "s\<lparr>open_libs := dh # open_libs s\<rparr>"] by auto
      with False Some show ?thesis by (intro exI [of _ "libs @ [dh]"]) simp
    qed
  qed
qed (auto intro: exI [of _ "[]"])

lemma preload_siblings_keeps:
  "\<exists>libs. preload_siblings env dir main_so s = s\<lparr>open_libs := libs @ open_libs s\<rparr>"
  using preload_loop_keeps [of env dir main_so _ s]
  by (auto simp: preload_siblings_def split: option.splits intro: exI [of _ "[]"])

text \<open>One package: the loader agrees with the specification and extends every chain by its links.\<close>

lemma new_entries_read:
  "strings ! i = m_id m \<Longrightarrow> strings ! d = dir \<Longrightarrow>
    map (read_entry strings) (new_entries env h i d (m_priority m) (implemented_functions m) name) =
      links_of env name (m, h, dir)"
  by (auto simp: new_entries_def links_of_def read_entry_def map_concat comp_def
      intro!: arg_cong [of _ _ concat] split: option.splits)

lemma new_entries_pointers:
  "e \<in> set (new_entries env h i d p fns name) \<Longrightarrow> e_module_id e = i \<and> e_data_dir e = d \<and>
    dlsym env h name = Some (e_fn e)"
  by (auto simp: new_entries_def split: option.splits if_splits)

lemma read_entry_append:
  "e_module_id e < length strings \<Longrightarrow> e_data_dir e < length strings \<Longrightarrow>
    read_entry (strings @ later) e = read_entry strings e"
  by (simp add: read_entry_def nth_append)

lemma load_one_cases:
  assumes run: "load_one env path cache s = Some (ok, s')"
  obtains fs' libs where "accept env cache (ld_fs s) path = Some (None, fs')" "\<not> ok"
      "s' = s\<lparr>ld_fs := fs', open_libs := libs @ open_libs s\<rparr>"
  | m h dir fs' libs where "accept env cache (ld_fs s) path = Some (Some (m, h, dir), fs')" "ok"
      "s' = s\<lparr>ld_fs := fs', open_libs := h # libs @ open_libs s,
        g_loaded := g_loaded s @ [module_of env (m, h, dir)],
        g_perm_strings := g_perm_strings s @ [m_id m, dir],
        g_map := register_functions env h (length (g_perm_strings s)) (length (g_perm_strings s) + 1)
          (m_priority m) (implemented_functions m) (g_map s)\<rparr>"
proof -
  obtain ok1 fs1 dir where ex:
      "extract_augins_zip env (ld_fs s) path (''_staged/'' @ file_name path) cache = Some (ok1, fs1, dir)"
    using run by (auto simp: load_one_def Let_def split: option.splits)
  show thesis
  proof (cases "ok1 \<and> manifest_parse_file env fs1 (dir @ ''/metadata.json'') \<noteq> None")
    case False
    then have "accept env cache (ld_fs s) path = Some (None, fs1) \<and> \<not> ok \<and> s' = s\<lparr>ld_fs := fs1, open_libs := [] @ open_libs s\<rparr>"
      using run ex by (auto simp: load_one_def accept_def Let_def split: if_splits)
    then show thesis using that(1) by blast
  next
    case True
    then obtain m where m: "ok1" "manifest_parse_file env fs1 (dir @ ''/metadata.json'') = Some m" by auto
    obtain libs where libs: "preload_siblings env dir (m_id m @ ''.so'') (s\<lparr>ld_fs := fs1\<rparr>) =
        s\<lparr>ld_fs := fs1, open_libs := libs @ open_libs s\<rparr>"
      using preload_siblings_keeps [of env dir "m_id m @ ''.so''" "s\<lparr>ld_fs := fs1\<rparr>"] by auto
    show thesis
    proof (cases "dlopen env fs1 (dir @ ''/'' @ m_id m @ ''.so'')")
      case None
      then have "accept env cache (ld_fs s) path = Some (None, fs1) \<and> \<not> ok \<and>
          s' = s\<lparr>ld_fs := fs1, open_libs := libs @ open_libs s\<rparr>"
        using run ex m libs by (simp add: load_one_def accept_def Let_def)
      then show thesis using that(1) by blast
    next
      case (Some h)
      then have "accept env cache (ld_fs s) path = Some (Some (m, h, dir), fs1)"
        using ex m by (simp add: accept_def)
      moreover have "ok \<and> s' = s\<lparr>ld_fs := fs1, open_libs := h # libs @ open_libs s,
        g_loaded := g_loaded s @ [module_of env (m, h, dir)],
        g_perm_strings := g_perm_strings s @ [m_id m, dir],
        g_map := register_functions env h (length (g_perm_strings s)) (length (g_perm_strings s) + 1)
          (m_priority m) (implemented_functions m) (g_map s)\<rparr>"
        using run ex m libs Some
        by (simp add: load_one_def Let_def augins_lifecycle_register_module_def module_of_def)
      ultimately show thesis using that(2) by blast
    qed
  qed
qed

definition extends :: "loader_state \<Rightarrow> loader_state \<Rightarrow> bool" where
  "extends s s' \<longleftrightarrow> (\<exists>libs. open_libs s' = libs @ open_libs s) \<and> (\<exists>later. g_perm_strings s' = g_perm_strings s @ later) \<and>
    trace s' = trace s \<and> tls_data_dir_stack s' = tls_data_dir_stack s \<and> g_initialised s' = g_initialised s"

lemma extends_refl [simp]: "extends s s"
  by (simp add: extends_def)

lemma extends_trans: "extends a b \<Longrightarrow> extends b c \<Longrightarrow> extends a c"
  by (auto simp: extends_def)

lemma load_one_None: "load_one env path cache s = None \<longleftrightarrow> accept env cache (ld_fs s) path = None"
  by (simp add: load_one_def accept_def Let_def split: option.splits prod.splits)

lemma load_one_refines:
  assumes "load_one env path cache s = Some (ok, s')"
  shows "\<exists>pk. accept env cache (ld_fs s) path = Some (pk, ld_fs s') \<and> extends s s' \<and>
    g_loaded s' = g_loaded s @ map (module_of env) (case pk of None \<Rightarrow> [] | Some x \<Rightarrow> [x]) \<and>
    (pointers_ok s \<longrightarrow> pointers_ok s' \<and> (\<forall>name. chain_links s' name =
      chain_links s name @ concat (map (links_of env name) (case pk of None \<Rightarrow> [] | Some x \<Rightarrow> [x]))))"
  using assms
proof (cases rule: load_one_cases)
  case (1 fs' libs)
  then show ?thesis by (auto simp: extends_def pointers_ok_def chain_links_def)
next
  case (2 m h dir fs' libs)
  let ?n = "length (g_perm_strings s)"
  let ?strings = "g_perm_strings s @ [m_id m, dir]"
  have chain: "chain_of (g_map s') name = chain_of (g_map s) name @
      new_entries env h ?n (?n + 1) (m_priority m) (implemented_functions m) name" for name
    by (simp add: 2(3) chain_register_functions)
  have "extends s s'" by (simp add: extends_def 2(3))
  moreover have "pointers_ok s'" if "pointers_ok s"
    using that unfolding pointers_ok_def chain by (fastforce simp: 2(3) dest: new_entries_pointers)
  moreover have "chain_links s' name = chain_links s name @ links_of env name (m, h, dir)"
    if "pointers_ok s" for name
  proof -
    have "map (read_entry ?strings) (chain_of (g_map s) name) = chain_links s name"
      unfolding chain_links_def using that by (auto simp: pointers_ok_def intro!: read_entry_append)
    moreover have "map (read_entry ?strings)
        (new_entries env h ?n (?n + 1) (m_priority m) (implemented_functions m) name) = links_of env name (m, h, dir)"
      by (rule new_entries_read) (simp_all add: nth_append)
    moreover have "g_perm_strings s' = ?strings" by (simp add: 2(3))
    ultimately show ?thesis by (simp add: chain_links_def [of s'] chain)
  qed
  ultimately show ?thesis using 2(1) by (simp add: 2(3))
qed

lemma load_files_refines:
  "load_files env cache ps s = Some s' \<Longrightarrow>
    \<exists>pkgs. accepted env cache (ld_fs s) ps = Some (pkgs, ld_fs s') \<and> extends s s' \<and>
      g_loaded s' = g_loaded s @ map (module_of env) pkgs \<and>
      (pointers_ok s \<longrightarrow> pointers_ok s' \<and>
        (\<forall>name. chain_links s' name = chain_links s name @ concat (map (links_of env name) pkgs)))"
proof (induction ps arbitrary: s)
  case (Cons p ps)
  then obtain ok s1 where one: "load_one env p cache s = Some (ok, s1)"
      and rest: "load_files env cache ps s1 = Some s'"
    by (auto split: option.splits)
  obtain pk where pk: "accept env cache (ld_fs s) p = Some (pk, ld_fs s1)" "extends s s1"
      "g_loaded s1 = g_loaded s @ map (module_of env) (case pk of None \<Rightarrow> [] | Some x \<Rightarrow> [x])"
      "pointers_ok s \<longrightarrow> pointers_ok s1 \<and> (\<forall>name. chain_links s1 name =
        chain_links s name @ concat (map (links_of env name) (case pk of None \<Rightarrow> [] | Some x \<Rightarrow> [x])))"
    using load_one_refines [OF one] by auto
  obtain pkgs where pkgs: "accepted env cache (ld_fs s1) ps = Some (pkgs, ld_fs s')" "extends s1 s'"
      "g_loaded s' = g_loaded s1 @ map (module_of env) pkgs"
      "pointers_ok s1 \<longrightarrow> pointers_ok s' \<and>
        (\<forall>name. chain_links s' name = chain_links s1 name @ concat (map (links_of env name) pkgs))"
    using Cons.IH [OF rest] by blast
  have "accepted env cache (ld_fs s) (p # ps) =
      Some ((case pk of None \<Rightarrow> [] | Some x \<Rightarrow> [x]) @ pkgs, ld_fs s')"
    using pk(1) pkgs(1) by simp
  moreover have "extends s s'" using extends_trans [OF pk(2) pkgs(2)] .
  ultimately show ?case using pk(3,4) pkgs(3,4)
    by (intro exI [of _ "(case pk of None \<Rightarrow> [] | Some x \<Rightarrow> [x]) @ pkgs"]) simp
qed (auto simp: pointers_ok_def)

lemma load_files_None: "load_files env cache ps s = None \<longleftrightarrow> accepted env cache (ld_fs s) ps = None"
proof (induction ps arbitrary: s)
  case (Cons p ps)
  show ?case
  proof (cases "load_one env p cache s")
    case None
    then show ?thesis using load_one_None [of env p cache s] by simp
  next
    case (Some r)
    then obtain ok s1 where one: "load_one env p cache s = Some (ok, s1)" by (cases r) simp
    obtain pk where "accept env cache (ld_fs s) p = Some (pk, ld_fs s1)"
      using load_one_refines [OF one] by blast
    then show ?thesis using one Cons.IH [of s1] by simp
  qed
qed simp

section \<open>Hooks\<close>

definition load_events :: "loaded_module list \<Rightarrow> mod_event list" where
  "load_events ms = concat (map (\<lambda>m. case lm_on_load m of None \<Rightarrow> [] | Some f \<Rightarrow> [OnLoad f (lm_data_dir m)]) ms)"

definition unload_events :: "loaded_module list \<Rightarrow> mod_event list" where
  "unload_events ms = concat (map (\<lambda>m. case lm_on_unload m of None \<Rightarrow> [] | Some f \<Rightarrow> [OnUnload f (lm_data_dir m)]) ms)"

lemma push_pop [simp]:
  "get_module_data_dir_impl (augins_host_api_push_data_dir (Some d) st) = d"
  "augins_host_api_pop_data_dir (augins_host_api_push_data_dir p st) = st"
  by (simp_all add: get_module_data_dir_impl_def augins_host_api_push_data_dir_def augins_host_api_pop_data_dir_def)

lemma fire_load_loop_result:
  "snd (fire_load_loop env ms r s) = s\<lparr>trace := trace s @ load_events ms\<rparr>"
  by (induction ms arbitrary: r s) (simp_all add: load_events_def Let_def split: option.splits)

lemma fire_unload_loop_result: "fire_unload_loop ms s = s\<lparr>trace := trace s @ unload_events ms\<rparr>"
  by (induction ms arbitrary: s) (simp_all add: unload_events_def Let_def split: option.splits)

lemma dlclose_loop_result:
  "dlclose_loop ms s = s\<lparr>open_libs := fold remove1 (map lm_handle ms) (open_libs s),
    trace := trace s @ map (\<lambda>m. DlClose (lm_handle m)) ms\<rparr>"
  by (induction ms arbitrary: s) simp_all

lemma shutdown_result:
  "g_initialised s \<Longrightarrow> augins_loader_shutdown s =
    s\<lparr>g_initialised := False, g_map := Map.empty, g_loaded := [],
      open_libs := fold remove1 (map lm_handle (rev (g_loaded s))) (open_libs s),
      trace := trace s @ unload_events (rev (g_loaded s)) @ map (\<lambda>m. DlClose (lm_handle m)) (rev (g_loaded s))\<rparr>"
  by (simp add: augins_loader_shutdown_def augins_lifecycle_fire_unload_def fire_unload_loop_result
      augins_lifecycle_dlclose_all_def dlclose_loop_result aug_dispatch_clear_def Let_def)

section \<open>Start and stop of the loader\<close>

definition fresh_loader :: "loader_state \<Rightarrow> bool" where
  "fresh_loader s \<longleftrightarrow> \<not> g_initialised s \<and> g_map s = Map.empty \<and> g_loaded s = []"

lemma pointers_fresh: "fresh_loader s \<Longrightarrow> pointers_ok s"
  by (simp add: fresh_loader_def pointers_ok_def)

lemma init_result:
  assumes "fresh_loader s" and "d \<noteq> []" "c \<noteq> []"
    and run: "load_files env c (list_augins_files env (ld_fs s) d) (s\<lparr>g_initialised := True\<rparr>) = Some s1"
  shows "augins_loader_init env (Some d) (Some c) s =
    Some (s1\<lparr>g_map := aug_dispatch_sort_by_priority (g_map s1), trace := trace s1 @ load_events (g_loaded s1)\<rparr>)"
  using assms
  by (simp add: augins_loader_init_def fresh_loader_def augins_lifecycle_fire_load_def fire_load_loop_result Let_def)

lemma sorted_links:
  "pointers_ok s \<Longrightarrow> chain_links (s\<lparr>g_map := aug_dispatch_sort_by_priority (g_map s), trace := t\<rparr>) name =
    sort_key link_priority (chain_links s name)"
  unfolding chain_links_def
  by (simp add: chain_sorted) (rule map_sort_key, simp add: read_entry_def)

lemma loader_init_chains:
  assumes fresh: "fresh_loader s" and paths: "d \<noteq> []" "c \<noteq> []"
    and run: "augins_loader_init env (Some d) (Some c) s = Some s'"
  shows "\<exists>pkgs. accepted env c (ld_fs s) (list_augins_files env (ld_fs s) d) = Some (pkgs, ld_fs s') \<and>
    g_loaded s' = map (module_of env) pkgs \<and> g_initialised s' \<and> pointers_ok s' \<and>
    (\<forall>name. chain_links s' name = sort_key link_priority (concat (map (links_of env name) pkgs))) \<and>
    trace s' = trace s @ load_events (g_loaded s') \<and> tls_data_dir_stack s' = tls_data_dir_stack s"
proof -
  let ?s0 = "s\<lparr>g_initialised := True\<rparr>"
  have "load_files env c (list_augins_files env (ld_fs s) d) ?s0 \<noteq> None"
    using run fresh paths by (auto simp: augins_loader_init_def fresh_loader_def Let_def split: option.splits)
  then obtain s1 where load: "load_files env c (list_augins_files env (ld_fs s) d) ?s0 = Some s1" by auto
  obtain pkgs where pkgs: "accepted env c (ld_fs s) (list_augins_files env (ld_fs s) d) = Some (pkgs, ld_fs s1)"
      "extends ?s0 s1" "g_loaded s1 = map (module_of env) pkgs" "pointers_ok s1"
      "\<forall>name. chain_links s1 name = concat (map (links_of env name) pkgs)"
    using load_files_refines [OF load] fresh
    by (auto simp: fresh_loader_def pointers_ok_def chain_links_def)
  have s': "s' = s1\<lparr>g_map := aug_dispatch_sort_by_priority (g_map s1), trace := trace s1 @ load_events (g_loaded s1)\<rparr>"
    using init_result [OF fresh paths load] run by simp
  have "pointers_ok s'" using pkgs(4) by (simp add: s' pointers_ok_def chain_sorted)
  moreover have "chain_links s' name = sort_key link_priority (concat (map (links_of env name) pkgs))" for name
    unfolding s' sorted_links [OF pkgs(4)] using pkgs(5) by simp
  ultimately show ?thesis using pkgs(1-3) by (auto simp: s' extends_def)
qed

lemma loader_init_None:
  "fresh_loader s \<Longrightarrow> d \<noteq> [] \<Longrightarrow> c \<noteq> [] \<Longrightarrow>
    augins_loader_init env (Some d) (Some c) s = None \<longleftrightarrow>
      accepted env c (ld_fs s) (list_augins_files env (ld_fs s) d) = None"
  using load_files_None [of env c "list_augins_files env (ld_fs s) d" "s\<lparr>g_initialised := True\<rparr>"]
  by (auto simp: augins_loader_init_def fresh_loader_def Let_def split: option.splits)


lemma load_one_handles:
  "load_one env path cache s = Some (ok, s') \<Longrightarrow>
    mset (map lm_handle (g_loaded s)) \<subseteq># mset (open_libs s) \<Longrightarrow>
    mset (map lm_handle (g_loaded s')) \<subseteq># mset (open_libs s')"
  by (erule load_one_cases)
    (auto simp: module_of_def intro: subset_mset.order_trans mset_subset_eq_add_right)

lemma load_files_handles:
  "load_files env cache ps s = Some s' \<Longrightarrow>
    mset (map lm_handle (g_loaded s)) \<subseteq># mset (open_libs s) \<Longrightarrow>
    mset (map lm_handle (g_loaded s')) \<subseteq># mset (open_libs s')"
  by (induction ps arbitrary: s) (auto split: option.splits dest: load_one_handles)

lemma fold_remove1_mset: "mset (fold remove1 xs ys) = mset ys - mset xs"
  by (induction xs arbitrary: ys) (auto simp: diff_diff_add_mset)

text \<open>
  C27. A start followed by a stop: a second start in between does nothing. The stop calls the unload hooks in
  the reverse of the load order, each with the directory of its module, then closes every library that was opened
  for a module, once for each module; the registry is empty, and both a second stop and a new start find the
  loader as it was before.
\<close>

theorem loader_stop_reverses_start:
  assumes "fresh_loader s" and "d \<noteq> []" and "c \<noteq> []"
    and run: "augins_loader_init env (Some d) (Some c) s = Some s1"
  shows "augins_loader_init env d' c' s1 = Some s1 \<and>
    trace (augins_loader_shutdown s1) = trace s @ load_events (g_loaded s1) @ unload_events (rev (g_loaded s1)) @
      map (\<lambda>m. DlClose (lm_handle m)) (rev (g_loaded s1)) \<and>
    mset (open_libs s1) =
      mset (open_libs (augins_loader_shutdown s1)) + mset (map lm_handle (g_loaded s1)) \<and>
    fresh_loader (augins_loader_shutdown s1) \<and>
    augins_loader_shutdown (augins_loader_shutdown s1) = augins_loader_shutdown s1 \<and>
    tls_data_dir_stack (augins_loader_shutdown s1) = tls_data_dir_stack s"
proof -
  have facts: "g_initialised s1" "trace s1 = trace s @ load_events (g_loaded s1)"
    "tls_data_dir_stack s1 = tls_data_dir_stack s"
    using loader_init_chains [OF assms] by auto
  obtain s0 where load: "load_files env c (list_augins_files env (ld_fs s) d) (s\<lparr>g_initialised := True\<rparr>) = Some s0"
    using run assms(1-3) by (auto simp: augins_loader_init_def fresh_loader_def Let_def split: option.splits)
  have "mset (map lm_handle (g_loaded s0)) \<subseteq># mset (open_libs s0)"
    using load_files_handles [OF load] assms(1) by (simp add: fresh_loader_def)
  then have "mset (map lm_handle (g_loaded s1)) \<subseteq># mset (open_libs s1)"
    using init_result [OF assms(1-3) load] run by simp
  moreover have "\<not> g_initialised t \<Longrightarrow> augins_loader_shutdown t = t" for t
    by (simp add: augins_loader_shutdown_def)
  ultimately show ?thesis
    using facts by (simp add: shutdown_result fresh_loader_def augins_loader_init_def fold_remove1_mset rev_map [symmetric])
qed

section \<open>Calls into modules\<close>

definition entry_ok :: "('m) mod_env_scheme \<Rightarrow> loader_state \<Rightarrow> internal_entry \<Rightarrow> bool" where
  "entry_ok env l e \<longleftrightarrow> mapped env l (e_fn e) \<and>
    e_module_id e < length (g_perm_strings l) \<and> e_data_dir e < length (g_perm_strings l)"

definition registry_ok :: "('m) mod_env_scheme \<Rightarrow> loader_state \<Rightarrow> bool" where
  "registry_ok env l \<longleftrightarrow> (\<forall>name. \<forall>e \<in> set (chain_of (g_map l) name). entry_ok env l e)"

lemma entry_ok_extends: "entry_ok env l e \<Longrightarrow> extends l l' \<Longrightarrow> entry_ok env l' e"
  by (auto simp: entry_ok_def mapped_def extends_def)

lemma load_one_registry:
  assumes run: "load_one env path cache s = Some (ok, s')" and ok: "registry_ok env s"
  shows "registry_ok env s' \<and> extends s s'"
proof -
  have ext: "extends s s'" using load_one_refines [OF run] by blast
  from run have "registry_ok env s'"
  proof (cases rule: load_one_cases)
    case (1 fs' libs)
    then have "g_map s' = g_map s" by simp
    with ok ext show ?thesis by (auto simp: registry_ok_def intro: entry_ok_extends)
  next
    case (2 m h dir fs' libs)
    show ?thesis unfolding registry_ok_def
    proof (intro allI ballI)
      fix name e
      assume "e \<in> set (chain_of (g_map s') name)"
      then consider "e \<in> set (chain_of (g_map s) name)"
        | "e \<in> set (new_entries env h (length (g_perm_strings s)) (length (g_perm_strings s) + 1)
            (m_priority m) (implemented_functions m) name)"
        by (auto simp: 2(3) chain_register_functions)
      then show "entry_ok env s' e"
      proof cases
        case 1
        with ok ext show ?thesis by (auto simp: registry_ok_def intro: entry_ok_extends)
      next
        case 2
        from new_entries_pointers [OF this] show ?thesis
          by (auto simp: entry_ok_def mapped_def \<open>s' = _\<close>)
      qed
    qed
  qed
  with ext show ?thesis by blast
qed

lemma load_files_registry:
  "load_files env cache ps s = Some s' \<Longrightarrow> registry_ok env s \<Longrightarrow> registry_ok env s' \<and> extends s s'"
proof (induction ps arbitrary: s)
  case (Cons p ps)
  then obtain ok s1 where one: "load_one env p cache s = Some (ok, s1)" "load_files env cache ps s1 = Some s'"
    by (auto split: option.splits)
  then show ?case using load_one_registry [OF one(1) Cons.prems(2)] Cons.IH extends_trans by blast
qed simp

text \<open>A start keeps what was mapped: libraries and strings are only added.\<close>

lemma init_registry:
  assumes run: "augins_loader_init env d c l = Some l'" and ok: "registry_ok env l"
  shows "registry_ok env l' \<and> (\<forall>e. entry_ok env l e \<longrightarrow> entry_ok env l' e)"
proof -
  let ?l0 = "l\<lparr>g_initialised := True\<rparr>"
  consider "l' = l" | "l' = ?l0"
    | l1 where "load_files env (the c) (list_augins_files env (ld_fs ?l0) (the d)) ?l0 = Some l1"
        "l' = snd (augins_lifecycle_fire_load env (l1\<lparr>g_map := aug_dispatch_sort_by_priority (g_map l1)\<rparr>))"
    using run by (auto simp: augins_loader_init_def Let_def split: if_splits option.splits)
  then show ?thesis
  proof cases
    case 3
    have "registry_ok env ?l0" using ok by (simp add: registry_ok_def entry_ok_def mapped_def)
    from load_files_registry [OF 3(1) this] have l1: "registry_ok env l1" "extends ?l0 l1" by auto
    have "registry_ok env l'"
      using l1(1) by (simp add: 3(2) augins_lifecycle_fire_load_def fire_load_loop_result registry_ok_def
          chain_sorted entry_ok_def mapped_def)
    moreover have "entry_ok env l' e" if "entry_ok env l e" for e
    proof -
      have "entry_ok env ?l0 e" using that by (simp add: entry_ok_def mapped_def)
      then have "entry_ok env l1 e" using l1(2) by (rule entry_ok_extends)
      then show ?thesis
        by (simp add: 3(2) augins_lifecycle_fire_load_def fire_load_loop_result entry_ok_def mapped_def)
    qed
    ultimately show ?thesis by blast
  qed (use ok in \<open>auto simp: registry_ok_def entry_ok_def mapped_def\<close>)
qed

definition svc_ok :: "('m) mod_env_scheme \<Rightarrow> service \<Rightarrow> bool" where
  "svc_ok env s \<longleftrightarrow> registry_ok env (sv_loader s) \<and>
    (\<forall>i. \<forall>e \<in> set (sv_clients s i). entry_ok env (sv_loader s) e)"

lemma svc_step_ok: "svc_step env True s s' \<Longrightarrow> svc_ok env s \<Longrightarrow> svc_ok env s'"
proof (induction rule: svc_step.induct)
  case (start jvm ctx s s')
  let ?l = "augins_host_api_set_jvm_ctx jvm ctx (sv_loader s)"
  have same: "entry_ok env ?l e \<longleftrightarrow> entry_ok env (sv_loader s) e" for e
    by (simp add: entry_ok_def mapped_def augins_host_api_set_jvm_ctx_def)
  have reg: "registry_ok env ?l"
    using start(2) by (simp add: svc_ok_def registry_ok_def same) (simp add: augins_host_api_set_jvm_ctx_def)
  from start(1) consider "s' = s\<lparr>sv_loader := ?l\<rparr>"
    | l where "augins_loader_init env (sv_modules_dir s) (sv_cache_dir s) ?l = Some l"
        "s' = s\<lparr>sv_loader := l, sv_thread := True\<rparr>"
    by (auto simp: nativeStartServer_def startServer_def split: if_splits option.splits)
  then show ?case
  proof cases
    case 1
    then show ?thesis using start(2) reg by (simp add: svc_ok_def same)
  next
    case 2
    then show ?thesis using init_registry [OF 2(1) reg] start(2) by (auto simp: svc_ok_def same)
  qed
next
  case (started s b)
  then show ?case by (simp add: svc_ok_def signalStartupComplete_def)
next
  case (enter s i name)
  have "set (snd (aug_get_modules_for (g_map (sv_loader s)) (Some name) kMaxChain))
      \<subseteq> set (chain_of (g_map (sv_loader s)) name)"
    by (auto simp: aug_get_modules_for_def chain_of_def kMaxChain_def Let_def dest: in_set_takeD split: option.splits)
  with enter show ?case by (auto simp: svc_ok_def registry_ok_def)
next
  case (call s i e es rest)
  then show ?case by (auto simp: svc_ok_def) (metis list.set_intros(2) empty_iff list.set(1))
next
  case (stop s)
  then have "sv_clients (snd (nativeShutdownServer s)) = (\<lambda>_. [])"
    by (auto simp: nativeShutdownServer_def shutdownServer_def split: if_splits)
  moreover have "registry_ok env (augins_loader_shutdown l)" if "registry_ok env l" for l
  proof (cases "g_initialised l")
    case True
    then show ?thesis by (simp add: shutdown_result registry_ok_def)
  next
    case False
    with that show ?thesis by (simp add: augins_loader_shutdown_def)
  qed
  ultimately show ?case using stop(2)
    by (auto simp: svc_ok_def nativeShutdownServer_def shutdownServer_def split: if_splits)
qed

lemma svc_reach_ok: "svc_reach env True s s' \<Longrightarrow> svc_ok env s \<Longrightarrow> svc_ok env s'"
  by (induction rule: svc_reach.induct) (auto intro: svc_step_ok)


end
