(* ===== verification/Augins_Calls.thy ===== *)
theory Augins_Calls
  imports Augins_Properties
begin

text \<open>
  What a client of the service is answered when modules override a call: the default of the runtime, changed by
  every module of the chain in turn. Then the gaps between the documented contract and the code, and the
  concrete service of the examples.
\<close>

section \<open>The chain as a specification\<close>

fun consult :: "(nat \<Rightarrow> string \<Rightarrow> 'l \<Rightarrow> int \<times> 'l) \<Rightarrow> link list \<Rightarrow> 'l \<Rightarrow> 'l option" where
  "consult call [] loc = Some loc"
| "consult call ((fn, mid, dir, p) # ls) loc =
    (if fst (call fn dir loc) = 0 then consult call ls (snd (call fn dir loc)) else None)"

lemma run_chain_consult:
  assumes "\<forall>e \<in> set es. e_data_dir e < length strings"
  shows "\<exists>xr loc'. run_chain call strings es st loc = Inr (xr, loc', st) \<and>
    consult call (map (read_entry strings) es) loc = (if xr = 0 then Some loc' else None)"
  using assms
proof (induction es arbitrary: loc)
  case (Cons e es)
  let ?r = "call (e_fn e) (strings ! e_data_dir e) loc"
  show ?case
  proof (cases "fst ?r = 0")
    case True
    have step: "\<exists>xr loc'. run_chain call strings es st (snd ?r) = Inr (xr, loc', st) \<and>
        consult call (map (read_entry strings) es) (snd ?r) = (if xr = 0 then Some loc' else None)"
      using Cons.IH [of "snd ?r"] Cons.prems by auto
    obtain loc1 where r: "?r = (0, loc1)" using True by (cases ?r) simp
    have "read_entry strings e = (e_fn e, strings ! e_module_id e, strings ! e_data_dir e, e_priority e)"
      by (simp add: read_entry_def)
    then show ?thesis using step r Cons.prems by (simp add: Let_def)
  next
    case False
    obtain xr loc1 where r: "?r = (xr, loc1)" "xr \<noteq> 0" using False by (cases ?r) simp
    have "read_entry strings e = (e_fn e, strings ! e_module_id e, strings ! e_data_dir e, e_priority e)"
      by (simp add: read_entry_def)
    then show ?thesis using r Cons.prems by (simp add: Let_def)
  qed
qed simp

lemma get_modules_chain:
  "aug_get_modules_for reg (Some name) kMaxChain = (min (length (chain_of reg name)) 16, take 16 (chain_of reg name))"
  by (simp add: aug_get_modules_for_def chain_of_def kMaxChain_def Let_def split: option.splits)
    (simp add: min_def)

lemma has_modules_chain: "aug_has_modules_for (g_map s) (Some name) \<longleftrightarrow> chain_links s name \<noteq> []"
  by (simp add: aug_has_modules_for_def chain_links_def chain_of_def split: option.splits)

lemma chain_run:
  assumes "pointers_ok s"
  shows "\<exists>xr loc'. run_chain call (g_perm_strings s)
      (take (fst (aug_get_modules_for (g_map s) (Some name) kMaxChain))
        (snd (aug_get_modules_for (g_map s) (Some name) kMaxChain))) [] loc = Inr (xr, loc', []) \<and>
    consult call (take 16 (chain_links s name)) loc = (if xr = 0 then Some loc' else None)"
proof -
  have cut: "take (min (length c) 16) c = take 16 c" for c :: "internal_entry list"
    by (simp add: min_def)
  have "\<forall>e \<in> set (take 16 (chain_of (g_map s) name)). e_data_dir e < length (g_perm_strings s)"
    using assms by (auto simp: pointers_ok_def dest: in_set_takeD)
  from run_chain_consult [OF this, of call "[]" loc] show ?thesis
    by (simp only: get_modules_chain fst_conv snd_conv take_take cut chain_links_def take_map min.assoc min.idem)
qed

section \<open>Answers\<close>

definition objects_ok :: "client_objects \<Rightarrow> bool" where
  "objects_ok ics \<longleftrightarrow> length (ics_xspcs ics) = 128 \<and> length (ics_xdevs ics) = 32"

text \<open>The answer of a call, given the default's result and the chain.\<close>

definition overridden ::
  "(nat \<Rightarrow> string \<Rightarrow> 'f::zero space_location \<Rightarrow> int \<times> 'f space_location) \<Rightarrow> link list \<Rightarrow>
    xrt_result \<times> 'f space_relation \<Rightarrow> xrt_result \<times> 'f space_relation" where
  "overridden call links dflt =
    (if fst dflt \<noteq> XRT_SUCCESS \<or> links = [] then dflt
     else (case consult call (take 16 links) (location_of (snd dflt)) of
             None \<Rightarrow> (XRT_ERROR_IPC_FAILURE, snd dflt)
           | Some loc \<Rightarrow> (XRT_SUCCESS, pack_location loc (snd dflt))))"

lemma validate_space_total:
  "objects_ok ics \<Longrightarrow> \<exists>v. validate_space_id ics (uint sid) = Inr v"
proof (cases "128 \<le> uint sid")
  case False
  moreover assume "objects_ok ics"
  ultimately have "nat (uint sid) < length (ics_xspcs ics)"
    unfolding objects_ok_def by linarith
  then show ?thesis
    using False by (simp add: validate_space_id_def IPC_MAX_CLIENT_SPACES_def split: option.splits)
qed (simp add: validate_space_id_def IPC_MAX_CLIENT_SPACES_def)

lemma get_xdev_total:
  "objects_ok ics \<Longrightarrow> \<exists>v. ipc_server_objects_get_xdev_and_validate ics xid = Inr v"
  by (auto simp: ipc_server_objects_get_xdev_and_validate_def objects_ok_def XRT_SYSTEM_MAX_DEVICES_def
      split: option.splits)

lemma is_head_total: "objects_ok ics \<Longrightarrow> \<exists>b. ipc_server_xdev_is_head_role ics xid = Inr b"
  by (auto simp: ipc_server_xdev_is_head_role_def objects_ok_def XRT_SYSTEM_MAX_DEVICES_def split: option.splits)

lemma locate_space_total:
  assumes "objects_ok ics"
  shows "\<exists>dflt. ipc_handle_space_locate_space cenv ics b bo t sp off rel = Inr dflt"
proof -
  obtain v w where "validate_space_id ics (uint b) = Inr v" "validate_space_id ics (uint sp) = Inr w"
    using validate_space_total [OF assms] by blast
  then show ?thesis by (cases v; cases w) (simp_all add: ipc_handle_space_locate_space_def)
qed

lemma locate_device_total:
  assumes "objects_ok ics"
  shows "\<exists>dflt. ipc_handle_space_locate_device cenv ics b bo t xid rel = Inr dflt"
proof -
  obtain v w where "validate_space_id ics (uint b) = Inr v"
      "ipc_server_objects_get_xdev_and_validate ics xid = Inr w"
    using validate_space_total [OF assms] get_xdev_total [OF assms] by blast
  then show ?thesis by (cases v; cases w) (simp_all add: ipc_handle_space_locate_device_def)
qed

lemma dispatch_space_answer:
  assumes ptrs: "pointers_ok s"
    and dflt: "ipc_handle_space_locate_space cenv ics b bo t sp off rel = Inr dflt"
  shows "dispatch_space_locate_space cenv s ics b bo t sp off rel =
    Inr (overridden (\<lambda>fn dir. mod_xrLocateSpace cenv fn dir (ucast sp) (ucast b) t)
      (chain_links s ''xrLocateSpace'') dflt)"
proof (cases "chain_links s ''xrLocateSpace'' = [] \<or> fst dflt \<noteq> XRT_SUCCESS")
  case True
  then show ?thesis
    using dflt by (cases dflt)
      (auto simp: dispatch_space_locate_space_def has_modules_chain overridden_def aug_adapter_space_locate_space_def)
next
  case False
  obtain rel' where d: "dflt = (XRT_SUCCESS, rel')" using False by (cases dflt) simp
  obtain xr loc' where "run_chain (\<lambda>fn dir loc. mod_xrLocateSpace cenv fn dir (ucast sp) (ucast b) t loc) (g_perm_strings s)
      (take (fst (aug_get_modules_for (g_map s) (Some ''xrLocateSpace'') kMaxChain))
        (snd (aug_get_modules_for (g_map s) (Some ''xrLocateSpace'') kMaxChain))) [] (location_of rel') = Inr (xr, loc', [])"
      "consult (\<lambda>fn dir loc. mod_xrLocateSpace cenv fn dir (ucast sp) (ucast b) t loc)
        (take 16 (chain_links s ''xrLocateSpace'')) (location_of rel') = (if xr = 0 then Some loc' else None)"
    using chain_run [OF ptrs, of "\<lambda>fn dir loc. mod_xrLocateSpace cenv fn dir (ucast sp) (ucast b) t loc"
      "''xrLocateSpace''" "location_of rel'"] by auto
  then show ?thesis
    using False dflt d
    by (simp add: dispatch_space_locate_space_def has_modules_chain overridden_def
        aug_adapter_space_locate_space_def xr_result_to_xrt_def case_prod_beta Let_def)
qed

lemma dispatch_device_answer:
  assumes ptrs: "pointers_ok s"
    and dflt: "ipc_handle_space_locate_device cenv ics b bo t xid rel = Inr dflt"
    and head: "ipc_server_xdev_is_head_role ics xid = Inr is_head"
  shows "dispatch_space_locate_device cenv s ics b bo t xid rel =
    Inr (if is_head then overridden (\<lambda>fn dir. mod_LocateDeviceInSpace cenv fn dir (ucast b) t)
        (chain_links s ''aug_LocateDeviceInSpace'') dflt else dflt)"
proof (cases "chain_links s ''aug_LocateDeviceInSpace'' = [] \<or> fst dflt \<noteq> XRT_SUCCESS \<or> \<not> is_head")
  case True
  then show ?thesis
    using dflt head by (cases dflt)
      (auto simp: dispatch_space_locate_device_def has_modules_chain overridden_def aug_adapter_space_locate_device_def)
next
  case False
  obtain rel' where d: "dflt = (XRT_SUCCESS, rel')" using False by (cases dflt) simp
  obtain xr loc' where "run_chain (\<lambda>fn dir loc. mod_LocateDeviceInSpace cenv fn dir (ucast b) t loc) (g_perm_strings s)
      (take (fst (aug_get_modules_for (g_map s) (Some ''aug_LocateDeviceInSpace'') kMaxChain))
        (snd (aug_get_modules_for (g_map s) (Some ''aug_LocateDeviceInSpace'') kMaxChain))) [] (location_of rel') =
        Inr (xr, loc', [])"
      "consult (\<lambda>fn dir loc. mod_LocateDeviceInSpace cenv fn dir (ucast b) t loc)
        (take 16 (chain_links s ''aug_LocateDeviceInSpace'')) (location_of rel') = (if xr = 0 then Some loc' else None)"
    using chain_run [OF ptrs, of "\<lambda>fn dir loc. mod_LocateDeviceInSpace cenv fn dir (ucast b) t loc"
      "''aug_LocateDeviceInSpace''" "location_of rel'"] by auto
  then show ?thesis
    using False dflt d head
    by (simp add: dispatch_space_locate_device_def has_modules_chain overridden_def
        aug_adapter_space_locate_device_def xr_result_to_xrt_def case_prod_beta Let_def)
qed

text \<open>
  C26. Locating spaces and devices with modules is total on well-sized object tables, and answers the default
  of the runtime changed by the chain: nothing is changed when the default fails, when no module has the function, or
  for devices other than the head; otherwise the first sixteen modules of the chain are called in order on
  the default's location, each with its own data directory; if all succeed the reply is the last location,
  and the first failure turns the reply into a failure that keeps the default's relation.
\<close>

theorem module_chain_answers:
  assumes "pointers_ok s" and "objects_ok ics"
  shows "(\<exists>dflt. ipc_handle_space_locate_space cenv ics b bo t sp off rel = Inr dflt \<and>
      dispatch_space_locate_space cenv s ics b bo t sp off rel =
        Inr (if fst dflt \<noteq> XRT_SUCCESS \<or> chain_links s ''xrLocateSpace'' = [] then dflt
          else (case consult (\<lambda>fn dir. mod_xrLocateSpace cenv fn dir (ucast sp) (ucast b) t)
                  (take 16 (chain_links s ''xrLocateSpace'')) (location_of (snd dflt)) of
              None \<Rightarrow> (XRT_ERROR_IPC_FAILURE, snd dflt)
            | Some loc \<Rightarrow> (XRT_SUCCESS, pack_location loc (snd dflt))))) \<and>
    (\<exists>dflt head. ipc_handle_space_locate_device cenv ics b bo t xid rel = Inr dflt \<and>
      ipc_server_xdev_is_head_role ics xid = Inr head \<and>
      dispatch_space_locate_device cenv s ics b bo t xid rel =
        Inr (if \<not> head \<or> fst dflt \<noteq> XRT_SUCCESS \<or> chain_links s ''aug_LocateDeviceInSpace'' = [] then dflt
          else (case consult (\<lambda>fn dir. mod_LocateDeviceInSpace cenv fn dir (ucast b) t)
                  (take 16 (chain_links s ''aug_LocateDeviceInSpace'')) (location_of (snd dflt)) of
              None \<Rightarrow> (XRT_ERROR_IPC_FAILURE, snd dflt)
            | Some loc \<Rightarrow> (XRT_SUCCESS, pack_location loc (snd dflt)))))"
proof (rule conjI)
  obtain dflt where d: "ipc_handle_space_locate_space cenv ics b bo t sp off rel = Inr dflt"
    using locate_space_total [OF assms(2), of cenv b bo t sp off rel] by auto
  show "\<exists>dflt. ipc_handle_space_locate_space cenv ics b bo t sp off rel = Inr dflt \<and>
      dispatch_space_locate_space cenv s ics b bo t sp off rel =
        Inr (if fst dflt \<noteq> XRT_SUCCESS \<or> chain_links s ''xrLocateSpace'' = [] then dflt
          else (case consult (\<lambda>fn dir. mod_xrLocateSpace cenv fn dir (ucast sp) (ucast b) t)
                  (take 16 (chain_links s ''xrLocateSpace'')) (location_of (snd dflt)) of
              None \<Rightarrow> (XRT_ERROR_IPC_FAILURE, snd dflt)
            | Some loc \<Rightarrow> (XRT_SUCCESS, pack_location loc (snd dflt))))"
    using dispatch_space_answer [OF assms(1) d] d unfolding overridden_def by blast
  obtain dflt head where d: "ipc_handle_space_locate_device cenv ics b bo t xid rel = Inr dflt"
      "ipc_server_xdev_is_head_role ics xid = Inr head"
    using locate_device_total [OF assms(2), of cenv b bo t xid rel] is_head_total [OF assms(2), of xid] by auto
  then show "\<exists>dflt head. ipc_handle_space_locate_device cenv ics b bo t xid rel = Inr dflt \<and>
      ipc_server_xdev_is_head_role ics xid = Inr head \<and>
      dispatch_space_locate_device cenv s ics b bo t xid rel =
        Inr (if \<not> head \<or> fst dflt \<noteq> XRT_SUCCESS \<or> chain_links s ''aug_LocateDeviceInSpace'' = [] then dflt
          else (case consult (\<lambda>fn dir. mod_LocateDeviceInSpace cenv fn dir (ucast b) t)
                  (take 16 (chain_links s ''aug_LocateDeviceInSpace'')) (location_of (snd dflt)) of
              None \<Rightarrow> (XRT_ERROR_IPC_FAILURE, snd dflt)
            | Some loc \<Rightarrow> (XRT_SUCCESS, pack_location loc (snd dflt))))"
    using dispatch_device_answer [OF assms(1) d] unfolding overridden_def
    by (intro exI [of _ dflt] exI [of _ head]) auto
qed

section \<open>Precedence\<close>

lemma insort_key_snoc: "f x \<le> f w \<Longrightarrow> insort_key f x (zs @ [w]) = insort_key f x zs @ [w]"
  by (induction zs) auto

lemma insort_key_last: "\<forall>y \<in> set ys. f y < f w \<Longrightarrow> insort_key f w ys = ys @ [w]"
  by (induction ys) auto

text \<open>The last of the greatest elements ends up last.\<close>

lemma sort_key_winner:
  assumes "\<forall>x \<in> set xs. f x \<le> f w" and "\<forall>y \<in> set ys. f y < f w"
  shows "sort_key f (xs @ w # ys) = sort_key f (xs @ ys) @ [w]"
  using assms
proof (induction xs)
  case Nil
  then show ?case using insort_key_last [of "sort_key f ys" f w] by simp
next
  case (Cons x xs)
  then show ?case by (simp add: insort_key_snoc)
qed

lemma consult_all:
  assumes "\<forall>l \<in> set ls. \<forall>loc. fst (call (fst l) (fst (snd (snd l))) loc) = 0"
  shows "\<exists>loc'. consult call ls loc = Some loc'"
  using assms
proof (induction ls arbitrary: loc)
  case (Cons l ls)
  then show ?case by (cases l) simp
qed simp

lemma consult_append: "consult call (ls @ ls') loc =
  (case consult call ls loc of None \<Rightarrow> None | Some loc' \<Rightarrow> consult call ls' loc')"
  by (induction call ls loc rule: consult.induct) auto


section \<open>Examples and gaps\<close>

text \<open>One package with one function and a load hook that answers \<open>rc\<close>.\<close>

definition demo_json :: cjson where
  "demo_json = CObject [(''Manifest_Version'', CNumber 1), (''ID'', CString ''m''), (''Version'', CString ''1''),
     (''Implemented_Functions'', CArray [CString ''xrLocateSpace''])]"

definition demo_mods :: "int \<Rightarrow> mod_env" where
  "demo_mods rc = \<lparr>may_mkdir = (\<lambda>_. True), may_open = (\<lambda>_. True), may_read = (\<lambda>_. True),
     write_result = (\<lambda>_ _. Some 4096), read_result = (\<lambda>_ _. 4096), stamp_flush = (\<lambda>_. 4096),
     zip_entries = (\<lambda>_. Some [entry ''metadata.json'' ''M'', entry ''m.so'' ''L'']),
     json_parse = (\<lambda>_. Some demo_json),
     list_dir = (\<lambda>_ p. Some (if p = ''/m'' then [''.'', ''a.augins''] else [])),
     dlopen = (\<lambda>_ p. if p = ''/c/_staged/a.augins/m.so'' then Some 1 else None),
     dlsym = (\<lambda>h n. if h \<noteq> 1 then None else if n = ''xrLocateSpace'' then Some 7
                else if n = ''aug_on_module_load'' then Some 8 else None),
     call_on_load = (\<lambda>_ _. rc)\<rparr>"

definition demo_mods_fs :: fsys where
  "demo_mods_fs = [[''m''] \<mapsto> Dir, [''m'', ''a.augins''] \<mapsto> File ''x'', [''c''] \<mapsto> Dir]"

text \<open>The overseer answers a zero relation; module \<open>n\<close> writes \<open>n\<close> into the position.\<close>

definition demo_relation :: "int space_relation" where
  "demo_relation = \<lparr>relation_flags = 63, r_position = (0, 0, 0), r_orientation = (0, 0, 0, 1),
     linear_velocity = (5, 5, 5), angular_velocity = (0, 0, 0)\<rparr>"

definition demo_location :: "nat \<Rightarrow> int space_location" where
  "demo_location n = \<lparr>locationFlags = 15, l_position = (int n, 0, 0), l_orientation = (0, 0, 0, 1)\<rparr>"

definition demo_calls :: "(int, unit) call_env" where
  "demo_calls = \<lparr>xso_locate_space = (\<lambda>_ _ _ _ _ _. (XRT_SUCCESS, demo_relation)),
     xso_locate_device = (\<lambda>_ _ _ _ _. (XRT_SUCCESS, demo_relation)),
     mod_xrLocateSpace = (\<lambda>fn _ _ _ _ _. (0, demo_location fn)),
     mod_LocateDeviceInSpace = (\<lambda>fn _ _ _ _. (0, demo_location fn))\<rparr>"

definition demo_objects :: client_objects where
  "demo_objects = \<lparr>ics_xspcs = replicate 128 (Some 0), ics_xdevs = replicate 32 (Some 0), xsysd_head = Some (Some 0)\<rparr>"

text \<open>Seventeen modules with priorities zero to sixteen.\<close>

definition crowded :: loader_state where
  "crowded = (initial_loader Map.empty)\<lparr>g_perm_strings := [''m''],
     g_map := [''xrLocateSpace'' \<mapsto> map (\<lambda>i. \<lparr>e_fn = i, e_module_id = 0, e_data_dir = 0, e_priority = int i\<rparr>) [0..<17]]\<rparr>"

lemma demo_default:
  "ipc_handle_space_locate_space demo_calls demo_objects 0 () t 0 () r = Inr (XRT_SUCCESS, demo_relation)"
  by (simp add: ipc_handle_space_locate_space_def validate_space_id_def demo_objects_def IPC_MAX_CLIENT_SPACES_def
      demo_calls_def)


text \<open>The service of the example, started, with one client thread about to call the module.\<close>

definition demo_service :: service where
  "demo_service = new_service demo_mods_fs (Some ''/m'') (Some ''/c'')"

lemma demo_started:
  "case nativeStartServer (demo_mods 0) None None demo_service of
     None \<Rightarrow> False
   | Some s \<Rightarrow> snd (aug_get_modules_for (g_map (sv_loader s)) (Some ''xrLocateSpace'') kMaxChain) =
       [\<lparr>e_fn = 7, e_module_id = 0, e_data_dir = 1, e_priority = 100\<rparr>] \<and>
     open_libs (augins_loader_shutdown (sv_loader s)) = []"
  by code_simp

lemma demo_in_chain:
  obtains s where "svc_reach (demo_mods 0) waits demo_service s"
    and "sv_clients s 0 = [\<lparr>e_fn = 7, e_module_id = 0, e_data_dir = 1, e_priority = 100\<rparr>]"
    and "open_libs (augins_loader_shutdown (sv_loader s)) = []"
proof -
  obtain s1 where s1: "nativeStartServer (demo_mods 0) None None demo_service = Some s1"
      "snd (aug_get_modules_for (g_map (sv_loader s1)) (Some ''xrLocateSpace'') kMaxChain) =
        [\<lparr>e_fn = 7, e_module_id = 0, e_data_dir = 1, e_priority = 100\<rparr>]"
      "open_libs (augins_loader_shutdown (sv_loader s1)) = []"
    using demo_started by (auto split: option.splits)
  have started: "sv_thread s1" "sv_clients s1 = (\<lambda>_. [])"
    using s1(1) by (auto simp: nativeStartServer_def startServer_def demo_service_def new_service_def
        split: option.splits)
  let ?s2 = "signalStartupComplete True s1"
  let ?s3 = "?s2\<lparr>sv_clients := (sv_clients ?s2)
    (0 := snd (aug_get_modules_for (g_map (sv_loader ?s2)) (Some ''xrLocateSpace'') kMaxChain))\<rparr>"
  have "svc_reach (demo_mods 0) waits demo_service s1"
    by (rule svc_reach.step [OF svc_reach.refl]) (rule svc_step.start [OF s1(1)])
  then have "svc_reach (demo_mods 0) waits demo_service ?s2"
    by (rule svc_reach.step) (rule svc_step.started [OF started(1)])
  then have "svc_reach (demo_mods 0) waits demo_service ?s3"
    by (rule svc_reach.step) (rule svc_step.enter, simp_all add: signalStartupComplete_def started)
  then show thesis
    by (rule that) (simp_all add: signalStartupComplete_def s1)
qed

text \<open>
  C39. The stop as it is does not wait: a client thread that has taken its copy of the chain is left with a call to a
  function of a library that is closed.
\<close>

theorem stop_unmaps_running_module:
  "\<exists>s e es. svc_reach (demo_mods 0) False (new_service demo_mods_fs (Some ''/m'') (Some ''/c'')) s \<and>
    sv_clients s 0 = e # es \<and>
    \<not> (\<exists>h \<in> set (open_libs (sv_loader s)). \<exists>name. dlsym (demo_mods 0) h name = Some (e_fn e))"
proof -
  obtain s where s: "svc_reach (demo_mods 0) False demo_service s"
      "sv_clients s 0 = [\<lparr>e_fn = 7, e_module_id = 0, e_data_dir = 1, e_priority = 100\<rparr>]"
      "open_libs (augins_loader_shutdown (sv_loader s)) = []"
    by (rule demo_in_chain)
  let ?s' = "snd (nativeShutdownServer s)"
  have "svc_reach (demo_mods 0) False demo_service ?s'"
    by (rule svc_reach.step [OF s(1)]) (rule svc_step.stop, simp)
  moreover have "sv_clients ?s' = sv_clients s" "sv_loader ?s' = augins_loader_shutdown (sv_loader s)"
    by (simp_all add: nativeShutdownServer_def shutdownServer_def)
  ultimately show ?thesis
    using s(2,3) unfolding demo_service_def by (intro exI [of _ ?s'] exI conjI) auto
qed


lemma demo_fresh: "fresh_loader (initial_loader demo_mods_fs)"
  by (simp add: fresh_loader_def initial_loader_def)


theorem loader_stop_reverses_start_witness:
  "\<exists>s1. augins_loader_init (demo_mods 0) (Some ''/m'') (Some ''/c'') (initial_loader demo_mods_fs) = Some s1 \<and>
    trace (augins_loader_shutdown s1) = [OnLoad 8 ''/c/_staged/a.augins'', DlClose 1] \<and>
    fresh_loader (augins_loader_shutdown s1)"
proof -
  have "case augins_loader_init (demo_mods 0) (Some ''/m'') (Some ''/c'') (initial_loader demo_mods_fs) of
      None \<Rightarrow> False
    | Some s1 \<Rightarrow> trace (initial_loader demo_mods_fs) @ load_events (g_loaded s1) @
        unload_events (rev (g_loaded s1)) @ map (\<lambda>m. DlClose (lm_handle m)) (rev (g_loaded s1)) =
        [OnLoad 8 ''/c/_staged/a.augins'', DlClose 1]"
    by code_simp
  then obtain s1 where s1: "augins_loader_init (demo_mods 0) (Some ''/m'') (Some ''/c'') (initial_loader demo_mods_fs) = Some s1"
      "trace (initial_loader demo_mods_fs) @ load_events (g_loaded s1) @ unload_events (rev (g_loaded s1)) @
        map (\<lambda>m. DlClose (lm_handle m)) (rev (g_loaded s1)) = [OnLoad 8 ''/c/_staged/a.augins'', DlClose 1]"
    by (auto split: option.splits)
  then show ?thesis
    using loader_stop_reverses_start [OF demo_fresh _ _ s1(1)] by simp
qed

theorem module_chain_answers_witness:
  "dispatch_space_locate_space demo_calls crowded demo_objects 0 () 0 0 () demo_relation =
    Inr (XRT_SUCCESS, pack_location (demo_location 15) demo_relation)"
proof -
  have side: "pointers_ok crowded" "objects_ok demo_objects"
    by (auto simp: pointers_ok_def crowded_def chain_of_def objects_ok_def demo_objects_def split: if_splits)
  have "consult (\<lambda>fn dir. mod_xrLocateSpace demo_calls fn dir 0 0 0) (take 16 (chain_links crowded ''xrLocateSpace''))
      (location_of demo_relation) = Some (demo_location 15)" "chain_links crowded ''xrLocateSpace'' \<noteq> []"
    by code_simp+
  then show ?thesis
    using module_chain_answers [OF side, of demo_calls 0 "()" 0 0 "()" demo_relation] demo_default
    by auto
qed


text \<open>A version number is cut off before it is compared, and items that are no strings are dropped.\<close>

lemma manifest_version_cut:
  "map_option implemented_functions (manifest_of (CObject [(''Manifest_Version'', CNumber (19 / 10)),
      (''ID'', CString ''m''), (''Version'', CString ''1''),
      (''Implemented_Functions'', CArray [CNumber 1, CString ''xrLocateSpace''])])) = Some [''xrLocateSpace'']"
  by (simp add: manifest_of_def valueint_def INT_MAX_def INT_MIN_def AUG_MANIFEST_VERSION_def optional_string_def floor_eq_iff)

end
