(* ===== verification/Input_Transform.thy ===== *)
theory Input_Transform
  imports C_Float "HOL-Library.Word"
begin

text \<open>
  The transforms that turn what a device delivers into what an action wants:
  \<^verbatim>\<open>state_trackers/oxr/actions/oxr_input_transform.[ch]\<close>.

  A name of an input is the pair of its id and its type, which \<^verbatim>\<open>XRT_INPUT_NAME\<close> packs into one number; the
  number 0 is the pair of id 0 and type \<open>XRT_INPUT_TYPE_VEC1_ZERO_TO_ONE\<close>. The union \<^verbatim>\<open>xrt_input_value\<close> is a
  datatype that knows the member written last: reading another one is a fault, except that all members are
  readable while the union is zero, and \<^verbatim>\<open>vec1\<close> is the common initial part of \<^verbatim>\<open>vec2\<close>. The devices live in a heap; a
  pointer to an input is the address of the device and the index. A chain of transforms is a list, \<open>None\<close> is
  the null pointer. The dpad transform keeps a state, so processing returns the chain too. \<^verbatim>\<open>atan2f\<close> is an argument.
\<close>

unbundle bit_operations_syntax

section \<open>Data\<close>

datatype xrt_input_type =
    XRT_INPUT_TYPE_VEC1_ZERO_TO_ONE
  | XRT_INPUT_TYPE_VEC1_MINUS_ONE_TO_ONE
  | XRT_INPUT_TYPE_VEC2_MINUS_ONE_TO_ONE
  | XRT_INPUT_TYPE_VEC3_MINUS_ONE_TO_ONE
  | XRT_INPUT_TYPE_BOOLEAN
  | XRT_INPUT_TYPE_POSE
  | XRT_INPUT_TYPE_HAND_TRACKING
  | XRT_INPUT_TYPE_FACE_TRACKING
  | XRT_INPUT_TYPE_BODY_TRACKING

type_synonym xrt_input_name = "nat \<times> xrt_input_type"

abbreviation XRT_GET_INPUT_TYPE :: "xrt_input_name \<Rightarrow> xrt_input_type" where
  "XRT_GET_INPUT_TYPE \<equiv> snd"

definition no_input_name :: xrt_input_name where
  "no_input_name = (0, XRT_INPUT_TYPE_VEC1_ZERO_TO_ONE)"

datatype XrActionType =
    XR_ACTION_TYPE_BOOLEAN_INPUT
  | XR_ACTION_TYPE_FLOAT_INPUT
  | XR_ACTION_TYPE_VECTOR2F_INPUT
  | XR_ACTION_TYPE_POSE_INPUT
  | XR_ACTION_TYPE_VIBRATION_OUTPUT

datatype xrt_input_value = ValueZero | ValueVec1 c_float | ValueVec2 c_float c_float | ValueBoolean bool

fun value_vec1 :: "xrt_input_value \<Rightarrow> fault + c_float" where
  "value_vec1 ValueZero = Inr (Fin 0)"
| "value_vec1 (ValueVec1 x) = Inr x"
| "value_vec1 (ValueVec2 x y) = Inr x"
| "value_vec1 (ValueBoolean b) = Inl WrongMember"

fun value_vec2 :: "xrt_input_value \<Rightarrow> fault + c_float \<times> c_float" where
  "value_vec2 ValueZero = Inr (Fin 0, Fin 0)"
| "value_vec2 (ValueVec2 x y) = Inr (x, y)"
| "value_vec2 _ = Inl WrongMember"

fun value_boolean :: "xrt_input_value \<Rightarrow> fault + bool" where
  "value_boolean ValueZero = Inr False"
| "value_boolean (ValueBoolean b) = Inr b"
| "value_boolean _ = Inl WrongMember"

record oxr_input_value_tagged =
  tv_type :: xrt_input_type
  tv_value :: xrt_input_value

record xrt_input =
  in_active :: bool
  in_timestamp :: int
  in_name :: xrt_input_name
  in_value :: xrt_input_value

record xrt_binding_profile =
  xbp_name :: nat
  xbp_inputs :: "(xrt_input_name \<times> xrt_input_name) list"   \<comment> \<open>\<^verbatim>\<open>from\<close> and \<^verbatim>\<open>device\<close>\<close>
  xbp_outputs :: "(nat \<times> nat) list"

record xrt_device =
  xd_name :: nat
  xd_inputs :: "xrt_input list"
  xd_outputs :: "nat list"
  xd_binding_profiles :: "xrt_binding_profile list"

type_synonym devices = "addr \<Rightarrow> xrt_device option"

type_synonym input_ptr = "addr \<times> nat"

definition read_input :: "devices \<Rightarrow> input_ptr \<Rightarrow> fault + xrt_input" where
  "read_input devs p = try_bind (deref devs (fst p)) (\<lambda>xdev. arr_get (xd_inputs xdev) (snd p))"

section \<open>Transforms\<close>

text \<open>\<^verbatim>\<open>enum oxr_dpad_region\<close>: a set of bits.\<close>

type_synonym oxr_dpad_region = "32 word"

definition OXR_DPAD_REGION_CENTER :: oxr_dpad_region where "OXR_DPAD_REGION_CENTER = 0"
definition OXR_DPAD_REGION_UP :: oxr_dpad_region where "OXR_DPAD_REGION_UP = 1"
definition OXR_DPAD_REGION_DOWN :: oxr_dpad_region where "OXR_DPAD_REGION_DOWN = 2"
definition OXR_DPAD_REGION_LEFT :: oxr_dpad_region where "OXR_DPAD_REGION_LEFT = 4"
definition OXR_DPAD_REGION_RIGHT :: oxr_dpad_region where "OXR_DPAD_REGION_RIGHT = 8"

record oxr_dpad_settings =
  forceThreshold :: c_float
  forceThresholdReleased :: c_float
  centerRegion :: c_float
  wedgeAngle :: c_float
  isSticky :: bool

record oxr_input_transform_dpad_data =
  bound_region :: oxr_dpad_region
  active_regions :: oxr_dpad_region
  dpad_settings :: oxr_dpad_settings
  activation_input_type :: xrt_input_type
  activation_input :: "input_ptr option"
  already_active :: bool

text \<open>The tag of a transform with the member of the union that belongs to it.\<close>

datatype oxr_input_transform_type =
    INPUT_TRANSFORM_INVALID
  | INPUT_TRANSFORM_IDENTITY
  | INPUT_TRANSFORM_VEC2_GET_X
  | INPUT_TRANSFORM_VEC2_GET_Y
  | INPUT_TRANSFORM_THRESHOLD c_float bool
  | INPUT_TRANSFORM_BOOL_TO_VEC1 c_float c_float
  | INPUT_TRANSFORM_DPAD oxr_input_transform_dpad_data

record oxr_input_transform =
  xf_type :: oxr_input_transform_type
  xf_result_type :: xrt_input_type

definition OXR_MAX_INPUT_TRANSFORMS :: nat where
  "OXR_MAX_INPUT_TRANSFORMS = 5"

section \<open>Initialising a transform\<close>

definition oxr_input_transform_init_root :: "xrt_input_type \<Rightarrow> oxr_input_transform" where
  "oxr_input_transform_init_root input_type =
     \<lparr>xf_type = INPUT_TRANSFORM_IDENTITY, xf_result_type = input_type\<rparr>"

definition oxr_input_transform_init_vec2_get_x :: "oxr_input_transform \<Rightarrow> fault + oxr_input_transform" where
  "oxr_input_transform_init_vec2_get_x parent =
     try_bind (c_assert (xf_result_type parent = XRT_INPUT_TYPE_VEC2_MINUS_ONE_TO_ONE)) (\<lambda>_.
       Inr \<lparr>xf_type = INPUT_TRANSFORM_VEC2_GET_X, xf_result_type = XRT_INPUT_TYPE_VEC1_MINUS_ONE_TO_ONE\<rparr>)"

definition oxr_input_transform_init_vec2_get_y :: "oxr_input_transform \<Rightarrow> fault + oxr_input_transform" where
  "oxr_input_transform_init_vec2_get_y parent =
     try_bind (c_assert (xf_result_type parent = XRT_INPUT_TYPE_VEC2_MINUS_ONE_TO_ONE)) (\<lambda>_.
       Inr \<lparr>xf_type = INPUT_TRANSFORM_VEC2_GET_Y, xf_result_type = XRT_INPUT_TYPE_VEC1_MINUS_ONE_TO_ONE\<rparr>)"

definition oxr_input_transform_init_vec2_dpad ::
  "oxr_input_transform \<Rightarrow> oxr_dpad_settings \<Rightarrow> oxr_dpad_region \<Rightarrow> xrt_input_type \<Rightarrow> input_ptr option
   \<Rightarrow> fault + oxr_input_transform" where
  "oxr_input_transform_init_vec2_dpad parent settings region act_type act_input =
     try_bind (c_assert (xf_result_type parent = XRT_INPUT_TYPE_VEC2_MINUS_ONE_TO_ONE)) (\<lambda>_.
       Inr \<lparr>xf_type = INPUT_TRANSFORM_DPAD
              \<lparr>bound_region = region, active_regions = OXR_DPAD_REGION_CENTER, dpad_settings = settings,
               activation_input_type = act_type, activation_input = act_input,
               already_active = (act_input = None)\<rparr>,
            xf_result_type = XRT_INPUT_TYPE_BOOLEAN\<rparr>)"

definition oxr_input_transform_init_threshold ::
  "oxr_input_transform \<Rightarrow> c_float \<Rightarrow> bool \<Rightarrow> fault + oxr_input_transform" where
  "oxr_input_transform_init_threshold parent threshold invert =
     try_bind (c_assert (xf_result_type parent = XRT_INPUT_TYPE_VEC1_MINUS_ONE_TO_ONE
                         \<or> xf_result_type parent = XRT_INPUT_TYPE_VEC1_ZERO_TO_ONE)) (\<lambda>_.
       Inr \<lparr>xf_type = INPUT_TRANSFORM_THRESHOLD threshold invert, xf_result_type = XRT_INPUT_TYPE_BOOLEAN\<rparr>)"

definition oxr_input_transform_init_bool_to_vec1 ::
  "oxr_input_transform \<Rightarrow> xrt_input_type \<Rightarrow> c_float \<Rightarrow> c_float \<Rightarrow> fault + oxr_input_transform" where
  "oxr_input_transform_init_bool_to_vec1 parent result_type true_val false_val =
     try_bind (c_assert (xf_result_type parent = XRT_INPUT_TYPE_BOOLEAN)) (\<lambda>_.
     try_bind (c_assert (result_type = XRT_INPUT_TYPE_VEC1_MINUS_ONE_TO_ONE
                         \<or> result_type = XRT_INPUT_TYPE_VEC1_ZERO_TO_ONE)) (\<lambda>_.
       Inr \<lparr>xf_type = INPUT_TRANSFORM_BOOL_TO_VEC1 true_val false_val, xf_result_type = result_type\<rparr>))"

section \<open>Processing a value\<close>

text \<open>The activation of a dpad: whether the force input holds it active.\<close>

definition dpad_activation :: "devices \<Rightarrow> oxr_input_transform_dpad_data \<Rightarrow> input_ptr \<Rightarrow> fault + bool" where
  "dpad_activation devs d p =
     (case activation_input_type d of
        XRT_INPUT_TYPE_BOOLEAN \<Rightarrow>
          try_bind (read_input devs p) (\<lambda>input. value_boolean (in_value input))
      | XRT_INPUT_TYPE_VEC1_ZERO_TO_ONE \<Rightarrow>
          try_bind (read_input devs p) (\<lambda>input.
          try_bind (value_vec1 (in_value input)) (\<lambda>force.
            Inr (flt_le (forceThreshold (dpad_settings d)) force
                 \<or> already_active d \<and> flt_le (forceThresholdReleased (dpad_settings d)) force)))
      | _ \<Rightarrow> Inr False)"

text \<open>One pass of the loop over the four regions.\<close>

definition dpad_query ::
  "(c_float \<Rightarrow> c_float \<Rightarrow> c_float) \<Rightarrow> oxr_dpad_settings \<Rightarrow> c_float \<times> c_float \<Rightarrow> nat
   \<Rightarrow> oxr_dpad_region \<Rightarrow> oxr_dpad_region" where
  "dpad_query atan2f settings xy i regions =
     (let query_region = push_bit i (1 :: oxr_dpad_region);
          rot90 = (query_region = OXR_DPAD_REGION_LEFT \<or> query_region = OXR_DPAD_REGION_RIGHT);
          rot180 = (query_region = OXR_DPAD_REGION_DOWN \<or> query_region = OXR_DPAD_REGION_RIGHT);
          localX = (if rot90 then snd xy else fst xy);
          localY = (if rot90 then flt_neg (fst xy) else snd xy);
          localX' = (if rot180 then flt_neg localX else localX);
          localY' = (if rot180 then flt_neg localY else localY);
          centerRadius = centerRegion settings
      in if flt_le (flt_add (flt_mul localX' localX') (flt_mul localY' localY')) (flt_mul centerRadius centerRadius)
         then regions
         else
           let tanXY = atan2f localX' localY';
               halfAngle = flt_mul (wedgeAngle settings) (Fin (1 / 2))
           in if flt_less (flt_neg halfAngle) tanXY \<and> flt_le tanXY halfAngle
              then regions OR query_region else regions)"

definition dpad_process ::
  "(c_float \<Rightarrow> c_float \<Rightarrow> c_float) \<Rightarrow> devices \<Rightarrow> oxr_input_transform_dpad_data \<Rightarrow> xrt_input_value
   \<Rightarrow> fault + oxr_input_transform_dpad_data \<times> bool" where
  "dpad_process atan2f devs d v =
     try_bind (case activation_input d of
                 None \<Rightarrow> Inr None
               | Some p \<Rightarrow> try_bind (dpad_activation devs d p) (\<lambda>active. Inr (Some active))) (\<lambda>act.
       let d1 = (case act of None \<Rightarrow> d | Some active \<Rightarrow> d\<lparr>already_active := active\<rparr>)
       in if act = Some False then Inr (d1\<lparr>active_regions := OXR_DPAD_REGION_CENTER\<rparr>, False)
          else try_bind (value_vec2 v) (\<lambda>xy.
            let regions = fold (dpad_query atan2f (dpad_settings d1) xy) [0..<4] OXR_DPAD_REGION_CENTER;
                d2 = (if \<not> already_active d1 \<or> \<not> isSticky (dpad_settings d1)
                        \<or> active_regions d1 = OXR_DPAD_REGION_CENTER \<or> regions = OXR_DPAD_REGION_CENTER
                      then d1\<lparr>active_regions := regions\<rparr> else d1)
            in Inr (d2, active_regions d2 = bound_region d2 \<or> active_regions d2 AND bound_region d2 \<noteq> 0)))"

text \<open>One transform: the transform afterwards and the data, or \<open>None\<close> for \<^verbatim>\<open>return false\<close>.\<close>

definition transform_one ::
  "(c_float \<Rightarrow> c_float \<Rightarrow> c_float) \<Rightarrow> devices \<Rightarrow> oxr_input_transform \<Rightarrow> oxr_input_value_tagged
   \<Rightarrow> fault + oxr_input_transform \<times> oxr_input_value_tagged option" where
  "transform_one atan2f devs xform data =
     (case xf_type xform of
        INPUT_TRANSFORM_IDENTITY \<Rightarrow> Inr (xform, Some (data\<lparr>tv_type := xf_result_type xform\<rparr>))
      | INPUT_TRANSFORM_VEC2_GET_X \<Rightarrow>
          try_bind (value_vec2 (tv_value data)) (\<lambda>xy.
            Inr (xform, Some \<lparr>tv_type = xf_result_type xform, tv_value = ValueVec1 (fst xy)\<rparr>))
      | INPUT_TRANSFORM_VEC2_GET_Y \<Rightarrow>
          try_bind (value_vec2 (tv_value data)) (\<lambda>xy.
            Inr (xform, Some \<lparr>tv_type = xf_result_type xform, tv_value = ValueVec1 (snd xy)\<rparr>))
      | INPUT_TRANSFORM_THRESHOLD threshold invert \<Rightarrow>
          try_bind (value_vec1 (tv_value data)) (\<lambda>x.
            let temp = flt_less threshold x; temp' = (if invert then \<not> temp else temp)
            in Inr (xform, Some \<lparr>tv_type = xf_result_type xform, tv_value = ValueBoolean temp'\<rparr>))
      | INPUT_TRANSFORM_BOOL_TO_VEC1 true_val false_val \<Rightarrow>
          try_bind (value_boolean (tv_value data)) (\<lambda>b.
            Inr (xform, Some \<lparr>tv_type = xf_result_type xform, tv_value = ValueVec1 (if b then true_val else false_val)\<rparr>))
      | INPUT_TRANSFORM_DPAD d \<Rightarrow>
          try_bind (dpad_process atan2f devs d (tv_value data)) (\<lambda>(d', b).
            Inr (xform\<lparr>xf_type := INPUT_TRANSFORM_DPAD d'\<rparr>,
                 Some \<lparr>tv_type = xf_result_type xform, tv_value = ValueBoolean b\<rparr>))
      | INPUT_TRANSFORM_INVALID \<Rightarrow> Inr (xform, None))"

primrec transform_all ::
  "(c_float \<Rightarrow> c_float \<Rightarrow> c_float) \<Rightarrow> devices \<Rightarrow> oxr_input_transform list \<Rightarrow> oxr_input_value_tagged
   \<Rightarrow> fault + oxr_input_transform list \<times> oxr_input_value_tagged option" where
  "transform_all atan2f devs [] data = Inr ([], Some data)"
| "transform_all atan2f devs (xform # xforms) data =
     try_bind (transform_one atan2f devs xform data) (\<lambda>(xform', out).
       case out of
         None \<Rightarrow> Inr (xform' # xforms, None)
       | Some data' \<Rightarrow>
           try_bind (transform_all atan2f devs xforms data') (\<lambda>(xforms', out'). Inr (xform' # xforms', out')))"

definition oxr_input_transform_process ::
  "(c_float \<Rightarrow> c_float \<Rightarrow> c_float) \<Rightarrow> devices \<Rightarrow> oxr_input_transform list option \<Rightarrow> oxr_input_value_tagged
   \<Rightarrow> fault + oxr_input_transform list option \<times> oxr_input_value_tagged option" where
  "oxr_input_transform_process atan2f devs transforms input =
     (case transforms of
        None \<Rightarrow> Inr (None, None)
      | Some xforms \<Rightarrow>
          try_bind (transform_all atan2f devs xforms input) (\<lambda>(xforms', out). Inr (Some xforms', out)))"

section \<open>Building a chain\<close>

definition ends_with :: "string \<Rightarrow> string \<Rightarrow> bool" where
  "ends_with str sfx =
     (length sfx \<le> length str \<and> drop (length str - length sfx) str = sfx)"

definition input_is_float :: "xrt_input_type \<Rightarrow> bool" where
  "input_is_float t \<longleftrightarrow> t = XRT_INPUT_TYPE_VEC1_MINUS_ONE_TO_ONE \<or> t = XRT_INPUT_TYPE_VEC1_ZERO_TO_ONE"

definition input_dim :: "xrt_input_type \<Rightarrow> nat" where
  "input_dim t =
     (case t of
        XRT_INPUT_TYPE_BOOLEAN \<Rightarrow> 1
      | XRT_INPUT_TYPE_VEC1_MINUS_ONE_TO_ONE \<Rightarrow> 1
      | XRT_INPUT_TYPE_VEC1_ZERO_TO_ONE \<Rightarrow> 1
      | XRT_INPUT_TYPE_VEC2_MINUS_ONE_TO_ONE \<Rightarrow> 2
      | _ \<Rightarrow> 0)"

definition oxr_type_matches_xrt :: "xrt_input_type \<Rightarrow> XrActionType \<Rightarrow> bool" where
  "oxr_type_matches_xrt input_type result_type =
     (case result_type of
        XR_ACTION_TYPE_BOOLEAN_INPUT \<Rightarrow> input_type = XRT_INPUT_TYPE_BOOLEAN
      | XR_ACTION_TYPE_FLOAT_INPUT \<Rightarrow> input_is_float input_type
      | XR_ACTION_TYPE_VECTOR2F_INPUT \<Rightarrow> input_type = XRT_INPUT_TYPE_VEC2_MINUS_ONE_TO_ONE
      | _ \<Rightarrow> False)"

definition try_some :: "fault + 'a \<Rightarrow> fault + 'a option" where
  "try_some m = try_bind m (\<lambda>x. Inr (Some x))"

text \<open>\<open>None\<close> is \<^verbatim>\<open>return false\<close>.\<close>

definition extend_transform_array ::
  "oxr_input_transform \<Rightarrow> XrActionType \<Rightarrow> string \<Rightarrow> fault + oxr_input_transform option" where
  "extend_transform_array parent result_type bound_path_string =
     (let input_type = xf_result_type parent
      in if input_dim input_type = 2 \<and> result_type \<noteq> XR_ACTION_TYPE_VECTOR2F_INPUT then
           (if ends_with bound_path_string ''/x'' then try_some (oxr_input_transform_init_vec2_get_x parent)
            else if ends_with bound_path_string ''/y'' then try_some (oxr_input_transform_init_vec2_get_y parent)
            else Inr None)
         else if input_type = XRT_INPUT_TYPE_VEC1_MINUS_ONE_TO_ONE \<and> result_type = XR_ACTION_TYPE_BOOLEAN_INPUT then
           try_some (oxr_input_transform_init_threshold parent (round32 (2 / 10)) False)
         else if input_type = XRT_INPUT_TYPE_VEC1_ZERO_TO_ONE \<and> result_type = XR_ACTION_TYPE_BOOLEAN_INPUT then
           try_some (oxr_input_transform_init_threshold parent (round32 (7 / 10)) False)
         else if input_type = XRT_INPUT_TYPE_BOOLEAN \<and> result_type = XR_ACTION_TYPE_FLOAT_INPUT then
           try_some (oxr_input_transform_init_bool_to_vec1 parent XRT_INPUT_TYPE_VEC1_ZERO_TO_ONE (Fin 1) (Fin 0))
         else Inr None)"

text \<open>
  The loop of \<^verbatim>\<open>oxr_input_transform_create_chain\<close>; \<open>chain\<close> holds the transforms made so far. In the first
  pass the new transform takes the place of the root in the array: its fields are read before they are overwritten.
\<close>

function chain_loop ::
  "XrActionType \<Rightarrow> string \<Rightarrow> oxr_input_transform list \<Rightarrow> oxr_input_transform
   \<Rightarrow> fault + oxr_input_transform list option" where
  "chain_loop result_type path chain current_xform =
     (if oxr_type_matches_xrt (xf_result_type current_xform) result_type then Inr (Some chain)
      else if OXR_MAX_INPUT_TRANSFORMS \<le> length chain then Inr None
      else try_bind (extend_transform_array current_xform result_type path) (\<lambda>new.
        case new of
          None \<Rightarrow> Inr None
        | Some new_xform \<Rightarrow> chain_loop result_type path (chain @ [new_xform]) new_xform))"
  by pat_completeness auto
termination
  by (relation "measure (\<lambda>(_, _, chain, _). OXR_MAX_INPUT_TRANSFORMS - length chain)") auto

declare chain_loop.simps [simp del]

definition oxr_input_transform_create_chain ::
  "xrt_input_type \<Rightarrow> XrActionType \<Rightarrow> string \<Rightarrow> fault + oxr_input_transform list option" where
  "oxr_input_transform_create_chain input_type result_type bound_path_string =
     (let root_xform = oxr_input_transform_init_root input_type
      in if result_type = XR_ACTION_TYPE_POSE_INPUT \<and> input_type = XRT_INPUT_TYPE_POSE
            \<or> oxr_type_matches_xrt (xf_result_type root_xform) result_type
         then Inr (Some [root_xform])
         else chain_loop result_type bound_path_string [] root_xform)"

definition default_dpad_settings :: oxr_dpad_settings where
  "default_dpad_settings =
     \<lparr>forceThreshold = Fin (1 / 2), forceThresholdReleased = round32 (4 / 10), centerRegion = Fin (1 / 2),
      wedgeAngle = round32 (884279719003555 / 562949953421312), isSticky = False\<rparr>"

definition oxr_input_transform_create_chain_dpad ::
  "xrt_input_type \<Rightarrow> XrActionType \<Rightarrow> oxr_dpad_settings option \<Rightarrow> oxr_dpad_region \<Rightarrow> xrt_input_type
   \<Rightarrow> input_ptr option \<Rightarrow> fault + oxr_input_transform list option" where
  "oxr_input_transform_create_chain_dpad input_type result_type modification region act_type act_input =
     (let settings = (case modification of None \<Rightarrow> default_dpad_settings | Some m \<Rightarrow> m);
          root_xform = oxr_input_transform_init_root input_type
      in if xf_result_type root_xform \<noteq> XRT_INPUT_TYPE_VEC2_MINUS_ONE_TO_ONE then Inr None
         else if result_type \<noteq> XR_ACTION_TYPE_BOOLEAN_INPUT then Inr None
         else try_bind (oxr_input_transform_init_vec2_dpad root_xform settings region act_type act_input) (\<lambda>new_xform.
           Inr (Some [new_xform])))"

section \<open>Values that fit a type\<close>

definition value_fits :: "xrt_input_type \<Rightarrow> xrt_input_value \<Rightarrow> bool" where
  "value_fits t v \<longleftrightarrow> v = ValueZero \<or>
     (case t of
        XRT_INPUT_TYPE_VEC1_ZERO_TO_ONE \<Rightarrow> (\<exists>x. v = ValueVec1 x)
      | XRT_INPUT_TYPE_VEC1_MINUS_ONE_TO_ONE \<Rightarrow> (\<exists>x. v = ValueVec1 x)
      | XRT_INPUT_TYPE_VEC2_MINUS_ONE_TO_ONE \<Rightarrow> (\<exists>x y. v = ValueVec2 x y)
      | XRT_INPUT_TYPE_BOOLEAN \<Rightarrow> (\<exists>b. v = ValueBoolean b)
      | _ \<Rightarrow> True)"

lemma value_fits_zero [simp]: "value_fits t ValueZero"
  by (simp add: value_fits_def)

lemma value_fits_boolean: "value_fits XRT_INPUT_TYPE_BOOLEAN v \<Longrightarrow> \<exists>b. value_boolean v = Inr b"
  by (auto simp: value_fits_def)

lemma value_fits_vec2: "value_fits XRT_INPUT_TYPE_VEC2_MINUS_ONE_TO_ONE v \<Longrightarrow> \<exists>x y. value_vec2 v = Inr (x, y)"
  by (auto simp: value_fits_def)

lemma value_fits_vec1: "value_fits t v \<Longrightarrow> input_is_float t \<Longrightarrow> \<exists>x. value_vec1 v = Inr x"
  by (auto simp: value_fits_def input_is_float_def)

text \<open>The inputs of the devices hold what their names say.\<close>

definition devices_ok :: "devices \<Rightarrow> bool" where
  "devices_ok devs \<longleftrightarrow>
     (\<forall>a xdev. devs a = Some xdev \<longrightarrow> (\<forall>input \<in> set (xd_inputs xdev). value_fits (XRT_GET_INPUT_TYPE (in_name input)) (in_value input)))"

text \<open>A pointer to an input of the given type.\<close>

definition points_to_type :: "devices \<Rightarrow> input_ptr \<Rightarrow> xrt_input_type \<Rightarrow> bool" where
  "points_to_type devs p t \<longleftrightarrow>
     (\<exists>xdev. devs (fst p) = Some xdev \<and> snd p < length (xd_inputs xdev)
        \<and> XRT_GET_INPUT_TYPE (in_name (xd_inputs xdev ! snd p)) = t)"

lemma read_input_typed:
  assumes "points_to_type devs p t" and "devices_ok devs"
  obtains input where "read_input devs p = Inr input" "XRT_GET_INPUT_TYPE (in_name input) = t" "value_fits t (in_value input)"
proof -
  from assms(1) obtain xdev where x: "devs (fst p) = Some xdev" "snd p < length (xd_inputs xdev)"
    "XRT_GET_INPUT_TYPE (in_name (xd_inputs xdev ! snd p)) = t"
    by (auto simp: points_to_type_def)
  with assms(2) have "value_fits t (in_value (xd_inputs xdev ! snd p))"
    unfolding devices_ok_def by (metis nth_mem)
  with x show ?thesis by (intro that) (auto simp: read_input_def)
qed

section \<open>Chains that fit\<close>

definition xform_ok :: "devices \<Rightarrow> xrt_input_type \<Rightarrow> oxr_input_transform \<Rightarrow> bool" where
  "xform_ok devs t xform \<longleftrightarrow>
     (case xf_type xform of
        INPUT_TRANSFORM_INVALID \<Rightarrow> False
      | INPUT_TRANSFORM_IDENTITY \<Rightarrow> xf_result_type xform = t
      | INPUT_TRANSFORM_VEC2_GET_X \<Rightarrow> t = XRT_INPUT_TYPE_VEC2_MINUS_ONE_TO_ONE \<and> input_is_float (xf_result_type xform)
      | INPUT_TRANSFORM_VEC2_GET_Y \<Rightarrow> t = XRT_INPUT_TYPE_VEC2_MINUS_ONE_TO_ONE \<and> input_is_float (xf_result_type xform)
      | INPUT_TRANSFORM_THRESHOLD _ _ \<Rightarrow> input_is_float t \<and> xf_result_type xform = XRT_INPUT_TYPE_BOOLEAN
      | INPUT_TRANSFORM_BOOL_TO_VEC1 _ _ \<Rightarrow> t = XRT_INPUT_TYPE_BOOLEAN \<and> input_is_float (xf_result_type xform)
      | INPUT_TRANSFORM_DPAD d \<Rightarrow> t = XRT_INPUT_TYPE_VEC2_MINUS_ONE_TO_ONE \<and> xf_result_type xform = XRT_INPUT_TYPE_BOOLEAN
          \<and> (\<forall>p. activation_input d = Some p \<longrightarrow> points_to_type devs p (activation_input_type d)))"

primrec chain_ok :: "devices \<Rightarrow> xrt_input_type \<Rightarrow> oxr_input_transform list \<Rightarrow> xrt_input_type \<Rightarrow> bool" where
  "chain_ok devs t [] u \<longleftrightarrow> t = u"
| "chain_ok devs t (xform # xforms) u \<longleftrightarrow> xform_ok devs t xform \<and> chain_ok devs (xf_result_type xform) xforms u"

lemma dpad_activation_ok:
  assumes "points_to_type devs p (activation_input_type d)" and "devices_ok devs"
  shows "\<exists>b. dpad_activation devs d p = Inr b"
proof -
  from read_input_typed [OF assms] obtain input where
    "read_input devs p = Inr input" "value_fits (activation_input_type d) (in_value input)"
    by metis
  then show ?thesis
    by (auto simp: dpad_activation_def value_fits_def split: xrt_input_type.splits)
qed

lemma dpad_process_ok:
  assumes "\<forall>p. activation_input d = Some p \<longrightarrow> points_to_type devs p (activation_input_type d)"
    and "devices_ok devs" and "value_fits XRT_INPUT_TYPE_VEC2_MINUS_ONE_TO_ONE v"
  shows "\<exists>d' b. dpad_process atan2f devs d v = Inr (d', b)
           \<and> activation_input d' = activation_input d \<and> activation_input_type d' = activation_input_type d"
proof -
  obtain act where act: "(case activation_input d of None \<Rightarrow> Inr None
      | Some p \<Rightarrow> try_bind (dpad_activation devs d p) (\<lambda>active. Inr (Some active))) = Inr act"
  proof (cases "activation_input d")
    case None
    then show ?thesis using that [of None] by simp
  next
    case (Some p)
    with dpad_activation_ok [OF _ assms(2)] assms(1) obtain b where "dpad_activation devs d p = Inr b" by blast
    with Some show ?thesis using that [of "Some b"] by simp
  qed
  from value_fits_vec2 [OF assms(3)] obtain x y where v: "value_vec2 v = Inr (x, y)" by blast
  show ?thesis
    unfolding dpad_process_def act by (auto simp: v Let_def split: option.splits)
qed

lemma transform_one_ok:
  assumes "xform_ok devs t xform" "devices_ok devs" "tv_type data = t" "value_fits t (tv_value data)"
  shows "\<exists>xform' out. transform_one atan2f devs xform data = Inr (xform', Some out)
           \<and> xform_ok devs t xform' \<and> xf_result_type xform' = xf_result_type xform
           \<and> tv_type out = xf_result_type xform \<and> value_fits (xf_result_type xform) (tv_value out)"
proof (cases "xf_type xform")
  case (INPUT_TRANSFORM_DPAD d)
  with assms dpad_process_ok [of d devs "tv_value data" atan2f] obtain d' b where
    "dpad_process atan2f devs d (tv_value data) = Inr (d', b)"
    "activation_input d' = activation_input d" "activation_input_type d' = activation_input_type d"
    by (auto simp: xform_ok_def)
  with INPUT_TRANSFORM_DPAD assms show ?thesis
    by (auto simp: transform_one_def xform_ok_def value_fits_def)
next
  case INPUT_TRANSFORM_IDENTITY
  with assms show ?thesis by (simp add: transform_one_def xform_ok_def)
qed (use assms in \<open>auto simp: transform_one_def xform_ok_def value_fits_def input_is_float_def Let_def\<close>)

lemma transform_all_ok:
  assumes "chain_ok devs t xforms u" "devices_ok devs" "tv_type data = t" "value_fits t (tv_value data)"
  shows "\<exists>xforms' out. transform_all atan2f devs xforms data = Inr (xforms', Some out)
           \<and> chain_ok devs t xforms' u \<and> tv_type out = u \<and> value_fits u (tv_value out)"
  using assms
proof (induction xforms arbitrary: t data)
  case Nil
  then show ?case by simp
next
  case (Cons xform xforms)
  from transform_one_ok [of devs t xform data atan2f] Cons.prems obtain xform' mid where
    one: "transform_one atan2f devs xform data = Inr (xform', Some mid)" "xform_ok devs t xform'"
      "xf_result_type xform' = xf_result_type xform" "tv_type mid = xf_result_type xform"
      "value_fits (xf_result_type xform) (tv_value mid)"
    by auto
  from Cons.IH [of "xf_result_type xform" mid] Cons.prems one obtain xforms' out where
    "transform_all atan2f devs xforms mid = Inr (xforms', Some out)"
    "chain_ok devs (xf_result_type xform) xforms' u" "tv_type out = u" "value_fits u (tv_value out)"
    by auto
  with one show ?case by simp
qed

section \<open>The chains that are built\<close>

text \<open>What an action of a type takes.\<close>

definition action_takes :: "XrActionType \<Rightarrow> xrt_input_type \<Rightarrow> bool" where
  "action_takes act t \<longleftrightarrow> oxr_type_matches_xrt t act \<or> act = XR_ACTION_TYPE_POSE_INPUT \<and> t = XRT_INPUT_TYPE_POSE"

definition names_component :: "string \<Rightarrow> bool" where
  "names_component path \<longleftrightarrow> ends_with path ''/x'' \<or> ends_with path ''/y''"

text \<open>The conversions there are.\<close>

definition convertible :: "xrt_input_type \<Rightarrow> XrActionType \<Rightarrow> string \<Rightarrow> bool" where
  "convertible t act path \<longleftrightarrow>
     (case act of
        XR_ACTION_TYPE_BOOLEAN_INPUT \<Rightarrow> t = XRT_INPUT_TYPE_BOOLEAN \<or> input_is_float t
          \<or> t = XRT_INPUT_TYPE_VEC2_MINUS_ONE_TO_ONE \<and> names_component path
      | XR_ACTION_TYPE_FLOAT_INPUT \<Rightarrow> t = XRT_INPUT_TYPE_BOOLEAN \<or> input_is_float t
          \<or> t = XRT_INPUT_TYPE_VEC2_MINUS_ONE_TO_ONE \<and> names_component path
      | XR_ACTION_TYPE_VECTOR2F_INPUT \<Rightarrow> t = XRT_INPUT_TYPE_VEC2_MINUS_ONE_TO_ONE
      | XR_ACTION_TYPE_POSE_INPUT \<Rightarrow> t = XRT_INPUT_TYPE_POSE
      | XR_ACTION_TYPE_VIBRATION_OUTPUT \<Rightarrow> False)"

fun float_of :: "xrt_input_value \<Rightarrow> c_float" where
  "float_of (ValueVec1 x) = x"
| "float_of _ = Fin 0"

fun component_of :: "string \<Rightarrow> xrt_input_value \<Rightarrow> c_float" where
  "component_of path (ValueVec2 x y) = (if ends_with path ''/x'' then x else y)"
| "component_of path _ = Fin 0"

text \<open>What they do to a value.\<close>

definition convert_value :: "xrt_input_type \<Rightarrow> XrActionType \<Rightarrow> string \<Rightarrow> xrt_input_value \<Rightarrow> xrt_input_value" where
  "convert_value t act path v =
     (case act of
        XR_ACTION_TYPE_BOOLEAN_INPUT \<Rightarrow>
          (case t of
             XRT_INPUT_TYPE_VEC1_MINUS_ONE_TO_ONE \<Rightarrow> ValueBoolean (flt_less (round32 (2 / 10)) (float_of v))
           | XRT_INPUT_TYPE_VEC1_ZERO_TO_ONE \<Rightarrow> ValueBoolean (flt_less (round32 (7 / 10)) (float_of v))
           | XRT_INPUT_TYPE_VEC2_MINUS_ONE_TO_ONE \<Rightarrow> ValueBoolean (flt_less (round32 (2 / 10)) (component_of path v))
           | _ \<Rightarrow> v)
      | XR_ACTION_TYPE_FLOAT_INPUT \<Rightarrow>
          (case t of
             XRT_INPUT_TYPE_BOOLEAN \<Rightarrow> ValueVec1 (if v = ValueBoolean True then Fin 1 else Fin 0)
           | XRT_INPUT_TYPE_VEC2_MINUS_ONE_TO_ONE \<Rightarrow> ValueVec1 (component_of path v)
           | _ \<Rightarrow> v)
      | _ \<Rightarrow> v)"

lemmas chain_building =
  oxr_input_transform_init_root_def oxr_input_transform_init_vec2_get_x_def oxr_input_transform_init_vec2_get_y_def
  oxr_input_transform_init_threshold_def oxr_input_transform_init_bool_to_vec1_def
  extend_transform_array_def try_some_def oxr_type_matches_xrt_def input_is_float_def input_dim_def

lemma chain_loop_step:
  "length chain < 5 \<Longrightarrow> chain_loop act path chain cur =
     (if oxr_type_matches_xrt (xf_result_type cur) act then Inr (Some chain)
      else try_bind (extend_transform_array cur act path) (\<lambda>new.
        case new of None \<Rightarrow> Inr None | Some xf \<Rightarrow> chain_loop act path (chain @ [xf]) xf))"
  by (subst chain_loop.simps) (simp add: OXR_MAX_INPUT_TRANSFORMS_def)

lemma create_chain_none:
  assumes "\<not> convertible t act path"
  shows "oxr_input_transform_create_chain t act path = Inr None"
  using assms
  by (cases act; cases t)
    (auto simp: oxr_input_transform_create_chain_def chain_loop_step chain_building convertible_def names_component_def Let_def)

text \<open>The chain, written out.\<close>

definition component_xform :: "string \<Rightarrow> oxr_input_transform" where
  "component_xform path =
     \<lparr>xf_type = (if ends_with path ''/x'' then INPUT_TRANSFORM_VEC2_GET_X else INPUT_TRANSFORM_VEC2_GET_Y),
      xf_result_type = XRT_INPUT_TYPE_VEC1_MINUS_ONE_TO_ONE\<rparr>"

definition threshold_xform :: "c_float \<Rightarrow> oxr_input_transform" where
  "threshold_xform th = \<lparr>xf_type = INPUT_TRANSFORM_THRESHOLD th False, xf_result_type = XRT_INPUT_TYPE_BOOLEAN\<rparr>"

definition chain_for :: "xrt_input_type \<Rightarrow> XrActionType \<Rightarrow> string \<Rightarrow> oxr_input_transform list" where
  "chain_for t act path =
     (case (act, t) of
        (XR_ACTION_TYPE_BOOLEAN_INPUT, XRT_INPUT_TYPE_VEC1_MINUS_ONE_TO_ONE) \<Rightarrow> [threshold_xform (round32 (2 / 10))]
      | (XR_ACTION_TYPE_BOOLEAN_INPUT, XRT_INPUT_TYPE_VEC1_ZERO_TO_ONE) \<Rightarrow> [threshold_xform (round32 (7 / 10))]
      | (XR_ACTION_TYPE_BOOLEAN_INPUT, XRT_INPUT_TYPE_VEC2_MINUS_ONE_TO_ONE) \<Rightarrow>
          [component_xform path, threshold_xform (round32 (2 / 10))]
      | (XR_ACTION_TYPE_FLOAT_INPUT, XRT_INPUT_TYPE_BOOLEAN) \<Rightarrow>
          [\<lparr>xf_type = INPUT_TRANSFORM_BOOL_TO_VEC1 (Fin 1) (Fin 0), xf_result_type = XRT_INPUT_TYPE_VEC1_ZERO_TO_ONE\<rparr>]
      | (XR_ACTION_TYPE_FLOAT_INPUT, XRT_INPUT_TYPE_VEC2_MINUS_ONE_TO_ONE) \<Rightarrow> [component_xform path]
      | _ \<Rightarrow> [\<lparr>xf_type = INPUT_TRANSFORM_IDENTITY, xf_result_type = t\<rparr>])"

lemma chain_loop_done: "oxr_type_matches_xrt (xf_result_type cur) act \<Longrightarrow> chain_loop act path chain cur = Inr (Some chain)"
  by (subst chain_loop.simps) simp

lemma chain_loop_more:
  assumes "\<not> oxr_type_matches_xrt (xf_result_type cur) act" "length chain < 5"
    "extend_transform_array cur act path = Inr (Some xf)"
  shows "chain_loop act path chain cur = chain_loop act path (chain @ [xf]) xf"
  by (subst chain_loop_step) (simp_all add: assms)

lemma extend_component:
  assumes "act = XR_ACTION_TYPE_BOOLEAN_INPUT \<or> act = XR_ACTION_TYPE_FLOAT_INPUT" "names_component path"
  shows "extend_transform_array (oxr_input_transform_init_root XRT_INPUT_TYPE_VEC2_MINUS_ONE_TO_ONE) act path
    = Inr (Some (component_xform path))"
  using assms by (auto simp: chain_building component_xform_def names_component_def)

lemma extend_threshold:
  "xf_result_type cur = XRT_INPUT_TYPE_VEC1_MINUS_ONE_TO_ONE \<Longrightarrow>
     extend_transform_array cur XR_ACTION_TYPE_BOOLEAN_INPUT path = Inr (Some (threshold_xform (round32 (2 / 10))))"
  "xf_result_type cur = XRT_INPUT_TYPE_VEC1_ZERO_TO_ONE \<Longrightarrow>
     extend_transform_array cur XR_ACTION_TYPE_BOOLEAN_INPUT path = Inr (Some (threshold_xform (round32 (7 / 10))))"
  by (simp_all add: chain_building threshold_xform_def)

lemma extend_bool:
  "xf_result_type cur = XRT_INPUT_TYPE_BOOLEAN \<Longrightarrow>
     extend_transform_array cur XR_ACTION_TYPE_FLOAT_INPUT path =
       Inr (Some \<lparr>xf_type = INPUT_TRANSFORM_BOOL_TO_VEC1 (Fin 1) (Fin 0), xf_result_type = XRT_INPUT_TYPE_VEC1_ZERO_TO_ONE\<rparr>)"
  by (simp add: chain_building)

lemma xform_results [simp]:
  "xf_result_type (oxr_input_transform_init_root t) = t"
  "xf_result_type (component_xform path) = XRT_INPUT_TYPE_VEC1_MINUS_ONE_TO_ONE"
  "xf_result_type (threshold_xform th) = XRT_INPUT_TYPE_BOOLEAN"
  by (simp_all add: oxr_input_transform_init_root_def component_xform_def threshold_xform_def)

lemma create_chain_some:
  assumes "convertible t act path"
  shows "oxr_input_transform_create_chain t act path = Inr (Some (chain_for t act path))"
  using assms
  by (cases act; cases t; simp add: convertible_def input_is_float_def)
    (simp_all add: oxr_input_transform_create_chain_def chain_for_def Let_def
      oxr_type_matches_xrt_def input_is_float_def chain_loop_more chain_loop_done extend_component extend_threshold extend_bool,
     simp_all add: oxr_input_transform_init_root_def)

lemma chain_for_ok:
  assumes "convertible t act path"
  shows "\<exists>u. chain_ok devs t (chain_for t act path) u \<and> action_takes act u"
    and "length (chain_for t act path) \<in> {1, 2}"
  using assms
  by (cases act; cases t; simp add: chain_for_def convertible_def component_xform_def threshold_xform_def
      action_takes_def xform_ok_def oxr_type_matches_xrt_def input_is_float_def)+

lemma transform_component:
  "value_fits XRT_INPUT_TYPE_VEC2_MINUS_ONE_TO_ONE v \<Longrightarrow>
   transform_one atan2f devs (component_xform path) \<lparr>tv_type = t, tv_value = v\<rparr>
     = Inr (component_xform path, Some \<lparr>tv_type = XRT_INPUT_TYPE_VEC1_MINUS_ONE_TO_ONE, tv_value = ValueVec1 (component_of path v)\<rparr>)"
  by (auto simp: transform_one_def component_xform_def value_fits_def)

lemma transform_threshold:
  "v = ValueZero \<or> (\<exists>x. v = ValueVec1 x) \<Longrightarrow>
   transform_one atan2f devs (threshold_xform th) \<lparr>tv_type = t, tv_value = v\<rparr>
     = Inr (threshold_xform th, Some \<lparr>tv_type = XRT_INPUT_TYPE_BOOLEAN, tv_value = ValueBoolean (flt_less th (float_of v))\<rparr>)"
  by (auto simp: transform_one_def threshold_xform_def)

lemma transform_identity:
  "transform_one atan2f devs \<lparr>xf_type = INPUT_TRANSFORM_IDENTITY, xf_result_type = t\<rparr> \<lparr>tv_type = t, tv_value = v\<rparr>
     = Inr (\<lparr>xf_type = INPUT_TRANSFORM_IDENTITY, xf_result_type = t\<rparr>, Some \<lparr>tv_type = t, tv_value = v\<rparr>)"
  by (simp add: transform_one_def)

lemma transform_bool_to_vec1:
  "value_fits XRT_INPUT_TYPE_BOOLEAN v \<Longrightarrow>
   transform_one atan2f devs \<lparr>xf_type = INPUT_TRANSFORM_BOOL_TO_VEC1 a b, xf_result_type = u\<rparr> \<lparr>tv_type = t, tv_value = v\<rparr>
     = Inr (\<lparr>xf_type = INPUT_TRANSFORM_BOOL_TO_VEC1 a b, xf_result_type = u\<rparr>,
            Some \<lparr>tv_type = u, tv_value = ValueVec1 (if v = ValueBoolean True then a else b)\<rparr>)"
  by (auto simp: transform_one_def value_fits_def split: if_splits)

lemma value_fits_float: "value_fits t v \<Longrightarrow> input_is_float t \<Longrightarrow> v = ValueZero \<or> (\<exists>x. v = ValueVec1 x)"
  by (auto simp: value_fits_def input_is_float_def)

lemma chain_for_value:
  assumes "convertible t act path" "value_fits t v"
  shows "\<exists>out. transform_all atan2f devs (chain_for t act path) \<lparr>tv_type = t, tv_value = v\<rparr> = Inr (chain_for t act path, Some out)
     \<and> tv_value out = convert_value t act path v"
  using assms
  by (cases act; cases t; simp add: chain_for_def convertible_def convert_value_def transform_component transform_threshold
      transform_identity transform_bool_to_vec1 value_fits_float input_is_float_def)

lemma create_chain_dpad_ok:
  assumes "\<forall>p. act_input = Some p \<longrightarrow> points_to_type devs p act_type"
  shows "oxr_input_transform_create_chain_dpad t act m region act_type act_input = Inr None
     \<or> (\<exists>xforms. oxr_input_transform_create_chain_dpad t act m region act_type act_input = Inr (Some xforms)
          \<and> chain_ok devs t xforms XRT_INPUT_TYPE_BOOLEAN \<and> act = XR_ACTION_TYPE_BOOLEAN_INPUT)"
  using assms
  by (auto simp: oxr_input_transform_create_chain_dpad_def oxr_input_transform_init_root_def
      oxr_input_transform_init_vec2_dpad_def xform_ok_def Let_def)

text \<open>
  C19. Input transforms. For every type of input, type of action and binding path, building a chain ends
  without a failed assertion. It yields a chain exactly if the table \<open>convertible\<close> has the conversion. The
  chain has one or two transforms, accepts every value of the input's type, never reads a member of
  the value that was not written, and delivers a value of a type the action takes: the one of the
  reference conversion (a threshold of 0.2 or 0.7, a component of a vector, 1 and 0 for a boolean).
\<close>
theorem input_transform_chain_sound:
  assumes "value_fits t v" and "devices_ok devs"
  shows "if convertible t act path
    then \<exists>xforms out. oxr_input_transform_create_chain t act path = Inr (Some xforms) \<and> length xforms \<in> {1, 2}
       \<and> oxr_input_transform_process atan2f devs (Some xforms) \<lparr>tv_type = t, tv_value = v\<rparr> = Inr (Some xforms, Some out)
       \<and> action_takes act (tv_type out) \<and> value_fits (tv_type out) (tv_value out)
       \<and> tv_value out = convert_value t act path v
    else oxr_input_transform_create_chain t act path = Inr None"
proof (cases "convertible t act path")
  case True
  from chain_for_ok(1) [OF True] obtain u where u: "chain_ok devs t (chain_for t act path) u" "action_takes act u"
    by blast
  from chain_for_value [OF True assms(1), of atan2f devs] obtain out where out:
    "transform_all atan2f devs (chain_for t act path) \<lparr>tv_type = t, tv_value = v\<rparr> = Inr (chain_for t act path, Some out)"
    "tv_value out = convert_value t act path v"
    by blast
  from transform_all_ok [OF u(1) assms(2), of "\<lparr>tv_type = t, tv_value = v\<rparr>" atan2f] assms(1) out(1)
  have "tv_type out = u" "value_fits u (tv_value out)" by auto
  with True out u(2) chain_for_ok(2) [OF True] show ?thesis
    by (simp add: create_chain_some oxr_input_transform_process_def)
next
  case False
  then show ?thesis by (simp add: create_chain_none)
qed

theorem input_transform_chain_sound_witness:
  "\<exists>xforms out. oxr_input_transform_create_chain XRT_INPUT_TYPE_VEC2_MINUS_ONE_TO_ONE XR_ACTION_TYPE_BOOLEAN_INPUT
       ''/user/hand/left/input/thumbstick/y'' = Inr (Some xforms) \<and> length xforms \<in> {1, 2}
     \<and> oxr_input_transform_process (\<lambda>x y. Fin 0) Map.empty (Some xforms)
         \<lparr>tv_type = XRT_INPUT_TYPE_VEC2_MINUS_ONE_TO_ONE, tv_value = ValueVec2 (Fin 0) (Fin (1 / 4))\<rparr>
       = Inr (Some xforms, Some out)
     \<and> tv_value out = ValueBoolean True"
proof -
  let ?p = "''/user/hand/left/input/thumbstick/y''"
  let ?v = "ValueVec2 (Fin 0) (Fin (1 / 4))"
  have fits: "value_fits XRT_INPUT_TYPE_VEC2_MINUS_ONE_TO_ONE ?v" by (simp add: value_fits_def)
  have ok: "devices_ok Map.empty" by (simp add: devices_ok_def)
  have c: "convertible XRT_INPUT_TYPE_VEC2_MINUS_ONE_TO_ONE XR_ACTION_TYPE_BOOLEAN_INPUT ?p" by code_simp
  have v: "convert_value XRT_INPUT_TYPE_VEC2_MINUS_ONE_TO_ONE XR_ACTION_TYPE_BOOLEAN_INPUT ?p ?v = ValueBoolean True"
    by code_simp
  show ?thesis
    using input_transform_chain_sound [OF fits ok, of XR_ACTION_TYPE_BOOLEAN_INPUT ?p "\<lambda>x y. Fin 0"]
    by (simp only: c v if_True) blast
qed

end
