(* ===== verification/Input_Bindings.thy ===== *)
theory Input_Bindings
  imports Subaction Input_Transform
begin

text \<open>
  Interaction profiles and the bindings an application suggests for its actions:
  \<^verbatim>\<open>actions/oxr_binding.c\<close>, \<^verbatim>\<open>actions/oxr_interaction_profile_array.c\<close>, \<^verbatim>\<open>actions/oxr_dpad_state.c\<close> and the
  entry point \<^verbatim>\<open>oxr_xrSuggestInteractionProfileBindings\<close> with \<^verbatim>\<open>process_dpad\<close>.

  The templates of the profiles are generated code: a list of records, whose functions (the paths a profile knows)
  are fields. A profile is held by value, and a pointer into the array of profiles is its index. Allocations
  other than those of the path store succeed. Logging is left out, but for the strings that are fetched.
\<close>

section \<open>Data\<close>

datatype oxr_subaction_path =
    OXR_SUB_ACTION_PATH_USER
  | OXR_SUB_ACTION_PATH_HEAD
  | OXR_SUB_ACTION_PATH_LEFT
  | OXR_SUB_ACTION_PATH_RIGHT
  | OXR_SUB_ACTION_PATH_GAMEPAD
  | OXR_SUB_ACTION_PATH_EYES

text \<open>The x-macros \<^verbatim>\<open>OXR_FOR_EACH_VALID_SUBACTION_PATH\<close> and \<^verbatim>\<open>OXR_FOR_EACH_SUBACTION_PATH\<close>.\<close>

definition valid_subaction_paths :: "oxr_subaction_path list" where
  "valid_subaction_paths =
     [OXR_SUB_ACTION_PATH_LEFT, OXR_SUB_ACTION_PATH_RIGHT, OXR_SUB_ACTION_PATH_HEAD,
      OXR_SUB_ACTION_PATH_GAMEPAD, OXR_SUB_ACTION_PATH_EYES]"

definition all_subaction_paths :: "oxr_subaction_path list" where
  "all_subaction_paths = valid_subaction_paths @ [OXR_SUB_ACTION_PATH_USER]"

text \<open>The member of a structure that a name of the x-macro stands for.\<close>

fun sp_get :: "oxr_subaction_path \<Rightarrow> oxr_subaction_paths \<Rightarrow> bool" where
  "sp_get OXR_SUB_ACTION_PATH_USER sp = sp_user sp"
| "sp_get OXR_SUB_ACTION_PATH_HEAD sp = sp_head sp"
| "sp_get OXR_SUB_ACTION_PATH_LEFT sp = sp_left sp"
| "sp_get OXR_SUB_ACTION_PATH_RIGHT sp = sp_right sp"
| "sp_get OXR_SUB_ACTION_PATH_GAMEPAD sp = sp_gamepad sp"
| "sp_get OXR_SUB_ACTION_PATH_EYES sp = sp_eyes sp"

fun sp_set :: "oxr_subaction_path \<Rightarrow> bool \<Rightarrow> oxr_subaction_paths \<Rightarrow> oxr_subaction_paths" where
  "sp_set OXR_SUB_ACTION_PATH_USER b sp = sp\<lparr>sp_user := b\<rparr>"
| "sp_set OXR_SUB_ACTION_PATH_HEAD b sp = sp\<lparr>sp_head := b\<rparr>"
| "sp_set OXR_SUB_ACTION_PATH_LEFT b sp = sp\<lparr>sp_left := b\<rparr>"
| "sp_set OXR_SUB_ACTION_PATH_RIGHT b sp = sp\<lparr>sp_right := b\<rparr>"
| "sp_set OXR_SUB_ACTION_PATH_GAMEPAD b sp = sp\<lparr>sp_gamepad := b\<rparr>"
| "sp_set OXR_SUB_ACTION_PATH_EYES b sp = sp\<lparr>sp_eyes := b\<rparr>"

fun pc_get :: "oxr_subaction_path \<Rightarrow> oxr_instance_path_cache \<Rightarrow> XrPath" where
  "pc_get OXR_SUB_ACTION_PATH_USER c = pc_user c"
| "pc_get OXR_SUB_ACTION_PATH_HEAD c = pc_head c"
| "pc_get OXR_SUB_ACTION_PATH_LEFT c = pc_left c"
| "pc_get OXR_SUB_ACTION_PATH_RIGHT c = pc_right c"
| "pc_get OXR_SUB_ACTION_PATH_GAMEPAD c = pc_gamepad c"
| "pc_get OXR_SUB_ACTION_PATH_EYES c = pc_eyes c"

record oxr_binding =
  b_paths :: "XrPath list"
  b_localized_name :: string
  b_subaction_path :: oxr_subaction_path
  b_act_keys :: "nat list"
  b_preferred_binding_path_index :: "nat list"
  b_input :: xrt_input_name
  b_dpad_activate :: xrt_input_name
  b_output :: nat

record oxr_dpad_emulation =
  de_subaction_path :: oxr_subaction_path
  de_paths :: "XrPath list"
  de_position :: xrt_input_name
  de_activate :: xrt_input_name

record oxr_dpad_binding_modification =
  dm_binding :: XrPath
  dm_settings :: oxr_dpad_settings

record oxr_dpad_entry =
  ent_dpads :: "oxr_dpad_binding_modification list"   \<comment> \<open>an array of four\<close>
  ent_dpad_count :: nat
  ent_key :: nat

type_synonym oxr_dpad_state = "(nat \<Rightarrow> oxr_dpad_entry option) option"   \<comment> \<open>\<^verbatim>\<open>uhi\<close>, \<open>None\<close> is \<^verbatim>\<open>NULL\<close>\<close>

record oxr_interaction_profile =
  ip_path :: XrPath
  ip_xname :: nat
  ip_localized_name :: string
  ip_bindings :: "oxr_binding list"
  ip_dpads :: "oxr_dpad_emulation list"
  ip_dpad_state :: oxr_dpad_state

text \<open>The generated templates.\<close>

record binding_template =
  bt_subaction_path :: string
  bt_localized_name :: string
  bt_paths :: "string list"
  bt_input :: xrt_input_name
  bt_dpad_activate :: xrt_input_name
  bt_output :: nat

record dpad_template =
  dt_subaction_path :: string
  dt_paths :: "string list"
  dt_position :: xrt_input_name
  dt_activate :: xrt_input_name

record profile_template =
  pt_name :: nat
  pt_localized_name :: string
  pt_bindings :: "binding_template list"
  pt_dpads :: "dpad_template list"
  pt_subpath_fn :: "string \<Rightarrow> bool"
  pt_dpad_path_fn :: "string \<Rightarrow> bool"
  pt_dpad_emulator_fn :: "string \<Rightarrow> bool"
  pt_ext_supported :: bool
  pt_ext_enabled :: bool

definition XRT_DEVICE_INVALID :: nat where
  "XRT_DEVICE_INVALID = 0"

section \<open>Strings of paths\<close>

text \<open>
  The C string of a path, for code that does not look at the result: the variable for the string stays
  uninitialised if the path is unknown.
\<close>

definition path_text :: "path_store \<Rightarrow> XrPath \<Rightarrow> fault + string" where
  "path_text store path =
     try_bind (oxr_path_store_get_string store path) (\<lambda>(ret, res).
       case res of
         None \<Rightarrow> Inl UninitRead
       | Some (str, len) \<Rightarrow> Inr (takeWhile (\<lambda>c. c \<noteq> NUL) str))"

definition has_prefix :: "string \<Rightarrow> nat \<Rightarrow> string \<Rightarrow> bool" where
  "has_prefix prefix len str \<longleftrightarrow> length prefix \<le> len \<and> take (length prefix) str = prefix"

definition get_subaction_path_from_path :: "path_store \<Rightarrow> XrPath \<Rightarrow> fault + oxr_subaction_path option" where
  "get_subaction_path_from_path store path =
     try_bind (oxr_path_store_get_string store path) (\<lambda>(ret, res).
       case res of
         None \<Rightarrow> Inr None
       | Some (str, len) \<Rightarrow>
           if has_prefix path_head len str then Inr (Some OXR_SUB_ACTION_PATH_HEAD)
           else if has_prefix path_left len str then Inr (Some OXR_SUB_ACTION_PATH_LEFT)
           else if has_prefix path_right len str then Inr (Some OXR_SUB_ACTION_PATH_RIGHT)
           else if has_prefix path_gamepad len str then Inr (Some OXR_SUB_ACTION_PATH_GAMEPAD)
           else if has_prefix path_eyes len str then Inr (Some OXR_SUB_ACTION_PATH_EYES)
           else Inr None)"

section \<open>Dpad state\<close>

definition oxr_dpad_state_get :: "oxr_dpad_state \<Rightarrow> nat \<Rightarrow> fault + oxr_dpad_entry option" where
  "oxr_dpad_state_get state key = try_bind (not_null state) (\<lambda>uhi. Inr (uhi key))"

definition empty_dpad_entry :: oxr_dpad_entry where
  "empty_dpad_entry =
     \<lparr>ent_dpads = replicate 4 \<lparr>dm_binding = XR_NULL_PATH,
        dm_settings = \<lparr>forceThreshold = Fin 0, forceThresholdReleased = Fin 0, centerRegion = Fin 0, wedgeAngle = Fin 0, isSticky = False\<rparr>\<rparr>,
      ent_dpad_count = 0, ent_key = 0\<rparr>"

definition oxr_dpad_state_get_or_add :: "oxr_dpad_state \<Rightarrow> nat \<Rightarrow> fault + oxr_dpad_state \<times> oxr_dpad_entry" where
  "oxr_dpad_state_get_or_add state key =
     try_bind (not_null state) (\<lambda>uhi.
       case uhi key of
         Some e \<Rightarrow> Inr (state, e)
       | None \<Rightarrow> Inr (Some (uhi(key \<mapsto> empty_dpad_entry)), empty_dpad_entry))"

definition oxr_dpad_state_clone :: "oxr_dpad_state \<Rightarrow> oxr_dpad_state" where
  "oxr_dpad_state_clone src = (case src of None \<Rightarrow> Some Map.empty | Some uhi \<Rightarrow> Some uhi)"

section \<open>Profiles\<close>

definition oxr_interaction_profile_clone :: "oxr_interaction_profile \<Rightarrow> oxr_interaction_profile" where
  "oxr_interaction_profile_clone src = src\<lparr>ip_dpad_state := oxr_dpad_state_clone (ip_dpad_state src)\<rparr>"

definition oxr_interaction_profile_array_clone :: "oxr_interaction_profile list \<Rightarrow> oxr_interaction_profile list" where
  "oxr_interaction_profile_array_clone src = map oxr_interaction_profile_clone src"

definition oxr_interaction_profile_array_find_by_path :: "oxr_interaction_profile list \<Rightarrow> XrPath \<Rightarrow> nat option" where
  "oxr_interaction_profile_array_find_by_path array path = find_index (\<lambda>p. ip_path p = path) array"

text \<open>The loop over the templates; the index pairs them with the paths of the cache.\<close>

primrec find_by_name_loop ::
  "oxr_interaction_profile list \<Rightarrow> XrPath list \<Rightarrow> nat \<Rightarrow> profile_template list \<Rightarrow> nat \<Rightarrow> fault + nat option" where
  "find_by_name_loop array template_paths name [] i = Inr None"
| "find_by_name_loop array template_paths name (t # ts) i =
     (if name \<noteq> pt_name t then find_by_name_loop array template_paths name ts (i + 1)
      else try_bind (arr_get template_paths i) (\<lambda>path.
        case oxr_interaction_profile_array_find_by_path array path of
          Some p \<Rightarrow> Inr (Some p)
        | None \<Rightarrow> find_by_name_loop array template_paths name ts (i + 1)))"

definition oxr_interaction_profile_array_find_by_device_name ::
  "profile_template list \<Rightarrow> oxr_interaction_profile list \<Rightarrow> oxr_instance_path_cache \<Rightarrow> nat \<Rightarrow> fault + nat option" where
  "oxr_interaction_profile_array_find_by_device_name templates array cache name =
     (if name = XRT_DEVICE_INVALID then Inr None
      else find_by_name_loop array (pc_template_paths cache) name templates 0)"

primrec find_by_alternatives ::
  "profile_template list \<Rightarrow> oxr_interaction_profile list \<Rightarrow> oxr_instance_path_cache \<Rightarrow> xrt_binding_profile list
   \<Rightarrow> fault + nat option" where
  "find_by_alternatives templates array cache [] = Inr None"
| "find_by_alternatives templates array cache (xbp # xbps) =
     try_bind (oxr_interaction_profile_array_find_by_device_name templates array cache (xbp_name xbp)) (\<lambda>found.
       if found \<noteq> None then Inr found else find_by_alternatives templates array cache xbps)"

definition oxr_interaction_profile_array_find_by_device ::
  "profile_template list \<Rightarrow> oxr_interaction_profile list \<Rightarrow> oxr_instance_path_cache \<Rightarrow> xrt_device \<Rightarrow> fault + nat option" where
  "oxr_interaction_profile_array_find_by_device templates array cache xdev =
     try_bind (oxr_interaction_profile_array_find_by_device_name templates array cache (xd_name xdev)) (\<lambda>found.
       if found \<noteq> None then Inr found
       else find_by_alternatives templates array cache (xd_binding_profiles xdev))"

section \<open>Making a profile from its template\<close>

primrec setup_paths ::
  "(string \<Rightarrow> nat) \<Rightarrow> (path_store \<Rightarrow> addr option) \<Rightarrow> path_store \<Rightarrow> string list \<Rightarrow> fault + path_store \<times> XrPath list" where
  "setup_paths hash alloc store [] = Inr (store, [])"
| "setup_paths hash alloc store (str # strs) =
     try_bind (oxr_path_store_get_or_create hash store (str @ [NUL]) (length str) (alloc store) True) (\<lambda>(store1, _, x).
     try_bind (setup_paths hash alloc store1 strs) (\<lambda>(store2, xs).
       Inr (store2, (case x of None \<Rightarrow> 0 | Some p \<Rightarrow> p) # xs)))"

text \<open>
  The subaction path of a template entry. The variable stays uninitialised if the path cannot be created; an
  invalid one leaves the zero of the allocation, which is \<open>OXR_SUB_ACTION_PATH_USER\<close>.
\<close>

definition template_subaction_path ::
  "(string \<Rightarrow> nat) \<Rightarrow> (path_store \<Rightarrow> addr option) \<Rightarrow> path_store \<Rightarrow> string \<Rightarrow> fault + path_store \<times> oxr_subaction_path" where
  "template_subaction_path hash alloc store str =
     try_bind (oxr_path_store_get_or_create hash store (str @ [NUL]) (length str) (alloc store) True) (\<lambda>(store1, r, x).
       case x of
         None \<Rightarrow> Inl UninitRead
       | Some path \<Rightarrow>
           try_bind (get_subaction_path_from_path store1 path) (\<lambda>sp.
             Inr (store1, case sp of None \<Rightarrow> OXR_SUB_ACTION_PATH_USER | Some p \<Rightarrow> p)))"

primrec make_bindings ::
  "(string \<Rightarrow> nat) \<Rightarrow> (path_store \<Rightarrow> addr option) \<Rightarrow> path_store \<Rightarrow> binding_template list \<Rightarrow> fault + path_store \<times> oxr_binding list" where
  "make_bindings hash alloc store [] = Inr (store, [])"
| "make_bindings hash alloc store (t # ts) =
     try_bind (template_subaction_path hash alloc store (bt_subaction_path t)) (\<lambda>(store1, sp).
     try_bind (setup_paths hash alloc store1 (bt_paths t)) (\<lambda>(store2, paths).
     try_bind (make_bindings hash alloc store2 ts) (\<lambda>(store3, bs).
       Inr (store3,
         \<lparr>b_paths = paths, b_localized_name = bt_localized_name t, b_subaction_path = sp, b_act_keys = [],
          b_preferred_binding_path_index = [], b_input = bt_input t, b_dpad_activate = bt_dpad_activate t,
          b_output = bt_output t\<rparr> # bs))))"

primrec make_dpads ::
  "(string \<Rightarrow> nat) \<Rightarrow> (path_store \<Rightarrow> addr option) \<Rightarrow> path_store \<Rightarrow> dpad_template list \<Rightarrow> fault + path_store \<times> oxr_dpad_emulation list" where
  "make_dpads hash alloc store [] = Inr (store, [])"
| "make_dpads hash alloc store (t # ts) =
     try_bind (template_subaction_path hash alloc store (dt_subaction_path t)) (\<lambda>(store1, sp).
     try_bind (setup_paths hash alloc store1 (dt_paths t)) (\<lambda>(store2, paths).
     try_bind (make_dpads hash alloc store2 ts) (\<lambda>(store3, ds).
       Inr (store3,
         \<lparr>de_subaction_path = sp, de_paths = paths, de_position = dt_position t, de_activate = dt_activate t\<rparr> # ds))))"

definition get_profile_template_from_path :: "oxr_instance_path_cache \<Rightarrow> XrPath \<Rightarrow> nat option" where
  "get_profile_template_from_path cache path = find_index (\<lambda>p. p = path) (pc_template_paths cache)"

text \<open>The store, the profiles of the instance and the index of the profile, if there is one.\<close>

definition interaction_profile_find_or_create_in_instance ::
  "(string \<Rightarrow> nat) \<Rightarrow> (path_store \<Rightarrow> addr option) \<Rightarrow> profile_template list \<Rightarrow> path_store \<Rightarrow> oxr_instance_path_cache
   \<Rightarrow> oxr_interaction_profile list \<Rightarrow> XrPath \<Rightarrow> fault + path_store \<times> oxr_interaction_profile list \<times> nat option" where
  "interaction_profile_find_or_create_in_instance hash alloc templates store cache profiles path =
     (case oxr_interaction_profile_array_find_by_path profiles path of
        Some i \<Rightarrow> Inr (store, profiles, Some i)
      | None \<Rightarrow>
          (case get_profile_template_from_path cache path of
             None \<Rightarrow> Inr (store, profiles, None)
           | Some x \<Rightarrow>
               try_bind (arr_get templates x) (\<lambda>templ.
               try_bind (make_bindings hash alloc store (pt_bindings templ)) (\<lambda>(store1, bs).
               try_bind (make_dpads hash alloc store1 (pt_dpads templ)) (\<lambda>(store2, ds).
                 let p = \<lparr>ip_path = path, ip_xname = pt_name templ, ip_localized_name = pt_localized_name templ,
                          ip_bindings = bs, ip_dpads = ds, ip_dpad_state = None\<rparr>
                 in Inr (store2, profiles @ [p], Some (length profiles)))))))"

section \<open>Adding the key of an action to the bindings\<close>

definition reset_binding_keys :: "oxr_binding \<Rightarrow> oxr_binding" where
  "reset_binding_keys b = b\<lparr>b_act_keys := [], b_preferred_binding_path_index := []\<rparr>"

definition reset_all_keys :: "oxr_binding list \<Rightarrow> oxr_binding list" where
  "reset_all_keys bs = map reset_binding_keys bs"

definition append_key :: "nat \<Rightarrow> nat \<Rightarrow> oxr_binding \<Rightarrow> oxr_binding" where
  "append_key key idx b =
     b\<lparr>b_act_keys := b_act_keys b @ [key], b_preferred_binding_path_index := b_preferred_binding_path_index b @ [idx]\<rparr>"

text \<open>The loop over the paths of a binding: the last index of the path, and whether some path ends in the component.\<close>

primrec scan_paths ::
  "path_store \<Rightarrow> XrPath \<Rightarrow> string \<Rightarrow> XrPath list \<Rightarrow> nat \<Rightarrow> nat option \<Rightarrow> bool \<Rightarrow> fault + nat option \<times> bool" where
  "scan_paths store path component [] y idx found = Inr (idx, found)"
| "scan_paths store path component (p # ps) y idx found =
     try_bind (path_text store p) (\<lambda>str.
       scan_paths store path component ps (y + 1) (if p = path then Some y else idx)
         (found \<or> ends_with str component))"

primrec add_for_component ::
  "path_store \<Rightarrow> XrPath \<Rightarrow> nat \<Rightarrow> string \<Rightarrow> oxr_binding list \<Rightarrow> fault + oxr_binding list \<times> bool" where
  "add_for_component store path key component [] = Inr ([], False)"
| "add_for_component store path key component (b # bs) =
     try_bind (scan_paths store path component (b_paths b) 0 None False) (\<lambda>(idx, component_found).
     try_bind (add_for_component store path key component bs) (\<lambda>(bs', found_all).
       case idx of
         Some i \<Rightarrow> if component_found then Inr (append_key key i b # bs', True) else Inr (b # bs', found_all)
       | None \<Rightarrow> Inr (b # bs', found_all)))"

primrec try_add_by_component ::
  "path_store \<Rightarrow> XrPath \<Rightarrow> nat \<Rightarrow> string list \<Rightarrow> oxr_binding list \<Rightarrow> fault + oxr_binding list \<times> bool" where
  "try_add_by_component store path key [] bs = Inr (bs, False)"
| "try_add_by_component store path key (component # components) bs =
     try_bind (add_for_component store path key component bs) (\<lambda>(bs', found).
       if found then Inr (bs', True) else try_add_by_component store path key components bs')"

definition add_direct :: "XrPath \<Rightarrow> nat \<Rightarrow> oxr_binding list \<Rightarrow> oxr_binding list" where
  "add_direct path key bs =
     map (\<lambda>b. case find_index (\<lambda>p. p = path) (b_paths b) of None \<Rightarrow> b | Some y \<Rightarrow> append_key key y b) bs"

text \<open>An action of the application: its key, its type, its action set.\<close>

record oxr_action =
  act_key :: nat
  act_type :: XrActionType
  act_set_ever_attached :: bool

definition add_act_key_to_matching_bindings ::
  "path_store \<Rightarrow> oxr_binding list \<Rightarrow> XrPath \<Rightarrow> oxr_action \<Rightarrow> fault + oxr_binding list" where
  "add_act_key_to_matching_bindings store bs path act =
     try_bind (path_text store path) (\<lambda>str.
     try_bind (if act_type act = XR_ACTION_TYPE_BOOLEAN_INPUT \<and> \<not> ends_with str ''/click'' \<and> \<not> ends_with str ''/touch''
               then try_add_by_component store path (act_key act) [''click'', ''value''] bs
               else if act_type act = XR_ACTION_TYPE_FLOAT_INPUT \<and> \<not> ends_with str ''/value'' \<and> \<not> ends_with str ''/click''
               then try_add_by_component store path (act_key act) [''value'', ''click''] bs
               else Inr (bs, False)) (\<lambda>(bs', added).
       Inr (if \<not> added then add_direct path (act_key act) bs' else bs')))"

primrec add_suggestions ::
  "path_store \<Rightarrow> (XrPath \<times> oxr_action) list \<Rightarrow> oxr_binding list \<Rightarrow> fault + oxr_binding list" where
  "add_suggestions store [] bs = Inr bs"
| "add_suggestions store (s # ss) bs =
     try_bind (add_act_key_to_matching_bindings store bs (fst s) (snd s)) (\<lambda>bs'. add_suggestions store ss bs')"

definition oxr_action_suggest_interaction_profile_bindings ::
  "(string \<Rightarrow> nat) \<Rightarrow> (path_store \<Rightarrow> addr option) \<Rightarrow> profile_template list \<Rightarrow> path_store \<Rightarrow> oxr_instance_path_cache
   \<Rightarrow> oxr_interaction_profile list \<Rightarrow> XrPath \<Rightarrow> (XrPath \<times> oxr_action) list \<Rightarrow> oxr_dpad_state
   \<Rightarrow> fault + path_store \<times> oxr_interaction_profile list \<times> XrResult" where
  "oxr_action_suggest_interaction_profile_bindings hash alloc templates store cache profiles path suggestions dpad =
     try_bind (interaction_profile_find_or_create_in_instance hash alloc templates store cache profiles path)
       (\<lambda>(store1, profiles1, p).
       case p of
         None \<Rightarrow> Inr (store1, profiles1, XR_SUCCESS)
       | Some i \<Rightarrow>
           try_bind (arr_get profiles1 i) (\<lambda>ip.
           try_bind (add_suggestions store1 suggestions (reset_all_keys (ip_bindings ip))) (\<lambda>bs.
             Inr (store1, profiles1[i := ip\<lparr>ip_bindings := bs, ip_dpad_state := dpad\<rparr>], XR_SUCCESS))))"

section \<open>Finding the bindings of an action\<close>

text \<open>The loop stops when the array of the caller is full.\<close>

primrec find_bindings_loop :: "nat \<Rightarrow> nat \<Rightarrow> oxr_binding list \<Rightarrow> oxr_binding list \<Rightarrow> oxr_binding list" where
  "find_bindings_loop key max_count [] out = out"
| "find_bindings_loop key max_count (b # bs) out =
     (let out' = (if key \<in> set (b_act_keys b) then out @ [b] else out)
      in if max_count \<le> length out' then out' else find_bindings_loop key max_count bs out')"

definition oxr_binding_find_bindings_from_act_key ::
  "oxr_interaction_profile \<Rightarrow> nat \<Rightarrow> nat \<Rightarrow> fault + oxr_binding list" where
  "oxr_binding_find_bindings_from_act_key profile key max_count =
     (let out = find_bindings_loop key max_count (ip_bindings profile) []
      in try_bind (c_assert (length out \<le> max_count)) (\<lambda>_. Inr out))"

section \<open>Suggesting bindings\<close>

record dpad_binding_ext =
  dx_binding :: XrPath
  dx_action_set :: "nat option"      \<comment> \<open>the key of the action set, \<open>None\<close> for a handle of another type\<close>
  dx_settings :: oxr_dpad_settings

text \<open>\<^verbatim>\<open>M_PI\<close>, a \<^verbatim>\<open>double\<close>.\<close>

definition M_PI :: c_float where
  "M_PI = Fin (884279719003555 / 281474976710656)"

definition oxr_verify_XrInteractionProfileDpadBindingEXT :: "oxr_dpad_settings \<Rightarrow> XrResult" where
  "oxr_verify_XrInteractionProfileDpadBindingEXT d =
     (if flt_le (forceThreshold d) (Fin 0) \<or> flt_less (Fin 1) (forceThreshold d) then XR_ERROR_VALIDATION_FAILURE
      else if flt_le (forceThresholdReleased d) (Fin 0) \<or> flt_less (Fin 1) (forceThresholdReleased d) then XR_ERROR_VALIDATION_FAILURE
      else if flt_less (forceThreshold d) (forceThresholdReleased d) then XR_ERROR_VALIDATION_FAILURE
      else if flt_le (centerRegion d) (Fin 0) \<or> flt_le (Fin 1) (centerRegion d) then XR_ERROR_VALIDATION_FAILURE
      else if flt_less (wedgeAngle d) (Fin 0) \<or> flt_le M_PI (wedgeAngle d) then XR_ERROR_VALIDATION_FAILURE
      else XR_SUCCESS)"

text \<open>The loop over the four slots of an entry: the first free one takes the binding, a slot with the same binding is an error.\<close>

primrec fill_slot ::
  "oxr_dpad_binding_modification \<Rightarrow> oxr_dpad_binding_modification list \<Rightarrow> (oxr_dpad_binding_modification list \<times> bool) option" where
  "fill_slot new [] = Some ([], False)"
| "fill_slot new (d # ds) =
     (if dm_binding d = XR_NULL_PATH then Some (new # ds, True)
      else if dm_binding d = dm_binding new then None
      else map_option (\<lambda>(ds', added). (d # ds', added)) (fill_slot new ds))"

definition process_dpad ::
  "path_store \<Rightarrow> (string \<Rightarrow> bool) \<Rightarrow> oxr_dpad_state \<Rightarrow> dpad_binding_ext \<Rightarrow> fault + oxr_dpad_state \<times> XrResult" where
  "process_dpad store dpad_emulator_fn state dpad =
     try_bind (oxr_path_store_get_string store (dx_binding dpad)) (\<lambda>(ret, res).
       case res of
         None \<Rightarrow> Inr (state, XR_ERROR_PATH_INVALID)
       | Some (str, len) \<Rightarrow>
           if \<not> dpad_emulator_fn (take len str) then Inr (state, XR_ERROR_PATH_UNSUPPORTED)
           else
             let r = oxr_verify_XrInteractionProfileDpadBindingEXT (dx_settings dpad)
             in if r \<noteq> XR_SUCCESS then Inr (state, r)
                else
                  (case dx_action_set dpad of
                     None \<Rightarrow> Inr (state, XR_ERROR_HANDLE_INVALID)
                   | Some key \<Rightarrow>
                       try_bind (oxr_dpad_state_get_or_add state key) (\<lambda>(state1, entry).
                       try_bind (if ent_key entry = 0
                                 then try_bind (c_assert (key \<noteq> 0)) (\<lambda>_. Inr (entry\<lparr>ent_key := key\<rparr>))
                                 else Inr entry) (\<lambda>entry1.
                       try_bind (not_null state1) (\<lambda>uhi.
                         case fill_slot \<lparr>dm_binding = dx_binding dpad, dm_settings = dx_settings dpad\<rparr> (ent_dpads entry1) of
                           None \<Rightarrow> Inr (Some (uhi(key \<mapsto> entry1)), XR_ERROR_VALIDATION_FAILURE)
                         | Some (ds, added) \<Rightarrow>
                             if added
                             then Inr (Some (uhi(key \<mapsto> entry1\<lparr>ent_dpads := ds, ent_dpad_count := ent_dpad_count entry1 + 1\<rparr>)), XR_SUCCESS)
                             else Inr (Some (uhi(key \<mapsto> entry1)), XR_ERROR_RUNTIME_FAILURE))))))"

primrec process_dpads ::
  "path_store \<Rightarrow> (string \<Rightarrow> bool) \<Rightarrow> dpad_binding_ext list \<Rightarrow> oxr_dpad_state \<Rightarrow> fault + oxr_dpad_state \<times> XrResult" where
  "process_dpads store fn [] state = Inr (state, XR_SUCCESS)"
| "process_dpads store fn (d # ds) state =
     try_bind (process_dpad store fn state d) (\<lambda>(state1, r).
       if r \<noteq> XR_SUCCESS then Inr (None, r) else process_dpads store fn ds state1)"

text \<open>The loop that verifies the suggested bindings; \<open>None\<close> in a suggestion is a handle that is not an action.\<close>

primrec verify_suggestions ::
  "path_store \<Rightarrow> profile_template \<Rightarrow> bool \<Rightarrow> (XrPath \<times> oxr_action option) list
   \<Rightarrow> fault + XrResult + (XrPath \<times> oxr_action) list" where
  "verify_suggestions store templ has_dpad [] = Inr (Inr [])"
| "verify_suggestions store templ has_dpad (s # ss) =
     (case snd s of
        None \<Rightarrow> Inr (Inl XR_ERROR_HANDLE_INVALID)
      | Some act \<Rightarrow>
          if act_set_ever_attached act then Inr (Inl XR_ERROR_ACTIONSETS_ALREADY_ATTACHED)
          else try_bind (oxr_path_store_get_string store (fst s)) (\<lambda>(ret, res).
            case res of
              None \<Rightarrow> Inr (Inl XR_ERROR_PATH_INVALID)
            | Some (str, len) \<Rightarrow>
                if \<not> pt_subpath_fn templ (take len str) \<and> \<not> (pt_dpad_path_fn templ (take len str) \<and> has_dpad)
                then Inr (Inl XR_ERROR_PATH_UNSUPPORTED)
                else try_bind (verify_suggestions store templ has_dpad ss) (\<lambda>r.
                  Inr (map_sum id (\<lambda>rest. (fst s, act) # rest) r))))"

definition oxr_xrSuggestInteractionProfileBindings ::
  "(string \<Rightarrow> nat) \<Rightarrow> (path_store \<Rightarrow> addr option) \<Rightarrow> profile_template list \<Rightarrow> bool \<Rightarrow> path_store \<Rightarrow> oxr_instance_path_cache
   \<Rightarrow> oxr_interaction_profile list \<Rightarrow> XrPath \<Rightarrow> (XrPath \<times> oxr_action option) list \<Rightarrow> dpad_binding_ext list
   \<Rightarrow> fault + path_store \<times> oxr_interaction_profile list \<times> XrResult" where
  "oxr_xrSuggestInteractionProfileBindings hash alloc templates has_dpad store cache profiles ip suggestions mods =
     (if length suggestions = 0 then Inr (store, profiles, XR_ERROR_VALIDATION_FAILURE)
      else try_bind (oxr_path_store_get_string store ip) (\<lambda>(ret, res).
        if ret \<noteq> XR_SUCCESS then Inr (store, profiles, ret)
        else
          (case find_index (\<lambda>p. p = ip) (pc_template_paths cache) of
             None \<Rightarrow> Inr (store, profiles, XR_ERROR_PATH_UNSUPPORTED)
           | Some i \<Rightarrow>
               try_bind (arr_get templates i) (\<lambda>templ.
                 if \<not> pt_ext_supported templ then Inr (store, profiles, XR_ERROR_PATH_UNSUPPORTED)
                 else if \<not> pt_ext_enabled templ then Inr (store, profiles, XR_ERROR_PATH_UNSUPPORTED)
                 else try_bind (verify_suggestions store templ has_dpad suggestions) (\<lambda>v.
                   case v of
                     Inl r \<Rightarrow> Inr (store, profiles, r)
                   | Inr verified \<Rightarrow>
                       try_bind (if has_dpad then process_dpads store (pt_dpad_emulator_fn templ) mods (Some Map.empty)
                                 else Inr (None, XR_SUCCESS)) (\<lambda>(dpad, r).
                         if r \<noteq> XR_SUCCESS then Inr (store, profiles, r)
                         else oxr_action_suggest_interaction_profile_bindings hash alloc templates store cache profiles ip
                                verified dpad))))))"

end
