(* ===== verification/Input_State.thy ===== *)
theory Input_State
  imports Input_Bindings Session
begin

text \<open>
  The actions attached to a session and the binding of their inputs and outputs to devices:
  the structures of \<^verbatim>\<open>oxr_objects.h\<close>, \<^verbatim>\<open>actions/oxr_session_action_context.[ch]\<close>,
  \<^verbatim>\<open>actions/oxr_session_attached_actions.c\<close>, \<^verbatim>\<open>oxr_roles.[ch]\<close> and the first half of \<^verbatim>\<open>actions/oxr_input.c\<close>.

  The session owns its action set attachments and these own their action attachments: nested lists. A pointer to an
  action set attachment is its index, one to an action attachment is a pair of indices; the two hash maps hold those.
  The reference-counted data of an action set is an object in a heap, because its address is compared; that of
  an action never changes and is held by value. The caches of an action, one per subaction path, are a function of
  the path, so that the x-macros become loops. An array pointer and its count are a list, and \<^verbatim>\<open>NULL\<close> is the empty list.
  Allocations succeed.
\<close>

section \<open>Data\<close>

record oxr_action_state =
  st_value :: xrt_input_value
  st_active :: bool
  st_changed :: bool
  st_timestamp :: int

definition zero_state :: oxr_action_state where
  "zero_state = \<lparr>st_value = ValueZero, st_active = False, st_changed = False, st_timestamp = 0\<rparr>"

record oxr_action_input =
  ai_xdev :: addr
  ai_input :: input_ptr
  ai_dpad_activate_name :: xrt_input_name
  ai_dpad_activate :: "input_ptr option"
  ai_transforms :: "oxr_input_transform list option"
  ai_bound_path :: XrPath

record oxr_action_output =
  ao_xdev :: addr
  ao_name :: nat
  ao_bound_path :: XrPath

record oxr_action_cache =
  ca_current :: oxr_action_state
  ca_inputs :: "oxr_action_input list"
  ca_stop_output_time :: int
  ca_outputs :: "oxr_action_output list"

definition zero_cache :: oxr_action_cache where
  "zero_cache = \<lparr>ca_current = zero_state, ca_inputs = [], ca_stop_output_time = 0, ca_outputs = []\<rparr>"

record oxr_action_ref =
  ar_act_key :: nat
  ar_action_type :: XrActionType
  ar_subaction_paths :: oxr_subaction_paths

record oxr_action_attachment =
  aa_act_ref :: oxr_action_ref
  aa_any_pose_subaction_path :: oxr_subaction_paths
  aa_any_state :: oxr_action_state
  aa_caches :: "oxr_subaction_path \<Rightarrow> oxr_action_cache"

record oxr_action_set_ref =
  sr_ever_attached :: bool
  sr_act_set_key :: nat
  sr_priority :: nat
  sr_permitted_subaction_paths :: oxr_subaction_paths

record oxr_action_set_attachment =
  asa_act_set_ref :: addr
  asa_act_set_key :: nat
  asa_requested_subaction_paths :: oxr_subaction_paths
  asa_act_attachments :: "oxr_action_attachment list"

text \<open>The action set of the application: its data, its key and the actions among its children.\<close>

record oxr_action_set =
  as_data :: addr
  as_act_set_key :: nat
  as_actions :: "oxr_action_ref list"

text \<open>A vibration that was sent to an output of a device: frequency, amplitude and duration.\<close>

record vibration =
  vib_frequency :: c_float
  vib_amplitude :: c_float
  vib_duration :: int

record input_session =
  ix_sess :: session
  ix_sets_by_key :: "nat \<Rightarrow> nat option"
  ix_sets :: "oxr_action_set_attachment list option"
  ix_profiles :: "oxr_interaction_profile list"
  ix_generation_id :: nat
  ix_profile_paths :: "oxr_subaction_path \<Rightarrow> XrPath"
  ix_actions_by_key :: "nat \<Rightarrow> (nat \<times> nat) option"
  ix_set_refs :: "addr \<Rightarrow> oxr_action_set_ref option"
  ix_devs :: devices
  ix_outputs :: "(addr \<times> nat \<times> vibration) list"   \<comment> \<open>the calls of \<^verbatim>\<open>xrt_device_set_output\<close>\<close>

record input_env =
  ie_store :: path_store
  ie_cache :: oxr_instance_path_cache
  ie_templates :: "profile_template list"
  ie_static_xdevs :: "addr option list"
  ie_static_head :: "addr option"
  ie_static_eyes :: "addr option"
  ie_atan2f :: "c_float \<Rightarrow> c_float \<Rightarrow> c_float"
  ie_monotonic_to_ts :: "int \<Rightarrow> int"

record xrt_system_roles =
  ro_generation_id :: nat
  ro_left :: int
  ro_right :: int
  ro_gamepad :: int
  ro_left_profile :: nat
  ro_right_profile :: nat
  ro_gamepad_profile :: nat

definition OXR_MAX_BINDINGS_PER_ACTION :: nat where
  "OXR_MAX_BINDINGS_PER_ACTION = 32"

section \<open>Roles\<close>

definition dyn_role :: "input_env \<Rightarrow> int \<Rightarrow> fault + addr option" where
  "dyn_role env xdev_idx =
     (if xdev_idx < 0 \<or> int (length (ie_static_xdevs env)) \<le> xdev_idx then Inr None
      else arr_get (ie_static_xdevs env) (nat xdev_idx))"

fun get_xdev_by_role :: "input_env \<Rightarrow> xrt_system_roles \<Rightarrow> oxr_subaction_path \<Rightarrow> fault + addr option" where
  "get_xdev_by_role env roles OXR_SUB_ACTION_PATH_LEFT = dyn_role env (ro_left roles)"
| "get_xdev_by_role env roles OXR_SUB_ACTION_PATH_RIGHT = dyn_role env (ro_right roles)"
| "get_xdev_by_role env roles OXR_SUB_ACTION_PATH_GAMEPAD = dyn_role env (ro_gamepad roles)"
| "get_xdev_by_role env roles OXR_SUB_ACTION_PATH_HEAD = Inr (ie_static_head env)"
| "get_xdev_by_role env roles OXR_SUB_ACTION_PATH_EYES = Inr (ie_static_eyes env)"
| "get_xdev_by_role env roles OXR_SUB_ACTION_PATH_USER = Inr None"

fun get_profile_name_by_role :: "xrt_system_roles \<Rightarrow> oxr_subaction_path \<Rightarrow> nat" where
  "get_profile_name_by_role roles OXR_SUB_ACTION_PATH_LEFT = ro_left_profile roles"
| "get_profile_name_by_role roles OXR_SUB_ACTION_PATH_RIGHT = ro_right_profile roles"
| "get_profile_name_by_role roles OXR_SUB_ACTION_PATH_GAMEPAD = ro_gamepad_profile roles"
| "get_profile_name_by_role roles _ = XRT_DEVICE_INVALID"

section \<open>The action context of a session\<close>

definition oxr_session_action_context_init :: "input_session \<Rightarrow> input_session" where
  "oxr_session_action_context_init s =
     s\<lparr>ix_generation_id := 0, ix_sets_by_key := Map.empty, ix_sets := None, ix_profile_paths := (\<lambda>_. XR_NULL_PATH)\<rparr>"

definition oxr_session_action_context_has_attached_act_sets :: "input_session \<Rightarrow> bool" where
  "oxr_session_action_context_has_attached_act_sets s \<longleftrightarrow> ix_sets s \<noteq> None"

definition oxr_session_action_context_find_set :: "input_session \<Rightarrow> nat \<Rightarrow> nat option" where
  "oxr_session_action_context_find_set s key =
     (if \<not> oxr_session_action_context_has_attached_act_sets s then None else ix_sets_by_key s key)"

definition oxr_session_attached_actions_find :: "input_session \<Rightarrow> nat \<Rightarrow> (nat \<times> nat) option" where
  "oxr_session_attached_actions_find s key = ix_actions_by_key s key"

text \<open>Following the pointers.\<close>

definition get_set :: "input_session \<Rightarrow> nat \<Rightarrow> fault + oxr_action_set_attachment" where
  "get_set s i = try_bind (not_null (ix_sets s)) (\<lambda>sets. arr_get sets i)"

definition get_attachment :: "input_session \<Rightarrow> nat \<times> nat \<Rightarrow> fault + oxr_action_attachment" where
  "get_attachment s p = try_bind (get_set s (fst p)) (\<lambda>asa. arr_get (asa_act_attachments asa) (snd p))"

section \<open>Attaching action sets\<close>

definition oxr_action_attachment_init :: "oxr_action_ref \<Rightarrow> oxr_action_attachment" where
  "oxr_action_attachment_init act_ref =
     \<lparr>aa_act_ref = act_ref, aa_any_pose_subaction_path = no_subaction_paths, aa_any_state = zero_state,
      aa_caches = (\<lambda>_. zero_cache)\<rparr>"

text \<open>The loop over the actions of a set enters each attachment in the map of the session.\<close>

primrec add_action_attachments ::
  "nat \<Rightarrow> nat \<Rightarrow> oxr_action_ref list \<Rightarrow> (nat \<Rightarrow> (nat \<times> nat) option) \<Rightarrow> nat \<Rightarrow> (nat \<times> nat) option" where
  "add_action_attachments i k [] by_key = by_key"
| "add_action_attachments i k (act # acts) by_key =
     add_action_attachments i (k + 1) acts (by_key(ar_act_key act \<mapsto> (i, k)))"

definition oxr_action_set_attachment_init :: "oxr_action_set \<Rightarrow> nat \<Rightarrow> oxr_action_set_attachment" where
  "oxr_action_set_attachment_init act_set key =
     \<lparr>asa_act_set_ref = as_data act_set, asa_act_set_key = key, asa_requested_subaction_paths = no_subaction_paths,
      asa_act_attachments = map oxr_action_attachment_init (as_actions act_set)\<rparr>"

primrec attach_sets :: "nat \<Rightarrow> oxr_action_set list \<Rightarrow> input_session \<Rightarrow> fault + input_session \<times> oxr_action_set_attachment list" where
  "attach_sets i [] s = Inr (s, [])"
| "attach_sets i (act_set # act_sets) s =
     try_bind (deref (ix_set_refs s) (as_data act_set)) (\<lambda>ref.
     let ref1 = ref\<lparr>sr_ever_attached := True\<rparr>;
         s1 = s\<lparr>ix_set_refs := (ix_set_refs s)(as_data act_set \<mapsto> ref1),
                ix_sets_by_key := (ix_sets_by_key s)(sr_act_set_key ref \<mapsto> i),
                ix_actions_by_key := add_action_attachments i 0 (as_actions act_set) (ix_actions_by_key s)\<rparr>
     in try_bind (attach_sets (i + 1) act_sets s1) (\<lambda>(s2, sets).
          Inr (s2, oxr_action_set_attachment_init act_set (sr_act_set_key ref) # sets)))"

definition oxr_session_attach_action_sets ::
  "oxr_interaction_profile list \<Rightarrow> oxr_action_set list \<Rightarrow> input_session \<Rightarrow> fault + input_session \<times> XrResult" where
  "oxr_session_attach_action_sets suggested_profiles act_sets s =
     try_bind (attach_sets 0 act_sets (s\<lparr>ix_profiles := oxr_interaction_profile_array_clone suggested_profiles\<rparr>)) (\<lambda>(s1, sets).
       let s2 = s1\<lparr>ix_sets := Some sets\<rparr>
       in Inr (s2, oxr_session_success_result (ix_sess s2)))"

definition oxr_xrAttachSessionActionSets ::
  "oxr_interaction_profile list \<Rightarrow> oxr_action_set list \<Rightarrow> input_session \<Rightarrow> fault + input_session \<times> XrResult" where
  "oxr_xrAttachSessionActionSets suggested_profiles act_sets s =
     (if has_lost (ix_sess s) then Inr (s, XR_ERROR_SESSION_LOST)
      else if oxr_session_action_context_has_attached_act_sets s then Inr (s, XR_ERROR_ACTIONSETS_ALREADY_ATTACHED)
      else if length act_sets = 0 then Inr (s, XR_ERROR_VALIDATION_FAILURE)
      else oxr_session_attach_action_sets suggested_profiles act_sets s)"

text \<open>
  Destroying the session: the attachments leave the maps, their caches are freed with them. The references they drop are
  not counted in the model.
\<close>

definition oxr_action_set_attachment_teardown :: "oxr_action_set_attachment \<Rightarrow> input_session \<Rightarrow> input_session" where
  "oxr_action_set_attachment_teardown asa s =
     s\<lparr>ix_actions_by_key := fold (\<lambda>aa m. m(ar_act_key (aa_act_ref aa) := None)) (asa_act_attachments asa) (ix_actions_by_key s),
       ix_sets_by_key := (ix_sets_by_key s)(asa_act_set_key asa := None)\<rparr>"

definition oxr_session_action_context_fini :: "input_session \<Rightarrow> fault + input_session" where
  "oxr_session_action_context_fini s =
     (let s1 = s\<lparr>ix_profiles := []\<rparr>;
          s2 = fold oxr_action_set_attachment_teardown (case ix_sets s1 of None \<Rightarrow> [] | Some sets \<Rightarrow> sets) s1
      in try_bind (c_assert (ix_sets_by_key s2 = Map.empty)) (\<lambda>_. Inr (s2\<lparr>ix_sets := None\<rparr>)))"

section \<open>Binding to a device\<close>

definition oxr_action_cache_teardown :: "oxr_action_cache \<Rightarrow> oxr_action_cache" where
  "oxr_action_cache_teardown cache = zero_cache"

definition oxr_xdev_find_input :: "xrt_device \<Rightarrow> xrt_input_name \<Rightarrow> nat option" where
  "oxr_xdev_find_input xdev name = find_index (\<lambda>input. in_name input = name) (xd_inputs xdev)"

definition oxr_xdev_find_output :: "xrt_device \<Rightarrow> nat \<Rightarrow> nat option" where
  "oxr_xdev_find_output xdev name = find_index (\<lambda>out. out = name) (xd_outputs xdev)"

text \<open>\<open>None\<close> is \<^verbatim>\<open>return false\<close>.\<close>

primrec find_pair :: "xrt_device \<Rightarrow> xrt_input_name \<Rightarrow> (xrt_input_name \<times> xrt_input_name) list \<Rightarrow> xrt_input_name option" where
  "find_pair xdev from_name [] = None"
| "find_pair xdev from_name (p # ps) =
     (if from_name \<noteq> fst p then find_pair xdev from_name ps
      else if oxr_xdev_find_input xdev (snd p) \<noteq> None then Some (snd p)
      else find_pair xdev from_name ps)"

definition find_xdev_name_from_pairs :: "xrt_device \<Rightarrow> xrt_binding_profile \<Rightarrow> xrt_input_name \<Rightarrow> xrt_input_name option" where
  "find_xdev_name_from_pairs xdev xbp from_name =
     (if from_name = no_input_name then Some no_input_name else find_pair xdev from_name (xbp_inputs xbp))"

text \<open>Writing to an array of the caller with room for \<open>OXR_MAX_BINDINGS_PER_ACTION\<close> entries.\<close>

definition array_push :: "'a list \<Rightarrow> 'a \<Rightarrow> fault + 'a list" where
  "array_push xs x = (if length xs < OXR_MAX_BINDINGS_PER_ACTION then Inr (xs @ [x]) else Inl OutOfBounds)"

definition do_inputs ::
  "oxr_binding \<Rightarrow> addr \<Rightarrow> xrt_device \<Rightarrow> xrt_binding_profile option \<Rightarrow> XrPath \<Rightarrow> oxr_action_input list
   \<Rightarrow> fault + oxr_action_input list" where
  "do_inputs b a xdev xbp matched_path inputs =
     (let names = (case xbp of
                     Some p \<Rightarrow> (find_xdev_name_from_pairs xdev p (b_input b), find_xdev_name_from_pairs xdev p (b_dpad_activate b))
                   | None \<Rightarrow> (Some (b_input b), Some (b_dpad_activate b)))
      in (case names of
            (Some name, Some dpad_activate_name) \<Rightarrow>
              (case oxr_xdev_find_input xdev name of
                 None \<Rightarrow> Inr inputs
               | Some i \<Rightarrow>
                   let act = (if dpad_activate_name \<noteq> no_input_name then oxr_xdev_find_input xdev dpad_activate_name else None)
                   in if dpad_activate_name \<noteq> no_input_name \<and> act = None then Inr inputs
                      else array_push inputs
                        \<lparr>ai_xdev = a, ai_input = (a, i),
                         ai_dpad_activate_name = (if act \<noteq> None then dpad_activate_name else no_input_name),
                         ai_dpad_activate = map_option (\<lambda>k. (a, k)) act, ai_transforms = None,
                         ai_bound_path = matched_path\<rparr>)
          | _ \<Rightarrow> Inr inputs))"

definition do_outputs ::
  "oxr_binding \<Rightarrow> addr \<Rightarrow> xrt_device \<Rightarrow> xrt_binding_profile option \<Rightarrow> XrPath \<Rightarrow> oxr_action_output list
   \<Rightarrow> fault + oxr_action_output list" where
  "do_outputs b a xdev xbp matched_path outputs =
     (let name = (case xbp of
                    None \<Rightarrow> Some (b_output b)
                  | Some p \<Rightarrow>
                      (case find_index (\<lambda>pair. fst pair = b_output b) (xbp_outputs p) of
                         None \<Rightarrow> None
                       | Some i \<Rightarrow> (if snd (xbp_outputs p ! i) = 0 then None else Some (snd (xbp_outputs p ! i)))))
      in (case name of
            None \<Rightarrow> Inr outputs
          | Some n \<Rightarrow>
              if oxr_xdev_find_output xdev n \<noteq> None
              then array_push outputs \<lparr>ao_xdev = a, ao_name = n, ao_bound_path = matched_path\<rparr>
              else Inr outputs))"

definition get_matching_binding_profile :: "oxr_interaction_profile \<Rightarrow> xrt_device \<Rightarrow> xrt_binding_profile option" where
  "get_matching_binding_profile profile xdev = find (\<lambda>xbp. xbp_name xbp = ip_xname profile) (xd_binding_profiles xdev)"

definition get_matched_xrpath :: "oxr_binding \<Rightarrow> nat \<Rightarrow> fault + XrPath" where
  "get_matched_xrpath b key =
     (case find_index (\<lambda>k. k = key) (b_act_keys b) of
        None \<Rightarrow> Inr XR_NULL_PATH
      | Some i \<Rightarrow> try_bind (arr_get (b_preferred_binding_path_index b) i) (\<lambda>y. arr_get (b_paths b) y))"

text \<open>The loop of \<^verbatim>\<open>get_binding\<close> over the bindings of the action.\<close>

primrec bind_points ::
  "path_store \<Rightarrow> oxr_action_ref \<Rightarrow> oxr_subaction_path \<Rightarrow> addr \<Rightarrow> xrt_device \<Rightarrow> xrt_binding_profile option \<Rightarrow> oxr_binding list
   \<Rightarrow> oxr_action_input list \<times> oxr_action_output list \<Rightarrow> fault + oxr_action_input list \<times> oxr_action_output list" where
  "bind_points store act_ref path a xdev xbp [] io = Inr io"
| "bind_points store act_ref path a xdev xbp (b # bs) io =
     try_bind (get_matched_xrpath b (ar_act_key act_ref)) (\<lambda>matched_path.
     try_bind (oxr_path_store_get_string store matched_path) (\<lambda>_.
     try_bind (if b_subaction_path b \<noteq> path then Inr io
               else if ar_action_type act_ref = XR_ACTION_TYPE_VIBRATION_OUTPUT
               then try_bind (do_outputs b a xdev xbp matched_path (snd io)) (\<lambda>outputs. Inr (fst io, outputs))
               else try_bind (do_inputs b a xdev xbp matched_path (fst io)) (\<lambda>inputs. Inr (inputs, snd io))) (\<lambda>io'.
       bind_points store act_ref path a xdev xbp bs io')))"

definition get_binding ::
  "input_env \<Rightarrow> devices \<Rightarrow> xrt_system_roles \<Rightarrow> oxr_action_ref \<Rightarrow> oxr_interaction_profile option \<Rightarrow> oxr_subaction_path
   \<Rightarrow> fault + oxr_action_input list \<times> oxr_action_output list" where
  "get_binding env devs roles act_ref profile path =
     try_bind (get_xdev_by_role env roles path) (\<lambda>xdev.
       case (xdev, profile) of
         (Some a, Some p) \<Rightarrow>
           try_bind (oxr_path_store_get_string (ie_store env) (ip_path p)) (\<lambda>_.
           try_bind (deref devs a) (\<lambda>dev.
             let xbp = get_matching_binding_profile p dev
             in if ip_xname p \<noteq> xd_name dev \<and> xbp = None then Inr ([], [])
                else try_bind (oxr_binding_find_bindings_from_act_key p (ar_act_key act_ref) OXR_MAX_BINDINGS_PER_ACTION) (\<lambda>bs.
                  bind_points (ie_store env) act_ref path a dev xbp bs ([], []))))
       | _ \<Rightarrow> Inr ([], []))"

section \<open>Dpad regions\<close>

text \<open>The loop goes back from \<^verbatim>\<open>end\<close> to the slash before it.\<close>

primrec region_scan :: "string \<Rightarrow> nat \<Rightarrow> bool" where
  "region_scan str 0 = False"
| "region_scan str (Suc e) =
     (if str ! Suc e = CHR ''/'' then
        (\<exists>p \<in> set [''/thumbstick_'', ''/thumbstick/'', ''/trackpad_'', ''/trackpad/''].
           take (length p) (drop (Suc e) str) = p)
      else region_scan str e)"

definition is_dpad_region_for_emulation :: "string \<Rightarrow> nat \<Rightarrow> bool" where
  "is_dpad_region_for_emulation str e = region_scan str (e - 1)"

definition dpad_suffix :: "string \<Rightarrow> nat \<Rightarrow> string \<Rightarrow> bool" where
  "dpad_suffix str len sfx \<longleftrightarrow>
     length sfx \<le> len \<and> take (length sfx) (drop (len - length sfx) str) = sfx
     \<and> is_dpad_region_for_emulation str (len - length sfx)"

definition get_dpad_region_from_path :: "path_store \<Rightarrow> XrPath \<Rightarrow> fault + oxr_dpad_region option" where
  "get_dpad_region_from_path store path =
     try_bind (oxr_path_store_get_string store path) (\<lambda>(ret, res).
       case res of
         None \<Rightarrow> Inr None
       | Some (str, len) \<Rightarrow>
           if dpad_suffix str len ''/dpad_left'' then Inr (Some OXR_DPAD_REGION_LEFT)
           else if dpad_suffix str len ''/dpad_right'' then Inr (Some OXR_DPAD_REGION_RIGHT)
           else if dpad_suffix str len ''/dpad_up'' then Inr (Some OXR_DPAD_REGION_UP)
           else if dpad_suffix str len ''/dpad_down'' then Inr (Some OXR_DPAD_REGION_DOWN)
           else if dpad_suffix str len ''/dpad_center'' then Inr (Some OXR_DPAD_REGION_CENTER)
           else Inr None)"

text \<open>The loop over the used slots of an entry.\<close>

primrec match_dpads ::
  "path_store \<Rightarrow> string \<Rightarrow> oxr_dpad_binding_modification list \<Rightarrow> fault + oxr_dpad_binding_modification option" where
  "match_dpads store bound [] = Inr None"
| "match_dpads store bound (d # ds) =
     try_bind (oxr_path_store_get_string store (dm_binding d)) (\<lambda>(ret, res).
       case res of
         None \<Rightarrow> Inl UninitRead
       | Some (str, len) \<Rightarrow>
           if take len bound = take len str then Inr (Some d) else match_dpads store bound ds)"

definition find_matching_dpad ::
  "path_store \<Rightarrow> oxr_dpad_entry option \<Rightarrow> string \<Rightarrow> fault + oxr_dpad_binding_modification option" where
  "find_matching_dpad store entry bound =
     (case entry of
        None \<Rightarrow> Inr None
      | Some e \<Rightarrow> if ent_dpad_count e \<le> length (ent_dpads e)
                  then match_dpads store bound (take (ent_dpad_count e) (ent_dpads e))
                  else Inl OutOfBounds)"

section \<open>Transforms of the bound inputs\<close>

definition oxr_action_populate_input_transform ::
  "path_store \<Rightarrow> devices \<Rightarrow> oxr_action_ref \<Rightarrow> oxr_action_input \<Rightarrow> fault + oxr_action_input option" where
  "oxr_action_populate_input_transform store devs act_ref ai =
     try_bind (c_assert (ai_transforms ai = None)) (\<lambda>_.
     try_bind (path_text store (ai_bound_path ai)) (\<lambda>str.
     try_bind (read_input devs (ai_input ai)) (\<lambda>input.
     try_bind (oxr_input_transform_create_chain (XRT_GET_INPUT_TYPE (in_name input)) (ar_action_type act_ref) str) (\<lambda>c.
       Inr (map_option (\<lambda>xforms. ai\<lparr>ai_transforms := Some xforms\<rparr>) c)))))"

definition oxr_action_populate_input_transform_dpad ::
  "path_store \<Rightarrow> devices \<Rightarrow> oxr_action_ref \<Rightarrow> oxr_dpad_entry option \<Rightarrow> oxr_dpad_region \<Rightarrow> oxr_action_input
   \<Rightarrow> fault + oxr_action_input option" where
  "oxr_action_populate_input_transform_dpad store devs act_ref entry region ai =
     try_bind (c_assert (ai_transforms ai = None)) (\<lambda>_.
     try_bind (path_text store (ai_bound_path ai)) (\<lambda>str.
     try_bind (find_matching_dpad store entry str) (\<lambda>modification.
     try_bind (read_input devs (ai_input ai)) (\<lambda>input.
     try_bind (oxr_input_transform_create_chain_dpad (XRT_GET_INPUT_TYPE (in_name input)) (ar_action_type act_ref)
                 (map_option dm_settings modification) region (XRT_GET_INPUT_TYPE (ai_dpad_activate_name ai))
                 (ai_dpad_activate ai)) (\<lambda>c.
       Inr (map_option (\<lambda>xforms. ai\<lparr>ai_transforms := Some xforms\<rparr>) c))))))"

text \<open>The loop of \<^verbatim>\<open>oxr_action_bind_io\<close>: only the inputs with a transform are kept.\<close>

primrec keep_transformed ::
  "input_env \<Rightarrow> devices \<Rightarrow> oxr_action_ref \<Rightarrow> nat \<Rightarrow> oxr_interaction_profile option \<Rightarrow> oxr_action_input list
   \<Rightarrow> fault + oxr_action_input list" where
  "keep_transformed env devs act_ref act_set_key profile [] = Inr []"
| "keep_transformed env devs act_ref act_set_key profile (ai # ais) =
     try_bind (get_dpad_region_from_path (ie_store env) (ai_bound_path ai)) (\<lambda>region.
     try_bind (case region of
                 Some r \<Rightarrow>
                   try_bind (not_null profile) (\<lambda>p.
                   try_bind (oxr_dpad_state_get (ip_dpad_state p) act_set_key) (\<lambda>entry.
                     oxr_action_populate_input_transform_dpad (ie_store env) devs act_ref entry r ai))
               | None \<Rightarrow> oxr_action_populate_input_transform (ie_store env) devs act_ref ai) (\<lambda>r.
     try_bind (keep_transformed env devs act_ref act_set_key profile ais) (\<lambda>rest.
       Inr (case r of None \<Rightarrow> rest | Some ai' \<Rightarrow> ai' # rest))))"

definition oxr_action_bind_io ::
  "input_env \<Rightarrow> devices \<Rightarrow> xrt_system_roles \<Rightarrow> oxr_action_ref \<Rightarrow> nat \<Rightarrow> oxr_interaction_profile option \<Rightarrow> oxr_subaction_path
   \<Rightarrow> oxr_action_cache \<Rightarrow> fault + oxr_action_cache" where
  "oxr_action_bind_io env devs roles act_ref act_set_key profile path cache =
     (let c0 = oxr_action_cache_teardown cache
      in try_bind (get_binding env devs roles act_ref profile path) (\<lambda>(inputs, outputs).
         try_bind (if length inputs > 0
                   then try_bind (keep_transformed env devs act_ref act_set_key profile inputs) (\<lambda>kept.
                     Inr (c0\<lparr>ca_current := (ca_current c0)\<lparr>st_active := True\<rparr>, ca_inputs := kept\<rparr>))
                   else Inr c0) (\<lambda>c1.
           Inr (if length outputs > 0
                then c1\<lparr>ca_current := (ca_current c1)\<lparr>st_active := True\<rparr>, ca_outputs := outputs\<rparr>
                else c1))))"

text \<open>The x-macro over the valid subaction paths.\<close>

definition action_wants :: "oxr_action_ref \<Rightarrow> oxr_subaction_path \<Rightarrow> bool" where
  "action_wants act_ref path \<longleftrightarrow> sp_get path (ar_subaction_paths act_ref) \<or> sp_any (ar_subaction_paths act_ref)"

primrec bind_paths ::
  "input_env \<Rightarrow> devices \<Rightarrow> xrt_system_roles \<Rightarrow> nat \<Rightarrow> (oxr_subaction_path \<Rightarrow> oxr_interaction_profile option)
   \<Rightarrow> oxr_subaction_path list \<Rightarrow> oxr_action_attachment \<Rightarrow> fault + oxr_action_attachment" where
  "bind_paths env devs roles act_set_key profiles [] aa = Inr aa"
| "bind_paths env devs roles act_set_key profiles (path # paths) aa =
     try_bind (if action_wants (aa_act_ref aa) path
               then try_bind (oxr_action_bind_io env devs roles (aa_act_ref aa) act_set_key (profiles path) path (aa_caches aa path))
                 (\<lambda>c. Inr (aa\<lparr>aa_caches := (aa_caches aa)(path := c)\<rparr>))
               else Inr aa) (\<lambda>aa'.
       bind_paths env devs roles act_set_key profiles paths aa')"

definition oxr_action_attachment_bind ::
  "input_env \<Rightarrow> devices \<Rightarrow> xrt_system_roles \<Rightarrow> nat \<Rightarrow> (oxr_subaction_path \<Rightarrow> oxr_interaction_profile option)
   \<Rightarrow> oxr_action_attachment \<Rightarrow> fault + oxr_action_attachment" where
  "oxr_action_attachment_bind env devs roles act_set_key profiles aa =
     try_bind (bind_paths env devs roles act_set_key profiles valid_subaction_paths aa) (\<lambda>aa1.
       Inr (if ar_action_type (aa_act_ref aa1) = XR_ACTION_TYPE_POSE_INPUT
            then
              let reset = fold (\<lambda>p. sp_set p False) valid_subaction_paths (aa_any_pose_subaction_path aa1);
                  chosen = find (\<lambda>p. action_wants (aa_act_ref aa1) p \<and> length (ca_inputs (aa_caches aa1 p)) > 0) valid_subaction_paths
              in aa1\<lparr>aa_any_pose_subaction_path := (case chosen of None \<Rightarrow> reset | Some p \<Rightarrow> sp_set p True reset)\<rparr>
            else aa1))"

section \<open>Binding all actions of a session\<close>

text \<open>One name of the x-macro of \<^verbatim>\<open>find_profiles_from_roles\<close>: the index of the profile.\<close>

definition find_profile ::
  "input_env \<Rightarrow> oxr_interaction_profile list \<Rightarrow> devices \<Rightarrow> xrt_system_roles \<Rightarrow> oxr_subaction_path
   \<Rightarrow> fault + oxr_interaction_profile option" where
  "find_profile env array devs roles path =
     try_bind (oxr_interaction_profile_array_find_by_device_name (ie_templates env) array (ie_cache env)
                 (get_profile_name_by_role roles path)) (\<lambda>found.
     try_bind (if found \<noteq> None then Inr found
               else try_bind (get_xdev_by_role env roles path) (\<lambda>xdev.
                 case xdev of
                   None \<Rightarrow> Inr None
                 | Some a \<Rightarrow> try_bind (deref devs a) (\<lambda>dev.
                     oxr_interaction_profile_array_find_by_device (ie_templates env) array (ie_cache env) dev))) (\<lambda>found'.
       Inr (map_option (\<lambda>i. array ! i) found')))"

primrec find_profiles_from_roles ::
  "input_env \<Rightarrow> oxr_interaction_profile list \<Rightarrow> devices \<Rightarrow> xrt_system_roles \<Rightarrow> oxr_subaction_path list
   \<Rightarrow> (oxr_subaction_path \<Rightarrow> oxr_interaction_profile option) \<Rightarrow> fault + (oxr_subaction_path \<Rightarrow> oxr_interaction_profile option)" where
  "find_profiles_from_roles env array devs roles [] profiles = Inr profiles"
| "find_profiles_from_roles env array devs roles (path # paths) profiles =
     try_bind (find_profile env array devs roles path) (\<lambda>p.
       find_profiles_from_roles env array devs roles paths (profiles(path := p)))"

primrec bind_attachments ::
  "input_env \<Rightarrow> devices \<Rightarrow> xrt_system_roles \<Rightarrow> nat \<Rightarrow> (oxr_subaction_path \<Rightarrow> oxr_interaction_profile option)
   \<Rightarrow> oxr_action_attachment list \<Rightarrow> fault + oxr_action_attachment list" where
  "bind_attachments env devs roles act_set_key profiles [] = Inr []"
| "bind_attachments env devs roles act_set_key profiles (aa # aas) =
     try_bind (oxr_action_attachment_bind env devs roles act_set_key profiles aa) (\<lambda>aa'.
     try_bind (bind_attachments env devs roles act_set_key profiles aas) (\<lambda>aas'. Inr (aa' # aas')))"

primrec bind_sets ::
  "input_env \<Rightarrow> devices \<Rightarrow> xrt_system_roles \<Rightarrow> (oxr_subaction_path \<Rightarrow> oxr_interaction_profile option)
   \<Rightarrow> oxr_action_set_attachment list \<Rightarrow> fault + oxr_action_set_attachment list" where
  "bind_sets env devs roles profiles [] = Inr []"
| "bind_sets env devs roles profiles (asa # sets) =
     try_bind (bind_attachments env devs roles (asa_act_set_key asa) profiles (asa_act_attachments asa)) (\<lambda>aas.
     try_bind (bind_sets env devs roles profiles sets) (\<lambda>sets'.
       Inr (asa\<lparr>asa_act_attachments := aas\<rparr> # sets')))"

text \<open>The x-macro that latches the profile of a subaction path.\<close>

definition populate_profile ::
  "(oxr_subaction_path \<Rightarrow> oxr_interaction_profile option) \<Rightarrow> oxr_subaction_path
   \<Rightarrow> (oxr_subaction_path \<Rightarrow> XrPath) \<times> bool \<Rightarrow> (oxr_subaction_path \<Rightarrow> XrPath) \<times> bool" where
  "populate_profile profiles path acc =
     (let xr_path = (case profiles path of None \<Rightarrow> XR_NULL_PATH | Some p \<Rightarrow> ip_path p)
      in if xr_path = XR_NULL_PATH then acc
         else if fst acc path \<noteq> xr_path then ((fst acc)(path := xr_path), True)
         else acc)"

definition session_update_action_bindings ::
  "input_env \<Rightarrow> xrt_system_roles \<Rightarrow> input_session \<Rightarrow> fault + input_session \<times> bool" where
  "session_update_action_bindings env roles s =
     try_bind (find_profiles_from_roles env (ix_profiles s) (ix_devs s) roles valid_subaction_paths (\<lambda>_. None)) (\<lambda>profiles.
     try_bind (case ix_sets s of
                 None \<Rightarrow> Inr None
               | Some sets \<Rightarrow> try_bind (bind_sets env (ix_devs s) roles profiles sets) (\<lambda>sets'. Inr (Some sets'))) (\<lambda>sets.
       let (paths, changed) = fold (populate_profile profiles) valid_subaction_paths (ix_profile_paths s, False)
       in Inr (s\<lparr>ix_sets := sets, ix_profile_paths := paths\<rparr>, changed)))"

end
