(* ===== verification/Input_Sync.thy ===== *)
theory Input_Sync
  imports Input_State
begin

text \<open>
  Synchronising and reading actions: the second half of \<^verbatim>\<open>actions/oxr_input.c\<close>, \<^verbatim>\<open>actions/oxr_get_state.c\<close>,
  \<^verbatim>\<open>actions/oxr_set_haptic.c\<close> and their entry points in \<^verbatim>\<open>actions/oxr_api_action.c\<close>.

  \<^verbatim>\<open>xrt_device_update_inputs\<close> belongs to the drivers: the argument \<open>update\<close> gives its result and the devices
  afterwards. The roles and the time are arguments too. Handles are the objects they were
  checked to be.
\<close>

section \<open>Data of the application\<close>

record XrActiveActionSet =
  act_set :: oxr_action_set
  subactionPath :: XrPath

record XrActiveActionSetPriorityEXT =
  prio_act_set :: oxr_action_set
  priorityOverride :: nat

section \<open>Suppression by priority\<close>

text \<open>\<^verbatim>\<open>activePriorities\<close>, \<open>None\<close> is \<^verbatim>\<open>NULL\<close>: the first entry for the set overrides its priority.\<close>

definition oxr_get_action_set_priority ::
  "input_session \<Rightarrow> addr \<Rightarrow> XrActiveActionSetPriorityEXT list option \<Rightarrow> fault + nat" where
  "oxr_get_action_set_priority s ref priorities =
     (case (case priorities of None \<Rightarrow> None | Some ps \<Rightarrow> find (\<lambda>p. as_data (prio_act_set p) = ref) ps) of
        Some p \<Rightarrow> Inr (priorityOverride p)
      | None \<Rightarrow> try_bind (deref (ix_set_refs s) ref) (\<lambda>r. Inr (sr_priority r)))"

definition oxr_input_is_input_for_cache :: "oxr_action_input \<Rightarrow> oxr_action_cache \<Rightarrow> bool" where
  "oxr_input_is_input_for_cache ai cache \<longleftrightarrow> (\<exists>other \<in> set (ca_inputs cache). ai_bound_path ai = ai_bound_path other)"

definition oxr_input_is_bound_in_act_set :: "oxr_action_input \<Rightarrow> oxr_action_set_attachment \<Rightarrow> bool" where
  "oxr_input_is_bound_in_act_set ai asa \<longleftrightarrow>
     (\<exists>aa \<in> set (asa_act_attachments asa). \<exists>path \<in> set all_subaction_paths.
        oxr_input_is_input_for_cache ai (aa_caches aa path))"

text \<open>The loop over the active action sets; \<open>ref\<close> is the set of the action.\<close>

primrec suppressed_loop ::
  "input_session \<Rightarrow> XrActiveActionSetPriorityEXT list option \<Rightarrow> oxr_subaction_paths \<Rightarrow> addr \<Rightarrow> nat \<Rightarrow> oxr_action_input
   \<Rightarrow> XrActiveActionSet list \<Rightarrow> fault + bool" where
  "suppressed_loop s priorities subaction ref priority ai [] = Inr False"
| "suppressed_loop s priorities subaction ref priority ai (active # actives) =
     (case oxr_session_action_context_find_set s (as_act_set_key (act_set active)) of
        None \<Rightarrow> suppressed_loop s priorities subaction ref priority ai actives
      | Some i \<Rightarrow>
          try_bind (get_set s i) (\<lambda>other.
            if asa_act_set_ref other = ref then suppressed_loop s priorities subaction ref priority ai actives
            else try_bind (oxr_get_action_set_priority s (asa_act_set_ref other) priorities) (\<lambda>other_priority.
              if other_priority \<le> priority then suppressed_loop s priorities subaction ref priority ai actives
              else
                let requested = asa_requested_subaction_paths other;
                    relevant = (sp_any requested \<or> (\<exists>path \<in> set all_subaction_paths. sp_get path requested \<and> sp_get path subaction))
                in if relevant \<and> oxr_input_is_bound_in_act_set ai other then Inr True
                   else suppressed_loop s priorities subaction ref priority ai actives)))"

definition oxr_input_supressed ::
  "input_session \<Rightarrow> XrActiveActionSet list \<Rightarrow> oxr_subaction_paths \<Rightarrow> addr \<Rightarrow> oxr_action_input
   \<Rightarrow> XrActiveActionSetPriorityEXT list option \<Rightarrow> fault + bool" where
  "oxr_input_supressed s actives subaction ref ai priorities =
     try_bind (oxr_get_action_set_priority s ref priorities) (\<lambda>priority.
       suppressed_loop s priorities subaction ref priority ai actives)"

section \<open>Combining the inputs of a cache\<close>

record combined =
  cb_value :: oxr_input_value_tagged
  cb_timestamp :: int
  cb_active :: bool

text \<open>The switch over the type of a transformed value.\<close>

definition combine_value :: "xrt_input \<Rightarrow> oxr_input_value_tagged \<Rightarrow> combined \<Rightarrow> fault + combined" where
  "combine_value input transformed c =
     (let res = tv_value (cb_value c);
          c0 = c\<lparr>cb_value := \<lparr>tv_type = tv_type transformed, tv_value = res\<rparr>\<rparr>
      in case tv_type transformed of
           XRT_INPUT_TYPE_BOOLEAN \<Rightarrow>
             try_bind (value_boolean res) (\<lambda>r.
             try_bind (value_boolean (tv_value transformed)) (\<lambda>t.
               let r' = (r \<or> t);
                   ts = (if r' \<and> t \<and> in_timestamp input < cb_timestamp c then in_timestamp input
                         else if \<not> r' \<and> \<not> t \<and> cb_timestamp c < in_timestamp input then in_timestamp input
                         else cb_timestamp c)
               in Inr (c0\<lparr>cb_value := \<lparr>tv_type = tv_type transformed, tv_value = ValueBoolean r'\<rparr>, cb_timestamp := ts\<rparr>)))
         | XRT_INPUT_TYPE_VEC2_MINUS_ONE_TO_ONE \<Rightarrow>
             try_bind (value_vec2 res) (\<lambda>(rx, ry).
             try_bind (value_vec2 (tv_value transformed)) (\<lambda>(tx, ty).
               let res_sq = flt_add (flt_mul rx rx) (flt_mul ry ry);
                   trans_sq = flt_add (flt_mul tx tx) (flt_mul ty ty)
               in Inr (if flt_less res_sq trans_sq
                       then c0\<lparr>cb_value := \<lparr>tv_type = tv_type transformed, tv_value = ValueVec2 tx ty\<rparr>,
                               cb_timestamp := in_timestamp input\<rparr>
                       else c0)))
         | _ \<Rightarrow>
             if input_is_float (tv_type transformed) then
               try_bind (value_vec1 res) (\<lambda>r.
               try_bind (value_vec1 (tv_value transformed)) (\<lambda>t.
                 Inr (if flt_less (flt_abs r) (flt_abs t)
                      then c0\<lparr>cb_value := \<lparr>tv_type = tv_type transformed, tv_value = ValueVec1 t\<rparr>,
                              cb_timestamp := in_timestamp input\<rparr>
                      else c0)))
             else Inr c0)"

text \<open>The loop over the inputs: the inputs afterwards, and the result or \<open>None\<close> for \<^verbatim>\<open>return false\<close>.\<close>

primrec combine_loop ::
  "input_env \<Rightarrow> devices \<Rightarrow> (oxr_action_input \<Rightarrow> fault + bool) \<Rightarrow> oxr_action_input list \<Rightarrow> combined
   \<Rightarrow> fault + oxr_action_input list \<times> combined option" where
  "combine_loop env devs suppressed [] c = Inr ([], Some c)"
| "combine_loop env devs suppressed (ai # ais) c =
     try_bind (suppressed ai) (\<lambda>sup.
     try_bind (read_input devs (ai_input ai)) (\<lambda>input.
       if sup \<or> \<not> in_active input then
         try_bind (combine_loop env devs suppressed ais c) (\<lambda>(ais', r). Inr (ai # ais', r))
       else
         try_bind (oxr_input_transform_process (ie_atan2f env) devs (ai_transforms ai)
                     \<lparr>tv_type = XRT_GET_INPUT_TYPE (in_name input), tv_value = in_value input\<rparr>) (\<lambda>(xforms, out).
         let ai' = ai\<lparr>ai_transforms := xforms\<rparr>
         in case out of
              None \<Rightarrow> Inr (ai' # ais, None)
            | Some transformed \<Rightarrow>
                try_bind (combine_value input transformed (c\<lparr>cb_active := True\<rparr>)) (\<lambda>c'.
                try_bind (combine_loop env devs suppressed ais c') (\<lambda>(ais', r). Inr (ai' # ais', r))))))"

definition zero_tagged :: oxr_input_value_tagged where
  "zero_tagged = \<lparr>tv_type = XRT_INPUT_TYPE_VEC1_ZERO_TO_ONE, tv_value = ValueZero\<rparr>"

definition oxr_input_combine_input ::
  "input_env \<Rightarrow> devices \<Rightarrow> (oxr_action_input \<Rightarrow> fault + bool) \<Rightarrow> oxr_action_input list
   \<Rightarrow> fault + oxr_action_input list \<times> combined option" where
  "oxr_input_combine_input env devs suppressed inputs =
     (case inputs of
        [] \<Rightarrow> Inr ([], Some \<lparr>cb_value = zero_tagged, cb_timestamp = 0, cb_active = False\<rparr>)
      | ai # _ \<Rightarrow>
          try_bind (read_input devs (ai_input ai)) (\<lambda>input.
            combine_loop env devs suppressed inputs
              \<lparr>cb_value = zero_tagged, cb_timestamp = in_timestamp input, cb_active = False\<rparr>))"

section \<open>Updating a cache\<close>

definition no_vibration :: vibration where
  "no_vibration = \<lparr>vib_frequency = Fin 0, vib_amplitude = Fin 0, vib_duration = 0\<rparr>"

text \<open>The cache afterwards and the calls on the devices.\<close>

definition oxr_action_cache_stop_output :: "oxr_action_cache \<Rightarrow> oxr_action_cache \<times> (addr \<times> nat \<times> vibration) list" where
  "oxr_action_cache_stop_output cache =
     (cache\<lparr>ca_stop_output_time := 0\<rparr>, map (\<lambda>out. (ao_xdev out, ao_name out, no_vibration)) (ca_outputs cache))"

text \<open>The switch over the combined type: whether the value changed, and the state; \<open>None\<close> is the \<^verbatim>\<open>return\<close> for poses.\<close>

definition store_combined ::
  "oxr_input_value_tagged \<Rightarrow> oxr_action_state \<Rightarrow> oxr_action_state \<Rightarrow> fault + (bool \<times> oxr_action_state) option" where
  "store_combined v prev current =
     (case tv_type v of
        XRT_INPUT_TYPE_VEC2_MINUS_ONE_TO_ONE \<Rightarrow>
          try_bind (value_vec2 (tv_value v)) (\<lambda>(x, y).
          try_bind (value_vec2 (st_value prev)) (\<lambda>(lx, ly).
            Inr (Some (\<not> flt_eq x lx \<or> \<not> flt_eq y ly, current\<lparr>st_value := ValueVec2 x y\<rparr>))))
      | XRT_INPUT_TYPE_BOOLEAN \<Rightarrow>
          try_bind (value_boolean (tv_value v)) (\<lambda>b.
          try_bind (value_boolean (st_value prev)) (\<lambda>l.
            Inr (Some (b \<noteq> l, current\<lparr>st_value := ValueBoolean b\<rparr>))))
      | XRT_INPUT_TYPE_POSE \<Rightarrow> Inr None
      | _ \<Rightarrow>
          if input_is_float (tv_type v) then
            try_bind (value_vec1 (tv_value v)) (\<lambda>x.
            try_bind (value_vec1 (st_value prev)) (\<lambda>l.
              Inr (Some (\<not> flt_eq x l, current\<lparr>st_value := ValueVec1 x\<rparr>))))
          else Inl AssertFailed)"

definition stamp_state :: "oxr_action_state \<Rightarrow> bool \<Rightarrow> int \<Rightarrow> oxr_action_state \<Rightarrow> oxr_action_state" where
  "stamp_state prev changed timestamp current =
     (if st_active prev \<and> changed then current\<lparr>st_timestamp := timestamp, st_changed := True\<rparr>
      else if st_active prev then current\<lparr>st_timestamp := st_timestamp prev, st_changed := False\<rparr>
      else current\<lparr>st_timestamp := timestamp, st_changed := False\<rparr>)"

definition oxr_action_cache_update ::
  "input_env \<Rightarrow> input_session \<Rightarrow> XrActiveActionSet list \<Rightarrow> addr \<Rightarrow> oxr_action_cache \<Rightarrow> int \<Rightarrow> oxr_subaction_paths \<Rightarrow> bool
   \<Rightarrow> XrActiveActionSetPriorityEXT list option \<Rightarrow> fault + oxr_action_cache \<times> (addr \<times> nat \<times> vibration) list" where
  "oxr_action_cache_update env s actives ref cache time subaction selected priorities =
     (let prev = ca_current cache in
      if \<not> selected then
        let (c1, calls) = (if 0 < ca_stop_output_time cache then oxr_action_cache_stop_output cache else (cache, []))
        in Inr (c1\<lparr>ca_current := zero_state\<rparr>, calls)
      else if length (ca_outputs cache) > 0 then
        let c1 = cache\<lparr>ca_current := (ca_current cache)\<lparr>st_active := True\<rparr>\<rparr>
        in Inr (if 0 < ca_stop_output_time c1 \<and> ca_stop_output_time c1 < time then oxr_action_cache_stop_output c1 else (c1, []))
      else if length (ca_inputs cache) > 0 then
        try_bind (oxr_input_combine_input env (ix_devs s) (\<lambda>ai. oxr_input_supressed s actives subaction ref ai priorities)
                    (ca_inputs cache)) (\<lambda>(inputs, r).
        let c1 = cache\<lparr>ca_inputs := inputs\<rparr>
        in case r of
             None \<Rightarrow> Inr (c1, [])
           | Some cb \<Rightarrow>
               if sess_state (ix_sess s) \<noteq> XR_SESSION_STATE_FOCUSED \<or> \<not> cb_active cb then Inr (c1\<lparr>ca_current := zero_state\<rparr>, [])
               else
                 let current = (ca_current c1)\<lparr>st_active := True\<rparr>
                 in try_bind (store_combined (cb_value cb) prev current) (\<lambda>stored.
                      case stored of
                        None \<Rightarrow> Inr (c1\<lparr>ca_current := current\<rparr>, [])
                      | Some (changed, current') \<Rightarrow>
                          Inr (c1\<lparr>ca_current := stamp_state prev changed (cb_timestamp cb) current'\<rparr>, [])))
      else Inr (cache, []))"

section \<open>Updating an action\<close>

text \<open>One subaction path alone.\<close>

definition only_path :: "oxr_subaction_path \<Rightarrow> oxr_subaction_paths" where
  "only_path path = sp_set path True no_subaction_paths"

primrec update_caches ::
  "input_env \<Rightarrow> input_session \<Rightarrow> XrActiveActionSet list \<Rightarrow> addr \<Rightarrow> int \<Rightarrow> oxr_subaction_paths
   \<Rightarrow> XrActiveActionSetPriorityEXT list option \<Rightarrow> oxr_subaction_path list \<Rightarrow> oxr_action_attachment
   \<Rightarrow> fault + oxr_action_attachment \<times> (addr \<times> nat \<times> vibration) list" where
  "update_caches env s actives ref time requested priorities [] aa = Inr (aa, [])"
| "update_caches env s actives ref time requested priorities (path # paths) aa =
     try_bind (oxr_action_cache_update env s actives ref (aa_caches aa path) time (only_path path)
                 (sp_get path requested \<or> sp_any requested) priorities) (\<lambda>(c, calls).
     try_bind (update_caches env s actives ref time requested priorities paths
                 (aa\<lparr>aa_caches := (aa_caches aa)(path := c)\<rparr>)) (\<lambda>(aa', calls'). Inr (aa', calls @ calls')))"

text \<open>The x-macros over the caches that compute the state for no subaction path.\<close>

primrec any_bool :: "oxr_action_state list \<Rightarrow> bool \<times> bool \<times> int \<Rightarrow> fault + bool \<times> bool \<times> int" where
  "any_bool [] acc = Inr acc"
| "any_bool (st # sts) acc =
     (case acc of (active, v, ts) \<Rightarrow>
        if st_active st then try_bind (value_boolean (st_value st)) (\<lambda>b. any_bool sts (True, v \<or> b, st_timestamp st))
        else any_bool sts acc)"

primrec any_vec1 :: "oxr_action_state list \<Rightarrow> bool \<times> c_float \<times> int \<Rightarrow> fault + bool \<times> c_float \<times> int" where
  "any_vec1 [] acc = Inr acc"
| "any_vec1 (st # sts) acc =
     (case acc of (active, v, ts) \<Rightarrow>
        if st_active st then
          try_bind (value_vec1 (st_value st)) (\<lambda>x.
            any_vec1 sts (if flt_less v x then (True, x, st_timestamp st) else (True, v, ts)))
        else any_vec1 sts acc)"

primrec any_vec2 ::
  "oxr_action_state list \<Rightarrow> bool \<times> (c_float \<times> c_float) \<times> c_float \<times> int \<Rightarrow> fault + bool \<times> (c_float \<times> c_float) \<times> c_float \<times> int" where
  "any_vec2 [] acc = Inr acc"
| "any_vec2 (st # sts) acc =
     (case acc of (active, xy, distance, ts) \<Rightarrow>
        if st_active st then
          try_bind (value_vec2 (st_value st)) (\<lambda>(x, y).
            let d = flt_add (flt_mul x x) (flt_mul y y)
            in any_vec2 sts (if flt_less distance d then (True, (x, y), d, st_timestamp st) else (True, xy, distance, ts)))
        else any_vec2 sts acc)"

definition finish_any :: "oxr_action_state \<Rightarrow> xrt_input_value \<Rightarrow> bool \<Rightarrow> bool \<Rightarrow> int \<Rightarrow> oxr_action_state" where
  "finish_any prev v active changed timestamp =
     (let ch = (st_active prev \<and> changed)
      in \<lparr>st_value = v, st_active = active, st_changed = ch,
          st_timestamp = (if active then if \<not> ch \<and> st_active prev then st_timestamp prev else timestamp else 0)\<rparr>)"

definition oxr_action_attachment_update ::
  "input_env \<Rightarrow> input_session \<Rightarrow> XrActiveActionSet list \<Rightarrow> addr \<Rightarrow> int \<Rightarrow> oxr_subaction_paths
   \<Rightarrow> XrActiveActionSetPriorityEXT list option \<Rightarrow> oxr_action_attachment
   \<Rightarrow> fault + oxr_action_attachment \<times> (addr \<times> nat \<times> vibration) list" where
  "oxr_action_attachment_update env s actives ref time requested priorities aa =
     try_bind (update_caches env s actives ref time requested priorities valid_subaction_paths aa) (\<lambda>(aa1, calls).
       let prev = aa_any_state aa1;
           ts = ie_monotonic_to_ts env time;
           states = map (\<lambda>p. ca_current (aa_caches aa1 p)) valid_subaction_paths
       in case ar_action_type (aa_act_ref aa1) of
            XR_ACTION_TYPE_BOOLEAN_INPUT \<Rightarrow>
              try_bind (any_bool states (False, False, ts)) (\<lambda>(active, v, t).
              try_bind (if active then value_boolean (st_value prev) else Inr False) (\<lambda>l.
                Inr (aa1\<lparr>aa_any_state := finish_any prev (ValueBoolean v) active (active \<and> l \<noteq> v) t\<rparr>, calls)))
          | XR_ACTION_TYPE_FLOAT_INPUT \<Rightarrow>
              try_bind (any_vec1 states (False, Fin (- 2), ts)) (\<lambda>(active, v, t).
              try_bind (if active then value_vec1 (st_value prev) else Inr (Fin 0)) (\<lambda>l.
                Inr (aa1\<lparr>aa_any_state := finish_any prev (ValueVec1 v) active (active \<and> \<not> flt_eq l v) t\<rparr>, calls)))
          | XR_ACTION_TYPE_VECTOR2F_INPUT \<Rightarrow>
              try_bind (any_vec2 states (False, (Fin 0, Fin 0), Fin (- 1), ts)) (\<lambda>(active, (x, y), _, t).
              try_bind (if active then value_vec2 (st_value prev) else Inr (Fin 0, Fin 0)) (\<lambda>(lx, ly).
                Inr (aa1\<lparr>aa_any_state := finish_any prev (ValueVec2 x y) active (active \<and> \<not> (flt_eq lx x \<and> flt_eq ly y)) t\<rparr>, calls)))
          | _ \<Rightarrow> Inr (aa1\<lparr>aa_any_state := zero_state\<rparr>, calls))"

section \<open>xrSyncActions\<close>

text \<open>The check that all action sets have been attached.\<close>

definition all_attached :: "input_session \<Rightarrow> XrActiveActionSet list \<Rightarrow> bool" where
  "all_attached s actives \<longleftrightarrow>
     (\<forall>active \<in> set actives. oxr_session_action_context_find_set s (as_act_set_key (act_set active)) \<noteq> None)"

text \<open>The loop over the devices, and what \<^verbatim>\<open>OXR_CHECK_XRET\<close> does to the session.\<close>

primrec update_devices ::
  "(addr \<Rightarrow> devices \<Rightarrow> xrt_result \<times> devices) \<Rightarrow> addr option list \<Rightarrow> devices \<Rightarrow> xrt_result \<times> devices" where
  "update_devices update [] devs = (XRT_SUCCESS, devs)"
| "update_devices update (x # xs) devs =
     (case x of
        None \<Rightarrow> update_devices update xs devs
      | Some a \<Rightarrow>
          let (r, devs') = update a devs
          in if r \<noteq> XRT_SUCCESS then (r, devs') else update_devices update xs devs')"

definition reset_requested :: "oxr_action_set_attachment \<Rightarrow> oxr_action_set_attachment" where
  "reset_requested asa = asa\<lparr>asa_requested_subaction_paths := no_subaction_paths\<rparr>"

definition accumulate :: "oxr_subaction_paths \<Rightarrow> oxr_subaction_paths \<Rightarrow> oxr_subaction_paths" where
  "accumulate a b =
     \<lparr>sp_any = sp_any a \<or> sp_any b, sp_left = sp_left a \<or> sp_left b, sp_right = sp_right a \<or> sp_right b,
      sp_head = sp_head a \<or> sp_head b, sp_gamepad = sp_gamepad a \<or> sp_gamepad b, sp_eyes = sp_eyes a \<or> sp_eyes b,
      sp_user = sp_user a \<or> sp_user b\<rparr>"

text \<open>The loop over the requested action sets.\<close>

primrec request_paths ::
  "oxr_instance_path_cache \<Rightarrow> XrActiveActionSet list \<Rightarrow> input_session \<Rightarrow> fault + input_session \<times> XrResult" where
  "request_paths cache [] s = Inr (s, XR_SUCCESS)"
| "request_paths cache (active # actives) s =
     (case oxr_session_action_context_find_set s (as_act_set_key (act_set active)) of
        None \<Rightarrow> Inl AssertFailed
      | Some i \<Rightarrow>
          (case oxr_classify_subaction_path cache (subactionPath active) of
             (False, _) \<Rightarrow> Inr (s, XR_ERROR_PATH_UNSUPPORTED)
           | (True, paths) \<Rightarrow>
               try_bind (not_null (ix_sets s)) (\<lambda>sets.
               try_bind (arr_get sets i) (\<lambda>asa.
                 let asa1 = asa\<lparr>asa_requested_subaction_paths := accumulate (asa_requested_subaction_paths asa) paths\<rparr>;
                     s1 = s\<lparr>ix_sets := Some (sets[i := asa1])\<rparr>;
                     used = (sp_any paths \<or> (\<exists>aa \<in> set (asa_act_attachments asa). \<exists>p \<in> set all_subaction_paths.
                               sp_get p paths \<and> sp_get p (ar_subaction_paths (aa_act_ref aa))))
                 in if \<not> used then Inr (s1, XR_ERROR_PATH_UNSUPPORTED) else request_paths cache actives s1))))"

primrec update_attachments ::
  "input_env \<Rightarrow> input_session \<Rightarrow> XrActiveActionSet list \<Rightarrow> addr \<Rightarrow> int \<Rightarrow> oxr_subaction_paths
   \<Rightarrow> XrActiveActionSetPriorityEXT list option \<Rightarrow> oxr_action_attachment list
   \<Rightarrow> fault + oxr_action_attachment list \<times> (addr \<times> nat \<times> vibration) list" where
  "update_attachments env s actives ref now requested priorities [] = Inr ([], [])"
| "update_attachments env s actives ref now requested priorities (aa # aas) =
     try_bind (oxr_action_attachment_update env s actives ref now requested priorities aa) (\<lambda>(aa', calls).
     try_bind (update_attachments env s actives ref now requested priorities aas) (\<lambda>(aas', calls').
       Inr (aa' # aas', calls @ calls')))"

text \<open>
  The loop over the attached sets. While an action is updated, the other sets are only looked at for what they
  requested and for the paths of their inputs. An update changes neither, so every update may look at the
  session as it was before the loop.
\<close>

primrec update_sets ::
  "input_env \<Rightarrow> input_session \<Rightarrow> XrActiveActionSet list \<Rightarrow> int \<Rightarrow> XrActiveActionSetPriorityEXT list option
   \<Rightarrow> oxr_action_set_attachment list \<Rightarrow> fault + oxr_action_set_attachment list \<times> (addr \<times> nat \<times> vibration) list" where
  "update_sets env s actives now priorities [] = Inr ([], [])"
| "update_sets env s actives now priorities (asa # asas) =
     try_bind (update_attachments env s actives (asa_act_set_ref asa) now (asa_requested_subaction_paths asa) priorities
                 (asa_act_attachments asa)) (\<lambda>(aas, calls).
     try_bind (update_sets env s actives now priorities asas) (\<lambda>(asas', calls').
       Inr (asa\<lparr>asa_act_attachments := aas\<rparr> # asas', calls @ calls')))"

definition oxr_session_success_focused_result :: "session \<Rightarrow> XrResult" where
  "oxr_session_success_focused_result s =
     (case sess_state s of
        XR_SESSION_STATE_LOSS_PENDING \<Rightarrow> XR_SESSION_LOSS_PENDING
      | XR_SESSION_STATE_FOCUSED \<Rightarrow> XR_SUCCESS
      | _ \<Rightarrow> XR_SESSION_NOT_FOCUSED)"

text \<open>What the rest of the system answers during a call.\<close>

record sync_env =
  se_roles :: "xrt_result \<times> xrt_system_roles"
  se_update :: "addr \<Rightarrow> devices \<Rightarrow> xrt_result \<times> devices"
  se_now :: int

text \<open>Whether the bindings are redone, with the event that tells the application.\<close>

definition sync_bindings :: "input_env \<Rightarrow> xrt_system_roles \<Rightarrow> input_session \<Rightarrow> fault + input_session" where
  "sync_bindings env roles s =
     (if ix_generation_id s < ro_generation_id roles then
        try_bind (session_update_action_bindings env roles (s\<lparr>ix_generation_id := ro_generation_id roles\<rparr>)) (\<lambda>(s1, changed).
          Inr (if changed then s1\<lparr>ix_sess := push_event (InteractionProfileChanged (handle (ix_sess s1))) (ix_sess s1)\<rparr> else s1))
      else Inr s)"

definition oxr_action_sync_data ::
  "input_env \<Rightarrow> sync_env \<Rightarrow> XrActiveActionSet list \<Rightarrow> XrActiveActionSetPriorityEXT list option \<Rightarrow> input_session
   \<Rightarrow> fault + input_session \<times> XrResult" where
  "oxr_action_sync_data env senv actives priorities s =
     (if \<not> all_attached s actives then Inr (s, XR_ERROR_ACTIONSET_NOT_ATTACHED)
      else if sess_state (ix_sess s) \<noteq> XR_SESSION_STATE_FOCUSED then Inr (s, XR_SESSION_NOT_FOCUSED)
      else if fst (se_roles senv) \<noteq> XRT_SUCCESS then Inr (s, XR_ERROR_RUNTIME_FAILURE)
      else try_bind (sync_bindings env (snd (se_roles senv)) s) (\<lambda>s1.
        if length actives = 0 then Inr (s1, XR_SUCCESS)
        else
          let (xret, devs) = update_devices (se_update senv) (ie_static_xdevs env) (ix_devs s1);
              s2 = s1\<lparr>ix_devs := devs\<rparr>
          in if xret = XRT_ERROR_IPC_FAILURE
             then Inr (s2\<lparr>ix_sess := (ix_sess s2)\<lparr>has_lost := True\<rparr>\<rparr>, XR_ERROR_INSTANCE_LOST)
             else if xret \<noteq> XRT_SUCCESS then Inr (s2, XR_ERROR_RUNTIME_FAILURE)
             else
               try_bind (request_paths (ie_cache env) actives
                           (s2\<lparr>ix_sets := map_option (map reset_requested) (ix_sets s2)\<rparr>)) (\<lambda>(s3, r).
                 if r \<noteq> XR_SUCCESS then Inr (s3, r)
                 else try_bind (not_null (ix_sets s3)) (\<lambda>sets.
                      try_bind (update_sets env s3 actives (se_now senv) priorities sets) (\<lambda>(sets', calls).
                        let s4 = s3\<lparr>ix_sets := Some sets', ix_outputs := ix_outputs s3 @ calls\<rparr>
                        in Inr (s4, oxr_session_success_focused_result (ix_sess s4)))))))"

primrec verify_sync_paths ::
  "input_env \<Rightarrow> input_session \<Rightarrow> XrActiveActionSet list \<Rightarrow> fault + XrResult" where
  "verify_sync_paths env s [] = Inr XR_SUCCESS"
| "verify_sync_paths env s (active # actives) =
     try_bind (deref (ix_set_refs s) (as_data (act_set active))) (\<lambda>ref.
     try_bind (oxr_verify_subaction_path_sync (ie_store env) (ie_cache env) (sr_permitted_subaction_paths ref)
                 (subactionPath active)) (\<lambda>res.
       if res \<noteq> XR_SUCCESS then Inr res else verify_sync_paths env s actives))"

definition oxr_xrSyncActions ::
  "input_env \<Rightarrow> sync_env \<Rightarrow> bool \<Rightarrow> XrActiveActionSet list \<Rightarrow> XrActiveActionSetPriorityEXT list option \<Rightarrow> input_session
   \<Rightarrow> fault + input_session \<times> XrResult" where
  "oxr_xrSyncActions env senv ext_priority actives priorities s =
     (if has_lost (ix_sess s) then Inr (s, XR_ERROR_SESSION_LOST)
      else if priorities \<noteq> None \<and> \<not> ext_priority then Inr (s, XR_ERROR_VALIDATION_FAILURE)
      else try_bind (verify_sync_paths env s actives) (\<lambda>res.
        if res \<noteq> XR_SUCCESS then Inr (s, res)
        else oxr_action_sync_data env senv actives priorities s))"

section \<open>Reading the state of an action\<close>

text \<open>\<^verbatim>\<open>XrActionStateBoolean\<close>, \<^verbatim>\<open>...Float\<close> and \<^verbatim>\<open>...Vector2f\<close>.\<close>

record XrActionState =
  xs_currentState :: xrt_input_value
  xs_changedSinceLastSync :: bool
  xs_lastChangeTime :: int
  xs_isActive :: bool

definition reset_state :: XrActionState where
  "reset_state = \<lparr>xs_currentState = ValueZero, xs_changedSinceLastSync = False, xs_lastChangeTime = 0, xs_isActive = False\<rparr>"

text \<open>The three readers, which differ in the member of the union they read.\<close>

definition read_member :: "XrActionType \<Rightarrow> xrt_input_value \<Rightarrow> fault + xrt_input_value" where
  "read_member t v =
     (case t of
        XR_ACTION_TYPE_BOOLEAN_INPUT \<Rightarrow> try_bind (value_boolean v) (\<lambda>b. Inr (ValueBoolean b))
      | XR_ACTION_TYPE_FLOAT_INPUT \<Rightarrow> try_bind (value_vec1 v) (\<lambda>x. Inr (ValueVec1 x))
      | _ \<Rightarrow> try_bind (value_vec2 v) (\<lambda>(x, y). Inr (ValueVec2 x y)))"

definition get_xr_state_from_action_state ::
  "input_env \<Rightarrow> XrActionType \<Rightarrow> oxr_action_state \<Rightarrow> fault + XrActionState" where
  "get_xr_state_from_action_state env t state =
     try_bind (c_assert (st_active state)) (\<lambda>_.
     try_bind (read_member t (st_value state)) (\<lambda>v.
       Inr \<lparr>xs_currentState = v, xs_changedSinceLastSync = st_changed state,
            xs_lastChangeTime = ie_monotonic_to_ts env (st_timestamp state), xs_isActive = True\<rparr>))"

text \<open>\<^verbatim>\<open>OXR_ACTION_GET_FILLER\<close>: the flags it looks at, in its order, with the states they select.\<close>

definition filler_states :: "oxr_subaction_paths \<Rightarrow> oxr_action_attachment \<Rightarrow> (bool \<times> oxr_action_state) list" where
  "filler_states paths aa =
     [(sp_any paths, aa_any_state aa),
      (sp_user paths, ca_current (aa_caches aa OXR_SUB_ACTION_PATH_USER)),
      (sp_head paths, ca_current (aa_caches aa OXR_SUB_ACTION_PATH_HEAD)),
      (sp_left paths, ca_current (aa_caches aa OXR_SUB_ACTION_PATH_LEFT)),
      (sp_right paths, ca_current (aa_caches aa OXR_SUB_ACTION_PATH_RIGHT)),
      (sp_gamepad paths, ca_current (aa_caches aa OXR_SUB_ACTION_PATH_GAMEPAD))]"

primrec fill_state ::
  "input_env \<Rightarrow> XrActionType \<Rightarrow> (bool \<times> oxr_action_state) list \<Rightarrow> XrActionState \<Rightarrow> fault + XrActionState" where
  "fill_state env t [] data = Inr data"
| "fill_state env t (f # fs) data =
     try_bind (if fst f \<and> st_active (snd f) then get_xr_state_from_action_state env t (snd f) else Inr data) (\<lambda>data'.
       fill_state env t fs data')"

text \<open>\<^verbatim>\<open>oxr_action_get_boolean\<close>, \<^verbatim>\<open>oxr_action_get_vector1f\<close>, \<^verbatim>\<open>oxr_action_get_vector2f\<close>.\<close>

definition oxr_action_get_state ::
  "input_env \<Rightarrow> input_session \<Rightarrow> XrActionType \<Rightarrow> nat \<Rightarrow> oxr_subaction_paths \<Rightarrow> fault + XrResult \<times> XrActionState option" where
  "oxr_action_get_state env s t key paths =
     (case oxr_session_attached_actions_find s key of
        None \<Rightarrow> Inr (XR_ERROR_ACTIONSET_NOT_ATTACHED, None)
      | Some p \<Rightarrow>
          try_bind (get_attachment s p) (\<lambda>aa.
          try_bind (fill_state env t (filler_states paths aa) reset_state) (\<lambda>data.
            Inr (oxr_session_success_result (ix_sess s), Some data))))"

definition oxr_action_get_pose ::
  "input_session \<Rightarrow> nat \<Rightarrow> oxr_subaction_paths \<Rightarrow> fault + XrResult \<times> bool option" where
  "oxr_action_get_pose s key paths =
     (case oxr_session_attached_actions_find s key of
        None \<Rightarrow> Inr (XR_ERROR_ACTIONSET_NOT_ATTACHED, None)
      | Some p \<Rightarrow>
          try_bind (get_attachment s p) (\<lambda>aa.
            let paths' = (if sp_any paths then aa_any_pose_subaction_path aa else paths)
            in Inr (oxr_session_success_result (ix_sess s),
                    Some (\<exists>path \<in> set valid_subaction_paths. sp_get path paths' \<and> st_active (ca_current (aa_caches aa path))))))"

text \<open>The entry points \<^verbatim>\<open>oxr_xrGetActionState*\<close>; \<open>act\<close> is the action of the handle.\<close>

definition oxr_xrGetActionState ::
  "input_env \<Rightarrow> input_session \<Rightarrow> XrActionType \<Rightarrow> oxr_action_ref \<Rightarrow> XrPath \<Rightarrow> fault + XrResult \<times> XrActionState option" where
  "oxr_xrGetActionState env s t act path =
     (if has_lost (ix_sess s) then Inr (XR_ERROR_SESSION_LOST, None)
      else if ar_action_type act \<noteq> t then Inr (XR_ERROR_ACTION_TYPE_MISMATCH, None)
      else try_bind (oxr_verify_subaction_path_get (ie_store env) (ie_cache env) path (ar_subaction_paths act)) (\<lambda>(ret, paths).
        if ret \<noteq> XR_SUCCESS then Inr (ret, None)
        else try_bind (not_null paths) (\<lambda>sp. oxr_action_get_state env s t (ar_act_key act) sp)))"

definition oxr_xrGetActionStatePose ::
  "input_env \<Rightarrow> input_session \<Rightarrow> oxr_action_ref \<Rightarrow> XrPath \<Rightarrow> fault + XrResult \<times> bool option" where
  "oxr_xrGetActionStatePose env s act path =
     (if has_lost (ix_sess s) then Inr (XR_ERROR_SESSION_LOST, None)
      else if ar_action_type act \<noteq> XR_ACTION_TYPE_POSE_INPUT then Inr (XR_ERROR_ACTION_TYPE_MISMATCH, None)
      else try_bind (oxr_verify_subaction_path_get (ie_store env) (ie_cache env) path (ar_subaction_paths act)) (\<lambda>(ret, paths).
        if ret \<noteq> XR_SUCCESS then Inr (ret, None)
        else try_bind (not_null paths) (\<lambda>sp. oxr_action_get_pose s (ar_act_key act) sp)))"

text \<open>The input a pose action is located with, \<open>None\<close> is a null pointer.\<close>

definition oxr_action_get_pose_input ::
  "input_session \<Rightarrow> nat \<Rightarrow> oxr_subaction_paths \<Rightarrow> fault + oxr_action_input option" where
  "oxr_action_get_pose_input s key paths =
     (case oxr_session_attached_actions_find s key of
        None \<Rightarrow> Inr None
      | Some p \<Rightarrow>
          try_bind (get_attachment s p) (\<lambda>aa.
            let paths' = (if sp_any paths then aa_any_pose_subaction_path aa else paths)
            in Inr (case find (\<lambda>path. st_active (ca_current (aa_caches aa path)) \<and> sp_get path paths') all_subaction_paths of
                      None \<Rightarrow> None
                    | Some path \<Rightarrow> (case ca_inputs (aa_caches aa path) of [] \<Rightarrow> None | ai # _ \<Rightarrow> Some ai))))"

section \<open>Haptic feedback\<close>

text \<open>\<^verbatim>\<open>int64_t\<close> sums that overflow are faults.\<close>

definition add_int64 :: "int \<Rightarrow> int \<Rightarrow> fault + int" where
  "add_int64 a b = (if - (2 ^ 63) \<le> a + b \<and> a + b < 2 ^ 63 then Inr (a + b) else Inl SignedOverflow)"

definition set_action_output_vibration ::
  "oxr_action_cache \<Rightarrow> int \<Rightarrow> vibration \<Rightarrow> oxr_action_cache \<times> (addr \<times> nat \<times> vibration) list" where
  "set_action_output_vibration cache stop data =
     (cache\<lparr>ca_stop_output_time := stop\<rparr>, map (\<lambda>out. (ao_xdev out, ao_name out, data)) (ca_outputs cache))"

text \<open>The x-macro over the caches: those selected are changed by \<open>f\<close>.\<close>

definition haptic_selected :: "oxr_action_attachment \<Rightarrow> oxr_subaction_paths \<Rightarrow> oxr_subaction_path \<Rightarrow> bool" where
  "haptic_selected aa paths path \<longleftrightarrow> st_active (ca_current (aa_caches aa path)) \<and> (sp_get path paths \<or> sp_any paths)"

primrec on_caches ::
  "(oxr_action_cache \<Rightarrow> oxr_action_cache \<times> (addr \<times> nat \<times> vibration) list) \<Rightarrow> oxr_subaction_paths \<Rightarrow> oxr_subaction_path list
   \<Rightarrow> oxr_action_attachment \<Rightarrow> oxr_action_attachment \<times> (addr \<times> nat \<times> vibration) list" where
  "on_caches f paths [] aa = (aa, [])"
| "on_caches f paths (path # ps) aa =
     (let (aa1, calls) = (if haptic_selected aa paths path
                          then let (c, calls) = f (aa_caches aa path) in (aa\<lparr>aa_caches := (aa_caches aa)(path := c)\<rparr>, calls)
                          else (aa, []));
          (aa2, calls') = on_caches f paths ps aa1
      in (aa2, calls @ calls'))"

definition put_attachment :: "input_session \<Rightarrow> nat \<times> nat \<Rightarrow> oxr_action_attachment \<Rightarrow> fault + input_session" where
  "put_attachment s p aa =
     try_bind (not_null (ix_sets s)) (\<lambda>sets.
     try_bind (arr_get sets (fst p)) (\<lambda>asa.
     try_bind (arr_set (asa_act_attachments asa) (snd p) aa) (\<lambda>aas.
       Inr (s\<lparr>ix_sets := Some (sets[fst p := asa\<lparr>asa_act_attachments := aas\<rparr>])\<rparr>))))"

definition oxr_action_apply_haptic_feedback ::
  "int \<Rightarrow> nat \<Rightarrow> oxr_subaction_paths \<Rightarrow> vibration \<Rightarrow> input_session \<Rightarrow> fault + input_session \<times> XrResult" where
  "oxr_action_apply_haptic_feedback now key paths data s =
     (case oxr_session_attached_actions_find s key of
        None \<Rightarrow> Inr (s, XR_ERROR_ACTIONSET_NOT_ATTACHED)
      | Some p \<Rightarrow>
          if sess_state (ix_sess s) \<noteq> XR_SESSION_STATE_FOCUSED
          then Inr (s, oxr_session_success_focused_result (ix_sess s))
          else
            try_bind (if vib_duration data \<le> 0 then add_int64 now 100000000 else add_int64 now (vib_duration data)) (\<lambda>stop_ns.
            try_bind (get_attachment s p) (\<lambda>aa.
            let (aa1, calls) = on_caches (\<lambda>c. set_action_output_vibration c stop_ns data) paths all_subaction_paths aa
            in try_bind (put_attachment s p aa1) (\<lambda>s1.
                 Inr (s1\<lparr>ix_outputs := ix_outputs s1 @ calls\<rparr>, oxr_session_success_focused_result (ix_sess s1))))))"

definition oxr_action_stop_haptic_feedback ::
  "nat \<Rightarrow> oxr_subaction_paths \<Rightarrow> input_session \<Rightarrow> fault + input_session \<times> XrResult" where
  "oxr_action_stop_haptic_feedback key paths s =
     (case oxr_session_attached_actions_find s key of
        None \<Rightarrow> Inr (s, XR_ERROR_ACTIONSET_NOT_ATTACHED)
      | Some p \<Rightarrow>
          if sess_state (ix_sess s) \<noteq> XR_SESSION_STATE_FOCUSED
          then Inr (s, oxr_session_success_focused_result (ix_sess s))
          else
            try_bind (get_attachment s p) (\<lambda>aa.
            let (aa1, calls) = on_caches oxr_action_cache_stop_output paths all_subaction_paths aa
            in try_bind (put_attachment s p aa1) (\<lambda>s1.
                 Inr (s1\<lparr>ix_outputs := ix_outputs s1 @ calls\<rparr>, oxr_session_success_focused_result (ix_sess s1)))))"

text \<open>
  The entry points, for a session and an action that the handles were checked to be and a vibration structure of
  type \<^verbatim>\<open>XR_TYPE_HAPTIC_VIBRATION\<close>.
\<close>

definition oxr_xrApplyHapticFeedback ::
  "input_env \<Rightarrow> int \<Rightarrow> oxr_action_ref \<Rightarrow> XrPath \<Rightarrow> vibration \<Rightarrow> input_session \<Rightarrow> fault + input_session \<times> XrResult" where
  "oxr_xrApplyHapticFeedback env now act path data s =
     (if has_lost (ix_sess s) then Inr (s, XR_ERROR_SESSION_LOST)
      else try_bind (oxr_verify_subaction_path_get (ie_store env) (ie_cache env) path (ar_subaction_paths act)) (\<lambda>(ret, paths).
        if ret \<noteq> XR_SUCCESS then Inr (s, ret)
        else if ar_action_type act \<noteq> XR_ACTION_TYPE_VIBRATION_OUTPUT then Inr (s, XR_ERROR_ACTION_TYPE_MISMATCH)
        else try_bind (not_null paths) (\<lambda>sp. oxr_action_apply_haptic_feedback now (ar_act_key act) sp data s)))"

definition oxr_xrStopHapticFeedback ::
  "input_env \<Rightarrow> oxr_action_ref \<Rightarrow> XrPath \<Rightarrow> input_session \<Rightarrow> fault + input_session \<times> XrResult" where
  "oxr_xrStopHapticFeedback env act path s =
     (if has_lost (ix_sess s) then Inr (s, XR_ERROR_SESSION_LOST)
      else try_bind (oxr_verify_subaction_path_get (ie_store env) (ie_cache env) path (ar_subaction_paths act)) (\<lambda>(ret, paths).
        if ret \<noteq> XR_SUCCESS then Inr (s, ret)
        else if ar_action_type act \<noteq> XR_ACTION_TYPE_VIBRATION_OUTPUT then Inr (s, XR_ERROR_ACTION_TYPE_MISMATCH)
        else try_bind (not_null paths) (\<lambda>sp. oxr_action_stop_haptic_feedback (ar_act_key act) sp s)))"

section \<open>Enumerating the bound sources\<close>

definition add_path_to_set :: "XrPath \<Rightarrow> XrPath list \<Rightarrow> fault + XrPath list" where
  "add_path_to_set new_path path_set =
     try_bind (c_assert (length path_set < OXR_MAX_BINDINGS_PER_ACTION)) (\<lambda>_.
       if new_path \<in> set path_set
       then try_bind (c_assert (\<forall>p \<in> set (takeWhile (\<lambda>p. p \<noteq> new_path) path_set). p \<noteq> 0)) (\<lambda>_. Inr path_set)
       else try_bind (c_assert (\<forall>p \<in> set path_set. p \<noteq> 0)) (\<lambda>_. Inr (path_set @ [new_path])))"

primrec add_paths :: "XrPath list \<Rightarrow> XrPath list \<Rightarrow> fault + XrPath list" where
  "add_paths [] path_set = Inr path_set"
| "add_paths (p # ps) path_set = try_bind (add_path_to_set p path_set) (\<lambda>path_set'. add_paths ps path_set')"

definition cache_bound_paths :: "oxr_action_cache \<Rightarrow> XrPath list" where
  "cache_bound_paths c = map ai_bound_path (ca_inputs c) @ map ao_bound_path (ca_outputs c)"

definition attachment_bound_paths :: "oxr_action_attachment \<Rightarrow> XrPath list" where
  "attachment_bound_paths aa = concat (map (\<lambda>path. cache_bound_paths (aa_caches aa path)) all_subaction_paths)"

text \<open>The result, the count and what is written to the array of the application, which has room for \<open>capacity\<close> paths.\<close>

definition oxr_action_enumerate_bound_sources ::
  "input_session \<Rightarrow> nat \<Rightarrow> nat \<Rightarrow> fault + XrResult \<times> nat option \<times> XrPath list" where
  "oxr_action_enumerate_bound_sources s key capacity =
     (case oxr_session_attached_actions_find s key of
        None \<Rightarrow> Inr (XR_ERROR_RUNTIME_FAILURE, None, [])
      | Some p \<Rightarrow>
          try_bind (get_attachment s p) (\<lambda>aa.
          try_bind (add_paths (attachment_bound_paths aa) []) (\<lambda>temp.
            case two_call_check capacity True (length temp) (oxr_session_success_result (ix_sess s)) of
              Some (r, n) \<Rightarrow> Inr (r, n, [])
            | None \<Rightarrow> Inr (oxr_session_success_result (ix_sess s), Some (length temp), temp))))"

text \<open>The entry point; \<^verbatim>\<open>OXR_SESSION_CHECK_ATTACHED_AND_RET\<close> is the second test.\<close>

definition oxr_xrEnumerateBoundSourcesForAction ::
  "input_session \<Rightarrow> oxr_action_ref \<Rightarrow> nat \<Rightarrow> fault + XrResult \<times> nat option \<times> XrPath list" where
  "oxr_xrEnumerateBoundSourcesForAction s act capacity =
     (if has_lost (ix_sess s) then Inr (XR_ERROR_SESSION_LOST, None, [])
      else if \<not> oxr_session_action_context_has_attached_act_sets s then Inr (XR_ERROR_ACTIONSET_NOT_ATTACHED, None, [])
      else oxr_action_enumerate_bound_sources s (ar_act_key act) capacity)"

end
