(* ===== verification/Input_Invariant.thy ===== *)
theory Input_Invariant
  imports Input_Sync
begin

text \<open>
  The invariant of the actions of a session: every bound input points to an input of a device and has a chain of
  transforms from the type of that input to one the action takes, every stored value is of the action's type, and
  the pointers of the hash maps are good. Attaching establishes it, binding, synchronising and the
  haptic calls keep it, and no function faults under it.
\<close>

section \<open>Strings and devices\<close>

definition text_ok :: "path_store \<Rightarrow> XrPath \<Rightarrow> bool" where
  "text_ok store x \<longleftrightarrow> (\<exists>str len. oxr_path_store_get_string store x = Inr (XR_SUCCESS, Some (str, len)))"

lemma path_text_ok: "text_ok store x \<Longrightarrow> \<exists>str. path_text store x = Inr str"
  by (auto simp: text_ok_def path_text_def)

definition same_input_names :: "xrt_device \<Rightarrow> xrt_device \<Rightarrow> bool" where
  "same_input_names d d' \<longleftrightarrow> map in_name (xd_inputs d) = map in_name (xd_inputs d')"

text \<open>What a driver may change in an update: the values, the times and which inputs are active.\<close>

definition same_devices :: "devices \<Rightarrow> devices \<Rightarrow> bool" where
  "same_devices devs devs' \<longleftrightarrow> (\<forall>a. rel_option same_input_names (devs a) (devs' a))"

lemma same_devices_refl [simp]: "same_devices devs devs"
  by (auto simp: same_devices_def same_input_names_def intro: option.rel_refl)

lemma same_devices_trans: "same_devices a b \<Longrightarrow> same_devices b c \<Longrightarrow> same_devices a c"
  unfolding same_devices_def
proof
  fix x assume "\<forall>x. rel_option same_input_names (a x) (b x)" "\<forall>x. rel_option same_input_names (b x) (c x)"
  then have "rel_option same_input_names (a x) (b x)" "rel_option same_input_names (b x) (c x)" by auto
  then show "rel_option same_input_names (a x) (c x)"
    by (cases "a x"; cases "b x"; cases "c x") (auto simp: same_input_names_def)
qed

lemma points_to_type_same:
  assumes "same_devices devs devs'" "points_to_type devs p t"
  shows "points_to_type devs' p t"
proof -
  from assms(2) obtain d where d: "devs (fst p) = Some d" "snd p < length (xd_inputs d)"
    "XRT_GET_INPUT_TYPE (in_name (xd_inputs d ! snd p)) = t"
    by (auto simp: points_to_type_def)
  from assms(1) have "rel_option same_input_names (devs (fst p)) (devs' (fst p))" by (simp add: same_devices_def)
  with d(1) obtain d' where d': "devs' (fst p) = Some d'" "map in_name (xd_inputs d) = map in_name (xd_inputs d')"
    by (cases "devs' (fst p)") (auto simp: same_input_names_def)
  from d'(2) have "length (xd_inputs d') = length (xd_inputs d)" by (metis length_map)
  moreover from d'(2) d(2) have "in_name (xd_inputs d' ! snd p) = in_name (xd_inputs d ! snd p)"
    by (metis length_map nth_map)
  ultimately show ?thesis using d d'(1) by (simp add: points_to_type_def)
qed

lemma chain_ok_same:
  assumes "same_devices devs devs'"
  shows "chain_ok devs t xforms u \<Longrightarrow> chain_ok devs' t xforms u"
proof (induction xforms arbitrary: t)
  case (Cons xform xforms)
  then have "xform_ok devs' t xform"
    by (auto simp: xform_ok_def intro: points_to_type_same [OF assms] split: oxr_input_transform_type.splits)
  with Cons show ?case by simp
qed simp

section \<open>Caches\<close>

definition action_value :: "XrActionType \<Rightarrow> xrt_input_value \<Rightarrow> bool" where
  "action_value act v \<longleftrightarrow> v = ValueZero \<or>
     (case act of
        XR_ACTION_TYPE_BOOLEAN_INPUT \<Rightarrow> (\<exists>b. v = ValueBoolean b)
      | XR_ACTION_TYPE_FLOAT_INPUT \<Rightarrow> (\<exists>x. v = ValueVec1 x)
      | XR_ACTION_TYPE_VECTOR2F_INPUT \<Rightarrow> (\<exists>x y. v = ValueVec2 x y)
      | _ \<Rightarrow> False)"

definition state_fits :: "XrActionType \<Rightarrow> oxr_action_state \<Rightarrow> bool" where
  "state_fits act st \<longleftrightarrow> action_value act (st_value st)"

lemma action_value_zero [simp]: "action_value act ValueZero"
  by (simp add: action_value_def)

lemma state_fits_zero [simp]: "state_fits act zero_state"
  by (simp add: state_fits_def zero_state_def)

definition input_ok :: "devices \<Rightarrow> XrActionType \<Rightarrow> oxr_action_input \<Rightarrow> bool" where
  "input_ok devs act ai \<longleftrightarrow>
     (\<exists>t xforms u. points_to_type devs (ai_input ai) t \<and> ai_transforms ai = Some xforms
        \<and> chain_ok devs t xforms u \<and> action_takes act u)"

definition cache_ok :: "devices \<Rightarrow> XrActionType \<Rightarrow> oxr_action_cache \<Rightarrow> bool" where
  "cache_ok devs act c \<longleftrightarrow>
     (\<forall>ai \<in> set (ca_inputs c). input_ok devs act ai)
     \<and> (ca_outputs c \<noteq> [] \<longrightarrow> act = XR_ACTION_TYPE_VIBRATION_OUTPUT)
     \<and> state_fits act (ca_current c)
     \<and> length (ca_inputs c) \<le> OXR_MAX_BINDINGS_PER_ACTION \<and> length (ca_outputs c) \<le> OXR_MAX_BINDINGS_PER_ACTION"

lemma cache_ok_zero [simp]: "cache_ok devs act zero_cache"
  by (simp add: cache_ok_def zero_cache_def)

definition attachment_ok :: "devices \<Rightarrow> oxr_action_attachment \<Rightarrow> bool" where
  "attachment_ok devs aa \<longleftrightarrow>
     (\<forall>path. cache_ok devs (ar_action_type (aa_act_ref aa)) (aa_caches aa path))
     \<and> state_fits (ar_action_type (aa_act_ref aa)) (aa_any_state aa)"

lemma input_ok_same: "same_devices devs devs' \<Longrightarrow> input_ok devs act ai \<Longrightarrow> input_ok devs' act ai"
  unfolding input_ok_def by (blast intro: points_to_type_same chain_ok_same)

lemma attachment_ok_same: "same_devices devs devs' \<Longrightarrow> attachment_ok devs aa \<Longrightarrow> attachment_ok devs' aa"
  unfolding attachment_ok_def cache_ok_def by (blast intro: input_ok_same)

section \<open>Profiles and the environment\<close>

definition binding_ok :: "path_store \<Rightarrow> oxr_binding \<Rightarrow> bool" where
  "binding_ok store b \<longleftrightarrow>
     length (b_preferred_binding_path_index b) = length (b_act_keys b)
     \<and> (\<forall>y \<in> set (b_preferred_binding_path_index b). y < length (b_paths b))
     \<and> (\<forall>p \<in> set (b_paths b). text_ok store p)"

definition dpad_entry_ok :: "path_store \<Rightarrow> oxr_dpad_entry \<Rightarrow> bool" where
  "dpad_entry_ok store e \<longleftrightarrow>
     ent_dpad_count e \<le> length (ent_dpads e) \<and> (\<forall>d \<in> set (take (ent_dpad_count e) (ent_dpads e)). text_ok store (dm_binding d))"

definition profile_ok :: "path_store \<Rightarrow> oxr_interaction_profile \<Rightarrow> bool" where
  "profile_ok store p \<longleftrightarrow>
     text_ok store (ip_path p) \<and> (\<forall>b \<in> set (ip_bindings p). binding_ok store b)
     \<and> (\<forall>uhi k e. ip_dpad_state p = Some uhi \<longrightarrow> uhi k = Some e \<longrightarrow> dpad_entry_ok store e)"

definition attached_profile_ok :: "path_store \<Rightarrow> oxr_interaction_profile \<Rightarrow> bool" where
  "attached_profile_ok store p \<longleftrightarrow> profile_ok store p \<and> ip_dpad_state p \<noteq> None"

lemma clone_ok: "profile_ok store p \<Longrightarrow> attached_profile_ok store (oxr_interaction_profile_clone p)"
  by (auto simp: profile_ok_def attached_profile_ok_def oxr_interaction_profile_clone_def oxr_dpad_state_clone_def
      split: option.splits)

text \<open>The devices of the system exist, and the paths of the templates are in the cache.\<close>

definition env_ok :: "input_env \<Rightarrow> devices \<Rightarrow> bool" where
  "env_ok env devs \<longleftrightarrow>
     (\<forall>a. Some a \<in> set (ie_static_xdevs env) \<or> ie_static_head env = Some a \<or> ie_static_eyes env = Some a \<longrightarrow> devs a \<noteq> None)
     \<and> length (ie_templates env) = length (pc_template_paths (ie_cache env))"

lemma env_ok_same: "same_devices devs devs' \<Longrightarrow> env_ok env devs \<Longrightarrow> env_ok env devs'"
proof -
  assume s: "same_devices devs devs'" and e: "env_ok env devs"
  have "devs' a \<noteq> None" if "devs a \<noteq> None" for a
  proof -
    from s have "rel_option same_input_names (devs a) (devs' a)" by (simp add: same_devices_def)
    with that show ?thesis by (cases "devs' a") auto
  qed
  with e show ?thesis unfolding env_ok_def by blast
qed

lemma xdev_by_role_ok:
  assumes "env_ok env devs"
  shows "\<exists>x. get_xdev_by_role env roles path = Inr x \<and> (\<forall>a. x = Some a \<longrightarrow> devs a \<noteq> None)"
proof -
  have "\<exists>x. dyn_role env i = Inr x \<and> (\<forall>a. x = Some a \<longrightarrow> devs a \<noteq> None)" for i
  proof (cases "i < 0 \<or> int (length (ie_static_xdevs env)) \<le> i")
    case True
    then show ?thesis by (simp add: dyn_role_def)
  next
    case False
    then have "nat i < length (ie_static_xdevs env)" by linarith
    then have "ie_static_xdevs env ! nat i \<in> set (ie_static_xdevs env)" by (rule nth_mem)
    then have "devs a \<noteq> None" if "ie_static_xdevs env ! nat i = Some a" for a
      using assms that by (auto simp: env_ok_def)
    with False \<open>nat i < length (ie_static_xdevs env)\<close> show ?thesis
      by (simp add: dyn_role_def)
  qed
  with assms show ?thesis by (cases path) (auto simp: env_ok_def)
qed

section \<open>Binding keeps the invariant\<close>

text \<open>An input as \<^verbatim>\<open>do_inputs\<close> makes it, before it has transforms.\<close>

definition fresh_input :: "devices \<Rightarrow> path_store \<Rightarrow> oxr_action_input \<Rightarrow> bool" where
  "fresh_input devs store ai \<longleftrightarrow>
     ai_transforms ai = None \<and> text_ok store (ai_bound_path ai)
     \<and> (\<exists>t. points_to_type devs (ai_input ai) t)
     \<and> (\<forall>p. ai_dpad_activate ai = Some p \<longrightarrow> points_to_type devs p (XRT_GET_INPUT_TYPE (ai_dpad_activate_name ai)))"

lemma find_input_points:
  assumes "devs a = Some xdev" "oxr_xdev_find_input xdev name = Some i"
  shows "points_to_type devs (a, i) (XRT_GET_INPUT_TYPE name)"
  using assms find_index_SomeD [of "\<lambda>input. in_name input = name" "xd_inputs xdev" i]
  by (auto simp: points_to_type_def oxr_xdev_find_input_def)

lemma do_inputs_ok:
  assumes dev: "devs a = Some xdev" and known: "text_ok store path"
    and n: "length inputs < OXR_MAX_BINDINGS_PER_ACTION" and ok: "\<forall>ai \<in> set inputs. fresh_input devs store ai"
  shows "\<exists>inputs'. do_inputs b a xdev xbp path inputs = Inr inputs'
           \<and> (\<forall>ai \<in> set inputs'. fresh_input devs store ai) \<and> length inputs' \<le> length inputs + 1"
proof -
  have new: "fresh_input devs store \<lparr>ai_xdev = a, ai_input = (a, i),
      ai_dpad_activate_name = (if act \<noteq> None then nm else no_input_name),
      ai_dpad_activate = map_option (\<lambda>k. (a, k)) act, ai_transforms = None, ai_bound_path = path\<rparr>"
    if "oxr_xdev_find_input xdev name = Some i" "\<And>k. act = Some k \<Longrightarrow> oxr_xdev_find_input xdev nm = Some k" for i name act nm
  proof -
    from find_input_points [of devs a xdev name i, OF dev that(1)]
    have "\<exists>t. points_to_type devs (a, i) t" by (rule exI)
    moreover have "points_to_type devs (a, k) (XRT_GET_INPUT_TYPE nm)" if "act = Some k" for k
      using that \<open>\<And>k. act = Some k \<Longrightarrow> oxr_xdev_find_input xdev nm = Some k\<close> by (intro find_input_points [of devs a xdev, OF dev])
    ultimately show ?thesis using known by (auto simp: fresh_input_def)
  qed
  let ?names = "case xbp of
      Some p \<Rightarrow> (find_xdev_name_from_pairs xdev p (b_input b), find_xdev_name_from_pairs xdev p (b_dpad_activate b))
    | None \<Rightarrow> (Some (b_input b), Some (b_dpad_activate b))"
  show ?thesis
  proof (cases "\<exists>name nm i. ?names = (Some name, Some nm) \<and> oxr_xdev_find_input xdev name = Some i")
    case False
    obtain n1 n2 where names: "?names = (n1, n2)" by (rule prod.exhaust)
    from False have "do_inputs b a xdev xbp path inputs = Inr inputs"
      unfolding do_inputs_def Let_def names by (cases n1; cases n2) (auto split: option.splits)
    with ok show ?thesis by simp
  next
    case True
    then obtain name nm i where i: "?names = (Some name, Some nm)" "oxr_xdev_find_input xdev name = Some i" by blast
    define act where "act = (if nm \<noteq> no_input_name then oxr_xdev_find_input xdev nm else None)"
    have act: "oxr_xdev_find_input xdev nm = Some k" if "act = Some k" for k
      using that by (simp add: act_def split: if_splits)
    have "do_inputs b a xdev xbp path inputs =
      (if nm \<noteq> no_input_name \<and> act = None then Inr inputs
       else Inr (inputs @ [\<lparr>ai_xdev = a, ai_input = (a, i), ai_dpad_activate_name = (if act \<noteq> None then nm else no_input_name),
         ai_dpad_activate = map_option (\<lambda>k. (a, k)) act, ai_transforms = None, ai_bound_path = path\<rparr>]))"
      unfolding do_inputs_def Let_def i(1) by (simp add: i(2) act_def array_push_def n)
    with ok new [OF i(2) act] show ?thesis by simp
  qed
qed

lemma do_outputs_ok:
  assumes "length outputs < OXR_MAX_BINDINGS_PER_ACTION"
  shows "\<exists>outputs'. do_outputs b a xdev xbp path outputs = Inr outputs' \<and> length outputs' \<le> length outputs + 1"
  using assms by (auto simp: do_outputs_def array_push_def Let_def split: option.splits)

lemma matched_path_ok:
  assumes "binding_ok store b" "key \<in> set (b_act_keys b)"
  shows "\<exists>p. get_matched_xrpath b key = Inr p \<and> p \<in> set (b_paths b)"
proof -
  from assms(2) obtain i where i: "find_index (\<lambda>k. k = key) (b_act_keys b) = Some i"
    using find_index_exists [of key "b_act_keys b" "\<lambda>k. k = key"] by auto
  with find_index_SomeD(1) [OF i] assms(1) show ?thesis
    by (auto simp: get_matched_xrpath_def binding_ok_def)
qed

lemma bind_points_ok:
  assumes dev: "devs a = Some xdev"
  shows "(\<forall>b \<in> set bs. binding_ok store b \<and> ar_act_key act_ref \<in> set (b_act_keys b)) \<Longrightarrow>
    length (fst io) + length bs \<le> OXR_MAX_BINDINGS_PER_ACTION \<Longrightarrow> length (snd io) + length bs \<le> OXR_MAX_BINDINGS_PER_ACTION \<Longrightarrow>
    (\<forall>ai \<in> set (fst io). fresh_input devs store ai) \<Longrightarrow>
    (ar_action_type act_ref = XR_ACTION_TYPE_VIBRATION_OUTPUT \<longrightarrow> fst io = []) \<Longrightarrow>
    (ar_action_type act_ref \<noteq> XR_ACTION_TYPE_VIBRATION_OUTPUT \<longrightarrow> snd io = []) \<Longrightarrow>
    \<exists>inputs outputs. bind_points store act_ref path a xdev xbp bs io = Inr (inputs, outputs)
      \<and> (\<forall>ai \<in> set inputs. fresh_input devs store ai)
      \<and> (ar_action_type act_ref = XR_ACTION_TYPE_VIBRATION_OUTPUT \<longrightarrow> inputs = [])
      \<and> (ar_action_type act_ref \<noteq> XR_ACTION_TYPE_VIBRATION_OUTPUT \<longrightarrow> outputs = [])
      \<and> length inputs \<le> OXR_MAX_BINDINGS_PER_ACTION \<and> length outputs \<le> OXR_MAX_BINDINGS_PER_ACTION"
proof (induction bs arbitrary: io)
  case Nil
  then show ?case by (cases io) auto
next
  case (Cons b bs)
  from Cons.prems(1) matched_path_ok [of store b "ar_act_key act_ref"] obtain p where
    p: "get_matched_xrpath b (ar_act_key act_ref) = Inr p" "p \<in> set (b_paths b)" by auto
  with Cons.prems(1) have known: "text_ok store p" by (simp add: binding_ok_def)
  then obtain r where r: "oxr_path_store_get_string store p = Inr r" by (auto simp: text_ok_def)
  obtain io' where io': "(if b_subaction_path b \<noteq> path then Inr io
       else if ar_action_type act_ref = XR_ACTION_TYPE_VIBRATION_OUTPUT
       then try_bind (do_outputs b a xdev xbp p (snd io)) (\<lambda>outputs. Inr (fst io, outputs))
       else try_bind (do_inputs b a xdev xbp p (fst io)) (\<lambda>inputs. Inr (inputs, snd io))) = Inr io'"
    "length (fst io') \<le> length (fst io) + 1" "length (snd io') \<le> length (snd io) + 1"
    "\<forall>ai \<in> set (fst io'). fresh_input devs store ai"
    "ar_action_type act_ref = XR_ACTION_TYPE_VIBRATION_OUTPUT \<longrightarrow> fst io' = []"
    "ar_action_type act_ref \<noteq> XR_ACTION_TYPE_VIBRATION_OUTPUT \<longrightarrow> snd io' = []"
  proof -
    from Cons.prems(2,3) have "length (fst io) < OXR_MAX_BINDINGS_PER_ACTION" "length (snd io) < OXR_MAX_BINDINGS_PER_ACTION"
      by simp_all
    with do_inputs_ok [of devs a xdev store p "fst io" b xbp] dev known do_outputs_ok [of "snd io" b a xdev xbp p] Cons.prems(4,5,6) that
    show ?thesis by (cases "b_subaction_path b \<noteq> path"; cases "ar_action_type act_ref = XR_ACTION_TYPE_VIBRATION_OUTPUT") fastforce+
  qed
  have "length (fst io') + length bs \<le> OXR_MAX_BINDINGS_PER_ACTION" "length (snd io') + length bs \<le> OXR_MAX_BINDINGS_PER_ACTION"
    using io'(2,3) Cons.prems(2,3) by simp_all
  from Cons.IH [OF _ this io'(4,5,6)] Cons.prems(1) show ?case
    by (simp add: p r io'(1))
qed

lemma find_bindings_loop_props:
  "length out < n \<Longrightarrow> length (find_bindings_loop key n bs out) \<le> n"
  "set (find_bindings_loop key n bs out) \<subseteq> set out \<union> {b \<in> set bs. key \<in> set (b_act_keys b)}"
proof -
  show "length out < n \<Longrightarrow> length (find_bindings_loop key n bs out) \<le> n"
    by (induction bs arbitrary: out) (auto simp: Let_def)
  show "set (find_bindings_loop key n bs out) \<subseteq> set out \<union> {b \<in> set bs. key \<in> set (b_act_keys b)}"
  proof (induction bs arbitrary: out)
    case (Cons b bs)
    from Cons [of "if key \<in> set (b_act_keys b) then out @ [b] else out"] show ?case
      by (auto simp: Let_def split: if_splits)
  qed simp
qed

lemma get_binding_ok:
  assumes env: "env_ok env devs" and prof: "\<forall>p. profile = Some p \<longrightarrow> attached_profile_ok (ie_store env) p"
  shows "\<exists>inputs outputs. get_binding env devs roles act_ref profile path = Inr (inputs, outputs)
      \<and> (\<forall>ai \<in> set inputs. fresh_input devs (ie_store env) ai)
      \<and> (inputs \<noteq> [] \<longrightarrow> profile \<noteq> None)
      \<and> (ar_action_type act_ref = XR_ACTION_TYPE_VIBRATION_OUTPUT \<longrightarrow> inputs = [])
      \<and> (ar_action_type act_ref \<noteq> XR_ACTION_TYPE_VIBRATION_OUTPUT \<longrightarrow> outputs = [])
      \<and> length inputs \<le> OXR_MAX_BINDINGS_PER_ACTION \<and> length outputs \<le> OXR_MAX_BINDINGS_PER_ACTION"
proof -
  from xdev_by_role_ok [OF env] obtain x where
    x: "get_xdev_by_role env roles path = Inr x" "\<forall>a. x = Some a \<longrightarrow> devs a \<noteq> None" by blast
  show ?thesis
  proof (cases "x = None \<or> profile = None")
    case True
    with x(1) show ?thesis by (auto simp: get_binding_def split: option.splits)
  next
    case False
    then obtain a p where ap: "x = Some a" "profile = Some p" by auto
    with x(2) obtain xdev where dev: "devs a = Some xdev" by auto
    from prof ap have p: "profile_ok (ie_store env) p" by (simp add: attached_profile_ok_def)
    then obtain r where r: "oxr_path_store_get_string (ie_store env) (ip_path p) = Inr r"
      by (auto simp: profile_ok_def text_ok_def)
    let ?bs = "find_bindings_loop (ar_act_key act_ref) OXR_MAX_BINDINGS_PER_ACTION (ip_bindings p) []"
    have len: "length ?bs \<le> OXR_MAX_BINDINGS_PER_ACTION"
      by (rule find_bindings_loop_props(1)) (simp add: OXR_MAX_BINDINGS_PER_ACTION_def)
    have bs: "\<forall>b \<in> set ?bs. binding_ok (ie_store env) b \<and> ar_act_key act_ref \<in> set (b_act_keys b)"
      using find_bindings_loop_props(2) [of "ar_act_key act_ref" OXR_MAX_BINDINGS_PER_ACTION "ip_bindings p" "[]"] p
      by (auto simp: profile_ok_def)
    from bind_points_ok [of devs a xdev ?bs "ie_store env" act_ref "([], [])" path "get_matching_binding_profile p xdev"]
      dev bs len show ?thesis
      by (auto simp: get_binding_def x(1) ap r oxr_binding_find_bindings_from_act_key_def Let_def)
  qed
qed

lemma match_dpads_ok:
  "\<forall>d \<in> set ds. text_ok store (dm_binding d) \<Longrightarrow> \<exists>m. match_dpads store bound ds = Inr m"
  by (induction ds) (auto simp: text_ok_def)

lemma find_matching_dpad_ok:
  assumes "\<forall>e. entry = Some e \<longrightarrow> dpad_entry_ok store e"
  shows "\<exists>m. find_matching_dpad store entry bound = Inr m"
  using assms match_dpads_ok [of "take (ent_dpad_count e) (ent_dpads e)" store bound for e]
  by (auto simp: find_matching_dpad_def dpad_entry_ok_def split: option.splits)

lemma read_points: "points_to_type devs p t \<Longrightarrow> \<exists>input. read_input devs p = Inr input \<and> XRT_GET_INPUT_TYPE (in_name input) = t"
  by (auto simp: points_to_type_def read_input_def)

lemma populate_ok:
  assumes "fresh_input devs store ai"
  shows "\<exists>r. oxr_action_populate_input_transform store devs act_ref ai = Inr r
     \<and> (\<forall>ai'. r = Some ai' \<longrightarrow> input_ok devs (ar_action_type act_ref) ai')"
proof -
  from assms obtain t where t: "points_to_type devs (ai_input ai) t" "ai_transforms ai = None"
    by (auto simp: fresh_input_def)
  from read_points [OF t(1)] obtain input where
    input: "read_input devs (ai_input ai) = Inr input" "XRT_GET_INPUT_TYPE (in_name input) = t" by blast
  from assms have "text_ok store (ai_bound_path ai)" by (simp add: fresh_input_def)
  from path_text_ok [OF this] obtain str where str: "path_text store (ai_bound_path ai) = Inr str" by blast
  show ?thesis
  proof (cases "convertible t (ar_action_type act_ref) str")
    case True
    from chain_for_ok(1) [OF True] obtain u where
      "chain_ok devs t (chain_for t (ar_action_type act_ref) str) u" "action_takes (ar_action_type act_ref) u" by blast
    with t input str create_chain_some [OF True] show ?thesis
      by (auto simp: oxr_action_populate_input_transform_def input_ok_def)
  next
    case False
    from t input str create_chain_none [OF False] show ?thesis
      by (simp add: oxr_action_populate_input_transform_def)
  qed
qed

lemma populate_dpad_ok:
  assumes "fresh_input devs store ai" "\<forall>e. entry = Some e \<longrightarrow> dpad_entry_ok store e"
  shows "\<exists>r. oxr_action_populate_input_transform_dpad store devs act_ref entry region ai = Inr r
     \<and> (\<forall>ai'. r = Some ai' \<longrightarrow> input_ok devs (ar_action_type act_ref) ai')"
proof -
  from assms obtain t where t: "points_to_type devs (ai_input ai) t" "ai_transforms ai = None"
    by (auto simp: fresh_input_def)
  from read_points [OF t(1)] obtain input where
    input: "read_input devs (ai_input ai) = Inr input" "XRT_GET_INPUT_TYPE (in_name input) = t" by blast
  from assms(1) have "text_ok store (ai_bound_path ai)" by (simp add: fresh_input_def)
  from path_text_ok [OF this] obtain str where str: "path_text store (ai_bound_path ai) = Inr str" by blast
  from find_matching_dpad_ok [OF assms(2)] obtain m where m: "find_matching_dpad store entry str = Inr m" by blast
  from assms(1) have act: "\<forall>p. ai_dpad_activate ai = Some p \<longrightarrow> points_to_type devs p (XRT_GET_INPUT_TYPE (ai_dpad_activate_name ai))"
    by (simp add: fresh_input_def)
  from create_chain_dpad_ok [OF act, of t "ar_action_type act_ref" "map_option dm_settings m" region]
  show ?thesis
    using t input str m
    by (auto simp: oxr_action_populate_input_transform_dpad_def input_ok_def action_takes_def oxr_type_matches_xrt_def)
qed

lemma dpad_region_ok: "text_ok store x \<Longrightarrow> \<exists>r. get_dpad_region_from_path store x = Inr r"
  by (auto simp: text_ok_def get_dpad_region_from_path_def)

lemma keep_transformed_ok:
  assumes prof: "\<forall>p. profile = Some p \<longrightarrow> attached_profile_ok (ie_store env) p"
  shows "\<forall>ai \<in> set ais. fresh_input devs (ie_store env) ai \<Longrightarrow> ais \<noteq> [] \<longrightarrow> profile \<noteq> None \<Longrightarrow>
    \<exists>kept. keep_transformed env devs act_ref act_set_key profile ais = Inr kept
      \<and> (\<forall>ai \<in> set kept. input_ok devs (ar_action_type act_ref) ai) \<and> length kept \<le> length ais"
proof (induction ais)
  case (Cons ai ais)
  then obtain p where p: "profile = Some p" by auto
  with prof obtain uhi where uhi: "ip_dpad_state p = Some uhi" "\<forall>e. uhi act_set_key = Some e \<longrightarrow> dpad_entry_ok (ie_store env) e"
    by (auto simp: attached_profile_ok_def profile_ok_def)
  from Cons.prems(1) have fresh: "fresh_input devs (ie_store env) ai" by simp
  then have "text_ok (ie_store env) (ai_bound_path ai)" by (simp add: fresh_input_def)
  from dpad_region_ok [OF this] obtain region where
    region: "get_dpad_region_from_path (ie_store env) (ai_bound_path ai) = Inr region" by blast
  obtain r where r: "(case region of
        Some r \<Rightarrow> try_bind (not_null profile) (\<lambda>p. try_bind (oxr_dpad_state_get (ip_dpad_state p) act_set_key) (\<lambda>entry.
            oxr_action_populate_input_transform_dpad (ie_store env) devs act_ref entry r ai))
      | None \<Rightarrow> oxr_action_populate_input_transform (ie_store env) devs act_ref ai) = Inr r"
    "\<forall>ai'. r = Some ai' \<longrightarrow> input_ok devs (ar_action_type act_ref) ai'"
    using populate_ok [OF fresh, of act_ref] populate_dpad_ok [OF fresh uhi(2), of act_ref] p uhi(1) that
    by (cases region) (auto simp: oxr_dpad_state_get_def)
  from Cons obtain kept where "keep_transformed env devs act_ref act_set_key profile ais = Inr kept"
    "\<forall>ai \<in> set kept. input_ok devs (ar_action_type act_ref) ai" "length kept \<le> length ais" by auto
  with region r show ?case by (auto split: option.splits)
qed simp

lemma bind_io_ok:
  assumes env: "env_ok env devs" and prof: "\<forall>p. profile = Some p \<longrightarrow> attached_profile_ok (ie_store env) p"
  shows "\<exists>c. oxr_action_bind_io env devs roles act_ref act_set_key profile path cache = Inr c
     \<and> cache_ok devs (ar_action_type act_ref) c"
proof -
  from get_binding_ok [OF assms, of roles act_ref path] obtain inputs outputs where
    g: "get_binding env devs roles act_ref profile path = Inr (inputs, outputs)"
    "\<forall>ai \<in> set inputs. fresh_input devs (ie_store env) ai" "inputs \<noteq> [] \<longrightarrow> profile \<noteq> None"
    "ar_action_type act_ref \<noteq> XR_ACTION_TYPE_VIBRATION_OUTPUT \<longrightarrow> outputs = []"
    "length inputs \<le> OXR_MAX_BINDINGS_PER_ACTION" "length outputs \<le> OXR_MAX_BINDINGS_PER_ACTION" by blast
  from keep_transformed_ok [OF prof g(2,3), of act_ref act_set_key] obtain kept where
    k: "keep_transformed env devs act_ref act_set_key profile inputs = Inr kept"
      "\<forall>ai \<in> set kept. input_ok devs (ar_action_type act_ref) ai" "length kept \<le> length inputs" by blast
  with g show ?thesis
    by (auto simp: oxr_action_bind_io_def oxr_action_cache_teardown_def cache_ok_def zero_cache_def state_fits_def zero_state_def Let_def)
qed

lemma bind_paths_ok:
  assumes env: "env_ok env devs" and prof: "\<forall>path p. profiles path = Some p \<longrightarrow> attached_profile_ok (ie_store env) p"
  shows "attachment_ok devs aa \<Longrightarrow> \<exists>aa'. bind_paths env devs roles key profiles paths aa = Inr aa' \<and> attachment_ok devs aa'
    \<and> aa_act_ref aa' = aa_act_ref aa"
proof (induction paths arbitrary: aa)
  case (Cons path paths)
  show ?case
  proof (cases "action_wants (aa_act_ref aa) path")
    case True
    from bind_io_ok [OF env, of "profiles path" roles "aa_act_ref aa" key path "aa_caches aa path"] prof obtain c where
      c: "oxr_action_bind_io env devs roles (aa_act_ref aa) key (profiles path) path (aa_caches aa path) = Inr c"
        "cache_ok devs (ar_action_type (aa_act_ref aa)) c" by blast
    let ?aa = "aa\<lparr>aa_caches := (aa_caches aa)(path := c)\<rparr>"
    from Cons.prems c(2) have "attachment_ok devs ?aa" by (simp add: attachment_ok_def)
    from Cons.IH [OF this] True c(1) show ?thesis by auto
  next
    case False
    with Cons show ?thesis by simp
  qed
qed simp

lemma attachment_bind_ok:
  assumes "env_ok env devs" "\<forall>path p. profiles path = Some p \<longrightarrow> attached_profile_ok (ie_store env) p" "attachment_ok devs aa"
  shows "\<exists>aa'. oxr_action_attachment_bind env devs roles key profiles aa = Inr aa' \<and> attachment_ok devs aa'
    \<and> aa_act_ref aa' = aa_act_ref aa"
proof -
  from bind_paths_ok [OF assms(1,2,3)] obtain aa1 where
    "bind_paths env devs roles key profiles valid_subaction_paths aa = Inr aa1" "attachment_ok devs aa1" "aa_act_ref aa1 = aa_act_ref aa"
    by blast
  then show ?thesis by (auto simp: oxr_action_attachment_bind_def attachment_ok_def Let_def)
qed

section \<open>The invariant of a session\<close>

text \<open>\<open>acts\<close> gives the actions of the instance by their keys, which come from a counter.\<close>

definition sets_ok ::
  "(nat \<Rightarrow> oxr_action_ref option) \<Rightarrow> (addr \<Rightarrow> oxr_action_set_ref option) \<Rightarrow> devices \<Rightarrow> oxr_action_set_attachment list \<Rightarrow> bool" where
  "sets_ok acts refs devs sets \<longleftrightarrow>
     (\<forall>asa \<in> set sets. refs (asa_act_set_ref asa) \<noteq> None
        \<and> (\<forall>aa \<in> set (asa_act_attachments asa). attachment_ok devs aa \<and> acts (ar_act_key (aa_act_ref aa)) = Some (aa_act_ref aa)))"

text \<open>The pointers of the two maps; a set and an action are found under their keys.\<close>

definition maps_ok ::
  "(nat \<Rightarrow> nat option) \<Rightarrow> (nat \<Rightarrow> (nat \<times> nat) option) \<Rightarrow> oxr_action_set_attachment list \<Rightarrow> bool" where
  "maps_ok by_key actions_by_key sets \<longleftrightarrow>
     (\<forall>k i. by_key k = Some i \<longrightarrow> i < length sets \<and> asa_act_set_key (sets ! i) = k)
     \<and> (\<forall>k i j. actions_by_key k = Some (i, j) \<longrightarrow> i < length sets \<and> j < length (asa_act_attachments (sets ! i))
          \<and> ar_act_key (aa_act_ref (asa_act_attachments (sets ! i) ! j)) = k)"

definition session_ok :: "(nat \<Rightarrow> oxr_action_ref option) \<Rightarrow> input_env \<Rightarrow> input_session \<Rightarrow> bool" where
  "session_ok acts env s \<longleftrightarrow>
     devices_ok (ix_devs s) \<and> env_ok env (ix_devs s) \<and> (\<forall>p \<in> set (ix_profiles s). attached_profile_ok (ie_store env) p)
     \<and> (case ix_sets s of
          None \<Rightarrow> ix_sets_by_key s = Map.empty \<and> ix_actions_by_key s = Map.empty
        | Some sets \<Rightarrow> sets_ok acts (ix_set_refs s) (ix_devs s) sets \<and> maps_ok (ix_sets_by_key s) (ix_actions_by_key s) sets)"

text \<open>Replacing the attachments keeps the maps good if the actions stay where they are.\<close>

definition same_shape :: "oxr_action_set_attachment \<Rightarrow> oxr_action_set_attachment \<Rightarrow> bool" where
  "same_shape a b \<longleftrightarrow> asa_act_set_ref a = asa_act_set_ref b \<and> asa_act_set_key a = asa_act_set_key b
     \<and> map aa_act_ref (asa_act_attachments a) = map aa_act_ref (asa_act_attachments b)"

lemma same_shape_refl [simp]: "same_shape a a"
  by (simp add: same_shape_def)

lemma same_shape_attachments [simp]:
  "same_shape asa (asa\<lparr>asa_act_attachments := aas\<rparr>) \<longleftrightarrow> map aa_act_ref aas = map aa_act_ref (asa_act_attachments asa)"
  by (auto simp: same_shape_def)

lemma same_shape_nth:
  assumes "list_all2 same_shape sets sets'" "i < length sets"
  shows "asa_act_set_key (sets' ! i) = asa_act_set_key (sets ! i)"
    "length (asa_act_attachments (sets' ! i)) = length (asa_act_attachments (sets ! i))"
    "j < length (asa_act_attachments (sets ! i)) \<Longrightarrow>
      aa_act_ref (asa_act_attachments (sets' ! i) ! j) = aa_act_ref (asa_act_attachments (sets ! i) ! j)"
proof -
  have s: "same_shape (sets ! i) (sets' ! i)" using assms by (simp add: list_all2_conv_all_nth)
  then show "asa_act_set_key (sets' ! i) = asa_act_set_key (sets ! i)" by (simp add: same_shape_def)
  from s have m: "map aa_act_ref (asa_act_attachments (sets' ! i)) = map aa_act_ref (asa_act_attachments (sets ! i))"
    by (simp add: same_shape_def)
  then show len: "length (asa_act_attachments (sets' ! i)) = length (asa_act_attachments (sets ! i))" by (rule map_eq_imp_length_eq)
  assume "j < length (asa_act_attachments (sets ! i))"
  with arg_cong [OF m, of "\<lambda>xs. xs ! j"] len
  show "aa_act_ref (asa_act_attachments (sets' ! i) ! j) = aa_act_ref (asa_act_attachments (sets ! i) ! j)" by simp
qed

lemma maps_ok_same:
  assumes "list_all2 same_shape sets sets'" "maps_ok by_key actions sets"
  shows "maps_ok by_key actions sets'"
proof -
  have len: "length sets' = length sets" using assms(1) by (simp add: list_all2_lengthD)
  show ?thesis using assms(2) by (simp add: maps_ok_def len same_shape_nth [OF assms(1)])
qed

section \<open>Redoing the bindings\<close>

lemma by_name_ok:
  assumes "length template_paths = i + length ts"
  shows "\<exists>r. find_by_name_loop array template_paths name ts i = Inr r \<and> (\<forall>k. r = Some k \<longrightarrow> k < length array)"
  using assms
proof (induction ts arbitrary: i)
  case (Cons t ts)
  from Cons.IH [of "i + 1"] Cons.prems obtain r where
    r: "find_by_name_loop array template_paths name ts (i + 1) = Inr r" "\<forall>k. r = Some k \<longrightarrow> k < length array" by auto
  moreover have "i < length template_paths" using Cons.prems by simp
  ultimately show ?case
    by (auto simp: oxr_interaction_profile_array_find_by_path_def find_index_Some_iff split: option.splits)
qed simp

lemma find_by_device_name_ok:
  assumes "env_ok env devs"
  shows "\<exists>r. oxr_interaction_profile_array_find_by_device_name (ie_templates env) array (ie_cache env) name = Inr r
     \<and> (\<forall>k. r = Some k \<longrightarrow> k < length array)"
  using by_name_ok [of "pc_template_paths (ie_cache env)" 0 "ie_templates env"] assms
  by (auto simp: oxr_interaction_profile_array_find_by_device_name_def env_ok_def)

lemma find_by_alternatives_ok:
  assumes "env_ok env devs"
  shows "\<exists>r. find_by_alternatives (ie_templates env) array (ie_cache env) xbps = Inr r \<and> (\<forall>k. r = Some k \<longrightarrow> k < length array)"
proof (induction xbps)
  case (Cons xbp xbps)
  from find_by_device_name_ok [OF assms, of array "xbp_name xbp"] Cons show ?case by auto
qed simp

lemma find_by_device_ok:
  assumes "env_ok env devs"
  shows "\<exists>r. oxr_interaction_profile_array_find_by_device (ie_templates env) array (ie_cache env) xdev = Inr r
     \<and> (\<forall>k. r = Some k \<longrightarrow> k < length array)"
  using find_by_device_name_ok [OF assms, of array "xd_name xdev"] find_by_alternatives_ok [OF assms, of array "xd_binding_profiles xdev"]
  by (auto simp: oxr_interaction_profile_array_find_by_device_def)

lemma find_profile_ok:
  assumes env: "env_ok env devs"
  shows "\<exists>r. find_profile env array devs roles path = Inr r \<and> (\<forall>p. r = Some p \<longrightarrow> p \<in> set array)"
proof -
  from find_by_device_name_ok [OF env, of array "get_profile_name_by_role roles path"] obtain r where
    r: "oxr_interaction_profile_array_find_by_device_name (ie_templates env) array (ie_cache env) (get_profile_name_by_role roles path) = Inr r"
       "\<forall>k. r = Some k \<longrightarrow> k < length array" by blast
  from xdev_by_role_ok [OF env] obtain x where
    x: "get_xdev_by_role env roles path = Inr x" "\<forall>a. x = Some a \<longrightarrow> devs a \<noteq> None" by blast
  have "\<exists>r'. (case x of None \<Rightarrow> Inr None
      | Some a \<Rightarrow> try_bind (deref devs a) (\<lambda>dev.
          oxr_interaction_profile_array_find_by_device (ie_templates env) array (ie_cache env) dev)) = Inr r'
      \<and> (\<forall>k. r' = Some k \<longrightarrow> k < length array)"
    using x(2) find_by_device_ok [OF env, of array] by (cases x) auto
  then obtain r' where r': "(case x of None \<Rightarrow> Inr None
      | Some a \<Rightarrow> try_bind (deref devs a) (\<lambda>dev.
          oxr_interaction_profile_array_find_by_device (ie_templates env) array (ie_cache env) dev)) = Inr r'"
      "\<forall>k. r' = Some k \<longrightarrow> k < length array" by blast
  show ?thesis
    using r r' by (cases r) (auto simp: find_profile_def x(1))
qed

lemma find_profiles_ok:
  assumes env: "env_ok env devs"
  shows "(\<forall>path p. profiles path = Some p \<longrightarrow> p \<in> set array) \<Longrightarrow>
    \<exists>profiles'. find_profiles_from_roles env array devs roles paths profiles = Inr profiles'
      \<and> (\<forall>path p. profiles' path = Some p \<longrightarrow> p \<in> set array)"
proof (induction paths arbitrary: profiles)
  case (Cons path paths)
  from find_profile_ok [OF env, of array roles path] obtain r where
    r: "find_profile env array devs roles path = Inr r" "\<forall>p. r = Some p \<longrightarrow> p \<in> set array" by blast
  from Cons.prems r(2) have "\<forall>q p. (profiles(path := r)) q = Some p \<longrightarrow> p \<in> set array" by simp
  from Cons.IH [OF this] r(1) show ?case by (simp del: fun_upd_apply)
qed auto

lemma bind_attachments_ok:
  assumes "env_ok env devs" "\<forall>path p. profiles path = Some p \<longrightarrow> attached_profile_ok (ie_store env) p"
  shows "\<forall>aa \<in> set aas. attachment_ok devs aa \<Longrightarrow>
    \<exists>aas'. bind_attachments env devs roles key profiles aas = Inr aas' \<and> (\<forall>aa \<in> set aas'. attachment_ok devs aa)
      \<and> map aa_act_ref aas' = map aa_act_ref aas"
proof (induction aas)
  case (Cons aa aas)
  from attachment_bind_ok [OF assms, of aa roles key] Cons show ?case by auto
qed simp

lemma acts_of_map:
  assumes "map aa_act_ref aas' = map aa_act_ref aas" "\<forall>aa \<in> set aas. acts (ar_act_key (aa_act_ref aa)) = Some (aa_act_ref aa)"
  shows "\<forall>aa \<in> set aas'. acts (ar_act_key (aa_act_ref aa)) = Some (aa_act_ref aa)"
proof
  fix aa assume "aa \<in> set aas'"
  then have "aa_act_ref aa \<in> set (map aa_act_ref aas')" by simp
  then obtain aa0 where "aa0 \<in> set aas" "aa_act_ref aa0 = aa_act_ref aa" unfolding assms(1) by auto
  with assms(2) show "acts (ar_act_key (aa_act_ref aa)) = Some (aa_act_ref aa)" by metis
qed

lemma bind_sets_ok:
  assumes "env_ok env devs" "\<forall>path p. profiles path = Some p \<longrightarrow> attached_profile_ok (ie_store env) p"
  shows "sets_ok acts refs devs sets \<Longrightarrow>
    \<exists>sets'. bind_sets env devs roles profiles sets = Inr sets' \<and> sets_ok acts refs devs sets' \<and> list_all2 same_shape sets sets'"
proof (induction sets)
  case (Cons asa sets)
  from bind_attachments_ok [OF assms, of "asa_act_attachments asa" roles "asa_act_set_key asa"] Cons.prems obtain aas where
    aas: "bind_attachments env devs roles (asa_act_set_key asa) profiles (asa_act_attachments asa) = Inr aas"
      "\<forall>aa \<in> set aas. attachment_ok devs aa" "map aa_act_ref aas = map aa_act_ref (asa_act_attachments asa)"
    by (auto simp: sets_ok_def)
  from Cons.prems acts_of_map [OF aas(3), of acts] have a: "\<forall>aa \<in> set aas. acts (ar_act_key (aa_act_ref aa)) = Some (aa_act_ref aa)"
    by (simp add: sets_ok_def)
  from Cons obtain sets' where "bind_sets env devs roles profiles sets = Inr sets'" "sets_ok acts refs devs sets'"
    "list_all2 same_shape sets sets'" by (auto simp: sets_ok_def)
  with aas a Cons.prems show ?case by (simp add: sets_ok_def)
qed (simp add: sets_ok_def)

lemma update_action_bindings_ok:
  assumes ok: "session_ok acts env s"
  shows "\<exists>s' b. session_update_action_bindings env roles s = Inr (s', b) \<and> session_ok acts env s'
    \<and> ix_sess s' = ix_sess s \<and> ix_sets_by_key s' = ix_sets_by_key s \<and> ix_devs s' = ix_devs s \<and> ix_set_refs s' = ix_set_refs s
    \<and> (ix_sets s' = None \<longleftrightarrow> ix_sets s = None)"
proof -
  from ok have env: "env_ok env (ix_devs s)" by (simp add: session_ok_def)
  from find_profiles_ok [OF env, of "\<lambda>_. None" "ix_profiles s" roles valid_subaction_paths] obtain profiles where
    pr: "find_profiles_from_roles env (ix_profiles s) (ix_devs s) roles valid_subaction_paths (\<lambda>_. None) = Inr profiles"
      "\<forall>path p. profiles path = Some p \<longrightarrow> p \<in> set (ix_profiles s)" by auto
  with ok have prof: "\<forall>path p. profiles path = Some p \<longrightarrow> attached_profile_ok (ie_store env) p"
    by (auto simp: session_ok_def)
  obtain paths changed where f: "fold (populate_profile profiles) valid_subaction_paths (ix_profile_paths s, False) = (paths, changed)"
    by (rule prod.exhaust)
  show ?thesis
  proof (cases "ix_sets s")
    case None
    with ok pr(1) f show ?thesis by (auto simp: session_update_action_bindings_def session_ok_def)
  next
    case (Some sets)
    with ok bind_sets_ok [OF env prof, of acts "ix_set_refs s" sets roles] obtain sets' where
      "bind_sets env (ix_devs s) roles profiles sets = Inr sets'" "sets_ok acts (ix_set_refs s) (ix_devs s) sets'"
      "list_all2 same_shape sets sets'" by (auto simp: session_ok_def)
    with Some ok pr(1) f maps_ok_same show ?thesis
      by (auto simp: session_update_action_bindings_def session_ok_def)
  qed
qed

end
