(* ===== verification/Input_Safety.thy ===== *)
theory Input_Safety
  imports Input_Invariant
begin

text \<open>
  Synchronising, reading and vibrating keep the invariant of theory \<open>Input_Invariant\<close> and never fault: no
  assertion fails, no union is read as a member it does not hold, no pointer is bad.
\<close>

section \<open>Combining inputs\<close>

lemma value_fits_action:
  assumes "action_takes act u" "value_fits u v" "act \<noteq> XR_ACTION_TYPE_POSE_INPUT"
  shows "action_value act v"
  using assms by (cases act; cases u) (auto simp: action_takes_def oxr_type_matches_xrt_def input_is_float_def value_fits_def action_value_def)

text \<open>What has been combined so far suits the action.\<close>

definition combined_ok :: "XrActionType \<Rightarrow> combined \<Rightarrow> bool" where
  "combined_ok act c \<longleftrightarrow> action_value act (tv_value (cb_value c)) \<and> (cb_active c \<longrightarrow> action_takes act (tv_type (cb_value c)))"

lemma combine_value_ok:
  assumes "action_takes act (tv_type t)" "value_fits (tv_type t) (tv_value t)" "action_value act (tv_value (cb_value c))"
  shows "\<exists>c'. combine_value input t c = Inr c' \<and> combined_ok act c' \<and> cb_active c' = cb_active c"
  using assms
  by (cases act; cases "tv_type t")
    (auto simp: combine_value_def combined_ok_def action_takes_def oxr_type_matches_xrt_def input_is_float_def
      value_fits_def action_value_def Let_def)

lemma process_ok:
  assumes "input_ok devs act ai" "devices_ok devs" "read_input devs (ai_input ai) = Inr input"
  shows "\<exists>xforms out. oxr_input_transform_process atan2f devs (ai_transforms ai)
       \<lparr>tv_type = XRT_GET_INPUT_TYPE (in_name input), tv_value = in_value input\<rparr> = Inr (xforms, Some out)
     \<and> input_ok devs act (ai\<lparr>ai_transforms := xforms\<rparr>) \<and> action_takes act (tv_type out) \<and> value_fits (tv_type out) (tv_value out)"
proof -
  from assms(1) obtain t xforms u where a: "points_to_type devs (ai_input ai) t" "ai_transforms ai = Some xforms"
    "chain_ok devs t xforms u" "action_takes act u" by (auto simp: input_ok_def)
  from read_input_typed [OF a(1) assms(2)] assms(3) have i: "XRT_GET_INPUT_TYPE (in_name input) = t" "value_fits t (in_value input)"
    by auto
  from transform_all_ok [OF a(3) assms(2), of "\<lparr>tv_type = t, tv_value = in_value input\<rparr>" atan2f] i obtain xforms' out where
    "transform_all atan2f devs xforms \<lparr>tv_type = t, tv_value = in_value input\<rparr> = Inr (xforms', Some out)"
    "chain_ok devs t xforms' u" "tv_type out = u" "value_fits u (tv_value out)" by auto
  with a i show ?thesis by (auto simp: oxr_input_transform_process_def input_ok_def)
qed

lemma read_ok: "input_ok devs act ai \<Longrightarrow> \<exists>input. read_input devs (ai_input ai) = Inr input"
  by (auto simp: input_ok_def dest: read_points)

lemma combine_loop_ok:
  assumes dev: "devices_ok devs" and sup: "\<And>ai. \<exists>b. suppressed ai = Inr b"
  shows "\<forall>ai \<in> set ais. input_ok devs act ai \<Longrightarrow> combined_ok act c \<Longrightarrow>
    \<exists>ais' c'. combine_loop env devs suppressed ais c = Inr (ais', Some c') \<and> combined_ok act c'
      \<and> (\<forall>ai \<in> set ais'. input_ok devs act ai) \<and> map ai_bound_path ais' = map ai_bound_path ais"
proof (induction ais arbitrary: c)
  case (Cons ai ais)
  from sup obtain b where b: "suppressed ai = Inr b" by blast
  from Cons.prems(1) read_ok obtain input where input: "read_input devs (ai_input ai) = Inr input" by fastforce
  show ?case
  proof (cases "b \<or> \<not> in_active input")
    case True
    with Cons.IH [of c] Cons.prems b input show ?thesis by auto
  next
    case False
    from process_ok [OF _ dev input, of act "ie_atan2f env"] Cons.prems(1) obtain xforms out where
      p: "oxr_input_transform_process (ie_atan2f env) devs (ai_transforms ai)
            \<lparr>tv_type = XRT_GET_INPUT_TYPE (in_name input), tv_value = in_value input\<rparr> = Inr (xforms, Some out)"
        "input_ok devs act (ai\<lparr>ai_transforms := xforms\<rparr>)" "action_takes act (tv_type out)" "value_fits (tv_type out) (tv_value out)"
      by auto
    from combine_value_ok [OF p(3,4), of "c\<lparr>cb_active := True\<rparr>" input] Cons.prems(2) obtain c' where
      c': "combine_value input out (c\<lparr>cb_active := True\<rparr>) = Inr c'" "combined_ok act c'" by (auto simp: combined_ok_def)
    from Cons.IH [OF _ c'(2)] Cons.prems(1) obtain ais' c'' where
      "combine_loop env devs suppressed ais c' = Inr (ais', Some c'')" "combined_ok act c''"
      "\<forall>ai \<in> set ais'. input_ok devs act ai" "map ai_bound_path ais' = map ai_bound_path ais" by auto
    with False b input p(1,2) c'(1) show ?thesis by auto
  qed
qed simp

lemma combine_input_ok:
  assumes "devices_ok devs" "\<And>ai. \<exists>b. suppressed ai = Inr b" "\<forall>ai \<in> set inputs. input_ok devs act ai"
  shows "\<exists>inputs' c. oxr_input_combine_input env devs suppressed inputs = Inr (inputs', Some c) \<and> combined_ok act c
    \<and> (\<forall>ai \<in> set inputs'. input_ok devs act ai) \<and> map ai_bound_path inputs' = map ai_bound_path inputs"
proof (cases inputs)
  case Nil
  then show ?thesis by (simp add: oxr_input_combine_input_def combined_ok_def zero_tagged_def)
next
  case (Cons ai ais)
  with assms(3) read_ok obtain input where i: "read_input devs (ai_input ai) = Inr input" by fastforce
  have "combined_ok act \<lparr>cb_value = zero_tagged, cb_timestamp = in_timestamp input, cb_active = False\<rparr>"
    by (simp add: combined_ok_def zero_tagged_def)
  from combine_loop_ok [of devs suppressed inputs act, OF assms this, of env]
  show ?thesis by (simp add: oxr_input_combine_input_def Cons i del: combine_loop.simps)
qed

section \<open>Suppression\<close>

lemma priority_ok: "ix_set_refs s ref \<noteq> None \<Longrightarrow> \<exists>n. oxr_get_action_set_priority s ref priorities = Inr n"
  by (auto simp: oxr_get_action_set_priority_def split: option.splits)

lemma find_set_ok:
  assumes "session_ok acts env s" "oxr_session_action_context_find_set s key = Some i"
  shows "\<exists>sets. ix_sets s = Some sets \<and> i < length sets \<and> ix_set_refs s (asa_act_set_ref (sets ! i)) \<noteq> None"
  using assms
  by (auto simp: session_ok_def oxr_session_action_context_find_set_def oxr_session_action_context_has_attached_act_sets_def
      maps_ok_def sets_ok_def split: if_splits)

lemma suppressed_loop_ok:
  assumes "session_ok acts env s"
  shows "\<exists>b. suppressed_loop s priorities subaction ref priority ai actives = Inr b"
proof (induction actives)
  case (Cons active actives)
  show ?case
  proof (cases "oxr_session_action_context_find_set s (as_act_set_key (act_set active))")
    case None
    with Cons show ?thesis by simp
  next
    case (Some i)
    from find_set_ok [OF assms Some] obtain sets where
      s: "ix_sets s = Some sets" "i < length sets" "ix_set_refs s (asa_act_set_ref (sets ! i)) \<noteq> None" by blast
    from priority_ok [OF s(3)] obtain n where "oxr_get_action_set_priority s (asa_act_set_ref (sets ! i)) priorities = Inr n" by blast
    with Some s Cons show ?thesis by (auto simp: get_set_def Let_def)
  qed
qed (simp add: exI [of _ False])

lemma suppressed_ok:
  assumes "session_ok acts env s" "ix_set_refs s ref \<noteq> None"
  shows "\<exists>b. oxr_input_supressed s actives subaction ref ai priorities = Inr b"
  using priority_ok [OF assms(2), of priorities] suppressed_loop_ok [OF assms(1)]
  by (auto simp: oxr_input_supressed_def)

section \<open>Updating caches and actions\<close>

lemma store_combined_ok:
  assumes "action_takes act (tv_type v)" "action_value act (tv_value v)" "state_fits act prev" "state_fits act current"
  shows "\<exists>r. store_combined v prev current = Inr r \<and> (\<forall>b st. r = Some (b, st) \<longrightarrow> state_fits act st)"
  using assms
  by (cases act; cases "tv_type v")
    (auto simp: store_combined_def action_takes_def oxr_type_matches_xrt_def input_is_float_def action_value_def state_fits_def)

lemma stamp_fits [simp]: "state_fits act (stamp_state prev b ts st) = state_fits act st"
  by (simp add: stamp_state_def state_fits_def)

lemma active_fits [simp]: "state_fits act (st\<lparr>st_active := b\<rparr>) = state_fits act st"
  by (simp add: state_fits_def)

lemma cache_update_ok:
  assumes ok: "session_ok acts env s" and ref: "ix_set_refs s ref \<noteq> None" and c: "cache_ok (ix_devs s) act c"
  shows "\<exists>c' calls. oxr_action_cache_update env s actives ref c time subaction selected priorities = Inr (c', calls)
     \<and> cache_ok (ix_devs s) act c'"
proof (cases "selected \<and> ca_outputs c = [] \<and> ca_inputs c \<noteq> []")
  case False
  with c show ?thesis
    by (auto simp: oxr_action_cache_update_def oxr_action_cache_stop_output_def cache_ok_def state_fits_def Let_def zero_state_def)
next
  case True
  let ?sup = "\<lambda>ai. oxr_input_supressed s actives subaction ref ai priorities"
  from ok have dev: "devices_ok (ix_devs s)" by (simp add: session_ok_def)
  from combine_input_ok [OF dev, of ?sup "ca_inputs c" act env] suppressed_ok [OF ok ref] c obtain inputs cb where
    i: "oxr_input_combine_input env (ix_devs s) ?sup (ca_inputs c) = Inr (inputs, Some cb)" "combined_ok act cb"
      "\<forall>ai \<in> set inputs. input_ok (ix_devs s) act ai" "map ai_bound_path inputs = map ai_bound_path (ca_inputs c)"
    by (auto simp: cache_ok_def)
  from i(4) have len: "length inputs = length (ca_inputs c)" by (metis length_map)
  let ?c1 = "c\<lparr>ca_inputs := inputs\<rparr>"
  have c1: "cache_ok (ix_devs s) act (?c1\<lparr>ca_current := st\<rparr>)" if "state_fits act st" for st
    using c i(3) len that by (simp add: cache_ok_def)
  show ?thesis
  proof (cases "sess_state (ix_sess s) \<noteq> XR_SESSION_STATE_FOCUSED \<or> \<not> cb_active cb")
    case True
    then show ?thesis using \<open>selected \<and> _\<close> i(1) c1 [OF state_fits_zero]
      by (simp add: oxr_action_cache_update_def Let_def)
  next
    case False
    from c have prev: "state_fits act (ca_current c)" by (simp add: cache_ok_def)
    from False i(2) have "action_takes act (tv_type (cb_value cb))" "action_value act (tv_value (cb_value cb))"
      by (auto simp: combined_ok_def)
    from store_combined_ok [OF this prev, of "(ca_current c)\<lparr>st_active := True\<rparr>"] prev obtain r where
      r: "store_combined (cb_value cb) (ca_current c) ((ca_current c)\<lparr>st_active := True\<rparr>) = Inr r"
        "\<forall>b st. r = Some (b, st) \<longrightarrow> state_fits act st" by auto
    show ?thesis
      using \<open>selected \<and> _\<close> False i(1) r c1 prev
      by (cases r) (auto simp: oxr_action_cache_update_def Let_def)
  qed
qed

lemma update_caches_ok:
  assumes ok: "session_ok acts env s" and ref: "ix_set_refs s ref \<noteq> None"
  shows "attachment_ok (ix_devs s) aa \<Longrightarrow>
    \<exists>aa' calls. update_caches env s actives ref time requested priorities paths aa = Inr (aa', calls)
      \<and> attachment_ok (ix_devs s) aa' \<and> aa_act_ref aa' = aa_act_ref aa"
proof (induction paths arbitrary: aa)
  case (Cons path paths)
  from Cons.prems have c: "cache_ok (ix_devs s) (ar_action_type (aa_act_ref aa)) (aa_caches aa path)"
    by (simp add: attachment_ok_def)
  from cache_update_ok [OF ok ref c] obtain c' calls where
    c': "oxr_action_cache_update env s actives ref (aa_caches aa path) time (only_path path)
           (sp_get path requested \<or> sp_any requested) priorities = Inr (c', calls)"
      "cache_ok (ix_devs s) (ar_action_type (aa_act_ref aa)) c'" by metis
  let ?aa = "aa\<lparr>aa_caches := (aa_caches aa)(path := c')\<rparr>"
  from Cons.prems c'(2) have "attachment_ok (ix_devs s) ?aa" by (simp add: attachment_ok_def)
  from Cons.IH [OF this] c'(1) show ?case by auto
qed simp

lemma value_boolean_fits: "state_fits XR_ACTION_TYPE_BOOLEAN_INPUT st \<Longrightarrow> \<exists>b. value_boolean (st_value st) = Inr b"
  by (auto simp: state_fits_def action_value_def intro: exI [of _ False])

lemma any_bool_ok:
  "\<forall>st \<in> set sts. state_fits XR_ACTION_TYPE_BOOLEAN_INPUT st \<Longrightarrow> \<exists>r. any_bool sts acc = Inr r"
proof (induction sts arbitrary: acc)
  case Nil
  show ?case by (metis any_bool.simps(1))
next
  case (Cons st sts)
  then have "\<exists>b. value_boolean (st_value st) = Inr b" by (simp add: value_boolean_fits)
  with Cons show ?case by (cases acc) auto
qed

lemma any_vec1_ok:
  "\<forall>st \<in> set sts. state_fits XR_ACTION_TYPE_FLOAT_INPUT st \<Longrightarrow> \<exists>r. any_vec1 sts acc = Inr r"
proof (induction sts arbitrary: acc)
  case Nil
  show ?case by (metis any_vec1.simps(1))
next
  case (Cons st sts)
  then have "\<exists>b. value_vec1 (st_value st) = Inr b" by (auto simp: state_fits_def action_value_def)
  with Cons show ?case by (cases acc) auto
qed

lemma any_vec2_ok:
  "\<forall>st \<in> set sts. state_fits XR_ACTION_TYPE_VECTOR2F_INPUT st \<Longrightarrow> \<exists>r. any_vec2 sts acc = Inr r"
proof (induction sts arbitrary: acc)
  case Nil
  show ?case by (metis any_vec2.simps(1))
next
  case (Cons st sts)
  then have "\<exists>x y. value_vec2 (st_value st) = Inr (x, y)" by (auto simp: state_fits_def action_value_def)
  with Cons show ?case by (cases acc) (auto simp: Let_def)
qed

lemma attachment_with_any:
  "attachment_ok devs (aa\<lparr>aa_any_state := st\<rparr>) \<longleftrightarrow>
     (\<forall>path. cache_ok devs (ar_action_type (aa_act_ref aa)) (aa_caches aa path)) \<and> state_fits (ar_action_type (aa_act_ref aa)) st"
  by (simp add: attachment_ok_def)

lemma finish_any_value [simp]: "st_value (finish_any prev v b ch ts) = v"
  by (simp add: finish_any_def Let_def)

lemma attachment_update_ok:
  assumes ok: "session_ok acts env s" and ref: "ix_set_refs s ref \<noteq> None" and aa: "attachment_ok (ix_devs s) aa"
  shows "\<exists>aa' calls. oxr_action_attachment_update env s actives ref time requested priorities aa = Inr (aa', calls)
      \<and> attachment_ok (ix_devs s) aa' \<and> aa_act_ref aa' = aa_act_ref aa"
proof -
  from update_caches_ok [OF ok ref aa] obtain aa1 calls where
    u: "update_caches env s actives ref time requested priorities valid_subaction_paths aa = Inr (aa1, calls)"
      "attachment_ok (ix_devs s) aa1" "aa_act_ref aa1 = aa_act_ref aa" by metis
  let ?sts = "map (\<lambda>p. ca_current (aa_caches aa1 p)) valid_subaction_paths"
  let ?ts = "ie_monotonic_to_ts env time"
  from u(2) have fits: "\<forall>st \<in> set ?sts. state_fits (ar_action_type (aa_act_ref aa1)) st"
    and prev: "state_fits (ar_action_type (aa_act_ref aa1)) (aa_any_state aa1)"
    and caches: "\<forall>path. cache_ok (ix_devs s) (ar_action_type (aa_act_ref aa1)) (aa_caches aa1 path)"
    by (auto simp: attachment_ok_def cache_ok_def)
  show ?thesis
  proof (cases "ar_action_type (aa_act_ref aa1)")
    case XR_ACTION_TYPE_BOOLEAN_INPUT
    with fits any_bool_ok [of ?sts "(False, False, ?ts)"] obtain b v t where r: "any_bool ?sts (False, False, ?ts) = Inr (b, v, t)"
      by auto
    from prev XR_ACTION_TYPE_BOOLEAN_INPUT value_boolean_fits [of "aa_any_state aa1"]
    obtain l where "value_boolean (st_value (aa_any_state aa1)) = Inr l" by auto
    with u caches r XR_ACTION_TYPE_BOOLEAN_INPUT show ?thesis
      by (cases b) (simp_all add: oxr_action_attachment_update_def Let_def attachment_with_any state_fits_def action_value_def)
  next
    case XR_ACTION_TYPE_FLOAT_INPUT
    with fits any_vec1_ok [of ?sts "(False, Fin (- 2), ?ts)"] obtain b v t where r: "any_vec1 ?sts (False, Fin (- 2), ?ts) = Inr (b, v, t)"
      by auto
    from prev XR_ACTION_TYPE_FLOAT_INPUT obtain l where "value_vec1 (st_value (aa_any_state aa1)) = Inr l"
      by (auto simp: state_fits_def action_value_def)
    with u caches r XR_ACTION_TYPE_FLOAT_INPUT show ?thesis
      by (cases b) (simp_all add: oxr_action_attachment_update_def Let_def attachment_with_any state_fits_def action_value_def)
  next
    case XR_ACTION_TYPE_VECTOR2F_INPUT
    with fits any_vec2_ok [of ?sts "(False, (Fin 0, Fin 0), Fin (- 1), ?ts)"] obtain b x y d t where
      r: "any_vec2 ?sts (False, (Fin 0, Fin 0), Fin (- 1), ?ts) = Inr (b, (x, y), d, t)" by auto
    from prev XR_ACTION_TYPE_VECTOR2F_INPUT obtain lx ly where "value_vec2 (st_value (aa_any_state aa1)) = Inr (lx, ly)"
      by (auto simp: state_fits_def action_value_def)
    with u caches r XR_ACTION_TYPE_VECTOR2F_INPUT show ?thesis
      by (cases b) (simp_all add: oxr_action_attachment_update_def Let_def attachment_with_any state_fits_def action_value_def)
  qed (use u caches in \<open>simp_all add: oxr_action_attachment_update_def Let_def attachment_with_any\<close>)
qed

section \<open>Updating all sets\<close>

lemma update_attachments_ok:
  assumes ok: "session_ok acts env s" and ref: "ix_set_refs s ref \<noteq> None"
  shows "\<forall>aa \<in> set aas. attachment_ok (ix_devs s) aa \<Longrightarrow>
    \<exists>aas' calls. update_attachments env s actives ref now requested priorities aas = Inr (aas', calls)
      \<and> (\<forall>aa \<in> set aas'. attachment_ok (ix_devs s) aa) \<and> map aa_act_ref aas' = map aa_act_ref aas"
proof (induction aas)
  case (Cons aa aas)
  then have "attachment_ok (ix_devs s) aa" by simp
  from attachment_update_ok [OF ok ref this] obtain aa' calls where
    "oxr_action_attachment_update env s actives ref now requested priorities aa = Inr (aa', calls)"
    "attachment_ok (ix_devs s) aa'" "aa_act_ref aa' = aa_act_ref aa" by metis
  with Cons show ?case by auto
qed simp

lemma update_sets_ok:
  assumes ok: "session_ok acts env s"
  shows "sets_ok acts (ix_set_refs s) (ix_devs s) sets \<Longrightarrow>
    \<exists>sets' calls. update_sets env s actives now priorities sets = Inr (sets', calls)
      \<and> sets_ok acts (ix_set_refs s) (ix_devs s) sets' \<and> list_all2 same_shape sets sets'"
proof (induction sets)
  case (Cons asa sets)
  from Cons.prems have asa: "ix_set_refs s (asa_act_set_ref asa) \<noteq> None"
    "\<forall>aa \<in> set (asa_act_attachments asa). attachment_ok (ix_devs s) aa"
    "\<forall>aa \<in> set (asa_act_attachments asa). acts (ar_act_key (aa_act_ref aa)) = Some (aa_act_ref aa)"
    "sets_ok acts (ix_set_refs s) (ix_devs s) sets" by (auto simp: sets_ok_def)
  from update_attachments_ok [OF ok asa(1,2)] obtain aas calls where
    aas: "update_attachments env s actives (asa_act_set_ref asa) now (asa_requested_subaction_paths asa) priorities
            (asa_act_attachments asa) = Inr (aas, calls)"
      "\<forall>aa \<in> set aas. attachment_ok (ix_devs s) aa" "map aa_act_ref aas = map aa_act_ref (asa_act_attachments asa)" by metis
  from Cons.IH [OF asa(4)] obtain sets' calls' where
    "update_sets env s actives now priorities sets = Inr (sets', calls')" "sets_ok acts (ix_set_refs s) (ix_devs s) sets'"
    "list_all2 same_shape sets sets'" by blast
  with aas asa(1) acts_of_map [OF aas(3) asa(3)] show ?case by (simp add: sets_ok_def)
qed (simp add: sets_ok_def)

text \<open>The requested paths are of no importance to the invariant.\<close>

lemma sets_ok_nth_update:
  assumes "sets_ok acts refs devs sets" "i < length sets"
  shows "sets_ok acts refs devs (sets[i := (sets ! i)\<lparr>asa_requested_subaction_paths := r\<rparr>])"
    and "list_all2 same_shape sets (sets[i := (sets ! i)\<lparr>asa_requested_subaction_paths := r\<rparr>])"
proof -
  let ?x = "(sets ! i)\<lparr>asa_requested_subaction_paths := r\<rparr>"
  have "asa \<in> set sets \<or> asa = ?x" if "asa \<in> set (sets[i := ?x])" for asa
    using that set_update_subset_insert [of sets i ?x] by auto
  moreover have "sets ! i \<in> set sets" using assms(2) by simp
  ultimately show "sets_ok acts refs devs (sets[i := ?x])"
    using assms(1) unfolding sets_ok_def by fastforce
  show "list_all2 same_shape sets (sets[i := (sets ! i)\<lparr>asa_requested_subaction_paths := r\<rparr>])"
    unfolding list_all2_conv_all_nth
  proof (intro conjI allI impI)
    fix j assume "j < length sets"
    then show "same_shape (sets ! j) (sets[i := ?x] ! j)" by (cases "i = j") (simp_all add: same_shape_def)
  qed simp
qed

lemma reset_ok:
  "sets_ok acts refs devs (map reset_requested sets) = sets_ok acts refs devs sets"
  "list_all2 same_shape sets (map reset_requested sets)"
  by (auto simp: sets_ok_def reset_requested_def list_all2_conv_all_nth same_shape_def)

lemma find_set_sets:
  "ix_sets_by_key s' = ix_sets_by_key s \<Longrightarrow> (ix_sets s' = None \<longleftrightarrow> ix_sets s = None) \<Longrightarrow>
   oxr_session_action_context_find_set s' key = oxr_session_action_context_find_set s key"
  by (simp add: oxr_session_action_context_find_set_def oxr_session_action_context_has_attached_act_sets_def)

lemma session_ok_other [simp]:
  "session_ok acts env (s\<lparr>ix_sess := x\<rparr>) = session_ok acts env s"
  "session_ok acts env (s\<lparr>ix_generation_id := n\<rparr>) = session_ok acts env s"
  "session_ok acts env (s\<lparr>ix_outputs := out\<rparr>) = session_ok acts env s"
  by (cases "ix_sets s"; simp add: session_ok_def)+

lemma session_ok_sets:
  assumes "session_ok acts env s" "ix_sets s = Some sets" "sets_ok acts (ix_set_refs s) (ix_devs s) sets'" "list_all2 same_shape sets sets'"
  shows "session_ok acts env (s\<lparr>ix_sets := Some sets'\<rparr>)"
  using assms maps_ok_same by (auto simp: session_ok_def)

lemma request_paths_ok:
  "session_ok acts env s \<Longrightarrow> all_attached s actives \<Longrightarrow> ix_sets s \<noteq> None \<Longrightarrow>
   \<exists>s' r. request_paths cache actives s = Inr (s', r) \<and> session_ok acts env s' \<and> ix_sets s' \<noteq> None
      \<and> ix_sess s' = ix_sess s"
proof (induction actives arbitrary: s)
  case (Cons active actives)
  then obtain i where i: "oxr_session_action_context_find_set s (as_act_set_key (act_set active)) = Some i"
    by (auto simp: all_attached_def)
  from find_set_ok [OF Cons.prems(1) i] obtain sets where s: "ix_sets s = Some sets" "i < length sets" by blast
  obtain b paths where b: "oxr_classify_subaction_path cache (subactionPath active) = (b, paths)" by (rule prod.exhaust)
  let ?asa = "(sets ! i)\<lparr>asa_requested_subaction_paths := accumulate (asa_requested_subaction_paths (sets ! i)) paths\<rparr>"
  let ?s1 = "s\<lparr>ix_sets := Some (sets[i := ?asa])\<rparr>"
  from Cons.prems(1) s(1) have "sets_ok acts (ix_set_refs s) (ix_devs s) sets" by (simp add: session_ok_def)
  from sets_ok_nth_update [OF this s(2)] have s1: "session_ok acts env ?s1"
    by (intro session_ok_sets [OF Cons.prems(1) s(1)])
  have att: "all_attached ?s1 actives"
    using Cons.prems(2) find_set_sets [of ?s1 s] s(1) by (simp add: all_attached_def)
  from Cons.IH [OF s1 att] show ?case
    using Cons.prems i s b s1 by (cases b) (auto simp: Let_def)
qed auto

section \<open>xrSyncActions\<close>

text \<open>What a driver promises for an update of its device.\<close>

definition driver_ok :: "(addr \<Rightarrow> devices \<Rightarrow> xrt_result \<times> devices) \<Rightarrow> bool" where
  "driver_ok update \<longleftrightarrow>
     (\<forall>a devs. devices_ok devs \<longrightarrow> same_devices devs (snd (update a devs)) \<and> devices_ok (snd (update a devs)))"

lemma update_devices_ok:
  assumes "driver_ok update"
  shows "devices_ok devs \<Longrightarrow> same_devices devs (snd (update_devices update xs devs)) \<and> devices_ok (snd (update_devices update xs devs))"
proof (induction xs arbitrary: devs)
  case (Cons x xs)
  show ?case
  proof (cases x)
    case None
    with Cons show ?thesis by simp
  next
    case (Some a)
    obtain r devs' where u: "update a devs = (r, devs')" by (rule prod.exhaust)
    from assms Cons.prems u have d: "same_devices devs devs'" "devices_ok devs'"
      unfolding driver_ok_def by (metis snd_conv)+
    with Cons.IH [OF d(2)] show ?thesis
      by (auto simp: Some u intro: same_devices_trans)
  qed
qed simp

lemma session_ok_devices:
  assumes "session_ok acts env s" "same_devices (ix_devs s) devs" "devices_ok devs"
  shows "session_ok acts env (s\<lparr>ix_devs := devs\<rparr>)"
  using assms env_ok_same [OF assms(2)] attachment_ok_same [OF assms(2)]
  by (auto simp: session_ok_def sets_ok_def split: option.splits)

lemma sync_bindings_ok:
  assumes ok: "session_ok acts env s"
  shows "\<exists>s'. sync_bindings env roles s = Inr s' \<and> session_ok acts env s'
    \<and> ix_sets_by_key s' = ix_sets_by_key s \<and> (ix_sets s' = None \<longleftrightarrow> ix_sets s = None)
    \<and> sess_state (ix_sess s') = sess_state (ix_sess s)"
proof (cases "ix_generation_id s < ro_generation_id roles")
  case True
  from ok have "session_ok acts env (s\<lparr>ix_generation_id := ro_generation_id roles\<rparr>)" by simp
  from update_action_bindings_ok [OF this, of roles] obtain s1 b where
    s1: "session_update_action_bindings env roles (s\<lparr>ix_generation_id := ro_generation_id roles\<rparr>) = Inr (s1, b)"
      "session_ok acts env s1" "ix_sess s1 = ix_sess s" "ix_sets_by_key s1 = ix_sets_by_key s" "ix_sets s1 = None \<longleftrightarrow> ix_sets s = None"
    by auto
  with True s1 show ?thesis by (auto simp: sync_bindings_def push_event_def)
qed (use ok in \<open>simp add: sync_bindings_def\<close>)

lemma sync_data_ok:
  assumes ok: "session_ok acts env s" and drv: "driver_ok (se_update senv)"
  shows "\<exists>s' r. oxr_action_sync_data env senv actives priorities s = Inr (s', r) \<and> session_ok acts env s'"
proof (cases "all_attached s actives \<and> sess_state (ix_sess s) = XR_SESSION_STATE_FOCUSED \<and> fst (se_roles senv) = XRT_SUCCESS")
  case False
  with ok show ?thesis by (auto simp: oxr_action_sync_data_def)
next
  case True
  from sync_bindings_ok [OF ok, of "snd (se_roles senv)"] obtain s1 where
    s1: "sync_bindings env (snd (se_roles senv)) s = Inr s1" "session_ok acts env s1" "ix_sets_by_key s1 = ix_sets_by_key s"
      "ix_sets s1 = None \<longleftrightarrow> ix_sets s = None" by (elim exE conjE) (rule that)
  obtain xret devs where u: "update_devices (se_update senv) (ie_static_xdevs env) (ix_devs s1) = (xret, devs)" by (rule prod.exhaust)
  let ?s2 = "s1\<lparr>ix_devs := devs\<rparr>"
  from s1(2) have "devices_ok (ix_devs s1)" by (simp add: session_ok_def)
  from update_devices_ok [OF drv this, of "ie_static_xdevs env"] u have "same_devices (ix_devs s1) devs" "devices_ok devs" by auto
  from session_ok_devices [OF s1(2) this] have s2: "session_ok acts env ?s2" .
  show ?thesis
  proof (cases "actives = [] \<or> xret \<noteq> XRT_SUCCESS")
    case True
    then consider "actives = []" | "actives \<noteq> []" "xret = XRT_ERROR_IPC_FAILURE" | "actives \<noteq> []" "xret \<noteq> XRT_ERROR_IPC_FAILURE" "xret \<noteq> XRT_SUCCESS"
      by auto
    then show ?thesis
      by cases (use \<open>all_attached s actives \<and> _\<close> s1(1,2) u s2 in \<open>simp_all add: oxr_action_sync_data_def\<close>)
  next
    case False
    then have ne: "actives \<noteq> []" "xret = XRT_SUCCESS" by auto
    then obtain active rest where "actives = active # rest" by (cases actives) auto
    with True have "oxr_session_action_context_find_set s (as_act_set_key (act_set active)) \<noteq> None"
      by (simp add: all_attached_def)
    then have sets: "ix_sets s \<noteq> None"
      by (auto simp: oxr_session_action_context_find_set_def oxr_session_action_context_has_attached_act_sets_def split: if_splits)
    with s1(4) obtain sets where sets1: "ix_sets s1 = Some sets" by auto
    let ?s3 = "?s2\<lparr>ix_sets := map_option (map reset_requested) (ix_sets ?s2)\<rparr>"
    from s2 sets1 have "sets_ok acts (ix_set_refs ?s2) (ix_devs ?s2) sets" by (simp add: session_ok_def)
    then have s3: "session_ok acts env ?s3"
      using session_ok_sets [OF s2, of sets "map reset_requested sets"] sets1 reset_ok by simp
    have att: "all_attached ?s3 actives"
      using True find_set_sets [of ?s3 s] s1(3,4) by (simp add: all_attached_def)
    from request_paths_ok [OF s3 att, of "ie_cache env"] sets1 obtain s4 r where
      s4: "request_paths (ie_cache env) actives ?s3 = Inr (s4, r)" "session_ok acts env s4" "ix_sets s4 \<noteq> None" by auto
    then obtain sets4 where sets4: "ix_sets s4 = Some sets4" by auto
    with s4(2) have "sets_ok acts (ix_set_refs s4) (ix_devs s4) sets4" by (simp add: session_ok_def)
    from update_sets_ok [OF s4(2) this, of actives "se_now senv" priorities] obtain sets5 calls where
      s5: "update_sets env s4 actives (se_now senv) priorities sets4 = Inr (sets5, calls)"
        "sets_ok acts (ix_set_refs s4) (ix_devs s4) sets5" "list_all2 same_shape sets4 sets5" by blast
    from session_ok_sets [OF s4(2) sets4 s5(2,3)] have s6: "session_ok acts env (s4\<lparr>ix_sets := Some sets5\<rparr>)" .
    show ?thesis
      by (cases "r = XR_SUCCESS") (use True ne s1(1) u s4(1,2) sets4 s5(1) s6 in \<open>simp_all add: oxr_action_sync_data_def Let_def\<close>)
  qed
qed

end
