(* ===== verification/Input_Session.thy ===== *)
theory Input_Session
  imports Input_Safety
begin

text \<open>
  The entry points of a session's actions: attaching establishes the invariant, and attaching, synchronising,
  reading, vibrating and stopping keep it, in any order and without a fault. The calls of an
  application are a datatype, with what the caller owes in \<open>call_ok\<close>.
\<close>

section \<open>Attaching\<close>

text \<open>What an action set of the application is: its data exists, and its actions are those of the instance.\<close>

definition set_known :: "(nat \<Rightarrow> oxr_action_ref option) \<Rightarrow> (addr \<Rightarrow> oxr_action_set_ref option) \<Rightarrow> oxr_action_set \<Rightarrow> bool" where
  "set_known acts refs a \<longleftrightarrow> refs (as_data a) \<noteq> None \<and> (\<forall>act \<in> set (as_actions a). acts (ar_act_key act) = Some act)"

lemma attachment_init_ok [simp]: "attachment_ok devs (oxr_action_attachment_init act)"
  by (simp add: attachment_ok_def oxr_action_attachment_init_def)

lemma attachment_init_ref [simp]: "aa_act_ref (oxr_action_attachment_init act) = act"
  by (simp add: oxr_action_attachment_init_def)

lemma set_attachment_init [simp]:
  "asa_act_attachments (oxr_action_set_attachment_init a key) = map oxr_action_attachment_init (as_actions a)"
  "asa_act_set_ref (oxr_action_set_attachment_init a key) = as_data a"
  "asa_act_set_key (oxr_action_set_attachment_init a key) = key"
  by (simp_all add: oxr_action_set_attachment_init_def)

lemma add_attachments_cases:
  "add_action_attachments i k acts by_key key = Some p \<Longrightarrow>
     by_key key = Some p \<or> (\<exists>j < length acts. p = (i, k + j) \<and> ar_act_key (acts ! j) = key)"
proof (induction acts arbitrary: k by_key)
  case (Cons act acts)
  from Cons.IH [of "k + 1" "by_key(ar_act_key act \<mapsto> (i, k))"] Cons.prems
  consider "(by_key(ar_act_key act \<mapsto> (i, k))) key = Some p"
    | j where "j < length acts" "p = (i, k + 1 + j)" "ar_act_key (acts ! j) = key" by (auto simp del: fun_upd_apply)
  then show ?case
  proof cases
    case 1
    then show ?thesis by (cases "key = ar_act_key act") (auto intro!: exI [of _ 0])
  next
    case 2
    then show ?thesis by (intro disjI2 exI [of _ "Suc j"]) simp
  qed
qed simp

lemma attach_sets_ok:
  assumes "\<forall>a \<in> set act_sets. set_known acts (ix_set_refs s) a"
  shows "\<exists>s' sets. attach_sets i act_sets s = Inr (s', sets) \<and> map asa_act_set_ref sets = map as_data act_sets
    \<and> map (\<lambda>asa. map aa_act_ref (asa_act_attachments asa)) sets = map as_actions act_sets
    \<and> (\<forall>asa \<in> set sets. \<forall>aa \<in> set (asa_act_attachments asa). attachment_ok devs aa)
    \<and> dom (ix_set_refs s') = dom (ix_set_refs s)
    \<and> (\<forall>k j. ix_sets_by_key s' k = Some j \<longrightarrow> ix_sets_by_key s k = Some j
         \<or> (i \<le> j \<and> j < i + length act_sets \<and> asa_act_set_key (sets ! (j - i)) = k))
    \<and> (\<forall>k a b. ix_actions_by_key s' k = Some (a, b) \<longrightarrow> ix_actions_by_key s k = Some (a, b)
         \<or> (i \<le> a \<and> a < i + length act_sets \<and> b < length (as_actions (act_sets ! (a - i)))
              \<and> ar_act_key (as_actions (act_sets ! (a - i)) ! b) = k))
    \<and> ix_devs s' = ix_devs s \<and> ix_profiles s' = ix_profiles s \<and> ix_sess s' = ix_sess s"
  using assms
proof (induction act_sets arbitrary: i s)
  case (Cons a act_sets)
  from Cons.prems obtain ref where ref: "ix_set_refs s (as_data a) = Some ref" by (auto simp: set_known_def)
  let ?s1 = "s\<lparr>ix_set_refs := (ix_set_refs s)(as_data a \<mapsto> ref\<lparr>sr_ever_attached := True\<rparr>),
      ix_sets_by_key := (ix_sets_by_key s)(sr_act_set_key ref \<mapsto> i),
      ix_actions_by_key := add_action_attachments i 0 (as_actions a) (ix_actions_by_key s)\<rparr>"
  have "\<forall>a \<in> set act_sets. set_known acts (ix_set_refs ?s1) a"
    using Cons.prems by (auto simp: set_known_def)
  from Cons.IH [of ?s1 "i + 1", OF this] obtain s' sets where r:
    "attach_sets (i + 1) act_sets ?s1 = Inr (s', sets)" "map asa_act_set_ref sets = map as_data act_sets"
    "map (\<lambda>asa. map aa_act_ref (asa_act_attachments asa)) sets = map as_actions act_sets"
    "\<forall>asa \<in> set sets. \<forall>aa \<in> set (asa_act_attachments asa). attachment_ok devs aa"
    "dom (ix_set_refs s') = dom (ix_set_refs ?s1)"
    and keys: "\<And>k j. ix_sets_by_key s' k = Some j \<Longrightarrow> ix_sets_by_key ?s1 k = Some j
        \<or> (i + 1 \<le> j \<and> j < i + 1 + length act_sets \<and> asa_act_set_key (sets ! (j - (i + 1))) = k)"
    and actions: "\<And>k x y. ix_actions_by_key s' k = Some (x, y) \<Longrightarrow> ix_actions_by_key ?s1 k = Some (x, y)
         \<or> (i + 1 \<le> x \<and> x < i + 1 + length act_sets \<and> y < length (as_actions (act_sets ! (x - (i + 1))))
              \<and> ar_act_key (as_actions (act_sets ! (x - (i + 1))) ! y) = k)"
    and same: "ix_devs s' = ix_devs ?s1" "ix_profiles s' = ix_profiles ?s1" "ix_sess s' = ix_sess ?s1"
    by blast
  let ?sets = "oxr_action_set_attachment_init a (sr_act_set_key ref) # sets"
  have k1: "ix_sets_by_key s k = Some j \<or> (i \<le> j \<and> j < i + length (a # act_sets) \<and> asa_act_set_key (?sets ! (j - i)) = k)"
    if "ix_sets_by_key s' k = Some j" for k j
    using keys [OF that] by (auto simp: nth_Cons' split: if_splits)
  have a1: "ix_actions_by_key s k = Some (x, y) \<or> (i \<le> x \<and> x < i + length (a # act_sets)
      \<and> y < length (as_actions ((a # act_sets) ! (x - i))) \<and> ar_act_key (as_actions ((a # act_sets) ! (x - i)) ! y) = k)"
    if "ix_actions_by_key s' k = Some (x, y)" for k x y
    using actions [OF that]
  proof (elim disjE conjE)
    assume "ix_actions_by_key ?s1 k = Some (x, y)"
    then have "add_action_attachments i 0 (as_actions a) (ix_actions_by_key s) k = Some (x, y)" by simp
    from add_attachments_cases [OF this] show ?thesis by auto
  next
    assume x: "i + 1 \<le> x" "x < i + 1 + length act_sets" "y < length (as_actions (act_sets ! (x - (i + 1))))"
      "ar_act_key (as_actions (act_sets ! (x - (i + 1))) ! y) = k"
    then have "(a # act_sets) ! (x - i) = act_sets ! (x - (i + 1))" by (simp add: nth_Cons')
    with x show ?thesis by simp
  qed
  have "dom (ix_set_refs s') = dom (ix_set_refs s)" using r(5) ref by auto
  then show ?case
    using r(1-4) k1 a1 same by (intro exI [of _ s'] exI [of _ ?sets])
      (simp add: ref Let_def comp_def)
qed auto

lemma attach_ok:
  assumes ok: "session_ok acts env s" and sets: "\<forall>a \<in> set act_sets. set_known acts (ix_set_refs s) a"
    and profiles: "\<forall>p \<in> set profiles. profile_ok (ie_store env) p"
  shows "\<exists>s' r. oxr_xrAttachSessionActionSets profiles act_sets s = Inr (s', r) \<and> session_ok acts env s'
    \<and> dom (ix_set_refs s') = dom (ix_set_refs s)"
proof (cases "has_lost (ix_sess s) \<or> ix_sets s \<noteq> None \<or> act_sets = []")
  case True
  with ok show ?thesis
    by (auto simp: oxr_xrAttachSessionActionSets_def oxr_session_action_context_has_attached_act_sets_def)
next
  case False
  let ?s0 = "s\<lparr>ix_profiles := oxr_interaction_profile_array_clone profiles\<rparr>"
  from ok False have empty: "ix_sets_by_key s = Map.empty" "ix_actions_by_key s = Map.empty" by (auto simp: session_ok_def)
  have "\<forall>a \<in> set act_sets. set_known acts (ix_set_refs ?s0) a" using sets by simp
  from attach_sets_ok [of act_sets acts ?s0 0 "ix_devs s", OF this] obtain s1 out where r:
    "attach_sets 0 act_sets ?s0 = Inr (s1, out)" "map asa_act_set_ref out = map as_data act_sets"
    "map (\<lambda>asa. map aa_act_ref (asa_act_attachments asa)) out = map as_actions act_sets"
    "\<forall>asa \<in> set out. \<forall>aa \<in> set (asa_act_attachments asa). attachment_ok (ix_devs s) aa"
    "dom (ix_set_refs s1) = dom (ix_set_refs s)"
    and keys: "\<forall>k j. ix_sets_by_key s1 k = Some j \<longrightarrow> j < length act_sets \<and> asa_act_set_key (out ! j) = k"
    and actions: "\<forall>k x y. ix_actions_by_key s1 k = Some (x, y) \<longrightarrow> x < length act_sets
         \<and> y < length (as_actions (act_sets ! x)) \<and> ar_act_key (as_actions (act_sets ! x) ! y) = k"
    and same: "ix_devs s1 = ix_devs s" "ix_profiles s1 = oxr_interaction_profile_array_clone profiles"
    using empty by auto
  have len: "length out = length act_sets" using r(2) by (metis length_map)
  have refs: "map aa_act_ref (asa_act_attachments (out ! x)) = as_actions (act_sets ! x)" if "x < length act_sets" for x
    using r(3) that len by (metis (no_types, lifting) nth_map)
  have sets_ok: "sets_ok acts (ix_set_refs s1) (ix_devs s1) out"
    unfolding sets_ok_def
  proof
    fix asa assume "asa \<in> set out"
    then obtain x where x: "x < length act_sets" "asa = out ! x" using len by (auto simp: in_set_conv_nth)
    then have "as_data (act_sets ! x) = asa_act_set_ref asa" using r(2) len by (metis nth_map)
    moreover have known: "set_known acts (ix_set_refs s) (act_sets ! x)" using sets x(1) by simp
    ultimately have "asa_act_set_ref asa \<in> dom (ix_set_refs s1)" using r(5) by (auto simp: set_known_def)
    moreover have "acts (ar_act_key (aa_act_ref aa)) = Some (aa_act_ref aa)" if "aa \<in> set (asa_act_attachments asa)" for aa
    proof -
      from that x refs have "aa_act_ref aa \<in> set (as_actions (act_sets ! x))" by (metis image_eqI list.set_map)
      with known show ?thesis by (simp add: set_known_def)
    qed
    ultimately show "ix_set_refs s1 (asa_act_set_ref asa) \<noteq> None
      \<and> (\<forall>aa \<in> set (asa_act_attachments asa). attachment_ok (ix_devs s1) aa \<and> acts (ar_act_key (aa_act_ref aa)) = Some (aa_act_ref aa))"
      using r(4) \<open>asa \<in> set out\<close> same(1) by auto
  qed
  have "y < length (asa_act_attachments (out ! x)) \<and> ar_act_key (aa_act_ref (asa_act_attachments (out ! x) ! y)) = k"
    if "ix_actions_by_key s1 k = Some (x, y)" for k x y
  proof -
    from actions that have a: "x < length act_sets" "y < length (as_actions (act_sets ! x))" "ar_act_key (as_actions (act_sets ! x) ! y) = k"
      by auto
    from refs [OF a(1)] a(2) have "y < length (asa_act_attachments (out ! x))" by (metis length_map)
    with a refs [OF a(1)] show ?thesis by (metis nth_map)
  qed
  then have "maps_ok (ix_sets_by_key s1) (ix_actions_by_key s1) out"
    using keys actions len by (auto simp: maps_ok_def)
  moreover have "\<forall>p \<in> set (ix_profiles s1). attached_profile_ok (ie_store env) p"
    using profiles clone_ok by (auto simp: same oxr_interaction_profile_array_clone_def)
  ultimately have "session_ok acts env (s1\<lparr>ix_sets := Some out\<rparr>)"
    using ok sets_ok by (simp add: session_ok_def same)
  then show ?thesis
    using False r(1,5) by (simp add: oxr_xrAttachSessionActionSets_def oxr_session_attach_action_sets_def
        oxr_session_action_context_has_attached_act_sets_def Let_def)
qed

section \<open>Ending a session\<close>

lemma teardown_sets_by_key:
  "ix_sets_by_key (fold oxr_action_set_attachment_teardown sets s) k
     = (if k \<in> asa_act_set_key ` set sets then None else ix_sets_by_key s k)"
  by (induction sets arbitrary: s) (auto simp: oxr_action_set_attachment_teardown_def)

text \<open>The assertion of the teardown holds: the map has no key but those of the attached sets.\<close>

lemma fini_ok:
  assumes "session_ok acts env s"
  shows "\<exists>s'. oxr_session_action_context_fini s = Inr s' \<and> ix_sets s' = None \<and> ix_sets_by_key s' = Map.empty"
proof (cases "ix_sets s")
  case None
  with assms show ?thesis by (auto simp: oxr_session_action_context_fini_def session_ok_def Let_def)
next
  case (Some sets)
  with assms have "maps_ok (ix_sets_by_key s) (ix_actions_by_key s) sets" by (simp add: session_ok_def)
  then have "k \<in> asa_act_set_key ` set sets" if "ix_sets_by_key s k \<noteq> None" for k
    using that by (force simp: maps_ok_def)
  then have "ix_sets_by_key (fold oxr_action_set_attachment_teardown sets (s\<lparr>ix_profiles := []\<rparr>)) = Map.empty"
    by (force simp: teardown_sets_by_key)
  with Some show ?thesis by (simp add: oxr_session_action_context_fini_def Let_def)
qed

section \<open>Paths of the application\<close>

text \<open>
  A path the store can answer for: the null path, which is not looked up, an id it gave out, or one past its
  array. For the other ids the store reads memory that was never written.
\<close>

definition path_known :: "path_store \<Rightarrow> XrPath \<Rightarrow> bool" where
  "path_known store x \<longleftrightarrow> x = XR_NULL_PATH \<or> (\<exists>r. oxr_path_store_get_string store x = Inr r)"

lemma path_error_known: "path_known store x \<Longrightarrow> x \<noteq> XR_NULL_PATH \<Longrightarrow> path_error store x r = Inr r"
  by (auto simp: path_known_def path_error_def)

lemma verify_get_known:
  assumes "path_known store path"
  shows "\<exists>ret sp. oxr_verify_subaction_path_get store cache path act = Inr (ret, sp) \<and> (ret = XR_SUCCESS \<longrightarrow> sp \<noteq> None)"
proof (cases "path = XR_NULL_PATH")
  case True
  then show ?thesis by (simp add: oxr_verify_subaction_path_get_def no_subaction_paths_def)
next
  case False
  have "\<exists>ret sp. (case found of None \<Rightarrow> Inr (a, None) | Some sp' \<Rightarrow> if fail sp' then Inr (b, None) else Inr (XR_SUCCESS, Some sp'))
      = Inr (ret, sp) \<and> (ret = XR_SUCCESS \<longrightarrow> sp \<noteq> None)"
    if "a \<noteq> XR_SUCCESS" "b \<noteq> XR_SUCCESS" for a b and fail :: "oxr_subaction_paths \<Rightarrow> bool" and found
    by (cases found) (use that in auto)
  then show ?thesis
    unfolding oxr_verify_subaction_path_get_def Let_def path_error_known [OF assms False] try_bind_Inr
    by (rule meta_mp) simp_all
qed

lemma verify_sync_known:
  assumes "path_known store path"
  shows "\<exists>ret. oxr_verify_subaction_path_sync store cache permitted path = Inr ret"
  using path_error_known [OF assms]
  by (cases "oxr_classify_subaction_path cache path") (auto simp: oxr_verify_subaction_path_sync_def)

lemma verify_sync_paths_ok:
  "\<forall>a \<in> set actives. ix_set_refs s (as_data (act_set a)) \<noteq> None \<and> path_known (ie_store env) (subactionPath a) \<Longrightarrow>
   \<exists>ret. verify_sync_paths env s actives = Inr ret"
proof (induction actives)
  case (Cons a actives)
  from Cons.prems obtain ref where "ix_set_refs s (as_data (act_set a)) = Some ref" by auto
  moreover from Cons.prems verify_sync_known obtain ret where
    "oxr_verify_subaction_path_sync (ie_store env) (ie_cache env) (sr_permitted_subaction_paths ref) (subactionPath a) = Inr ret"
    by (meson list.set_intros(1))
  ultimately show ?case using Cons by auto
qed simp

section \<open>Synchronising keeps the action sets\<close>

lemma request_paths_refs:
  "request_paths cache actives s = Inr (s', r) \<Longrightarrow> ix_set_refs s' = ix_set_refs s"
proof (induction actives arbitrary: s)
  case (Cons a actives)
  from Cons.prems show ?case
    by (auto simp: try_bind_def Let_def split: option.splits sum.splits prod.splits bool.splits if_splits dest: Cons.IH)
qed simp

lemma update_bindings_refs:
  "session_update_action_bindings env roles s = Inr (s', b) \<Longrightarrow> ix_set_refs s' = ix_set_refs s"
  by (auto simp: session_update_action_bindings_def try_bind_def split: sum.splits option.splits prod.splits)

lemma sync_bindings_refs: "sync_bindings env roles s = Inr s' \<Longrightarrow> ix_set_refs s' = ix_set_refs s"
  by (auto simp: sync_bindings_def try_bind_def split: sum.splits if_splits dest!: update_bindings_refs)

lemma sync_data_refs:
  assumes "oxr_action_sync_data env senv actives priorities s = Inr (s', r)"
  shows "ix_set_refs s' = ix_set_refs s"
  using assms
  by (auto simp: oxr_action_sync_data_def try_bind_def Let_def split: sum.splits if_splits prod.splits
      dest!: sync_bindings_refs request_paths_refs)

lemma sync_ok:
  assumes ok: "session_ok acts env s" and drv: "driver_ok (se_update senv)"
    and known: "\<forall>a \<in> set actives. ix_set_refs s (as_data (act_set a)) \<noteq> None \<and> path_known (ie_store env) (subactionPath a)"
  shows "\<exists>s' r. oxr_xrSyncActions env senv ext actives priorities s = Inr (s', r) \<and> session_ok acts env s'
    \<and> ix_set_refs s' = ix_set_refs s"
proof -
  from verify_sync_paths_ok [OF known] obtain ret where "verify_sync_paths env s actives = Inr ret" by blast
  moreover from sync_data_ok [OF ok drv, of actives priorities] obtain s' r where
    "oxr_action_sync_data env senv actives priorities s = Inr (s', r)" "session_ok acts env s'" by blast
  ultimately show ?thesis
    using ok sync_data_refs [of env senv actives priorities s s' r] by (auto simp: oxr_xrSyncActions_def)
qed

section \<open>Reading and vibrating\<close>

text \<open>What the map finds for an action is an attachment of that action.\<close>

lemma find_attachment_ok:
  assumes ok: "session_ok acts env s" and act: "acts (ar_act_key act) = Some act"
    and found: "oxr_session_attached_actions_find s (ar_act_key act) = Some p"
  shows "\<exists>sets aa. ix_sets s = Some sets \<and> fst p < length sets \<and> snd p < length (asa_act_attachments (sets ! fst p))
    \<and> aa = asa_act_attachments (sets ! fst p) ! snd p \<and> get_attachment s p = Inr aa
    \<and> aa_act_ref aa = act \<and> attachment_ok (ix_devs s) aa"
proof -
  obtain i j where p: "p = (i, j)" by (rule prod.exhaust)
  with found have f: "ix_actions_by_key s (ar_act_key act) = Some (i, j)" by (simp add: oxr_session_attached_actions_find_def)
  with ok obtain sets where sets: "ix_sets s = Some sets" by (cases "ix_sets s") (auto simp: session_ok_def)
  with ok have inv: "sets_ok acts (ix_set_refs s) (ix_devs s) sets" "maps_ok (ix_sets_by_key s) (ix_actions_by_key s) sets"
    by (auto simp: session_ok_def)
  from inv(2) f have ij: "i < length sets" "j < length (asa_act_attachments (sets ! i))"
    "ar_act_key (aa_act_ref (asa_act_attachments (sets ! i) ! j)) = ar_act_key act" by (auto simp: maps_ok_def)
  let ?aa = "asa_act_attachments (sets ! i) ! j"
  from ij(1,2) have "sets ! i \<in> set sets" "?aa \<in> set (asa_act_attachments (sets ! i))" by simp_all
  with inv(1) have "attachment_ok (ix_devs s) ?aa" "acts (ar_act_key (aa_act_ref ?aa)) = Some (aa_act_ref ?aa)"
    unfolding sets_ok_def by blast+
  moreover from this(2) act ij(3) have "aa_act_ref ?aa = act" by (metis option.inject)
  moreover from sets ij(1,2) p have "get_attachment s p = Inr ?aa" by (simp add: get_attachment_def get_set_def)
  ultimately show ?thesis using sets ij(1,2) p by auto
qed

lemma read_member_ok:
  assumes "state_fits t st" "t \<in> {XR_ACTION_TYPE_BOOLEAN_INPUT, XR_ACTION_TYPE_FLOAT_INPUT, XR_ACTION_TYPE_VECTOR2F_INPUT}"
  shows "\<exists>v. read_member t (st_value st) = Inr v"
  using assms by (auto simp: read_member_def state_fits_def action_value_def)

lemma fill_state_ok:
  assumes "t \<in> {XR_ACTION_TYPE_BOOLEAN_INPUT, XR_ACTION_TYPE_FLOAT_INPUT, XR_ACTION_TYPE_VECTOR2F_INPUT}"
  shows "\<forall>f \<in> set fs. state_fits t (snd f) \<Longrightarrow> \<exists>data'. fill_state env t fs data = Inr data'"
proof (induction fs arbitrary: data)
  case (Cons f fs)
  have "\<exists>d. (if fst f \<and> st_active (snd f) then get_xr_state_from_action_state env t (snd f) else Inr data) = Inr d"
    using read_member_ok [OF _ assms, of "snd f"] Cons.prems by (auto simp: get_xr_state_from_action_state_def)
  with Cons show ?case by auto
qed simp

lemma get_state_ok:
  assumes ok: "session_ok acts env s" and act: "acts (ar_act_key act) = Some act" and path: "path_known (ie_store env) path"
    and t: "t \<in> {XR_ACTION_TYPE_BOOLEAN_INPUT, XR_ACTION_TYPE_FLOAT_INPUT, XR_ACTION_TYPE_VECTOR2F_INPUT}"
  shows "\<exists>r. oxr_xrGetActionState env s t act path = Inr r"
proof -
  have "\<exists>r. oxr_action_get_state env s t (ar_act_key act) sp = Inr r" if "ar_action_type act = t" for sp
  proof (cases "oxr_session_attached_actions_find s (ar_act_key act)")
    case None
    then show ?thesis by (simp add: oxr_action_get_state_def)
  next
    case (Some p)
    from find_attachment_ok [OF ok act Some] obtain aa where
      aa: "get_attachment s p = Inr aa" "aa_act_ref aa = act" "attachment_ok (ix_devs s) aa" by blast
    then have "\<forall>f \<in> set (filler_states sp aa). state_fits t (snd f)"
      by (auto simp: filler_states_def attachment_ok_def cache_ok_def that)
    from fill_state_ok [OF t this, of env reset_state] Some aa(1) show ?thesis by (auto simp: oxr_action_get_state_def)
  qed
  moreover from verify_get_known [OF path, of "ie_cache env" "ar_subaction_paths act"] obtain ret sp where
    "oxr_verify_subaction_path_get (ie_store env) (ie_cache env) path (ar_subaction_paths act) = Inr (ret, sp)"
    "ret = XR_SUCCESS \<longrightarrow> sp \<noteq> None" by blast
  ultimately show ?thesis by (auto simp: oxr_xrGetActionState_def)
qed

lemma get_pose_ok:
  assumes ok: "session_ok acts env s" and act: "acts (ar_act_key act) = Some act" and path: "path_known (ie_store env) path"
  shows "\<exists>r. oxr_xrGetActionStatePose env s act path = Inr r"
proof -
  have "\<exists>r. oxr_action_get_pose s (ar_act_key act) sp = Inr r" for sp
    using find_attachment_ok [OF ok act] by (fastforce simp: oxr_action_get_pose_def Let_def split: option.splits)
  moreover from verify_get_known [OF path, of "ie_cache env" "ar_subaction_paths act"] obtain ret sp where
    "oxr_verify_subaction_path_get (ie_store env) (ie_cache env) path (ar_subaction_paths act) = Inr (ret, sp)"
    "ret = XR_SUCCESS \<longrightarrow> sp \<noteq> None" by blast
  ultimately show ?thesis by (auto simp: oxr_xrGetActionStatePose_def)
qed

lemma get_pose_input_ok:
  assumes ok: "session_ok acts env s" and act: "acts (ar_act_key act) = Some act"
  shows "\<exists>r. oxr_action_get_pose_input s (ar_act_key act) sp = Inr r"
  using find_attachment_ok [OF ok act] by (fastforce simp: oxr_action_get_pose_input_def Let_def split: option.splits)

text \<open>A pass over the caches changes no action and keeps the attachment good.\<close>

lemma on_caches_ok:
  assumes "\<And>c. cache_ok devs t c \<Longrightarrow> cache_ok devs t (fst (f c))"
  shows "attachment_ok devs aa \<Longrightarrow> ar_action_type (aa_act_ref aa) = t \<Longrightarrow>
    attachment_ok devs (fst (on_caches f paths ps aa)) \<and> aa_act_ref (fst (on_caches f paths ps aa)) = aa_act_ref aa"
proof (induction ps arbitrary: aa)
  case (Cons path ps)
  show ?case
  proof (cases "haptic_selected aa paths path")
    case True
    obtain c calls where c: "f (aa_caches aa path) = (c, calls)" by (rule prod.exhaust)
    from Cons.prems assms [of "aa_caches aa path"] c have "attachment_ok devs (aa\<lparr>aa_caches := (aa_caches aa)(path := c)\<rparr>)"
      by (simp add: attachment_ok_def)
    from Cons.IH [OF this] Cons.prems(2) True c show ?thesis by (simp add: Let_def split_beta del: fun_upd_apply)
  next
    case False
    with Cons show ?thesis by (simp add: Let_def split_beta)
  qed
qed simp

lemma cache_vibration_ok: "cache_ok devs t c \<Longrightarrow> cache_ok devs t (fst (set_action_output_vibration c stop data))"
  by (simp add: set_action_output_vibration_def cache_ok_def)

lemma cache_stop_ok: "cache_ok devs t c \<Longrightarrow> cache_ok devs t (fst (oxr_action_cache_stop_output c))"
  by (simp add: oxr_action_cache_stop_output_def cache_ok_def)

text \<open>Putting back an attachment of the same action.\<close>

lemma put_attachment_ok:
  assumes ok: "session_ok acts env s" and act: "acts (ar_act_key act) = Some act"
    and found: "oxr_session_attached_actions_find s (ar_act_key act) = Some p"
    and aa: "aa_act_ref aa = act" "attachment_ok (ix_devs s) aa"
  shows "\<exists>s'. put_attachment s p aa = Inr s' \<and> session_ok acts env s' \<and> ix_set_refs s' = ix_set_refs s
    \<and> ix_sess s' = ix_sess s \<and> ix_outputs s' = ix_outputs s"
proof -
  obtain i j where p: "p = (i, j)" by (rule prod.exhaust)
  from find_attachment_ok [OF ok act found] p obtain sets where
    s: "ix_sets s = Some sets" "i < length sets" "j < length (asa_act_attachments (sets ! i))"
    and old: "aa_act_ref (asa_act_attachments (sets ! i) ! j) = act" by auto
  let ?aas = "(asa_act_attachments (sets ! i))[j := aa]"
  let ?asa = "(sets ! i)\<lparr>asa_act_attachments := ?aas\<rparr>"
  have same: "map aa_act_ref ?aas = map aa_act_ref (asa_act_attachments (sets ! i))"
    using aa(1) old s(3) by (simp add: map_update list_update_same_conv)
  have shape: "list_all2 same_shape sets (sets[i := ?asa])"
    unfolding list_all2_conv_all_nth
  proof (intro conjI allI impI)
    fix k assume "k < length sets"
    then show "same_shape (sets ! k) (sets[i := ?asa] ! k)" using same by (cases "i = k") (simp_all add: same_shape_def)
  qed simp
  from ok s(1) have inv: "sets_ok acts (ix_set_refs s) (ix_devs s) sets" by (simp add: session_ok_def)
  have asa: "sets ! i \<in> set sets" using s(2) by simp
  have "sets_ok acts (ix_set_refs s) (ix_devs s) (sets[i := ?asa])"
    unfolding sets_ok_def
  proof
    fix asa assume "asa \<in> set (sets[i := ?asa])"
    then have "asa \<in> set sets \<or> asa = ?asa" using set_update_subset_insert [of sets i ?asa] by auto
    then show "ix_set_refs s (asa_act_set_ref asa) \<noteq> None
      \<and> (\<forall>aa \<in> set (asa_act_attachments asa). attachment_ok (ix_devs s) aa \<and> acts (ar_act_key (aa_act_ref aa)) = Some (aa_act_ref aa))"
    proof
      assume "asa \<in> set sets"
      with inv show ?thesis unfolding sets_ok_def by blast
    next
      assume new: "asa = ?asa"
      have "attachment_ok (ix_devs s) x \<and> acts (ar_act_key (aa_act_ref x)) = Some (aa_act_ref x)" if "x \<in> set ?aas" for x
      proof -
        have "x \<in> set (asa_act_attachments (sets ! i)) \<or> x = aa"
          using that set_update_subset_insert [of "asa_act_attachments (sets ! i)" j aa] by auto
        with inv asa aa act show ?thesis unfolding sets_ok_def by blast
      qed
      moreover from inv asa have "ix_set_refs s (asa_act_set_ref (sets ! i)) \<noteq> None" unfolding sets_ok_def by blast
      ultimately show ?thesis using new by simp
    qed
  qed
  from session_ok_sets [OF ok s(1) this shape] show ?thesis
    using p s by (simp add: put_attachment_def)
qed

lemma apply_feedback_ok:
  assumes ok: "session_ok acts env s" and act: "acts (ar_act_key act) = Some act"
    and time: "- (2 ^ 63) \<le> now + max 100000000 (vib_duration data)" "now + max 100000000 (vib_duration data) < 2 ^ 63"
    and now: "0 \<le> now"
  shows "\<exists>s' r. oxr_action_apply_haptic_feedback now (ar_act_key act) sp data s = Inr (s', r) \<and> session_ok acts env s'
    \<and> ix_set_refs s' = ix_set_refs s"
proof (cases "oxr_session_attached_actions_find s (ar_act_key act)")
  case None
  with ok show ?thesis by (simp add: oxr_action_apply_haptic_feedback_def)
next
  case (Some p)
  from find_attachment_ok [OF ok act Some] obtain aa where
    aa: "get_attachment s p = Inr aa" "aa_act_ref aa = act" "attachment_ok (ix_devs s) aa" by blast
  define d where "d = (if vib_duration data \<le> 0 then 100000000 else vib_duration data)"
  have stop: "(if vib_duration data \<le> 0 then add_int64 now 100000000 else add_int64 now (vib_duration data)) = Inr (now + d)"
    using time now by (auto simp: add_int64_def d_def)
  let ?f = "\<lambda>c. set_action_output_vibration c (now + d) data"
  obtain aa1 calls where c: "on_caches ?f sp all_subaction_paths aa = (aa1, calls)" by (rule prod.exhaust)
  from on_caches_ok [of "ix_devs s" "ar_action_type act" ?f aa sp all_subaction_paths, OF cache_vibration_ok aa(3)] aa(2) c
  have "attachment_ok (ix_devs s) aa1" "aa_act_ref aa1 = act" by auto
  from put_attachment_ok [OF ok act Some this(2,1)] obtain s' where
    s': "put_attachment s p aa1 = Inr s'" "session_ok acts env s'" "ix_set_refs s' = ix_set_refs s" by blast
  with ok Some aa(1) c stop show ?thesis by (simp add: oxr_action_apply_haptic_feedback_def)
qed

lemma stop_feedback_ok:
  assumes ok: "session_ok acts env s" and act: "acts (ar_act_key act) = Some act"
  shows "\<exists>s' r. oxr_action_stop_haptic_feedback (ar_act_key act) sp s = Inr (s', r) \<and> session_ok acts env s'
    \<and> ix_set_refs s' = ix_set_refs s"
proof (cases "oxr_session_attached_actions_find s (ar_act_key act)")
  case None
  with ok show ?thesis by (simp add: oxr_action_stop_haptic_feedback_def)
next
  case (Some p)
  from find_attachment_ok [OF ok act Some] obtain aa where
    aa: "get_attachment s p = Inr aa" "aa_act_ref aa = act" "attachment_ok (ix_devs s) aa" by blast
  obtain aa1 calls where c: "on_caches oxr_action_cache_stop_output sp all_subaction_paths aa = (aa1, calls)" by (rule prod.exhaust)
  from on_caches_ok [of "ix_devs s" "ar_action_type act" oxr_action_cache_stop_output aa sp all_subaction_paths, OF cache_stop_ok aa(3)] aa(2) c
  have "attachment_ok (ix_devs s) aa1" "aa_act_ref aa1 = act" by auto
  from put_attachment_ok [OF ok act Some this(2,1)] obtain s' where
    s': "put_attachment s p aa1 = Inr s'" "session_ok acts env s'" "ix_set_refs s' = ix_set_refs s" by blast
  with ok Some aa(1) c show ?thesis by (simp add: oxr_action_stop_haptic_feedback_def)
qed

section \<open>Runs of calls\<close>

text \<open>
  What an application does with the actions of a session. \<open>RestOfRuntime\<close> is whatever else happens to the session
  between the calls, and \<open>NewActionSet\<close> is the data of an action set that is created.
\<close>

datatype input_call =
    CallAttach "oxr_interaction_profile list" "oxr_action_set list"
  | CallSync sync_env bool "XrActiveActionSet list" "XrActiveActionSetPriorityEXT list option"
  | CallGetState XrActionType oxr_action_ref XrPath
  | CallGetPose oxr_action_ref XrPath
  | CallLocate oxr_action_ref oxr_subaction_paths
  | CallVibrate int oxr_action_ref XrPath vibration
  | CallStop oxr_action_ref XrPath
  | RestOfRuntime session
  | NewActionSet addr oxr_action_set_ref

fun input_step :: "input_env \<Rightarrow> input_call \<Rightarrow> input_session \<Rightarrow> fault + input_session" where
  "input_step env (CallAttach profiles sets) s =
     try_bind (oxr_xrAttachSessionActionSets profiles sets s) (\<lambda>(s', _). Inr s')"
| "input_step env (CallSync senv ext actives priorities) s =
     try_bind (oxr_xrSyncActions env senv ext actives priorities s) (\<lambda>(s', _). Inr s')"
| "input_step env (CallGetState t act path) s = try_bind (oxr_xrGetActionState env s t act path) (\<lambda>_. Inr s)"
| "input_step env (CallGetPose act path) s = try_bind (oxr_xrGetActionStatePose env s act path) (\<lambda>_. Inr s)"
| "input_step env (CallLocate act paths) s = try_bind (oxr_action_get_pose_input s (ar_act_key act) paths) (\<lambda>_. Inr s)"
| "input_step env (CallVibrate now act path data) s =
     try_bind (oxr_xrApplyHapticFeedback env now act path data s) (\<lambda>(s', _). Inr s')"
| "input_step env (CallStop act path) s = try_bind (oxr_xrStopHapticFeedback env act path s) (\<lambda>(s', _). Inr s')"
| "input_step env (RestOfRuntime sess) s = Inr (s\<lparr>ix_sess := sess\<rparr>)"
| "input_step env (NewActionSet a ref) s = Inr (s\<lparr>ix_set_refs := (ix_set_refs s)(a \<mapsto> ref)\<rparr>)"

primrec run_input :: "input_env \<Rightarrow> input_call list \<Rightarrow> input_session \<Rightarrow> fault + input_session" where
  "run_input env [] s = Inr s"
| "run_input env (c # cs) s = try_bind (input_step env c s) (run_input env cs)"

text \<open>
  What the caller owes: handles of objects that exist, paths the store can answer for, and an end of the vibration that
  the clock can represent. \<open>known\<close> are the addresses of the action sets.
\<close>

fun call_ok :: "(nat \<Rightarrow> oxr_action_ref option) \<Rightarrow> input_env \<Rightarrow> addr set \<Rightarrow> input_call \<Rightarrow> bool" where
  "call_ok acts env known (CallAttach profiles sets) \<longleftrightarrow>
     (\<forall>p \<in> set profiles. profile_ok (ie_store env) p)
     \<and> (\<forall>a \<in> set sets. as_data a \<in> known \<and> (\<forall>act \<in> set (as_actions a). acts (ar_act_key act) = Some act))"
| "call_ok acts env known (CallSync senv ext actives priorities) \<longleftrightarrow>
     driver_ok (se_update senv) \<and> (\<forall>a \<in> set actives. as_data (act_set a) \<in> known \<and> path_known (ie_store env) (subactionPath a))"
| "call_ok acts env known (CallGetState t act path) \<longleftrightarrow>
     t \<in> {XR_ACTION_TYPE_BOOLEAN_INPUT, XR_ACTION_TYPE_FLOAT_INPUT, XR_ACTION_TYPE_VECTOR2F_INPUT}
     \<and> acts (ar_act_key act) = Some act \<and> path_known (ie_store env) path"
| "call_ok acts env known (CallGetPose act path) \<longleftrightarrow> acts (ar_act_key act) = Some act \<and> path_known (ie_store env) path"
| "call_ok acts env known (CallLocate act paths) \<longleftrightarrow> acts (ar_act_key act) = Some act"
| "call_ok acts env known (CallVibrate now act path data) \<longleftrightarrow>
     acts (ar_act_key act) = Some act \<and> path_known (ie_store env) path
     \<and> 0 \<le> now \<and> now + max 100000000 (vib_duration data) < 2 ^ 63"
| "call_ok acts env known (CallStop act path) \<longleftrightarrow> acts (ar_act_key act) = Some act \<and> path_known (ie_store env) path"
| "call_ok acts env known (RestOfRuntime sess) \<longleftrightarrow> True"
| "call_ok acts env known (NewActionSet a ref) \<longleftrightarrow> True"

fun known_after :: "input_call \<Rightarrow> addr set \<Rightarrow> addr set" where
  "known_after (NewActionSet a ref) known = insert a known"
| "known_after c known = known"

primrec calls_ok :: "(nat \<Rightarrow> oxr_action_ref option) \<Rightarrow> input_env \<Rightarrow> addr set \<Rightarrow> input_call list \<Rightarrow> bool" where
  "calls_ok acts env known [] \<longleftrightarrow> True"
| "calls_ok acts env known (c # cs) \<longleftrightarrow> call_ok acts env known c \<and> calls_ok acts env (known_after c known) cs"

lemma session_ok_refs:
  assumes "session_ok acts env s"
  shows "session_ok acts env (s\<lparr>ix_set_refs := (ix_set_refs s)(a \<mapsto> ref)\<rparr>)"
  using assms by (cases "ix_sets s") (auto simp: session_ok_def sets_ok_def)

lemma verified_call_ok:
  assumes path: "path_known (ie_store env) path"
    and call: "\<And>sp. \<exists>s' r. f sp = Inr (s', r) \<and> P s'" and "P s"
  shows "\<exists>s' r. try_bind (oxr_verify_subaction_path_get (ie_store env) (ie_cache env) path act) (\<lambda>(ret, paths).
        if ret \<noteq> XR_SUCCESS then Inr (s, ret) else if b then Inr (s, e) else try_bind (not_null paths) f) = Inr (s', r) \<and> P s'"
proof -
  from verify_get_known [OF path] obtain ret sp where
    v: "oxr_verify_subaction_path_get (ie_store env) (ie_cache env) path act = Inr (ret, sp)" "ret = XR_SUCCESS \<longrightarrow> sp \<noteq> None" by blast
  then consider "ret \<noteq> XR_SUCCESS \<or> b" | x where "ret = XR_SUCCESS" "sp = Some x" "\<not> b" by auto
  then show ?thesis
    by cases (use v assms(3) call in auto)
qed

lemma input_step_ok:
  assumes ok: "session_ok acts env s" and call: "call_ok acts env (dom (ix_set_refs s)) c"
  shows "\<exists>s'. input_step env c s = Inr s' \<and> session_ok acts env s' \<and> dom (ix_set_refs s') = known_after c (dom (ix_set_refs s))"
proof (cases c)
  case (CallAttach profiles sets)
  with call have "\<forall>a \<in> set sets. set_known acts (ix_set_refs s) a" "\<forall>p \<in> set profiles. profile_ok (ie_store env) p"
    by (auto simp: set_known_def)
  from attach_ok [OF ok this] CallAttach show ?thesis by auto
next
  case (CallSync senv ext actives priorities)
  with call have "driver_ok (se_update senv)"
    "\<forall>a \<in> set actives. ix_set_refs s (as_data (act_set a)) \<noteq> None \<and> path_known (ie_store env) (subactionPath a)" by auto
  from sync_ok [OF ok this] obtain s' r where
    "oxr_xrSyncActions env senv ext actives priorities s = Inr (s', r)" "session_ok acts env s'" "ix_set_refs s' = ix_set_refs s" by blast
  with CallSync show ?thesis by simp
next
  case (CallGetState t act path)
  with call get_state_ok [OF ok, of act path t] ok show ?thesis by auto
next
  case (CallGetPose act path)
  with call get_pose_ok [OF ok, of act path] ok show ?thesis by auto
next
  case (CallLocate act paths)
  with call get_pose_input_ok [OF ok, of act paths] ok show ?thesis by auto
next
  case (CallVibrate now act path data)
  with call have v: "acts (ar_act_key act) = Some act" "path_known (ie_store env) path"
    "0 \<le> now" "now + max 100000000 (vib_duration data) < 2 ^ 63" by auto
  then have "- (2 ^ 63) \<le> now + max 100000000 (vib_duration data)" by simp
  from verified_call_ok [where P = "\<lambda>s'. session_ok acts env s' \<and> ix_set_refs s' = ix_set_refs s",
      OF v(2) apply_feedback_ok [OF ok v(1) this v(4,3)]]
  have "\<exists>s' r. oxr_xrApplyHapticFeedback env now act path data s = Inr (s', r) \<and> session_ok acts env s' \<and> ix_set_refs s' = ix_set_refs s"
    using ok by (simp add: oxr_xrApplyHapticFeedback_def)
  with CallVibrate show ?thesis by auto
next
  case (CallStop act path)
  with call have v: "acts (ar_act_key act) = Some act" "path_known (ie_store env) path" by auto
  from verified_call_ok [where P = "\<lambda>s'. session_ok acts env s' \<and> ix_set_refs s' = ix_set_refs s",
      OF v(2) stop_feedback_ok [OF ok v(1)]]
  have "\<exists>s' r. oxr_xrStopHapticFeedback env act path s = Inr (s', r) \<and> session_ok acts env s' \<and> ix_set_refs s' = ix_set_refs s"
    using ok by (simp add: oxr_xrStopHapticFeedback_def)
  with CallStop show ?thesis by auto
next
  case (RestOfRuntime sess)
  with ok show ?thesis by simp
next
  case (NewActionSet a ref)
  with session_ok_refs [OF ok] show ?thesis by auto
qed

lemma run_input_ok:
  "session_ok acts env s \<Longrightarrow> calls_ok acts env (dom (ix_set_refs s)) cs \<Longrightarrow>
   \<exists>s'. run_input env cs s = Inr s' \<and> session_ok acts env s'"
proof (induction cs arbitrary: s)
  case (Cons c cs)
  from Cons.prems have "call_ok acts env (dom (ix_set_refs s)) c" by simp
  from input_step_ok [OF Cons.prems(1) this] obtain s1 where
    "input_step env c s = Inr s1" "session_ok acts env s1" "dom (ix_set_refs s1) = known_after c (dom (ix_set_refs s))" by blast
  with Cons.IH [of s1] Cons.prems(2) show ?case by simp
qed simp

text \<open>A session as it is created, with the action sets and the devices that exist.\<close>

definition created_session :: "session \<Rightarrow> (addr \<Rightarrow> oxr_action_set_ref option) \<Rightarrow> devices \<Rightarrow> input_session" where
  "created_session sess refs devs =
     oxr_session_action_context_init
       \<lparr>ix_sess = sess, ix_sets_by_key = Map.empty, ix_sets = None, ix_profiles = [], ix_generation_id = 0,
        ix_profile_paths = (\<lambda>_. XR_NULL_PATH), ix_actions_by_key = Map.empty, ix_set_refs = refs, ix_devs = devs, ix_outputs = []\<rparr>"

lemma created_ok: "devices_ok devs \<Longrightarrow> env_ok env devs \<Longrightarrow> session_ok acts env (created_session sess refs devs)"
  by (simp add: session_ok_def created_session_def oxr_session_action_context_init_def)

lemma created_refs [simp]: "ix_set_refs (created_session sess refs devs) = refs"
  by (simp add: created_session_def oxr_session_action_context_init_def)

end
