(* ===== verification/Input_Properties.thy ===== *)
theory Input_Properties
  imports Input_Session Session_Invariant
begin

text \<open>
  What the actions of a session do: the value a cache gets from its inputs, which inputs are suppressed, when a vibration
  ends, which sources are enumerated, and where the code does not do what it says.
\<close>

section \<open>An example\<close>

text \<open>
  A controller with a button, its profile with one binding, and an application with one boolean action.
\<close>

definition sample_action :: oxr_action_ref where
  "sample_action = \<lparr>ar_act_key = 1, ar_action_type = XR_ACTION_TYPE_BOOLEAN_INPUT,
     ar_subaction_paths = no_subaction_paths\<lparr>sp_any := True\<rparr>\<rparr>"

definition sample_set :: oxr_action_set where
  "sample_set = \<lparr>as_data = 50, as_act_set_key = 1, as_actions = [sample_action]\<rparr>"

definition sample_set_ref :: oxr_action_set_ref where
  "sample_set_ref = \<lparr>sr_ever_attached = False, sr_act_set_key = 1, sr_priority = 0,
     sr_permitted_subaction_paths = no_subaction_paths\<lparr>sp_any := True\<rparr>\<rparr>"

definition sample_device :: xrt_device where
  "sample_device = \<lparr>xd_name = 7,
     xd_inputs = [\<lparr>in_active = True, in_timestamp = 5, in_name = (3, XRT_INPUT_TYPE_BOOLEAN), in_value = ValueBoolean True\<rparr>],
     xd_outputs = [], xd_binding_profiles = []\<rparr>"

definition sample_path :: "nat \<Rightarrow> string \<Rightarrow> oxr_path" where
  "sample_path n str = \<lparr>op_id = n, op_hash = 0, op_length = length str, op_c_str = str @ [NUL]\<rparr>"

definition sample_store :: path_store where
  "sample_store = \<lparr>ps_store = Some [(''/p'', 10), (''/user/hand/left/input/select/click'', 11)],
     ps_array = Some [Cell None, Cell (Some 10), Cell (Some 11)], ps_array_length = 3, ps_num = 3,
     ps_heap = [10 \<mapsto> sample_path 1 ''/p'', 11 \<mapsto> sample_path 2 ''/user/hand/left/input/select/click'']\<rparr>"

definition sample_profile :: oxr_interaction_profile where
  "sample_profile = \<lparr>ip_path = 1, ip_xname = 7, ip_localized_name = ''P'',
     ip_bindings = [\<lparr>b_paths = [2], b_localized_name = ''Select'', b_subaction_path = OXR_SUB_ACTION_PATH_LEFT, b_act_keys = [1],
       b_preferred_binding_path_index = [0], b_input = (3, XRT_INPUT_TYPE_BOOLEAN), b_dpad_activate = no_input_name, b_output = 0\<rparr>],
     ip_dpads = [], ip_dpad_state = None\<rparr>"

definition sample_input_env :: input_env where
  "sample_input_env = \<lparr>ie_store = sample_store,
     ie_cache = \<lparr>pc_left = 21, pc_right = 22, pc_head = 23, pc_gamepad = 24, pc_eyes = 25, pc_user = 26, pc_template_paths = [1]\<rparr>,
     ie_templates = [\<lparr>pt_name = 7, pt_localized_name = ''P'', pt_bindings = [], pt_dpads = [], pt_subpath_fn = (\<lambda>_. True),
       pt_dpad_path_fn = (\<lambda>_. False), pt_dpad_emulator_fn = (\<lambda>_. False), pt_ext_supported = True, pt_ext_enabled = True\<rparr>],
     ie_static_xdevs = [Some 1], ie_static_head = None, ie_static_eyes = None, ie_atan2f = (\<lambda>_ _. Fin 0),
     ie_monotonic_to_ts = (\<lambda>t. t)\<rparr>"

definition sample_roles :: xrt_system_roles where
  "sample_roles = \<lparr>ro_generation_id = 1, ro_left = 0, ro_right = - 1, ro_gamepad = - 1, ro_left_profile = 0,
     ro_right_profile = 0, ro_gamepad_profile = 0\<rparr>"

definition sample_sync :: sync_env where
  "sample_sync = \<lparr>se_roles = (XRT_SUCCESS, sample_roles), se_update = (\<lambda>a devs. (XRT_SUCCESS, devs)), se_now = 9\<rparr>"

definition sample_focused :: session where
  "sample_focused = (oxr_session_create sample_env 9 True True)\<lparr>sess_state := XR_SESSION_STATE_FOCUSED\<rparr>"

definition sample_calls :: "input_call list" where
  "sample_calls =
     [CallAttach [sample_profile] [sample_set], RestOfRuntime sample_focused,
      CallSync sample_sync False [\<lparr>act_set = sample_set, subactionPath = XR_NULL_PATH\<rparr>] None,
      CallGetState XR_ACTION_TYPE_BOOLEAN_INPUT sample_action XR_NULL_PATH]"

section \<open>No call faults\<close>


lemma sample_known: "text_ok sample_store 1" "text_ok sample_store 2"
  unfolding text_ok_def
  by (intro exI [of _ "''/p'' @ [NUL]"] exI [of _ 2], code_simp)
    (intro exI [of _ "''/user/hand/left/input/select/click'' @ [NUL]"] exI [of _ 34], code_simp)

lemma sample_ok:
  "devices_ok [1 \<mapsto> sample_device]" "env_ok sample_input_env [1 \<mapsto> sample_device]"
  "profile_ok (ie_store sample_input_env) sample_profile" "driver_ok (se_update sample_sync)"
  using sample_known
  by (auto simp: devices_ok_def sample_device_def value_fits_def env_ok_def sample_input_env_def profile_ok_def
      binding_ok_def sample_profile_def driver_ok_def sample_sync_def)

lemma sample_calls_ok: "calls_ok [1 \<mapsto> sample_action] sample_input_env (dom [50 \<mapsto> sample_set_ref]) sample_calls"
  using sample_ok by (simp add: sample_calls_def sample_set_def sample_action_def path_known_def)


section \<open>The value of a cache\<close>

text \<open>
  The value an input contributes to its cache: the transformed value, or none if the input is suppressed or not active.
\<close>

definition contribution ::
  "(c_float \<Rightarrow> c_float \<Rightarrow> c_float) \<Rightarrow> devices \<Rightarrow> (oxr_action_input \<Rightarrow> fault + bool) \<Rightarrow> oxr_action_input \<Rightarrow> xrt_input_value option" where
  "contribution atan2f devs suppressed ai =
     (case read_input devs (ai_input ai) of
        Inl e \<Rightarrow> None
      | Inr input \<Rightarrow>
          if suppressed ai \<noteq> Inr False \<or> \<not> in_active input then None
          else (case oxr_input_transform_process atan2f devs (ai_transforms ai)
                       \<lparr>tv_type = XRT_GET_INPUT_TYPE (in_name input), tv_value = in_value input\<rparr> of
                  Inr (_, Some out) \<Rightarrow> Some (tv_value out)
                | _ \<Rightarrow> None))"

text \<open>How large a value is for its action, and the value as the action stores it.\<close>

fun magnitude :: "XrActionType \<Rightarrow> xrt_input_value \<Rightarrow> c_float" where
  "magnitude XR_ACTION_TYPE_BOOLEAN_INPUT v = (if v = ValueBoolean True then Fin 1 else Fin 0)"
| "magnitude XR_ACTION_TYPE_VECTOR2F_INPUT (ValueVec2 x y) = flt_add (flt_mul x x) (flt_mul y y)"
| "magnitude XR_ACTION_TYPE_VECTOR2F_INPUT v = Fin 0"
| "magnitude _ v = flt_abs (float_of v)"

fun canon :: "XrActionType \<Rightarrow> xrt_input_value \<Rightarrow> xrt_input_value" where
  "canon XR_ACTION_TYPE_BOOLEAN_INPUT v = ValueBoolean (v = ValueBoolean True)"
| "canon XR_ACTION_TYPE_VECTOR2F_INPUT (ValueVec2 x y) = ValueVec2 x y"
| "canon XR_ACTION_TYPE_VECTOR2F_INPUT v = ValueVec2 (Fin 0) (Fin 0)"
| "canon _ v = ValueVec1 (float_of v)"

abbreviation state_types :: "XrActionType set" where
  "state_types \<equiv> {XR_ACTION_TYPE_BOOLEAN_INPUT, XR_ACTION_TYPE_FLOAT_INPUT, XR_ACTION_TYPE_VECTOR2F_INPUT}"

definition pick :: "XrActionType \<Rightarrow> xrt_input_value \<Rightarrow> xrt_input_value \<Rightarrow> xrt_input_value" where
  "pick t v r = (if flt_less (magnitude t r) (magnitude t v) then v else r)"

lemma round32_zero [simp]: "round32 0 = Fin 0"
  by (simp add: round32_def)

lemma magnitude_canon [simp]: "magnitude t (canon t v) = magnitude t v"
  by (cases t; cases v) simp_all

lemma canon_idem [simp]: "canon t (canon t v) = canon t v"
  by (cases t; cases v) simp_all

text \<open>Folding \<open>pick\<close> finds the largest.\<close>

lemma pick_grows: "r' = fold (pick t) vs r \<Longrightarrow> r' = r \<or> flt_less (magnitude t r) (magnitude t r')"
proof (induction vs arbitrary: r)
  case (Cons v vs)
  from Cons.IH [of "pick t v r"] Cons.prems show ?case
    by (auto simp: pick_def split: if_splits dest: flt_less_trans)
qed simp

lemma pick_largest:
  "fold (pick t) vs r \<in> insert r (set vs) \<and> (\<forall>w \<in> set vs. \<not> flt_less (magnitude t (fold (pick t) vs r)) (magnitude t w))"
proof (induction vs arbitrary: r)
  case (Cons v vs)
  let ?r' = "fold (pick t) vs (pick t v r)"
  from Cons.IH [of "pick t v r"] have "?r' \<in> insert (pick t v r) (set vs)" by simp
  then have "?r' \<in> insert r (set (v # vs))" by (auto simp: pick_def split: if_splits)
  moreover have "\<not> flt_less (magnitude t ?r') (magnitude t v)"
  proof
    assume less: "flt_less (magnitude t ?r') (magnitude t v)"
    from pick_grows [of ?r' t vs "pick t v r", OF refl] less
    have "flt_less (magnitude t (pick t v r)) (magnitude t v)" by (auto dest: flt_less_trans)
    then show False by (auto simp: pick_def split: if_splits)
  qed
  ultimately show ?case using Cons.IH [of "pick t v r"] by simp
qed simp

lemma less_not_nan: "flt_less a b \<Longrightarrow> b \<noteq> NaN"
  by (cases a) auto

lemma fold_pick_not_nan: "magnitude t r \<noteq> NaN \<Longrightarrow> magnitude t (fold (pick t) vs r) \<noteq> NaN"
  using pick_grows [of "fold (pick t) vs r" t vs r] less_not_nan by auto

text \<open>The code's step is \<open>pick\<close>, up to the representation of zero.\<close>

lemma fits_state_type:
  assumes "t \<in> state_types" "action_takes t u" "value_fits u v"
  shows "action_value t v"
  using value_fits_action [OF assms(2,3)] assms(1) by auto

lemma combine_value_pick:
  assumes t: "t \<in> state_types" and u: "action_takes t (tv_type v)" and v: "action_value t (tv_value v)"
    and r: "action_value t (tv_value (cb_value c))" and step: "combine_value input v c = Inr c'"
  shows "canon t (tv_value (cb_value c')) = canon t (pick t (tv_value v) (tv_value (cb_value c)))"
proof -
  from t consider "t = XR_ACTION_TYPE_BOOLEAN_INPUT" | "t = XR_ACTION_TYPE_FLOAT_INPUT" | "t = XR_ACTION_TYPE_VECTOR2F_INPUT" by auto
  then show ?thesis
  proof cases
    case 1
    with u have "tv_type v = XRT_INPUT_TYPE_BOOLEAN" by (simp add: action_takes_def oxr_type_matches_xrt_def)
    with 1 v r step show ?thesis by (auto simp: combine_value_def action_value_def pick_def Let_def)
  next
    case 2
    with u have "input_is_float (tv_type v)" "tv_type v \<noteq> XRT_INPUT_TYPE_BOOLEAN" "tv_type v \<noteq> XRT_INPUT_TYPE_VEC2_MINUS_ONE_TO_ONE"
      by (auto simp: action_takes_def oxr_type_matches_xrt_def input_is_float_def)
    then have "combine_value input v c = try_bind (value_vec1 (tv_value (cb_value c))) (\<lambda>r. try_bind (value_vec1 (tv_value v)) (\<lambda>t.
        Inr (if flt_less (flt_abs r) (flt_abs t)
             then c\<lparr>cb_value := \<lparr>tv_type = tv_type v, tv_value = ValueVec1 t\<rparr>, cb_timestamp := in_timestamp input\<rparr>
             else c\<lparr>cb_value := \<lparr>tv_type = tv_type v, tv_value = tv_value (cb_value c)\<rparr>\<rparr>)))"
      by (cases "tv_type v") (simp_all add: combine_value_def Let_def input_is_float_def cong: if_cong)
    with 2 v r step show ?thesis by (auto simp: action_value_def pick_def split: if_splits)
  next
    case 3
    with u have "tv_type v = XRT_INPUT_TYPE_VEC2_MINUS_ONE_TO_ONE" by (simp add: action_takes_def oxr_type_matches_xrt_def)
    with 3 v r step show ?thesis by (auto simp: combine_value_def action_value_def pick_def Let_def split: if_splits)
  qed
qed

lemma pick_canon: "canon t r = canon t r' \<Longrightarrow> canon t (pick t v r) = canon t (pick t v r')"
  by (metis magnitude_canon pick_def)

lemma fold_pick_canon: "canon t r = canon t r' \<Longrightarrow> canon t (fold (pick t) vs r) = canon t (fold (pick t) vs r')"
proof (induction vs arbitrary: r r')
  case (Cons v vs)
  from Cons.IH [OF pick_canon [OF Cons.prems]] show ?case by simp
qed simp

lemma combine_loop_value:
  assumes dev: "devices_ok devs" and sup: "\<And>ai. \<exists>b. suppressed ai = Inr b" and t: "t \<in> state_types"
  shows "\<forall>ai \<in> set ais. input_ok devs t ai \<Longrightarrow> combined_ok t c \<Longrightarrow>
    \<exists>ais' c'. combine_loop env devs suppressed ais c = Inr (ais', Some c') \<and> combined_ok t c'
      \<and> canon t (tv_value (cb_value c'))
          = canon t (fold (pick t) (List.map_filter (contribution (ie_atan2f env) devs suppressed) ais) (tv_value (cb_value c)))
      \<and> (cb_active c' \<longleftrightarrow> cb_active c \<or> List.map_filter (contribution (ie_atan2f env) devs suppressed) ais \<noteq> [])"
proof (induction ais arbitrary: c)
  case Nil
  then show ?case by (simp add: List.map_filter_def)
next
  case (Cons ai ais)
  from sup obtain b where b: "suppressed ai = Inr b" by blast
  from Cons.prems(1) read_ok obtain input where input: "read_input devs (ai_input ai) = Inr input" by fastforce
  show ?case
  proof (cases "b \<or> \<not> in_active input")
    case True
    then have "contribution (ie_atan2f env) devs suppressed ai = None" by (auto simp: contribution_def b input)
    with True Cons.IH [of c] Cons.prems b input show ?thesis by (auto simp: List.map_filter_def)
  next
    case False
    from process_ok [OF _ dev input, of t "ie_atan2f env"] Cons.prems(1) obtain xforms out where
      p: "oxr_input_transform_process (ie_atan2f env) devs (ai_transforms ai)
            \<lparr>tv_type = XRT_GET_INPUT_TYPE (in_name input), tv_value = in_value input\<rparr> = Inr (xforms, Some out)"
        "action_takes t (tv_type out)" "value_fits (tv_type out) (tv_value out)" by auto
    let ?c = "c\<lparr>cb_active := True\<rparr>"
    from False have con: "contribution (ie_atan2f env) devs suppressed ai = Some (tv_value out)"
      by (simp add: contribution_def b input p(1))
    from Cons.prems(2) have av: "action_value t (tv_value (cb_value ?c))" by (simp add: combined_ok_def)
    from combine_value_ok [OF p(2,3) av, of input] obtain c' where
      c': "combine_value input out ?c = Inr c'" "combined_ok t c'" "cb_active c'" by auto
    from combine_value_pick [OF t p(2) fits_state_type [OF t p(2,3)] av c'(1)]
    have "canon t (tv_value (cb_value c')) = canon t (pick t (tv_value out) (tv_value (cb_value c)))" by simp
    note val = fold_pick_canon [OF this]
    from Cons.IH [OF _ c'(2)] Cons.prems(1) obtain ais' c'' where
      "combine_loop env devs suppressed ais c' = Inr (ais', Some c'')" "combined_ok t c''" "cb_active c''"
      "canon t (tv_value (cb_value c''))
        = canon t (fold (pick t) (List.map_filter (contribution (ie_atan2f env) devs suppressed) ais) (tv_value (cb_value c')))"
      using c'(3) by auto
    with False b input p(1) c'(1) con val show ?thesis by (auto simp: List.map_filter_def)
  qed
qed

lemma add_nan [simp]: "flt_add x NaN = NaN"
  by (cases x) simp_all

lemma vec2_not_nan: "flt_add (flt_mul x x) (flt_mul y y) \<noteq> NaN \<Longrightarrow> x \<noteq> NaN \<and> y \<noteq> NaN"
  by (cases "x = NaN"; cases "y = NaN") auto

lemma store_canon:
  assumes t: "t \<in> state_types" and v: "action_takes t (tv_type v)" "action_value t (tv_value v)" "state_fits t prev"
    and nan: "magnitude t (tv_value v) \<noteq> NaN"
  shows "store_combined v prev current
    = Inr (Some (canon t (tv_value v) \<noteq> canon t (st_value prev), current\<lparr>st_value := canon t (tv_value v)\<rparr>))"
proof -
  from t consider "t = XR_ACTION_TYPE_BOOLEAN_INPUT" | "t = XR_ACTION_TYPE_FLOAT_INPUT" | "t = XR_ACTION_TYPE_VECTOR2F_INPUT" by auto
  then show ?thesis
  proof cases
    case 1
    with v(1) have "tv_type v = XRT_INPUT_TYPE_BOOLEAN" by (simp add: action_takes_def oxr_type_matches_xrt_def)
    with 1 v(2,3) show ?thesis by (auto simp: store_combined_def action_value_def state_fits_def)
  next
    case 2
    with v(1) have "tv_type v = XRT_INPUT_TYPE_VEC1_ZERO_TO_ONE \<or> tv_type v = XRT_INPUT_TYPE_VEC1_MINUS_ONE_TO_ONE"
      by (auto simp: action_takes_def oxr_type_matches_xrt_def input_is_float_def split: if_splits)
    moreover have "float_of (tv_value v) \<noteq> NaN" using nan 2 by (cases "tv_value v") auto
    ultimately show ?thesis using 2 v(2,3)
      by (auto simp: store_combined_def action_value_def state_fits_def input_is_float_def flt_eq_def)
  next
    case 3
    with v(1) have "tv_type v = XRT_INPUT_TYPE_VEC2_MINUS_ONE_TO_ONE" by (simp add: action_takes_def oxr_type_matches_xrt_def)
    with 3 v(2,3) nan show ?thesis
      by (auto simp: store_combined_def action_value_def state_fits_def flt_eq_def dest!: vec2_not_nan)
  qed
qed

text \<open>What the new state of a cache must be, given the contributed values and the previous state.\<close>

definition largest_of :: "XrActionType \<Rightarrow> xrt_input_value list \<Rightarrow> oxr_action_state \<Rightarrow> oxr_action_state \<Rightarrow> bool" where
  "largest_of t vs prev new \<longleftrightarrow>
     (if vs = [] then new = zero_state
      else st_active new
        \<and> st_value new \<in> canon t ` set (ValueZero # vs)
        \<and> (\<forall>w \<in> set vs. \<not> flt_less (magnitude t (st_value new)) (magnitude t w))
        \<and> (st_changed new \<longleftrightarrow> st_active prev \<and> st_value new \<noteq> canon t (st_value prev))
        \<and> (st_active prev \<and> \<not> st_changed new \<longrightarrow> st_timestamp new = st_timestamp prev))"

lemma stamp_simps [simp]:
  "st_value (stamp_state prev ch ts st) = st_value st"
  "st_active (stamp_state prev ch ts st) = st_active st"
  "st_changed (stamp_state prev ch ts st) = (st_active prev \<and> ch)"
  "st_active prev \<Longrightarrow> \<not> ch \<Longrightarrow> st_timestamp (stamp_state prev ch ts st) = st_timestamp prev"
  by (auto simp: stamp_state_def)

lemma magnitude_zero: "t \<in> state_types \<Longrightarrow> magnitude t ValueZero = Fin 0"
  by auto

lemma no_outputs: "cache_ok devs t c \<Longrightarrow> t \<in> state_types \<Longrightarrow> ca_outputs c = []"
  by (auto simp: cache_ok_def)

text \<open>
  The sum of the lemmas: combining the inputs of a cache and storing the result.
\<close>

lemma combined_state:
  assumes t: "t \<in> state_types" and c: "combined_ok t cb" and prev: "state_fits t prev"
    and val: "canon t (tv_value (cb_value cb)) = canon t (fold (pick t) vs ValueZero)"
    and act: "cb_active cb \<longleftrightarrow> vs \<noteq> []" and vs: "vs \<noteq> []"
  shows "\<exists>ch cur. store_combined (cb_value cb) prev (prev\<lparr>st_active := True\<rparr>) = Inr (Some (ch, cur))
    \<and> largest_of t vs prev (stamp_state prev ch ts cur)"
proof -
  from magnitude_canon val have m: "magnitude t (tv_value (cb_value cb)) = magnitude t (fold (pick t) vs ValueZero)" by metis
  have "magnitude t ValueZero \<noteq> NaN" using magnitude_zero [OF t] by simp
  then have "magnitude t (tv_value (cb_value cb)) \<noteq> NaN" using fold_pick_not_nan m by simp
  moreover from c act vs have "action_takes t (tv_type (cb_value cb))" "action_value t (tv_value (cb_value cb))"
    by (auto simp: combined_ok_def)
  ultimately have "store_combined (cb_value cb) prev (prev\<lparr>st_active := True\<rparr>)
    = Inr (Some (canon t (tv_value (cb_value cb)) \<noteq> canon t (st_value prev),
        prev\<lparr>st_active := True, st_value := canon t (tv_value (cb_value cb))\<rparr>))"
    using store_canon [OF t _ _ prev] by simp
  moreover from pick_largest [of t vs ValueZero] have "canon t (fold (pick t) vs ValueZero) \<in> canon t ` set (ValueZero # vs)" by auto
  ultimately show ?thesis
    using val pick_largest [of t vs ValueZero] vs by (simp add: largest_of_def)
qed

text \<open>
  C8. The value of an action. On a synchronisation of a focused session, the cache of a boolean, float or vector action with
  bound inputs becomes inactive if no input is active and unsuppressed. Otherwise it is active and its value
  is the largest in magnitude that those inputs contribute after their transforms: the logical or for booleans,
  the largest absolute value for floats, the longest for vectors (zero if none exceeds zero, and a value that is
  not a number never wins). It is marked as changed exactly if the cache was active before and the value
  differs, and keeps its time of change otherwise.
\<close>
theorem cache_takes_largest_input:
  assumes "session_ok acts env s" and "ix_set_refs s ref \<noteq> None" and "cache_ok (ix_devs s) t cache"
    and "t \<in> {XR_ACTION_TYPE_BOOLEAN_INPUT, XR_ACTION_TYPE_FLOAT_INPUT, XR_ACTION_TYPE_VECTOR2F_INPUT}"
    and "ca_inputs cache \<noteq> []" and "sess_state (ix_sess s) = XR_SESSION_STATE_FOCUSED"
  shows "\<exists>cache'. oxr_action_cache_update env s actives ref cache time subaction True priorities = Inr (cache', [])
    \<and> largest_of t
        (List.map_filter (contribution (ie_atan2f env) (ix_devs s) (\<lambda>ai. oxr_input_supressed s actives subaction ref ai priorities))
          (ca_inputs cache))
        (ca_current cache) (ca_current cache')"
proof -
  let ?sup = "\<lambda>ai. oxr_input_supressed s actives subaction ref ai priorities"
  let ?vs = "List.map_filter (contribution (ie_atan2f env) (ix_devs s) ?sup) (ca_inputs cache)"
  note t = assms(4)
  from assms(1) have dev: "devices_ok (ix_devs s)" by (simp add: session_ok_def)
  have sup: "\<exists>b. ?sup ai = Inr b" for ai by (rule suppressed_ok [OF assms(1,2)])
  from assms(3) have ins: "\<forall>ai \<in> set (ca_inputs cache). input_ok (ix_devs s) t ai" and prev: "state_fits t (ca_current cache)"
    by (simp_all add: cache_ok_def)
  obtain ai ais where inputs: "ca_inputs cache = ai # ais" using assms(5) by (cases "ca_inputs cache") auto
  with ins read_ok obtain input where i: "read_input (ix_devs s) (ai_input ai) = Inr input" by fastforce
  let ?c = "\<lparr>cb_value = zero_tagged, cb_timestamp = in_timestamp input, cb_active = False\<rparr>"
  have "combined_ok t ?c" by (simp add: combined_ok_def zero_tagged_def)
  from combine_loop_value [of "ix_devs s" ?sup t "ca_inputs cache" ?c env, OF dev sup t ins this] obtain ais' cb where
    loop: "combine_loop env (ix_devs s) ?sup (ca_inputs cache) ?c = Inr (ais', Some cb)"
    and cb: "combined_ok t cb" "canon t (tv_value (cb_value cb)) = canon t (fold (pick t) ?vs ValueZero)"
      "cb_active cb \<longleftrightarrow> ?vs \<noteq> []"
    by (auto simp: zero_tagged_def)
  have comb: "oxr_input_combine_input env (ix_devs s) ?sup (ca_inputs cache) = Inr (ais', Some cb)"
    using loop by (simp add: oxr_input_combine_input_def inputs i del: combine_loop.simps)
  note out = no_outputs [OF assms(3) t]
  show ?thesis
  proof (cases "?vs = []")
    case True
    with cb(3) have "\<not> cb_active cb" by simp
    with True comb out show ?thesis
      by (simp add: oxr_action_cache_update_def assms(6) inputs largest_of_def)
  next
    case False
    from combined_state [OF t cb(1) prev cb(2,3) False, of "cb_timestamp cb"] obtain ch cur where
      st: "store_combined (cb_value cb) (ca_current cache) ((ca_current cache)\<lparr>st_active := True\<rparr>) = Inr (Some (ch, cur))"
        "largest_of t ?vs (ca_current cache) (stamp_state (ca_current cache) ch (cb_timestamp cb) cur)" by blast
    with False cb(3) comb out show ?thesis
      by (simp add: oxr_action_cache_update_def assms(6) inputs Let_def)
  qed
qed

text \<open>Two sticks of a float action, one pushed half forward and one fully back.\<close>

definition stick_input :: "c_float \<Rightarrow> xrt_input" where
  "stick_input x = \<lparr>in_active = True, in_timestamp = 5, in_name = (4, XRT_INPUT_TYPE_VEC1_MINUS_ONE_TO_ONE), in_value = ValueVec1 x\<rparr>"

definition sticks :: xrt_device where
  "sticks = \<lparr>xd_name = 7, xd_inputs = [stick_input (Fin (1 / 2)), stick_input (Fin (- 1))], xd_outputs = [], xd_binding_profiles = []\<rparr>"

definition stick :: "nat \<Rightarrow> oxr_action_input" where
  "stick n = \<lparr>ai_xdev = 1, ai_input = (1, n), ai_dpad_activate_name = no_input_name, ai_dpad_activate = None,
     ai_transforms = Some [\<lparr>xf_type = INPUT_TRANSFORM_IDENTITY, xf_result_type = XRT_INPUT_TYPE_VEC1_MINUS_ONE_TO_ONE\<rparr>],
     ai_bound_path = 2\<rparr>"

definition sticks_cache :: oxr_action_cache where
  "sticks_cache = zero_cache\<lparr>ca_inputs := [stick 0, stick 1]\<rparr>"

definition sticks_session :: input_session where
  "sticks_session = created_session sample_focused [50 \<mapsto> sample_set_ref] [1 \<mapsto> sticks]"

lemma sticks_ok:
  "session_ok Map.empty sample_input_env sticks_session"
  "cache_ok (ix_devs sticks_session) XR_ACTION_TYPE_FLOAT_INPUT sticks_cache"
proof -
  have "devices_ok [1 \<mapsto> sticks]" by (simp add: devices_ok_def sticks_def stick_input_def value_fits_def input_is_float_def)
  moreover have "env_ok sample_input_env [1 \<mapsto> sticks]" by (simp add: env_ok_def sample_input_env_def)
  ultimately show "session_ok Map.empty sample_input_env sticks_session"
    unfolding sticks_session_def by (rule created_ok)
  have "input_ok [1 \<mapsto> sticks] XR_ACTION_TYPE_FLOAT_INPUT (stick n)" if "n = 0 \<or> n = 1" for n
    using that
    by (auto simp: input_ok_def points_to_type_def sticks_def stick_def stick_input_def xform_ok_def action_takes_def
        oxr_type_matches_xrt_def input_is_float_def)
  then show "cache_ok (ix_devs sticks_session) XR_ACTION_TYPE_FLOAT_INPUT sticks_cache"
    by (simp add: cache_ok_def sticks_cache_def zero_cache_def sticks_session_def created_session_def
        oxr_session_action_context_init_def OXR_MAX_BINDINGS_PER_ACTION_def)
qed

theorem cache_takes_largest_input_witness:
  "\<exists>cache'. oxr_action_cache_update sample_input_env sticks_session [] 50 sticks_cache 9 no_subaction_paths True None = Inr (cache', [])
     \<and> st_value (ca_current cache') = ValueVec1 (Fin (- 1))"
proof -
  have "ix_set_refs sticks_session 50 \<noteq> None" "ca_inputs sticks_cache \<noteq> []" "sess_state (ix_sess sticks_session) = XR_SESSION_STATE_FOCUSED"
    by (simp_all add: sticks_session_def sticks_cache_def created_session_def oxr_session_action_context_init_def sample_focused_def)
  with cache_takes_largest_input [OF sticks_ok(1) _ sticks_ok(2), of 50 "[]" 9 no_subaction_paths None]
  obtain cache' where c: "oxr_action_cache_update sample_input_env sticks_session [] 50 sticks_cache 9 no_subaction_paths True None = Inr (cache', [])"
    "largest_of XR_ACTION_TYPE_FLOAT_INPUT
      (List.map_filter (contribution (ie_atan2f sample_input_env) (ix_devs sticks_session)
        (\<lambda>ai. oxr_input_supressed sticks_session [] no_subaction_paths 50 ai None)) (ca_inputs sticks_cache))
      (ca_current sticks_cache) (ca_current cache')" by auto
  have vs: "List.map_filter (contribution (ie_atan2f sample_input_env) (ix_devs sticks_session)
        (\<lambda>ai. oxr_input_supressed sticks_session [] no_subaction_paths 50 ai None)) (ca_inputs sticks_cache)
      = [ValueVec1 (Fin (1 / 2)), ValueVec1 (Fin (- 1))]" by code_simp
  from c(2) [unfolded vs] have "st_value (ca_current cache') = ValueVec1 (Fin (- 1))"
    by (auto simp: largest_of_def)
  with c(1) show ?thesis by blast
qed

section \<open>Suppression\<close>

text \<open>
  The active set \<open>active\<close> takes an input away from the set at \<open>ref\<close>: it is another attached set with a higher
  priority, it was requested for the subaction path, and one of its actions has an input with the same binding path.
\<close>

definition takes_over ::
  "input_session \<Rightarrow> XrActiveActionSetPriorityEXT list option \<Rightarrow> oxr_subaction_paths \<Rightarrow> addr \<Rightarrow> oxr_action_input
   \<Rightarrow> XrActiveActionSet \<Rightarrow> bool" where
  "takes_over s priorities subaction ref ai active \<longleftrightarrow>
     (case oxr_session_action_context_find_set s (as_act_set_key (act_set active)) of
        None \<Rightarrow> False
      | Some i \<Rightarrow>
          (case (get_set s i, oxr_get_action_set_priority s ref priorities) of
             (Inr other, Inr mine) \<Rightarrow>
               asa_act_set_ref other \<noteq> ref
               \<and> (case oxr_get_action_set_priority s (asa_act_set_ref other) priorities of Inl e \<Rightarrow> False | Inr theirs \<Rightarrow> mine < theirs)
               \<and> (sp_any (asa_requested_subaction_paths other)
                  \<or> (\<exists>path \<in> set all_subaction_paths. sp_get path (asa_requested_subaction_paths other) \<and> sp_get path subaction))
               \<and> (\<exists>aa \<in> set (asa_act_attachments other). \<exists>path \<in> set all_subaction_paths.
                    ai_bound_path ai \<in> ai_bound_path ` set (ca_inputs (aa_caches aa path)))
           | _ \<Rightarrow> False))"

lemma bound_in_set:
  "oxr_input_is_bound_in_act_set ai asa \<longleftrightarrow>
     (\<exists>aa \<in> set (asa_act_attachments asa). \<exists>path \<in> set all_subaction_paths.
        ai_bound_path ai \<in> ai_bound_path ` set (ca_inputs (aa_caches aa path)))"
  by (simp add: oxr_input_is_bound_in_act_set_def oxr_input_is_input_for_cache_def image_iff)

text \<open>
  C15. Suppression. An input of an action set is suppressed exactly if some active set takes it over: another
  attached set of strictly higher priority (the override of the call counts, where there is one), synchronised for
  any subaction path or for the one of the input, with an action bound to the same binding path. The order
  and repetition of the active sets do not matter.
\<close>
theorem suppression_decided_by_priority:
  assumes "session_ok acts env s" and "ix_set_refs s ref \<noteq> None"
  shows "oxr_input_supressed s actives subaction ref ai priorities
    = Inr (\<exists>active \<in> set actives. takes_over s priorities subaction ref ai active)"
proof -
  from priority_ok [OF assms(2)] obtain mine where mine: "oxr_get_action_set_priority s ref priorities = Inr mine" by blast
  have "suppressed_loop s priorities subaction ref mine ai actives = Inr (\<exists>active \<in> set actives. takes_over s priorities subaction ref ai active)"
  proof (induction actives)
    case (Cons active actives)
    show ?case
    proof (cases "oxr_session_action_context_find_set s (as_act_set_key (act_set active))")
      case None
      with Cons show ?thesis by (simp add: takes_over_def)
    next
      case (Some i)
      from find_set_ok [OF assms(1) Some] obtain sets where
        sets: "ix_sets s = Some sets" "i < length sets" "ix_set_refs s (asa_act_set_ref (sets ! i)) \<noteq> None" by blast
      from priority_ok [OF sets(3)] obtain theirs where
        theirs: "oxr_get_action_set_priority s (asa_act_set_ref (sets ! i)) priorities = Inr theirs" by blast
      let ?other = "sets ! i"
      have "takes_over s priorities subaction ref ai active \<longleftrightarrow>
          asa_act_set_ref ?other \<noteq> ref \<and> mine < theirs
          \<and> (sp_any (asa_requested_subaction_paths ?other)
             \<or> (\<exists>path \<in> set all_subaction_paths. sp_get path (asa_requested_subaction_paths ?other) \<and> sp_get path subaction))
          \<and> oxr_input_is_bound_in_act_set ai ?other"
        using Some sets mine theirs by (simp add: takes_over_def get_set_def bound_in_set)
      then have "suppressed_loop s priorities subaction ref mine ai (active # actives)
          = (if takes_over s priorities subaction ref ai active then Inr True else suppressed_loop s priorities subaction ref mine ai actives)"
        using Some sets theirs by (auto simp: get_set_def Let_def)
      then show ?thesis using Cons by simp
    qed
  qed simp
  with mine show ?thesis by (simp add: oxr_input_supressed_def)
qed

text \<open>Two action sets with an action for the same button; the second has the higher priority.\<close>

definition button :: oxr_action_input where
  "button = \<lparr>ai_xdev = 1, ai_input = (1, 0), ai_dpad_activate_name = no_input_name, ai_dpad_activate = None,
     ai_transforms = Some [\<lparr>xf_type = INPUT_TRANSFORM_IDENTITY, xf_result_type = XRT_INPUT_TYPE_BOOLEAN\<rparr>], ai_bound_path = 2\<rparr>"

definition button_action :: "nat \<Rightarrow> oxr_action_ref" where
  "button_action key = sample_action\<lparr>ar_act_key := key\<rparr>"

definition button_set :: "nat \<Rightarrow> oxr_action_set_attachment" where
  "button_set key = \<lparr>asa_act_set_ref = 50 + key, asa_act_set_key = key, asa_requested_subaction_paths = no_subaction_paths\<lparr>sp_left := True\<rparr>,
     asa_act_attachments = [(oxr_action_attachment_init (button_action key))
       \<lparr>aa_caches := (\<lambda>_. zero_cache)(OXR_SUB_ACTION_PATH_LEFT := zero_cache\<lparr>ca_inputs := [button]\<rparr>)\<rparr>]\<rparr>"

definition two_sets :: input_session where
  "two_sets = (created_session sample_focused [50 \<mapsto> sample_set_ref, 51 \<mapsto> sample_set_ref\<lparr>sr_act_set_key := 2, sr_priority := 1\<rparr>]
       [1 \<mapsto> sample_device])
     \<lparr>ix_sets := Some [button_set 0, button_set 1], ix_sets_by_key := [0 \<mapsto> 0, 1 \<mapsto> 1],
      ix_actions_by_key := [0 \<mapsto> (0, 0), 1 \<mapsto> (1, 0)]\<rparr>"

lemma two_sets_ok: "session_ok [0 \<mapsto> button_action 0, 1 \<mapsto> button_action 1] sample_input_env two_sets"
proof -
  have "input_ok [1 \<mapsto> sample_device] XR_ACTION_TYPE_BOOLEAN_INPUT button"
    by (auto simp: input_ok_def points_to_type_def sample_device_def button_def xform_ok_def action_takes_def oxr_type_matches_xrt_def)
  then have "attachment_ok [1 \<mapsto> sample_device] aa" if "aa \<in> set (asa_act_attachments (button_set key))" for aa key
    using that by (auto simp: button_set_def attachment_ok_def cache_ok_def zero_cache_def OXR_MAX_BINDINGS_PER_ACTION_def
      button_action_def sample_action_def oxr_action_attachment_init_def)
  moreover have "aa_act_ref aa = button_action key" if "aa \<in> set (asa_act_attachments (button_set key))" for aa key
    using that by (auto simp: button_set_def oxr_action_attachment_init_def)
  moreover have "ar_act_key (button_action key) = key" "ar_act_key (aa_act_ref (asa_act_attachments (button_set key) ! 0)) = key" for key
    by (simp_all add: button_action_def button_set_def oxr_action_attachment_init_def)
  moreover have "length (asa_act_attachments (button_set key)) = 1" "asa_act_set_ref (button_set key) = 50 + key"
      "asa_act_set_key (button_set key) = key" for key
    by (simp_all add: button_set_def)
  ultimately show ?thesis
    using sample_ok(1,2)
    by (auto simp: session_ok_def two_sets_def created_session_def oxr_session_action_context_init_def sets_ok_def maps_ok_def
        split: if_splits)
qed

theorem suppression_decided_by_priority_witness:
  "oxr_input_supressed two_sets [\<lparr>act_set = sample_set, subactionPath = 21\<rparr>] (only_path OXR_SUB_ACTION_PATH_LEFT) 50 button None = Inr True"
proof -
  have "ix_set_refs two_sets 50 \<noteq> None" by (simp add: two_sets_def created_session_def oxr_session_action_context_init_def)
  note eq = suppression_decided_by_priority [OF two_sets_ok this,
      of "[\<lparr>act_set = sample_set, subactionPath = 21\<rparr>]" "only_path OXR_SUB_ACTION_PATH_LEFT" button None]
  have "takes_over two_sets None (only_path OXR_SUB_ACTION_PATH_LEFT) 50 button \<lparr>act_set = sample_set, subactionPath = 21\<rparr>"
    by code_simp
  then show ?thesis unfolding eq by simp
qed

section \<open>Vibrations end\<close>

text \<open>Updates of a cache: the time and whether its subaction path was requested.\<close>

primrec run_updates ::
  "input_env \<Rightarrow> input_session \<Rightarrow> XrActiveActionSet list \<Rightarrow> addr \<Rightarrow> oxr_subaction_paths \<Rightarrow> XrActiveActionSetPriorityEXT list option
   \<Rightarrow> (int \<times> bool) list \<Rightarrow> oxr_action_cache \<Rightarrow> fault + oxr_action_cache \<times> (addr \<times> nat \<times> vibration) list" where
  "run_updates env s actives ref sub priorities [] c = Inr (c, [])"
| "run_updates env s actives ref sub priorities (u # us) c =
     try_bind (oxr_action_cache_update env s actives ref c (fst u) sub (snd u) priorities) (\<lambda>(c1, calls).
     try_bind (run_updates env s actives ref sub priorities us c1) (\<lambda>(c2, calls'). Inr (c2, calls @ calls')))"

definition stop_calls :: "oxr_action_cache \<Rightarrow> (addr \<times> nat \<times> vibration) list" where
  "stop_calls c = map (\<lambda>out. (ao_xdev out, ao_name out, no_vibration)) (ca_outputs c)"

lemma output_update:
  assumes "ca_outputs c \<noteq> []" and "0 \<le> ca_stop_output_time c"
  shows "\<exists>c'. oxr_action_cache_update env s actives ref c time sub sel priorities
      = Inr (c', if 0 < ca_stop_output_time c \<and> (sel \<longrightarrow> ca_stop_output_time c < time) then stop_calls c else [])
    \<and> ca_outputs c' = ca_outputs c
    \<and> ca_stop_output_time c' = (if 0 < ca_stop_output_time c \<and> (sel \<longrightarrow> ca_stop_output_time c < time) then 0 else ca_stop_output_time c)"
  using assms
  by (auto simp: oxr_action_cache_update_def oxr_action_cache_stop_output_def stop_calls_def Let_def)

lemma run_updates_stop:
  "ca_outputs c \<noteq> [] \<Longrightarrow> 0 \<le> ca_stop_output_time c \<Longrightarrow>
   \<exists>c'. run_updates env s actives ref sub priorities us c
     = Inr (c', if 0 < ca_stop_output_time c \<and> (\<exists>(time, sel) \<in> set us. sel \<longrightarrow> ca_stop_output_time c < time) then stop_calls c else [])"
proof (induction us arbitrary: c)
  case (Cons u us)
  obtain time sel where u: "u = (time, sel)" by (rule prod.exhaust)
  from output_update [OF Cons.prems, of env s actives ref time sub sel priorities] obtain c1 where
    c1: "oxr_action_cache_update env s actives ref c time sub sel priorities
        = Inr (c1, if 0 < ca_stop_output_time c \<and> (sel \<longrightarrow> ca_stop_output_time c < time) then stop_calls c else [])"
      "ca_outputs c1 = ca_outputs c"
      "ca_stop_output_time c1 = (if 0 < ca_stop_output_time c \<and> (sel \<longrightarrow> ca_stop_output_time c < time) then 0 else ca_stop_output_time c)"
    by blast
  from Cons.prems c1(2,3) have "ca_outputs c1 \<noteq> []" "0 \<le> ca_stop_output_time c1" by simp_all
  from Cons.IH [OF this] obtain c2 where
    "run_updates env s actives ref sub priorities us c1
     = Inr (c2, if 0 < ca_stop_output_time c1 \<and> (\<exists>(time, sel) \<in> set us. sel \<longrightarrow> ca_stop_output_time c1 < time) then stop_calls c1 else [])"
    by blast
  moreover have "stop_calls c1 = stop_calls c" by (simp add: stop_calls_def c1(2))
  ultimately show ?case using c1(1,3) u by auto
qed simp


definition buzz_cache :: oxr_action_cache where
  "buzz_cache = zero_cache\<lparr>ca_outputs := [\<lparr>ao_xdev = 1, ao_name = 3, ao_bound_path = 2\<rparr>]\<rparr>"

definition buzz :: vibration where
  "buzz = \<lparr>vib_frequency = Fin 0, vib_amplitude = Fin 1, vib_duration = 5\<rparr>"


section \<open>Enumerating the sources of an action\<close>

text \<open>The first occurrences in a list, and a list whose proper prefixes already fill the array.\<close>

primrec firsts :: "'a list \<Rightarrow> 'a list" where
  "firsts [] = []"
| "firsts (x # xs) = x # filter (\<lambda>y. y \<noteq> x) (firsts xs)"

definition overfull :: "XrPath list \<Rightarrow> bool" where
  "overfull ps \<longleftrightarrow> (\<exists>k < length ps. OXR_MAX_BINDINGS_PER_ACTION \<le> card (set (take k ps)))"

lemma set_firsts [simp]: "set (firsts xs) = set xs"
  by (induction xs) auto

lemma distinct_firsts [simp]: "distinct (firsts xs)"
  by (induction xs) simp_all

lemma length_firsts: "length (firsts xs) = card (set xs)"
  using distinct_card [OF distinct_firsts, of xs] by simp

lemma card_take_less: "card (set (take k xs)) \<le> k"
  using card_length [of "take k xs"] by simp

lemma small_not_overfull: "length ps \<le> OXR_MAX_BINDINGS_PER_ACTION \<Longrightarrow> \<not> overfull ps"
  unfolding overfull_def using card_take_less by (metis le_trans less_le_not_le)

lemma not_overfull_card: "\<not> overfull ps \<Longrightarrow> card (set ps) \<le> OXR_MAX_BINDINGS_PER_ACTION"
proof (cases ps rule: rev_cases)
  case (snoc qs p)
  assume "\<not> overfull ps"
  moreover have "length qs < length ps" "take (length qs) ps = qs" using snoc by simp_all
  ultimately have "card (set qs) < OXR_MAX_BINDINGS_PER_ACTION" unfolding overfull_def by (metis not_le)
  moreover have "card (set ps) \<le> Suc (card (set qs))" using snoc by (simp add: card_insert_le_m1 card_insert_if)
  ultimately show ?thesis by simp
qed (simp add: OXR_MAX_BINDINGS_PER_ACTION_def)

lemma add_path_step:
  assumes "0 \<notin> set xs"
  shows "add_path_to_set p xs
    = (if OXR_MAX_BINDINGS_PER_ACTION \<le> length xs then Inl AssertFailed else Inr (if p \<in> set xs then xs else xs @ [p]))"
  using assms by (auto simp: add_path_to_set_def c_assert_def dest: set_takeWhileD)

lemma add_paths_firsts:
  "distinct xs \<Longrightarrow> 0 \<notin> set xs \<union> set ps \<Longrightarrow>
   add_paths ps xs =
     (if \<exists>k < length ps. OXR_MAX_BINDINGS_PER_ACTION \<le> card (set xs \<union> set (take k ps)) then Inl AssertFailed
      else Inr (xs @ filter (\<lambda>y. y \<notin> set xs) (firsts ps)))"
proof (induction ps arbitrary: xs)
  case (Cons p ps)
  let ?xs = "if p \<in> set xs then xs else xs @ [p]"
  have len: "length xs = card (set xs)" using Cons.prems(1) distinct_card by fastforce
  have ex: "(\<exists>k < length (p # ps). OXR_MAX_BINDINGS_PER_ACTION \<le> card (set xs \<union> set (take k (p # ps))))
    \<longleftrightarrow> OXR_MAX_BINDINGS_PER_ACTION \<le> length xs
      \<or> (\<exists>k < length ps. OXR_MAX_BINDINGS_PER_ACTION \<le> card (set ?xs \<union> set (take k ps)))" (is "?l \<longleftrightarrow> ?r")
  proof
    assume ?l
    then obtain k where "k < length (p # ps)" "OXR_MAX_BINDINGS_PER_ACTION \<le> card (set xs \<union> set (take k (p # ps)))" by blast
    then show ?r using len by (cases k) (auto simp: insert_absorb)
  next
    assume ?r
    then show ?l
    proof
      assume "OXR_MAX_BINDINGS_PER_ACTION \<le> length xs"
      then show ?l using len by (intro exI [of _ 0]) simp
    next
      assume "\<exists>k < length ps. OXR_MAX_BINDINGS_PER_ACTION \<le> card (set ?xs \<union> set (take k ps))"
      then obtain k where "k < length ps" "OXR_MAX_BINDINGS_PER_ACTION \<le> card (set ?xs \<union> set (take k ps))" by blast
      then show ?l by (intro exI [of _ "Suc k"]) (auto simp: insert_absorb split: if_splits)
    qed
  qed
  have "distinct ?xs" "0 \<notin> set ?xs \<union> set ps" using Cons.prems by auto
  note IH = Cons.IH [OF this]
  have out: "?xs @ filter (\<lambda>y. y \<notin> set ?xs) (firsts ps) = xs @ filter (\<lambda>y. y \<notin> set xs) (firsts (p # ps))"
    by (auto simp: filter_filter intro!: filter_cong)
  show ?case
  proof (cases "OXR_MAX_BINDINGS_PER_ACTION \<le> length xs")
    case True
    with ex Cons.prems(2) show ?thesis by (simp add: add_path_step)
  next
    case False
    have "add_paths (p # ps) xs = add_paths ps ?xs" using False Cons.prems(2) by (simp add: add_path_step)
    then show ?thesis unfolding IH ex out using False by simp
  qed
qed simp

text \<open>
  C31. Enumerating sources. For an attached action, \<^verbatim>\<open>xrEnumerateBoundSourcesForAction\<close> gives each path its inputs and
  outputs are bound to once, in the order of the subaction paths, with the usual two-call protocol; at most 32. If more
  paths follow after 32 different ones, its assertion fails, even if all that follow are known already. An action
  with up to 32 bindings in total never comes to that.
\<close>
theorem sources_enumerated:
  assumes "session_ok acts env s" and "acts (ar_act_key act) = Some act"
    and "oxr_session_attached_actions_find s (ar_act_key act) = Some p" and "get_attachment s p = Inr aa"
    and "\<not> has_lost (ix_sess s)" and "0 \<notin> set (attachment_bound_paths aa)"
  shows "oxr_xrEnumerateBoundSourcesForAction s act capacity =
      (let paths = firsts (attachment_bound_paths aa); n = length paths; ok = oxr_session_success_result (ix_sess s)
       in if overfull (attachment_bound_paths aa) then Inl AssertFailed
          else if capacity = 0 then Inr (ok, Some n, [])
          else if capacity < n then Inr (XR_ERROR_SIZE_INSUFFICIENT, Some n, [])
          else Inr (ok, Some n, paths))
    \<and> (length (attachment_bound_paths aa) \<le> 32 \<longrightarrow> \<not> overfull (attachment_bound_paths aa))
    \<and> (\<not> overfull (attachment_bound_paths aa) \<longrightarrow> length (firsts (attachment_bound_paths aa)) \<le> 32)"
proof -
  let ?ps = "attachment_bound_paths aa"
  from find_attachment_ok [OF assms(1-3)] have "ix_sets s \<noteq> None" by blast
  then have enum: "oxr_xrEnumerateBoundSourcesForAction s act capacity =
      try_bind (add_paths ?ps []) (\<lambda>temp.
        case two_call_check capacity True (length temp) (oxr_session_success_result (ix_sess s)) of
          Some (r, n) \<Rightarrow> Inr (r, n, [])
        | None \<Rightarrow> Inr (oxr_session_success_result (ix_sess s), Some (length temp), temp))"
    using assms(3-5)
    by (simp add: oxr_xrEnumerateBoundSourcesForAction_def oxr_session_action_context_has_attached_act_sets_def
        oxr_action_enumerate_bound_sources_def)
  have add: "add_paths ?ps [] = (if overfull ?ps then Inl AssertFailed else Inr (firsts ?ps))"
    using add_paths_firsts [of "[]" ?ps] assms(6) by (simp add: overfull_def)
  have small: "length (firsts ?ps) \<le> 32" if "\<not> overfull ?ps"
    using not_overfull_card [OF that] by (simp add: length_firsts OXR_MAX_BINDINGS_PER_ACTION_def)
  then have "u32 (length (firsts ?ps)) = length (firsts ?ps)" if "\<not> overfull ?ps"
    using that by (force simp: u32_def)
  then show ?thesis
    using small small_not_overfull [of ?ps] by (auto simp: enum add two_call_check_def Let_def OXR_MAX_BINDINGS_PER_ACTION_def)
qed

theorem sources_enumerated_witness:
  "oxr_xrEnumerateBoundSourcesForAction two_sets (button_action 0) 4 = Inr (XR_SUCCESS, Some 1, [2])"
proof -
  let ?aa = "hd (asa_act_attachments (button_set 0))"
  have f: "oxr_session_attached_actions_find two_sets (ar_act_key (button_action 0)) = Some (0, 0)"
    by (simp add: two_sets_def oxr_session_attached_actions_find_def button_action_def)
  have g: "get_attachment two_sets (0, 0) = Inr ?aa"
    by (simp add: two_sets_def get_attachment_def get_set_def button_set_def)
  have l: "\<not> has_lost (ix_sess two_sets)" by code_simp
  have ps: "attachment_bound_paths ?aa = [2]" by code_simp
  have ok: "oxr_session_success_result (ix_sess two_sets) = XR_SUCCESS" by code_simp
  have acts: "[0 \<mapsto> button_action 0, 1 \<mapsto> button_action 1] (ar_act_key (button_action 0)) = Some (button_action 0)"
    by (simp add: button_action_def)
  from sources_enumerated [OF two_sets_ok acts f g l, of 4] show ?thesis
    by (simp add: ps ok overfull_def OXR_MAX_BINDINGS_PER_ACTION_def)
qed

section \<open>Where the code does something else\<close>

text \<open>
  C35. An action that could not be bound reads as active. If a device has inputs for an action but none of them
  can be converted to its type, \<^verbatim>\<open>oxr_action_bind_io\<close> drops the inputs (the comment says it pretends that it never
  bound the action) but leaves \<^verbatim>\<open>current.active\<close> set. No synchronisation that requests the subaction path ever clears it.
\<close>
theorem unbindable_action_reads_active:
  assumes "get_binding env devs roles act_ref profile path = Inr (inputs, [])" and "inputs \<noteq> []"
    and "keep_transformed env devs act_ref key profile inputs = Inr []"
  shows "\<exists>c. oxr_action_bind_io env devs roles act_ref key profile path cache = Inr c \<and> ca_inputs c = [] \<and> st_active (ca_current c)
    \<and> (\<forall>env' s actives ref time sub priorities.
         oxr_action_cache_update env' s actives ref c time sub True priorities = Inr (c, []))"
  using assms
  by (auto simp: oxr_action_bind_io_def oxr_action_cache_teardown_def zero_cache_def oxr_action_cache_update_def Let_def)

definition vector_action :: oxr_action_ref where
  "vector_action = sample_action\<lparr>ar_action_type := XR_ACTION_TYPE_VECTOR2F_INPUT\<rparr>"

theorem unbindable_action_reads_active_witness:
  "\<exists>c. oxr_action_bind_io sample_input_env [1 \<mapsto> sample_device] sample_roles vector_action 1
         (Some (oxr_interaction_profile_clone sample_profile)) OXR_SUB_ACTION_PATH_LEFT zero_cache = Inr c
     \<and> ca_inputs c = [] \<and> st_active (ca_current c)"
proof -
  let ?in = "\<lparr>ai_xdev = 1, ai_input = (1, 0), ai_dpad_activate_name = no_input_name, ai_dpad_activate = None, ai_transforms = None,
    ai_bound_path = 2\<rparr>"
  let ?p = "Some (oxr_interaction_profile_clone sample_profile)"
  have g: "get_binding sample_input_env [1 \<mapsto> sample_device] sample_roles vector_action ?p OXR_SUB_ACTION_PATH_LEFT = Inr ([?in], [])"
    by code_simp
  have k: "keep_transformed sample_input_env [1 \<mapsto> sample_device] vector_action 1 ?p [?in] = Inr []"
    by code_simp
  from unbindable_action_reads_active [OF g _ k] show ?thesis by blast
qed

text \<open>The filler of the state functions does not look at the eyes.\<close>

lemma eyes_never_read:
  "fill_state env t (filler_states (only_path OXR_SUB_ACTION_PATH_EYES) aa) reset_state = Inr reset_state"
  by (simp add: filler_states_def only_path_def no_subaction_paths_def)

text \<open>
  Two inputs of one subaction path are combined by the largest absolute value, the subaction paths of a float
  action by the largest value: an input fully back wins in the first case and loses in the second.
\<close>

lemma float_rules_differ:
  "pick XR_ACTION_TYPE_FLOAT_INPUT (ValueVec1 (Fin (- 1))) (ValueVec1 (Fin (1 / 2))) = ValueVec1 (Fin (- 1))"
  "any_vec1 [\<lparr>st_value = ValueVec1 (Fin (1 / 2)), st_active = True, st_changed = False, st_timestamp = 5\<rparr>,
     \<lparr>st_value = ValueVec1 (Fin (- 1)), st_active = True, st_changed = False, st_timestamp = 6\<rparr>] (False, Fin (- 2), 0)
   = Inr (True, Fin (1 / 2), 5)"
  by (simp_all add: pick_def)

text \<open>A vibration of the longest duration overflows the clock.\<close>

lemma endless_vibration_overflows:
  assumes "oxr_session_attached_actions_find s key = Some p" "sess_state (ix_sess s) = XR_SESSION_STATE_FOCUSED"
    and "0 < now" "vib_duration data = 2 ^ 63 - 1"
  shows "oxr_action_apply_haptic_feedback now key paths data s = Inl SignedOverflow"
  using assms by (simp add: oxr_action_apply_haptic_feedback_def add_int64_def)

end
